(* ===== verification/Prelude.thy ===== *)
theory Prelude
  imports Main "HOL-Library.Multiset" "HOL-Library.Product_Lexorder"
begin

text \<open>
  Shared vocabulary of the development: the result type in which every Go error return and
  every run-time panic is a value, the list operations Go writes with slices, and the generic
  facts about them that the component theories rely on.

  The collections: \<open>conserve\<close> gathers the facts that say where the elements of a multiset
  go (tiles of a bag, money of an account), \<open>frame\<close> the facts that say which part of a state
  an operation leaves alone.
\<close>

named_theorems conserve
named_theorems frame

section \<open>Results\<close>

text \<open>
  \<open>Ok v\<close> is a normal return, \<open>Err e\<close> a Go \<^verbatim>\<open>error\<close> value, \<open>Panic\<close> a run-time panic
  (index out of range, nil dereference).
\<close>

datatype ('e, 'a) res = Ok 'a | Err 'e | Panic

fun is_Ok :: "('e, 'a) res \<Rightarrow> bool" where
  "is_Ok (Ok _) = True"
| "is_Ok _ = False"

lemma is_Ok_iff: "is_Ok r \<longleftrightarrow> (\<exists>v. r = Ok v)"
  by (cases r) auto

text \<open>An index expression: \<open>None\<close> is the out-of-range panic.\<close>

definition index_opt :: "'a list \<Rightarrow> nat \<Rightarrow> 'a option" where
  "index_opt xs i = (if i < length xs then Some (xs ! i) else None)"

lemma index_opt_Some [simp]: "i < length xs \<Longrightarrow> index_opt xs i = Some (xs ! i)"
  by (simp add: index_opt_def)

lemma index_opt_eq_Some_iff: "index_opt xs i = Some x \<longleftrightarrow> i < length xs \<and> xs ! i = x"
  by (auto simp: index_opt_def)

lemma index_opt_eq_None_iff [simp]: "index_opt xs i = None \<longleftrightarrow> length xs \<le> i"
  by (auto simp: index_opt_def)

section \<open>Slices\<close>

text \<open>\<^verbatim>\<open>append(xs[:i], xs[i+1:]...)\<close>: the slice without the element at \<open>i\<close>.\<close>

definition remove_at :: "nat \<Rightarrow> 'a list \<Rightarrow> 'a list" where
  "remove_at i xs = take i xs @ drop (Suc i) xs"

lemma remove_at_mset [conserve]:
  "i < length xs \<Longrightarrow> mset xs = add_mset (xs ! i) (mset (remove_at i xs))"
  unfolding remove_at_def
  by (subst id_take_nth_drop [of i xs]) simp_all

lemma length_remove_at [simp]: "i < length xs \<Longrightarrow> length (remove_at i xs) = length xs - 1"
  by (simp add: remove_at_def min_def)

lemma set_remove_at_subset: "set (remove_at i xs) \<subseteq> set xs"
  unfolding remove_at_def using set_take_subset set_drop_subset by fastforce

text \<open>The first index whose element satisfies a test, as a range loop with a return finds it.\<close>

fun find_index :: "('a \<Rightarrow> bool) \<Rightarrow> 'a list \<Rightarrow> nat option" where
  "find_index P [] = None"
| "find_index P (x # xs) = (if P x then Some 0 else map_option Suc (find_index P xs))"

lemma find_index_None_iff: "find_index P xs = None \<longleftrightarrow> (\<forall>x \<in> set xs. \<not> P x)"
  by (induction xs) auto

lemma find_index_SomeD:
  "find_index P xs = Some i \<Longrightarrow> i < length xs \<and> P (xs ! i) \<and> (\<forall>j < i. \<not> P (xs ! j))"
proof (induction xs arbitrary: i)
  case (Cons x xs)
  show ?case
  proof (cases "P x")
    case False
    with Cons.prems obtain k where k: "find_index P xs = Some k" "i = Suc k"
      by auto
    with Cons.IH [OF k(1)] False show ?thesis
      by (auto simp: less_Suc_eq_0_disj)
  qed (use Cons.prems in auto)
qed simp

lemma find_index_SomeI:
  "i < length xs \<Longrightarrow> P (xs ! i) \<Longrightarrow> (\<And>j. j < i \<Longrightarrow> \<not> P (xs ! j)) \<Longrightarrow> find_index P xs = Some i"
proof (induction xs arbitrary: i)
  case (Cons x xs)
  then show ?case
  proof (cases i)
    case 0
    with Cons.prems show ?thesis by simp
  next
    case (Suc k)
    have "find_index P xs = Some k"
      using Cons.prems Suc by (intro Cons.IH) fastforce+
    moreover from Cons.prems(3) [of 0] Suc have "\<not> P x" by simp
    ultimately show ?thesis using Suc by simp
  qed
qed simp

text \<open>Exchanging two elements in place.\<close>

definition swap :: "nat \<Rightarrow> nat \<Rightarrow> 'a list \<Rightarrow> 'a list" where
  "swap i j xs = xs[i := xs ! j, j := xs ! i]"

lemma length_swap [simp]: "length (swap i j xs) = length xs"
  by (simp add: swap_def)

lemma mset_swap [conserve]:
  assumes "i < length xs" "j < length xs"
  shows "mset (swap i j xs) = mset xs"
  using assms by (simp add: swap_def mset_update nth_list_update)

section \<open>Runs of a step function\<close>

text \<open>
  A sequence of operations, each of which may fail, stops at the first failure.
\<close>

fun run_res :: "('op \<Rightarrow> 's \<Rightarrow> ('e, 's) res) \<Rightarrow> 'op list \<Rightarrow> 's \<Rightarrow> ('e, 's) res" where
  "run_res f [] s = Ok s"
| "run_res f (x # xs) s =
     (case f x s of Ok s' \<Rightarrow> run_res f xs s' | Err e \<Rightarrow> Err e | Panic \<Rightarrow> Panic)"

lemma run_res_invariant:
  assumes step: "\<And>x s s'. I s \<Longrightarrow> f x s = Ok s' \<Longrightarrow> I s'"
  shows "I s \<Longrightarrow> run_res f xs s = Ok s' \<Longrightarrow> I s'"
proof (induction xs arbitrary: s)
  case (Cons x xs)
  then show ?case using step by (auto split: res.splits)
qed simp

lemma run_res_append:
  "run_res f (xs @ ys) s =
     (case run_res f xs s of Ok s' \<Rightarrow> run_res f ys s' | Err e \<Rightarrow> Err e | Panic \<Rightarrow> Panic)"
  by (induction xs arbitrary: s) (auto split: res.splits)

section \<open>Sums and fold facts\<close>

lemma sum_list_update_int:
  fixes xs :: "int list"
  assumes "i < length xs"
  shows "sum_list (xs[i := v]) = sum_list xs - xs ! i + v"
  using assms by (induction xs arbitrary: i) (auto split: nat.splits)

lemma sum_list_map2_minus:
  fixes xs ys :: "int list"
  assumes "length xs = length ys"
  shows "sum_list (map2 (-) xs ys) = sum_list xs - sum_list ys"
  using assms by (induction xs ys rule: list_induct2) auto

end
