(* ===== verification/Actor.thy ===== *)
theory Actor
  imports Prelude
begin

text \<open>
  The interface every actor of the repository has to the runtime: a private state and a receive
  function the runtime calls with one message at a time. \<open>None\<close> is a panic. The locale \<open>actor\<close> states
  the contract an actor's invariant has to meet (whatever message it accepts, it does not panic
  and the invariant holds again) and proves once what follows for mailboxes and runs; the component
  theories interpret it on their own receive functions.
\<close>

section \<open>Mailboxes and runs\<close>

fun deliver :: "('m \<Rightarrow> 's \<Rightarrow> 's option) \<Rightarrow> 'm list \<Rightarrow> 's \<Rightarrow> 's option" where
  "deliver receive [] s = Some s"
| "deliver receive (m # ms) s = Option.bind (receive m s) (deliver receive ms)"

lemma deliver_append:
  "deliver receive (ms @ ns) s = Option.bind (deliver receive ms s) (deliver receive ns)"
  by (induction ms arbitrary: s) (auto split: Option.bind_splits)

inductive reaches :: "('m \<Rightarrow> 's \<Rightarrow> 's option) \<Rightarrow> ('s \<Rightarrow> 'm \<Rightarrow> bool) \<Rightarrow> 's \<Rightarrow> 's \<Rightarrow> bool"
  for receive accepts s0 where
  start: "reaches receive accepts s0 s0"
| step: "reaches receive accepts s0 s \<Longrightarrow> accepts s m \<Longrightarrow> receive m s = Some s' \<Longrightarrow>
     reaches receive accepts s0 s'"

inductive_cases reachesE: "reaches receive accepts s0 s"

text \<open>Every message of the mailbox is accepted in the state it is received in.\<close>

fun accepted :: "('m \<Rightarrow> 's \<Rightarrow> 's option) \<Rightarrow> ('s \<Rightarrow> 'm \<Rightarrow> bool) \<Rightarrow> 'm list \<Rightarrow> 's \<Rightarrow> bool" where
  "accepted receive accepts [] s = True"
| "accepted receive accepts (m # ms) s =
     (accepts s m \<and> (case receive m s of None \<Rightarrow> True | Some s' \<Rightarrow> accepted receive accepts ms s'))"

lemma accepted_True: "accepted receive (\<lambda>_ _. True) ms s"
  by (induction ms arbitrary: s) (auto split: option.split)

section \<open>Actors with an invariant\<close>

locale actor =
  fixes receive :: "'m \<Rightarrow> 's \<Rightarrow> 's option"
    and ok :: "'s \<Rightarrow> bool"
    and accepts :: "'s \<Rightarrow> 'm \<Rightarrow> bool"
  assumes receive_ok: "ok s \<Longrightarrow> accepts s m \<Longrightarrow> \<exists>s'. receive m s = Some s' \<and> ok s'"
begin

lemma reaches_ok:
  assumes "reaches receive accepts s0 s" and "ok s0"
  shows "ok s"
  using assms
proof (induction rule: reaches.induct)
  case (step s m s')
  then show ?case using receive_ok [of s m] by auto
qed

lemma never_panics:
  assumes "reaches receive accepts s0 s" and "ok s0" and "accepts s m"
  shows "\<exists>s'. receive m s = Some s' \<and> ok s'"
  using receive_ok [OF reaches_ok [OF assms(1,2)] assms(3)] .

lemma deliver_ok:
  assumes "ok s" and "accepted receive accepts ms s"
  shows "\<exists>s'. deliver receive ms s = Some s' \<and> ok s'"
  using assms
proof (induction ms arbitrary: s)
  case (Cons m ms)
  then obtain s' where "receive m s = Some s'" "ok s'" using receive_ok [of s m] by auto
  with Cons show ?case by auto
qed simp

end

text \<open>An actor that accepts every message and has no panicking path.\<close>

locale total_actor =
  fixes handle :: "'m \<Rightarrow> 's \<Rightarrow> 's"
    and ok :: "'s \<Rightarrow> bool"
  assumes handle_ok: "ok s \<Longrightarrow> ok (handle m s)"
begin

lemma fold_ok: "ok s \<Longrightarrow> ok (fold handle ms s)"
  by (induction ms arbitrary: s) (auto intro: handle_ok)

end

sublocale total_actor \<subseteq> actor "\<lambda>m s. Some (handle m s)" ok "\<lambda>s m. True"
  by unfold_locales (auto intro: handle_ok)

section \<open>Encodings\<close>

text \<open>
  What two parties of a wire format rely on: everything the sender may hold has an encoding, and
  the receiver reads it back.
\<close>

locale codec =
  fixes encode :: "'a \<Rightarrow> 'w option"
    and decode :: "'w \<Rightarrow> ('e, 'a) res"
    and valid :: "'a \<Rightarrow> bool"
  assumes decode_encode: "valid x \<Longrightarrow> \<exists>w. encode x = Some w \<and> decode w = Ok x"
begin

lemma encode_total: "valid x \<Longrightarrow> encode x \<noteq> None"
  using decode_encode [of x] by auto

lemma encode_inj:
  assumes "valid x" and "valid y" and "encode x = encode y"
  shows "x = y"
proof -
  obtain w where "encode x = Some w" "decode w = Ok x" using decode_encode [OF assms(1)] by blast
  moreover obtain v where "encode y = Some v" "decode v = Ok y" using decode_encode [OF assms(2)] by blast
  ultimately show ?thesis using assms(3) by simp
qed

lemma encode_all: "list_all valid xs \<Longrightarrow> \<exists>ws. those (map encode xs) = Some ws \<and> map decode ws = map Ok xs"
proof (induction xs)
  case (Cons x xs)
  then obtain ws where "those (map encode xs) = Some ws" "map decode ws = map Ok xs" by auto
  moreover obtain w where "encode x = Some w" "decode w = Ok x"
    using decode_encode [of x] Cons.prems by auto
  ultimately show ?case by simp
qed simp

end

end
