(* ===== verification/Go_Std.thy ===== *)
theory Go_Std
  imports Prelude
begin

text \<open>
  The parts of the Go standard library that the modelled code calls, written as the library
  computes them: the binary search of \<^verbatim>\<open>sort.Search\<close>, the Fisher--Yates loop of
  \<^verbatim>\<open>rand.Shuffle\<close> over a stream of random draws, and the string helpers
  (\<^verbatim>\<open>strings.ToUpper\<close>, \<^verbatim>\<open>TrimSpace\<close>, \<^verbatim>\<open>Cut\<close>, \<^verbatim>\<open>TrimPrefix\<close>) on ASCII text. A Go
  \<^verbatim>\<open>rune\<close> is a \<open>char\<close> here, so text is ASCII throughout the development.
\<close>

section \<open>sort.Search\<close>

function sort_search_loop :: "(nat \<Rightarrow> bool) \<Rightarrow> nat \<Rightarrow> nat \<Rightarrow> nat" where
  "sort_search_loop f i j =
     (if i < j
      then let h = (i + j) div 2 in
           if \<not> f h then sort_search_loop f (h + 1) j else sort_search_loop f i h
      else i)"
  by pat_completeness auto
termination
  by (relation "measure (\<lambda>(f, i, j). j - i)") auto

declare sort_search_loop.simps [simp del]

definition sort_search :: "nat \<Rightarrow> (nat \<Rightarrow> bool) \<Rightarrow> nat" where
  "sort_search n f = sort_search_loop f 0 n"

text \<open>On a predicate that stays true once true, the search returns the least true index.\<close>

lemma sort_search_loop_spec:
  assumes "i \<le> j" and "\<And>a b. a \<le> b \<Longrightarrow> b < j \<Longrightarrow> f a \<Longrightarrow> f b"
  shows "i \<le> sort_search_loop f i j \<and> sort_search_loop f i j \<le> j \<and>
         (\<forall>k. i \<le> k \<longrightarrow> k < sort_search_loop f i j \<longrightarrow> \<not> f k) \<and>
         (sort_search_loop f i j < j \<longrightarrow> f (sort_search_loop f i j))"
  using assms
proof (induction f i j rule: sort_search_loop.induct)
  case (1 f i j)
  show ?case
  proof (cases "i < j")
    case False
    then have "sort_search_loop f i j = i" by (subst sort_search_loop.simps) simp
    with "1.prems" False show ?thesis by simp
  next
    case True
    define h where "h = (i + j) div 2"
    have h: "i \<le> h" "h < j" using True by (auto simp: h_def)
    show ?thesis
    proof (cases "f h")
      case False
      have below: "\<not> f k" if "k \<le> h" for k
        using "1.prems"(2) [of k h] h that False by auto
      have IH: "h + 1 \<le> sort_search_loop f (h + 1) j \<and> sort_search_loop f (h + 1) j \<le> j \<and>
         (\<forall>k. h + 1 \<le> k \<longrightarrow> k < sort_search_loop f (h + 1) j \<longrightarrow> \<not> f k) \<and>
         (sort_search_loop f (h + 1) j < j \<longrightarrow> f (sort_search_loop f (h + 1) j))"
        using "1.IH"(1) [OF True h_def] False h "1.prems"(2) by simp
      have eq: "sort_search_loop f i j = sort_search_loop f (h + 1) j"
        using True False by (subst sort_search_loop.simps) (simp add: h_def Let_def)
      have "\<not> f k" if "k < sort_search_loop f (h + 1) j" for k
        using IH below [of k] that by (cases "k \<le> h") auto
      with IH h show ?thesis unfolding eq by auto
    next
      case fh: True
      have IH: "i \<le> sort_search_loop f i h \<and> sort_search_loop f i h \<le> h \<and>
         (\<forall>k. i \<le> k \<longrightarrow> k < sort_search_loop f i h \<longrightarrow> \<not> f k) \<and>
         (sort_search_loop f i h < h \<longrightarrow> f (sort_search_loop f i h))"
        using "1.IH"(2) [OF True h_def] fh h "1.prems"(2) by simp
      have eq: "sort_search_loop f i j = sort_search_loop f i h"
        using True fh by (subst sort_search_loop.simps) (simp add: h_def Let_def)
      have "f (sort_search_loop f i h)"
        using IH fh by (cases "sort_search_loop f i h < h") auto
      with IH h show ?thesis unfolding eq by auto
    qed
  qed
qed

lemma sort_search_spec:
  assumes "\<And>a b. a \<le> b \<Longrightarrow> b < n \<Longrightarrow> f a \<Longrightarrow> f b"
  shows "sort_search n f \<le> n"
    and "k < sort_search n f \<Longrightarrow> \<not> f k"
    and "sort_search n f < n \<Longrightarrow> f (sort_search n f)"
  using sort_search_loop_spec [of 0 n f] assms by (auto simp: sort_search_def)

section \<open>rand.Shuffle\<close>

text \<open>
  The generator is the stream of its future draws; a bounded draw reduces the next one modulo
  the bound, as \<^verbatim>\<open>uint64n\<close> does.
\<close>

type_synonym rng = "nat \<Rightarrow> nat"

definition rng_tail :: "rng \<Rightarrow> rng" where
  "rng_tail g = (\<lambda>k. g (Suc k))"

definition uint64n :: "nat \<Rightarrow> rng \<Rightarrow> nat \<times> rng" where
  "uint64n n g = (g 0 mod n, rng_tail g)"

fun shuffle_loop :: "nat \<Rightarrow> 'a list \<Rightarrow> rng \<Rightarrow> 'a list \<times> rng" where
  "shuffle_loop 0 xs g = (xs, g)"
| "shuffle_loop (Suc i) xs g =
     (let (j, g') = uint64n (Suc i + 1) g in shuffle_loop i (swap (Suc i) j xs) g')"

definition rand_Shuffle :: "'a list \<Rightarrow> rng \<Rightarrow> 'a list \<times> rng" where
  "rand_Shuffle xs g = shuffle_loop (length xs - 1) xs g"

lemma shuffle_loop_mset [conserve]:
  "i < length xs \<or> i = 0 \<Longrightarrow> mset (fst (shuffle_loop i xs g)) = mset xs"
proof (induction i arbitrary: xs g)
  case (Suc i)
  have "g 0 mod Suc (Suc i) < Suc (Suc i)" by simp
  then have "g 0 mod Suc (Suc i) < length xs" using Suc.prems by linarith
  then show ?case
    using Suc.IH [of "swap (Suc i) (g 0 mod Suc (Suc i)) xs"] Suc.prems
    by (simp add: uint64n_def mset_swap)
qed simp

lemma rand_Shuffle_mset [simp, conserve]: "mset (fst (rand_Shuffle xs g)) = mset xs"
  unfolding rand_Shuffle_def by (rule shuffle_loop_mset) auto

lemma rand_Shuffle_length [simp]: "length (fst (rand_Shuffle xs g)) = length xs"
  by (rule mset_eq_length) simp

lemma rand_Shuffle_set [simp]: "set (fst (rand_Shuffle xs g)) = set xs"
  by (rule mset_eq_setD) simp

section \<open>Strings\<close>

definition ToUpper_char :: "char \<Rightarrow> char" where
  "ToUpper_char c =
     (let n = of_char c :: nat in if 97 \<le> n \<and> n \<le> 122 then char_of (n - 32) else c)"

definition ToLower_char :: "char \<Rightarrow> char" where
  "ToLower_char c =
     (let n = of_char c :: nat in if 65 \<le> n \<and> n \<le> 90 then char_of (n + 32) else c)"

definition ToUpper :: "string \<Rightarrow> string" where
  "ToUpper = map ToUpper_char"

definition ToLower :: "string \<Rightarrow> string" where
  "ToLower = map ToLower_char"

lemma of_char_lt_256: "(of_char c :: nat) < 256"
  using of_char_mod_256 [of c] by (metis mod_less_divisor zero_less_numeral)

lemma ToUpper_char_idem [simp]: "ToUpper_char (ToUpper_char c) = ToUpper_char c"
  using of_char_lt_256 [of c] by (auto simp: ToUpper_char_def Let_def)

lemma ToLower_char_idem [simp]: "ToLower_char (ToLower_char c) = ToLower_char c"
  using of_char_lt_256 [of c] by (auto simp: ToLower_char_def Let_def)

lemma ToLower_idem [simp]: "ToLower (ToLower s) = ToLower s"
  by (simp add: ToLower_def)

lemma length_ToUpper [simp]: "length (ToUpper s) = length s"
  by (simp add: ToUpper_def)

lemma ToUpper_Nil_iff [simp]: "ToUpper s = [] \<longleftrightarrow> s = []"
  by (simp add: ToUpper_def)

lemma ToUpper_idem [simp]: "ToUpper (ToUpper s) = ToUpper s"
  by (simp add: ToUpper_def)

definition is_space :: "char \<Rightarrow> bool" where
  "is_space c \<longleftrightarrow> (let n = of_char c :: nat in n = 32 \<or> (9 \<le> n \<and> n \<le> 13))"

definition TrimSpace :: "string \<Rightarrow> string" where
  "TrimSpace s = rev (dropWhile is_space (rev (dropWhile is_space s)))"

lemma is_space_ToLower [simp]: "is_space (ToLower_char c) = is_space c"
  using of_char_lt_256 [of c] by (auto simp: ToLower_char_def is_space_def Let_def)

lemma TrimSpace_ToLower: "TrimSpace (ToLower s) = ToLower (TrimSpace s)"
proof -
  have "is_space \<circ> ToLower_char = is_space" by auto
  then show ?thesis by (simp add: TrimSpace_def ToLower_def dropWhile_map rev_map)
qed

definition HasPrefix :: "string \<Rightarrow> string \<Rightarrow> bool" where
  "HasPrefix s p \<longleftrightarrow> take (length p) s = p"

definition TrimPrefix :: "string \<Rightarrow> string \<Rightarrow> string" where
  "TrimPrefix s p = (if HasPrefix s p then drop (length p) s else s)"

lemma TrimPrefix_append [simp]: "TrimPrefix (p @ s) p = s"
  by (simp add: TrimPrefix_def HasPrefix_def)

text \<open>\<^verbatim>\<open>strings.Cut\<close> at a one-character separator.\<close>

fun Cut :: "string \<Rightarrow> char \<Rightarrow> (string \<times> string) option" where
  "Cut [] sep = None"
| "Cut (c # s) sep =
     (if c = sep then Some ([], s) else map_option (\<lambda>(a, b). (c # a, b)) (Cut s sep))"

lemma Cut_append [simp]: "sep \<notin> set a \<Longrightarrow> Cut (a @ sep # b) sep = Some (a, b)"
  by (induction a) auto

lemma Cut_Some: "Cut s sep = Some (a, b) \<Longrightarrow> s = a @ sep # b"
  by (induction s arbitrary: a) (auto split: if_splits)

text \<open>\<^verbatim>\<open>strings.SplitN\<close> at a one-character separator: at most \<open>n\<close> parts, the last one unsplit.\<close>

fun SplitN :: "string \<Rightarrow> char \<Rightarrow> nat \<Rightarrow> string list" where
  "SplitN s sep 0 = []"
| "SplitN s sep (Suc 0) = [s]"
| "SplitN s sep (Suc (Suc n)) =
     (case Cut s sep of None \<Rightarrow> [s] | Some (a, b) \<Rightarrow> a # SplitN b sep (Suc n))"

end
