(* ===== verification/Scrabble_Lang.thy ===== *)
theory Scrabble_Lang
  imports Go_Std
begin

text \<open>
  Languages and tiles of the Scrabble engine (\<^verbatim>\<open>scrabble/lang.go\<close>, \<^verbatim>\<open>scrabble/tile.go\<close>).
  A \<open>LetterID\<close> is an index into the alphabet; the Go type is \<^verbatim>\<open>uint8\<close>, and the conversion
  \<^verbatim>\<open>LetterID(i)\<close> is written out as reduction modulo 256. Letter counts are natural numbers.
\<close>

section \<open>Data\<close>

type_synonym LetterID = nat

definition to_LetterID :: "nat \<Rightarrow> LetterID" where
  "to_LetterID i = i mod 256"

record Language =
  Lang_Name :: string
  Lang_Code :: string
  Letters :: "char list"
  PointValues :: "int list"
  Distribution :: "nat list"
  Blanks :: nat
  rune2id :: "char \<rightharpoonup> LetterID"

record Tile =
  Tile_Letter :: LetterID
  Tile_Blank :: bool

abbreviation mk_tile :: "LetterID \<Rightarrow> bool \<Rightarrow> Tile" where
  "mk_tile l b \<equiv> \<lparr>Tile_Letter = l, Tile_Blank = b\<rparr>"

datatype lang_error = SliceMismatch string | RuneNotInAlphabet char

section \<open>Operations\<close>

fun rune_lookup :: "nat \<Rightarrow> char list \<Rightarrow> (char \<rightharpoonup> LetterID) \<Rightarrow> (char \<rightharpoonup> LetterID)" where
  "rune_lookup i [] m = m"
| "rune_lookup i (r # rs) m = rune_lookup (Suc i) rs (m(r \<mapsto> to_LetterID i))"

definition newLanguage ::
  "string \<Rightarrow> string \<Rightarrow> char list \<Rightarrow> int list \<Rightarrow> nat list \<Rightarrow> nat \<Rightarrow> (lang_error, Language) res"
where
  "newLanguage name code letters points dist blanks =
     (if length letters \<noteq> length points \<or> length letters \<noteq> length dist then Panic
      else Ok \<lparr>Lang_Name = name, Lang_Code = code, Letters = letters, PointValues = points,
               Distribution = dist, Blanks = blanks,
               rune2id = rune_lookup 0 letters Map.empty\<rparr>)"

definition English :: "(lang_error, Language) res" where
  "English = newLanguage ''English'' ''en'' ''ABCDEFGHIJKLMNOPQRSTUVWXYZ''
     [1, 3, 3, 2, 1, 4, 2, 4, 1, 8, 5, 1, 3,
      1, 1, 3, 10, 1, 1, 1, 1, 4, 4, 8, 4, 10]
     [9, 2, 2, 4, 12, 2, 3, 2, 9, 1, 1, 4, 2,
      6, 8, 2, 1, 6, 4, 6, 4, 2, 2, 1, 2, 1] 2"

definition AlphabetSize :: "Language \<Rightarrow> nat" where
  "AlphabetSize l = length (Letters l)"

definition TotalTiles :: "Language \<Rightarrow> nat" where
  "TotalTiles l = foldl (+) (Blanks l) (Distribution l)"

definition Rune :: "Language \<Rightarrow> LetterID \<Rightarrow> char option" where
  "Rune l i = index_opt (Letters l) i"

definition lang_ID :: "Language \<Rightarrow> char \<Rightarrow> LetterID option" where
  "lang_ID l r = rune2id l (ToUpper_char r)"

definition PointValue :: "Language \<Rightarrow> LetterID \<Rightarrow> int option" where
  "PointValue l i = index_opt (PointValues l) i"

fun normalize_runes :: "Language \<Rightarrow> char list \<Rightarrow> (lang_error, LetterID list) res" where
  "normalize_runes l [] = Ok []"
| "normalize_runes l (r # rs) =
     (case rune2id l r of
        None \<Rightarrow> Err (RuneNotInAlphabet r)
      | Some i \<Rightarrow> (case normalize_runes l rs of Ok is \<Rightarrow> Ok (i # is) | e \<Rightarrow> e))"

definition NormalizeWord :: "Language \<Rightarrow> string \<Rightarrow> (lang_error, LetterID list) res" where
  "NormalizeWord l s = normalize_runes l (ToUpper s)"

definition BlankTile :: Tile where
  "BlankTile = mk_tile 0 True"

definition IsUnassignedBlank :: "Tile \<Rightarrow> bool" where
  "IsUnassignedBlank t \<longleftrightarrow> Tile_Blank t \<and> Tile_Letter t = 0"

definition Tile_Score :: "Tile \<Rightarrow> Language \<Rightarrow> int option" where
  "Tile_Score t l = (if Tile_Blank t then Some 0 else PointValue l (Tile_Letter t))"

section \<open>Well-formed languages\<close>

text \<open>
  What \<open>newLanguage\<close> builds: parallel slices, an alphabet of distinct letters that fits a
  \<^verbatim>\<open>uint8\<close>, and a lookup that is the inverse of \<open>Letters\<close>. The letters are upper case,
  since both \<open>lang_ID\<close> and \<open>NormalizeWord\<close> upper-case before they look up.
\<close>

definition wf_lang :: "Language \<Rightarrow> bool" where
  "wf_lang l \<longleftrightarrow>
     length (PointValues l) = length (Letters l) \<and>
     length (Distribution l) = length (Letters l) \<and>
     length (Letters l) \<le> 255 \<and> distinct (Letters l) \<and>
     list_all (\<lambda>c. ToUpper_char c = c) (Letters l) \<and>
     rune2id l = rune_lookup 0 (Letters l) Map.empty \<and>
     list_all (\<lambda>p. 0 \<le> p) (PointValues l)"

definition wf_tile :: "Language \<Rightarrow> Tile \<Rightarrow> bool" where
  "wf_tile l t \<longleftrightarrow> Tile_Letter t < AlphabetSize l"

lemma rune_lookup_other: "r \<notin> set rs \<Longrightarrow> rune_lookup i rs m r = m r"
  by (induction rs arbitrary: i m) auto

lemma rune_lookup_nth:
  "distinct rs \<Longrightarrow> k < length rs \<Longrightarrow> rune_lookup i rs m (rs ! k) = Some (to_LetterID (i + k))"
proof (induction rs arbitrary: i k m)
  case (Cons r rs)
  then show ?case by (cases k) (auto simp: rune_lookup_other)
qed simp

lemma rune_lookup_SomeD: "rune_lookup i rs m r = Some x \<Longrightarrow> m r = Some x \<or> r \<in> set rs"
  by (metis rune_lookup_other)

text \<open>Looking a letter up and reading the alphabet at an id are inverse to each other.\<close>

lemma lang_ID_Rune:
  assumes "wf_lang l" and "i < AlphabetSize l"
  shows "\<exists>c. Rune l i = Some c \<and> ToUpper_char c = c \<and> lang_ID l c = Some i"
proof -
  let ?c = "Letters l ! i"
  have len: "i < length (Letters l)" using assms by (simp add: AlphabetSize_def)
  have up: "ToUpper_char ?c = ?c"
    using assms(1) len by (auto simp: wf_lang_def list_all_length)
  have "rune2id l ?c = Some (to_LetterID i)"
    using assms(1) rune_lookup_nth [of "Letters l" i 0 Map.empty] len by (simp add: wf_lang_def)
  also have "to_LetterID i = i"
    using len assms(1) by (simp add: wf_lang_def to_LetterID_def)
  finally show ?thesis using len up by (simp add: Rune_def lang_ID_def)
qed

lemma rune2id_range:
  assumes "wf_lang l" and "rune2id l c = Some i"
  shows "i < AlphabetSize l \<and> Letters l ! i = c"
proof -
  from assms have "c \<in> set (Letters l)"
    by (auto simp: wf_lang_def dest: rune_lookup_SomeD)
  then obtain k where k: "k < length (Letters l)" "Letters l ! k = c"
    by (auto simp: in_set_conv_nth)
  then have "rune2id l c = Some (to_LetterID k)"
    using assms(1) rune_lookup_nth [of "Letters l" k 0 Map.empty] by (auto simp: wf_lang_def)
  moreover have "to_LetterID k = k"
    using k assms(1) by (simp add: wf_lang_def to_LetterID_def)
  ultimately show ?thesis using k assms(2) by (simp add: AlphabetSize_def)
qed

lemma lang_ID_range: "wf_lang l \<Longrightarrow> lang_ID l c = Some i \<Longrightarrow> i < AlphabetSize l"
  by (auto simp: lang_ID_def dest: rune2id_range)

lemma normalize_runes_range:
  "wf_lang l \<Longrightarrow> normalize_runes l rs = Ok is \<Longrightarrow> list_all (\<lambda>i. i < AlphabetSize l) is"
proof (induction rs arbitrary: "is")
  case (Cons r rs)
  then show ?case by (auto split: option.splits res.splits dest: rune2id_range)
qed simp

lemma normalize_runes_not_Panic: "normalize_runes l rs \<noteq> Panic"
  by (induction rs) (auto split: option.splits res.splits)

lemma normalize_runes_inverse:
  "wf_lang l \<Longrightarrow> normalize_runes l rs = Ok is \<Longrightarrow> map (Rune l) is = map Some rs"
proof (induction rs arbitrary: "is")
  case (Cons r rs)
  then show ?case
    by (auto split: option.splits res.splits dest!: rune2id_range
        simp: Rune_def AlphabetSize_def)
qed simp

lemma Tile_Score_total:
  assumes "wf_lang l" and "wf_tile l t"
  shows "\<exists>n. Tile_Score t l = Some n \<and> 0 \<le> n"
  using assms
  by (auto simp: Tile_Score_def PointValue_def wf_tile_def AlphabetSize_def wf_lang_def
      list_all_length)

lemma Tile_Score_blank [simp]: "Tile_Blank t \<Longrightarrow> Tile_Score t l = Some 0"
  by (simp add: Tile_Score_def)

text \<open>The alphabet the repository ships.\<close>

definition english_lang :: Language where
  "english_lang = (case English of Ok l \<Rightarrow> l | _ \<Rightarrow>
     \<lparr>Lang_Name = [], Lang_Code = [], Letters = [], PointValues = [], Distribution = [],
      Blanks = 0, rune2id = Map.empty\<rparr>)"

lemma English_Ok: "English = Ok english_lang"
  by (simp add: english_lang_def English_def newLanguage_def)

lemma english_sel:
  "Letters english_lang = ''ABCDEFGHIJKLMNOPQRSTUVWXYZ''"
  "PointValues english_lang = [1, 3, 3, 2, 1, 4, 2, 4, 1, 8, 5, 1, 3,
      1, 1, 3, 10, 1, 1, 1, 1, 4, 4, 8, 4, 10]"
  "Distribution english_lang = [9, 2, 2, 4, 12, 2, 3, 2, 9, 1, 1, 4, 2,
      6, 8, 2, 1, 6, 4, 6, 4, 2, 2, 1, 2, 1]"
  "Blanks english_lang = 2"
  "rune2id english_lang = rune_lookup 0 ''ABCDEFGHIJKLMNOPQRSTUVWXYZ'' Map.empty"
  by (simp_all add: english_lang_def English_def newLanguage_def)

lemma english_AlphabetSize [simp]: "AlphabetSize english_lang = 26"
  by (simp add: AlphabetSize_def english_sel)

lemma wf_english: "wf_lang english_lang"
proof -
  have "list_all (\<lambda>c. ToUpper_char c = c) ''ABCDEFGHIJKLMNOPQRSTUVWXYZ''"
    by code_simp
  moreover have "distinct ''ABCDEFGHIJKLMNOPQRSTUVWXYZ''"
    by code_simp
  ultimately show ?thesis by (simp add: wf_lang_def english_sel)
qed

lemma english_TotalTiles: "TotalTiles english_lang = 100"
  by (simp add: TotalTiles_def english_sel)

end
