(* ===== verification/Scrabble_Bag.thy ===== *)
theory Scrabble_Bag
  imports Scrabble_Lang
begin

text \<open>
  The tile bag and the player's rack (\<^verbatim>\<open>scrabble/bag.go\<close>, \<^verbatim>\<open>scrabble/rack.go\<close>). A bag holds its
  tiles and the stream of draws of its generator; the count of a draw is a natural number, as
  every caller passes a length or a positive difference.
\<close>

section \<open>Bag\<close>

record Bag =
  Bag_lang :: Language
  Bag_tiles :: "Tile list"
  Bag_rng :: rng

definition Bag_shuffle :: "Bag \<Rightarrow> Bag" where
  "Bag_shuffle b =
     (let (ts, g) = rand_Shuffle (Bag_tiles b) (Bag_rng b)
      in b\<lparr>Bag_tiles := ts, Bag_rng := g\<rparr>)"

definition full_tiles :: "Language \<Rightarrow> Tile list" where
  "full_tiles lang =
     concat (map (\<lambda>(i, cnt). replicate cnt (mk_tile (to_LetterID i) False))
                 (enumerate 0 (Distribution lang)))
     @ replicate (Blanks lang) BlankTile"

definition NewBag :: "Language \<Rightarrow> rng \<Rightarrow> Bag" where
  "NewBag lang g = Bag_shuffle \<lparr>Bag_lang = lang, Bag_tiles = full_tiles lang, Bag_rng = g\<rparr>"

definition Remaining :: "Bag \<Rightarrow> nat" where
  "Remaining b = length (Bag_tiles b)"

definition Draw :: "nat \<Rightarrow> Bag \<Rightarrow> Tile list \<times> Bag" where
  "Draw cnt b =
     (let cnt = (if cnt > length (Bag_tiles b) then length (Bag_tiles b) else cnt) in
      if cnt = 0 then ([], b)
      else let start = length (Bag_tiles b) - cnt in
           (drop start (Bag_tiles b), b\<lparr>Bag_tiles := take start (Bag_tiles b)\<rparr>))"

definition Return_tile :: "Tile \<Rightarrow> Tile" where
  "Return_tile t = (if Tile_Blank t then BlankTile else t)"

definition Return :: "Tile list \<Rightarrow> Bag \<Rightarrow> Bag" where
  "Return tiles b = Bag_shuffle (b\<lparr>Bag_tiles := Bag_tiles b @ map Return_tile tiles\<rparr>)"

section \<open>Rack\<close>

definition RackSize :: nat where
  "RackSize = 7"

definition sentinelLetter :: LetterID where
  "sentinelLetter = 255"

record Rack =
  Rack_tiles :: "Tile list"

datatype rack_error =
    RackMissing Tile
  | BagTooSmall nat
  | ExchangeOutOfRange int
  | ExchangeDuplicated int

definition NewRack :: Rack where
  "NewRack = \<lparr>Rack_tiles = []\<rparr>"

definition Rack_Size :: "Rack \<Rightarrow> nat" where
  "Rack_Size r = length (Rack_tiles r)"

definition Rack_Add :: "Tile list \<Rightarrow> Rack \<Rightarrow> Rack" where
  "Rack_Add tiles r = r\<lparr>Rack_tiles := Rack_tiles r @ tiles\<rparr>"

definition Refill :: "Rack \<Rightarrow> Bag \<Rightarrow> Rack \<times> Bag" where
  "Refill r b =
     (let need = int RackSize - int (length (Rack_tiles r)) in
      if need \<le> 0 then (r, b)
      else let (ts, b') = Draw (nat need) b in (Rack_Add ts r, b'))"

definition matchRack :: "Tile list \<Rightarrow> Tile \<Rightarrow> nat option" where
  "matchRack working want =
     (if Tile_Blank want then find_index IsUnassignedBlank working
      else find_index (\<lambda>t. \<not> Tile_Blank t \<and> Tile_Letter t = Tile_Letter want) working)"

definition compactExcluding :: "Tile list \<Rightarrow> nat list \<Rightarrow> Tile list" where
  "compactExcluding src indices =
     map snd (filter (\<lambda>(i, t). i \<notin> set indices) (enumerate 0 src))"

fun Remove_loop ::
  "Tile list \<Rightarrow> Tile list \<Rightarrow> Tile list \<Rightarrow> nat list \<Rightarrow> (rack_error, Tile list \<times> nat list) res"
where
  "Remove_loop working [] taken indices = Ok (taken, indices)"
| "Remove_loop working (want # needed) taken indices =
     (case matchRack working want of
        None \<Rightarrow> Err (RackMissing want)
      | Some idx \<Rightarrow>
          Remove_loop (working[idx := mk_tile sentinelLetter False]) needed
            (taken @ [working ! idx]) (indices @ [idx]))"

definition Rack_Remove :: "Rack \<Rightarrow> Tile list \<Rightarrow> (rack_error, Tile list \<times> Rack) res" where
  "Rack_Remove r needed =
     (case Remove_loop (Rack_tiles r) needed [] [] of
        Ok (taken, indices) \<Rightarrow>
          Ok (taken, r\<lparr>Rack_tiles := compactExcluding (Rack_tiles r) indices\<rparr>)
      | Err e \<Rightarrow> Err e
      | Panic \<Rightarrow> Panic)"

fun exchange_check :: "nat \<Rightarrow> int list \<Rightarrow> int set \<Rightarrow> rack_error option" where
  "exchange_check n [] seen = None"
| "exchange_check n (idx # indices) seen =
     (if idx < 0 \<or> idx \<ge> int n then Some (ExchangeOutOfRange idx)
      else if idx \<in> seen then Some (ExchangeDuplicated idx)
      else exchange_check n indices (insert idx seen))"

definition Exchange :: "Rack \<Rightarrow> int list \<Rightarrow> Bag \<Rightarrow> (rack_error, Rack \<times> Bag) res" where
  "Exchange r indices b =
     (if Remaining b < RackSize then Err (BagTooSmall (Remaining b))
      else case exchange_check (length (Rack_tiles r)) indices {} of
        Some e \<Rightarrow> Err e
      | None \<Rightarrow>
          (let out = map (\<lambda>i. Rack_tiles r ! nat i) indices;
               kept = compactExcluding (Rack_tiles r) (map nat indices);
               (drawn, b') = Draw (length indices) b
           in Ok (r\<lparr>Rack_tiles := kept @ drawn\<rparr>, Return out b')))"

section \<open>Where the tiles of a bag go\<close>

lemma Bag_shuffle_mset [simp, conserve]: "mset (Bag_tiles (Bag_shuffle b)) = mset (Bag_tiles b)"
  by (simp add: Bag_shuffle_def split_def Let_def)

lemma Bag_shuffle_lang [simp, frame]: "Bag_lang (Bag_shuffle b) = Bag_lang b"
  by (simp add: Bag_shuffle_def split: prod.splits)

lemma Draw_fst: "fst (Draw n b) = drop (length (Bag_tiles b) - n) (Bag_tiles b)"
  by (simp add: Draw_def Let_def)

lemma Draw_snd: "snd (Draw n b) = b\<lparr>Bag_tiles := take (length (Bag_tiles b) - n) (Bag_tiles b)\<rparr>"
  by (auto simp: Draw_def Let_def)

lemma Draw_append: "Bag_tiles (snd (Draw n b)) @ fst (Draw n b) = Bag_tiles b"
  by (simp add: Draw_fst Draw_snd)

lemma Draw_mset [conserve]: "mset (fst (Draw n b)) + mset (Bag_tiles (snd (Draw n b))) = mset (Bag_tiles b)"
  by (metis Draw_append mset_append add.commute)

lemma Draw_length: "length (fst (Draw n b)) = min n (length (Bag_tiles b))"
  by (simp add: Draw_fst min_def)

lemma Return_mset [conserve]:
  "mset (Bag_tiles (Return ts b)) = mset (Bag_tiles b) + mset (map Return_tile ts)"
  by (simp add: Return_def)

lemma full_tiles_length: "length (full_tiles lang) = TotalTiles lang"
proof -
  have 1: "foldl (+) a xs = a + sum_list xs" for a :: nat and xs
    by (induction xs arbitrary: a) auto
  have 2: "(\<Sum>(i, c)\<leftarrow>enumerate n xs. c) = sum_list xs" for n and xs :: "nat list"
    by (induction xs arbitrary: n) auto
  show ?thesis
    using 2 [of 0 "Distribution lang"]
    by (simp add: full_tiles_def TotalTiles_def 1 length_concat comp_def split_def)
qed

lemma NewBag_mset [conserve]: "mset (Bag_tiles (NewBag lang g)) = mset (full_tiles lang)"
  by (simp add: NewBag_def)

lemma NewBag_Remaining: "Remaining (NewBag lang g) = TotalTiles lang"
  unfolding Remaining_def
  by (metis NewBag_mset full_tiles_length mset_eq_length)

section \<open>Well-formed tiles in hand\<close>

text \<open>
  A tile in the bag or on a rack is either an unassigned blank or a plain letter of the
  alphabet; an assigned blank exists only on the board.
\<close>

definition hand_tile :: "Language \<Rightarrow> Tile \<Rightarrow> bool" where
  "hand_tile l t \<longleftrightarrow> Tile_Letter t < AlphabetSize l \<and> (Tile_Blank t \<longrightarrow> t = BlankTile)"

lemma hand_tile_wf: "hand_tile l t \<Longrightarrow> wf_tile l t"
  by (simp add: hand_tile_def wf_tile_def)

lemma hand_tile_blank: "hand_tile l t \<Longrightarrow> Tile_Blank t \<Longrightarrow> IsUnassignedBlank t"
  by (auto simp: hand_tile_def IsUnassignedBlank_def BlankTile_def)

lemma hand_tile_Return [simp]: "hand_tile l t \<Longrightarrow> Return_tile t = t"
  by (auto simp: hand_tile_def Return_tile_def)

lemma hand_tiles_Return: "list_all (hand_tile l) ts \<Longrightarrow> map Return_tile ts = ts"
  by (induction ts) auto

lemma list_all_mset: "mset xs = mset ys \<Longrightarrow> list_all P xs = list_all P ys"
  by (metis list.pred_set mset_eq_setD)

lemma full_tiles_hand:
  assumes "wf_lang l" and "Letters l \<noteq> []"
  shows "list_all (hand_tile l) (full_tiles l)"
  using assms
  by (auto simp: full_tiles_def list_all_iff hand_tile_def wf_lang_def AlphabetSize_def
      BlankTile_def to_LetterID_def in_set_enumerate_eq)

section \<open>Removing tiles from a rack\<close>

abbreviation sentinel :: Tile where
  "sentinel \<equiv> mk_tile sentinelLetter False"

lemma compactExcluding_filter:
  assumes "sentinel \<notin> set src"
  shows "compactExcluding src is =
           filter (\<lambda>t. t \<noteq> sentinel)
             (map (\<lambda>(i, t). if i \<in> set is then sentinel else t) (enumerate 0 src))"
proof -
  have "map snd (filter (\<lambda>(i, t). i \<notin> set is) (enumerate n src)) =
        filter (\<lambda>t. t \<noteq> sentinel)
          (map (\<lambda>(i, t). if i \<in> set is then sentinel else t) (enumerate n src))" for n
    using assms by (induction src arbitrary: n) auto
  then show ?thesis by (simp add: compactExcluding_def)
qed

text \<open>The working copy during the loop: consumed slots hold the sentinel, the others the rack.\<close>

definition working_of :: "Tile list \<Rightarrow> nat list \<Rightarrow> Tile list" where
  "working_of src is = map (\<lambda>(i, t). if i \<in> set is then sentinel else t) (enumerate 0 src)"

lemma working_of_Nil [simp]: "working_of src [] = src"
  by (simp add: working_of_def split_def)

lemma length_working_of [simp]: "length (working_of src is) = length src"
  by (simp add: working_of_def)

lemma working_of_nth:
  "i < length src \<Longrightarrow> working_of src is ! i = (if i \<in> set is then sentinel else src ! i)"
  by (simp add: working_of_def nth_enumerate_eq)

lemma working_of_update:
  "idx < length src \<Longrightarrow> (working_of src is)[idx := sentinel] = working_of src (is @ [idx])"
  by (rule nth_equalityI) (auto simp: working_of_nth nth_list_update)

lemma compactExcluding_working:
  "sentinel \<notin> set src \<Longrightarrow>
     compactExcluding src is = filter (\<lambda>t. t \<noteq> sentinel) (working_of src is)"
  by (simp add: compactExcluding_filter working_of_def)

lemma mset_filter_update:
  assumes "i < length xs" and "P (xs ! i)" and "\<not> P y"
  shows "mset (filter P xs) = add_mset (xs ! i) (mset (filter P (xs[i := y])))"
  using assms
proof (induction xs arbitrary: i)
  case (Cons a xs)
  then show ?case by (cases i) auto
qed simp

text \<open>What the source calls a match: a blank request takes an unassigned blank, any other request
  the plain tile of its letter.\<close>

definition rack_want :: "Tile \<Rightarrow> Tile" where
  "rack_want t = (if Tile_Blank t then BlankTile else mk_tile (Tile_Letter t) False)"

lemma rack_want_neq_sentinel: "Tile_Letter t \<noteq> sentinelLetter \<Longrightarrow> rack_want t \<noteq> sentinel"
  by (auto simp: rack_want_def BlankTile_def)

lemma match_pred:
  "(if Tile_Blank w then IsUnassignedBlank t
    else \<not> Tile_Blank t \<and> Tile_Letter t = Tile_Letter w) \<longleftrightarrow> t = rack_want w"
  by (cases t) (auto simp: IsUnassignedBlank_def rack_want_def BlankTile_def)

lemma matchRack_find: "matchRack ts w = find_index (\<lambda>t. t = rack_want w) ts"
  unfolding matchRack_def using match_pred [of w] by (auto intro!: arg_cong2 [where f = find_index])

lemma Remove_loop_spec:
  assumes "sentinel \<notin> set src" and "\<forall>w \<in> set needed. Tile_Letter w \<noteq> sentinelLetter"
  shows "(if image_mset rack_want (mset needed) \<subseteq># mset (compactExcluding src is)
          then \<exists>is'. Remove_loop (working_of src is) needed taken is
                       = Ok (taken @ map rack_want needed, is') \<and>
                     mset (compactExcluding src is) =
                       image_mset rack_want (mset needed) + mset (compactExcluding src is')
          else \<exists>w. Remove_loop (working_of src is) needed taken is = Err (RackMissing w))"
  using assms(2)
proof (induction needed arbitrary: taken "is")
  case (Cons w needed)
  let ?W = "working_of src is"
  let ?C = "\<lambda>is. mset (compactExcluding src is)"
  have wn: "rack_want w \<noteq> sentinel" using Cons.prems rack_want_neq_sentinel by simp
  have C: "?C js = mset (filter (\<lambda>t. t \<noteq> sentinel) (working_of src js))" for js
    using compactExcluding_working [OF assms(1)] by simp
  show ?case
  proof (cases "matchRack ?W w")
    case None
    then have "rack_want w \<notin># ?C is" by (auto simp: matchRack_find find_index_None_iff C)
    then have "\<not> image_mset rack_want (mset (w # needed)) \<subseteq># ?C is"
      by (auto dest: mset_subset_eqD)
    with None show ?thesis by simp
  next
    case (Some idx)
    then have idx: "idx < length ?W" "?W ! idx = rack_want w"
      using find_index_SomeD [of "\<lambda>t. t = rack_want w" ?W idx] by (auto simp: matchRack_find)
    have step: "?W[idx := sentinel] = working_of src (is @ [idx])"
      using idx working_of_update by simp
    have split: "?C is = add_mset (rack_want w) (?C (is @ [idx]))"
      using mset_filter_update [of idx ?W "\<lambda>t. t \<noteq> sentinel" sentinel] idx wn
      unfolding C [of "is"] by (simp add: step C)
    have IH: "(if image_mset rack_want (mset needed) \<subseteq># ?C (is @ [idx])
          then \<exists>is'. Remove_loop (working_of src (is @ [idx])) needed (taken @ [rack_want w]) (is @ [idx])
                       = Ok ((taken @ [rack_want w]) @ map rack_want needed, is') \<and>
                     ?C (is @ [idx]) = image_mset rack_want (mset needed) + ?C is'
          else \<exists>w'. Remove_loop (working_of src (is @ [idx])) needed (taken @ [rack_want w]) (is @ [idx])
                       = Err (RackMissing w'))"
      by (rule Cons.IH) (use Cons.prems in simp)
    show ?thesis using IH Some by (auto simp: split idx step split: if_splits)
  qed
qed simp

text \<open>
  \<open>Rack_Remove\<close> against its contract: it succeeds exactly when the requested tiles are in the rack,
  it takes exactly those tiles, and what is left is the rack without them.
\<close>

lemma Rack_Remove_Ok:
  assumes "sentinel \<notin> set (Rack_tiles r)" and "\<forall>w \<in> set needed. Tile_Letter w \<noteq> sentinelLetter"
    and "mset (map rack_want needed) \<subseteq># mset (Rack_tiles r)"
  shows "\<exists>r'. Rack_Remove r needed = Ok (map rack_want needed, r') \<and>
              mset (Rack_tiles r) = mset (map rack_want needed) + mset (Rack_tiles r')"
proof -
  have "compactExcluding (Rack_tiles r) [] = Rack_tiles r"
    using compactExcluding_working [OF assms(1), of "[]"] assms(1)
    by (auto simp: filter_id_conv)
  then show ?thesis
    using Remove_loop_spec [OF assms(1,2), of "[]" "[]"] assms(3)
    by (auto simp: Rack_Remove_def)
qed

lemma Rack_Remove_Err:
  assumes "sentinel \<notin> set (Rack_tiles r)" and "\<forall>w \<in> set needed. Tile_Letter w \<noteq> sentinelLetter"
    and "\<not> mset (map rack_want needed) \<subseteq># mset (Rack_tiles r)"
  shows "\<exists>w. Rack_Remove r needed = Err (RackMissing w)"
proof -
  have "compactExcluding (Rack_tiles r) [] = Rack_tiles r"
    using compactExcluding_working [OF assms(1), of "[]"] assms(1)
    by (auto simp: filter_id_conv)
  then show ?thesis
    using Remove_loop_spec [OF assms(1,2), of "[]" "[]"] assms(3)
    by (auto simp: Rack_Remove_def)
qed

lemma hand_no_sentinel:
  assumes "wf_lang l" and "list_all (hand_tile l) ts"
  shows "sentinel \<notin> set ts"
proof
  assume "sentinel \<in> set ts"
  with assms(2) have "hand_tile l sentinel" by (simp add: list_all_iff)
  with assms(1) show False
    by (simp add: hand_tile_def wf_lang_def AlphabetSize_def sentinelLetter_def)
qed

section \<open>Exchanging tiles\<close>

lemma exchange_check_None:
  "exchange_check n is seen = None \<longleftrightarrow>
     (\<forall>i \<in> set is. 0 \<le> i \<and> i < int n) \<and> distinct is \<and> set is \<inter> seen = {}"
  by (induction "is" arbitrary: seen) auto

lemma compactExcluding_mset:
  assumes "distinct is" and "\<forall>i \<in> set is. i < length src"
  shows "mset src = mset (map ((!) src) is) + mset (compactExcluding src is)"
proof -
  let ?E = "enumerate 0 src"
  have part: "mset (map snd xs) = mset (map snd (filter P xs)) + mset (map snd (filter (\<lambda>x. \<not> P x) xs))"
    for P and xs :: "(nat \<times> Tile) list"
    by (induction xs) auto
  have "mset src = mset (map snd (filter (\<lambda>(i, t). i \<in> set is) ?E)) +
          mset (map snd (filter (\<lambda>(i, t). i \<notin> set is) ?E))"
    using part [of ?E "\<lambda>(i, t). i \<in> set is"] by (simp add: split_def)
  moreover have "mset (filter (\<lambda>(i, t). i \<in> set is) ?E) = mset (map (\<lambda>i. (i, src ! i)) is)"
  proof -
    have "set (filter (\<lambda>(i, t). i \<in> set is) ?E) = set (map (\<lambda>i. (i, src ! i)) is)"
      using assms(2) by (auto simp: in_set_enumerate_eq)
    moreover have "distinct (filter (\<lambda>(i, t). i \<in> set is) ?E)"
      by (simp add: distinct_enumerate)
    moreover have "distinct (map (\<lambda>i. (i, src ! i)) is)"
      using assms(1) by (simp add: distinct_map inj_on_def)
    ultimately show ?thesis using set_eq_iff_mset_eq_distinct by blast
  qed
  ultimately show ?thesis
    by (simp add: compactExcluding_def multiset.map_comp comp_def)
qed

text \<open>An accepted exchange, in the terms its guards and its three updates leave.\<close>

lemma Exchange_OkE:
  assumes "Exchange r is b = Ok (r', b')"
  obtains "RackSize \<le> Remaining b" "distinct is"
    "\<forall>i \<in> set is. 0 \<le> i \<and> i < int (length (Rack_tiles r))"
    "mset (Rack_tiles r) = mset (map (\<lambda>i. Rack_tiles r ! nat i) is) +
       mset (compactExcluding (Rack_tiles r) (map nat is))"
    "Rack_tiles r' = compactExcluding (Rack_tiles r) (map nat is) @ fst (Draw (length is) b)"
    "b' = Return (map (\<lambda>i. Rack_tiles r ! nat i) is) (snd (Draw (length is) b))"
proof -
  from assms have rem: "\<not> Remaining b < RackSize"
    and ok: "exchange_check (length (Rack_tiles r)) is {} = None"
    and r': "Rack_tiles r' =
          compactExcluding (Rack_tiles r) (map nat is) @ fst (Draw (length is) b)"
    and b': "b' = Return (map (\<lambda>i. Rack_tiles r ! nat i) is) (snd (Draw (length is) b))"
    by (auto simp: Exchange_def Let_def split: if_splits option.splits prod.splits)
  from ok have idx: "\<forall>i \<in> set is. 0 \<le> i \<and> i < int (length (Rack_tiles r))" and d: "distinct is"
    by (auto simp: exchange_check_None)
  then have "distinct (map nat is)" "\<forall>i \<in> set (map nat is). i < length (Rack_tiles r)"
    by (auto simp: distinct_map inj_on_def eq_nat_nat_iff)
  from compactExcluding_mset [OF this] idx d rem r' b' that show thesis
    by (simp add: comp_def)
qed

lemma Exchange_mset [conserve]:
  assumes "Exchange r is b = Ok (r', b')" and "list_all (hand_tile l) (Rack_tiles r)"
  shows "mset (Rack_tiles r') + mset (Bag_tiles b') = mset (Rack_tiles r) + mset (Bag_tiles b)"
  using assms(1)
proof (rule Exchange_OkE)
  let ?out = "map (\<lambda>i. Rack_tiles r ! nat i) is"
  let ?kept = "compactExcluding (Rack_tiles r) (map nat is)"
  assume idx: "\<forall>i \<in> set is. 0 \<le> i \<and> i < int (length (Rack_tiles r))"
    and part: "mset (Rack_tiles r) = mset ?out + mset ?kept"
    and r': "Rack_tiles r' = ?kept @ fst (Draw (length is) b)"
    and b': "b' = Return ?out (snd (Draw (length is) b))"
  have "set ?out \<subseteq> set (Rack_tiles r)" using idx by auto
  then have "list_all (hand_tile l) ?out" using assms(2) by (auto simp: list_all_iff)
  then have out: "map Return_tile ?out = ?out" by (rule hand_tiles_Return)
  have "mset (Bag_tiles b') = mset (Bag_tiles (snd (Draw (length is) b))) + mset ?out"
    unfolding b' Return_mset out ..
  then show ?thesis using part Draw_mset [of "length is" b] by (simp add: r' ac_simps)
qed

lemma Exchange_length:
  assumes "Exchange r is b = Ok (r', b')" and "length (Rack_tiles r) \<le> RackSize"
  shows "length (Rack_tiles r') = length (Rack_tiles r)"
  using assms(1)
proof (rule Exchange_OkE)
  let ?kept = "compactExcluding (Rack_tiles r) (map nat is)"
  assume part: "mset (Rack_tiles r) = mset (map (\<lambda>i. Rack_tiles r ! nat i) is) + mset ?kept"
    and r': "Rack_tiles r' = ?kept @ fst (Draw (length is) b)"
    and rem: "RackSize \<le> Remaining b"
  have "length (Rack_tiles r) = length is + length ?kept"
    using arg_cong [OF part, of size] by simp
  then show ?thesis using assms(2) rem by (simp add: r' Draw_length Remaining_def min_def)
qed

lemma Exchange_lang [frame]: "Exchange r is b = Ok (r', b') \<Longrightarrow> Bag_lang b' = Bag_lang b"
  by (erule Exchange_OkE) (simp add: Return_def Draw_snd)

lemma Refill_mset [conserve]:
  "mset (Rack_tiles (fst (Refill r b))) + mset (Bag_tiles (snd (Refill r b))) =
     mset (Rack_tiles r) + mset (Bag_tiles b)"
  using Draw_mset [of "nat (int RackSize - int (length (Rack_tiles r)))" b]
  by (auto simp: Refill_def Rack_Add_def Let_def ac_simps split: prod.splits)

lemma Refill_length:
  assumes "length (Rack_tiles r) \<le> RackSize"
  shows "length (Rack_tiles (fst (Refill r b))) =
           min RackSize (length (Rack_tiles r) + length (Bag_tiles b))"
proof -
  let ?need = "nat (int RackSize - int (length (Rack_tiles r)))"
  have "length (fst (Draw ?need b)) = min ?need (length (Bag_tiles b))"
    by (rule Draw_length)
  then show ?thesis
    using assms by (auto simp: Refill_def Rack_Add_def Let_def min_def split: prod.splits)
qed

lemma Refill_lang [frame]: "Bag_lang (snd (Refill r b)) = Bag_lang b"
  using Draw_snd [of "nat (int RackSize - int (length (Rack_tiles r)))" b]
  by (auto simp: Refill_def Let_def split: prod.splits)

end
