(* ===== verification/Scrabble_Dawg.thy ===== *)
theory Scrabble_Dawg
  imports Scrabble_Lang
begin

text \<open>
  The dictionary (\<^verbatim>\<open>scrabble/dict.go\<close>, \<^verbatim>\<open>scrabble/dawg.go\<close>). No node of the structure is
  shared, so the pointer graph is a tree and a node is a datatype value; following and replacing
  the target of an edge model the walk and the mutation through the pointer. Both lookups in the
  edge list are the binary search of \<^verbatim>\<open>sort.Search\<close>. The reader of a word list is
  the lines its scanner yields and the error it ends with, if any.
\<close>

section \<open>The Dictionary contract\<close>

definition MinWordLength :: nat where
  "MinWordLength = 2"

text \<open>What the move validator relies on: membership in a fixed set of words, each long enough.\<close>

locale dictionary =
  fixes contains :: "'d \<Rightarrow> LetterID list \<Rightarrow> bool"
    and lexicon :: "'d \<Rightarrow> LetterID list set"
    and dict_invar :: "'d \<Rightarrow> bool"
  assumes contains_iff: "dict_invar d \<Longrightarrow> contains d w \<longleftrightarrow> w \<in> lexicon d"
    and lexicon_length: "dict_invar d \<Longrightarrow> w \<in> lexicon d \<Longrightarrow> MinWordLength \<le> length w"
begin

lemma all_contained: "dict_invar d \<Longrightarrow> list_all (contains d) ws \<longleftrightarrow> set ws \<subseteq> lexicon d"
  by (auto simp: list_all_iff contains_iff)

lemma contains_long: "dict_invar d \<Longrightarrow> contains d w \<Longrightarrow> MinWordLength \<le> length w"
  by (simp add: contains_iff lexicon_length)

end

section \<open>Nodes and edges\<close>

datatype DAWGNode = DAWGNode (edges: "(LetterID \<times> DAWGNode) list") (terminal: bool)

record DAWG =
  Dawg_lang :: Language
  Dawg_root :: DAWGNode
  Dawg_size :: nat

definition Edge :: "DAWGNode \<Rightarrow> LetterID \<Rightarrow> DAWGNode option" where
  "Edge n letter =
     (let idx = sort_search (length (edges n)) (\<lambda>i. fst (edges n ! i) \<ge> letter) in
      if idx \<ge> length (edges n) \<or> fst (edges n ! idx) \<noteq> letter then None
      else Some (snd (edges n ! idx)))"

definition addEdge :: "DAWGNode \<Rightarrow> LetterID \<Rightarrow> DAWGNode \<Rightarrow> DAWGNode" where
  "addEdge n letter target =
     (let idx = sort_search (length (edges n)) (\<lambda>i. fst (edges n ! i) \<ge> letter) in
      DAWGNode (take idx (edges n) @ (letter, target) # drop idx (edges n)) (terminal n))"

text \<open>Mutating the node behind an existing edge: the same edge, its new target.\<close>

definition setTarget :: "DAWGNode \<Rightarrow> LetterID \<Rightarrow> DAWGNode \<Rightarrow> DAWGNode" where
  "setTarget n letter target =
     (let idx = sort_search (length (edges n)) (\<lambda>i. fst (edges n ! i) \<ge> letter) in
      DAWGNode ((edges n)[idx := (letter, target)]) (terminal n))"

fun dawg_insert :: "LetterID list \<Rightarrow> DAWGNode \<Rightarrow> DAWGNode \<times> bool" where
  "dawg_insert [] n = (if terminal n then (n, False) else (DAWGNode (edges n) True, True))"
| "dawg_insert (i # word) n =
     (case Edge n i of
        None \<Rightarrow> (let (next, fresh) = dawg_insert word (DAWGNode [] False)
                 in (addEdge n i next, fresh))
      | Some next \<Rightarrow> (let (next', fresh) = dawg_insert word next
                      in (setTarget n i next', fresh)))"

fun dawg_walk :: "DAWGNode \<Rightarrow> LetterID list \<Rightarrow> DAWGNode option" where
  "dawg_walk n [] = Some n"
| "dawg_walk n (i # word) = (case Edge n i of None \<Rightarrow> None | Some next \<Rightarrow> dawg_walk next word)"

definition Contains :: "DAWG \<Rightarrow> LetterID list \<Rightarrow> bool" where
  "Contains d word =
     (if length word < MinWordLength then False
      else case dawg_walk (Dawg_root d) word of None \<Rightarrow> False | Some n \<Rightarrow> terminal n)"

definition ContainsString :: "DAWG \<Rightarrow> string \<Rightarrow> bool" where
  "ContainsString d word =
     (case NormalizeWord (Dawg_lang d) word of Ok ids \<Rightarrow> Contains d ids | _ \<Rightarrow> False)"

definition build_line :: "string \<Rightarrow> DAWG \<Rightarrow> DAWG" where
  "build_line raw d =
     (let line = TrimSpace raw in
      if line = [] \<or> HasPrefix line ''#'' then d
      else case NormalizeWord (Dawg_lang d) line of
        Ok ids \<Rightarrow>
          (if length ids < MinWordLength then d
           else let (root, fresh) = dawg_insert ids (Dawg_root d) in
                d\<lparr>Dawg_root := root, Dawg_size := (if fresh then Suc (Dawg_size d) else Dawg_size d)\<rparr>)
      | _ \<Rightarrow> d)"

definition BuildDAWG :: "Language \<Rightarrow> string list \<times> 'e option \<Rightarrow> ('e, DAWG) res" where
  "BuildDAWG lang r =
     (let d = fold build_line (fst r)
                \<lparr>Dawg_lang = lang, Dawg_root = DAWGNode [] False, Dawg_size = 0\<rparr>
      in case snd r of Some e \<Rightarrow> Err e | None \<Rightarrow> Ok d)"

section \<open>Edge lists stay sorted\<close>

fun wf_node :: "DAWGNode \<Rightarrow> bool" where
  "wf_node (DAWGNode es t) \<longleftrightarrow>
     sorted_wrt (<) (map fst es) \<and> (\<forall>e \<in> set es. wf_node (snd e))"

definition sorted_edges :: "DAWGNode \<Rightarrow> bool" where
  "sorted_edges n \<longleftrightarrow> sorted_wrt (<) (map fst (edges n))"

lemma wf_node_sorted [simp]: "wf_node n \<Longrightarrow> sorted_edges n"
  by (cases n) (simp add: sorted_edges_def)

abbreviation edge_pos :: "DAWGNode \<Rightarrow> LetterID \<Rightarrow> nat" where
  "edge_pos n letter \<equiv> sort_search (length (edges n)) (\<lambda>i. fst (edges n ! i) \<ge> letter)"

lemma edge_less:
  "sorted_edges n \<Longrightarrow> a < b \<Longrightarrow> b < length (edges n) \<Longrightarrow> fst (edges n ! a) < fst (edges n ! b)"
  using sorted_wrt_nth_less [of "(<)" "map fst (edges n)" a b] by (simp add: sorted_edges_def)

lemma edge_mono:
  assumes "sorted_edges n" "a \<le> b" "b < length (edges n)" "fst (edges n ! a) \<ge> l"
  shows "fst (edges n ! b) \<ge> l"
  using edge_less [OF assms(1), of a b] assms by (cases "a = b") auto

lemma edge_pos_below:
  assumes s: "sorted_edges n" and k: "k < edge_pos n l"
  shows "k < length (edges n) \<and> fst (edges n ! k) < l"
proof -
  have "edge_pos n l \<le> length (edges n)" "\<not> l \<le> fst (edges n ! k)"
    using sort_search_spec(1,2) [of "length (edges n)" "\<lambda>i. fst (edges n ! i) \<ge> l"] edge_mono [OF s] k
    by blast+
  with k show ?thesis by auto
qed

lemma edge_pos_above:
  assumes s: "sorted_edges n" and k: "edge_pos n l \<le> k" "k < length (edges n)"
  shows "l \<le> fst (edges n ! k)"
proof -
  have "edge_pos n l < length (edges n)" using k by simp
  then have "l \<le> fst (edges n ! edge_pos n l)"
    using sort_search_spec(3) [of "length (edges n)" "\<lambda>i. fst (edges n ! i) \<ge> l"] edge_mono [OF s]
    by blast
  with edge_mono [OF s k] show ?thesis by blast
qed

text \<open>The binary search finds the edge of a letter, and misses only when there is none.\<close>

lemma Edge_map_of:
  assumes s: "sorted_edges n"
  shows "Edge n l = map_of (edges n) l"
proof (cases "edge_pos n l < length (edges n) \<and> fst (edges n ! edge_pos n l) = l")
  case True
  then have "(l, snd (edges n ! edge_pos n l)) \<in> set (edges n)"
    by (metis nth_mem prod.collapse)
  moreover have "distinct (map fst (edges n))"
    using s strict_sorted_iff by (auto simp: sorted_edges_def)
  ultimately show ?thesis using True by (simp add: Edge_def Let_def)
next
  case False
  have "l \<notin> fst ` set (edges n)"
  proof
    assume "l \<in> fst ` set (edges n)"
    then obtain k where k: "k < length (edges n)" "fst (edges n ! k) = l"
      by (auto simp: in_set_conv_nth)
    then have "edge_pos n l \<le> k" using edge_pos_below [OF s, of k l] by fastforce
    moreover from this have "fst (edges n ! edge_pos n l) \<le> l"
      using edge_mono [OF s, of "edge_pos n l" k "fst (edges n ! edge_pos n l)"] k by simp
    moreover have "l \<le> fst (edges n ! edge_pos n l)"
      using edge_pos_above [OF s order.refl] \<open>edge_pos n l \<le> k\<close> k by simp
    ultimately show False using False k by simp
  qed
  then have "map_of (edges n) l = None" by (simp add: map_of_eq_None_iff)
  with False show ?thesis by (auto simp: Edge_def Let_def)
qed

lemma Edge_pos_Some:
  assumes "Edge n l = Some m"
  shows "edge_pos n l < length (edges n) \<and> edges n ! edge_pos n l = (l, m)"
  using assms by (auto simp: Edge_def Let_def prod_eq_iff split: if_splits)

lemma sorted_addEdge:
  assumes s: "sorted_edges n" and none: "Edge n l = None"
  shows "sorted_edges (addEdge n l t)"
proof -
  have below: "\<forall>e \<in> set (take (edge_pos n l) (edges n)). fst e < l"
    using edge_pos_below [OF s, of _ l] by (metis in_set_conv_nth length_take min_less_iff_conj nth_take)
  have above: "l < fst e" if e: "e \<in> set (drop (edge_pos n l) (edges n))" for e
  proof -
    from e obtain k where "edge_pos n l + k < length (edges n)" "e = edges n ! (edge_pos n l + k)"
      by (metis (no_types, lifting) add.commute in_set_conv_nth length_drop less_diff_conv
          less_or_eq_imp_le not_less nth_drop drop_eq_Nil empty_iff list.set(1) linorder_le_cases)
    then have "l \<le> fst e" using edge_pos_above [OF s, of l "edge_pos n l + k"] by simp
    moreover have "l \<noteq> fst e"
      using none e in_set_dropD [OF e] by (auto simp: Edge_map_of [OF s] map_of_eq_None_iff)
    ultimately show ?thesis by simp
  qed
  have "sorted_wrt (<) (map fst (take (edge_pos n l) (edges n)))"
    "sorted_wrt (<) (map fst (drop (edge_pos n l) (edges n)))"
    using s sorted_wrt_take [of "(<)" "map fst (edges n)"] sorted_wrt_drop [of "(<)" "map fst (edges n)"]
    unfolding sorted_edges_def take_map drop_map by blast+
  moreover have "fst a < fst b" if "a \<in> set (take (edge_pos n l) (edges n))"
    "b \<in> set (drop (edge_pos n l) (edges n))" for a b
    using below above that by (meson less_trans)
  ultimately show ?thesis
    using below above unfolding sorted_edges_def addEdge_def Let_def
    by (simp add: sorted_wrt_append)
qed

lemma Edge_addEdge:
  assumes "sorted_edges n" and "Edge n l = None"
  shows "Edge (addEdge n l t) x = (if x = l then Some t else Edge n x)"
proof -
  have eq: "map_of (take k es @ (l, t) # drop k es) x = (if x = l then Some t else map_of es x)"
    if "map_of es l = None" for k and es :: "(nat \<times> DAWGNode) list"
  proof -
    have "map_of es x = map_of (take k es @ drop k es) x" by simp
    moreover have "l \<notin> fst ` set (take k es)"
      using that set_take_subset [of k es] by (auto simp: map_of_eq_None_iff)
    then have "map_of (take k es) l = None" by (simp add: map_of_eq_None_iff)
    ultimately show ?thesis
      by (auto simp: map_add_def split: option.splits simp del: append_take_drop_id)
  qed
  show ?thesis
    using assms eq [of "edges n" "edge_pos n l"] Edge_map_of [OF sorted_addEdge [OF assms, of t], of x]
    by (simp only: Edge_map_of [OF assms(1)]) (simp only: addEdge_def Let_def DAWGNode.sel)
qed

lemma setTarget_edges:
  assumes "Edge n l = Some m"
  shows "map fst (edges (setTarget n l t)) = map fst (edges n)"
  using Edge_pos_Some [OF assms] by (simp add: setTarget_def Let_def map_update list_update_same_conv)

lemma sorted_setTarget: "sorted_edges n \<Longrightarrow> Edge n l = Some m \<Longrightarrow> sorted_edges (setTarget n l t)"
  by (simp add: sorted_edges_def setTarget_edges)

lemma map_of_update_distinct:
  assumes "distinct (map fst es)" and "k < length es" and "fst (es ! k) = l"
  shows "map_of (es[k := (l, t)]) x = (if x = l then Some t else map_of es x)"
  using assms
proof (induction es arbitrary: k)
  case (Cons e es)
  show ?case
  proof (cases k)
    case (Suc j)
    then have "fst e \<noteq> l" using Cons.prems nth_mem [of j es] by force
    moreover have "map_of (es[j := (l, t)]) x = (if x = l then Some t else map_of es x)"
      using Cons.prems Suc by (intro Cons.IH) auto
    ultimately show ?thesis using Suc by (cases e) auto
  qed (use Cons.prems in auto)
qed simp

lemma Edge_setTarget:
  assumes s: "sorted_edges n" and m: "Edge n l = Some m"
  shows "Edge (setTarget n l t) x = (if x = l then Some t else Edge n x)"
proof -
  have "distinct (map fst (edges n))"
    using s strict_sorted_iff by (auto simp: sorted_edges_def)
  then show ?thesis
    using Edge_pos_Some [OF m] map_of_update_distinct [of "edges n" "edge_pos n l" l t x]
      Edge_map_of [OF sorted_setTarget [OF s m, of t], of x]
    by (simp only: Edge_map_of [OF s]) (simp only: setTarget_def Let_def DAWGNode.sel fst_conv)
qed

lemma wf_node_iff: "wf_node n \<longleftrightarrow> sorted_edges n \<and> (\<forall>e \<in> set (edges n). wf_node (snd e))"
  by (cases n) (simp add: sorted_edges_def)

lemma wf_node_Edge: "wf_node n \<Longrightarrow> Edge n l = Some m \<Longrightarrow> wf_node m"
  by (metis Edge_pos_Some nth_mem snd_conv wf_node_iff)

lemma set_edges_addEdge: "set (edges (addEdge n l t)) = insert (l, t) (set (edges n))"
proof -
  have "set (take k es @ x # drop k es) = insert x (set es)" for k x and es :: "'x list"
    by (metis append_take_drop_id list.simps(15) set_append Un_insert_right)
  then show ?thesis by (simp only: addEdge_def Let_def DAWGNode.sel)
qed

lemma wf_addEdge: "wf_node n \<Longrightarrow> Edge n l = None \<Longrightarrow> wf_node t \<Longrightarrow> wf_node (addEdge n l t)"
  by (auto simp: wf_node_iff [of n] wf_node_iff [of "addEdge n l t"] sorted_addEdge set_edges_addEdge)

lemma wf_setTarget:
  assumes "wf_node n" and "Edge n l = Some m" and "wf_node t"
  shows "wf_node (setTarget n l t)"
proof -
  have "set (edges (setTarget n l t)) \<subseteq> insert (l, t) (set (edges n))"
    using set_update_subset_insert [of "edges n" "edge_pos n l" "(l, t)"]
    by (simp add: setTarget_def Let_def)
  moreover have "\<forall>e \<in> insert (l, t) (set (edges n)). wf_node (snd e)"
    using assms(1,3) wf_node_iff [of n] by auto
  moreover have "sorted_edges (setTarget n l t)"
    using assms sorted_setTarget by simp
  ultimately show ?thesis using wf_node_iff [of "setTarget n l t"] by blast
qed

section \<open>Insertion adds exactly one word\<close>

definition accepts :: "DAWGNode \<Rightarrow> LetterID list \<Rightarrow> bool" where
  "accepts n w \<longleftrightarrow> (case dawg_walk n w of None \<Rightarrow> False | Some m \<Rightarrow> terminal m)"

lemma accepts_simps [simp]:
  "accepts n [] = terminal n"
  "accepts n (i # w) = (case Edge n i of None \<Rightarrow> False | Some m \<Rightarrow> accepts m w)"
  by (auto simp: accepts_def split: option.splits)

lemma terminal_addEdge [simp]: "terminal (addEdge n l t) = terminal n"
  by (simp add: addEdge_def Let_def)

lemma terminal_setTarget [simp]: "terminal (setTarget n l t) = terminal n"
  by (simp add: setTarget_def Let_def)

lemma accepts_empty [simp]: "\<not> accepts (DAWGNode [] False) w"
  by (cases w) (simp_all add: Edge_def Let_def sort_search_def sort_search_loop.simps)

lemma wf_dawg_insert: "wf_node n \<Longrightarrow> wf_node (fst (dawg_insert w n))"
proof (induction w arbitrary: n)
  case Nil
  then show ?case by (cases n) simp
next
  case (Cons i w)
  then show ?case
    by (auto simp: split_def Let_def wf_addEdge wf_setTarget wf_node_Edge split: option.splits)
qed

lemma dawg_insert_fresh: "wf_node n \<Longrightarrow> snd (dawg_insert w n) = (\<not> accepts n w)"
proof (induction w arbitrary: n)
  case (Cons i w)
  then show ?case by (auto simp: split_def Let_def wf_node_Edge split: option.splits)
qed simp

lemma terminal_insert: "terminal (fst (dawg_insert (i # w) n)) = terminal n"
  by (simp add: split_def Let_def split: option.splits)

lemma accepts_insert: "wf_node n \<Longrightarrow> accepts (fst (dawg_insert w n)) v = (v = w \<or> accepts n v)"
proof (induction w arbitrary: n v)
  case Nil
  then show ?case
    by (cases v; cases n) (auto simp: Edge_def Let_def split: option.splits)
next
  case (Cons i w)
  show ?case
  proof (cases v)
    case Nil
    then show ?thesis by (simp add: terminal_insert del: dawg_insert.simps)
  next
    case (Cons j v')
    show ?thesis
    proof (cases "Edge n i")
      case None
      then have "Edge (fst (dawg_insert (i # w) n)) j =
          (if j = i then Some (fst (dawg_insert w (DAWGNode [] False))) else Edge n j)"
        using Cons.prems by (simp add: split_def Let_def Edge_addEdge)
      with None Cons show ?thesis using Cons.IH [of "DAWGNode [] False" v']
        by (simp del: dawg_insert.simps)
    next
      case (Some m)
      then have "Edge (fst (dawg_insert (i # w) n)) j =
          (if j = i then Some (fst (dawg_insert w m)) else Edge n j)"
        using Cons.prems by (simp add: split_def Let_def Edge_setTarget [of n i m])
      with Some Cons show ?thesis using Cons.IH [of m v'] Cons.prems wf_node_Edge
        by (simp del: dawg_insert.simps)
    qed
  qed
qed

section \<open>The word list and the dictionary\<close>

text \<open>The words a list of lines contributes: comments, blank lines, short words and words outside
  the alphabet are skipped.\<close>

fun line_word :: "Language \<Rightarrow> string \<Rightarrow> LetterID list option" where
  "line_word l raw =
     (let line = TrimSpace raw in
      if line = [] \<or> HasPrefix line ''#'' then None
      else case NormalizeWord l line of
        Ok ids \<Rightarrow> if length ids < MinWordLength then None else Some ids
      | _ \<Rightarrow> None)"

declare line_word.simps [simp del]

definition wordlist :: "Language \<Rightarrow> string list \<Rightarrow> LetterID list set" where
  "wordlist l lines = set (List.map_filter (line_word l) lines)"

definition dawg_words :: "DAWG \<Rightarrow> LetterID list set" where
  "dawg_words d = {w. accepts (Dawg_root d) w}"

text \<open>The invariant of a dictionary: sorted edges, no short words, and \<open>Dawg_size\<close> counts the words.\<close>

definition wf_dawg :: "DAWG \<Rightarrow> bool" where
  "wf_dawg d \<longleftrightarrow> wf_node (Dawg_root d) \<and> finite (dawg_words d) \<and> Dawg_size d = card (dawg_words d) \<and>
     (\<forall>w \<in> dawg_words d. MinWordLength \<le> length w)"

lemma build_line_word:
  "build_line raw d =
     (case line_word (Dawg_lang d) raw of
        None \<Rightarrow> d
      | Some ids \<Rightarrow>
          (let (root, fresh) = dawg_insert ids (Dawg_root d) in
           d\<lparr>Dawg_root := root, Dawg_size := (if fresh then Suc (Dawg_size d) else Dawg_size d)\<rparr>))"
  by (auto simp: build_line_def line_word.simps Let_def split: res.splits)

lemma line_word_long: "line_word l raw = Some w \<Longrightarrow> MinWordLength \<le> length w"
  by (auto simp: line_word.simps Let_def split: if_splits res.splits)

lemma build_line_words:
  assumes "wf_dawg d"
  shows "dawg_words (build_line raw d) = set_option (line_word (Dawg_lang d) raw) \<union> dawg_words d"
    and "wf_dawg (build_line raw d)"
    and "Dawg_lang (build_line raw d) = Dawg_lang d"
proof -
  have w: "wf_node (Dawg_root d)" using assms by (simp add: wf_dawg_def)
  show words: "dawg_words (build_line raw d) = set_option (line_word (Dawg_lang d) raw) \<union> dawg_words d"
    using accepts_insert [OF w]
    by (auto simp: build_line_word dawg_words_def split_def Let_def split: option.splits)
  show "Dawg_lang (build_line raw d) = Dawg_lang d"
    by (simp add: build_line_word split_def Let_def split: option.splits)
  show "wf_dawg (build_line raw d)"
  proof (cases "line_word (Dawg_lang d) raw")
    case None
    then show ?thesis using assms by (simp add: build_line_word)
  next
    case (Some ids)
    have "Dawg_size (build_line raw d) = card (dawg_words (build_line raw d))"
      unfolding words using Some assms dawg_insert_fresh [OF w, of ids]
      by (auto simp: build_line_word split_def Let_def wf_dawg_def dawg_words_def card_insert_if)
    then show ?thesis
      using Some assms words wf_dawg_insert [OF w, of ids] line_word_long
      by (auto simp: wf_dawg_def) (simp add: build_line_word split_def Let_def)
  qed
qed

lemma fold_build_line:
  "wf_dawg d \<Longrightarrow>
     wf_dawg (fold build_line lines d) \<and>
     Dawg_lang (fold build_line lines d) = Dawg_lang d \<and>
     dawg_words (fold build_line lines d) = wordlist (Dawg_lang d) lines \<union> dawg_words d"
proof (induction lines arbitrary: d)
  case (Cons line lines)
  then show ?case
    using build_line_words [OF Cons.prems, of line]
    by (auto simp: wordlist_def List.map_filter_def split: option.splits)
qed (simp add: wordlist_def List.map_filter_def)

lemma wf_dawg_empty: "wf_dawg \<lparr>Dawg_lang = l, Dawg_root = DAWGNode [] False, Dawg_size = 0\<rparr>"
  by (simp add: wf_dawg_def dawg_words_def)

lemma BuildDAWG_words:
  assumes "BuildDAWG l (lines, err) = Ok d"
  shows "wf_dawg d" and "Dawg_lang d = l" and "dawg_words d = wordlist l lines"
  using assms fold_build_line [OF wf_dawg_empty, of lines l]
  by (auto simp: BuildDAWG_def Let_def dawg_words_def split: option.splits)

lemma Contains_iff:
  assumes "wf_dawg d"
  shows "Contains d w \<longleftrightarrow> w \<in> dawg_words d"
proof -
  have "MinWordLength \<le> length w" if "w \<in> dawg_words d"
    using assms that by (simp add: wf_dawg_def)
  then show ?thesis
    by (auto simp: Contains_def dawg_words_def accepts_def not_less [symmetric]
        simp del: accepts_simps split: if_splits)
qed

text \<open>The DAWG is a dictionary in the sense of the validator's contract.\<close>

interpretation dawg: dictionary Contains dawg_words wf_dawg
  by unfold_locales (auto simp: Contains_iff wf_dawg_def)

end
