(* ===== verification/Scrabble_Move.thy ===== *)
theory Scrabble_Move
  imports Scrabble_Board Scrabble_Bag Scrabble_Dawg
begin

text \<open>
  Move validation and scoring (\<^verbatim>\<open>scrabble/move.go\<close>). \<open>Validate\<close> takes the dictionary's
  membership test as an argument, as the Go function takes the \<^verbatim>\<open>Dictionary\<close> interface. A set of
  coordinates stands for the \<^verbatim>\<open>map[[2]int]bool\<close> of new squares.
\<close>

section \<open>Data\<close>

definition BingoBonus :: int where "BingoBonus = 50"

datatype Direction = Horizontal | Vertical

datatype move_error =
    ErrEmptyMove | ErrTooManyPlacements | ErrOutOfBounds | ErrDuplicatePlacement
  | ErrSquareOccupied | ErrUnassignedBlank | ErrNotOnLine | ErrNotContiguous
  | ErrFirstMoveMustCoverCenter | ErrMustTouchExisting | ErrNoWordFormed
  | InvalidWordError string

record Placement =
  P_Row :: int
  P_Col :: int
  P_Tile :: Tile

record Move =
  Placements :: "Placement list"

record FormedWord =
  FW_Word :: string
  FW_Score :: int
  FW_StartRow :: int
  FW_StartCol :: int
  FW_Direction :: Direction

record MoveResult =
  MR_Words :: "FormedWord list"
  MR_Score :: int
  MR_Bingo :: bool

record wordTile =
  wt_row :: int
  wt_col :: int
  wt_tile :: Tile

type_synonym scrabble_word = "wordTile list"

section \<open>Geometry\<close>

definition step :: "Direction \<Rightarrow> int \<times> int" where
  "step dir = (if dir = Horizontal then (0, 1) else (1, 0))"

definition perpendicular :: "Direction \<Rightarrow> Direction" where
  "perpendicular dir = (if dir = Horizontal then Vertical else Horizontal)"

definition word_direction :: "scrabble_word \<Rightarrow> Direction" where
  "word_direction w =
     (if length w < 2 then Horizontal
      else if wt_row (w ! 0) = wt_row (w ! 1) then Horizontal else Vertical)"

section \<open>Checks on the placements\<close>

fun checkPlacements_loop ::
  "Board \<Rightarrow> Placement list \<Rightarrow> (int \<times> int) set \<Rightarrow> move_error option"
where
  "checkPlacements_loop board [] seen = None"
| "checkPlacements_loop board (p # ps) seen =
     (if \<not> InBounds (P_Row p) (P_Col p) then Some ErrOutOfBounds
      else if IsUnassignedBlank (P_Tile p) then Some ErrUnassignedBlank
      else if (P_Row p, P_Col p) \<in> seen then Some ErrDuplicatePlacement
      else if Sq_Filled (At board (P_Row p) (P_Col p)) then Some ErrSquareOccupied
      else checkPlacements_loop board ps (insert (P_Row p, P_Col p) seen))"

definition checkPlacements :: "Move \<Rightarrow> Board \<Rightarrow> move_error option" where
  "checkPlacements m board =
     (if length (Placements m) = 0 then Some ErrEmptyMove
      else if length (Placements m) > RackSize then Some ErrTooManyPlacements
      else checkPlacements_loop board (Placements m) {})"

definition lineDirection :: "Move \<Rightarrow> (move_error, Direction) res" where
  "lineDirection m =
     (if length (Placements m) = 1 then Ok Horizontal
      else case Placements m of
        [] \<Rightarrow> Panic
      | p0 # ps \<Rightarrow>
          (let sameRow = list_all (\<lambda>p. P_Row p = P_Row p0) ps;
               sameCol = list_all (\<lambda>p. P_Col p = P_Col p0) ps
           in if sameRow then Ok Horizontal
              else if sameCol then Ok Vertical
              else Err ErrNotOnLine))"

definition sortPlacements :: "Placement list \<Rightarrow> Direction \<Rightarrow> Placement list" where
  "sortPlacements ps dir =
     sort_key (\<lambda>p. if dir = Horizontal then (P_Col p, P_Row p) else (P_Row p, P_Col p)) ps"

definition hasPlacement :: "Placement list \<Rightarrow> int \<Rightarrow> int \<Rightarrow> bool" where
  "hasPlacement ps row col \<longleftrightarrow> list_ex (\<lambda>p. P_Row p = row \<and> P_Col p = col) ps"

definition checkConnectivity :: "Board \<Rightarrow> Placement list \<Rightarrow> Direction \<Rightarrow> move_error option" where
  "checkConnectivity board ps dir =
     (if length ps \<le> 1 then None
      else let first = hd ps; last = last ps in
        if dir = Horizontal
        then (if list_ex (\<lambda>col. \<not> Sq_Filled (At board (P_Row first) col) \<and>
                                \<not> hasPlacement ps (P_Row first) col)
                         [P_Col first + 1 .. P_Col last - 1]
              then Some ErrNotContiguous else None)
        else (if list_ex (\<lambda>row. \<not> Sq_Filled (At board row (P_Col first)) \<and>
                                \<not> hasPlacement ps row (P_Col first))
                         [P_Row first + 1 .. P_Row last - 1]
              then Some ErrNotContiguous else None))"

definition coversCenter :: "Placement list \<Rightarrow> bool" where
  "coversCenter ps \<longleftrightarrow> list_ex (\<lambda>p. P_Row p = CenterRow \<and> P_Col p = CenterCol) ps"

section \<open>Words\<close>

function walk_start :: "Board \<Rightarrow> Direction \<Rightarrow> int \<Rightarrow> int \<Rightarrow> int \<times> int" where
  "walk_start tmp dir row col =
     (let prevRow = row - fst (step dir); prevCol = col - snd (step dir) in
      if \<not> InBounds prevRow prevCol \<or> \<not> Sq_Filled (At tmp prevRow prevCol) then (row, col)
      else walk_start tmp dir prevRow prevCol)"
  by pat_completeness auto
termination
  by (relation "measure (\<lambda>(tmp, dir, row, col). nat (row + col))")
     (auto simp: step_def InBounds_def split: if_splits)

function collect_run :: "Board \<Rightarrow> Direction \<Rightarrow> int \<Rightarrow> int \<Rightarrow> scrabble_word" where
  "collect_run tmp dir row col =
     (if InBounds row col \<and> Sq_Filled (At tmp row col)
      then \<lparr>wt_row = row, wt_col = col, wt_tile = Sq_Tile (At tmp row col)\<rparr> #
           collect_run tmp dir (row + fst (step dir)) (col + snd (step dir))
      else [])"
  by pat_completeness auto
termination
  by (relation "measure (\<lambda>(tmp, dir, row, col). nat (29 - row - col))")
     (auto simp: step_def InBounds_def BoardSize_def split: if_splits)

declare walk_start.simps [simp del] collect_run.simps [simp del]

definition extractWord :: "Board \<Rightarrow> int \<Rightarrow> int \<Rightarrow> Direction \<Rightarrow> scrabble_word" where
  "extractWord tmp row col dir =
     (let (startRow, startCol) = walk_start tmp dir row col
      in collect_run tmp dir startRow startCol)"

definition collectWords :: "Board \<Rightarrow> Placement list \<Rightarrow> Direction \<Rightarrow> scrabble_word list" where
  "collectWords tmp ps dir =
     (let main = extractWord tmp (P_Row (hd ps)) (P_Col (hd ps)) dir
      in (if length main \<ge> 2 then [main] else []) @
         filter (\<lambda>cross. length cross \<ge> 2)
           (map (\<lambda>p. extractWord tmp (P_Row p) (P_Col p) (perpendicular dir)) ps))"

definition extendsExisting :: "scrabble_word list \<Rightarrow> (int \<times> int) set \<Rightarrow> bool" where
  "extendsExisting words newSquares \<longleftrightarrow>
     list_ex (list_ex (\<lambda>t. (wt_row t, wt_col t) \<notin> newSquares)) words"

definition wordLetterIDs :: "scrabble_word \<Rightarrow> LetterID list" where
  "wordLetterIDs w = map (\<lambda>t. Tile_Letter (wt_tile t)) w"

definition wordString :: "scrabble_word \<Rightarrow> Language \<Rightarrow> string option" where
  "wordString w lang = those (map (\<lambda>t. Rune lang (Tile_Letter (wt_tile t))) w)"

fun scoreWord_loop ::
  "scrabble_word \<Rightarrow> (int \<times> int) set \<Rightarrow> Language \<Rightarrow> int \<Rightarrow> int \<Rightarrow> int option"
where
  "scoreWord_loop [] newSquares lang letterTotal wordMultiplier = Some (letterTotal * wordMultiplier)"
| "scoreWord_loop (t # ts) newSquares lang letterTotal wordMultiplier =
     (case Tile_Score (wt_tile t) lang of
        None \<Rightarrow> None
      | Some base \<Rightarrow>
          (if (wt_row t, wt_col t) \<in> newSquares
           then (case standardPremium (wt_row t) (wt_col t) of
                   PremiumDoubleLetter \<Rightarrow>
                     scoreWord_loop ts newSquares lang (letterTotal + base * 2) wordMultiplier
                 | PremiumTripleLetter \<Rightarrow>
                     scoreWord_loop ts newSquares lang (letterTotal + base * 3) wordMultiplier
                 | PremiumDoubleWord \<Rightarrow>
                     scoreWord_loop ts newSquares lang (letterTotal + base) (wordMultiplier * 2)
                 | PremiumTripleWord \<Rightarrow>
                     scoreWord_loop ts newSquares lang (letterTotal + base) (wordMultiplier * 3)
                 | PremiumNone \<Rightarrow>
                     scoreWord_loop ts newSquares lang (letterTotal + base) wordMultiplier)
           else scoreWord_loop ts newSquares lang (letterTotal + base) wordMultiplier))"

definition scoreWord :: "scrabble_word \<Rightarrow> (int \<times> int) set \<Rightarrow> Language \<Rightarrow> int option" where
  "scoreWord w newSquares lang = scoreWord_loop w newSquares lang 0 1"

section \<open>Validate and Apply\<close>

fun validate_words ::
  "scrabble_word list \<Rightarrow> (int \<times> int) set \<Rightarrow> (LetterID list \<Rightarrow> bool) \<Rightarrow> Language \<Rightarrow> MoveResult \<Rightarrow>
   (move_error, MoveResult) res"
where
  "validate_words [] newSquares contains lang result = Ok result"
| "validate_words (w # ws) newSquares contains lang result =
     (if \<not> contains (wordLetterIDs w)
      then (case wordString w lang of None \<Rightarrow> Panic | Some s \<Rightarrow> Err (InvalidWordError s))
      else case wordString w lang of
        None \<Rightarrow> Panic
      | Some s \<Rightarrow>
          (case scoreWord w newSquares lang of
             None \<Rightarrow> Panic
           | Some n \<Rightarrow>
               validate_words ws newSquares contains lang
                 (result\<lparr>MR_Words := MR_Words result @
                            [\<lparr>FW_Word = s, FW_Score = n, FW_StartRow = wt_row (hd w),
                              FW_StartCol = wt_col (hd w), FW_Direction = word_direction w\<rparr>],
                         MR_Score := MR_Score result + n\<rparr>)))"

definition place_ignore :: "Placement \<Rightarrow> Board \<Rightarrow> Board" where
  "place_ignore p b = (case Place (P_Row p) (P_Col p) (P_Tile p) b of Ok b' \<Rightarrow> b' | _ \<Rightarrow> b)"

definition new_squares :: "Placement list \<Rightarrow> (int \<times> int) set" where
  "new_squares ps = set (map (\<lambda>p. (P_Row p, P_Col p)) ps)"

definition Validate ::
  "Move \<Rightarrow> Board \<Rightarrow> (LetterID list \<Rightarrow> bool) \<Rightarrow> Language \<Rightarrow> (move_error, MoveResult) res"
where
  "Validate m board contains lang =
     (case checkPlacements m board of Some e \<Rightarrow> Err e | None \<Rightarrow>
      (case lineDirection m of Err e \<Rightarrow> Err e | Panic \<Rightarrow> Panic | Ok dir \<Rightarrow>
       (let ps = sortPlacements (Placements m) dir in
        case checkConnectivity board ps dir of Some e \<Rightarrow> Err e | None \<Rightarrow>
        (let tmp = fold place_ignore ps board;
             newSquares = new_squares ps;
             words = collectWords tmp ps dir in
         if words = [] then Err ErrNoWordFormed
         else if IsEmptyBoard board \<and> \<not> coversCenter ps then Err ErrFirstMoveMustCoverCenter
         else if \<not> IsEmptyBoard board \<and> \<not> extendsExisting words newSquares
              then Err ErrMustTouchExisting
         else case validate_words words newSquares contains lang
                     \<lparr>MR_Words = [], MR_Score = 0, MR_Bingo = (length ps = RackSize)\<rparr> of
                Ok result \<Rightarrow>
                  Ok (if MR_Bingo result then result\<lparr>MR_Score := MR_Score result + BingoBonus\<rparr>
                      else result)
              | Err e \<Rightarrow> Err e
              | Panic \<Rightarrow> Panic))))"

text \<open>
  \<open>Apply\<close> writes through the board pointer, so an error leaves the placements made before it on the
  board: the error carries that board.
\<close>

fun Apply_loop :: "Placement list \<Rightarrow> Board \<Rightarrow> (board_error \<times> Board, Board) res" where
  "Apply_loop [] board = Ok board"
| "Apply_loop (p # ps) board =
     (case Place (P_Row p) (P_Col p) (P_Tile p) board of
        Ok b \<Rightarrow> Apply_loop ps b
      | Err e \<Rightarrow> Err (e, board)
      | Panic \<Rightarrow> Panic)"

definition Apply :: "Move \<Rightarrow> Board \<Rightarrow> (board_error \<times> Board, Board) res" where
  "Apply m board = Apply_loop (Placements m) board"

end
