(* ===== verification/Scrabble_Legal.thy ===== *)
theory Scrabble_Legal
  imports Scrabble_Move
begin

text \<open>
  What a legal move is, stated without the order of the placements and without the loops of
  \<^verbatim>\<open>move.go\<close>, and the proof that \<open>Validate\<close> accepts exactly the legal moves.
\<close>

section \<open>Squares on a line\<close>

definition along :: "Direction \<Rightarrow> int \<Rightarrow> int \<Rightarrow> int \<Rightarrow> int \<times> int" where
  "along dir row col k = (row + k * fst (step dir), col + k * snd (step dir))"

definition live :: "Board \<Rightarrow> int \<times> int \<Rightarrow> bool" where
  "live b sq \<longleftrightarrow> InBounds (fst sq) (snd sq) \<and> filled b (fst sq) (snd sq)"

lemma along_0 [simp]: "along dir row col 0 = (row, col)"
  by (simp add: along_def)

lemma along_along:
  "along dir (fst (along dir row col j)) (snd (along dir row col j)) k = along dir row col (j + k)"
  by (simp add: along_def algebra_simps)

lemma along_inj [simp]: "along dir row col j = along dir row col k \<longleftrightarrow> j = k"
  by (auto simp: along_def step_def)

lemma along_simps:
  "along Horizontal row col k = (row, col + k)"
  "along Vertical row col k = (row + k, col)"
  by (simp_all add: along_def step_def)

lemma live_wf: "wf_board l b \<Longrightarrow> live b (r, c) \<longleftrightarrow> filled b r c"
  by (auto simp: live_def dest: wf_board_InBounds)

section \<open>Runs\<close>

definition mk_wordTile :: "Board \<Rightarrow> int \<times> int \<Rightarrow> wordTile" where
  "mk_wordTile b sq = \<lparr>wt_row = fst sq, wt_col = snd sq, wt_tile = Sq_Tile (At b (fst sq) (snd sq))\<rparr>"

lemma walk_start_spec:
  "\<exists>k::nat. walk_start b dir row col = along dir row col (- int k) \<and>
     (\<forall>j. 1 \<le> j \<and> j \<le> k \<longrightarrow> live b (along dir row col (- int j))) \<and>
     \<not> live b (along dir row col (- int (Suc k)))"
proof (induction b dir row col rule: walk_start.induct)
  case (1 b dir row col)
  let ?p = "along dir row col (- 1)"
  have p: "?p = (row - fst (step dir), col - snd (step dir))" by (simp add: along_def)
  show ?case
  proof (cases "live b ?p")
    case False
    then have "walk_start b dir row col = along dir row col (- int 0)"
      by (subst walk_start.simps) (auto simp: p live_def filled_def Let_def)
    with False show ?thesis by (intro exI [of _ 0]) simp
  next
    case True
    then have eq: "walk_start b dir row col = walk_start b dir (fst ?p) (snd ?p)"
      by (subst walk_start.simps) (auto simp: p live_def filled_def Let_def)
    from True "1.IH" [OF refl refl] obtain k :: nat where
      k: "walk_start b dir (fst ?p) (snd ?p) = along dir (fst ?p) (snd ?p) (- int k)"
      "\<forall>j. 1 \<le> j \<and> j \<le> k \<longrightarrow> live b (along dir (fst ?p) (snd ?p) (- int j))"
      "\<not> live b (along dir (fst ?p) (snd ?p) (- int (Suc k)))"
      by (auto simp: p live_def filled_def)
    have "live b (along dir row col (- int j))" if "1 \<le> j" "j \<le> Suc k" for j
    proof (cases "j = 1")
      case False
      with that have "1 \<le> j - 1 \<and> j - 1 \<le> k" by auto
      with k(2) have "live b (along dir (fst ?p) (snd ?p) (- int (j - 1)))" by blast
      with that show ?thesis by (simp add: along_along of_nat_diff)
    qed (use True in simp)
    moreover have "walk_start b dir row col = along dir row col (- int (Suc k))"
      using k(1) eq by (simp add: along_along)
    moreover have "\<not> live b (along dir row col (- int (Suc (Suc k))))"
      using k(3) by (simp add: along_along)
    ultimately show ?thesis by blast
  qed
qed

lemma collect_run_spec:
  "\<exists>n. collect_run b dir row col = map (\<lambda>j. mk_wordTile b (along dir row col (int j))) [0..<n] \<and>
     (\<forall>j < n. live b (along dir row col (int j))) \<and> \<not> live b (along dir row col (int n))"
proof (induction b dir row col rule: collect_run.induct)
  case (1 b dir row col)
  show ?case
  proof (cases "live b (row, col)")
    case False
    then show ?thesis
      by (intro exI [of _ 0], subst collect_run.simps) (auto simp: live_def filled_def)
  next
    case True
    let ?q = "along dir row col 1"
    have q: "?q = (row + fst (step dir), col + snd (step dir))" by (simp add: along_def)
    from True "1.IH" obtain n where
      n: "collect_run b dir (fst ?q) (snd ?q) =
            map (\<lambda>j. mk_wordTile b (along dir (fst ?q) (snd ?q) (int j))) [0..<n]"
      "\<forall>j < n. live b (along dir (fst ?q) (snd ?q) (int j))"
      "\<not> live b (along dir (fst ?q) (snd ?q) (int n))"
      by (auto simp: q live_def filled_def)
    have "collect_run b dir row col = mk_wordTile b (row, col) # collect_run b dir (fst ?q) (snd ?q)"
      using True by (subst collect_run.simps) (simp add: live_def filled_def mk_wordTile_def q)
    also have "\<dots> = map (\<lambda>j. mk_wordTile b (along dir row col (int j))) [0..<Suc n]"
      unfolding n(1) upt_conv_Cons [OF zero_less_Suc] map_Suc_upt [symmetric]
      by (simp add: along_along)
    finally have run: "collect_run b dir row col =
        map (\<lambda>j. mk_wordTile b (along dir row col (int j))) [0..<Suc n]" .
    have "live b (along dir row col (int j))" if "j < Suc n" for j
      using that n(2) True by (cases j) (auto simp: along_along)
    with run n(3) show ?thesis
      by (intro exI [of _ "Suc n"]) (auto simp: along_along)
  qed
qed

text \<open>A maximal run of at least two tiles: what the rules call a word on the board.\<close>

definition maximal_run :: "Board \<Rightarrow> Direction \<Rightarrow> int \<Rightarrow> int \<Rightarrow> nat \<Rightarrow> bool" where
  "maximal_run b dir row col n \<longleftrightarrow>
     (\<forall>j < n. live b (along dir row col (int j))) \<and>
     \<not> live b (along dir row col (- 1)) \<and> \<not> live b (along dir row col (int n))"

definition run_tiles :: "Board \<Rightarrow> Direction \<Rightarrow> int \<Rightarrow> int \<Rightarrow> nat \<Rightarrow> scrabble_word" where
  "run_tiles b dir row col n = map (\<lambda>j. mk_wordTile b (along dir row col (int j))) [0..<n]"

definition run_squares :: "Direction \<Rightarrow> int \<Rightarrow> int \<Rightarrow> nat \<Rightarrow> (int \<times> int) set" where
  "run_squares dir row col n = (\<lambda>j. along dir row col (int j)) ` {..<n}"

lemma extractWord_run:
  assumes "live b (row, col)"
  obtains k n where "k < n"
    "maximal_run b dir (fst (along dir row col (- int k))) (snd (along dir row col (- int k))) n"
    "extractWord b row col dir =
       run_tiles b dir (fst (along dir row col (- int k))) (snd (along dir row col (- int k))) n"
proof -
  obtain k :: nat where k: "walk_start b dir row col = along dir row col (- int k)"
    "\<forall>j. 1 \<le> j \<and> j \<le> k \<longrightarrow> live b (along dir row col (- int j))"
    "\<not> live b (along dir row col (- int (Suc k)))"
    using walk_start_spec by blast
  define s where "s = along dir row col (- int k)"
  have s: "along dir (fst s) (snd s) j = along dir row col (j - int k)" for j
    by (simp add: s_def along_along)
  obtain n where n: "collect_run b dir (fst s) (snd s) =
      map (\<lambda>j. mk_wordTile b (along dir (fst s) (snd s) (int j))) [0..<n]"
    "\<forall>j < n. live b (along dir (fst s) (snd s) (int j))"
    "\<not> live b (along dir (fst s) (snd s) (int n))"
    using collect_run_spec by blast
  have "k < n"
  proof (rule ccontr)
    assume "\<not> k < n"
    then have "live b (along dir row col (- int (k - n)))"
      using k(2) [rule_format, of "k - n"] assms by (cases "k = n") (auto simp del: of_nat_diff)
    moreover have "- int (k - n) = int n - int k" using \<open>\<not> k < n\<close> by simp
    ultimately show False using n(3) by (simp add: s)
  qed
  moreover have "maximal_run b dir (fst s) (snd s) n"
    using n(2,3) k(3) by (auto simp: maximal_run_def s algebra_simps)
  moreover have "extractWord b row col dir = run_tiles b dir (fst s) (snd s) n"
    using n(1) k(1) by (simp add: extractWord_def run_tiles_def s_def split_def Let_def)
  ultimately show thesis using that unfolding s_def by blast
qed

text \<open>Two maximal runs of one direction through the same square are the same run.\<close>

lemma maximal_run_unique:
  assumes m: "maximal_run b dir r c n" and m': "maximal_run b dir r' c' n'"
    and sq: "along dir r c (int i) = along dir r' c' (int j)" "i < n" "j < n'"
  shows "(r, c) = (r', c') \<and> n = n'"
proof -
  have shift: "along dir r c (int i + t) = along dir r' c' (int j + t)" for t
    using sq(1) by (metis along_along)
  have "i = j"
  proof (rule ccontr)
    assume "i \<noteq> j"
    then consider "i < j" | "j < i" by linarith
    then show False
    proof cases
      case 1
      have "along dir r c (- 1) = along dir r' c' (int (j - Suc i))"
        using shift [of "- int i - 1"] 1 by (simp add: of_nat_diff algebra_simps)
      moreover have "j - Suc i < n'" using sq(3) by simp
      ultimately show False using m m' unfolding maximal_run_def by metis
    next
      case 2
      have "along dir r' c' (- 1) = along dir r c (int (i - Suc j))"
        using shift [of "- int j - 1"] 2 by (simp add: of_nat_diff algebra_simps)
      moreover have "i - Suc j < n" using sq(2) by simp
      ultimately show False using m m' unfolding maximal_run_def by metis
    qed
  qed
  have all: "along dir r c t = along dir r' c' t" for t
    using shift [of "t - int i"] \<open>i = j\<close> by simp
  have "n = n'"
    using m m' all by (metis linorder_neqE_nat maximal_run_def)
  with all [of 0] show ?thesis by simp
qed

section \<open>The board after a move\<close>

definition sq_of :: "Placement \<Rightarrow> int \<times> int" where
  "sq_of p = (P_Row p, P_Col p)"

definition after :: "Placement list \<Rightarrow> Board \<Rightarrow> Board" where
  "after ps b = fold place_ignore ps b"

text \<open>Placements that \<open>checkPlacements\<close> lets through.\<close>

definition placeable :: "Placement list \<Rightarrow> Board \<Rightarrow> bool" where
  "placeable ps b \<longleftrightarrow> distinct (map sq_of ps) \<and>
     (\<forall>p \<in> set ps. InBounds (P_Row p) (P_Col p) \<and> \<not> filled b (P_Row p) (P_Col p) \<and>
                 \<not> IsUnassignedBlank (P_Tile p))"

lemma new_squares_sq_of: "new_squares ps = sq_of ` set ps"
  by (simp add: new_squares_def sq_of_def)

lemma checkPlacements_loop_None:
  "checkPlacements_loop b ps seen = None \<longleftrightarrow> placeable ps b \<and> sq_of ` set ps \<inter> seen = {}"
  by (induction ps arbitrary: seen) (auto simp: placeable_def sq_of_def filled_def)

lemma checkPlacements_None:
  "checkPlacements m b = None \<longleftrightarrow>
     Placements m \<noteq> [] \<and> length (Placements m) \<le> RackSize \<and> placeable (Placements m) b"
  by (auto simp: checkPlacements_def checkPlacements_loop_None)

lemma placeable_Cons:
  "placeable (p # ps) b \<longleftrightarrow>
     sq_of p \<notin> sq_of ` set ps \<and> InBounds (P_Row p) (P_Col p) \<and> \<not> filled b (P_Row p) (P_Col p) \<and>
     \<not> IsUnassignedBlank (P_Tile p) \<and> placeable ps b"
  by (auto simp: placeable_def)

lemma placeable_Place:
  assumes "placeable (p # ps) b"
  obtains b' where "Place (P_Row p) (P_Col p) (P_Tile p) b = Ok b'" "placeable ps b'"
proof -
  obtain b' where b': "Place (P_Row p) (P_Col p) (P_Tile p) b = Ok b'"
    using assms Place_Ok_iff by (metis placeable_Cons)
  moreover have "placeable ps b'"
    using assms Place_filled [OF b'] by (auto simp: placeable_def sq_of_def image_iff)
  ultimately show thesis using that by blast
qed

text \<open>\<open>Apply\<close> never fails on checked placements, and writes the board that \<open>Validate\<close> looked at.\<close>

lemma Apply_loop_after: "placeable ps b \<Longrightarrow> Apply_loop ps b = Ok (after ps b)"
proof (induction ps arbitrary: b)
  case (Cons p ps)
  from Cons.prems obtain b' where b': "Place (P_Row p) (P_Col p) (P_Tile p) b = Ok b'" "placeable ps b'"
    by (rule placeable_Place)
  with Cons.IH [OF b'(2)] show ?case by (simp add: after_def place_ignore_def)
qed (simp add: after_def)

lemma after_filled:
  "placeable ps b \<Longrightarrow> filled (after ps b) r c \<longleftrightarrow> filled b r c \<or> (r, c) \<in> sq_of ` set ps"
proof (induction ps arbitrary: b)
  case (Cons p ps)
  from Cons.prems obtain b' where b': "Place (P_Row p) (P_Col p) (P_Tile p) b = Ok b'" "placeable ps b'"
    by (rule placeable_Place)
  then have "after (p # ps) b = after ps b'" by (simp add: after_def place_ignore_def)
  with Cons.IH [OF b'(2)] Place_filled [OF b'(1), of r c] show ?case by (auto simp: sq_of_def)
qed (simp add: after_def)

lemma after_wf:
  "placeable ps b \<Longrightarrow> wf_board l b \<Longrightarrow> \<forall>p \<in> set ps. wf_tile l (P_Tile p) \<Longrightarrow> wf_board l (after ps b)"
proof (induction ps arbitrary: b)
  case (Cons p ps)
  from Cons.prems(1) obtain b' where b': "Place (P_Row p) (P_Col p) (P_Tile p) b = Ok b'" "placeable ps b'"
    by (rule placeable_Place)
  have "wf_board l b'"
    using wf_Place [OF Cons.prems(2) b'(1)] Cons.prems by (simp add: placeable_Cons)
  then have "wf_board l (after ps b')" using Cons.IH b'(2) Cons.prems(3) by simp
  with b' show ?case by (simp add: after_def place_ignore_def)
qed (simp add: after_def)

lemma after_count: "placeable ps b \<Longrightarrow> Board_tiles (after ps b) = Board_tiles b + length ps"
proof (induction ps arbitrary: b)
  case (Cons p ps)
  from Cons.prems obtain b' where b': "Place (P_Row p) (P_Col p) (P_Tile p) b = Ok b'" "placeable ps b'"
    by (rule placeable_Place)
  with Cons.IH [OF b'(2)] Place_count [OF b'(1)] show ?case
    by (simp add: after_def place_ignore_def)
qed (simp add: after_def)

text \<open>The order of the placements does not matter.\<close>

lemma place_ignore_eq:
  "place_ignore p b =
     (if InBounds (P_Row p) (P_Col p) \<and> \<not> Sq_Filled (squares b (P_Row p) (P_Col p))
      then b\<lparr>squares := (squares b)(P_Row p := (squares b (P_Row p))(P_Col p :=
                (squares b (P_Row p) (P_Col p))\<lparr>Sq_Tile := P_Tile p, Sq_Filled := True\<rparr>)),
             Board_tiles := Suc (Board_tiles b)\<rparr>
      else b)"
  by (simp add: place_ignore_def Place_def)

lemma place_ignore_commute:
  assumes "sq_of p \<noteq> sq_of q"
  shows "place_ignore p \<circ> place_ignore q = place_ignore q \<circ> place_ignore p"
proof (rule ext, cases "P_Row p = P_Row q")
  fix b
  case True
  with assms have "P_Col p \<noteq> P_Col q" by (simp add: sq_of_def)
  with True show "(place_ignore p \<circ> place_ignore q) b = (place_ignore q \<circ> place_ignore p) b"
    by (auto simp: place_ignore_eq fun_upd_twist)
next
  fix b
  case False
  then show "(place_ignore p \<circ> place_ignore q) b = (place_ignore q \<circ> place_ignore p) b"
    by (auto simp: place_ignore_eq fun_upd_twist)
qed

lemma after_mset:
  assumes "placeable ps b" and "mset ps = mset qs"
  shows "after ps = after qs"
proof -
  have inj: "inj_on sq_of (set ps)" using assms(1) by (simp add: placeable_def distinct_map)
  have "place_ignore x \<circ> place_ignore y = place_ignore y \<circ> place_ignore x"
    if "x \<in> set ps" "y \<in> set ps" for x y
    using that inj place_ignore_commute [of x y] by (cases "x = y") (auto dest: inj_onD)
  then have "fold place_ignore ps = fold place_ignore qs"
    by (rule fold_multiset_equiv [OF _ assms(2)])
  then show ?thesis by (simp add: after_def fun_eq_iff)
qed

lemma placeable_mset: "mset ps = mset qs \<Longrightarrow> placeable ps b = placeable qs b"
  unfolding placeable_def
  by (metis (no_types, lifting) mset_eq_imp_distinct_iff mset_eq_setD mset_map)

lemma mset_sortPlacements [simp]: "mset (sortPlacements ps dir) = mset ps"
  by (simp add: sortPlacements_def)

lemma set_sortPlacements [simp]: "set (sortPlacements ps dir) = set ps"
  by (simp add: sortPlacements_def)

lemma length_sortPlacements [simp]: "length (sortPlacements ps dir) = length ps"
  by (simp add: sortPlacements_def)

section \<open>The specification\<close>

text \<open>A word formed by a move: a maximal run of two or more tiles through a new square.\<close>

definition formed :: "Placement list \<Rightarrow> Board \<Rightarrow> Direction \<Rightarrow> int \<Rightarrow> int \<Rightarrow> nat \<Rightarrow> bool" where
  "formed ps b dir r c n \<longleftrightarrow>
     2 \<le> n \<and> maximal_run (after ps b) dir r c n \<and> run_squares dir r c n \<inter> sq_of ` set ps \<noteq> {}"

definition run_letters :: "Board \<Rightarrow> Direction \<Rightarrow> int \<Rightarrow> int \<Rightarrow> nat \<Rightarrow> LetterID list" where
  "run_letters b dir r c n = wordLetterIDs (run_tiles b dir r c n)"

definition on_line :: "Placement list \<Rightarrow> bool" where
  "on_line ps \<longleftrightarrow> (\<forall>p \<in> set ps. \<forall>q \<in> set ps. P_Row p = P_Row q) \<or>
     (\<forall>p \<in> set ps. \<forall>q \<in> set ps. P_Col p = P_Col q)"

definition no_gap :: "Placement list \<Rightarrow> Board \<Rightarrow> bool" where
  "no_gap ps b \<longleftrightarrow> (\<forall>p \<in> set ps. \<forall>q \<in> set ps. \<forall>dir. \<forall>k. \<forall>j \<le> k.
     sq_of q = along dir (P_Row p) (P_Col p) (int k) \<longrightarrow>
     live (after ps b) (along dir (P_Row p) (P_Col p) (int j)))"

definition legal_move :: "Placement list \<Rightarrow> Board \<Rightarrow> (LetterID list \<Rightarrow> bool) \<Rightarrow> bool" where
  "legal_move ps b contains \<longleftrightarrow>
     ps \<noteq> [] \<and> length ps \<le> RackSize \<and> placeable ps b \<and> on_line ps \<and> no_gap ps b \<and>
     (\<exists>dir r c n. formed ps b dir r c n) \<and>
     (if \<forall>r c. \<not> filled b r c then (CenterRow, CenterCol) \<in> sq_of ` set ps
      else \<exists>dir r c n. formed ps b dir r c n \<and> \<not> run_squares dir r c n \<subseteq> sq_of ` set ps) \<and>
     (\<forall>dir r c n. formed ps b dir r c n \<longrightarrow> contains (run_letters (after ps b) dir r c n))"

section \<open>Line and connectivity\<close>

lemma sorted_hd_last:
  fixes f :: "'x \<Rightarrow> 'y::linorder"
  shows "sorted (map f xs) \<Longrightarrow> x \<in> set xs \<Longrightarrow> f (hd xs) \<le> f x \<and> f x \<le> f (last xs)"
  by (induction xs) auto

lemma lineDirection_Ok:
  assumes "lineDirection m = Ok dir" and "p \<in> set (Placements m)" "q \<in> set (Placements m)"
  shows "\<exists>k. sq_of q = along dir (P_Row p) (P_Col p) k"
proof (cases "Placements m")
  case (Cons p0 ps)
  have "if dir = Horizontal then \<forall>p \<in> set (Placements m). P_Row p = P_Row p0
        else \<forall>p \<in> set (Placements m). P_Col p = P_Col p0"
    using assms(1) Cons by (auto simp: lineDirection_def Let_def list_all_iff split: if_splits)
  then show ?thesis
    using assms(2,3)
    by (cases dir) (auto simp: along_simps sq_of_def intro: exI [of _ "P_Col q - P_Col p"]
        exI [of _ "P_Row q - P_Row p"])
qed (use assms in simp)

lemma lineDirection_on_line:
  assumes "Placements m \<noteq> []"
  shows "(\<exists>dir. lineDirection m = Ok dir) \<longleftrightarrow> on_line (Placements m)"
proof (cases "Placements m")
  case (Cons p0 ps)
  have "on_line (Placements m) \<longleftrightarrow>
      list_all (\<lambda>p. P_Row p = P_Row p0) ps \<or> list_all (\<lambda>p. P_Col p = P_Col p0) ps"
    by (auto simp: on_line_def Cons list_all_iff)
  moreover have "length (Placements m) = 1 \<Longrightarrow> ps = []" using Cons by simp
  ultimately show ?thesis using Cons by (auto simp: lineDirection_def Let_def)
qed (use assms in simp)

lemma sortPlacements_hd_last:
  assumes "p \<in> set ps"
  shows "dir = Horizontal \<Longrightarrow> P_Col (hd (sortPlacements ps dir)) \<le> P_Col p \<and>
           P_Col p \<le> P_Col (last (sortPlacements ps dir))"
    and "dir = Vertical \<Longrightarrow> P_Row (hd (sortPlacements ps dir)) \<le> P_Row p \<and>
           P_Row p \<le> P_Row (last (sortPlacements ps dir))"
proof -
  let ?key = "\<lambda>p. if dir = Horizontal then (P_Col p, P_Row p) else (P_Row p, P_Col p)"
  let ?qs = "sortPlacements ps dir"
  have sorted: "sorted (map ?key ?qs)" by (simp add: sortPlacements_def)
  have ne: "?qs \<noteq> []" using assms by (metis empty_iff empty_set set_sortPlacements)
  have mem: "p \<in> set ?qs" using assms by simp
  have "?key (hd ?qs) \<le> ?key p \<and> ?key p \<le> ?key (last ?qs)"
    by (rule sorted_hd_last [OF sorted mem])
  then show "dir = Horizontal \<Longrightarrow> P_Col (hd ?qs) \<le> P_Col p \<and> P_Col p \<le> P_Col (last ?qs)"
    "dir = Vertical \<Longrightarrow> P_Row (hd ?qs) \<le> P_Row p \<and> P_Row p \<le> P_Row (last ?qs)"
    by auto
qed

lemma live_after:
  assumes "placeable ps b"
  shows "live (after ps b) (r, c) \<longleftrightarrow>
     InBounds r c \<and> (Sq_Filled (At b r c) \<or> hasPlacement ps r c)"
proof -
  have "(r, c) \<in> sq_of ` set ps \<longleftrightarrow> hasPlacement ps r c"
    by (auto simp: hasPlacement_def list_ex_iff sq_of_def)
  then show ?thesis
    using after_filled [OF assms, of r c] by (simp add: live_def) (simp add: filled_def)
qed

lemma all_shift_int: "(\<forall>x::int. P x) \<longleftrightarrow> (\<forall>i. P (a + i))"
  by (metis add.commute diff_add_cancel)

lemma checkConnectivity_None:
  assumes len: "1 < length qs"
    and K: "sq_of (last qs) = along dir (P_Row (hd qs)) (P_Col (hd qs)) K"
  shows "checkConnectivity b qs dir = None \<longleftrightarrow>
     (\<forall>i. 0 < i \<and> i < K \<longrightarrow>
        (case along dir (P_Row (hd qs)) (P_Col (hd qs)) i of
           (r, c) \<Rightarrow> Sq_Filled (At b r c) \<or> hasPlacement qs r c))"
proof (cases dir)
  case Horizontal
  let ?ok = "\<lambda>c. Sq_Filled (At b (P_Row (hd qs)) c) \<or> hasPlacement qs (P_Row (hd qs)) c"
  have last: "P_Col (last qs) = P_Col (hd qs) + K"
    using K Horizontal by (simp add: along_simps sq_of_def)
  have "checkConnectivity b qs dir = None \<longleftrightarrow>
      (\<forall>c. P_Col (hd qs) < c \<and> c < P_Col (hd qs) + K \<longrightarrow> ?ok c)"
    using len by (auto simp: checkConnectivity_def Horizontal Let_def list_ex_iff last add1_zle_eq)
  also have "\<dots> \<longleftrightarrow> (\<forall>i. 0 < i \<and> i < K \<longrightarrow> ?ok (P_Col (hd qs) + i))"
    by (subst all_shift_int [of _ "P_Col (hd qs)"]) simp
  finally show ?thesis by (simp add: Horizontal along_simps)
next
  case Vertical
  let ?ok = "\<lambda>r. Sq_Filled (At b r (P_Col (hd qs))) \<or> hasPlacement qs r (P_Col (hd qs))"
  have last: "P_Row (last qs) = P_Row (hd qs) + K"
    using K Vertical by (simp add: along_simps sq_of_def)
  have "checkConnectivity b qs dir = None \<longleftrightarrow>
      (\<forall>r. P_Row (hd qs) < r \<and> r < P_Row (hd qs) + K \<longrightarrow> ?ok r)"
    using len by (auto simp: checkConnectivity_def Vertical Let_def list_ex_iff last add1_zle_eq)
  also have "\<dots> \<longleftrightarrow> (\<forall>i. 0 < i \<and> i < K \<longrightarrow> ?ok (P_Row (hd qs) + i))"
    by (subst all_shift_int [of _ "P_Row (hd qs)"]) simp
  finally show ?thesis by (simp add: Vertical along_simps)
qed

text \<open>
  The frame of a move: its first placement in reading order, the length \<open>K\<close> of its span, and
  every placement within the span.
\<close>

lemma span_of_move:
  assumes dir: "lineDirection m = Ok dir" and pl: "placeable (Placements m) b"
    and ps: "Placements m \<noteq> []"
  obtains f l K where "f = hd (sortPlacements (Placements m) dir)"
    "l = last (sortPlacements (Placements m) dir)" "f \<in> set (Placements m)" "l \<in> set (Placements m)"
    "sq_of l = along dir (P_Row f) (P_Col f) K"
    "\<And>p. p \<in> set (Placements m) \<Longrightarrow>
       \<exists>i. 0 \<le> i \<and> i \<le> K \<and> sq_of p = along dir (P_Row f) (P_Col f) i"
    "\<And>i. 0 \<le> i \<Longrightarrow> i \<le> K \<Longrightarrow>
       InBounds (fst (along dir (P_Row f) (P_Col f) i)) (snd (along dir (P_Row f) (P_Col f) i))"
proof -
  let ?ps = "Placements m"
  let ?qs = "sortPlacements ?ps dir"
  define f l where fl: "f = hd ?qs" "l = last ?qs"
  have ne: "?qs \<noteq> []" using ps by (metis length_0_conv length_sortPlacements)
  have mem: "f \<in> set ?ps" "l \<in> set ?ps"
    using ne hd_in_set [of ?qs] last_in_set [of ?qs] by (auto simp: fl)
  obtain K where K: "sq_of l = along dir (P_Row f) (P_Col f) K"
    using lineDirection_Ok [OF dir mem] by blast
  have "\<exists>i. 0 \<le> i \<and> i \<le> K \<and> sq_of p = along dir (P_Row f) (P_Col f) i" if "p \<in> set ?ps" for p
    using lineDirection_Ok [OF dir mem(1) that] K sortPlacements_hd_last [OF that, of dir]
    by (cases dir) (auto simp: along_simps sq_of_def fl)
  moreover have "InBounds (fst (along dir (P_Row f) (P_Col f) i)) (snd (along dir (P_Row f) (P_Col f) i))"
    if "0 \<le> i" "i \<le> K" for i
    using that K pl mem by (cases dir) (auto simp: along_simps sq_of_def placeable_def InBounds_def)
  ultimately show thesis using that fl mem K by blast
qed

lemma live_placement: "placeable ps b \<Longrightarrow> p \<in> set ps \<Longrightarrow> live (after ps b) (sq_of p)"
  by (auto simp: live_def sq_of_def after_filled placeable_def)

lemma perp_same:
  assumes "sq_of q = along dir r c i" "sq_of q' = along dir r c i'"
    and "sq_of q' = along dir' (P_Row q) (P_Col q) k" and "dir' \<noteq> dir"
  shows "k = 0"
  using assms by (cases dir; cases dir') (auto simp: along_simps sq_of_def)

text \<open>\<open>checkConnectivity\<close> looks only between the first and the last placement, and that is enough.\<close>

lemma checkConnectivity_no_gap:
  assumes dir: "lineDirection m = Ok dir" and pl: "placeable (Placements m) b"
    and ps: "Placements m \<noteq> []"
  shows "checkConnectivity b (sortPlacements (Placements m) dir) dir = None \<longleftrightarrow>
           no_gap (Placements m) b"
proof -
  let ?ps = "Placements m"
  let ?qs = "sortPlacements ?ps dir"
  let ?B = "after ?ps b"
  obtain f l K where f: "f = hd ?qs" and l: "l = last ?qs" and mem: "f \<in> set ?ps" "l \<in> set ?ps"
    and K: "sq_of l = along dir (P_Row f) (P_Col f) K"
    and bounds: "\<And>p. p \<in> set ?ps \<Longrightarrow> \<exists>i. 0 \<le> i \<and> i \<le> K \<and> sq_of p = along dir (P_Row f) (P_Col f) i"
    and inb: "\<And>i. 0 \<le> i \<Longrightarrow> i \<le> K \<Longrightarrow>
       InBounds (fst (along dir (P_Row f) (P_Col f) i)) (snd (along dir (P_Row f) (P_Col f) i))"
    by (rule span_of_move [OF assms]) blast
  let ?at = "along dir (P_Row f) (P_Col f)"
  have hp: "hasPlacement ?qs = hasPlacement ?ps"
    by (simp add: hasPlacement_def list_ex_iff fun_eq_iff)
  have L: "live ?B (?at i) \<longleftrightarrow> (case ?at i of (r, c) \<Rightarrow> Sq_Filled (At b r c) \<or> hasPlacement ?qs r c)"
    if "0 < i" "i < K" for i
    using inb [of i] that live_after [OF pl, of "fst (?at i)" "snd (?at i)"] by (simp add: split_def hp)
  have C: "checkConnectivity b ?qs dir = None \<longleftrightarrow> (\<forall>i. 0 < i \<and> i < K \<longrightarrow> live ?B (?at i))"
  proof (cases "1 < length ?qs")
    case True
    show ?thesis
      using checkConnectivity_None [OF True K [unfolded f l], of b] L by (auto simp: f)
  next
    case False
    then have "f = l" using ps unfolding f l
      by (cases ?qs) (auto dest: arg_cong [of _ _ length])
    then have "K = 0" using K by (auto simp: sq_of_def along_def step_def split: if_splits)
    with False show ?thesis by (auto simp: checkConnectivity_def)
  qed
  show ?thesis
  proof
    assume *: "checkConnectivity b ?qs dir = None"
    have span: "live ?B (?at i)" if "0 \<le> i" "i \<le> K" for i
      using * C that live_placement [OF pl mem(1)] live_placement [OF pl mem(2)] K
      by (cases "i = 0"; cases "i = K") (auto simp: sq_of_def)
    show "no_gap ?ps b"
      unfolding no_gap_def
    proof (intro ballI allI impI)
      fix p q dir' and k j :: nat
      assume pq: "p \<in> set ?ps" "q \<in> set ?ps" and jk: "j \<le> k"
        and sq: "sq_of q = along dir' (P_Row p) (P_Col p) (int k)"
      obtain i i' where i: "0 \<le> i" "sq_of p = ?at i" and i': "i' \<le> K" "sq_of q = ?at i'"
        using bounds [OF pq(1)] bounds [OF pq(2)] by blast
      show "live ?B (along dir' (P_Row p) (P_Col p) (int j))"
      proof (cases "dir' = dir")
        case True
        have p_at: "along dir (P_Row p) (P_Col p) t = ?at (i + t)" for t
          using i(2) along_along [of dir "P_Row f" "P_Col f" i t]
          by (metis fst_conv snd_conv sq_of_def)
        with sq i' True have "i' = i + int k" by simp
        with i i' jk span [of "i + int j"] True p_at show ?thesis by simp
      next
        case False
        then have "int k = 0" using perp_same [OF i(2) i'(2) sq] by simp
        with jk live_placement [OF pl pq(1)] show ?thesis by (simp add: sq_of_def)
      qed
    qed
  next
    assume *: "no_gap ?ps b"
    have "live ?B (?at i)" if "0 < i" "i < K" for i
      using * [unfolded no_gap_def, rule_format, OF mem, of "nat i" "nat K" dir] that K by simp
    with C show "checkConnectivity b ?qs dir = None" by blast
  qed
qed

section \<open>The words of a move\<close>

lemma maximal_run_extend:
  assumes m: "maximal_run b dir r c n" and i: "i < n"
    and live: "\<And>j. j \<le> k \<Longrightarrow> live b (along dir r c (int i + int j))"
  shows "i + k < n"
  using live
proof (induction k)
  case (Suc k)
  then have "i + k < n" by simp
  moreover have "i + Suc k \<noteq> n"
    using Suc.prems [of "Suc k"] m by (auto simp: maximal_run_def algebra_simps)
  ultimately show ?case by simp
qed (use i in simp)

lemma set_run_tiles:
  "(\<lambda>t. (wt_row t, wt_col t)) ` set (run_tiles b dir r c n) = run_squares dir r c n"
  by (force simp: run_tiles_def run_squares_def mk_wordTile_def image_iff)

lemma length_run_tiles [simp]: "length (run_tiles b dir r c n) = n"
  by (simp add: run_tiles_def)

lemma run_squares_mem: "sq \<in> run_squares dir r c n \<longleftrightarrow> (\<exists>i < n. sq = along dir r c (int i))"
  by (auto simp: run_squares_def)

text \<open>The run through a placed tile, as \<open>extractWord\<close> computes it.\<close>

lemma extractWord_placement:
  assumes "placeable ps b" "p \<in> set ps"
  obtains r c n where "maximal_run (after ps b) dir r c n" "sq_of p \<in> run_squares dir r c n"
    "extractWord (after ps b) (P_Row p) (P_Col p) dir = run_tiles (after ps b) dir r c n"
proof -
  have "live (after ps b) (P_Row p, P_Col p)"
    using live_placement [OF assms] by (simp add: sq_of_def)
  then obtain k n where kn: "k < n"
    "maximal_run (after ps b) dir (fst (along dir (P_Row p) (P_Col p) (- int k)))
       (snd (along dir (P_Row p) (P_Col p) (- int k))) n"
    "extractWord (after ps b) (P_Row p) (P_Col p) dir =
       run_tiles (after ps b) dir (fst (along dir (P_Row p) (P_Col p) (- int k)))
         (snd (along dir (P_Row p) (P_Col p) (- int k))) n"
    by (rule extractWord_run)
  moreover have "sq_of p \<in> run_squares dir (fst (along dir (P_Row p) (P_Col p) (- int k)))
      (snd (along dir (P_Row p) (P_Col p) (- int k))) n"
    unfolding run_squares_mem using kn(1) by (intro exI [of _ k]) (simp add: along_along sq_of_def)
  ultimately show thesis using that by blast
qed

text \<open>Without gaps, the run along the line of the move through one placement meets them all.\<close>

lemma run_covers:
  assumes gap: "no_gap ps b" and pq: "p \<in> set ps" "q \<in> set ps"
    and line: "sq_of q = along dir (P_Row p) (P_Col p) k"
    and m: "maximal_run (after ps b) dir r c n" and p: "sq_of p \<in> run_squares dir r c n"
  shows "sq_of q \<in> run_squares dir r c n"
proof -
  obtain i where i: "i < n" "sq_of p = along dir r c (int i)"
    using p by (auto simp: run_squares_mem)
  have at_p: "along dir (P_Row p) (P_Col p) t = along dir r c (int i + t)" for t
    using i(2) along_along [of dir r c "int i" t] by (metis fst_conv snd_conv sq_of_def)
  show ?thesis
  proof (cases "0 \<le> k")
    case True
    have "live (after ps b) (along dir r c (int i + int j))" if "j \<le> nat k" for j
      using gap [unfolded no_gap_def, rule_format, OF pq that, of dir] line True at_p by simp
    then have "i + nat k < n" by (rule maximal_run_extend [OF m i(1)])
    moreover have "sq_of q = along dir r c (int (i + nat k))" using line at_p True by simp
    ultimately show ?thesis by (auto simp: run_squares_mem)
  next
    case False
    let ?d = "nat (- k)"
    have q: "sq_of q = along dir r c (int i + k)" using line at_p by simp
    have at_q: "along dir (P_Row q) (P_Col q) t = along dir r c (int i + k + t)" for t
      using q along_along [of dir r c "int i + k" t] by (metis fst_conv snd_conv sq_of_def)
    have p_q: "sq_of p = along dir (P_Row q) (P_Col q) (int ?d)"
      using i(2) at_q False by simp
    have lv: "live (after ps b) (along dir r c (int i + k + int j))" if "j \<le> ?d" for j
      using gap [unfolded no_gap_def, rule_format, OF pq(2,1) that p_q] at_q by simp
    have "?d \<le> i"
    proof (rule ccontr)
      assume "\<not> ?d \<le> i"
      then have "live (after ps b) (along dir r c (- 1))"
        using lv [of "?d - Suc i"] False by (simp add: of_nat_diff algebra_simps)
      with m show False by (simp add: maximal_run_def)
    qed
    then have "sq_of q = along dir r c (int (i - ?d))" using q False by (simp add: of_nat_diff)
    moreover have "i - ?d < n" using i by simp
    ultimately show ?thesis by (auto simp: run_squares_mem)
  qed
qed

lemma maximal_run_meet:
  assumes "maximal_run b dir r c n" "maximal_run b dir r' c' n'"
    and "sq \<in> run_squares dir r c n" "sq \<in> run_squares dir r' c' n'"
  shows "r = r' \<and> c = c' \<and> n = n'"
  using assms maximal_run_unique [OF assms(1,2)] by (auto simp: run_squares_mem)

text \<open>The words \<open>collectWords\<close> returns are exactly the words formed by the move.\<close>

lemma collectWords_formed:
  assumes dir: "lineDirection m = Ok dir" and pl: "placeable (Placements m) b"
    and ps: "Placements m \<noteq> []" and gap: "no_gap (Placements m) b"
  shows "set (collectWords (after (Placements m) b) (sortPlacements (Placements m) dir) dir) =
           {run_tiles (after (Placements m) b) d r c n | d r c n. formed (Placements m) b d r c n}"
    (is "set (collectWords ?B ?qs dir) = ?F")
proof (intro subset_antisym subsetI)
  let ?ps = "Placements m"
  have ne: "?qs \<noteq> []" using ps by (metis length_0_conv length_sortPlacements)
  have f: "hd ?qs \<in> set ?ps" using ne hd_in_set [of ?qs] by simp
  {
    fix w
    assume "w \<in> set (collectWords ?B ?qs dir)"
    then obtain p d where pd: "p \<in> set ?ps" "w = extractWord ?B (P_Row p) (P_Col p) d" "2 \<le> length w"
      using f by (auto simp: collectWords_def Let_def split: if_splits)
    from pl pd(1) obtain r c n where e: "maximal_run ?B d r c n" "sq_of p \<in> run_squares d r c n"
      "extractWord ?B (P_Row p) (P_Col p) d = run_tiles ?B d r c n"
      by (rule extractWord_placement)
    with pd have "formed ?ps b d r c n" by (auto simp: formed_def)
    with e(3) pd(2) show "w \<in> ?F" by auto
  next
    fix w
    assume "w \<in> ?F"
    then obtain d r c n where w: "w = run_tiles ?B d r c n" and fo: "formed ?ps b d r c n" by blast
    from fo obtain p where p: "p \<in> set ?ps" "sq_of p \<in> run_squares d r c n"
      and m: "maximal_run ?B d r c n" and n: "2 \<le> n"
      by (auto simp: formed_def)
    show "w \<in> set (collectWords ?B ?qs dir)"
    proof (cases "d = dir")
      case True
      obtain r' c' n' where e: "maximal_run ?B d r' c' n'" "sq_of (hd ?qs) \<in> run_squares d r' c' n'"
        "extractWord ?B (P_Row (hd ?qs)) (P_Col (hd ?qs)) d = run_tiles ?B d r' c' n'"
        using extractWord_placement [OF pl f] by blast
      obtain k where "sq_of p = along d (P_Row (hd ?qs)) (P_Col (hd ?qs)) k"
        using lineDirection_Ok [OF dir f p(1)] True by blast
      from run_covers [OF gap f p(1) this e(1,2)] have "r = r' \<and> c = c' \<and> n = n'"
        using maximal_run_meet [OF m e(1) p(2)] by simp
      with e(3) n w True show ?thesis by (simp add: collectWords_def Let_def)
    next
      case False
      then have d: "d = perpendicular dir" by (cases d; cases dir) (auto simp: perpendicular_def)
      obtain r' c' n' where e: "maximal_run ?B d r' c' n'" "sq_of p \<in> run_squares d r' c' n'"
        "extractWord ?B (P_Row p) (P_Col p) d = run_tiles ?B d r' c' n'"
        using extractWord_placement [OF pl p(1)] by blast
      then have "r = r' \<and> c = c' \<and> n = n'" using maximal_run_meet [OF m e(1) p(2)] by simp
      then have "w = extractWord ?B (P_Row p) (P_Col p) (perpendicular dir)" "2 \<le> length w"
        using e(3) n w d by auto
      then show ?thesis using p(1) by (auto simp: collectWords_def Let_def intro!: imageI)
    qed
  }
qed

section \<open>Scoring never fails on well-formed tiles\<close>

definition wf_word :: "Language \<Rightarrow> scrabble_word \<Rightarrow> bool" where
  "wf_word l w \<longleftrightarrow> list_all (\<lambda>t. wf_tile l (wt_tile t)) w"

lemma wordString_total:
  assumes "wf_word l w"
  shows "\<exists>s. wordString w l = Some s \<and> length s = length w \<and>
             map Some s = map (Rune l) (wordLetterIDs w)"
  using assms
proof (induction w)
  case (Cons t w)
  then obtain s where "wordString w l = Some s" "length s = length w"
    "map Some s = map (Rune l) (wordLetterIDs w)"
    by (auto simp: wf_word_def)
  moreover obtain c where "Rune l (Tile_Letter (wt_tile t)) = Some c"
    using Cons.prems by (auto simp: wf_word_def wf_tile_def AlphabetSize_def Rune_def)
  ultimately show ?case by (simp add: wordString_def wordLetterIDs_def)
qed (simp add: wordString_def wordLetterIDs_def)

lemma scoreWord_loop_total:
  assumes "wf_lang l" and "wf_word l w" and "0 \<le> a" and "0 \<le> k"
  shows "\<exists>n. scoreWord_loop w new l a k = Some n \<and> 0 \<le> n"
  using assms(2-)
proof (induction w arbitrary: a k)
  case (Cons t w)
  obtain v where v: "Tile_Score (wt_tile t) l = Some v" "0 \<le> v"
    using Tile_Score_total [OF assms(1)] Cons.prems(1) by (auto simp: wf_word_def)
  have "wf_word l w" using Cons.prems(1) by (simp add: wf_word_def)
  note IH = Cons.IH [OF this]
  show ?case
    using v Cons.prems(2,3) IH [of "a + v * 2" k] IH [of "a + v * 3" k]
      IH [of "a + v" "k * 2"] IH [of "a + v" "k * 3"] IH [of "a + v" k]
    by (auto split: Premium.splits)
qed simp

lemma scoreWord_total:
  "wf_lang l \<Longrightarrow> wf_word l w \<Longrightarrow> \<exists>n. scoreWord w new l = Some n \<and> 0 \<le> n"
  by (simp add: scoreWord_def scoreWord_loop_total)

definition formed_word :: "(int \<times> int) set \<Rightarrow> Language \<Rightarrow> scrabble_word \<Rightarrow> FormedWord" where
  "formed_word new l w =
     \<lparr>FW_Word = the (wordString w l), FW_Score = the (scoreWord w new l),
      FW_StartRow = wt_row (hd w), FW_StartCol = wt_col (hd w), FW_Direction = word_direction w\<rparr>"

lemma validate_words_spec:
  assumes "wf_lang l" and "list_all (wf_word l) ws"
  shows "validate_words ws new contains l res =
     (case find (\<lambda>w. \<not> contains (wordLetterIDs w)) ws of
        Some w \<Rightarrow> Err (InvalidWordError (the (wordString w l)))
      | None \<Rightarrow> Ok (res\<lparr>MR_Words := MR_Words res @ map (formed_word new l) ws,
                        MR_Score := MR_Score res + (\<Sum>w\<leftarrow>ws. FW_Score (formed_word new l w))\<rparr>))"
  using assms(2)
proof (induction ws arbitrary: res)
  case (Cons w ws)
  obtain s n where "wordString w l = Some s" "scoreWord w new l = Some n"
    using Cons.prems wordString_total [of l w] scoreWord_total [OF assms(1), of w new] by auto
  with Cons show ?case
    by (auto simp: formed_word_def algebra_simps split: option.splits)
qed simp

lemma wf_run_tiles:
  assumes "wf_board l b" and "maximal_run b dir r c n"
  shows "wf_word l (run_tiles b dir r c n)"
  using assms
  by (auto simp: wf_word_def run_tiles_def list_all_iff mk_wordTile_def maximal_run_def live_def
      intro: wf_board_tile)

section \<open>Validate accepts exactly the legal moves\<close>

lemma after_sorted: "placeable ps b \<Longrightarrow> fold place_ignore (sortPlacements ps dir) b = after ps b"
  using after_mset [of ps b "sortPlacements ps dir"] by (simp add: after_def fun_eq_iff)

text \<open>The result \<open>Validate\<close> returns when every check passes.\<close>

definition move_result :: "Move \<Rightarrow> Board \<Rightarrow> Direction \<Rightarrow> Language \<Rightarrow> MoveResult" where
  "move_result m b dir l =
     (let ps = Placements m; new = sq_of ` set ps;
          ws = collectWords (after ps b) (sortPlacements ps dir) dir;
          n = (\<Sum>w\<leftarrow>ws. FW_Score (formed_word new l w))
      in \<lparr>MR_Words = map (formed_word new l) ws,
          MR_Score = (if length ps = RackSize then n + BingoBonus else n),
          MR_Bingo = (length ps = RackSize)\<rparr>)"

lemma Validate_eq:
  assumes l: "wf_lang l" "wf_board l b" "\<forall>p \<in> set (Placements m). wf_tile l (P_Tile p)"
    and cp: "checkPlacements m b = None" and dir: "lineDirection m = Ok dir"
    and gap: "no_gap (Placements m) b"
  shows "Validate m b contains l =
     (let ps = Placements m; ws = collectWords (after ps b) (sortPlacements ps dir) dir in
      if ws = [] then Err ErrNoWordFormed
      else if IsEmptyBoard b \<and> \<not> coversCenter ps then Err ErrFirstMoveMustCoverCenter
      else if \<not> IsEmptyBoard b \<and> \<not> extendsExisting ws (sq_of ` set ps) then Err ErrMustTouchExisting
      else case find (\<lambda>w. \<not> contains (wordLetterIDs w)) ws of
             Some w \<Rightarrow> Err (InvalidWordError (the (wordString w l)))
           | None \<Rightarrow> Ok (move_result m b dir l))"
proof -
  let ?ps = "Placements m"
  let ?qs = "sortPlacements ?ps dir"
  let ?ws = "collectWords (after ?ps b) ?qs dir"
  from cp have pl: "placeable ?ps b" and ps: "?ps \<noteq> []" by (auto simp: checkPlacements_None)
  have "checkConnectivity b ?qs dir = None"
    using checkConnectivity_no_gap [OF dir pl ps] gap by simp
  moreover have "list_all (wf_word l) ?ws"
    using collectWords_formed [OF dir pl ps gap] wf_run_tiles [OF after_wf [OF pl l(2,3)]]
    by (auto simp: list_all_iff formed_def)
  moreover have "new_squares ?qs = sq_of ` set ?ps" by (simp add: new_squares_sq_of)
  moreover have "coversCenter ?qs = coversCenter ?ps" by (simp add: coversCenter_def list_ex_iff)
  ultimately show ?thesis
    using cp dir after_sorted [OF pl, of dir] validate_words_spec [OF l(1)]
    by (simp add: Validate_def move_result_def Let_def split: option.splits)
qed

lemma Validate_Err:
  assumes "\<not> (checkPlacements m b = None \<and> on_line (Placements m) \<and> no_gap (Placements m) b)"
  shows "\<exists>e. Validate m b contains l = Err e"
proof (cases "checkPlacements m b")
  case None
  then have pl: "placeable (Placements m) b" and ps: "Placements m \<noteq> []"
    by (auto simp: checkPlacements_None)
  show ?thesis
  proof (cases "lineDirection m")
    case (Ok dir)
    then have "on_line (Placements m)" using lineDirection_on_line [OF ps] by blast
    with assms None have "\<not> no_gap (Placements m) b" by simp
    then have "checkConnectivity b (sortPlacements (Placements m) dir) dir \<noteq> None"
      using checkConnectivity_no_gap [OF Ok pl ps] by simp
    with None Ok show ?thesis by (auto simp: Validate_def Let_def)
  next
    case Panic
    with ps show ?thesis by (cases "Placements m") (auto simp: lineDirection_def Let_def split: if_splits)
  qed (use None in \<open>simp add: Validate_def\<close>)
qed (simp add: Validate_def)

lemma extendsExisting_formed:
  assumes "set ws = {run_tiles B d r c n | d r c n. F d r c n}"
  shows "extendsExisting ws new \<longleftrightarrow> (\<exists>d r c n. F d r c n \<and> \<not> run_squares d r c n \<subseteq> new)"
proof -
  have "extendsExisting ws new \<longleftrightarrow> (\<exists>w \<in> set ws. \<not> (\<lambda>t. (wt_row t, wt_col t)) ` set w \<subseteq> new)"
    by (auto simp: extendsExisting_def list_ex_iff)
  also have "\<dots> \<longleftrightarrow> (\<exists>d r c n. F d r c n \<and>
      \<not> (\<lambda>t. (wt_row t, wt_col t)) ` set (run_tiles B d r c n) \<subseteq> new)"
    unfolding assms by blast
  finally show ?thesis by (simp only: set_run_tiles)
qed

lemma Validate_legal:
  assumes l: "wf_lang l" "wf_board l b" "\<forall>p \<in> set (Placements m). wf_tile l (P_Tile p)"
  shows "(\<exists>res. Validate m b contains l = Ok res) \<longleftrightarrow> legal_move (Placements m) b contains"
proof (cases "checkPlacements m b = None \<and> on_line (Placements m) \<and> no_gap (Placements m) b")
  case False
  then have "\<not> legal_move (Placements m) b contains"
    by (auto simp: legal_move_def checkPlacements_None)
  with Validate_Err [OF False, of contains l] show ?thesis by auto
next
  case True
  let ?ps = "Placements m"
  from True have cp: "checkPlacements m b = None" and gap: "no_gap ?ps b"
    and pl: "placeable ?ps b" and ps: "?ps \<noteq> []" and len: "length ?ps \<le> RackSize"
    by (auto simp: checkPlacements_None)
  obtain dir where dir: "lineDirection m = Ok dir"
    using lineDirection_on_line [OF ps] True by blast
  define ws where "ws = collectWords (after ?ps b) (sortPlacements ?ps dir) dir"
  have ws: "set ws = {run_tiles (after ?ps b) d r c n | d r c n. formed ?ps b d r c n}"
    unfolding ws_def by (rule collectWords_formed [OF dir pl ps gap])
  have "(\<exists>res. Validate m b contains l = Ok res) \<longleftrightarrow>
      ws \<noteq> [] \<and> (if IsEmptyBoard b then coversCenter ?ps else extendsExisting ws (sq_of ` set ?ps)) \<and>
      find (\<lambda>w. \<not> contains (wordLetterIDs w)) ws = None"
    unfolding Validate_eq [OF l cp dir gap] Let_def ws_def [symmetric]
    by (auto split: option.splits if_splits)
  also have "ws \<noteq> [] \<longleftrightarrow> (\<exists>d r c n. formed ?ps b d r c n)"
  proof -
    have "ws \<noteq> [] \<longleftrightarrow> set ws \<noteq> {}" by simp
    then show ?thesis unfolding ws by blast
  qed
  also have "coversCenter ?ps \<longleftrightarrow> (CenterRow, CenterCol) \<in> sq_of ` set ?ps"
    unfolding coversCenter_def list_ex_iff sq_of_def image_iff by (metis prod.inject)
  also have "find (\<lambda>w. \<not> contains (wordLetterIDs w)) ws = None \<longleftrightarrow>
      (\<forall>d r c n. formed ?ps b d r c n \<longrightarrow> contains (run_letters (after ?ps b) d r c n))"
    unfolding find_None_iff run_letters_def ws by blast
  finally have "(\<exists>res. Validate m b contains l = Ok res) \<longleftrightarrow>
      (\<exists>d r c n. formed ?ps b d r c n) \<and>
      (if \<forall>r c. \<not> filled b r c then (CenterRow, CenterCol) \<in> sq_of ` set ?ps
       else \<exists>d r c n. formed ?ps b d r c n \<and> \<not> run_squares d r c n \<subseteq> sq_of ` set ?ps) \<and>
      (\<forall>d r c n. formed ?ps b d r c n \<longrightarrow> contains (run_letters (after ?ps b) d r c n))"
    unfolding wf_board_empty_iff [OF l(2)] extendsExisting_formed [OF ws] .
  with True ps len pl show ?thesis unfolding legal_move_def by blast
qed

section \<open>Consequences of acceptance\<close>

lemma Validate_OkE:
  assumes l: "wf_lang l" "wf_board l b" "\<forall>p \<in> set (Placements m). wf_tile l (P_Tile p)"
    and ok: "Validate m b contains l = Ok res"
  obtains dir where "checkPlacements m b = None" "placeable (Placements m) b" "Placements m \<noteq> []"
    "no_gap (Placements m) b" "lineDirection m = Ok dir" "res = move_result m b dir l"
    "list_all (\<lambda>w. contains (wordLetterIDs w))
       (collectWords (after (Placements m) b) (sortPlacements (Placements m) dir) dir)"
proof -
  have c: "checkPlacements m b = None" "on_line (Placements m)" "no_gap (Placements m) b"
    using Validate_Err [of m b contains l] ok by fastforce+
  then have pl: "placeable (Placements m) b" "Placements m \<noteq> []"
    by (auto simp: checkPlacements_None)
  then obtain dir where dir: "lineDirection m = Ok dir"
    using lineDirection_on_line c by blast
  from ok have "res = move_result m b dir l"
    and "find (\<lambda>w. \<not> contains (wordLetterIDs w))
       (collectWords (after (Placements m) b) (sortPlacements (Placements m) dir) dir) = None"
    unfolding Validate_eq [OF l c(1) dir c(3)] Let_def by (auto split: if_splits option.splits)
  then show thesis using that [OF c(1) pl c(3) dir] by (simp add: find_None_iff list_all_iff)
qed

lemma Validate_not_Panic:
  assumes "wf_lang l" "wf_board l b" "\<forall>p \<in> set (Placements m). wf_tile l (P_Tile p)"
  shows "Validate m b contains l \<noteq> Panic"
proof (cases "checkPlacements m b = None \<and> on_line (Placements m) \<and> no_gap (Placements m) b")
  case True
  then obtain dir where "lineDirection m = Ok dir"
    using lineDirection_on_line by (metis checkPlacements_None)
  with True show ?thesis
    using Validate_eq [OF assms] by (auto simp: Let_def split: option.splits)
qed (use Validate_Err [of m b contains l] in fastforce)

text \<open>A validated move commits without an error, to the board it was judged on.\<close>

lemma Validate_Apply:
  assumes "wf_lang l" "wf_board l b" "\<forall>p \<in> set (Placements m). wf_tile l (P_Tile p)"
    and "Validate m b contains l = Ok res"
  shows "Apply m b = Ok (after (Placements m) b)" and "wf_board l (after (Placements m) b)"
    and "Board_tiles (after (Placements m) b) = Board_tiles b + length (Placements m)"
proof -
  from assms obtain dir where "placeable (Placements m) b" by (rule Validate_OkE)
  then show "Apply m b = Ok (after (Placements m) b)" "wf_board l (after (Placements m) b)"
    "Board_tiles (after (Placements m) b) = Board_tiles b + length (Placements m)"
    using assms by (simp_all add: Apply_def Apply_loop_after after_wf after_count)
qed

lemma formed_word_score:
  "wf_lang l \<Longrightarrow> wf_word l w \<Longrightarrow> 0 \<le> FW_Score (formed_word new l w)"
  using scoreWord_total [of l w new] by (auto simp: formed_word_def)

lemma Validate_score:
  assumes l: "wf_lang l" "wf_board l b" "\<forall>p \<in> set (Placements m). wf_tile l (P_Tile p)"
    and ok: "Validate m b contains l = Ok res"
  shows "MR_Score res = (\<Sum>w\<leftarrow>MR_Words res. FW_Score w) +
           (if length (Placements m) = RackSize then BingoBonus else 0)"
    and "\<forall>w \<in> set (MR_Words res). 0 \<le> FW_Score w"
proof -
  from l ok obtain dir where pl: "placeable (Placements m) b" "Placements m \<noteq> []"
    and gap: "no_gap (Placements m) b" and dir: "lineDirection m = Ok dir"
    and res: "res = move_result m b dir l" by (rule Validate_OkE)
  show "MR_Score res = (\<Sum>w\<leftarrow>MR_Words res. FW_Score w) +
      (if length (Placements m) = RackSize then BingoBonus else 0)"
    by (simp add: res move_result_def Let_def comp_def)
  show "\<forall>w \<in> set (MR_Words res). 0 \<le> FW_Score w"
    using collectWords_formed [OF dir pl gap] wf_run_tiles [OF after_wf [OF pl(1) l(2,3)]]
    by (auto simp: res move_result_def Let_def formed_def intro!: formed_word_score [OF l(1)])
qed

text \<open>The direction and the start that a formed word reports are those of its run.\<close>

lemma run_tiles_report:
  assumes "2 \<le> n"
  shows "word_direction (run_tiles b dir r c n) = dir"
    and "wt_row (hd (run_tiles b dir r c n)) = r" and "wt_col (hd (run_tiles b dir r c n)) = c"
proof -
  have nth: "run_tiles b dir r c n ! i = mk_wordTile b (along dir r c (int i))" if "i < n" for i
    using that by (simp add: run_tiles_def)
  have ne: "run_tiles b dir r c n \<noteq> []" using assms by (simp add: run_tiles_def)
  show "word_direction (run_tiles b dir r c n) = dir"
    using assms nth [of 0] nth [of 1]
    by (cases dir) (auto simp: word_direction_def mk_wordTile_def along_simps)
  show "wt_row (hd (run_tiles b dir r c n)) = r" "wt_col (hd (run_tiles b dir r c n)) = c"
    using assms nth [of 0] hd_conv_nth [OF ne] by (auto simp: mk_wordTile_def)
qed

lemma covering_run:
  assumes dir: "lineDirection m = Ok dir" and pl: "placeable (Placements m) b"
    and gap: "no_gap (Placements m) b" and fo: "formed (Placements m) b d0 r0 c0 n0"
  shows "\<exists>d r c n. formed (Placements m) b d r c n \<and> sq_of ` set (Placements m) \<subseteq> run_squares d r c n"
proof -
  let ?ps = "Placements m"
  from fo obtain p where p: "p \<in> set ?ps" "sq_of p \<in> run_squares d0 r0 c0 n0"
    by (auto simp: formed_def)
  from pl p(1) obtain r c n where m: "maximal_run (after ?ps b) dir r c n" "sq_of p \<in> run_squares dir r c n"
    by (rule extractWord_placement)
  have all: "sq_of q \<in> run_squares dir r c n" if "q \<in> set ?ps" for q
    using lineDirection_Ok [OF dir p(1) that] run_covers [OF gap p(1) that _ m] by blast
  show ?thesis
  proof (cases "2 \<le> n")
    case True
    with m p all have "formed ?ps b dir r c n" by (auto simp: formed_def)
    with all show ?thesis by blast
  next
    case False
    have "sq_of q = sq_of p" if "q \<in> set ?ps" for q
      using all [OF that] m(2) False by (auto simp: run_squares_mem)
    with p(2) fo show ?thesis by (metis image_subsetI)
  qed
qed

lemma Validate_words:
  assumes l: "wf_lang l" "wf_board l b" "\<forall>p \<in> set (Placements m). wf_tile l (P_Tile p)"
    and ok: "Validate m b contains l = Ok res"
  shows "\<forall>w \<in> set (MR_Words res). \<exists>ids. contains ids \<and> map (Rune l) ids = map Some (FW_Word w)"
    and "\<exists>w \<in> set (MR_Words res). \<forall>p \<in> set (Placements m). \<exists>i < length (FW_Word w).
           (P_Row p, P_Col p) = along (FW_Direction w) (FW_StartRow w) (FW_StartCol w) (int i)"
proof -
  let ?ps = "Placements m" and ?B = "after (Placements m) b"
  from l ok obtain dir where pl: "placeable ?ps b" "?ps \<noteq> []"
    and gap: "no_gap ?ps b" and dir: "lineDirection m = Ok dir"
    and res: "res = move_result m b dir l"
    and dict: "list_all (\<lambda>w. contains (wordLetterIDs w))
       (collectWords ?B (sortPlacements ?ps dir) dir)" by (rule Validate_OkE)
  let ?new = "sq_of ` set ?ps"
  have words: "set (MR_Words res) = formed_word ?new l ` {run_tiles ?B d r c n | d r c n. formed ?ps b d r c n}"
    using collectWords_formed [OF dir pl gap] by (simp add: res move_result_def Let_def)
  have wf: "wf_word l (run_tiles ?B d r c n)" if "formed ?ps b d r c n" for d r c n
    using that wf_run_tiles [OF after_wf [OF pl(1) l(2,3)]] by (simp add: formed_def)
  have str: "map Some (FW_Word (formed_word ?new l w)) = map (Rune l) (wordLetterIDs w)"
    "length (FW_Word (formed_word ?new l w)) = length w" if "wf_word l w" for w
    using wordString_total [OF that] by (auto simp: formed_word_def)
  show "\<forall>w \<in> set (MR_Words res). \<exists>ids. contains ids \<and> map (Rune l) ids = map Some (FW_Word w)"
    using dict collectWords_formed [OF dir pl gap] words wf str
    by (auto simp: list_all_iff) (metis (mono_tags, lifting))
  have "legal_move ?ps b contains"
    using Validate_legal [OF l] ok by blast
  then obtain d0 r0 c0 n0 where "formed ?ps b d0 r0 c0 n0" by (auto simp: legal_move_def)
  then obtain d r c n where fo: "formed ?ps b d r c n" and cov: "sq_of ` set ?ps \<subseteq> run_squares d r c n"
    using covering_run [OF dir pl(1) gap] by blast
  let ?w = "formed_word ?new l (run_tiles ?B d r c n)"
  have "?w \<in> set (MR_Words res)" using words fo by blast
  moreover have "length (FW_Word ?w) = n" using str(2) [OF wf [OF fo]] by simp
  moreover have "FW_Direction ?w = d" "FW_StartRow ?w = r" "FW_StartCol ?w = c"
    using fo run_tiles_report [of n ?B d r c] by (auto simp: formed_word_def formed_def)
  ultimately show "\<exists>w \<in> set (MR_Words res). \<forall>p \<in> set ?ps. \<exists>i < length (FW_Word w).
           (P_Row p, P_Col p) = along (FW_Direction w) (FW_StartRow w) (FW_StartCol w) (int i)"
    using cov by (intro bexI [of _ ?w]) (auto simp: run_squares_mem sq_of_def subset_iff image_iff)
qed

end
