(* ===== verification/Scrabble_Bot.thy ===== *)
theory Scrabble_Bot
  imports Scrabble_Legal "HOL-Library.Word"
begin

unbundle bit_operations_syntax

text \<open>
  The move generator (\<^verbatim>\<open>scrabble/bot.go\<close>). The generator state is threaded through the
  recursive search as the Go methods mutate it: a letter is taken off the count, the search goes
  on, the letter is put back. \<open>None\<close> is a panic (a letter id outside the alphabet, a square off
  the board). The cross-check bitsets are 32-bit words, where a shift by 32 or more is zero.
\<close>

section \<open>Data\<close>

definition maxAlphabetForBitset :: nat where
  "maxAlphabetForBitset = 32"

record ScoredMove =
  SM_Move :: Move
  SM_Result :: MoveResult

type_synonym crossChecks = "int \<Rightarrow> int \<Rightarrow> 32 word"

definition allows :: "crossChecks \<Rightarrow> int \<Rightarrow> int \<Rightarrow> LetterID \<Rightarrow> bool" where
  "allows c row col letter \<longleftrightarrow> c row col AND push_bit letter 1 \<noteq> 0"

record genState =
  g_board :: Board
  rackCount :: "nat list"
  blanks :: nat
  g_dawg :: DAWG
  g_lang :: Language
  crossH :: crossChecks
  crossV :: crossChecks
  anchors :: "int \<Rightarrow> int \<Rightarrow> bool"
  emitted :: "Move list"

record partLetter =
  PL_Letter :: LetterID
  PL_Blank :: bool

section \<open>Cross-checks and anchors\<close>

definition stepBack :: "Direction \<Rightarrow> int \<times> int" where
  "stepBack dir = (let (r, c) = step dir in (- r, - c))"

text \<open>
  \<open>walkExisting\<close> is called with the step of a direction or its negation, so it takes the
  direction and which of the two it is.
\<close>

function walkExisting :: "Board \<Rightarrow> int \<Rightarrow> int \<Rightarrow> Direction \<Rightarrow> bool \<Rightarrow> LetterID list" where
  "walkExisting board row col dir back =
     (let (dRow, dCol) = (if back then stepBack dir else step dir) in
      if InBounds row col \<and> Sq_Filled (At board row col)
      then Tile_Letter (Sq_Tile (At board row col)) #
           walkExisting board (row + dRow) (col + dCol) dir back
      else [])"
  by pat_completeness auto
termination
  by (relation "measure (\<lambda>(board, row, col, dir, back).
        if back then nat (row + col + 1) else nat (29 - row - col))")
     (auto simp: stepBack_def step_def InBounds_def BoardSize_def split: if_splits)

declare walkExisting.simps [simp del]

definition allLettersMask :: "Language \<Rightarrow> 32 word" where
  "allLettersMask lang =
     (if AlphabetSize lang \<ge> maxAlphabetForBitset then NOT 0
      else push_bit (AlphabetSize lang) 1 - 1)"

definition crossBits :: "DAWG \<Rightarrow> Language \<Rightarrow> LetterID list \<Rightarrow> LetterID list \<Rightarrow> 32 word" where
  "crossBits dawg lang prefix suffix =
     fold (\<lambda>id bits. if Contains dawg (prefix @ [to_LetterID id] @ suffix)
                      then bits OR push_bit id 1 else bits)
       [0..<AlphabetSize lang] 0"

definition computeCrossChecks :: "Board \<Rightarrow> DAWG \<Rightarrow> Language \<Rightarrow> Direction \<Rightarrow> crossChecks" where
  "computeCrossChecks board dawg lang perpDir = (\<lambda>row col.
     if \<not> InBounds row col \<or> Sq_Filled (At board row col) then 0
     else let (dRow, dCol) = step perpDir;
              prefix = rev (walkExisting board (row - dRow) (col - dCol) perpDir True);
              suffix = walkExisting board (row + dRow) (col + dCol) perpDir False
          in if prefix = [] \<and> suffix = [] then allLettersMask lang
             else crossBits dawg lang prefix suffix)"

definition hasFilledNeighbor :: "Board \<Rightarrow> int \<Rightarrow> int \<Rightarrow> bool" where
  "hasFilledNeighbor board row col \<longleftrightarrow>
     list_ex (\<lambda>(r, c). InBounds r c \<and> Sq_Filled (At board r c))
       [(row - 1, col), (row + 1, col), (row, col - 1), (row, col + 1)]"

definition buildAnchorGrid :: "Board \<Rightarrow> int \<Rightarrow> int \<Rightarrow> bool" where
  "buildAnchorGrid board = (\<lambda>row col.
     InBounds row col \<and> \<not> Sq_Filled (At board row col) \<and> hasFilledNeighbor board row col)"

section \<open>The search\<close>

definition newGenState :: "Board \<Rightarrow> Rack \<Rightarrow> DAWG \<Rightarrow> Language \<Rightarrow> genState option" where
  "newGenState board rack dawg lang =
     foldl (\<lambda>st tile. case st of None \<Rightarrow> None | Some s \<Rightarrow>
              (if Tile_Blank tile then Some (s\<lparr>blanks := blanks s + 1\<rparr>)
               else case index_opt (rackCount s) (Tile_Letter tile) of
                 None \<Rightarrow> None
               | Some k \<Rightarrow> Some (s\<lparr>rackCount := (rackCount s)[Tile_Letter tile := k + 1]\<rparr>)))
       (Some \<lparr>g_board = board, rackCount = replicate (AlphabetSize lang) 0, blanks = 0,
              g_dawg = dawg, g_lang = lang, crossH = (\<lambda>_ _. 0), crossV = (\<lambda>_ _. 0),
              anchors = (\<lambda>_ _. False), emitted = []\<rparr>)
       (Rack_tiles rack)"

definition crossFor :: "genState \<Rightarrow> Direction \<Rightarrow> crossChecks" where
  "crossFor g dir = (if dir = Horizontal then crossH g else crossV g)"

definition gen_record :: "Placement list \<Rightarrow> genState \<Rightarrow> genState" where
  "gen_record placements g =
     (if length placements = 0 then g
      else g\<lparr>emitted := emitted g @ [\<lparr>Placements = placements\<rparr>]\<rparr>)"

definition appendPlacement :: "Placement list \<Rightarrow> Placement \<Rightarrow> Placement list" where
  "appendPlacement front tail = front @ [tail]"

definition growLeftPart :: "partLetter list \<Rightarrow> partLetter \<Rightarrow> partLetter list" where
  "growLeftPart prev nxt = prev @ [nxt]"

definition buildLeftPlacements ::
  "partLetter list \<Rightarrow> int \<Rightarrow> int \<Rightarrow> Direction \<Rightarrow> Placement list"
where
  "buildLeftPlacements leftPart anchorRow anchorCol dir =
     (let (dRow, dCol) = stepBack dir in
      map (\<lambda>(i, p). let offset = int (length leftPart) - int i in
             \<lparr>P_Row = anchorRow + dRow * offset, P_Col = anchorCol + dCol * offset,
              P_Tile = mk_tile (PL_Letter p) (PL_Blank p)\<rparr>)
          (enumerate 0 leftPart))"

text \<open>\<open>Each\<close> calls back for every edge in order and stops when the callback returns false.\<close>

fun Each_loop ::
  "(LetterID \<times> DAWGNode) list \<Rightarrow> (LetterID \<Rightarrow> DAWGNode \<Rightarrow> 's \<Rightarrow> (bool \<times> 's) option) \<Rightarrow> 's \<Rightarrow> 's option"
where
  "Each_loop [] fn s = Some s"
| "Each_loop ((letter, target) # es) fn s =
     (case fn letter target s of
        None \<Rightarrow> None
      | Some (go_on, s') \<Rightarrow> if go_on then Each_loop es fn s' else Some s')"

definition Each ::
  "DAWGNode \<Rightarrow> (LetterID \<Rightarrow> DAWGNode \<Rightarrow> 's \<Rightarrow> (bool \<times> 's) option) \<Rightarrow> 's \<Rightarrow> 's option"
where
  "Each n fn s = Each_loop (edges n) fn s"

text \<open>
  Taking a letter, or a blank, for the length of one recursive search: the guard, the decrement,
  the search, the increment, as both recursive methods write it.
\<close>

definition with_letter :: "LetterID \<Rightarrow> (genState \<Rightarrow> genState option) \<Rightarrow> genState \<Rightarrow> genState option" where
  "with_letter letter search g =
     (case index_opt (rackCount g) letter of
        None \<Rightarrow> None
      | Some k \<Rightarrow>
          (if k > 0
           then (case search (g\<lparr>rackCount := (rackCount g)[letter := k - 1]\<rparr>) of
                   None \<Rightarrow> None
                 | Some g' \<Rightarrow>
                     Some (g'\<lparr>rackCount := (rackCount g')[letter := rackCount g' ! letter + 1]\<rparr>))
           else Some g))"

definition with_blank :: "(genState \<Rightarrow> genState option) \<Rightarrow> genState \<Rightarrow> genState option" where
  "with_blank search g =
     (if blanks g > 0
      then (case search (g\<lparr>blanks := blanks g - 1\<rparr>) of
              None \<Rightarrow> None
            | Some g' \<Rightarrow> Some (g'\<lparr>blanks := blanks g' + 1\<rparr>))
      else Some g)"

lemma Each_cong [fundef_cong]:
  assumes "n = n'" "s = s'" "\<And>l m s. (l, m) \<in> set (edges n') \<Longrightarrow> f l m s = f' l m s"
  shows "Each n f s = Each n' f' s'"
proof -
  have "(\<And>l m s. (l, m) \<in> set es \<Longrightarrow> f l m s = f' l m s) \<Longrightarrow> Each_loop es f s = Each_loop es f' s"
    for es s
  proof (induction es arbitrary: s)
    case (Cons e es)
    then show ?case by (cases e) (auto split: option.splits)
  qed simp
  with assms show ?thesis by (simp add: Each_def)
qed

lemma with_letter_cong [fundef_cong]:
  "l = l' \<Longrightarrow> g = g' \<Longrightarrow> (\<And>h. f h = f' h) \<Longrightarrow> with_letter l f g = with_letter l' f' g'"
  by (subgoal_tac "f = f'") auto

lemma with_blank_cong [fundef_cong]:
  "g = g' \<Longrightarrow> (\<And>h. f h = f' h) \<Longrightarrow> with_blank f g = with_blank f' g'"
  by (subgoal_tac "f = f'") auto

function extendRight ::
  "DAWGNode \<Rightarrow> Placement list \<Rightarrow> int \<Rightarrow> int \<Rightarrow> Direction \<Rightarrow> bool \<Rightarrow> genState \<Rightarrow> genState option"
where
  "extendRight node placements row col dir placedAtAnchor g =
     (if \<not> InBounds row col
      then Some (if terminal node \<and> placedAtAnchor then gen_record placements g else g)
      else
        let sq = At (g_board g) row col; (dRow, dCol) = step dir in
        if \<not> Sq_Filled sq
        then
          let g = (if terminal node \<and> placedAtAnchor then gen_record placements g else g);
              cross = crossFor g dir in
          Each node (\<lambda>letter next g.
            if \<not> allows cross row col letter then Some (True, g)
            else case with_letter letter
                        (extendRight next
                           (appendPlacement placements
                              \<lparr>P_Row = row, P_Col = col, P_Tile = mk_tile letter False\<rparr>)
                           (row + dRow) (col + dCol) dir True) g of
                   None \<Rightarrow> None
                 | Some g \<Rightarrow>
                     map_option (Pair True)
                       (with_blank
                          (extendRight next
                             (appendPlacement placements
                                \<lparr>P_Row = row, P_Col = col, P_Tile = mk_tile letter True\<rparr>)
                             (row + dRow) (col + dCol) dir True) g)) g
        else (case Edge node (Tile_Letter (Sq_Tile sq)) of
                Some next \<Rightarrow>
                  extendRight next placements (row + dRow) (col + dCol) dir placedAtAnchor g
              | None \<Rightarrow> Some g))"
  by pat_completeness auto
termination
  by (relation "measure (\<lambda>(node, ps, row, col, dir, placed, g). nat (29 - row - col))")
     (auto simp: step_def InBounds_def BoardSize_def split: if_splits)

declare extendRight.simps [simp del]

function extendLeft ::
  "DAWGNode \<Rightarrow> partLetter list \<Rightarrow> int \<Rightarrow> int \<Rightarrow> Direction \<Rightarrow> nat \<Rightarrow> genState \<Rightarrow> genState option"
where
  "extendLeft node leftPart anchorRow anchorCol dir leftLimit g =
     (case extendRight node (buildLeftPlacements leftPart anchorRow anchorCol dir)
             anchorRow anchorCol dir False g of
        None \<Rightarrow> None
      | Some g \<Rightarrow>
          (if leftLimit = 0 then Some g
           else Each node (\<lambda>letter next g.
             case with_letter letter
                    (extendLeft next (growLeftPart leftPart \<lparr>PL_Letter = letter, PL_Blank = False\<rparr>)
                       anchorRow anchorCol dir (leftLimit - 1)) g of
               None \<Rightarrow> None
             | Some g \<Rightarrow>
                 map_option (Pair True)
                   (with_blank
                      (extendLeft next (growLeftPart leftPart \<lparr>PL_Letter = letter, PL_Blank = True\<rparr>)
                         anchorRow anchorCol dir (leftLimit - 1)) g)) g))"
  by pat_completeness auto
termination
  by (relation "measure (\<lambda>(node, lp, row, col, dir, limit, g). limit)") auto

declare extendLeft.simps [simp del]

function left_limit_loop :: "genState \<Rightarrow> Direction \<Rightarrow> int \<Rightarrow> int \<Rightarrow> nat \<Rightarrow> nat" where
  "left_limit_loop g dir r c limit =
     (let (dRow, dCol) = stepBack dir in
      if InBounds r c \<and> \<not> Sq_Filled (At (g_board g) r c) \<and> \<not> anchors g r c
      then left_limit_loop g dir (r + dRow) (c + dCol) (limit + 1)
      else limit)"
  by pat_completeness auto
termination
  by (relation "measure (\<lambda>(g, dir, r, c, limit). nat (r + c + 1))")
     (auto simp: stepBack_def step_def InBounds_def BoardSize_def split: if_splits)

declare left_limit_loop.simps [simp del]

definition computeLeftLimit :: "int \<Rightarrow> int \<Rightarrow> Direction \<Rightarrow> genState \<Rightarrow> nat" where
  "computeLeftLimit row col dir g =
     (let (dRow, dCol) = stepBack dir in left_limit_loop g dir (row + dRow) (col + dCol) 0)"

text \<open>
  The second loop of \<open>walkLeftExisting\<close>: \<open>None\<close> is the index panic of a walk that leaves the board,
  \<open>Some None\<close> the return of false. Its first loop is the loop that also starts \<open>extractWord\<close>.
\<close>

function follow_run ::
  "Board \<Rightarrow> DAWGNode \<Rightarrow> int \<Rightarrow> int \<Rightarrow> int \<Rightarrow> int \<Rightarrow> Direction \<Rightarrow> DAWGNode option option"
where
  "follow_run board node r c row col dir =
     (if \<not> InBounds r c then None
      else let (fwdR, fwdC) = step dir in
        case Edge node (Tile_Letter (Sq_Tile (At board r c))) of
          None \<Rightarrow> Some None
        | Some next \<Rightarrow>
            (let nr = r + fwdR; nc = c + fwdC in
             if nr = row \<and> nc = col then Some (Some next)
             else follow_run board next nr nc row col dir))"
  by pat_completeness auto
termination
  by (relation "measure (\<lambda>(board, node, r, c, row, col, dir). nat (29 - r - c))")
     (auto simp: step_def InBounds_def BoardSize_def split: if_splits)

declare follow_run.simps [simp del]

definition walkLeftExisting :: "int \<Rightarrow> int \<Rightarrow> Direction \<Rightarrow> genState \<Rightarrow> DAWGNode option option" where
  "walkLeftExisting row col dir g =
     (let (dRow, dCol) = stepBack dir; r = row + dRow; c = col + dCol in
      if \<not> InBounds r c \<or> \<not> Sq_Filled (At (g_board g) r c)
      then Some (Some (Dawg_root (g_dawg g)))
      else let (r, c) = walk_start (g_board g) dir r c in
           follow_run (g_board g) (Dawg_root (g_dawg g)) r c row col dir)"

definition runFromAnchor :: "int \<Rightarrow> int \<Rightarrow> Direction \<Rightarrow> genState \<Rightarrow> genState option" where
  "runFromAnchor row col dir g =
     (let leftLimit = computeLeftLimit row col dir g in
      if leftLimit = 0
      then (case walkLeftExisting row col dir g of
              None \<Rightarrow> None
            | Some None \<Rightarrow> Some g
            | Some (Some node) \<Rightarrow> extendRight node [] row col dir False g)
      else extendLeft (Dawg_root (g_dawg g)) [] row col dir leftLimit g)"

section \<open>Scoring the emitted moves\<close>

fun scored_loop :: "genState \<Rightarrow> Move list \<Rightarrow> ScoredMove list option" where
  "scored_loop g [] = Some []"
| "scored_loop g (move # moves) =
     (case Validate move (g_board g) (Contains (g_dawg g)) (g_lang g) of
        Panic \<Rightarrow> None
      | Err e \<Rightarrow> scored_loop g moves
      | Ok result \<Rightarrow>
          map_option ((#) \<lparr>SM_Move = move, SM_Result = result\<rparr>) (scored_loop g moves))"

definition scored :: "genState \<Rightarrow> ScoredMove list option" where
  "scored g = scored_loop g (emitted g)"

fun anchor_loop :: "(int \<times> int) list \<Rightarrow> genState \<Rightarrow> genState option" where
  "anchor_loop [] g = Some g"
| "anchor_loop ((row, col) # sqs) g =
     (if \<not> anchors g row col then anchor_loop sqs g
      else case runFromAnchor row col Horizontal g of
        None \<Rightarrow> None
      | Some g \<Rightarrow> (case runFromAnchor row col Vertical g of
                    None \<Rightarrow> None
                  | Some g \<Rightarrow> anchor_loop sqs g))"

definition GenerateMoves :: "Board \<Rightarrow> Rack \<Rightarrow> DAWG \<Rightarrow> Language \<Rightarrow> ScoredMove list option" where
  "GenerateMoves board rack dawg lang =
     (case newGenState board rack dawg lang of
        None \<Rightarrow> None
      | Some gen \<Rightarrow>
          (let gen = gen\<lparr>crossH := computeCrossChecks board dawg lang Vertical,
                         crossV := computeCrossChecks board dawg lang Horizontal\<rparr> in
           if IsEmptyBoard board
           then (case runFromAnchor CenterRow CenterCol Horizontal gen of
                   None \<Rightarrow> None
                 | Some gen \<Rightarrow> (case runFromAnchor CenterRow CenterCol Vertical gen of
                                 None \<Rightarrow> None
                               | Some gen \<Rightarrow> scored gen))
           else (case anchor_loop (List.product [0..BoardSize - 1] [0..BoardSize - 1])
                        (gen\<lparr>anchors := buildAnchorGrid board\<rparr>) of
                   None \<Rightarrow> None
                 | Some gen \<Rightarrow> scored gen)))"

fun best_loop :: "ScoredMove \<Rightarrow> ScoredMove list \<Rightarrow> ScoredMove" where
  "best_loop best [] = best"
| "best_loop best (m # ms) =
     best_loop (if MR_Score (SM_Result m) > MR_Score (SM_Result best) then m else best) ms"

definition BestMove :: "Board \<Rightarrow> Rack \<Rightarrow> DAWG \<Rightarrow> Language \<Rightarrow> ScoredMove option option" where
  "BestMove board rack dawg lang =
     map_option (\<lambda>moves. case moves of [] \<Rightarrow> None | m # ms \<Rightarrow> Some (best_loop m ms))
       (GenerateMoves board rack dawg lang)"

end
