(* ===== verification/Scrabble_Search.thy ===== *)
theory Scrabble_Search
  imports Scrabble_Bot
begin

text \<open>
  What the move generator emits. The search is described by the moves it appends to the list of
  emitted moves, with every other field restored (\<open>emits\<close>), and the recursive walk to the right
  by the placements it can lay from a square on (\<open>right_path\<close>). The generator is sound (every
  move it returns is legal and playable from the rack) and complete (every legal move playable
  from the rack is returned, up to the order of its placements).
\<close>

section \<open>What a step of the search emits\<close>

definition emits :: "(genState \<Rightarrow> genState option) \<Rightarrow> genState \<Rightarrow> Move set \<Rightarrow> bool" where
  "emits f g S \<longleftrightarrow>
     (\<exists>X. (\<forall>E. f (g\<lparr>emitted := E\<rparr>) = Some (g\<lparr>emitted := E @ X\<rparr>)) \<and> set X = S)"

lemma emits_cong:
  "(\<And>E. f (g\<lparr>emitted := E\<rparr>) = f' (g\<lparr>emitted := E\<rparr>)) \<Longrightarrow> emits f' g S \<Longrightarrow> emits f g S"
  by (simp add: emits_def)

lemma emits_Some [intro]: "emits Some g {}"
  by (auto simp: emits_def)

lemma emits_record [intro]: "ps \<noteq> [] \<Longrightarrow> emits (\<lambda>g. Some (gen_record ps g)) g {\<lparr>Placements = ps\<rparr>}"
  unfolding emits_def by (intro exI [of _ "[\<lparr>Placements = ps\<rparr>]"]) (simp add: gen_record_def)

lemma emits_seq:
  assumes "emits f g S" and "emits f' g T"
  shows "emits (\<lambda>g. case f g of None \<Rightarrow> None | Some g \<Rightarrow> f' g) g (S \<union> T)"
proof -
  obtain X Y where "\<forall>E. f (g\<lparr>emitted := E\<rparr>) = Some (g\<lparr>emitted := E @ X\<rparr>)" "set X = S"
    "\<forall>E. f' (g\<lparr>emitted := E\<rparr>) = Some (g\<lparr>emitted := E @ Y\<rparr>)" "set Y = T"
    using assms by (auto simp: emits_def)
  then show ?thesis unfolding emits_def by (intro exI [of _ "X @ Y"]) simp
qed

lemma emits_with_letter:
  assumes l: "l < length (rackCount g)"
    and f: "0 < rackCount g ! l \<Longrightarrow>
              emits f (g\<lparr>rackCount := (rackCount g)[l := rackCount g ! l - 1]\<rparr>) S"
  shows "emits (with_letter l f) g (if 0 < rackCount g ! l then S else {})"
proof (cases "0 < rackCount g ! l")
  case True
  let ?g = "g\<lparr>rackCount := (rackCount g)[l := rackCount g ! l - 1]\<rparr>"
  obtain X where X: "\<forall>E. f (?g\<lparr>emitted := E\<rparr>) = Some (?g\<lparr>emitted := E @ X\<rparr>)" "set X = S"
    using f [OF True] by (auto simp: emits_def)
  have swap: "g\<lparr>emitted := E, rackCount := R\<rparr> = g\<lparr>rackCount := R, emitted := E\<rparr>" for E R
    by simp
  have "with_letter l f (g\<lparr>emitted := E\<rparr>) = Some (g\<lparr>emitted := E @ X\<rparr>)" for E
    using X(1) [rule_format, of E] True l
    by (simp add: with_letter_def swap)
  with X(2) True show ?thesis by (auto simp: emits_def)
next
  case False
  with l show ?thesis by (auto simp: emits_def with_letter_def)
qed

lemma emits_with_blank:
  assumes f: "0 < blanks g \<Longrightarrow> emits f (g\<lparr>blanks := blanks g - 1\<rparr>) S"
  shows "emits (with_blank f) g (if 0 < blanks g then S else {})"
proof (cases "0 < blanks g")
  case True
  let ?g = "g\<lparr>blanks := blanks g - 1\<rparr>"
  obtain X where X: "\<forall>E. f (?g\<lparr>emitted := E\<rparr>) = Some (?g\<lparr>emitted := E @ X\<rparr>)" "set X = S"
    using f [OF True] by (auto simp: emits_def)
  have swap: "g\<lparr>emitted := E, blanks := k\<rparr> = g\<lparr>blanks := k, emitted := E\<rparr>" for E k
    by simp
  have "with_blank f (g\<lparr>emitted := E\<rparr>) = Some (g\<lparr>emitted := E @ X\<rparr>)" for E
    using X(1) [rule_format, of E] True by (simp add: with_blank_def swap)
  with X(2) True show ?thesis by (auto simp: emits_def)
next
  case False
  then show ?thesis by (auto simp: emits_def with_blank_def)
qed

lemma Each_loop_seq:
  assumes "\<And>c s'. fn l m s = Some (c, s') \<Longrightarrow> c = True"
  shows "Each_loop ((l, m) # es) fn s =
     (case map_option snd (fn l m s) of None \<Rightarrow> None | Some s \<Rightarrow> Each_loop es fn s)"
proof (cases "fn l m s")
  case (Some p)
  with assms [of "fst p" "snd p"] show ?thesis by (cases p) simp
qed simp

lemma emits_Each:
  assumes f: "\<And>l m. (l, m) \<in> set (edges n) \<Longrightarrow> emits (\<lambda>g. map_option snd (fn l m g)) g (S l m)"
    and go: "\<And>l m s c s'. fn l m s = Some (c, s') \<Longrightarrow> c = True"
  shows "emits (Each n fn) g (\<Union>(l, m) \<in> set (edges n). S l m)"
proof -
  have "emits (Each_loop es fn) g (\<Union>(l, m) \<in> set es. S l m)" if "set es \<subseteq> set (edges n)" for es
    using that
  proof (induction es)
    case Nil
    show ?case by (simp add: emits_Some)
  next
    case (Cons e es)
    obtain l m where e: "e = (l, m)" by (cases e)
    have "emits (\<lambda>g. case map_option snd (fn l m g) of None \<Rightarrow> None | Some s \<Rightarrow> Each_loop es fn s) g
        (S l m \<union> (\<Union>(l, m) \<in> set es. S l m))"
      using f [of l m] Cons e by (intro emits_seq) auto
    with Each_loop_seq [OF go] have "emits (Each_loop ((l, m) # es) fn) g
        (S l m \<union> (\<Union>(l, m) \<in> set es. S l m))"
      by (rule emits_cong)
    then show ?case by (simp add: e del: Each_loop.simps)
  qed
  then show ?thesis by (simp add: Each_def [abs_def])
qed

section \<open>Spending the tiles of a rack\<close>

fun spend :: "Tile list \<Rightarrow> nat list \<Rightarrow> nat \<Rightarrow> (nat list \<times> nat) option" where
  "spend [] rc bl = Some (rc, bl)"
| "spend (t # ts) rc bl =
     (if Tile_Blank t then (if 0 < bl then spend ts rc (bl - 1) else None)
      else if Tile_Letter t < length rc \<and> 0 < rc ! Tile_Letter t
           then spend ts (rc[Tile_Letter t := rc ! Tile_Letter t - 1]) bl
           else None)"

lemma spend_append:
  "spend (ts @ us) rc bl = Option.bind (spend ts rc bl) (\<lambda>(rc, bl). spend us rc bl)"
  by (induction ts rc bl rule: spend.induct) auto

text \<open>The counts of the generator stand for the multiset of tiles on the rack.\<close>

definition counts_rack :: "nat list \<Rightarrow> nat \<Rightarrow> Tile multiset \<Rightarrow> bool" where
  "counts_rack rc bl M \<longleftrightarrow>
     (\<forall>l < length rc. count M (mk_tile l False) = rc ! l) \<and> count M BlankTile = bl"

lemma counts_rack_take:
  assumes "counts_rack rc bl M"
  shows "l < length rc \<Longrightarrow> counts_rack (rc[l := rc ! l - 1]) bl (M - {#mk_tile l False#})"
    and "counts_rack rc (bl - 1) (M - {#BlankTile#})"
  using assms by (auto simp: counts_rack_def nth_list_update BlankTile_def)

lemma spend_mset:
  assumes "counts_rack rc bl M" and "\<forall>t \<in> set ts. Tile_Letter t < length rc"
  shows "spend ts rc bl \<noteq> None \<longleftrightarrow> mset (map rack_want ts) \<subseteq># M"
  using assms
proof (induction ts arbitrary: rc bl M)
  case (Cons t ts)
  have sub: "mset (map rack_want (t # ts)) \<subseteq># M \<longleftrightarrow>
      rack_want t \<in># M \<and> mset (map rack_want ts) \<subseteq># M - {#rack_want t#}"
    by (simp add: insert_subset_eq_iff)
  have t: "Tile_Letter t < length rc" and ts: "\<forall>t \<in> set ts. Tile_Letter t < length rc"
    using Cons.prems by simp_all
  show ?case
  proof (cases "Tile_Blank t")
    case True
    have "spend ts rc (bl - 1) \<noteq> None \<longleftrightarrow> mset (map rack_want ts) \<subseteq># M - {#BlankTile#}"
      by (rule Cons.IH [OF counts_rack_take(2) [OF Cons.prems(1)] ts])
    moreover have "BlankTile \<in># M \<longleftrightarrow> 0 < bl"
      using Cons.prems(1) by (auto simp: counts_rack_def count_greater_zero_iff [symmetric])
    moreover have "rack_want t = BlankTile" using True by (simp add: rack_want_def)
    ultimately show ?thesis unfolding sub using True by simp
  next
    case False
    let ?l = "Tile_Letter t"
    have "spend ts (rc[?l := rc ! ?l - 1]) bl \<noteq> None \<longleftrightarrow>
        mset (map rack_want ts) \<subseteq># M - {#mk_tile ?l False#}"
      by (rule Cons.IH [OF counts_rack_take(1) [OF Cons.prems(1) t]]) (use ts in simp)
    moreover have "mk_tile ?l False \<in># M \<longleftrightarrow> 0 < rc ! ?l"
      using Cons.prems(1) t by (auto simp: counts_rack_def count_greater_zero_iff [symmetric])
    moreover have "rack_want t = mk_tile ?l False" using False by (simp add: rack_want_def)
    ultimately show ?thesis unfolding sub using False t by simp
  qed
qed simp

definition count_tile :: "Tile \<Rightarrow> genState \<Rightarrow> genState" where
  "count_tile t g =
     (if Tile_Blank t then g\<lparr>blanks := blanks g + 1\<rparr>
      else g\<lparr>rackCount := (rackCount g)[Tile_Letter t := rackCount g ! Tile_Letter t + 1]\<rparr>)"

lemma count_tile_frame [simp]:
  "g_board (count_tile t g) = g_board g" "g_dawg (count_tile t g) = g_dawg g"
  "g_lang (count_tile t g) = g_lang g" "emitted (count_tile t g) = emitted g"
  "anchors (count_tile t g) = anchors g" "length (rackCount (count_tile t g)) = length (rackCount g)"
  by (simp_all add: count_tile_def)

lemma counts_rack_count_tile:
  assumes "counts_rack (rackCount g) (blanks g) M" and "hand_tile l t"
    and "length (rackCount g) = AlphabetSize l"
  shows "counts_rack (rackCount (count_tile t g)) (blanks (count_tile t g)) (add_mset t M)"
proof (cases "Tile_Blank t")
  case True
  with assms show ?thesis by (auto simp: counts_rack_def count_tile_def hand_tile_def BlankTile_def)
next
  case False
  then have "t = mk_tile (Tile_Letter t) False" by simp
  with assms False show ?thesis
    by (auto simp: counts_rack_def count_tile_def hand_tile_def BlankTile_def nth_list_update)
qed

lemma newGenState_count_tile:
  assumes "list_all (hand_tile l) (Rack_tiles rack)"
  shows "newGenState b rack d l = Some (fold count_tile (Rack_tiles rack)
     \<lparr>g_board = b, rackCount = replicate (AlphabetSize l) 0, blanks = 0, g_dawg = d, g_lang = l,
      crossH = (\<lambda>_ _. 0), crossV = (\<lambda>_ _. 0), anchors = (\<lambda>_ _. False), emitted = []\<rparr>)"
proof -
  have "foldl (\<lambda>st tile. case st of None \<Rightarrow> None | Some s \<Rightarrow>
              (if Tile_Blank tile then Some (s\<lparr>blanks := blanks s + 1\<rparr>)
               else case index_opt (rackCount s) (Tile_Letter tile) of
                 None \<Rightarrow> None
               | Some k \<Rightarrow> Some (s\<lparr>rackCount := (rackCount s)[Tile_Letter tile := k + 1]\<rparr>)))
      (Some g) ts = Some (fold count_tile ts g)"
    if "list_all (hand_tile l) ts" "length (rackCount g) = AlphabetSize l"
    for ts :: "Tile list" and g :: genState
    using that by (induction ts arbitrary: g) (simp_all add: count_tile_def hand_tile_def)
  from this [OF assms] show ?thesis by (simp add: newGenState_def)
qed

lemma newGenState_counts:
  assumes "list_all (hand_tile l) (Rack_tiles rack)"
  obtains g where "newGenState b rack d l = Some g" "g_board g = b" "g_dawg g = d" "g_lang g = l"
    "emitted g = []" "anchors g = (\<lambda>_ _. False)" "length (rackCount g) = AlphabetSize l"
    "counts_rack (rackCount g) (blanks g) (mset (Rack_tiles rack))"
proof -
  have fold_frame: "g_board (fold count_tile ts g) = g_board g" "g_dawg (fold count_tile ts g) = g_dawg g"
    "g_lang (fold count_tile ts g) = g_lang g" "emitted (fold count_tile ts g) = emitted g"
    "anchors (fold count_tile ts g) = anchors g"
    "length (rackCount (fold count_tile ts g)) = length (rackCount g)"
    for ts and g :: genState
    by (induction ts arbitrary: g) simp_all
  have "counts_rack (rackCount (fold count_tile ts g)) (blanks (fold count_tile ts g)) (M + mset ts)"
    if "list_all (hand_tile l) ts" "length (rackCount g) = AlphabetSize l"
      "counts_rack (rackCount g) (blanks g) M" for ts M and g :: genState
    using that
  proof (induction ts arbitrary: g M)
    case (Cons t ts)
    then show ?case
      using Cons.IH [of "count_tile t g" "add_mset t M"] counts_rack_count_tile [of g M l t] by simp
  qed simp
  from this [OF assms, of _ "{#}"] show thesis
    by (intro that [OF newGenState_count_tile [OF assms]])
       (simp_all add: fold_frame counts_rack_def)
qed

section \<open>The walk to the right\<close>

fun letters_below :: "nat \<Rightarrow> DAWGNode \<Rightarrow> bool" where
  "letters_below A (DAWGNode es t) \<longleftrightarrow> (\<forall>e \<in> set es. fst e < A \<and> letters_below A (snd e))"

definition searchable :: "nat \<Rightarrow> DAWGNode \<Rightarrow> bool" where
  "searchable A n \<longleftrightarrow> wf_node n \<and> letters_below A n"

lemma letters_below_iff:
  "letters_below A n \<longleftrightarrow> (\<forall>e \<in> set (edges n). fst e < A \<and> letters_below A (snd e))"
  by (cases n) simp

lemma edges_Edge:
  assumes "wf_node n"
  shows "(l, m) \<in> set (edges n) \<longleftrightarrow> Edge n l = Some m"
proof -
  have s: "sorted_edges n" using assms by simp
  then have "distinct (map fst (edges n))" using strict_sorted_iff by (auto simp: sorted_edges_def)
  then show ?thesis by (simp add: Edge_map_of [OF s])
qed

lemma searchable_Edge:
  assumes "searchable A n" and "Edge n l = Some m"
  shows "l < A" and "searchable A m"
proof -
  have "(l, m) \<in> set (edges n)" using assms edges_Edge by (simp add: searchable_def)
  with assms show "l < A" "searchable A m"
    using letters_below_iff [of A n] wf_node_Edge by (auto simp: searchable_def)
qed

lemma searchable_edges:
  assumes "searchable A n" and "(l, m) \<in> set (edges n)"
  shows "l < A" and "searchable A m"
  using searchable_Edge [OF assms(1), of l m] assms edges_Edge [of n l m]
  by (simp_all add: searchable_def)

lemma UN_pair_iff: "x \<in> (\<Union>(l, m) \<in> E. S l m) \<longleftrightarrow> (\<exists>l m. (l, m) \<in> E \<and> x \<in> S l m)"
  by auto

text \<open>
  Placements that can be laid from a square on: old tiles are walked over, new tiles pass the
  cross-check, the letters follow the edges, and the walk ends before a square without a tile at
  a terminal node.
\<close>

inductive right_path ::
  "Board \<Rightarrow> crossChecks \<Rightarrow> Direction \<Rightarrow> DAWGNode \<Rightarrow> int \<Rightarrow> int \<Rightarrow> Placement list \<Rightarrow> bool"
  for b cross dir
where
  stop: "\<not> live b (row, col) \<Longrightarrow> terminal n \<Longrightarrow> right_path b cross dir n row col []"
| old: "live b (row, col) \<Longrightarrow> Edge n (Tile_Letter (Sq_Tile (At b row col))) = Some m \<Longrightarrow>
    right_path b cross dir m (row + fst (step dir)) (col + snd (step dir)) qs \<Longrightarrow>
    right_path b cross dir n row col qs"
| new: "InBounds row col \<Longrightarrow> \<not> filled b row col \<Longrightarrow> Edge n l = Some m \<Longrightarrow>
    allows cross row col l \<Longrightarrow>
    right_path b cross dir m (row + fst (step dir)) (col + snd (step dir)) qs \<Longrightarrow>
    right_path b cross dir n row col
      (\<lparr>P_Row = row, P_Col = col, P_Tile = mk_tile l blank\<rparr> # qs)"

inductive_cases right_pathE: "right_path b cross dir n row col qs"

definition right_moves ::
  "genState \<Rightarrow> Direction \<Rightarrow> DAWGNode \<Rightarrow> Placement list \<Rightarrow> int \<Rightarrow> int \<Rightarrow> bool \<Rightarrow> Move set"
where
  "right_moves g dir n ps row col placed =
     {\<lparr>Placements = ps @ qs\<rparr> | qs. right_path (g_board g) (crossFor g dir) dir n row col qs \<and>
        spend (map P_Tile qs) (rackCount g) (blanks g) \<noteq> None \<and> (placed \<or> qs \<noteq> [])}"

lemma right_moves_off_board:
  assumes "\<not> InBounds row col"
  shows "right_moves g dir n ps row col placed =
     (if terminal n \<and> placed then {\<lparr>Placements = ps\<rparr>} else {})"
proof -
  have "right_path (g_board g) (crossFor g dir) dir n row col qs \<longleftrightarrow> terminal n \<and> qs = []" for qs
    using assms by (auto simp: live_def elim: right_pathE intro: right_path.stop)
  then show ?thesis by (auto simp: right_moves_def)
qed

lemma right_moves_old:
  assumes "InBounds row col" "filled (g_board g) row col"
  shows "right_moves g dir n ps row col placed =
     (case Edge n (Tile_Letter (Sq_Tile (At (g_board g) row col))) of
        None \<Rightarrow> {}
      | Some m \<Rightarrow>
          right_moves g dir m ps (row + fst (step dir)) (col + snd (step dir)) placed)"
proof -
  have "right_path (g_board g) (crossFor g dir) dir n row col qs \<longleftrightarrow>
      (\<exists>m. Edge n (Tile_Letter (Sq_Tile (At (g_board g) row col))) = Some m \<and>
         right_path (g_board g) (crossFor g dir) dir m (row + fst (step dir)) (col + snd (step dir)) qs)"
    for qs
    using assms by (auto simp: live_def elim: right_pathE intro: right_path.old)
  then show ?thesis by (auto simp: right_moves_def split: option.splits)
qed

definition tile_moves ::
  "genState \<Rightarrow> Direction \<Rightarrow> DAWGNode \<Rightarrow> Placement list \<Rightarrow> int \<Rightarrow> int \<Rightarrow> Tile \<Rightarrow> Move set"
where
  "tile_moves g dir m ps row col t =
     right_moves g dir m (ps @ [\<lparr>P_Row = row, P_Col = col, P_Tile = t\<rparr>])
       (row + fst (step dir)) (col + snd (step dir)) True"

lemma right_path_new:
  assumes "InBounds row col" "\<not> filled b row col" and w: "wf_node n"
  shows "right_path b cross dir n row col qs \<longleftrightarrow>
      (qs = [] \<and> terminal n) \<or>
      (\<exists>l m t qs'. qs = \<lparr>P_Row = row, P_Col = col, P_Tile = mk_tile l t\<rparr> # qs' \<and>
         (l, m) \<in> set (edges n) \<and> allows cross row col l \<and>
         right_path b cross dir m (row + fst (step dir)) (col + snd (step dir)) qs')"
    (is "_ \<longleftrightarrow> _ \<or> ?new")
proof
  assume "right_path b cross dir n row col qs"
  then show "(qs = [] \<and> terminal n) \<or> ?new"
    using assms(1,2) edges_Edge [OF w] by (cases rule: right_path.cases) (auto simp: live_def)
next
  assume "(qs = [] \<and> terminal n) \<or> ?new"
  then show "right_path b cross dir n row col qs"
  proof (elim disjE exE conjE)
    assume "qs = []" "terminal n"
    then show ?thesis using assms(2) by (simp add: right_path.stop live_def)
  next
    fix l m t qs'
    assume "qs = \<lparr>P_Row = row, P_Col = col, P_Tile = mk_tile l t\<rparr> # qs'"
      "(l, m) \<in> set (edges n)" "allows cross row col l"
      "right_path b cross dir m (row + fst (step dir)) (col + snd (step dir)) qs'"
    then show ?thesis using assms(1,2) edges_Edge [OF w] right_path.new by blast
  qed
qed

text \<open>The moves whose first new tile is a given one.\<close>

lemma tile_moves_spend:
  assumes "l < length (rackCount g)"
  shows "{\<lparr>Placements = ps @ \<lparr>P_Row = row, P_Col = col, P_Tile = mk_tile l t\<rparr> # qs\<rparr> | qs.
      right_path (g_board g) (crossFor g dir) dir m (row + fst (step dir)) (col + snd (step dir)) qs \<and>
      spend (mk_tile l t # map P_Tile qs) (rackCount g) (blanks g) \<noteq> None} =
    (if t then (if 0 < blanks g
                then tile_moves (g\<lparr>blanks := blanks g - 1\<rparr>) dir m ps row col (mk_tile l True) else {})
     else if 0 < rackCount g ! l
          then tile_moves (g\<lparr>rackCount := (rackCount g)[l := rackCount g ! l - 1]\<rparr>)
                 dir m ps row col (mk_tile l False) else {})"
  using assms by (cases t) (simp_all add: tile_moves_def right_moves_def crossFor_def)

lemma right_moves_new:
  assumes sq: "InBounds row col" "\<not> filled (g_board g) row col"
    and w: "searchable (length (rackCount g)) n"
  shows "right_moves g dir n ps row col placed =
     (if terminal n \<and> placed then {\<lparr>Placements = ps\<rparr>} else {}) \<union>
     (\<Union>(l, m) \<in> set (edges n).
        if allows (crossFor g dir) row col l
        then (if 0 < rackCount g ! l
              then tile_moves (g\<lparr>rackCount := (rackCount g)[l := rackCount g ! l - 1]\<rparr>)
                     dir m ps row col (mk_tile l False) else {}) \<union>
             (if 0 < blanks g
              then tile_moves (g\<lparr>blanks := blanks g - 1\<rparr>) dir m ps row col (mk_tile l True) else {})
        else {})" (is "?L = ?N \<union> ?R")
proof -
  define A where "A l m t = {\<lparr>Placements = ps @ \<lparr>P_Row = row, P_Col = col, P_Tile = mk_tile l t\<rparr> # qs\<rparr> | qs.
      right_path (g_board g) (crossFor g dir) dir m (row + fst (step dir)) (col + snd (step dir)) qs \<and>
      spend (mk_tile l t # map P_Tile qs) (rackCount g) (blanks g) \<noteq> None}" for l m t
  have "wf_node n" using w by (simp add: searchable_def)
  note path = right_path_new [OF sq this]
  have l: "l < length (rackCount g)" if "(l, m) \<in> set (edges n)" for l m
    by (rule searchable_edges(1) [OF w that])
  have iff: "x \<in> ?L \<longleftrightarrow> x \<in> ?N \<or> (\<exists>l m t. (l, m) \<in> set (edges n) \<and>
      allows (crossFor g dir) row col l \<and> x \<in> A l m t)" (is "_ \<longleftrightarrow> _ \<or> ?E x") for x
  proof
    assume "x \<in> ?L"
    then obtain qs where x: "x = \<lparr>Placements = ps @ qs\<rparr>" and
      qs: "right_path (g_board g) (crossFor g dir) dir n row col qs"
        "spend (map P_Tile qs) (rackCount g) (blanks g) \<noteq> None" "placed \<or> qs \<noteq> []"
      by (auto simp: right_moves_def)
    from qs(1) [unfolded path] show "x \<in> ?N \<or> ?E x"
    proof (elim disjE exE conjE)
      fix l m t qs'
      assume q: "qs = \<lparr>P_Row = row, P_Col = col, P_Tile = mk_tile l t\<rparr> # qs'"
        and lm: "(l, m) \<in> set (edges n)" "allows (crossFor g dir) row col l"
        "right_path (g_board g) (crossFor g dir) dir m (row + fst (step dir)) (col + snd (step dir)) qs'"
      have "x \<in> A l m t" using lm qs(2) x q by (simp add: A_def del: spend.simps)
      with lm show ?thesis by blast
    qed (use x qs in simp)
  next
    assume "x \<in> ?N \<or> ?E x"
    then show "x \<in> ?L"
    proof (elim disjE exE conjE)
      assume "x \<in> ?N"
      then show ?thesis unfolding right_moves_def path by (simp split: if_splits)
    next
      fix l m t
      assume lm: "(l, m) \<in> set (edges n)" "allows (crossFor g dir) row col l" "x \<in> A l m t"
      then obtain qs where qs:
        "x = \<lparr>Placements = ps @ \<lparr>P_Row = row, P_Col = col, P_Tile = mk_tile l t\<rparr> # qs\<rparr>"
        "right_path (g_board g) (crossFor g dir) dir m (row + fst (step dir)) (col + snd (step dir)) qs"
        "spend (mk_tile l t # map P_Tile qs) (rackCount g) (blanks g) \<noteq> None"
        unfolding A_def by blast
      let ?qs = "\<lparr>P_Row = row, P_Col = col, P_Tile = mk_tile l t\<rparr> # qs"
      have "right_path (g_board g) (crossFor g dir) dir n row col ?qs"
        unfolding path using lm qs(2) by blast
      with qs(1,3) show ?thesis
        unfolding right_moves_def by (intro CollectI exI [of _ ?qs]) (simp del: spend.simps)
    qed
  qed
  have "?R = (\<Union>(l, m) \<in> set (edges n).
      if allows (crossFor g dir) row col l then A l m False \<union> A l m True else {})"
  proof (intro SUP_cong refl)
    fix e assume e: "e \<in> set (edges n)"
    obtain l m where lm: "e = (l, m)" by (cases e)
    then have "l < length (rackCount g)" using e l by blast
    from tile_moves_spend [OF this] show "(case e of (l, m) \<Rightarrow>
        if allows (crossFor g dir) row col l
        then (if 0 < rackCount g ! l
              then tile_moves (g\<lparr>rackCount := (rackCount g)[l := rackCount g ! l - 1]\<rparr>)
                     dir m ps row col (mk_tile l False) else {}) \<union>
             (if 0 < blanks g
              then tile_moves (g\<lparr>blanks := blanks g - 1\<rparr>) dir m ps row col (mk_tile l True) else {})
        else {}) =
      (case e of (l, m) \<Rightarrow>
        if allows (crossFor g dir) row col l then A l m False \<union> A l m True else {})"
      unfolding A_def lm by (simp only: prod.case if_True if_False)
  qed
  also have "\<dots> = {x. \<exists>l m t. (l, m) \<in> set (edges n) \<and> allows (crossFor g dir) row col l \<and> x \<in> A l m t}"
    (is "?U = ?V")
  proof (rule set_eqI)
    fix x
    have "x \<in> ?U \<longleftrightarrow> (\<exists>l m. (l, m) \<in> set (edges n) \<and>
        x \<in> (if allows (crossFor g dir) row col l then A l m False \<union> A l m True else {}))"
      by (rule UN_pair_iff)
    also have "\<dots> \<longleftrightarrow> x \<in> ?V"
      unfolding mem_Collect_eq by (intro iff_exI) (simp add: ex_bool_eq disj_commute)
    finally show "x \<in> ?U \<longleftrightarrow> x \<in> ?V" .
  qed
  finally have R: "?R = ?V" .
  show ?thesis
    unfolding R by (rule set_eqI) (unfold Un_iff mem_Collect_eq, rule iff)
qed

lemma emits_right_step:
  assumes len: "l < length (rackCount g)"
    and f: "\<And>t h. g_board h = g_board g \<Longrightarrow> crossFor h dir = crossFor g dir \<Longrightarrow>
        length (rackCount h) = length (rackCount g) \<Longrightarrow> emits (f t) h (S t h)"
  shows "emits (\<lambda>g. map_option snd (case with_letter l (f False) g of
            None \<Rightarrow> None | Some g \<Rightarrow> map_option (Pair True) (with_blank (f True) g))) g
     ((if 0 < rackCount g ! l
       then S False (g\<lparr>rackCount := (rackCount g)[l := rackCount g ! l - 1]\<rparr>) else {}) \<union>
      (if 0 < blanks g then S True (g\<lparr>blanks := blanks g - 1\<rparr>) else {}))"
proof -
  have eq: "map_option snd (case with_letter l (f False) h of
            None \<Rightarrow> None | Some g \<Rightarrow> map_option (Pair True) (with_blank (f True) g)) =
       (case with_letter l (f False) h of None \<Rightarrow> None | Some g \<Rightarrow> with_blank (f True) g)" for h
    by (simp add: option.map_comp comp_def option.map_ident split: option.splits)
  show ?thesis
    unfolding eq
    by (intro emits_seq emits_with_letter emits_with_blank f len) (simp_all add: crossFor_def)
qed

text \<open>
  \<open>extendRight\<close> appends exactly the moves of \<open>right_moves\<close> and restores the rest of the state.
\<close>

lemma extendRight_emits:
  assumes "searchable (length (rackCount g)) n" and "placed \<longrightarrow> ps \<noteq> []"
  shows "emits (extendRight n ps row col dir placed) g (right_moves g dir n ps row col placed)"
  using assms
proof (induction "nat (29 - row - col)" arbitrary: n ps row col placed g rule: less_induct)
  case less
  let ?r = "row + fst (step dir)" and ?c = "col + snd (step dir)"
  let ?rec = "\<lambda>g. Some (if terminal n \<and> placed then gen_record ps g else g)"
  let ?N = "if terminal n \<and> placed then {\<lparr>Placements = ps\<rparr>} else {}"
  have rec: "emits ?rec g ?N"
    using less.prems(2) emits_record [of ps g] by (auto simp: emits_Some)
  have fields: "g_board (g\<lparr>emitted := E\<rparr>) = g_board g" "crossFor (g\<lparr>emitted := E\<rparr>) dir = crossFor g dir"
    "g_board (gen_record ps h) = g_board h" "crossFor (gen_record ps h) dir = crossFor h dir" for E h
    by (simp_all add: crossFor_def gen_record_def)
  show ?case
  proof (cases "InBounds row col")
    case False
    have "emits (extendRight n ps row col dir placed) g ?N"
      by (rule emits_cong [OF _ rec]) (simp add: extendRight.simps [of n] False)
    then show ?thesis by (simp add: right_moves_off_board False)
  next
    case True
    have small: "nat (29 - ?r - ?c) < nat (29 - row - col)"
      using True by (auto simp: step_def InBounds_def BoardSize_def)
    show ?thesis
    proof (cases "filled (g_board g) row col")
      case old: True
      show ?thesis
      proof (cases "Edge n (Tile_Letter (Sq_Tile (At (g_board g) row col)))")
        case None
        have "emits (extendRight n ps row col dir placed) g {}"
          by (rule emits_cong [OF _ emits_Some])
             (use True old None in \<open>simp add: extendRight.simps [of n] filled_def fields Let_def split_def\<close>)
        then show ?thesis using None by (simp add: right_moves_old True old)
      next
        case (Some m)
        have "emits (extendRight m ps ?r ?c dir placed) g (right_moves g dir m ps ?r ?c placed)"
          by (rule less.hyps [OF small searchable_Edge(2) [OF less.prems(1) Some] less.prems(2)])
        then have "emits (extendRight n ps row col dir placed) g (right_moves g dir m ps ?r ?c placed)"
          by (rule emits_cong [rotated])
             (use True old Some in \<open>simp add: extendRight.simps [of n] filled_def fields Let_def split_def\<close>)
        then show ?thesis using Some by (simp add: right_moves_old True old)
      qed
    next
      case new: False
      let ?ext = "\<lambda>l m t. extendRight m
          (appendPlacement ps \<lparr>P_Row = row, P_Col = col, P_Tile = mk_tile l t\<rparr>) ?r ?c dir True"
      let ?fn = "\<lambda>l m h. if \<not> allows (crossFor g dir) row col l then Some (True, h)
          else case with_letter l (?ext l m False) h of None \<Rightarrow> None
          | Some g \<Rightarrow> map_option (Pair True) (with_blank (?ext l m True) g)"
      have ext: "emits (?ext l m t) h (tile_moves h dir m ps row col (mk_tile l t))"
        if "(l, m) \<in> set (edges n)" "length (rackCount h) = length (rackCount g)" for l m t h
      proof -
        from searchable_edges(2) [OF less.prems(1) that(1)] show ?thesis
          unfolding tile_moves_def appendPlacement_def using that(2)
          by (intro less.hyps small) simp_all
      qed
      have "emits (Each n ?fn) g (\<Union>(l, m) \<in> set (edges n).
        if allows (crossFor g dir) row col l
        then (if 0 < rackCount g ! l
              then tile_moves (g\<lparr>rackCount := (rackCount g)[l := rackCount g ! l - 1]\<rparr>)
                     dir m ps row col (mk_tile l False) else {}) \<union>
             (if 0 < blanks g
              then tile_moves (g\<lparr>blanks := blanks g - 1\<rparr>) dir m ps row col (mk_tile l True) else {})
        else {})"
      proof (rule emits_Each)
        fix l m assume lm: "(l, m) \<in> set (edges n)"
        then have "l < length (rackCount g)" by (rule searchable_edges(1) [OF less.prems(1)])
        from emits_right_step [where f = "?ext l m"
            and S = "\<lambda>t h. tile_moves h dir m ps row col (mk_tile l t)" and dir = dir, OF this ext [OF lm]]
        show "emits (\<lambda>g. map_option snd (?fn l m g)) g
          (if allows (crossFor g dir) row col l
           then (if 0 < rackCount g ! l
                 then tile_moves (g\<lparr>rackCount := (rackCount g)[l := rackCount g ! l - 1]\<rparr>)
                        dir m ps row col (mk_tile l False) else {}) \<union>
                (if 0 < blanks g
                 then tile_moves (g\<lparr>blanks := blanks g - 1\<rparr>) dir m ps row col (mk_tile l True) else {})
           else {})"
          by (cases "allows (crossFor g dir) row col l") (simp_all add: emits_Some)
      qed (auto split: if_splits option.splits)
      from emits_seq [OF rec this] have "emits (extendRight n ps row col dir placed) g
          (right_moves g dir n ps row col placed)"
        unfolding right_moves_new [OF True new less.prems(1), symmetric]
        by (rule emits_cong [rotated])
           (use True new in \<open>simp add: extendRight.simps [of n] filled_def fields Let_def split_def\<close>)
      then show ?thesis .
    qed
  qed
qed

section \<open>The left part\<close>

definition pl_tile :: "partLetter \<Rightarrow> Tile" where
  "pl_tile p = mk_tile (PL_Letter p) (PL_Blank p)"

abbreviation mk_part :: "LetterID \<Rightarrow> bool \<Rightarrow> partLetter" where
  "mk_part l t \<equiv> \<lparr>PL_Letter = l, PL_Blank = t\<rparr>"

text \<open>A left part and a walk to the right that go together: one path of edges, one rack.\<close>

definition left_right ::
  "genState \<Rightarrow> Direction \<Rightarrow> DAWGNode \<Rightarrow> int \<Rightarrow> int \<Rightarrow> partLetter list \<Rightarrow> Placement list \<Rightarrow> bool"
where
  "left_right g dir n row col lq qs \<longleftrightarrow>
     (\<exists>m. dawg_walk n (map PL_Letter lq) = Some m \<and>
          right_path (g_board g) (crossFor g dir) dir m row col qs) \<and> qs \<noteq> [] \<and>
     spend (map pl_tile lq @ map P_Tile qs) (rackCount g) (blanks g) \<noteq> None"

definition left_moves ::
  "genState \<Rightarrow> Direction \<Rightarrow> DAWGNode \<Rightarrow> partLetter list \<Rightarrow> int \<Rightarrow> int \<Rightarrow> nat \<Rightarrow> Move set"
where
  "left_moves g dir n lp row col lim =
     {\<lparr>Placements = buildLeftPlacements (lp @ lq) row col dir @ qs\<rparr> | lq qs.
        length lq \<le> lim \<and> left_right g dir n row col lq qs}"

lemma left_right_Nil:
  "left_right g dir n row col [] qs \<longleftrightarrow>
     right_path (g_board g) (crossFor g dir) dir n row col qs \<and> qs \<noteq> [] \<and>
     spend (map P_Tile qs) (rackCount g) (blanks g) \<noteq> None"
  by (auto simp: left_right_def)

definition part_moves ::
  "genState \<Rightarrow> Direction \<Rightarrow> DAWGNode \<Rightarrow> partLetter list \<Rightarrow> int \<Rightarrow> int \<Rightarrow> nat \<Rightarrow> partLetter \<Rightarrow> Move set"
where
  "part_moves g dir m lp row col lim p =
     left_moves g dir m (lp @ [p]) row col lim"

lemma left_right_Cons:
  assumes "l < length (rackCount g)" and "Edge n l = Some m"
  shows "left_right g dir n row col (mk_part l t # lq) qs \<longleftrightarrow>
    (if t then 0 < blanks g \<and> left_right (g\<lparr>blanks := blanks g - 1\<rparr>) dir m row col lq qs
     else 0 < rackCount g ! l \<and>
       left_right (g\<lparr>rackCount := (rackCount g)[l := rackCount g ! l - 1]\<rparr>) dir m row col lq qs)"
  using assms by (auto simp: left_right_def pl_tile_def crossFor_def)

lemma left_right_Edge:
  "left_right g dir n row col (p # lq) qs \<Longrightarrow> \<exists>m. Edge n (PL_Letter p) = Some m"
  by (auto simp: left_right_def split: option.splits)

lemma left_moves_Suc:
  assumes w: "searchable (length (rackCount g)) n"
  shows "left_moves g dir n lp row col (Suc lim) =
     right_moves g dir n (buildLeftPlacements lp row col dir) row col False \<union>
     (\<Union>(l, m) \<in> set (edges n).
        (if 0 < rackCount g ! l
         then part_moves (g\<lparr>rackCount := (rackCount g)[l := rackCount g ! l - 1]\<rparr>)
                dir m lp row col lim (mk_part l False) else {}) \<union>
        (if 0 < blanks g
         then part_moves (g\<lparr>blanks := blanks g - 1\<rparr>) dir m lp row col lim (mk_part l True)
         else {}))" (is "?L = ?N \<union> ?R")
proof -
  have wf: "wf_node n" using w by (simp add: searchable_def)
  define A where "A l m t = {\<lparr>Placements = buildLeftPlacements (lp @ mk_part l t # lq) row col dir @ qs\<rparr> | lq qs.
     length lq \<le> lim \<and> left_right g dir n row col (mk_part l t # lq) qs}" for l and m :: DAWGNode and t
  have A: "A l m t =
     (if t then (if 0 < blanks g
         then part_moves (g\<lparr>blanks := blanks g - 1\<rparr>) dir m lp row col lim (mk_part l True) else {})
      else if 0 < rackCount g ! l
         then part_moves (g\<lparr>rackCount := (rackCount g)[l := rackCount g ! l - 1]\<rparr>)
                dir m lp row col lim (mk_part l False) else {})"
    if "(l, m) \<in> set (edges n)" for l m t
    using left_right_Cons [OF searchable_edges(1) [OF w that]] that edges_Edge [OF wf]
    by (simp add: A_def part_moves_def left_moves_def)
  have iff: "x \<in> ?L \<longleftrightarrow> x \<in> ?N \<or> (\<exists>l m t. (l, m) \<in> set (edges n) \<and> x \<in> A l m t)" (is "_ \<longleftrightarrow> _ \<or> ?E x") for x
  proof
    assume "x \<in> ?L"
    then obtain lq qs where x: "x = \<lparr>Placements = buildLeftPlacements (lp @ lq) row col dir @ qs\<rparr>"
      and lq: "length lq \<le> Suc lim" "left_right g dir n row col lq qs"
      unfolding left_moves_def by blast
    show "x \<in> ?N \<or> ?E x"
    proof (cases lq)
      case Nil
      with lq(2) x show ?thesis by (auto simp: right_moves_def left_right_Nil)
    next
      case (Cons p lq')
      obtain m where m: "Edge n (PL_Letter p) = Some m" using left_right_Edge lq(2) Cons by blast
      have p: "p = mk_part (PL_Letter p) (PL_Blank p)" by simp
      have "x \<in> A (PL_Letter p) m (PL_Blank p)"
        unfolding A_def p [symmetric] using x lq Cons by auto
      with m show ?thesis using edges_Edge [OF wf] by blast
    qed
  next
    assume "x \<in> ?N \<or> ?E x"
    then show "x \<in> ?L"
    proof
      assume "x \<in> ?N"
      then obtain qs where "x = \<lparr>Placements = buildLeftPlacements lp row col dir @ qs\<rparr>"
        "left_right g dir n row col [] qs"
        by (auto simp: right_moves_def left_right_Nil)
      then show ?thesis unfolding left_moves_def by (intro CollectI exI [of _ "[]"] exI [of _ qs]) simp
    next
      assume "?E x"
      then obtain l m t lq qs where
        "x = \<lparr>Placements = buildLeftPlacements (lp @ mk_part l t # lq) row col dir @ qs\<rparr>"
        "length lq \<le> lim" "left_right g dir n row col (mk_part l t # lq) qs"
        unfolding A_def by blast
      then show ?thesis
        unfolding left_moves_def by (intro CollectI exI [of _ "mk_part l t # lq"] exI [of _ qs]) simp
    qed
  qed
  have R: "x \<in> ?R \<longleftrightarrow> ?E x" for x
  proof -
    have "x \<in> ?R \<longleftrightarrow> (\<exists>l m. (l, m) \<in> set (edges n) \<and> x \<in> A l m False \<union> A l m True)"
      unfolding UN_pair_iff by (intro iff_exI conj_cong refl) (simp add: A)
    also have "\<dots> \<longleftrightarrow> ?E x" by (intro iff_exI) (simp add: ex_bool_eq disj_commute)
    finally show ?thesis .
  qed
  show ?thesis by (rule set_eqI) (unfold Un_iff iff R, rule refl)
qed

lemma left_moves_0:
  "left_moves g dir n lp row col 0 =
     right_moves g dir n (buildLeftPlacements lp row col dir) row col False"
  by (simp add: left_moves_def right_moves_def left_right_Nil conj_ac)

lemma extendLeft_emits:
  assumes "searchable (length (rackCount g)) n"
  shows "emits (extendLeft n lp row col dir lim) g (left_moves g dir n lp row col lim)"
  using assms
proof (induction lim arbitrary: n lp g)
  case 0
  have "emits (extendRight n (buildLeftPlacements lp row col dir) row col dir False) g
      (left_moves g dir n lp row col 0)"
    unfolding left_moves_0 by (rule extendRight_emits [OF 0]) simp
  then show ?case
    by (rule emits_cong [rotated]) (simp add: extendLeft.simps split: option.splits)
next
  case (Suc lim)
  let ?ext = "\<lambda>l m t. extendLeft m (growLeftPart lp (mk_part l t)) row col dir lim"
  let ?fn = "\<lambda>l m h. case with_letter l (?ext l m False) h of None \<Rightarrow> None
          | Some g \<Rightarrow> map_option (Pair True) (with_blank (?ext l m True) g)"
  have ext: "emits (?ext l m t) h (part_moves h dir m lp row col lim (mk_part l t))"
    if "(l, m) \<in> set (edges n)" "length (rackCount h) = length (rackCount g)" for l m t h
    using Suc.IH [of h m "lp @ [mk_part l t]"] searchable_edges(2) [OF Suc.prems that(1)] that(2)
    by (simp add: part_moves_def growLeftPart_def)
  have "emits (Each n ?fn) g (\<Union>(l, m) \<in> set (edges n).
        (if 0 < rackCount g ! l
         then part_moves (g\<lparr>rackCount := (rackCount g)[l := rackCount g ! l - 1]\<rparr>)
                dir m lp row col lim (mk_part l False) else {}) \<union>
        (if 0 < blanks g
         then part_moves (g\<lparr>blanks := blanks g - 1\<rparr>) dir m lp row col lim (mk_part l True)
         else {}))"
  proof (rule emits_Each)
    fix l m assume lm: "(l, m) \<in> set (edges n)"
    from emits_right_step [where f = "?ext l m"
        and S = "\<lambda>t h. part_moves h dir m lp row col lim (mk_part l t)" and dir = dir,
        OF searchable_edges(1) [OF Suc.prems lm] ext [OF lm]]
    show "emits (\<lambda>g. map_option snd (?fn l m g)) g
      ((if 0 < rackCount g ! l
         then part_moves (g\<lparr>rackCount := (rackCount g)[l := rackCount g ! l - 1]\<rparr>)
                dir m lp row col lim (mk_part l False) else {}) \<union>
        (if 0 < blanks g
         then part_moves (g\<lparr>blanks := blanks g - 1\<rparr>) dir m lp row col lim (mk_part l True)
         else {}))" by simp
  qed (auto split: option.splits)
  with extendRight_emits [OF Suc.prems]
  have "emits (\<lambda>g. case extendRight n (buildLeftPlacements lp row col dir) row col dir False g of
      None \<Rightarrow> None | Some g \<Rightarrow> Each n ?fn g) g (left_moves g dir n lp row col (Suc lim))"
    unfolding left_moves_Suc [OF Suc.prems] by (intro emits_seq) simp_all
  then show ?case
    by (rule emits_cong [rotated])
       (simp add: extendLeft.simps [of n lp row col dir "Suc lim"] cong: option.case_cong)
qed

section \<open>What one anchor emits\<close>

definition sq_letter :: "Board \<Rightarrow> int \<times> int \<Rightarrow> LetterID" where
  "sq_letter b sq = Tile_Letter (Sq_Tile (At b (fst sq) (snd sq)))"

definition open_sq :: "genState \<Rightarrow> int \<times> int \<Rightarrow> bool" where
  "open_sq g sq \<longleftrightarrow> InBounds (fst sq) (snd sq) \<and> \<not> filled (g_board g) (fst sq) (snd sq) \<and>
     \<not> anchors g (fst sq) (snd sq)"

lemma along_step:
  "(row + fst (step dir), col + snd (step dir)) = along dir row col 1"
  "(row + fst (stepBack dir), col + snd (stepBack dir)) = along dir row col (- 1)"
  by (simp_all add: along_def stepBack_def split_def Let_def)

lemma left_limit_loop_spec:
  "\<exists>k. left_limit_loop g dir row col a = a + k \<and> (\<forall>j < k. open_sq g (along dir row col (- int j))) \<and>
     \<not> open_sq g (along dir row col (- int k))"
proof (induction g dir row col a rule: left_limit_loop.induct)
  case (1 g dir r c a)
  let ?p = "along dir r c (- 1)"
  show ?case
  proof (cases "open_sq g (r, c)")
    case False
    then have "left_limit_loop g dir r c a = a"
      by (subst left_limit_loop.simps) (auto simp: open_sq_def filled_def)
    with False show ?thesis by (intro exI [of _ 0]) simp
  next
    case True
    then have eq: "left_limit_loop g dir r c a = left_limit_loop g dir (fst ?p) (snd ?p) (a + 1)"
      by (subst left_limit_loop.simps) (simp add: open_sq_def filled_def split_def Let_def along_step(2) [symmetric])
    from True have "InBounds r c \<and> \<not> Sq_Filled (At (g_board g) r c) \<and> \<not> anchors g r c"
      by (simp add: open_sq_def filled_def)
    from "1.IH" [OF refl prod.collapse this] obtain k where
      k: "left_limit_loop g dir (fst ?p) (snd ?p) (a + 1) = a + 1 + k"
      "\<forall>j < k. open_sq g (along dir (fst ?p) (snd ?p) (- int j))"
      "\<not> open_sq g (along dir (fst ?p) (snd ?p) (- int k))"
      by (auto simp: along_step(2) [symmetric])
    have "open_sq g (along dir r c (- int j))" if "j < Suc k" for j
      using that True k(2) by (cases j) (auto simp: along_along)
    moreover have "\<not> open_sq g (along dir r c (- int (Suc k)))" using k(3) by (simp add: along_along)
    ultimately show ?thesis using eq k(1) by (intro exI [of _ "Suc k"]) simp
  qed
qed

lemma computeLeftLimit_spec:
  "(\<forall>j. 1 \<le> j \<and> j \<le> computeLeftLimit row col dir g \<longrightarrow> open_sq g (along dir row col (- int j)))"
  "\<not> open_sq g (along dir row col (- int (Suc (computeLeftLimit row col dir g))))"
proof -
  let ?p = "along dir row col (- 1)"
  obtain k where k: "left_limit_loop g dir (fst ?p) (snd ?p) 0 = 0 + k"
    "\<forall>j < k. open_sq g (along dir (fst ?p) (snd ?p) (- int j))"
    "\<not> open_sq g (along dir (fst ?p) (snd ?p) (- int k))"
    using left_limit_loop_spec [of g dir "fst ?p" "snd ?p" 0] by blast
  have lim: "computeLeftLimit row col dir g = k"
    using k(1) by (simp add: computeLeftLimit_def split_def Let_def along_step(2) [symmetric])
  have "open_sq g (along dir row col (- int j))" if "1 \<le> j" "j \<le> k" for j
    using that k(2) [rule_format, of "j - 1"] by (simp add: along_along of_nat_diff)
  moreover have "\<not> open_sq g (along dir row col (- int (Suc k)))" using k(3) by (simp add: along_along)
  ultimately show
    "(\<forall>j. 1 \<le> j \<and> j \<le> computeLeftLimit row col dir g \<longrightarrow> open_sq g (along dir row col (- int j)))"
    "\<not> open_sq g (along dir row col (- int (Suc (computeLeftLimit row col dir g))))"
    by (auto simp: lim)
qed

lemma follow_run_walk:
  assumes "\<forall>j < Suc k. InBounds (fst (along dir r c (int j))) (snd (along dir r c (int j)))"
    and "along dir r c (int (Suc k)) = (row, col)"
  shows "follow_run b n r c row col dir =
     Some (dawg_walk n (map (\<lambda>j. sq_letter b (along dir r c (int j))) [0..<Suc k]))"
  using assms
proof (induction k arbitrary: n r c)
  case 0
  then show ?case
    by (subst follow_run.simps)
       (auto simp: split_def along_step(1) [symmetric] sq_letter_def Let_def split: option.splits)
next
  case (Suc k)
  let ?p = "along dir r c 1"
  have p: "along dir (fst ?p) (snd ?p) t = along dir r c (1 + t)" for t by (simp add: along_along)
  have inb: "InBounds r c" using Suc.prems(1) [rule_format, of 0] by simp
  have ne: "?p \<noteq> (row, col)" unfolding Suc.prems(2) [symmetric] by simp
  have IH: "follow_run b m (fst ?p) (snd ?p) row col dir =
     Some (dawg_walk m (map (\<lambda>j. sq_letter b (along dir (fst ?p) (snd ?p) (int j))) [0..<Suc k]))" for m
    using Suc.prems by (intro Suc.IH) (auto simp: p add.commute)
  have "map (\<lambda>j. sq_letter b (along dir r c (int j))) [0..<Suc (Suc k)] =
      sq_letter b (r, c) # map (\<lambda>j. sq_letter b (along dir (fst ?p) (snd ?p) (int j))) [0..<Suc k]"
    unfolding upt_conv_Cons [OF zero_less_Suc, of "Suc k"] map_Suc_upt [symmetric] by (simp add: p)
  moreover have "follow_run b n r c row col dir =
      (case Edge n (sq_letter b (r, c)) of None \<Rightarrow> Some None
       | Some m \<Rightarrow> follow_run b m (fst ?p) (snd ?p) row col dir)"
    using inb ne by (subst follow_run.simps)
      (auto simp: split_def along_step(1) [symmetric] sq_letter_def Let_def split: option.splits)
  ultimately show ?case by (simp add: IH del: upt_Suc split: option.splits)
qed

text \<open>
  \<open>walkLeftExisting\<close> never leaves the board: it returns the node the letters to the left lead to.
\<close>

lemma walkLeftExisting_spec:
  "\<exists>k. (\<forall>j. 1 \<le> j \<and> j \<le> k \<longrightarrow> live (g_board g) (along dir row col (- int j))) \<and>
     \<not> live (g_board g) (along dir row col (- int (Suc k))) \<and>
     walkLeftExisting row col dir g =
       Some (dawg_walk (Dawg_root (g_dawg g))
         (map (\<lambda>j. sq_letter (g_board g) (along dir row col (int j - int k))) [0..<k]))"
proof (cases "live (g_board g) (along dir row col (- 1))")
  case False
  then have "walkLeftExisting row col dir g = Some (Some (Dawg_root (g_dawg g)))"
    unfolding walkLeftExisting_def Let_def split_def
    by (auto simp: live_def filled_def along_step(2) [symmetric])
  with False show ?thesis by (intro exI [of _ 0]) simp
next
  case True
  let ?b = "g_board g" and ?p = "along dir row col (- 1)"
  obtain i :: nat where i: "walk_start ?b dir (fst ?p) (snd ?p) = along dir (fst ?p) (snd ?p) (- int i)"
    "\<forall>j. 1 \<le> j \<and> j \<le> i \<longrightarrow> live ?b (along dir (fst ?p) (snd ?p) (- int j))"
    "\<not> live ?b (along dir (fst ?p) (snd ?p) (- int (Suc i)))"
    using walk_start_spec by blast
  define s where "s = along dir row col (- int (Suc i))"
  have s: "along dir (fst s) (snd s) t = along dir row col (t - int (Suc i))" for t
    by (simp add: s_def along_along algebra_simps)
  have liv: "live ?b (along dir row col (- int j))" if "1 \<le> j" "j \<le> Suc i" for j
  proof (cases "j = 1")
    case False
    with that have "1 \<le> j - 1 \<and> j - 1 \<le> i" by auto
    with i(2) have "live ?b (along dir (fst ?p) (snd ?p) (- int (j - 1)))" by blast
    with that show ?thesis by (simp add: along_along of_nat_diff)
  qed (use True in simp)
  have "walkLeftExisting row col dir g = follow_run ?b (Dawg_root (g_dawg g)) (fst s) (snd s) row col dir"
  proof -
    have "walk_start ?b dir (fst ?p) (snd ?p) = s" using i(1) by (simp add: s_def along_along)
    moreover have "?p = (row + fst (stepBack dir), col + snd (stepBack dir))"
      by (simp add: along_step(2))
    ultimately show ?thesis
      using True unfolding walkLeftExisting_def Let_def split_def by (simp add: live_def filled_def)
  qed
  also have "\<dots> = Some (dawg_walk (Dawg_root (g_dawg g))
      (map (\<lambda>j. sq_letter ?b (along dir (fst s) (snd s) (int j))) [0..<Suc i]))"
  proof (rule follow_run_walk)
    show "\<forall>j < Suc i. InBounds (fst (along dir (fst s) (snd s) (int j))) (snd (along dir (fst s) (snd s) (int j)))"
    proof (intro allI impI)
      fix j assume "j < Suc i"
      then have "live ?b (along dir row col (- int (Suc i - j)))" by (intro liv) auto
      moreover have "- int (Suc i - j) = int j - int (Suc i)" using \<open>j < Suc i\<close> by auto
      ultimately show "InBounds (fst (along dir (fst s) (snd s) (int j))) (snd (along dir (fst s) (snd s) (int j)))"
        by (simp add: s live_def)
    qed
  qed (simp add: s)
  finally show ?thesis
    using liv i(3) by (intro exI [of _ "Suc i"]) (auto simp: s along_along simp del: upt_Suc)
qed

definition anchor_moves :: "genState \<Rightarrow> int \<Rightarrow> int \<Rightarrow> Direction \<Rightarrow> Move set" where
  "anchor_moves g row col dir =
     (let lim = computeLeftLimit row col dir g in
      if lim = 0
      then (case walkLeftExisting row col dir g of
              Some (Some n) \<Rightarrow> right_moves g dir n [] row col False
            | _ \<Rightarrow> {})
      else left_moves g dir (Dawg_root (g_dawg g)) [] row col lim)"

lemma dawg_walk_searchable:
  "searchable A n \<Longrightarrow> dawg_walk n w = Some m \<Longrightarrow> searchable A m \<and> (\<forall>l \<in> set w. l < A)"
proof (induction w arbitrary: n)
  case (Cons l w)
  then obtain k where k: "Edge n l = Some k" "dawg_walk k w = Some m"
    by (auto split: option.splits)
  then show ?case using Cons.IH [OF searchable_Edge(2) k(2)] searchable_Edge(1) Cons.prems by auto
qed simp

lemma emitted_frame:
  "computeLeftLimit row col dir (g\<lparr>emitted := E\<rparr>) = computeLeftLimit row col dir g"
  "walkLeftExisting row col dir (g\<lparr>emitted := E\<rparr>) = walkLeftExisting row col dir g"
proof -
  have "left_limit_loop (g\<lparr>emitted := E\<rparr>) dir r c a = left_limit_loop g dir r c a" for r c a
  proof (induction g dir r c a rule: left_limit_loop.induct)
    case (1 g dir r c a)
    show ?case
      using "1.IH" [OF refl prod.collapse]
      by (subst (1 2) left_limit_loop.simps) (auto simp: split_def Let_def)
  qed
  then show "computeLeftLimit row col dir (g\<lparr>emitted := E\<rparr>) = computeLeftLimit row col dir g"
    by (simp add: computeLeftLimit_def split_def Let_def)
  show "walkLeftExisting row col dir (g\<lparr>emitted := E\<rparr>) = walkLeftExisting row col dir g"
    by (simp add: walkLeftExisting_def split_def Let_def)
qed

lemma runFromAnchor_emits:
  assumes w: "searchable (length (rackCount g)) (Dawg_root (g_dawg g))"
  shows "emits (runFromAnchor row col dir) g (anchor_moves g row col dir)"
proof (cases "computeLeftLimit row col dir g = 0")
  case True
  obtain ls where ls: "walkLeftExisting row col dir g = Some (dawg_walk (Dawg_root (g_dawg g)) ls)"
    using walkLeftExisting_spec [of g dir row col] by blast
  show ?thesis
  proof (cases "dawg_walk (Dawg_root (g_dawg g)) ls")
    case None
    have "emits (runFromAnchor row col dir) g {}"
      by (rule emits_cong [OF _ emits_Some]) (simp add: runFromAnchor_def emitted_frame True ls None)
    then show ?thesis by (simp add: anchor_moves_def True ls None)
  next
    case (Some n)
    have "emits (extendRight n [] row col dir False) g (right_moves g dir n [] row col False)"
      using dawg_walk_searchable [OF w Some] by (intro extendRight_emits) simp_all
    then have "emits (runFromAnchor row col dir) g (right_moves g dir n [] row col False)"
      by (rule emits_cong [rotated]) (simp add: runFromAnchor_def emitted_frame True ls Some)
    then show ?thesis by (simp add: anchor_moves_def True ls Some)
  qed
next
  case False
  have "emits (runFromAnchor row col dir) g
      (left_moves g dir (Dawg_root (g_dawg g)) [] row col (computeLeftLimit row col dir g))"
    by (rule emits_cong [OF _ extendLeft_emits [OF w]]) (simp add: runFromAnchor_def emitted_frame False)
  then show ?thesis using False by (simp add: anchor_moves_def)
qed

definition both_moves :: "genState \<Rightarrow> int \<Rightarrow> int \<Rightarrow> Move set" where
  "both_moves g row col = anchor_moves g row col Horizontal \<union> anchor_moves g row col Vertical"

lemma anchor_loop_emits:
  assumes w: "searchable (length (rackCount g)) (Dawg_root (g_dawg g))"
  shows "emits (anchor_loop sqs) g
     (\<Union>(row, col) \<in> set sqs. if anchors g row col then both_moves g row col else {})"
proof (induction sqs)
  case (Cons sq sqs)
  obtain row col where sq: "sq = (row, col)" by (cases sq)
  let ?S = "\<Union>(row, col) \<in> set sqs. if anchors g row col then both_moves g row col else {}"
  show ?case
  proof (cases "anchors g row col")
    case True
    have "emits (\<lambda>g. case runFromAnchor row col Horizontal g of None \<Rightarrow> None
        | Some g \<Rightarrow> (case runFromAnchor row col Vertical g of None \<Rightarrow> None
                      | Some g \<Rightarrow> anchor_loop sqs g)) g
        (anchor_moves g row col Horizontal \<union> (anchor_moves g row col Vertical \<union> ?S))"
      by (intro emits_seq runFromAnchor_emits w Cons.IH)
    then have "emits (anchor_loop (sq # sqs)) g
        (anchor_moves g row col Horizontal \<union> (anchor_moves g row col Vertical \<union> ?S))"
      by (rule emits_cong [rotated]) (simp add: sq True)
    then show ?thesis by (simp add: sq True both_moves_def Un_assoc del: anchor_loop.simps)
  next
    case False
    have "emits (anchor_loop (sq # sqs)) g ?S"
      by (rule emits_cong [OF _ Cons.IH]) (simp add: sq False)
    then show ?thesis by (simp add: sq False del: anchor_loop.simps)
  qed
qed (simp add: emits_Some)

lemma emitsE:
  assumes "emits f g S"
  obtains X where "f g = Some (g\<lparr>emitted := emitted g @ X\<rparr>)" "set X = S"
proof -
  obtain X where X: "\<forall>E. f (g\<lparr>emitted := E\<rparr>) = Some (g\<lparr>emitted := E @ X\<rparr>)" "set X = S"
    using assms by (auto simp: emits_def)
  from X(1) [rule_format, of "emitted g"] X(2) show thesis by (intro that) simp_all
qed

section \<open>Every emitted move is playable from the rack\<close>

lemma right_path_letters:
  "right_path b cross dir n row col qs \<Longrightarrow> searchable A n \<Longrightarrow> \<forall>q \<in> set qs. Tile_Letter (P_Tile q) < A"
proof (induction rule: right_path.induct)
  case (new row col n l m qs blank)
  then show ?case using searchable_Edge [OF new.prems new.hyps(3)] by simp
next
  case (old row col n m qs)
  then show ?case using searchable_Edge by blast
qed simp

lemma length_buildLeftPlacements [simp]: "length (buildLeftPlacements lp row col dir) = length lp"
  by (simp add: buildLeftPlacements_def split_def Let_def)

lemma buildLeftPlacements_nth:
  assumes "i < length lp"
  shows "buildLeftPlacements lp row col dir ! i =
     \<lparr>P_Row = fst (along dir row col (int i - int (length lp))),
      P_Col = snd (along dir row col (int i - int (length lp))), P_Tile = pl_tile (lp ! i)\<rparr>"
  using assms
  by (simp add: buildLeftPlacements_def split_def Let_def pl_tile_def nth_enumerate_eq along_def
      stepBack_def algebra_simps)

lemma buildLeftPlacements_tiles:
  "map P_Tile (buildLeftPlacements lp row col dir) = map pl_tile lp"
  by (rule nth_equalityI) (simp_all add: buildLeftPlacements_nth)

definition rack_move :: "genState \<Rightarrow> Move \<Rightarrow> bool" where
  "rack_move g m \<longleftrightarrow>
     (\<forall>p \<in> set (Placements m). Tile_Letter (P_Tile p) < length (rackCount g)) \<and>
     spend (map P_Tile (Placements m)) (rackCount g) (blanks g) \<noteq> None"

lemma right_moves_rack:
  assumes "searchable (length (rackCount g)) n" and "m \<in> right_moves g dir n [] row col placed"
  shows "rack_move g m"
  using assms right_path_letters [OF _ assms(1)] by (auto simp: right_moves_def rack_move_def)

lemma left_moves_rack:
  assumes w: "searchable (length (rackCount g)) n" and m: "m \<in> left_moves g dir n [] row col lim"
  shows "rack_move g m"
proof -
  obtain lq qs where lq: "m = \<lparr>Placements = buildLeftPlacements lq row col dir @ qs\<rparr>"
    "left_right g dir n row col lq qs"
    using m unfolding left_moves_def by auto
  then obtain k where k: "dawg_walk n (map PL_Letter lq) = Some k"
    "right_path (g_board g) (crossFor g dir) dir k row col qs"
    and sp: "spend (map pl_tile lq @ map P_Tile qs) (rackCount g) (blanks g) \<noteq> None"
    unfolding left_right_def by blast
  note dw = dawg_walk_searchable [OF w k(1)]
  have "\<forall>t \<in> set (map pl_tile lq). Tile_Letter t < length (rackCount g)"
    using dw by (simp add: pl_tile_def)
  then have "\<forall>p \<in> set (buildLeftPlacements lq row col dir). Tile_Letter (P_Tile p) < length (rackCount g)"
    unfolding buildLeftPlacements_tiles [of lq row col dir, symmetric] by simp
  with sp lq(1) right_path_letters [OF k(2)] dw show ?thesis
    by (auto simp: rack_move_def buildLeftPlacements_tiles)
qed

lemma anchor_moves_rack:
  assumes w: "searchable (length (rackCount g)) (Dawg_root (g_dawg g))"
    and m: "m \<in> anchor_moves g row col dir"
  shows "rack_move g m"
proof (cases "computeLeftLimit row col dir g = 0")
  case True
  obtain ls where "walkLeftExisting row col dir g = Some (dawg_walk (Dawg_root (g_dawg g)) ls)"
    using walkLeftExisting_spec [of g dir row col] by blast
  with m True obtain n where "dawg_walk (Dawg_root (g_dawg g)) ls = Some n"
    "m \<in> right_moves g dir n [] row col False"
    by (auto simp: anchor_moves_def split: option.splits)
  then show ?thesis using dawg_walk_searchable [OF w] right_moves_rack by blast
next
  case False
  with m show ?thesis using left_moves_rack [OF w] by (simp add: anchor_moves_def)
qed

end
