(* ===== verification/Scrabble_Complete.thy ===== *)
theory Scrabble_Complete
  imports Scrabble_Search
begin

text \<open>
  Completeness of the move generator: every legal move that can be laid from the rack is among
  the emitted moves, up to the order of its placements; and what follows for \<open>GenerateMoves\<close> and
  \<open>BestMove\<close>.
\<close>

section \<open>Cross-checks\<close>

lemma walkExisting_spec:
  "\<exists>k. walkExisting b row col dir back =
         map (\<lambda>j. sq_letter b (along dir row col (if back then - int j else int j))) [0..<k] \<and>
       (\<forall>j < k. live b (along dir row col (if back then - int j else int j))) \<and>
       \<not> live b (along dir row col (if back then - int k else int k))"
proof (induction b row col dir "back" rule: walkExisting.induct)
  case (1 b row col dir "back")
  let ?s = "if back then - 1 else (1::int)"
  let ?p = "along dir row col ?s"
  let ?at = "\<lambda>j. along dir row col (if back then - int j else int j)"
  have p: "?p = (row + fst (if back then stepBack dir else step dir), col + snd (if back then stepBack dir else step dir))"
    using along_step [of row dir col] by (cases "back") simp_all
  have at_p: "along dir (fst ?p) (snd ?p) (if back then - int j else int j) = ?at (Suc j)" for j
    by (simp add: along_along)
  show ?case
  proof (cases "live b (row, col)")
    case False
    then have "walkExisting b row col dir back = []"
      by (subst walkExisting.simps) (auto simp: live_def filled_def Let_def split_def)
    with False show ?thesis by (intro exI [of _ 0]) simp
  next
    case True
    then have eq: "walkExisting b row col dir back =
        sq_letter b (row, col) # walkExisting b (fst ?p) (snd ?p) dir back"
      by (subst walkExisting.simps) (simp add: live_def filled_def Let_def split_def p sq_letter_def)
    from True have "InBounds row col \<and> Sq_Filled (At b row col)" by (simp add: live_def filled_def)
    from "1.IH" [OF refl prod.collapse this] obtain k where
      k: "walkExisting b (fst ?p) (snd ?p) dir back = map (\<lambda>j. sq_letter b (?at (Suc j))) [0..<k]"
      "\<forall>j < k. live b (?at (Suc j))" "\<not> live b (?at (Suc k))"
      unfolding p [symmetric] at_p [symmetric] by (auto simp: p)
    have "walkExisting b row col dir back = map (\<lambda>j. sq_letter b (?at j)) [0..<Suc k]"
      unfolding eq k(1) upt_conv_Cons [OF zero_less_Suc] map_Suc_upt [symmetric] by simp
    moreover have "\<forall>j < Suc k. live b (?at j)"
      using k(2) True by (auto simp: less_Suc_eq_0_disj)
    ultimately show ?thesis using k(3) by blast
  qed
qed

lemma allows_bit: "allows c row col l \<longleftrightarrow> bit (c row col) l"
  by (simp add: allows_def push_bit_of_1 and_exp_eq_0_iff_not_bit)

lemma bit_allLettersMask:
  assumes "l < AlphabetSize lang" and "AlphabetSize lang \<le> maxAlphabetForBitset"
  shows "bit (allLettersMask lang) l"
proof (cases "AlphabetSize lang = 32")
  case False
  then have "allLettersMask lang = mask (AlphabetSize lang)"
    using assms(2)
    by (simp add: allLettersMask_def maxAlphabetForBitset_def mask_eq_exp_minus_1 push_bit_of_1)
  with assms show ?thesis by (simp add: bit_mask_iff maxAlphabetForBitset_def)
qed (use assms in \<open>simp add: allLettersMask_def maxAlphabetForBitset_def bit_not_iff\<close>)

lemma bit_crossBits:
  assumes "AlphabetSize lang \<le> maxAlphabetForBitset"
  shows "bit (crossBits d lang prefix suffix) l \<longleftrightarrow>
     l < AlphabetSize lang \<and> Contains d (prefix @ [l] @ suffix)"
proof -
  let ?f = "\<lambda>id bits. if Contains d (prefix @ [to_LetterID id] @ suffix)
                      then bits OR push_bit id 1 else (bits :: 32 word)"
  have "bit (fold ?f [0..<n] 0) l \<longleftrightarrow> l < n \<and> Contains d (prefix @ [l] @ suffix)" if "n \<le> 32" for n
    using that
  proof (induction n)
    case (Suc n)
    then show ?case
      by (auto simp: to_LetterID_def bit_or_iff push_bit_of_1 bit_exp_iff less_Suc_eq)
  qed simp
  with assms show ?thesis by (simp add: crossBits_def maxAlphabetForBitset_def)
qed

section \<open>The main word of a move\<close>

lemma after_tile_old:
  "placeable ps b \<Longrightarrow> (r, c) \<notin> sq_of ` set ps \<Longrightarrow> Sq_Tile (At (after ps b) r c) = Sq_Tile (At b r c)"
proof (induction ps arbitrary: b)
  case (Cons p ps)
  from Cons.prems obtain b' where b': "Place (P_Row p) (P_Col p) (P_Tile p) b = Ok b'" "placeable ps b'"
    using placeable_Place by blast
  then have "after (p # ps) b = after ps b'" by (simp add: after_def place_ignore_def)
  with Cons b' Place_tile [OF b'(1), of r c] show ?case by (auto simp: sq_of_def)
qed (simp add: after_def)

lemma after_tile_new:
  assumes "placeable ps b" and "p \<in> set ps"
  shows "Sq_Tile (At (after ps b) (P_Row p) (P_Col p)) = P_Tile p"
  using assms
proof (induction ps arbitrary: b)
  case (Cons q ps)
  from Cons.prems obtain b' where b': "Place (P_Row q) (P_Col q) (P_Tile q) b = Ok b'" "placeable ps b'"
    using placeable_Place by blast
  then have B: "after (q # ps) b = after ps b'" by (simp add: after_def place_ignore_def)
  show ?case
  proof (cases "p \<in> set ps")
    case True
    with Cons.IH [OF b'(2)] B show ?thesis by simp
  next
    case False
    with Cons.prems have q: "p = q" "sq_of p \<notin> sq_of ` set ps" by (auto simp: placeable_Cons)
    note q(2) [unfolded sq_of_def [of p]]
    from after_tile_old [OF b'(2) this] show ?thesis
      using B Place_tile [OF b'(1)] q(1) by simp
  qed
qed simp

definition placement_at :: "Placement list \<Rightarrow> int \<times> int \<Rightarrow> Placement" where
  "placement_at ps sq = the (find (\<lambda>p. sq_of p = sq) ps)"

lemma placement_at:
  assumes "sq \<in> sq_of ` set ps"
  shows "placement_at ps sq \<in> set ps" and "sq_of (placement_at ps sq) = sq"
proof -
  have "find (\<lambda>p. sq_of p = sq) ps \<noteq> None" using assms by (auto simp: find_None_iff)
  then obtain p where p: "find (\<lambda>p. sq_of p = sq) ps = Some p" by auto
  then have "p \<in> set ps \<and> sq_of p = sq" by (auto simp: find_Some_iff)
  with p show "placement_at ps sq \<in> set ps" "sq_of (placement_at ps sq) = sq"
    by (simp_all add: placement_at_def)
qed

text \<open>The placements of a line in the order of their squares.\<close>

definition line_ps :: "Placement list \<Rightarrow> Direction \<Rightarrow> int \<Rightarrow> int \<Rightarrow> nat list \<Rightarrow> Placement list" where
  "line_ps ps dir r c js =
     map (\<lambda>j. placement_at ps (along dir r c (int j)))
       (filter (\<lambda>j. along dir r c (int j) \<in> sq_of ` set ps) js)"

definition main_run :: "Placement list \<Rightarrow> Board \<Rightarrow> Direction \<Rightarrow> int \<Rightarrow> int \<Rightarrow> nat \<Rightarrow> bool" where
  "main_run ps b dir r c n \<longleftrightarrow> placeable ps b \<and> 2 \<le> n \<and> maximal_run (after ps b) dir r c n \<and>
     sq_of ` set ps \<subseteq> run_squares dir r c n"

lemma main_run_new:
  assumes "main_run ps b dir r c n" and "j < n"
  shows "along dir r c (int j) \<in> sq_of ` set ps \<longleftrightarrow>
           \<not> filled b (fst (along dir r c (int j))) (snd (along dir r c (int j)))"
proof -
  let ?sq = "along dir r c (int j)"
  have pl: "placeable ps b" and m: "maximal_run (after ps b) dir r c n"
    using assms by (simp_all add: main_run_def)
  have "live (after ps b) ?sq" using m assms(2) by (simp add: maximal_run_def)
  then have "filled b (fst ?sq) (snd ?sq) \<or> ?sq \<in> sq_of ` set ps"
    using after_filled [OF pl, of "fst ?sq" "snd ?sq"] by (simp add: live_def)
  moreover have "\<not> filled b (fst ?sq) (snd ?sq)" if "?sq \<in> sq_of ` set ps"
    using that pl unfolding placeable_def sq_of_def by (metis (no_types, lifting) fst_conv imageE snd_conv)
  ultimately show ?thesis by blast
qed

lemma main_run_InBounds:
  "main_run ps b dir r c n \<Longrightarrow> j < n \<Longrightarrow>
     InBounds (fst (along dir r c (int j))) (snd (along dir r c (int j)))"
  by (simp add: main_run_def maximal_run_def live_def)

lemma main_run_ends:
  assumes "main_run ps b dir r c n"
  shows "\<not> live b (along dir r c (- 1))" and "\<not> live b (along dir r c (int n))"
proof -
  have "live (after ps b) sq" if "live b sq" for sq
    using that assms after_filled [of ps b "fst sq" "snd sq"] by (simp add: main_run_def live_def)
  with assms show "\<not> live b (along dir r c (- 1))" "\<not> live b (along dir r c (int n))"
    unfolding main_run_def maximal_run_def by blast+
qed

lemma line_ps_mset:
  assumes m: "main_run ps b dir r c n"
  shows "mset (line_ps ps dir r c [0..<n]) = mset ps"
proof -
  let ?L = "line_ps ps dir r c [0..<n]"
  let ?js = "filter (\<lambda>j. along dir r c (int j) \<in> sq_of ` set ps) [0..<n]"
  have d: "distinct (map sq_of ps)" using m by (simp add: main_run_def placeable_def)
  have "map sq_of ?L = map (\<lambda>j. along dir r c (int j)) ?js"
    by (auto simp: line_ps_def placement_at)
  moreover have "distinct (map (\<lambda>j. along dir r c (int j)) ?js)"
    by (simp add: distinct_map inj_on_def)
  ultimately have dL: "distinct (map sq_of ?L)" by simp
  have "set ?L = set ps"
  proof (intro subset_antisym subsetI)
    fix p assume "p \<in> set ?L"
    then obtain j where "p = placement_at ps (along dir r c (int j))" "along dir r c (int j) \<in> sq_of ` set ps"
      unfolding line_ps_def by auto
    then show "p \<in> set ps" using placement_at(1) by simp
  next
    fix p assume p: "p \<in> set ps"
    then obtain j where j: "j < n" "sq_of p = along dir r c (int j)"
      using m unfolding main_run_def run_squares_def by blast
    let ?q = "placement_at ps (along dir r c (int j))"
    have sq: "along dir r c (int j) \<in> sq_of ` set ps" using p j(2) by force
    then have "?q = p" using placement_at [OF sq] d p j(2) by (auto simp: distinct_map inj_on_def)
    with j sq show "p \<in> set ?L" by (force simp: line_ps_def)
  qed
  then show ?thesis using d dL by (simp add: distinct_map set_eq_iff_mset_eq_distinct)
qed

lemma main_run_letter:
  assumes m: "main_run ps b dir r c n" and j: "j < n"
  shows "sq_letter (after ps b) (along dir r c (int j)) =
     (if along dir r c (int j) \<in> sq_of ` set ps
      then Tile_Letter (P_Tile (placement_at ps (along dir r c (int j))))
      else sq_letter b (along dir r c (int j)))"
proof -
  let ?sq = "along dir r c (int j)"
  have pl: "placeable ps b" using m by (simp add: main_run_def)
  show ?thesis
  proof (cases "?sq \<in> sq_of ` set ps")
    case True
    then have "?sq = (P_Row (placement_at ps ?sq), P_Col (placement_at ps ?sq))"
      using placement_at(2) [OF True] by (simp add: sq_of_def)
    with after_tile_new [OF pl placement_at(1) [OF True]] True show ?thesis
      by (simp add: sq_letter_def) (metis fst_conv snd_conv)
  next
    case False
    then show ?thesis using after_tile_old [OF pl, of "fst ?sq" "snd ?sq"] by (simp add: sq_letter_def)
  qed
qed

section \<open>The walk along the main word\<close>

lemma placement_record:
  assumes m: "main_run ps b dir r c n" and i: "i < n" and new: "along dir r c (int i) \<in> sq_of ` set ps"
  shows "\<lparr>P_Row = fst (along dir r c (int i)), P_Col = snd (along dir r c (int i)),
      P_Tile = mk_tile (sq_letter (after ps b) (along dir r c (int i)))
                 (Tile_Blank (P_Tile (placement_at ps (along dir r c (int i)))))\<rparr> =
    placement_at ps (along dir r c (int i))"
proof -
  let ?p = "placement_at ps (along dir r c (int i))"
  have "sq_letter (after ps b) (along dir r c (int i)) = Tile_Letter (P_Tile ?p)"
    using main_run_letter [OF m i] new by simp
  then have "fst (along dir r c (int i)) = P_Row ?p" "snd (along dir r c (int i)) = P_Col ?p"
    "mk_tile (sq_letter (after ps b) (along dir r c (int i))) (Tile_Blank (P_Tile ?p)) = P_Tile ?p"
    using arg_cong [OF placement_at(2) [OF new], of fst] arg_cong [OF placement_at(2) [OF new], of snd]
    by (simp_all add: sq_of_def)
  then show ?thesis by (simp only:) simp
qed

lemma right_path_line:
  assumes m: "main_run ps b dir r c n" and "i \<le> n"
    and "accepts node (map (\<lambda>j. sq_letter (after ps b) (along dir r c (int j))) [i..<n])"
    and "\<And>j. j < n \<Longrightarrow> along dir r c (int j) \<in> sq_of ` set ps \<Longrightarrow>
       allows cross (fst (along dir r c (int j))) (snd (along dir r c (int j)))
         (sq_letter (after ps b) (along dir r c (int j)))"
  shows "right_path b cross dir node (fst (along dir r c (int i))) (snd (along dir r c (int i)))
           (line_ps ps dir r c [i..<n])"
  using assms(2,3)
proof (induction "n - i" arbitrary: i node)
  case 0
  then have "i = n" by simp
  with 0 have "terminal node" "line_ps ps dir r c [i..<n] = []" by (simp_all add: line_ps_def)
  moreover have "\<not> live b (fst (along dir r c (int i)), snd (along dir r c (int i)))"
    using main_run_ends(2) [OF m] \<open>i = n\<close> by simp
  ultimately show ?case by (metis right_path.stop)
next
  case (Suc k)
  let ?at = "\<lambda>j. along dir r c (int j)"
  have i: "i < n" "k = n - Suc i" using Suc by simp_all
  have nxt: "?at (Suc i) = (fst (?at i) + fst (step dir), snd (?at i) + snd (step dir))"
    by (simp add: along_def algebra_simps)
  from Suc.prems(2) obtain m' where m': "Edge node (sq_letter (after ps b) (?at i)) = Some m'"
    "accepts m' (map (\<lambda>j. sq_letter (after ps b) (?at j)) [Suc i..<n])"
    unfolding upt_conv_Cons [OF i(1)] by (auto split: option.splits)
  have "right_path b cross dir m' (fst (?at (Suc i))) (snd (?at (Suc i))) (line_ps ps dir r c [Suc i..<n])"
    by (rule Suc.hyps(1) [OF i(2) _ m'(2)]) (use i in simp)
  note rest = this [unfolded nxt fst_conv snd_conv]
  show ?case
  proof (cases "?at i \<in> sq_of ` set ps")
    case True
    let ?p = "placement_at ps (?at i)"
    have L: "line_ps ps dir r c [i..<n] = ?p # line_ps ps dir r c [Suc i..<n]"
      using True by (simp add: line_ps_def upt_conv_Cons [OF i(1)])
    have "\<not> filled b (fst (?at i)) (snd (?at i))" using main_run_new [OF m i(1)] True by simp
    from right_path.new [OF main_run_InBounds [OF m i(1)] this m'(1) assms(4) [OF i(1) True] rest,
        of "Tile_Blank (P_Tile ?p)"]
    show ?thesis unfolding L placement_record [OF m i(1) True] .
  next
    case False
    then have L: "line_ps ps dir r c [i..<n] = line_ps ps dir r c [Suc i..<n]"
      by (simp add: line_ps_def upt_conv_Cons [OF i(1)])
    have "live b (?at i)"
      using False main_run_new [OF m i(1)] main_run_InBounds [OF m i(1)] by (simp add: live_def)
    moreover have "Edge node (Tile_Letter (Sq_Tile (At b (fst (?at i)) (snd (?at i))))) = Some m'"
      using m'(1) main_run_letter [OF m i(1)] False by (simp add: sq_letter_def)
    ultimately show ?thesis unfolding L by (intro right_path.old [OF _ _ rest]) simp_all
  qed
qed

section \<open>Cross-checks admit the letters of a legal move\<close>

lemma run_letters_sq:
  "run_letters b dir r c n = map (\<lambda>j. sq_letter b (along dir r c (int j))) [0..<n]"
  by (simp add: run_letters_def wordLetterIDs_def run_tiles_def mk_wordTile_def sq_letter_def)

lemma rev_prefix:
  "rev (map (\<lambda>j. f (- 1 - int j)) [0..<k]) = map (\<lambda>j. f (int j - int k)) [0..<k]"
  by (rule nth_equalityI) (simp_all add: rev_nth of_nat_diff algebra_simps)

lemma perpendicular_neq [simp]: "perpendicular dir \<noteq> dir"
  by (cases dir) (simp_all add: perpendicular_def)

lemma perp_line_old:
  assumes m: "main_run ps b dir r c n" and p: "p \<in> set ps" and t: "t \<noteq> 0"
  shows "along (perpendicular dir) (P_Row p) (P_Col p) t \<notin> sq_of ` set ps"
proof
  assume "along (perpendicular dir) (P_Row p) (P_Col p) t \<in> sq_of ` set ps"
  then obtain q where q: "q \<in> set ps" "sq_of q = along (perpendicular dir) (P_Row p) (P_Col p) t" by force
  have "sq_of p \<in> run_squares dir r c n" "sq_of q \<in> run_squares dir r c n"
    using m p q(1) by (auto simp: main_run_def)
  then obtain i j where "sq_of p = along dir r c (int i)" "sq_of q = along dir r c (int j)"
    by (auto simp: run_squares_mem)
  from perp_same [OF this q(2)] t show False by simp
qed

text \<open>The run through a placed tile across the line of the move: the tile between two old runs.\<close>

lemma cross_word:
  assumes m: "main_run ps b dir r c n" and p: "p \<in> set ps"
  defines "perp \<equiv> perpendicular dir"
  defines "at \<equiv> along perp (P_Row p) (P_Col p)"
  obtains k1 k2 :: nat where
    "rev (walkExisting b (fst (at (- 1))) (snd (at (- 1))) perp True) =
       map (\<lambda>j. sq_letter b (at (int j - int k1))) [0..<k1]"
    "walkExisting b (fst (at 1)) (snd (at 1)) perp False = map (\<lambda>j. sq_letter b (at (1 + int j))) [0..<k2]"
    "maximal_run (after ps b) perp (fst (at (- int k1))) (snd (at (- int k1))) (k1 + 1 + k2)"
    "run_letters (after ps b) perp (fst (at (- int k1))) (snd (at (- int k1))) (k1 + 1 + k2) =
       map (\<lambda>j. sq_letter b (at (int j - int k1))) [0..<k1] @ [Tile_Letter (P_Tile p)] @
       map (\<lambda>j. sq_letter b (at (1 + int j))) [0..<k2]"
proof -
  have pl: "placeable ps b" using m by (simp add: main_run_def)
  have shift: "along perp (fst (at s)) (snd (at s)) t = at (s + t)" for s t
    by (simp add: at_def along_along)
  obtain k1 where k1: "walkExisting b (fst (at (- 1))) (snd (at (- 1))) perp True =
      map (\<lambda>j. sq_letter b (at (- 1 - int j))) [0..<k1]"
    "\<forall>j < k1. live b (at (- 1 - int j))" "\<not> live b (at (- 1 - int k1))"
    using walkExisting_spec [of b "fst (at (- 1))" "snd (at (- 1))" perp True] by (auto simp: shift)
  obtain k2 where k2: "walkExisting b (fst (at 1)) (snd (at 1)) perp False =
      map (\<lambda>j. sq_letter b (at (1 + int j))) [0..<k2]"
    "\<forall>j < k2. live b (at (1 + int j))" "\<not> live b (at (1 + int k2))"
    using walkExisting_spec [of b "fst (at 1)" "snd (at 1)" perp False] by (auto simp: shift)
  have old: "at t \<notin> sq_of ` set ps" if "t \<noteq> 0" for t
    using perp_line_old [OF m p that] by (simp add: at_def perp_def)
  have live_old: "live (after ps b) (at t) \<longleftrightarrow> live b (at t)" if "t \<noteq> 0" for t
    using after_filled [OF pl, of "fst (at t)" "snd (at t)"] old [OF that] by (simp add: live_def)
  have at0: "at 0 = sq_of p" by (simp add: at_def sq_of_def)
  have live0: "live (after ps b) (at 0)" using live_placement [OF pl p] by (simp add: at0)
  have letter: "sq_letter (after ps b) (at t) = (if t = 0 then Tile_Letter (P_Tile p) else sq_letter b (at t))" for t
  proof (cases "t = 0")
    case True
    then show ?thesis using after_tile_new [OF pl p] by (simp add: at0 sq_letter_def sq_of_def)
  next
    case False
    then show ?thesis using after_tile_old [OF pl, of "fst (at t)" "snd (at t)"] old by (simp add: sq_letter_def)
  qed
  have "live (after ps b) (at (int j - int k1))" if j: "j < k1 + 1 + k2" for j
  proof -
    consider "j < k1" | "j = k1" | "k1 < j" by linarith
    then show ?thesis
    proof cases
      case 1
      then have "live b (at (- 1 - int (k1 - Suc j)))" by (intro k1(2) [rule_format]) simp
      moreover have "- 1 - int (k1 - Suc j) = int j - int k1" using 1 by simp
      ultimately show ?thesis using live_old 1 by simp
    next
      case 3
      then have "live b (at (1 + int (j - Suc k1)))" using j by (intro k2(2) [rule_format]) auto
      moreover have "1 + int (j - Suc k1) = int j - int k1" using 3 by simp
      ultimately show ?thesis using live_old 3 by simp
    qed (use live0 in simp)
  qed
  moreover have "\<not> live (after ps b) (at (- 1 - int k1))" "\<not> live (after ps b) (at (1 + int k2))"
    using k1(3) k2(3) live_old [of "- 1 - int k1"] live_old [of "1 + int k2"] by auto
  moreover have "- int k1 + int j = int j - int k1" "- int k1 + - 1 = - 1 - int k1"
    "- int k1 + int (k1 + 1 + k2) = 1 + int k2" for j by simp_all
  ultimately have "maximal_run (after ps b) perp (fst (at (- int k1))) (snd (at (- int k1))) (k1 + 1 + k2)"
    unfolding maximal_run_def shift by metis
  moreover have "run_letters (after ps b) perp (fst (at (- int k1))) (snd (at (- int k1))) (k1 + 1 + k2) =
       map (\<lambda>j. sq_letter b (at (int j - int k1))) [0..<k1] @ [Tile_Letter (P_Tile p)] @
       map (\<lambda>j. sq_letter b (at (1 + int j))) [0..<k2]"
    by (rule nth_equalityI)
       (auto simp: run_letters_sq shift letter nth_append of_nat_diff algebra_simps simp del: upt_Suc)
  ultimately show thesis
    using that [OF _ k2(1)] k1(1) rev_prefix [of "\<lambda>t. sq_letter b (at t)" k1] by simp
qed

lemma cross_allows:
  assumes m: "main_run ps b dir r c n" and p: "p \<in> set ps"
    and A: "AlphabetSize l \<le> maxAlphabetForBitset" and lt: "Tile_Letter (P_Tile p) < AlphabetSize l"
    and words: "\<forall>dir r c n. formed ps b dir r c n \<longrightarrow> Contains d (run_letters (after ps b) dir r c n)"
  shows "allows (computeCrossChecks b d l (perpendicular dir)) (P_Row p) (P_Col p) (Tile_Letter (P_Tile p))"
proof -
  let ?perp = "perpendicular dir"
  let ?at = "along ?perp (P_Row p) (P_Col p)"
  obtain k1 k2 where k: "rev (walkExisting b (fst (?at (- 1))) (snd (?at (- 1))) ?perp True) =
       map (\<lambda>j. sq_letter b (?at (int j - int k1))) [0..<k1]"
    "walkExisting b (fst (?at 1)) (snd (?at 1)) ?perp False = map (\<lambda>j. sq_letter b (?at (1 + int j))) [0..<k2]"
    "maximal_run (after ps b) ?perp (fst (?at (- int k1))) (snd (?at (- int k1))) (k1 + 1 + k2)"
    "run_letters (after ps b) ?perp (fst (?at (- int k1))) (snd (?at (- int k1))) (k1 + 1 + k2) =
       map (\<lambda>j. sq_letter b (?at (int j - int k1))) [0..<k1] @ [Tile_Letter (P_Tile p)] @
       map (\<lambda>j. sq_letter b (?at (1 + int j))) [0..<k2]"
    using cross_word [OF m p] by blast
  have sq: "InBounds (P_Row p) (P_Col p)" "\<not> Sq_Filled (At b (P_Row p) (P_Col p))"
    using m p by (auto simp: main_run_def placeable_def filled_def)
  have steps: "?at (- 1) = (P_Row p - fst (step ?perp), P_Col p - snd (step ?perp))"
    "?at 1 = (P_Row p + fst (step ?perp), P_Col p + snd (step ?perp))"
    by (simp_all add: along_def)
  have bits: "computeCrossChecks b d l ?perp (P_Row p) (P_Col p) =
     (if k1 = 0 \<and> k2 = 0 then allLettersMask l
      else crossBits d l (map (\<lambda>j. sq_letter b (?at (int j - int k1))) [0..<k1])
             (map (\<lambda>j. sq_letter b (?at (1 + int j))) [0..<k2]))"
    using sq k(1,2) [unfolded steps fst_conv snd_conv]
    by (simp add: computeCrossChecks_def Let_def split_def del: rev_is_Nil_conv)
  show ?thesis
  proof (cases "k1 = 0 \<and> k2 = 0")
    case True
    with bit_allLettersMask [OF lt A] show ?thesis by (simp add: allows_bit bits)
  next
    case False
    have "sq_of p \<in> run_squares ?perp (fst (?at (- int k1))) (snd (?at (- int k1))) (k1 + 1 + k2)"
      unfolding run_squares_mem by (intro exI [of _ k1]) (simp add: along_along sq_of_def)
    with p False k(3) have "formed ps b ?perp (fst (?at (- int k1))) (snd (?at (- int k1))) (k1 + 1 + k2)"
      by (auto simp: formed_def)
    with words k(4) have "Contains d (map (\<lambda>j. sq_letter b (?at (int j - int k1))) [0..<k1] @
        [Tile_Letter (P_Tile p)] @ map (\<lambda>j. sq_letter b (?at (1 + int j))) [0..<k2])" by metis
    with bit_crossBits [OF A] lt False show ?thesis unfolding allows_bit bits by auto
  qed
qed

section \<open>An anchor of the move generates it\<close>

lemma accepts_append:
  "accepts n (u @ v) \<longleftrightarrow> (\<exists>m. dawg_walk n u = Some m \<and> accepts m v)"
  by (induction u arbitrary: n) (auto split: option.splits)

lemma line_ps_append: "line_ps ps dir r c (js @ ks) = line_ps ps dir r c js @ line_ps ps dir r c ks"
  by (simp add: line_ps_def)

lemma upt_split: "k \<le> n \<Longrightarrow> [0..<n] = [0..<k] @ [k..<n]"
  using upt_add_eq_append [of 0 k "n - k"] by simp

text \<open>The tiles before the anchor are all old, and the walk over them finds their node.\<close>

lemma anchor_old_left:
  assumes m: "main_run ps b dir r c n" and gb: "g_board g = b" and k: "k < n"
    and old: "\<forall>j < k. along dir r c (int j) \<notin> sq_of ` set ps"
  shows "walkLeftExisting (fst (along dir r c (int k))) (snd (along dir r c (int k))) dir g =
     Some (dawg_walk (Dawg_root (g_dawg g))
       (map (\<lambda>j. sq_letter (after ps b) (along dir r c (int j))) [0..<k]))"
proof -
  let ?at = "\<lambda>t. along dir r c t"
  have shift: "along dir (fst (?at (int k))) (snd (?at (int k))) t = ?at (int k + t)" for t
    by (simp add: along_along)
  have liv: "live b (?at (int j))" if "j < k" for j
    using that old main_run_new [OF m, of j] main_run_InBounds [OF m, of j] k by (simp add: live_def)
  have letters: "sq_letter (after ps b) (?at (int j)) = sq_letter b (?at (int j))" if "j < k" for j
    using main_run_letter [OF m, of j] old that k by simp
  obtain i where i: "\<forall>j. 1 \<le> j \<and> j \<le> i \<longrightarrow> live b (?at (int k - int j))"
    "\<not> live b (?at (int k - int (Suc i)))"
    "walkLeftExisting (fst (?at (int k))) (snd (?at (int k))) dir g =
       Some (dawg_walk (Dawg_root (g_dawg g)) (map (\<lambda>j. sq_letter b (?at (int k + (int j - int i)))) [0..<i]))"
    using walkLeftExisting_spec [of g dir "fst (?at (int k))" "snd (?at (int k))"]
    unfolding shift gb add_uminus_conv_diff by blast
  have "\<not> i < k"
  proof
    assume "i < k"
    then have "live b (?at (int (k - Suc i)))" by (intro liv) simp
    with i(2) \<open>i < k\<close> show False by (simp add: of_nat_diff)
  qed
  moreover have "\<not> k < i"
  proof
    assume "k < i"
    then have "live b (?at (int k - int (Suc k)))" by (intro i(1) [rule_format]) simp
    with main_run_ends(1) [OF m] show False by simp
  qed
  ultimately have "i = k" by simp
  have eq: "map (\<lambda>j. sq_letter (after ps b) (?at (int j))) [0..<k] = map (\<lambda>j. sq_letter b (?at (int j))) [0..<k]"
    using letters by simp
  show ?thesis unfolding eq using i(3) \<open>i = k\<close> by simp
qed

lemma anchor_new_left:
  assumes m: "main_run ps b dir r c n" and k: "k < n"
    and new: "\<forall>j < k. along dir r c (int j) \<in> sq_of ` set ps"
  defines "lq \<equiv> map (\<lambda>j. mk_part (sq_letter (after ps b) (along dir r c (int j)))
      (Tile_Blank (P_Tile (placement_at ps (along dir r c (int j)))))) [0..<k]"
  shows "buildLeftPlacements lq (fst (along dir r c (int k))) (snd (along dir r c (int k))) dir =
     line_ps ps dir r c [0..<k]"
proof (rule nth_equalityI)
  have f: "filter (\<lambda>j. along dir r c (int j) \<in> sq_of ` set ps) [0..<k] = [0..<k]"
    using new by (simp add: filter_id_conv)
  show "length (buildLeftPlacements lq (fst (along dir r c (int k))) (snd (along dir r c (int k))) dir) =
      length (line_ps ps dir r c [0..<k])"
    by (simp add: line_ps_def f lq_def)
  fix i
  assume "i < length (buildLeftPlacements lq (fst (along dir r c (int k))) (snd (along dir r c (int k))) dir)"
  then have i: "i < k" by (simp add: lq_def)
  then show "buildLeftPlacements lq (fst (along dir r c (int k))) (snd (along dir r c (int k))) dir ! i =
      line_ps ps dir r c [0..<k] ! i"
    using placement_record [OF m, of i] k new
    by (simp add: buildLeftPlacements_nth lq_def line_ps_def f along_along pl_tile_def)
qed

lemma anchor_generates:
  assumes m: "main_run ps b dir r c n" and gb: "g_board g = b"
    and acc: "accepts (Dawg_root (g_dawg g)) (run_letters (after ps b) dir r c n)"
    and cross: "\<forall>p \<in> set ps. allows (crossFor g dir) (P_Row p) (P_Col p) (Tile_Letter (P_Tile p))"
    and sp: "spend (map P_Tile (line_ps ps dir r c [0..<n])) (rackCount g) (blanks g) \<noteq> None"
    and k: "k < n" "along dir r c (int k) \<in> sq_of ` set ps"
    and uniform: "(\<forall>j < k. along dir r c (int j) \<in> sq_of ` set ps) \<or>
                  (\<forall>j < k. along dir r c (int j) \<notin> sq_of ` set ps)"
    and noanchor: "\<forall>j < k. along dir r c (int j) \<in> sq_of ` set ps \<longrightarrow>
       \<not> anchors g (fst (along dir r c (int j))) (snd (along dir r c (int j)))"
  shows "\<lparr>Placements = line_ps ps dir r c [0..<n]\<rparr> \<in>
     anchor_moves g (fst (along dir r c (int k))) (snd (along dir r c (int k))) dir"
proof -
  let ?at = "\<lambda>t. along dir r c t" and ?root = "Dawg_root (g_dawg g)"
  let ?new = "\<lambda>j. ?at (int j) \<in> sq_of ` set ps"
  let ?row = "fst (?at (int k))" and ?col = "snd (?at (int k))"
  let ?let = "\<lambda>j. sq_letter (after ps b) (?at (int j))"
  let ?lim = "computeLeftLimit ?row ?col dir g"
  let ?qs = "line_ps ps dir r c [k..<n]"
  have split: "[0..<n] = [0..<k] @ [k..<n]" using k(1) by (intro upt_split) simp
  obtain node where node: "dawg_walk ?root (map ?let [0..<k]) = Some node" "accepts node (map ?let [k..<n])"
    using acc unfolding run_letters_sq split map_append accepts_append by blast
  have allowed: "allows (crossFor g dir) (fst (?at (int j))) (snd (?at (int j))) (?let j)"
    if "j < n" "?new j" for j
    using cross placement_at [OF that(2)] main_run_letter [OF m that(1)] that(2)
    by (metis fst_conv snd_conv sq_of_def)
  have rp: "right_path b (crossFor g dir) dir node ?row ?col ?qs"
    using right_path_line [OF m _ node(2) allowed] k(1) by simp
  have qs: "?qs \<noteq> []" using k by (simp add: line_ps_def upt_conv_Cons [OF k(1)])
  have shift: "along dir ?row ?col t = ?at (int k + t)" for t by (simp add: along_along)
  have open_new: "open_sq g (?at (int j))" if "j < k" "?new j" for j
    using that noanchor main_run_InBounds [OF m, of j] main_run_new [OF m, of j] k(1)
    by (simp add: open_sq_def gb)
  have open_left: "open_sq g (?at (int k - int j))" if "1 \<le> j" "j \<le> ?lim" for j
    using computeLeftLimit_spec(1) [of ?row ?col dir g] that by (simp add: shift)
  have closed: "\<not> open_sq g (?at (int k - int (Suc ?lim)))"
    using computeLeftLimit_spec(2) [of g dir ?row ?col] unfolding shift diff_conv_add_uminus .
  show ?thesis
  proof (cases "?lim = 0")
    case True
    have old: "\<forall>j < k. \<not> ?new j"
    proof (cases "k = 0")
      case False
      then have "\<not> ?new (k - 1)"
        using closed True open_new [of "k - 1"] by (auto simp: of_nat_diff)
      with False uniform show ?thesis by (metis diff_less gr0I zero_less_one)
    qed simp
    then have "line_ps ps dir r c [0..<n] = ?qs" unfolding split line_ps_append by (simp add: line_ps_def)
    with rp qs sp gb have "\<lparr>Placements = line_ps ps dir r c [0..<n]\<rparr> \<in> right_moves g dir node [] ?row ?col False"
      by (auto simp: right_moves_def)
    moreover have "walkLeftExisting ?row ?col dir g = Some (Some node)"
      using anchor_old_left [OF m gb k(1) old] node(1) by simp
    ultimately show ?thesis using True by (simp add: anchor_moves_def)
  next
    case False
    have new: "\<forall>j < k. ?new j"
    proof (cases "k = 0")
      case kpos: False
      then have "open_sq g (?at (int (k - 1)))" using open_left [of 1] False by (simp add: of_nat_diff)
      then have "?new (k - 1)" using main_run_new [OF m, of "k - 1"] k(1) kpos by (simp add: open_sq_def gb)
      with kpos uniform show ?thesis by (metis diff_less gr0I zero_less_one)
    qed simp
    have "k \<le> ?lim"
    proof (rule ccontr)
      assume "\<not> k \<le> ?lim"
      then have lt: "k - Suc ?lim < k" by simp
      have "open_sq g (?at (int (k - Suc ?lim)))" by (rule open_new [OF lt new [rule_format, OF lt]])
      with closed \<open>\<not> k \<le> ?lim\<close> show False by (simp add: of_nat_diff)
    qed
    define lq where "lq = map (\<lambda>j. mk_part (?let j) (Tile_Blank (P_Tile (placement_at ps (?at (int j)))))) [0..<k]"
    have build: "buildLeftPlacements lq ?row ?col dir = line_ps ps dir r c [0..<k]"
      unfolding lq_def by (rule anchor_new_left [OF m k(1) new])
    have "map pl_tile lq = map P_Tile (line_ps ps dir r c [0..<k])"
      by (simp add: build [symmetric] buildLeftPlacements_tiles)
    then have "spend (map pl_tile lq @ map P_Tile ?qs) (rackCount g) (blanks g) \<noteq> None"
      using sp unfolding split line_ps_append by simp
    moreover have "dawg_walk ?root (map PL_Letter lq) = Some node"
      using node(1) by (simp add: lq_def comp_def)
    ultimately have "left_right g dir ?root ?row ?col lq ?qs"
      unfolding left_right_def using rp qs gb by blast
    moreover have "length lq \<le> ?lim" using \<open>k \<le> ?lim\<close> by (simp add: lq_def)
    ultimately have "\<lparr>Placements = buildLeftPlacements lq ?row ?col dir @ ?qs\<rparr> \<in>
        left_moves g dir ?root [] ?row ?col ?lim"
      unfolding left_moves_def by force
    then show ?thesis
      unfolding build line_ps_append [symmetric] split [symmetric]
      using False by (simp add: anchor_moves_def)
  qed
qed

section \<open>Every legal move has an anchor\<close>

lemma adjacent_change:
  assumes "i < n" "j < n" "P i" "\<not> P j"
  shows "\<exists>k. Suc k < n \<and> P k \<noteq> P (Suc k)"
proof (rule ccontr)
  assume "\<nexists>k. Suc k < n \<and> P k \<noteq> P (Suc k)"
  then have step: "P k = P (Suc k)" if "Suc k < n" for k using that by blast
  have "P k = P 0" if "k < n" for k
    using that by (induction k) (use step in auto)
  with assms show False by metis
qed

lemma hasFilledNeighbor_along:
  assumes "live b (along dir row col 1) \<or> live b (along dir row col (- 1))"
  shows "hasFilledNeighbor b row col"
  using assms by (cases dir) (auto simp: hasFilledNeighbor_def along_simps live_def filled_def)

lemma run_change_anchor:
  assumes sq: "\<And>j. j < n \<Longrightarrow> InBounds (fst (along dir r c (int j))) (snd (along dir r c (int j)))"
    and k: "Suc k < n"
    and ch: "filled b (fst (along dir r c (int k))) (snd (along dir r c (int k))) \<noteq>
             filled b (fst (along dir r c (int (Suc k)))) (snd (along dir r c (int (Suc k))))"
  shows "\<exists>j \<in> {k, Suc k}. \<not> filled b (fst (along dir r c (int j))) (snd (along dir r c (int j))) \<and>
     buildAnchorGrid b (fst (along dir r c (int j))) (snd (along dir r c (int j)))"
proof -
  let ?at = "\<lambda>j. along dir r c (int j)"
  let ?f = "\<lambda>j. filled b (fst (?at j)) (snd (?at j))"
  have nb: "along dir (fst (?at j)) (snd (?at j)) t = along dir r c (int j + t)" for j t
    by (simp add: along_along)
  have anchor: "buildAnchorGrid b (fst (?at j)) (snd (?at j))"
    if "j < n" "\<not> ?f j" "i < n" "?f i" "i = Suc j \<or> j = Suc i" for i j
  proof -
    have "live b (?at i)" using that sq by (simp add: live_def)
    then have "hasFilledNeighbor b (fst (?at j)) (snd (?at j))"
      using that(5) by (intro hasFilledNeighbor_along [of _ dir]) (auto simp: nb add.commute)
    with that sq show ?thesis by (simp add: buildAnchorGrid_def filled_def)
  qed
  show ?thesis
  proof (cases "?f k")
    case True
    with ch anchor [of "Suc k" k] k show ?thesis by simp
  next
    case False
    with ch anchor [of k "Suc k"] k show ?thesis by simp
  qed
qed

lemma formed_change:
  assumes pl: "placeable ps b" and fo: "formed ps b d r c n" and ex: "\<not> run_squares d r c n \<subseteq> sq_of ` set ps"
  shows "\<exists>j < n. along d r c (int j) \<in> sq_of ` set ps \<and>
     buildAnchorGrid b (fst (along d r c (int j))) (snd (along d r c (int j)))"
proof -
  let ?at = "\<lambda>j. along d r c (int j)"
  let ?f = "\<lambda>j. filled b (fst (?at j)) (snd (?at j))"
  have liv: "live (after ps b) (?at j)" if "j < n" for j
    using fo that by (simp add: formed_def maximal_run_def)
  have new: "?at j \<in> sq_of ` set ps \<longleftrightarrow> \<not> ?f j" if "j < n" for j
  proof -
    have "?f j \<or> ?at j \<in> sq_of ` set ps"
      using liv [OF that] after_filled [OF pl, of "fst (?at j)" "snd (?at j)"] by (simp add: live_def)
    moreover have "\<not> ?f j" if "?at j \<in> sq_of ` set ps"
      using that pl unfolding placeable_def sq_of_def by (metis (no_types, lifting) fst_conv imageE snd_conv)
    ultimately show ?thesis by blast
  qed
  obtain i where i: "i < n" "\<not> ?f i" using fo new by (force simp: formed_def run_squares_mem)
  obtain j where j: "j < n" "?f j" using ex new by (auto simp: run_squares_mem subset_iff)
  obtain k where k: "Suc k < n" "?f k \<noteq> ?f (Suc k)"
    using adjacent_change [of j n i ?f] i j by blast
  have "InBounds (fst (?at j)) (snd (?at j))" if "j < n" for j using liv [OF that] by (simp add: live_def)
  from run_change_anchor [OF this k] obtain a where a: "a \<in> {k, Suc k}" "\<not> ?f a"
    "buildAnchorGrid b (fst (?at a)) (snd (?at a))" by blast
  moreover have "a < n" using a(1) k(1) by auto
  ultimately show ?thesis using new by blast
qed

lemma main_run_of_legal:
  assumes "legal_move ps b contains"
  obtains dir r c n where "main_run ps b dir r c n" "formed ps b dir r c n"
proof -
  let ?m = "\<lparr>Placements = ps\<rparr>"
  have l: "ps \<noteq> []" "placeable ps b" "on_line ps" "no_gap ps b" using assms by (simp_all add: legal_move_def)
  obtain dir where dir: "lineDirection ?m = Ok dir" using lineDirection_on_line [of ?m] l by auto
  obtain d0 r0 c0 n0 where "formed ps b d0 r0 c0 n0" using assms by (auto simp: legal_move_def)
  then obtain d r c n where "formed ps b d r c n" "sq_of ` set ps \<subseteq> run_squares d r c n"
    using covering_run [OF dir, of b d0 r0 c0 n0] l by auto
  moreover from this have "main_run ps b d r c n" using l(2) by (simp add: main_run_def formed_def)
  ultimately show thesis using that by blast
qed

lemma legal_anchor:
  assumes leg: "legal_move ps b contains" and m: "main_run ps b dir r c n" and ne: "\<exists>r c. filled b r c"
  shows "\<exists>k < n. along dir r c (int k) \<in> sq_of ` set ps \<and>
     buildAnchorGrid b (fst (along dir r c (int k))) (snd (along dir r c (int k)))"
proof -
  have pl: "placeable ps b" using m by (simp add: main_run_def)
  have "\<not> (\<forall>r c. \<not> filled b r c)" using ne by blast
  with leg obtain d0 r0 c0 n0 where "formed ps b d0 r0 c0 n0" "\<not> run_squares d0 r0 c0 n0 \<subseteq> sq_of ` set ps"
    unfolding legal_move_def by (simp only: if_False) blast
  from formed_change [OF pl this] obtain sq where sq: "sq \<in> sq_of ` set ps"
    "buildAnchorGrid b (fst sq) (snd sq)" by blast
  then have "sq \<in> run_squares dir r c n" using m by (auto simp: main_run_def)
  then obtain i where i: "i < n" "sq = along dir r c (int i)" by (auto simp: run_squares_mem)
  show ?thesis using i(1) sq unfolding i(2) by blast
qed

text \<open>Before the first anchor of the word the squares are all new or all old.\<close>

lemma first_anchor:
  assumes m: "main_run ps b dir r c n"
    and ex: "\<exists>k < n. along dir r c (int k) \<in> sq_of ` set ps \<and>
       buildAnchorGrid b (fst (along dir r c (int k))) (snd (along dir r c (int k)))"
  obtains k where "k < n" "along dir r c (int k) \<in> sq_of ` set ps"
    "buildAnchorGrid b (fst (along dir r c (int k))) (snd (along dir r c (int k)))"
    "(\<forall>j < k. along dir r c (int j) \<in> sq_of ` set ps) \<or> (\<forall>j < k. along dir r c (int j) \<notin> sq_of ` set ps)"
    "\<forall>j < k. along dir r c (int j) \<in> sq_of ` set ps \<longrightarrow>
       \<not> buildAnchorGrid b (fst (along dir r c (int j))) (snd (along dir r c (int j)))"
proof -
  let ?at = "\<lambda>j. along dir r c (int j)"
  let ?new = "\<lambda>j. ?at j \<in> sq_of ` set ps"
  let ?A = "\<lambda>k. k < n \<and> ?new k \<and> buildAnchorGrid b (fst (?at k)) (snd (?at k))"
  define k where "k = (LEAST k. ?A k)"
  have k: "?A k" unfolding k_def by (rule LeastI_ex) (use ex in blast)
  have least: "\<not> ?A j" if "j < k" for j using not_less_Least that unfolding k_def by blast
  have new: "?new j \<longleftrightarrow> \<not> filled b (fst (?at j)) (snd (?at j))" if "j < k" for j
    using main_run_new [OF m, of j] that k by simp
  have "(\<forall>j < k. ?new j) \<or> (\<forall>j < k. \<not> ?new j)"
  proof (rule ccontr)
    assume "\<not> ?thesis"
    then obtain i j where "i < k" "j < k" "?new i" "\<not> ?new j" by blast
    from adjacent_change [of i k j ?new, OF this] obtain a where a: "Suc a < k" "?new a \<noteq> ?new (Suc a)" by blast
    then have ch: "filled b (fst (?at a)) (snd (?at a)) \<noteq> filled b (fst (?at (Suc a))) (snd (?at (Suc a)))"
      using new [of a] new [of "Suc a"] by (meson Suc_lessD)
    have "InBounds (fst (?at j)) (snd (?at j))" if "j < k" for j
      using main_run_InBounds [OF m, of j] that k by simp
    from run_change_anchor [OF this a(1) ch] obtain j where "j \<in> {a, Suc a}"
      "\<not> filled b (fst (?at j)) (snd (?at j))" "buildAnchorGrid b (fst (?at j)) (snd (?at j))" by blast
    moreover from this(1) a(1) have "j < k" by auto
    ultimately show False using least [of j] new [of j] k by simp
  qed
  moreover have "\<forall>j < k. ?new j \<longrightarrow> \<not> buildAnchorGrid b (fst (?at j)) (snd (?at j))"
    using least k by (meson less_trans)
  ultimately show thesis using that [of k] k by blast
qed

section \<open>A dictionary built for a language can be searched\<close>

lemma line_word_less: "wf_lang l \<Longrightarrow> line_word l raw = Some ids \<Longrightarrow> \<forall>i \<in> set ids. i < AlphabetSize l"
  using normalize_runes_range [of l]
  by (auto simp: line_word.simps NormalizeWord_def Let_def list_all_iff split: if_splits res.splits)

lemma letters_below_insert:
  "letters_below A n \<Longrightarrow> \<forall>i \<in> set w. i < A \<Longrightarrow> letters_below A (fst (dawg_insert w n))"
proof (induction w arbitrary: n)
  case Nil
  then show ?case by (cases n) simp
next
  case (Cons i w)
  have new: "letters_below A (fst (dawg_insert w (DAWGNode [] False)))" using Cons by simp
  show ?case
  proof (cases "Edge n i")
    case None
    then show ?thesis
      using new Cons.prems letters_below_iff [of A n]
      by (simp add: split_def Let_def letters_below_iff [of A "addEdge _ _ _"] set_edges_addEdge)
  next
    case (Some m)
    have "letters_below A m"
      using Edge_pos_Some [OF Some] Cons.prems(1) letters_below_iff [of A n] by (metis nth_mem snd_conv)
    then have "letters_below A (fst (dawg_insert w m))" using Cons by simp
    moreover have "set (edges (setTarget n i t)) \<subseteq> insert (i, t) (set (edges n))" for t
      using set_update_subset_insert [of "edges n" "edge_pos n i" "(i, t)"]
      by (simp add: setTarget_def Let_def)
    ultimately have "letters_below A (setTarget n i (fst (dawg_insert w m)))"
      using Cons.prems letters_below_iff [of A n] unfolding letters_below_iff [of A "setTarget _ _ _"]
      by fastforce
    with Some show ?thesis by (simp add: split_def Let_def)
  qed
qed

lemma BuildDAWG_letters:
  assumes l: "wf_lang l" and ok: "BuildDAWG l r = Ok d"
  shows "letters_below (AlphabetSize l) (Dawg_root d)"
proof -
  have line: "letters_below (AlphabetSize l) (Dawg_root (build_line raw d)) \<and> Dawg_lang (build_line raw d) = l"
    if "letters_below (AlphabetSize l) (Dawg_root d) \<and> Dawg_lang d = l" for raw d
    using that letters_below_insert line_word_less [OF l]
    by (auto simp: build_line_word split_def Let_def split: option.splits)
  have "letters_below (AlphabetSize l) (Dawg_root (fold build_line lines d))"
    if "letters_below (AlphabetSize l) (Dawg_root d) \<and> Dawg_lang d = l" for lines d
    using that by (induction lines arbitrary: d) (use line in auto)
  from this [of "\<lparr>Dawg_lang = l, Dawg_root = DAWGNode [] False, Dawg_size = 0\<rparr>" "fst r"] ok
  show ?thesis by (simp add: BuildDAWG_def Let_def split: option.splits)
qed

section \<open>GenerateMoves\<close>

definition gen_ready :: "Board \<Rightarrow> Rack \<Rightarrow> DAWG \<Rightarrow> Language \<Rightarrow> bool" where
  "gen_ready b rack d l \<longleftrightarrow> wf_lang l \<and> AlphabetSize l \<le> maxAlphabetForBitset \<and> wf_board l b \<and>
     wf_dawg d \<and> letters_below (AlphabetSize l) (Dawg_root d) \<and> list_all (hand_tile l) (Rack_tiles rack)"

lemma scored_loop_spec:
  assumes "\<forall>m \<in> set ms. Validate m (g_board g) (Contains (g_dawg g)) (g_lang g) \<noteq> Panic"
  shows "\<exists>out. scored_loop g ms = Some out \<and>
     set out = {\<lparr>SM_Move = m, SM_Result = res\<rparr> | m res. m \<in> set ms \<and>
       Validate m (g_board g) (Contains (g_dawg g)) (g_lang g) = Ok res}"
  using assms
proof (induction ms)
  case (Cons m ms)
  then obtain out where "scored_loop g ms = Some out"
    "set out = {\<lparr>SM_Move = m, SM_Result = res\<rparr> | m res. m \<in> set ms \<and>
       Validate m (g_board g) (Contains (g_dawg g)) (g_lang g) = Ok res}" by auto
  with Cons.prems show ?case
    by (cases "Validate m (g_board g) (Contains (g_dawg g)) (g_lang g)") auto
qed simp

text \<open>The generator state with which the search runs.\<close>

definition search_state :: "Board \<Rightarrow> Rack \<Rightarrow> DAWG \<Rightarrow> Language \<Rightarrow> genState \<Rightarrow> bool" where
  "search_state b rack d l g \<longleftrightarrow> g_board g = b \<and> g_dawg g = d \<and> g_lang g = l \<and>
     length (rackCount g) = AlphabetSize l \<and>
     counts_rack (rackCount g) (blanks g) (mset (Rack_tiles rack)) \<and>
     (\<forall>dir. crossFor g dir = computeCrossChecks b d l (perpendicular dir)) \<and>
     anchors g = (if IsEmptyBoard b then (\<lambda>_ _. False) else buildAnchorGrid b)"

definition all_moves :: "genState \<Rightarrow> Move set" where
  "all_moves g =
     (if IsEmptyBoard (g_board g) then both_moves g CenterRow CenterCol
      else \<Union>(row, col) \<in> {(row, col). InBounds row col \<and> anchors g row col}. both_moves g row col)"

lemma search_state_rack:
  assumes r: "gen_ready b rack d l" and g: "search_state b rack d l g" and m: "rack_move g m"
  shows "\<forall>p \<in> set (Placements m). wf_tile l (P_Tile p)"
    and "mset (map rack_want (map P_Tile (Placements m))) \<subseteq># mset (Rack_tiles rack)"
proof -
  have c: "counts_rack (rackCount g) (blanks g) (mset (Rack_tiles rack))" "length (rackCount g) = AlphabetSize l"
    using g by (simp_all add: search_state_def)
  show "\<forall>p \<in> set (Placements m). wf_tile l (P_Tile p)"
    using m c(2) by (simp add: rack_move_def wf_tile_def)
  have "\<forall>t \<in> set (map P_Tile (Placements m)). Tile_Letter t < length (rackCount g)"
    using m by (simp add: rack_move_def)
  from spend_mset [OF c(1) this] m show "mset (map rack_want (map P_Tile (Placements m))) \<subseteq># mset (Rack_tiles rack)"
    by (simp add: rack_move_def)
qed

lemma all_moves_rack:
  assumes r: "gen_ready b rack d l" and g: "search_state b rack d l g" and m: "m \<in> all_moves g"
  shows "rack_move g m"
proof -
  have w: "searchable (length (rackCount g)) (Dawg_root (g_dawg g))"
    using r g by (simp add: gen_ready_def search_state_def searchable_def wf_dawg_def)
  obtain row col where "m \<in> both_moves g row col"
    using m by (auto simp: all_moves_def split: if_splits)
  then show ?thesis using anchor_moves_rack [OF w] by (auto simp: both_moves_def)
qed

lemma InBounds_product:
  "set (List.product [0..BoardSize - 1] [0..BoardSize - 1]) = {(row, col). InBounds row col}"
  by (auto simp: InBounds_def)

lemma GenerateMoves_spec:
  assumes r: "gen_ready b rack d l"
  obtains g ms where "search_state b rack d l g" "GenerateMoves b rack d l = Some ms"
    "set ms = {\<lparr>SM_Move = m, SM_Result = res\<rparr> | m res. m \<in> all_moves g \<and>
       Validate m b (Contains d) l = Ok res}"
proof -
  have hand: "list_all (hand_tile l) (Rack_tiles rack)" using r by (simp add: gen_ready_def)
  obtain g0 where g0: "newGenState b rack d l = Some g0" "g_board g0 = b" "g_dawg g0 = d" "g_lang g0 = l"
    "emitted g0 = []" "anchors g0 = (\<lambda>_ _. False)" "length (rackCount g0) = AlphabetSize l"
    "counts_rack (rackCount g0) (blanks g0) (mset (Rack_tiles rack))"
    using newGenState_counts [OF hand, of b d] by metis
  define g1 where "g1 = g0\<lparr>crossH := computeCrossChecks b d l Vertical,
                         crossV := computeCrossChecks b d l Horizontal\<rparr>"
  define g where "g = (if IsEmptyBoard b then g1 else g1\<lparr>anchors := buildAnchorGrid b\<rparr>)"
  have em: "emitted g1 = []" "emitted g = []" using g0 by (simp_all add: g_def g1_def)
  have st: "search_state b rack d l g"
    using g0 by (auto simp: search_state_def g_def g1_def crossFor_def perpendicular_def)
  have w: "searchable (length (rackCount g)) (Dawg_root (g_dawg g))"
    using r st by (simp add: gen_ready_def search_state_def searchable_def wf_dawg_def)
  have board: "g_board g = b" "g_dawg g = d" "g_lang g = l" using st by (simp_all add: search_state_def)
  have "\<exists>X. GenerateMoves b rack d l = scored (g\<lparr>emitted := X\<rparr>) \<and> set X = all_moves g"
  proof (cases "IsEmptyBoard b")
    case True
    then have "g = g1" by (simp add: g_def)
    have "emits (\<lambda>g. case runFromAnchor CenterRow CenterCol Horizontal g of None \<Rightarrow> None
        | Some g \<Rightarrow> runFromAnchor CenterRow CenterCol Vertical g) g (all_moves g)"
      using emits_seq [OF runFromAnchor_emits [OF w] runFromAnchor_emits [OF w]] True board
      by (simp add: all_moves_def both_moves_def)
    then obtain X where "(case runFromAnchor CenterRow CenterCol Horizontal g of None \<Rightarrow> None
        | Some g \<Rightarrow> runFromAnchor CenterRow CenterCol Vertical g) = Some (g\<lparr>emitted := emitted g @ X\<rparr>)"
      "set X = all_moves g" by (rule emitsE)
    with True g0 em \<open>g = g1\<close> show ?thesis
      by (intro exI [of _ X]) (auto simp: GenerateMoves_def g1_def [symmetric] Let_def split: option.splits)
  next
    case False
    then have "g = g1\<lparr>anchors := buildAnchorGrid b\<rparr>" by (simp add: g_def)
    let ?sqs = "List.product [0..BoardSize - 1] [0..BoardSize - 1]"
    have "(\<Union>(row, col) \<in> set ?sqs. if anchors g row col then both_moves g row col else {}) = all_moves g"
      unfolding InBounds_product using False by (auto simp: all_moves_def board split: if_splits)
    with anchor_loop_emits [OF w, of ?sqs] have "emits (anchor_loop ?sqs) g (all_moves g)" by simp
    then obtain X where "anchor_loop ?sqs g = Some (g\<lparr>emitted := emitted g @ X\<rparr>)" "set X = all_moves g"
      by (rule emitsE)
    with False g0 em \<open>g = g1\<lparr>anchors := buildAnchorGrid b\<rparr>\<close> show ?thesis
      by (intro exI [of _ X]) (auto simp: GenerateMoves_def g1_def [symmetric] Let_def split: option.splits)
  qed
  then obtain X where X: "GenerateMoves b rack d l = scored (g\<lparr>emitted := X\<rparr>)" "set X = all_moves g" by blast
  have "\<forall>m \<in> set X. Validate m b (Contains d) l \<noteq> Panic"
    using Validate_not_Panic [of l b] r search_state_rack(1) [OF r st all_moves_rack [OF r st]] X(2)
    by (simp add: gen_ready_def)
  then obtain out where "scored_loop (g\<lparr>emitted := X\<rparr>) X = Some out"
    "set out = {\<lparr>SM_Move = m, SM_Result = res\<rparr> | m res. m \<in> set X \<and> Validate m b (Contains d) l = Ok res}"
    using scored_loop_spec [of X "g\<lparr>emitted := X\<rparr>"] board by auto
  with X st that show thesis by (simp add: scored_def)
qed

lemma lineDirection_eq:
  assumes "ps \<noteq> []"
  shows "lineDirection \<lparr>Placements = ps\<rparr> =
     (if length ps = 1 then Ok Horizontal
      else if \<forall>p \<in> set ps. \<forall>q \<in> set ps. P_Row p = P_Row q then Ok Horizontal
      else if \<forall>p \<in> set ps. \<forall>q \<in> set ps. P_Col p = P_Col q then Ok Vertical
      else Err ErrNotOnLine)"
proof -
  obtain x xs where ps: "ps = x # xs" using assms by (cases ps) auto
  have same: "list_all (\<lambda>p. f p = f x) xs \<longleftrightarrow> (\<forall>p \<in> set ps. \<forall>q \<in> set ps. f p = f q)"
    for f :: "Placement \<Rightarrow> int"
    unfolding ps list_all_iff by (metis list.set_intros(1) set_ConsD list.set_intros(2))
  show ?thesis unfolding lineDirection_def same [symmetric] by (simp add: ps Let_def)
qed

lemma lineDirection_mset:
  assumes "mset ps = mset qs" and "ps \<noteq> []"
  shows "lineDirection \<lparr>Placements = ps\<rparr> = lineDirection \<lparr>Placements = qs\<rparr>"
proof -
  have qs: "length ps = length qs" "set ps = set qs" using assms mset_eq_length mset_eq_setD by blast+
  have ne: "qs \<noteq> []" using assms by auto
  show ?thesis unfolding lineDirection_eq [OF assms(2)] lineDirection_eq [OF ne] qs ..
qed

lemma sortPlacements_mset:
  assumes "placeable ps b" and "mset ps = mset qs"
  shows "sortPlacements ps dir = sortPlacements qs dir"
proof -
  let ?key = "\<lambda>p. if dir = Horizontal then (P_Col p, P_Row p) else (P_Row p, P_Col p)"
  have inj: "inj_on sq_of (set ps)" using assms(1) by (simp add: placeable_def distinct_map)
  have "inj_on ?key (set ps)"
  proof (rule inj_onI)
    fix p q assume "p \<in> set ps" "q \<in> set ps" "?key p = ?key q"
    then show "p = q" using inj by (auto simp: inj_on_def sq_of_def split: if_splits)
  qed
  then show ?thesis
    unfolding sortPlacements_def
    by (rule sort_key_eq_sort_key [OF assms(2)])
qed

text \<open>The order of its placements does not change the verdict on a move or its score.\<close>

lemma legal_move_mset:
  assumes "mset ps = mset qs" and "placeable ps b"
  shows "legal_move ps b contains = legal_move qs b contains"
proof -
  have eq: "set ps = set qs" "length ps = length qs" "placeable ps b = placeable qs b" "after ps = after qs"
    using assms mset_eq_setD mset_eq_length placeable_mset after_mset by blast+
  then have "formed ps b = formed qs b" "no_gap ps b = no_gap qs b" "on_line ps = on_line qs"
    "ps = [] \<longleftrightarrow> qs = []"
    by (auto simp: formed_def [abs_def] no_gap_def on_line_def)
  with eq show ?thesis by (simp only: legal_move_def)
qed

lemma Validate_mset:
  assumes l: "wf_lang l" "wf_board l b" "\<forall>p \<in> set ps. wf_tile l (P_Tile p)" and perm: "mset ps = mset qs"
    and ok: "Validate \<lparr>Placements = ps\<rparr> b contains l = Ok res"
  shows "Validate \<lparr>Placements = qs\<rparr> b contains l = Ok res"
proof -
  have set_eq: "set ps = set qs" and len: "length ps = length qs"
    using perm mset_eq_setD mset_eq_length by blast+
  obtain dir where c: "placeable ps b" "ps \<noteq> []" "lineDirection \<lparr>Placements = ps\<rparr> = Ok dir"
    "res = move_result \<lparr>Placements = ps\<rparr> b dir l"
    using Validate_OkE [of l b "\<lparr>Placements = ps\<rparr>" contains res] l ok by auto
  have "legal_move qs b contains"
    using Validate_legal [of l b "\<lparr>Placements = ps\<rparr>" contains] l ok legal_move_mset [OF perm c(1)] by auto
  then obtain res' where ok': "Validate \<lparr>Placements = qs\<rparr> b contains l = Ok res'"
    using Validate_legal [of l b "\<lparr>Placements = qs\<rparr>" contains] l set_eq by auto
  obtain dir' where c': "lineDirection \<lparr>Placements = qs\<rparr> = Ok dir'"
    "res' = move_result \<lparr>Placements = qs\<rparr> b dir' l"
    using Validate_OkE [of l b "\<lparr>Placements = qs\<rparr>" contains res'] l set_eq ok' by auto
  have "dir' = dir" using c(3) c'(1) lineDirection_mset [OF perm c(2)] by simp
  then have "res' = res"
    unfolding c'(2) c(4) move_result_def
    using set_eq len after_mset [OF c(1) perm] sortPlacements_mset [OF c(1) perm] by simp
  with ok' show ?thesis by simp
qed

section \<open>Soundness and completeness\<close>

lemma GenerateMoves_sound:
  assumes r: "gen_ready b rack d l" and g: "GenerateMoves b rack d l = Some ms" and m: "m \<in> set ms"
  shows "Validate (SM_Move m) b (Contains d) l = Ok (SM_Result m)"
    and "legal_move (Placements (SM_Move m)) b (Contains d)"
    and "\<forall>p \<in> set (Placements (SM_Move m)). wf_tile l (P_Tile p)"
    and "mset (map rack_want (map P_Tile (Placements (SM_Move m)))) \<subseteq># mset (Rack_tiles rack)"
proof -
  from r obtain st ms' where st: "search_state b rack d l st" "GenerateMoves b rack d l = Some ms'"
    "set ms' = {\<lparr>SM_Move = m, SM_Result = res\<rparr> | m res. m \<in> all_moves st \<and>
       Validate m b (Contains d) l = Ok res}" by (rule GenerateMoves_spec)
  with g m obtain mv res where mv: "m = \<lparr>SM_Move = mv, SM_Result = res\<rparr>" "mv \<in> all_moves st"
    "Validate mv b (Contains d) l = Ok res" by auto
  show v: "Validate (SM_Move m) b (Contains d) l = Ok (SM_Result m)" using mv by simp
  note rm = search_state_rack [OF r st(1) all_moves_rack [OF r st(1) mv(2)]]
  show wf: "\<forall>p \<in> set (Placements (SM_Move m)). wf_tile l (P_Tile p)" using rm(1) mv(1) by simp
  show "mset (map rack_want (map P_Tile (Placements (SM_Move m)))) \<subseteq># mset (Rack_tiles rack)"
    using rm(2) mv(1) by simp
  show "legal_move (Placements (SM_Move m)) b (Contains d)"
    using Validate_legal [OF _ _ wf, of b "Contains d"] v r by (auto simp: gen_ready_def)
qed

lemma legal_in_all_moves:
  assumes r: "gen_ready b rack d l" and g: "search_state b rack d l g"
    and leg: "legal_move ps b (Contains d)" and wf: "\<forall>p \<in> set ps. wf_tile l (P_Tile p)"
    and rack: "mset (map rack_want (map P_Tile ps)) \<subseteq># mset (Rack_tiles rack)"
  shows "\<exists>qs. mset qs = mset ps \<and> \<lparr>Placements = qs\<rparr> \<in> all_moves g"
proof -
  obtain dir R C n where m: "main_run ps b dir R C n" and fo: "formed ps b dir R C n"
    using main_run_of_legal [OF leg] by blast
  let ?at = "\<lambda>j. along dir R C (int j)"
  let ?qs = "line_ps ps dir R C [0..<n]"
  have perm: "mset ?qs = mset ps" by (rule line_ps_mset [OF m])
  have words: "\<forall>dir r c n. formed ps b dir r c n \<longrightarrow> Contains d (run_letters (after ps b) dir r c n)"
    using leg by (simp add: legal_move_def)
  have st: "g_board g = b" "g_dawg g = d" "length (rackCount g) = AlphabetSize l"
    "counts_rack (rackCount g) (blanks g) (mset (Rack_tiles rack))"
    "crossFor g dir = computeCrossChecks b d l (perpendicular dir)"
    "anchors g = (if IsEmptyBoard b then (\<lambda>_ _. False) else buildAnchorGrid b)"
    using g by (simp_all add: search_state_def)
  have A: "AlphabetSize l \<le> maxAlphabetForBitset" and wb: "wf_board l b" and wd: "wf_dawg d"
    using r by (simp_all add: gen_ready_def)
  have acc: "accepts (Dawg_root (g_dawg g)) (run_letters (after ps b) dir R C n)"
    using words fo Contains_iff [OF wd] st(2) by (simp add: dawg_words_def)
  have cross: "\<forall>p \<in> set ps. allows (crossFor g dir) (P_Row p) (P_Col p) (Tile_Letter (P_Tile p))"
    using cross_allows [OF m _ A _ words] wf st(5) by (simp add: wf_tile_def)
  have "\<forall>t \<in> set (map P_Tile ?qs). Tile_Letter t < length (rackCount g)"
    using wf mset_eq_setD [OF perm] st(3) by (simp add: wf_tile_def)
  note cnt = spend_mset [OF st(4) this]
  have "mset (map rack_want (map P_Tile ?qs)) = mset (map rack_want (map P_Tile ps))"
    unfolding mset_map perm ..
  with rack have sp: "spend (map P_Tile ?qs) (rackCount g) (blanks g) \<noteq> None"
    unfolding cnt by (simp only:)
  note gen = anchor_generates [OF m st(1) acc cross sp]
  show ?thesis
  proof (cases "IsEmptyBoard b")
    case True
    then have empty: "\<forall>r c. \<not> filled b r c" using wf_board_empty_iff [OF wb] by simp
    then have "(CenterRow, CenterCol) \<in> sq_of ` set ps" using leg by (simp add: legal_move_def)
    moreover from this have "(CenterRow, CenterCol) \<in> run_squares dir R C n" using m by (auto simp: main_run_def)
    ultimately obtain k where k: "k < n" "?at k = (CenterRow, CenterCol)" "?at k \<in> sq_of ` set ps"
      unfolding run_squares_mem by metis
    have "\<forall>j < k. ?at j \<in> sq_of ` set ps" using main_run_new [OF m] empty k(1) by simp
    then have "\<lparr>Placements = ?qs\<rparr> \<in> anchor_moves g CenterRow CenterCol dir"
      using gen [OF k(1,3)] st(6) True k(2) by simp
    then have "\<lparr>Placements = ?qs\<rparr> \<in> both_moves g CenterRow CenterCol"
      by (cases dir) (simp_all add: both_moves_def)
    with perm True show ?thesis by (auto simp: all_moves_def st(1))
  next
    case False
    then have "\<exists>r c. filled b r c" using wf_board_empty_iff [OF wb] by simp
    from first_anchor [OF m legal_anchor [OF leg m this]] obtain k where
      k: "k < n" "?at k \<in> sq_of ` set ps" "buildAnchorGrid b (fst (?at k)) (snd (?at k))"
      "(\<forall>j < k. ?at j \<in> sq_of ` set ps) \<or> (\<forall>j < k. ?at j \<notin> sq_of ` set ps)"
      "\<forall>j < k. ?at j \<in> sq_of ` set ps \<longrightarrow> \<not> buildAnchorGrid b (fst (?at j)) (snd (?at j))" .
    have anc: "anchors g = buildAnchorGrid b" using st(6) False by simp
    have "\<lparr>Placements = ?qs\<rparr> \<in> anchor_moves g (fst (?at k)) (snd (?at k)) dir"
      by (rule gen [OF k(1,2,4)]) (use k(5) anc in simp)
    then have "\<lparr>Placements = ?qs\<rparr> \<in> both_moves g (fst (?at k)) (snd (?at k))"
      by (cases dir) (simp_all add: both_moves_def)
    moreover have "InBounds (fst (?at k)) (snd (?at k))" by (rule main_run_InBounds [OF m k(1)])
    ultimately have "\<lparr>Placements = ?qs\<rparr> \<in> all_moves g"
      unfolding all_moves_def st(1) using False k(3) anc by auto
    with perm show ?thesis by blast
  qed
qed

lemma GenerateMoves_complete:
  assumes r: "gen_ready b rack d l" and leg: "legal_move ps b (Contains d)"
    and wf: "\<forall>p \<in> set ps. wf_tile l (P_Tile p)"
    and rack: "mset (map rack_want (map P_Tile ps)) \<subseteq># mset (Rack_tiles rack)"
  shows "\<exists>ms m. GenerateMoves b rack d l = Some ms \<and> m \<in> set ms \<and>
     mset (Placements (SM_Move m)) = mset ps \<and>
     Validate \<lparr>Placements = ps\<rparr> b (Contains d) l = Ok (SM_Result m)"
proof -
  from r obtain g ms where g: "search_state b rack d l g" "GenerateMoves b rack d l = Some ms"
    "set ms = {\<lparr>SM_Move = m, SM_Result = res\<rparr> | m res. m \<in> all_moves g \<and>
       Validate m b (Contains d) l = Ok res}" by (rule GenerateMoves_spec)
  obtain qs where qs: "mset qs = mset ps" "\<lparr>Placements = qs\<rparr> \<in> all_moves g"
    using legal_in_all_moves [OF r g(1) leg wf rack] by blast
  have l: "wf_lang l" "wf_board l b" using r by (simp_all add: gen_ready_def)
  obtain res where res: "Validate \<lparr>Placements = ps\<rparr> b (Contains d) l = Ok res"
    using Validate_legal [of l b "\<lparr>Placements = ps\<rparr>" "Contains d"] l wf leg by auto
  from Validate_mset [OF l wf qs(1) [symmetric] res]
  have "\<lparr>SM_Move = \<lparr>Placements = qs\<rparr>, SM_Result = res\<rparr> \<in> set ms" using qs(2) g(3) by simp
  with g(2) qs(1) res show ?thesis
    by (intro exI [of _ ms] exI [of _ "\<lparr>SM_Move = \<lparr>Placements = qs\<rparr>, SM_Result = res\<rparr>"]) simp
qed

lemma best_loop_max:
  "best_loop m ms \<in> set (m # ms) \<and>
   (\<forall>x \<in> set (m # ms). MR_Score (SM_Result x) \<le> MR_Score (SM_Result (best_loop m ms)))"
proof (induction ms arbitrary: m)
  case (Cons a ms)
  let ?b = "if MR_Score (SM_Result a) > MR_Score (SM_Result m) then a else m"
  from Cons.IH [of ?b] show ?case by (auto split: if_splits)
qed simp

text \<open>\<open>BestMove\<close> returns a legal move of the highest score, and nothing only when there is none.\<close>

lemma BestMove_optimal:
  assumes r: "gen_ready b rack d l"
  obtains best where "BestMove b rack d l = Some best"
    "\<And>m. best = Some m \<Longrightarrow> Validate (SM_Move m) b (Contains d) l = Ok (SM_Result m) \<and>
       (\<forall>p \<in> set (Placements (SM_Move m)). wf_tile l (P_Tile p)) \<and>
       mset (map rack_want (map P_Tile (Placements (SM_Move m)))) \<subseteq># mset (Rack_tiles rack)"
    "\<And>ps. legal_move ps b (Contains d) \<Longrightarrow> \<forall>p \<in> set ps. wf_tile l (P_Tile p) \<Longrightarrow>
       mset (map rack_want (map P_Tile ps)) \<subseteq># mset (Rack_tiles rack) \<Longrightarrow>
       \<exists>m res. best = Some m \<and> Validate \<lparr>Placements = ps\<rparr> b (Contains d) l = Ok res \<and>
         MR_Score res \<le> MR_Score (SM_Result m)"
proof -
  from r obtain g ms where ms: "GenerateMoves b rack d l = Some ms" by (rule GenerateMoves_spec)
  define best where "best = (case ms of [] \<Rightarrow> None | m # ms \<Rightarrow> Some (best_loop m ms))"
  have B: "BestMove b rack d l = Some best" by (simp add: BestMove_def ms best_def)
  have mem: "m \<in> set ms \<and> (\<forall>x \<in> set ms. MR_Score (SM_Result x) \<le> MR_Score (SM_Result m))"
    if "best = Some m" for m
    using that best_loop_max [of "hd ms" "tl ms"] by (cases ms) (auto simp: best_def)
  show thesis
  proof (rule that [OF B])
    fix m assume "best = Some m"
    then have "m \<in> set ms" using mem by blast
    from GenerateMoves_sound [OF r ms this] show "Validate (SM_Move m) b (Contains d) l = Ok (SM_Result m) \<and>
       (\<forall>p \<in> set (Placements (SM_Move m)). wf_tile l (P_Tile p)) \<and>
       mset (map rack_want (map P_Tile (Placements (SM_Move m)))) \<subseteq># mset (Rack_tiles rack)" by blast
  next
    fix ps assume "legal_move ps b (Contains d)" "\<forall>p \<in> set ps. wf_tile l (P_Tile p)"
       "mset (map rack_want (map P_Tile ps)) \<subseteq># mset (Rack_tiles rack)"
    from GenerateMoves_complete [OF r this] obtain x where x: "x \<in> set ms"
      "Validate \<lparr>Placements = ps\<rparr> b (Contains d) l = Ok (SM_Result x)" using ms by auto
    then obtain m where m: "best = Some m" by (cases ms) (auto simp: best_def)
    with mem x show "\<exists>m res. best = Some m \<and> Validate \<lparr>Placements = ps\<rparr> b (Contains d) l = Ok res \<and>
         MR_Score res \<le> MR_Score (SM_Result m)" by blast
  qed
qed

end
