(* ===== verification/Scrabble_Wire.thy ===== *)
theory Scrabble_Wire
  imports Actor Scrabble_Complete
begin

text \<open>
  The wire forms of boards, racks and moves (\<^verbatim>\<open>wire.go\<close>) and the bot actor that reads and
  writes them (\<^verbatim>\<open>bot.go\<close> of the application, with \<^verbatim>\<open>registry.go\<close>). \<open>None\<close> and \<open>Panic\<close> are the
  index panics of \<open>Rune\<close> and \<open>Place\<close>.
\<close>

section \<open>Data\<close>

definition blankPrefix :: string where "blankPrefix = ''*''"
definition unassignedBlank :: string where "unassignedBlank = ''?''"

record PlacementWire =
  PW_Row :: int
  PW_Col :: int
  PW_Letter :: string
  PW_Blank :: bool

record FormedWordWire =
  FWW_Word :: string
  FWW_Score :: int

datatype wire_error =
    EmptyLetter nat
  | NotSingleCharacter nat string
  | NotInAlphabet nat string
  | BadWireTile string
  | BadPlace board_error

record LangBundle =
  Bundle_Lang :: Language
  Bundle_Dawg :: DAWG

type_synonym Registry = "string \<rightharpoonup> LangBundle"

datatype registry_error = LanguageNotRegistered string

definition NewRegistry :: Registry where
  "NewRegistry = Map.empty"

definition Registry_Add :: "LangBundle \<Rightarrow> Registry \<Rightarrow> Registry" where
  "Registry_Add bundle r = r(Lang_Code (Bundle_Lang bundle) \<mapsto> bundle)"

definition Registry_Get :: "Registry \<Rightarrow> string \<Rightarrow> (registry_error, LangBundle) res" where
  "Registry_Get r code =
     (case r code of None \<Rightarrow> Err (LanguageNotRegistered code) | Some bundle \<Rightarrow> Ok bundle)"

definition Registry_Codes :: "Registry \<Rightarrow> string set" where
  "Registry_Codes r = dom r"

section \<open>Engine to wire\<close>

definition tileToWire :: "Tile \<Rightarrow> Language \<Rightarrow> string option" where
  "tileToWire tile lang =
     (if IsUnassignedBlank tile then Some unassignedBlank
      else case Rune lang (Tile_Letter tile) of
        None \<Rightarrow> None
      | Some letter \<Rightarrow> Some (if Tile_Blank tile then blankPrefix @ [letter] else [letter]))"

definition board_indices :: "int list" where
  "board_indices = [0..BoardSize - 1]"

definition boardToWire :: "Board \<Rightarrow> Language \<Rightarrow> string list list option" where
  "boardToWire board lang =
     those (map (\<lambda>row. those (map (\<lambda>col.
       let sq = At board row col in
       if \<not> Sq_Filled sq then Some [] else tileToWire (Sq_Tile sq) lang) board_indices))
       board_indices)"

definition emptyBoardWire :: "string list list" where
  "emptyBoardWire = map (\<lambda>row. map (\<lambda>col. []) board_indices) board_indices"

definition rackToWire :: "Rack \<Rightarrow> Language \<Rightarrow> string list option" where
  "rackToWire rack lang = those (map (\<lambda>tile. tileToWire tile lang) (Rack_tiles rack))"

definition tilesUsed :: "Placement list \<Rightarrow> Tile list" where
  "tilesUsed placements =
     map (\<lambda>p. if Tile_Blank (P_Tile p) then BlankTile
              else mk_tile (Tile_Letter (P_Tile p)) False) placements"

definition formedWords :: "MoveResult \<Rightarrow> FormedWordWire list" where
  "formedWords result =
     map (\<lambda>formed. \<lparr>FWW_Word = FW_Word formed, FWW_Score = FW_Score formed\<rparr>) (MR_Words result)"

definition enginePlacementsToWire :: "Placement list \<Rightarrow> Language \<Rightarrow> PlacementWire list option" where
  "enginePlacementsToWire placements lang =
     those (map (\<lambda>p. case Rune lang (Tile_Letter (P_Tile p)) of
        None \<Rightarrow> None
      | Some letter \<Rightarrow>
          Some \<lparr>PW_Row = P_Row p, PW_Col = P_Col p, PW_Letter = [letter],
                PW_Blank = Tile_Blank (P_Tile p)\<rparr>) placements)"

section \<open>Wire to engine\<close>

fun toEnginePlacements_loop ::
  "nat \<Rightarrow> PlacementWire list \<Rightarrow> Language \<Rightarrow> Placement list \<Rightarrow> (wire_error, Placement list) res"
where
  "toEnginePlacements_loop i [] lang out = Ok out"
| "toEnginePlacements_loop i (wire # wires) lang out =
     (if PW_Letter wire = [] then Err (EmptyLetter i)
      else case ToUpper (PW_Letter wire) of
        [r] \<Rightarrow>
          (case lang_ID lang (ToUpper_char r) of
             None \<Rightarrow> Err (NotInAlphabet i (PW_Letter wire))
           | Some letterID \<Rightarrow>
               toEnginePlacements_loop (Suc i) wires lang
                 (out @ [\<lparr>P_Row = PW_Row wire, P_Col = PW_Col wire,
                          P_Tile = mk_tile letterID (PW_Blank wire)\<rparr>]))
      | _ \<Rightarrow> Err (NotSingleCharacter i (PW_Letter wire)))"

definition toEnginePlacements ::
  "PlacementWire list \<Rightarrow> Language \<Rightarrow> (wire_error, Placement list) res"
where
  "toEnginePlacements wires lang = toEnginePlacements_loop 0 wires lang []"

definition wireToTile :: "string \<Rightarrow> Language \<Rightarrow> (wire_error, Tile) res" where
  "wireToTile raw lang =
     (if raw = unassignedBlank then Ok BlankTile
      else let blank = HasPrefix raw blankPrefix;
               letterPart = (if blank then drop (length blankPrefix) raw else raw) in
        case ToUpper letterPart of
          [r] \<Rightarrow>
            (case lang_ID lang r of
               None \<Rightarrow> Err (BadWireTile raw)
             | Some letterID \<Rightarrow> Ok (mk_tile letterID blank))
        | _ \<Rightarrow> Err (BadWireTile raw))"

fun wire_row_loop ::
  "int \<Rightarrow> int \<Rightarrow> string list \<Rightarrow> Language \<Rightarrow> Board \<Rightarrow> (wire_error, Board) res"
where
  "wire_row_loop row col [] lang board = Ok board"
| "wire_row_loop row col (cell # cells) lang board =
     (if cell = [] then wire_row_loop row (col + 1) cells lang board
      else case wireToTile cell lang of
        Err e \<Rightarrow> Err e
      | Panic \<Rightarrow> Panic
      | Ok tile \<Rightarrow>
          (case Place row col tile board of
             Err e \<Rightarrow> Err (BadPlace e)
           | Panic \<Rightarrow> Panic
           | Ok board' \<Rightarrow> wire_row_loop row (col + 1) cells lang board'))"

fun wire_board_loop :: "int \<Rightarrow> string list list \<Rightarrow> Language \<Rightarrow> Board \<Rightarrow> (wire_error, Board) res" where
  "wire_board_loop row [] lang board = Ok board"
| "wire_board_loop row (cells # grid) lang board =
     (case wire_row_loop row 0 cells lang board of
        Ok board' \<Rightarrow> wire_board_loop (row + 1) grid lang board'
      | Err e \<Rightarrow> Err e
      | Panic \<Rightarrow> Panic)"

definition wireToBoard :: "string list list \<Rightarrow> Language \<Rightarrow> (wire_error, Board) res" where
  "wireToBoard grid lang = wire_board_loop 0 grid lang NewBoard"

fun wireToRack_loop :: "string list \<Rightarrow> Language \<Rightarrow> Tile list \<Rightarrow> (wire_error, Tile list) res" where
  "wireToRack_loop [] lang parsed = Ok parsed"
| "wireToRack_loop (raw # tiles) lang parsed =
     (case wireToTile raw lang of
        Ok tile \<Rightarrow> wireToRack_loop tiles lang (parsed @ [tile])
      | Err e \<Rightarrow> Err e
      | Panic \<Rightarrow> Panic)"

definition wireToRack :: "string list \<Rightarrow> Language \<Rightarrow> (wire_error, Rack) res" where
  "wireToRack tiles lang =
     (case wireToRack_loop tiles lang [] of
        Ok parsed \<Rightarrow> Ok (Rack_Add parsed NewRack)
      | Err e \<Rightarrow> Err e
      | Panic \<Rightarrow> Panic)"

section \<open>The bot actor\<close>

record YourTurn =
  YT_BotID :: string
  YT_Board :: "string list list"
  YT_Rack :: "string list"

record BotPlay =
  BP_BotID :: string
  BP_Placements :: "PlacementWire list"

definition BotActorPrefix :: string where "BotActorPrefix = ''bot.''"

text \<open>
  The reply of the bot to a turn; \<open>None\<close> is a panic of the actor. A malformed board or rack is
  answered with a pass (no placements).
\<close>

definition handleTurn :: "LangBundle \<Rightarrow> YourTurn \<Rightarrow> BotPlay option" where
  "handleTurn bundle msg =
     (case wireToBoard (YT_Board msg) (Bundle_Lang bundle) of
        Panic \<Rightarrow> None
      | Err e \<Rightarrow> Some \<lparr>BP_BotID = YT_BotID msg, BP_Placements = []\<rparr>
      | Ok board \<Rightarrow>
          (case wireToRack (YT_Rack msg) (Bundle_Lang bundle) of
             Panic \<Rightarrow> None
           | Err e \<Rightarrow> Some \<lparr>BP_BotID = YT_BotID msg, BP_Placements = []\<rparr>
           | Ok rack \<Rightarrow>
               (case BestMove board rack (Bundle_Dawg bundle) (Bundle_Lang bundle) of
                  None \<Rightarrow> None
                | Some None \<Rightarrow> Some \<lparr>BP_BotID = YT_BotID msg, BP_Placements = []\<rparr>
                | Some (Some best) \<Rightarrow>
                    (case enginePlacementsToWire (Placements (SM_Move best)) (Bundle_Lang bundle) of
                       None \<Rightarrow> None
                     | Some wires \<Rightarrow> Some \<lparr>BP_BotID = YT_BotID msg, BP_Placements = wires\<rparr>))))"

datatype bot_msg = BotPostStart | BotYourTurn YourTurn | ShutdownBot | BotOther

datatype bot_effect = BotShutdown | BotTellParent BotPlay | BotUnhandled

text \<open>
  \<open>Receive\<close> of the bot actor: its state is the bundle (nil before \<^verbatim>\<open>PostStart\<close>); the registry is the
  one the actor system holds as an extension, if any.
\<close>

definition Bot_Receive ::
  "string \<Rightarrow> Registry option \<Rightarrow> bot_msg \<Rightarrow> LangBundle option \<Rightarrow> (LangBundle option \<times> bot_effect list) option"
where
  "Bot_Receive self ext msg bundle =
     (case msg of
        BotPostStart \<Rightarrow>
          (case Cut (TrimPrefix self BotActorPrefix) CHR ''.'' of
             None \<Rightarrow> Some (bundle, [BotShutdown])
           | Some (language, rest) \<Rightarrow>
               (case ext of
                  None \<Rightarrow> Some (bundle, [BotShutdown])
                | Some registry \<Rightarrow>
                    (case Registry_Get registry language of
                       Ok b \<Rightarrow> Some (Some b, [])
                     | _ \<Rightarrow> Some (bundle, [BotShutdown]))))
      | BotYourTurn turn \<Rightarrow>
          (case bundle of
             None \<Rightarrow> None
           | Some b \<Rightarrow>
               map_option (\<lambda>play. (bundle, [BotTellParent play])) (handleTurn b turn))
      | ShutdownBot \<Rightarrow> Some (bundle, [BotShutdown])
      | BotOther \<Rightarrow> Some (bundle, [BotUnhandled]))"

section \<open>Tiles and racks survive the wire\<close>

text \<open>The two marks of the wire format must not be letters.\<close>

definition wire_lang :: "Language \<Rightarrow> bool" where
  "wire_lang l \<longleftrightarrow> wf_lang l \<and> CHR ''?'' \<notin> set (Letters l) \<and> CHR ''*'' \<notin> set (Letters l)"

lemma wire_english: "wire_lang english_lang"
  by (simp add: wire_lang_def wf_english english_sel)

lemma letter_of:
  assumes "wire_lang l" and "i < AlphabetSize l"
  obtains c where "Rune l i = Some c" "ToUpper_char c = c" "lang_ID l c = Some i"
    "c \<noteq> CHR ''?''" "c \<noteq> CHR ''*''"
proof -
  obtain c where c: "Rune l i = Some c" "ToUpper_char c = c" "lang_ID l c = Some i"
    using lang_ID_Rune [OF _ assms(2)] assms(1) by (auto simp: wire_lang_def)
  have "c \<in> set (Letters l)" using c(1) by (auto simp: Rune_def index_opt_eq_Some_iff)
  with assms(1) c that show thesis by (auto simp: wire_lang_def)
qed

lemma wireToTile_tileToWire:
  assumes "wire_lang l" and "wf_tile l t"
  shows "\<exists>s. tileToWire t l = Some s \<and> s \<noteq> [] \<and> wireToTile s l = Ok t"
proof (cases "IsUnassignedBlank t")
  case True
  then have "t = BlankTile" by (cases t) (simp add: IsUnassignedBlank_def BlankTile_def)
  then show ?thesis
    using True by (simp add: tileToWire_def wireToTile_def unassignedBlank_def)
next
  case False
  have lt: "Tile_Letter t < AlphabetSize l" using assms(2) by (simp add: wf_tile_def)
  obtain c where c: "Rune l (Tile_Letter t) = Some c" "ToUpper_char c = c" "lang_ID l c = Some (Tile_Letter t)"
    "c \<noteq> CHR ''?''" "c \<noteq> CHR ''*''" by (rule letter_of [OF assms(1) lt])
  from c False show ?thesis
    by (cases "Tile_Blank t")
       (auto simp: tileToWire_def wireToTile_def unassignedBlank_def blankPrefix_def HasPrefix_def
          ToUpper_def intro!: Tile.equality)
qed

lemma wireToRack_loop_rackToWire:
  assumes "wire_lang l"
  shows "list_all (wf_tile l) ts \<Longrightarrow>
     \<exists>ss. those (map (\<lambda>t. tileToWire t l) ts) = Some ss \<and> wireToRack_loop ss l acc = Ok (acc @ ts)"
proof (induction ts arbitrary: acc)
  case (Cons t ts)
  obtain s where s: "tileToWire t l = Some s" "wireToTile s l = Ok t"
    using wireToTile_tileToWire [OF assms, of t] Cons.prems by auto
  from Cons.IH [of "acc @ [t]"] Cons.prems s show ?case by auto
qed simp

lemma wireToRack_rackToWire:
  assumes "wire_lang l" and "list_all (wf_tile l) (Rack_tiles r)"
  shows "\<exists>ss. rackToWire r l = Some ss \<and> wireToRack ss l = Ok r"
  using wireToRack_loop_rackToWire [OF assms, of "[]"]
  by (auto simp: rackToWire_def wireToRack_def Rack_Add_def NewRack_def)

section \<open>Boards survive the wire\<close>

text \<open>
  A board as play leaves it: a square without a tile is as \<open>NewBoard\<close> made it, a square with one
  keeps its premium.
\<close>

definition tidy_board :: "Board \<Rightarrow> bool" where
  "tidy_board b \<longleftrightarrow> (\<forall>r c.
     squares b r c =
       (if filled b r c
        then \<lparr>Sq_Premium = standardPremium r c, Sq_Tile = Sq_Tile (At b r c), Sq_Filled = True\<rparr>
        else squares NewBoard r c))"

lemma tidy_NewBoard: "tidy_board NewBoard"
  by (simp add: tidy_board_def)

lemma tidy_Place:
  assumes "tidy_board b" and "Place row col t b = Ok b'"
  shows "tidy_board b'"
proof -
  have inb: "InBounds row col" and free: "\<not> filled b row col"
    using assms(2) Place_Ok_iff [of row col t b] by auto
  have b': "squares b' r c = (if r = row \<and> c = col then (squares b row col)\<lparr>Sq_Tile := t, Sq_Filled := True\<rparr>
      else squares b r c)" for r c
    using assms(2) by (auto simp: Place_def split: if_splits)
  show ?thesis
    unfolding tidy_board_def
  proof (intro allI)
    fix r c
    have "squares b r c =
       (if filled b r c
        then \<lparr>Sq_Premium = standardPremium r c, Sq_Tile = Sq_Tile (At b r c), Sq_Filled = True\<rparr>
        else squares NewBoard r c)" using assms(1) unfolding tidy_board_def by blast
    then show "squares b' r c =
       (if filled b' r c
        then \<lparr>Sq_Premium = standardPremium r c, Sq_Tile = Sq_Tile (At b' r c), Sq_Filled = True\<rparr>
        else squares NewBoard r c)"
      using b' [of r c] free inb by (auto simp: filled_def At_def NewBoard_def)
  qed
qed

lemma tidy_after: "tidy_board b \<Longrightarrow> tidy_board (after ps b)"
proof (induction ps arbitrary: b)
  case (Cons p ps)
  have "tidy_board (place_ignore p b)"
    using Cons.prems tidy_Place by (auto simp: place_ignore_def split: res.splits)
  from Cons.IH [OF this] show ?case by (simp add: after_def)
qed (simp add: after_def)

text \<open>The part of a board before a square, in reading order.\<close>

definition read_squares :: "Board \<Rightarrow> int \<Rightarrow> int \<Rightarrow> int \<Rightarrow> int \<Rightarrow> Square" where
  "read_squares b row col =
     (\<lambda>r c. if r < row \<or> (r = row \<and> c < col) then squares b r c else squares NewBoard r c)"

definition cell_wire :: "Board \<Rightarrow> Language \<Rightarrow> int \<Rightarrow> int \<Rightarrow> string option" where
  "cell_wire b l row col =
     (let sq = At b row col in if \<not> Sq_Filled sq then Some [] else tileToWire (Sq_Tile sq) l)"

definition same_tiles :: "Language \<Rightarrow> Board \<Rightarrow> Board \<Rightarrow> bool" where
  "same_tiles l b cur \<longleftrightarrow> wf_board l cur \<and> squares cur = squares b"

lemma read_step:
  assumes b: "wf_board l b" "tidy_board b" and l: "wire_lang l"
    and cur: "wf_board l cur" "squares cur = read_squares b row col"
    and sq: "InBounds row col"
  shows "\<exists>cell cur'. cell_wire b l row col = Some cell \<and>
     (\<forall>cells. wire_row_loop row col (cell # cells) l cur = wire_row_loop row (col + 1) cells l cur') \<and>
     wf_board l cur' \<and> squares cur' = read_squares b row (col + 1)"
proof (cases "filled b row col")
  case False
  then have "squares b row col = squares NewBoard row col" using b(2) unfolding tidy_board_def by metis
  then have "read_squares b row (col + 1) = read_squares b row col"
    unfolding read_squares_def fun_eq_iff by (metis zless_add1_eq)
  with False cur show ?thesis
    by (intro exI [of _ "[]"] exI [of _ cur]) (simp add: cell_wire_def filled_def)
next
  case True
  let ?t = "Sq_Tile (At b row col)"
  have wt: "wf_tile l ?t" "\<not> IsUnassignedBlank ?t" using b(1) True by (simp_all add: wf_board_def)
  obtain s where s: "tileToWire ?t l = Some s" "s \<noteq> []" "wireToTile s l = Ok ?t"
    using wireToTile_tileToWire [OF l wt(1)] by blast
  have free: "squares cur row col = squares NewBoard row col" using cur(2) by (simp add: read_squares_def)
  then have "\<not> filled cur row col" by (simp add: filled_def At_def NewBoard_def)
  then obtain cur' where p: "Place row col ?t cur = Ok cur'" using Place_Ok_iff [of row col ?t cur] sq by auto
  have bsq: "squares b row col = \<lparr>Sq_Premium = standardPremium row col, Sq_Tile = ?t, Sq_Filled = True\<rparr>"
    using b(2) True unfolding tidy_board_def by metis
  have "squares cur' = (squares cur)(row := (squares cur row)(col := squares b row col))"
    using p free sq by (auto simp: Place_def bsq NewBoard_def split: if_splits)
  also have "\<dots> = read_squares b row (col + 1)"
    by (auto simp: cur(2) read_squares_def fun_eq_iff)
  finally have "squares cur' = read_squares b row (col + 1)" .
  with s p wf_Place [OF cur(1) p wt] True show ?thesis
    by (intro exI [of _ s] exI [of _ cur']) (simp add: cell_wire_def filled_def)
qed

lemma read_row:
  assumes b: "wf_board l b" "tidy_board b" and l: "wire_lang l" and row: "0 \<le> row" "row < BoardSize"
    and "wf_board l cur" "squares cur = read_squares b row col" and "0 \<le> col" "col \<le> BoardSize"
  shows "\<exists>cells cur'. those (map (cell_wire b l row) [col..BoardSize - 1]) = Some cells \<and>
     wire_row_loop row col cells l cur = Ok cur' \<and>
     wf_board l cur' \<and> squares cur' = read_squares b row BoardSize"
  using assms(6-)
proof (induction "nat (BoardSize - col)" arbitrary: col cur)
  case 0
  then show ?case by (intro exI [of _ "[]"] exI [of _ cur]) simp
next
  case (Suc k)
  then have c: "col < BoardSize" "k = nat (BoardSize - (col + 1))" by simp_all
  have inb: "InBounds row col" using row Suc.prems c by (simp add: InBounds_def)
  have up: "[col..BoardSize - 1] = col # [col + 1..BoardSize - 1]" using c(1) by (simp add: upto_rec1)
  from Suc.hyps(1) [OF c(2)] have IH: "\<exists>cells cur'. those (map (cell_wire b l row) [col + 1..BoardSize - 1]) = Some cells \<and>
      wire_row_loop row (col + 1) cells l cur1 = Ok cur' \<and>
      wf_board l cur' \<and> squares cur' = read_squares b row BoardSize"
    if "wf_board l cur1" "squares cur1 = read_squares b row (col + 1)" for cur1
    using that Suc.prems(3) c(1) by simp
  obtain cell cur1 where 1: "cell_wire b l row col = Some cell"
    "\<And>cells. wire_row_loop row col (cell # cells) l cur = wire_row_loop row (col + 1) cells l cur1"
    "wf_board l cur1" "squares cur1 = read_squares b row (col + 1)"
    using read_step [OF b l Suc.prems(1,2) inb] by blast
  from IH [OF 1(3,4)] 1(1,2) show ?case unfolding up by force
qed

lemma read_next_row:
  assumes "wf_board l b" "tidy_board b"
  shows "read_squares b row BoardSize = read_squares b (row + 1) 0"
    and "read_squares b 0 0 = squares NewBoard" and "read_squares b BoardSize 0 = squares b"
proof -
  have out: "squares b r c = squares NewBoard r c" if "\<not> InBounds r c" for r c
  proof -
    have "\<not> filled b r c" using assms(1) that by (auto simp: wf_board_def)
    then show ?thesis using assms(2) unfolding tidy_board_def by metis
  qed
  show "read_squares b row BoardSize = read_squares b (row + 1) 0"
    "read_squares b 0 0 = squares NewBoard" "read_squares b BoardSize 0 = squares b"
    using out by (auto simp: read_squares_def fun_eq_iff InBounds_def)
qed

lemma read_rows:
  assumes b: "wf_board l b" "tidy_board b" and l: "wire_lang l"
    and "wf_board l cur" "squares cur = read_squares b row 0" and "0 \<le> row" "row \<le> BoardSize"
  shows "\<exists>grid cur'. those (map (\<lambda>row. those (map (cell_wire b l row) board_indices)) [row..BoardSize - 1]) = Some grid \<and>
     wire_board_loop row grid l cur = Ok cur' \<and> wf_board l cur' \<and> squares cur' = read_squares b BoardSize 0"
  using assms(4-)
proof (induction "nat (BoardSize - row)" arbitrary: row cur)
  case 0
  then show ?case by (intro exI [of _ "[]"] exI [of _ cur]) simp
next
  case (Suc k)
  then have r: "row < BoardSize" "k = nat (BoardSize - (row + 1))" by simp_all
  have up: "[row..BoardSize - 1] = row # [row + 1..BoardSize - 1]" using r(1) by (simp add: upto_rec1)
  have bs: "0 \<le> BoardSize" by (simp add: BoardSize_def)
  obtain cells cur1 where 1: "those (map (cell_wire b l row) board_indices) = Some cells"
    "wire_row_loop row 0 cells l cur = Ok cur1" "wf_board l cur1" "squares cur1 = read_squares b (row + 1) 0"
    using read_row [OF b l Suc.prems(3) r(1) Suc.prems(1,2) _ bs]
    unfolding board_indices_def read_next_row(1) [OF b] by auto
  from Suc.hyps(1) [OF r(2) 1(3,4)] Suc.prems(3) r(1) obtain grid cur' where
    2: "those (map (\<lambda>row. those (map (cell_wire b l row) board_indices)) [row + 1..BoardSize - 1]) = Some grid"
    "wire_board_loop (row + 1) grid l cur1 = Ok cur'" "wf_board l cur'" "squares cur' = read_squares b BoardSize 0"
    by auto
  with 1 show ?case unfolding up by (intro exI [of _ "cells # grid"] exI [of _ cur']) simp
qed

lemma wireToBoard_boardToWire:
  assumes b: "wf_board l b" "tidy_board b" and l: "wire_lang l"
  shows "\<exists>grid. boardToWire b l = Some grid \<and> wireToBoard grid l = Ok b"
proof -
  obtain grid cur where g: "those (map (\<lambda>row. those (map (cell_wire b l row) board_indices)) [0..BoardSize - 1]) = Some grid"
    "wire_board_loop 0 grid l NewBoard = Ok cur" "wf_board l cur" "squares cur = squares b"
    using read_rows [OF b l wf_NewBoard, of 0] read_next_row [OF b] by (auto simp: BoardSize_def)
  have "filled_set cur = filled_set b" using g(4) by (simp add: filled_set_def filled_def At_def)
  then have "Board_tiles cur = Board_tiles b" using g(3) b(1) by (simp add: wf_board_def)
  with g(4) have "cur = b" by (intro Board.equality) simp_all
  with g show ?thesis
    by (auto simp: boardToWire_def wireToBoard_def cell_wire_def [abs_def] board_indices_def)
qed

section \<open>Moves survive the wire\<close>

lemma toEnginePlacements_loop_wire:
  assumes "wire_lang l"
  shows "\<forall>p \<in> set ps. wf_tile l (P_Tile p) \<Longrightarrow>
     \<exists>ws. enginePlacementsToWire ps l = Some ws \<and> length ws = length ps \<and>
          toEnginePlacements_loop i ws l acc = Ok (acc @ ps)"
proof (induction ps arbitrary: i acc)
  case Nil
  then show ?case by (simp add: enginePlacementsToWire_def)
next
  case (Cons p ps)
  have lt: "Tile_Letter (P_Tile p) < AlphabetSize l" using Cons.prems by (simp add: wf_tile_def)
  obtain c where c: "Rune l (Tile_Letter (P_Tile p)) = Some c" "ToUpper_char c = c"
    "lang_ID l c = Some (Tile_Letter (P_Tile p))"
    by (rule letter_of [OF assms lt])
  obtain ws where ws: "enginePlacementsToWire ps l = Some ws" "length ws = length ps"
    "toEnginePlacements_loop (Suc i) ws l (acc @ [p]) = Ok ((acc @ [p]) @ ps)"
    using Cons.IH [of "Suc i" "acc @ [p]"] Cons.prems by auto
  let ?w = "\<lparr>PW_Row = P_Row p, PW_Col = P_Col p, PW_Letter = [c], PW_Blank = Tile_Blank (P_Tile p)\<rparr>"
  have "enginePlacementsToWire (p # ps) l = Some (?w # ws)"
    using ws(1) c(1) by (simp add: enginePlacementsToWire_def)
  moreover have "toEnginePlacements_loop i (?w # ws) l acc = Ok (acc @ p # ps)"
  proof -
    have tile: "mk_tile (Tile_Letter (P_Tile p)) (Tile_Blank (P_Tile p)) = P_Tile p" by simp
    have self: "\<lparr>P_Row = P_Row p, P_Col = P_Col p, P_Tile = P_Tile p\<rparr> = p" by simp
    show ?thesis using ws(3) c by (simp add: ToUpper_def tile self)
  qed
  ultimately show ?case using ws(2) by simp
qed

lemma toEnginePlacements_wire:
  assumes "wire_lang l" and "\<forall>p \<in> set ps. wf_tile l (P_Tile p)"
  shows "\<exists>ws. enginePlacementsToWire ps l = Some ws \<and> length ws = length ps \<and>
     toEnginePlacements ws l = Ok ps"
  using toEnginePlacements_loop_wire [OF assms, of 0 "[]"] by (simp add: toEnginePlacements_def)

lemma tilesUsed_rack_want: "tilesUsed ps = map rack_want (map P_Tile ps)"
  by (simp add: tilesUsed_def rack_want_def)

text \<open>Placements the room accepts from the wire carry letters of the alphabet.\<close>

lemma toEnginePlacements_loop_wf:
  "wf_lang l \<Longrightarrow> toEnginePlacements_loop i ws l acc = Ok ps \<Longrightarrow> \<forall>p \<in> set acc. wf_tile l (P_Tile p) \<Longrightarrow>
     \<forall>p \<in> set ps. wf_tile l (P_Tile p)"
proof (induction i ws l acc rule: toEnginePlacements_loop.induct)
  case (2 i wire wires lang out)
  from "2.prems"(2) obtain r letterID where r: "PW_Letter wire \<noteq> []" "ToUpper (PW_Letter wire) = [r]"
    "lang_ID lang (ToUpper_char r) = Some letterID"
    "toEnginePlacements_loop (Suc i) wires lang
       (out @ [\<lparr>P_Row = PW_Row wire, P_Col = PW_Col wire, P_Tile = mk_tile letterID (PW_Blank wire)\<rparr>]) = Ok ps"
    by (auto split: if_splits list.splits option.splits)
  show ?case
    by (rule "2.IH" [OF r(1,2) refl r(3) "2.prems"(1) r(4)])
       (use "2.prems"(1,3) lang_ID_range [OF _ r(3)] in \<open>auto simp: wf_tile_def\<close>)
qed simp

lemma toEnginePlacements_wf:
  "wf_lang l \<Longrightarrow> toEnginePlacements ws l = Ok ps \<Longrightarrow> \<forall>p \<in> set ps. wf_tile l (P_Tile p)"
  using toEnginePlacements_loop_wf [of l 0 ws "[]" ps] by (simp add: toEnginePlacements_def)

lemma toEnginePlacements_not_Panic: "toEnginePlacements ws l \<noteq> Panic"
proof -
  have "toEnginePlacements_loop i ws l acc \<noteq> Panic" for i acc
    by (induction i ws l acc rule: toEnginePlacements_loop.induct) (auto split: list.splits option.splits)
  then show ?thesis by (simp add: toEnginePlacements_def)
qed

section \<open>The wire format as codecs\<close>

interpretation tile_codec: codec "\<lambda>t. tileToWire t l" "\<lambda>s. wireToTile s l" "\<lambda>t. wire_lang l \<and> wf_tile l t" for l
  by unfold_locales (use wireToTile_tileToWire in blast)

interpretation rack_codec: codec "\<lambda>k. rackToWire k l" "\<lambda>ss. wireToRack ss l"
  "\<lambda>k. wire_lang l \<and> list_all (wf_tile l) (Rack_tiles k)" for l
  by unfold_locales (use wireToRack_rackToWire in blast)

interpretation board_codec: codec "\<lambda>b. boardToWire b l" "\<lambda>grid. wireToBoard grid l"
  "\<lambda>b. wire_lang l \<and> wf_board l b \<and> tidy_board b" for l
  by unfold_locales (use wireToBoard_boardToWire in blast)

interpretation move_codec: codec "\<lambda>ps. enginePlacementsToWire ps l" "\<lambda>ws. toEnginePlacements ws l"
  "\<lambda>ps. wire_lang l \<and> (\<forall>p \<in> set ps. wf_tile l (P_Tile p))" for l
  by unfold_locales (use toEnginePlacements_wire in blast)

end
