(* ===== verification/Scrabble_Endgame.thy ===== *)
theory Scrabble_Endgame
  imports Scrabble_Bag
begin

text \<open>
  End-of-game detection and the final adjustment of the scores (\<^verbatim>\<open>scrabble/endgame.go\<close>). The
  racks are pointers in Go, and a seat that joined after the deal has a nil rack, so a rack here is
  an option; \<open>None\<close> as a result is the nil dereference or index panic.
\<close>

section \<open>Operations\<close>

definition ScorelessTurnsToEnd :: nat where
  "ScorelessTurnsToEnd = 6"

fun Rack_Value_loop :: "Tile list \<Rightarrow> Language \<Rightarrow> int \<Rightarrow> int option" where
  "Rack_Value_loop [] lang acc = Some acc"
| "Rack_Value_loop (t # ts) lang acc =
     (case Tile_Score t lang of None \<Rightarrow> None | Some n \<Rightarrow> Rack_Value_loop ts lang (acc + n))"

definition Rack_Value :: "Rack \<Rightarrow> Language \<Rightarrow> int option" where
  "Rack_Value r lang = Rack_Value_loop (Rack_tiles r) lang 0"

fun FirstEmptyRack_loop :: "int \<Rightarrow> Rack option list \<Rightarrow> int option" where
  "FirstEmptyRack_loop i [] = Some (- 1)"
| "FirstEmptyRack_loop i (None # racks) = None"
| "FirstEmptyRack_loop i (Some r # racks) =
     (if Rack_Size r = 0 then Some i else FirstEmptyRack_loop (i + 1) racks)"

definition FirstEmptyRack :: "Rack option list \<Rightarrow> int option" where
  "FirstEmptyRack racks = FirstEmptyRack_loop 0 racks"

definition IsGameOver :: "Bag \<Rightarrow> Rack option list \<Rightarrow> nat \<Rightarrow> bool option" where
  "IsGameOver bag racks scorelessTurns =
     (if scorelessTurns \<ge> ScorelessTurnsToEnd then Some True
      else if Remaining bag = 0
           then (case FirstEmptyRack racks of None \<Rightarrow> None | Some i \<Rightarrow> Some (i \<ge> 0))
           else Some False)"

fun credit_loop :: "int \<Rightarrow> int \<Rightarrow> int list \<Rightarrow> int list \<Rightarrow> int list option" where
  "credit_loop i outIdx [] out = Some out"
| "credit_loop i outIdx (v # vs) out =
     (if i \<noteq> outIdx
      then (if nat outIdx < length out
            then credit_loop (i + 1) outIdx vs (out[nat outIdx := out ! nat outIdx + v])
            else None)
      else credit_loop (i + 1) outIdx vs out)"

definition FinalScores :: "int list \<Rightarrow> Rack option list \<Rightarrow> Language \<Rightarrow> int list option" where
  "FinalScores currentScores racks lang =
     (case those (map (\<lambda>r. Option.bind r (\<lambda>r. Rack_Value r lang)) racks) of
        None \<Rightarrow> None
      | Some rackValues \<Rightarrow>
          (if length rackValues < length currentScores then None
           else let out = map2 (-) currentScores rackValues in
             case FirstEmptyRack racks of
               None \<Rightarrow> None
             | Some outIdx \<Rightarrow>
                 (if outIdx \<ge> 0 then credit_loop 0 outIdx rackValues out else Some out)))"

section \<open>Rack values\<close>

definition tiles_value :: "Language \<Rightarrow> Tile list \<Rightarrow> int" where
  "tiles_value lang ts = (\<Sum>t\<leftarrow>ts. the (Tile_Score t lang))"

lemma Rack_Value_loop_total:
  assumes "wf_lang l"
  shows "list_all (wf_tile l) ts \<Longrightarrow> Rack_Value_loop ts l a = Some (a + tiles_value l ts)"
proof (induction ts arbitrary: a)
  case (Cons t ts)
  then obtain n where "Tile_Score t l = Some n"
    using Tile_Score_total [OF assms, of t] by auto
  with Cons show ?case by (simp add: tiles_value_def)
qed (simp add: tiles_value_def)

lemma Rack_Value_total:
  "wf_lang l \<Longrightarrow> list_all (wf_tile l) (Rack_tiles r) \<Longrightarrow>
     Rack_Value r l = Some (tiles_value l (Rack_tiles r))"
  by (simp add: Rack_Value_def Rack_Value_loop_total)

lemma tiles_value_nonneg:
  "wf_lang l \<Longrightarrow> list_all (wf_tile l) ts \<Longrightarrow> 0 \<le> tiles_value l ts"
proof (induction ts)
  case (Cons t ts)
  then obtain n where "Tile_Score t l = Some n" "0 \<le> n"
    using Tile_Score_total [of l t] by auto
  with Cons show ?case by (simp add: tiles_value_def)
qed (simp add: tiles_value_def)

lemma tiles_value_Nil [simp]: "tiles_value l [] = 0"
  by (simp add: tiles_value_def)

section \<open>The first empty rack\<close>

lemma FirstEmptyRack_loop_spec:
  "FirstEmptyRack_loop i (map Some rs) =
     (case find_index (\<lambda>r. Rack_Size r = 0) rs of None \<Rightarrow> Some (- 1) | Some k \<Rightarrow> Some (i + int k))"
  by (induction rs arbitrary: i) (auto split: option.splits)

lemma FirstEmptyRack_spec:
  "FirstEmptyRack (map Some rs) =
     (case find_index (\<lambda>r. Rack_Size r = 0) rs of None \<Rightarrow> Some (- 1) | Some k \<Rightarrow> Some (int k))"
  by (simp add: FirstEmptyRack_def FirstEmptyRack_loop_spec cong: option.case_cong)

text \<open>A nil rack is dereferenced unless an empty rack comes before it.\<close>

lemma FirstEmptyRack_nil:
  "FirstEmptyRack (map Some rs @ None # racks) =
     (case find_index (\<lambda>r. Rack_Size r = 0) rs of None \<Rightarrow> None | Some k \<Rightarrow> Some (int k))"
proof -
  have "FirstEmptyRack_loop i (map Some rs @ None # racks) =
     (case find_index (\<lambda>r. Rack_Size r = 0) rs of None \<Rightarrow> None | Some k \<Rightarrow> Some (i + int k))" for i
    by (induction rs arbitrary: i) (auto split: option.splits)
  from this [of 0] show ?thesis by (simp add: FirstEmptyRack_def cong: option.case_cong)
qed

section \<open>Final scores\<close>

lemma credit_loop_spec:
  assumes "k < length out"
  shows "credit_loop i (int k) vs out =
     Some (out[k := out ! k + sum_list vs -
        (if i \<le> int k \<and> int k < i + int (length vs) then vs ! nat (int k - i) else 0)])"
  using assms
proof (induction vs arbitrary: i out)
  case (Cons v vs)
  show ?case
  proof (cases "i = int k")
    case True
    have "credit_loop i (int k) (v # vs) out = credit_loop (i + 1) (int k) vs out"
      using True by simp
    also have "\<dots> = Some (out[k := out ! k + sum_list vs])"
      using Cons.IH [of out "i + 1"] Cons.prems True by simp
    finally show ?thesis using True by simp
  next
    case False
    have "credit_loop i (int k) (v # vs) out = credit_loop (i + 1) (int k) vs (out[k := out ! k + v])"
      using False Cons.prems by simp
    also have "\<dots> = Some (out[k := out ! k + v + sum_list vs -
        (if i + 1 \<le> int k \<and> int k < i + 1 + int (length vs) then vs ! nat (int k - (i + 1)) else 0)])"
      using Cons.IH [of "out[k := out ! k + v]" "i + 1"] Cons.prems by simp
    also have "(if i + 1 \<le> int k \<and> int k < i + 1 + int (length vs) then vs ! nat (int k - (i + 1)) else 0) =
        (if i \<le> int k \<and> int k < i + int (length (v # vs)) then (v # vs) ! nat (int k - i) else 0)"
    proof -
      have "nat (int k - (i + 1)) = nat (int k - i) - Suc 0" by arith
      then show ?thesis using False by (auto simp: nth_Cons')
    qed
    finally show ?thesis by (simp add: algebra_simps)
  qed
qed auto

lemma FinalScores_spec:
  assumes l: "wf_lang l" and racks: "list_all (\<lambda>r. list_all (wf_tile l) (Rack_tiles r)) rs"
    and len: "length scores = length rs"
  shows "FinalScores scores (map Some rs) l =
     (let vals = map (\<lambda>r. tiles_value l (Rack_tiles r)) rs;
          out = map2 (-) scores vals
      in case find_index (\<lambda>r. Rack_Size r = 0) rs of
           None \<Rightarrow> Some out
         | Some k \<Rightarrow> Some (out[k := out ! k + sum_list vals]))"
proof -
  let ?vals = "map (\<lambda>r. tiles_value l (Rack_tiles r)) rs"
  let ?out = "map2 (-) scores ?vals"
  have vals: "those (map (\<lambda>r. Option.bind r (\<lambda>r. Rack_Value r l)) (map Some rs)) = Some ?vals"
    using racks Rack_Value_total [OF l] by (induction rs) auto
  show ?thesis
  proof (cases "find_index (\<lambda>r. Rack_Size r = 0) rs")
    case None
    with vals len show ?thesis by (simp add: FinalScores_def FirstEmptyRack_spec Let_def)
  next
    case (Some k)
    then have k: "k < length rs" "Rack_tiles (rs ! k) = []"
      using find_index_SomeD [of "\<lambda>r. Rack_Size r = 0" rs k] by (auto simp: Rack_Size_def)
    then have "credit_loop 0 (int k) ?vals ?out = Some (?out[k := ?out ! k + sum_list ?vals])"
      using credit_loop_spec [of k ?out 0 ?vals] len by simp
    with Some vals len show ?thesis by (simp add: FinalScores_def FirstEmptyRack_spec Let_def)
  qed
qed

text \<open>
  The tiles left in hand leave the table: in total the players lose their value, except that the
  player who went out collects it.
\<close>

lemma FinalScores_total:
  assumes "wf_lang l" and "list_all (\<lambda>r. list_all (wf_tile l) (Rack_tiles r)) rs"
    and "length scores = length rs"
  shows "\<exists>out. FinalScores scores (map Some rs) l = Some out \<and> length out = length scores \<and>
     sum_list out = sum_list scores -
       (if \<exists>r \<in> set rs. Rack_Size r = 0 then 0
        else (\<Sum>r\<leftarrow>rs. tiles_value l (Rack_tiles r)))"
proof (cases "find_index (\<lambda>r. Rack_Size r = 0) rs")
  case None
  then have "\<not> (\<exists>r \<in> set rs. Rack_Size r = 0)" by (simp add: find_index_None_iff)
  with None show ?thesis
    using FinalScores_spec [OF assms] assms(3)
    by (auto simp: Let_def sum_list_map2_minus)
next
  case (Some k)
  then have "k < length rs" "\<exists>r \<in> set rs. Rack_Size r = 0"
    using find_index_SomeD [of "\<lambda>r. Rack_Size r = 0" rs k] by auto
  with Some show ?thesis
    using FinalScores_spec [OF assms] assms(3)
    by (simp add: Let_def sum_list_update_int sum_list_map2_minus)
qed

end
