(* ===== verification/Scrabble_Room.thy ===== *)
theory Scrabble_Room
  imports Scrabble_Wire Scrabble_Endgame "HOL-Library.Monad_Syntax"
begin

text \<open>
  The room actor (\<^verbatim>\<open>room.go\<close> with the messages of \<^verbatim>\<open>types.go\<close>). The actor's fields are a record,
  the behaviour installed by \<^verbatim>\<open>Become\<close> is one of them, and what the actor tells, publishes,
  schedules and spawns is appended to \<open>outbox\<close>. What a handler reads from its context (the clock,
  the sender, whether a schedule call succeeds, fresh ids, the random source of a new bag) is the
  record \<open>Env\<close>. An operation returns \<open>None\<close> where the Go code panics. Times are nanoseconds; an
  actor reference is the path of its process id. The symbols the room signs its own chat lines
  with are not ASCII and are spelled out.
\<close>

section \<open>Messages and events\<close>

definition MinPlayers :: nat where "MinPlayers = 2"
definition MaxPlayers :: nat where "MaxPlayers = 4"
definition second :: int where "second = 1000000000"
definition millisecond :: int where "millisecond = 1000000"
definition turnDuration :: int where "turnDuration = 90 * second"
definition GameOverSecs :: int where "GameOverSecs = 30"
definition BotMoveDelayMs :: int where "BotMoveDelayMs = 700"
definition RoomActorPrefix :: string where "RoomActorPrefix = ''room.''"
definition RoomTopicPrefix :: string where "RoomTopicPrefix = ''room.''"
definition schedRefTurn :: string where "schedRefTurn = ''turn.''"
definition schedRefShutdown :: string where "schedRefShutdown = ''shutdown.''"
definition schedRefBotMove :: string where "schedRefBotMove = ''botmove.''"

datatype Phase = PhaseWaiting | PhasePlaying | PhasePaused | PhaseGameOver

datatype InType =
    InTypeStart | InTypeAddBot | InTypeRemoveBot | InTypePlace | InTypeExchange | InTypePass
  | InTypePause | InTypeResume | InTypeChat | InTypePlayAgain | InTypeOther string

record WSIn =
  In_Type :: InType
  In_Placements :: "PlacementWire list"
  In_Indices :: "int list"
  In_Text :: string
  In_Seat :: int

record PlayerView =
  PV_ID :: string
  PV_Name :: string
  PV_Score :: int
  PV_RackSize :: nat
  PV_Bot :: bool

record ScoreEntry =
  SE_PlayerID :: string
  SE_Name :: string
  SE_Score :: int

record LeaderboardEntry =
  LE_PlayerID :: string
  LE_Name :: string
  LE_Wins :: int

record StateEvent =
  St_Phase :: Phase
  St_Board :: "string list list"
  St_Players :: "PlayerView list"
  St_CurrentID :: string
  St_OwnerID :: string
  St_BagRemaining :: nat
  St_TimerMs :: int
  St_PerRack :: "string \<rightharpoonup> string list"

record MoveEvent =
  Mv_PlayerID :: string
  Mv_Name :: string
  Mv_Placements :: "PlacementWire list"
  Mv_Words :: "FormedWordWire list"
  Mv_Score :: int
  Mv_NewTotal :: int
  Mv_Bingo :: bool

record JoinedEvent =
  Jn_For :: string
  Jn_Room :: string
  Jn_Language :: string
  Jn_PlayerID :: string
  Jn_Owner :: bool
  Jn_Name :: string

record GameOverEvent =
  GO_WinnerID :: string
  GO_WinnerName :: string
  GO_Scores :: "ScoreEntry list"
  GO_Leaderboard :: "LeaderboardEntry list"

text \<open>The error texts the room sends, by where they come from.\<close>

datatype room_error =
    NotYourTurn | TilesNotInRack | RoomFull
  | WireErr wire_error | MoveErr move_error | BoardErr board_error | RackErr rack_error

datatype room_event =
    EvJoined JoinedEvent
  | EvState StateEvent
  | EvMove MoveEvent
  | EvChat string string
  | EvError string room_error
  | EvGameOver GameOverEvent

datatype room_msg =
    PostStart
  | PlayerHello string string string
  | GoodbyePlayer string
  | Terminated string
  | PlayerInput string WSIn
  | BotPlayMsg BotPlay
  | TurnTimeout
  | ShutdownRoom
  | LeaderboardTop "LeaderboardEntry list"
  | OtherMsg

datatype scheduled = SchedTurnTimeout | SchedShutdownRoom | SchedYourTurn YourTurn

datatype effect =
    Publish string room_event
  | Tell "string option" room_event
  | Schedule string scheduled "string option" int
  | CancelSchedule string
  | Watch string
  | SpawnBot string
  | TellShutdownBot string
  | RememberName string string
  | RecordGrain string string bool int
  | RecordWinTop string string string
  | Shutdown
  | Unhandled

section \<open>State\<close>

record roomPlayer =
  rp_id :: string
  rp_name :: string
  rp_sessionName :: string
  rp_sessionPID :: "string option"
  rp_score :: int
  rp_rack :: "Rack option"
  rp_bot :: bool
  rp_botPID :: "string option"

datatype behavior = waitingBehavior | playingBehavior | pauseBehavior | gameOverBehavior

record RoomActor =
  code :: string
  language :: string
  room_bundle :: LangBundle
  leaderboard :: bool
  players :: "roomPlayer list"
  ownerID :: string
  bag :: "Bag option"
  board :: "Board option"
  currentIdx :: int
  scorelessTurns :: nat
  turnDeadline :: "int option"
  pausedRemaining :: int
  schedSuffix :: string
  activeRefs :: "string set"
  topic :: string
  hadPlayer :: bool
  behavior :: behavior
  outbox :: "effect list"

record Env =
  now :: int
  sender :: "string option"
  topicActor :: bool
  schedule_ok :: "string \<Rightarrow> bool"
  roomRNG :: rng
  newID :: string
  spawned :: "string option"

type_synonym room_op = "RoomActor \<Rightarrow> RoomActor option"

section \<open>Players\<close>

definition emit :: "effect \<Rightarrow> RoomActor \<Rightarrow> RoomActor" where
  "emit e r = r\<lparr>outbox := outbox r @ [e]\<rparr>"

definition publish :: "Env \<Rightarrow> room_event \<Rightarrow> RoomActor \<Rightarrow> RoomActor" where
  "publish env evt r = (if topicActor env then emit (Publish (topic r) evt) r else r)"

definition currentPlayer :: "RoomActor \<Rightarrow> roomPlayer option" where
  "currentPlayer r =
     (if currentIdx r < 0 \<or> currentIdx r \<ge> int (length (players r)) then None
      else Some (players r ! nat (currentIdx r)))"

definition playerByID :: "RoomActor \<Rightarrow> string \<Rightarrow> roomPlayer option" where
  "playerByID r pid = find (\<lambda>p. rp_id p = pid) (players r)"

definition nameFor :: "RoomActor \<Rightarrow> string \<Rightarrow> string" where
  "nameFor r pid = (case playerByID r pid of Some p \<Rightarrow> rp_name p | None \<Rightarrow> pid)"

fun computeWinner_loop :: "roomPlayer list \<Rightarrow> int \<Rightarrow> string \<times> string \<Rightarrow> string \<times> string" where
  "computeWinner_loop [] best winner = winner"
| "computeWinner_loop (p # ps) best winner =
     (if rp_score p > best then computeWinner_loop ps (rp_score p) (rp_id p, rp_name p)
      else computeWinner_loop ps best winner)"

definition computeWinner :: "RoomActor \<Rightarrow> string \<times> string" where
  "computeWinner r = computeWinner_loop (players r) (- 1) ([], [])"

definition scoreEntries :: "RoomActor \<Rightarrow> ScoreEntry list" where
  "scoreEntries r =
     map (\<lambda>p. \<lparr>SE_PlayerID = rp_id p, SE_Name = rp_name p, SE_Score = rp_score p\<rparr>) (players r)"

definition playerViews :: "RoomActor \<Rightarrow> PlayerView list" where
  "playerViews r =
     map (\<lambda>p. \<lparr>PV_ID = rp_id p, PV_Name = rp_name p, PV_Score = rp_score p,
               PV_RackSize = (case rp_rack p of Some k \<Rightarrow> Rack_Size k | None \<Rightarrow> 0),
               PV_Bot = rp_bot p\<rparr>) (players r)"

text \<open>The racks every player gets to see his own of, keyed by player id.\<close>

fun perRack :: "roomPlayer list \<Rightarrow> Language \<Rightarrow> (string \<rightharpoonup> string list) \<Rightarrow> (string \<rightharpoonup> string list) option" where
  "perRack [] lang m = Some m"
| "perRack (p # ps) lang m =
     (case rp_rack p of
        None \<Rightarrow> perRack ps lang m
      | Some k \<Rightarrow> Option.bind (rackToWire k lang) (\<lambda>w. perRack ps lang (m(rp_id p \<mapsto> w))))"

definition broadcastState :: "Env \<Rightarrow> Phase \<Rightarrow> room_op" where
  "broadcastState env phase r =
     do {
       grid \<leftarrow> (case board r of
                 Some b \<Rightarrow> boardToWire b (Bundle_Lang (room_bundle r))
               | None \<Rightarrow> Some emptyBoardWire);
       racks \<leftarrow> perRack (players r) (Bundle_Lang (room_bundle r)) Map.empty;
       Some (publish env (EvState
         \<lparr>St_Phase = phase, St_Board = grid, St_Players = playerViews r,
          St_CurrentID = (case currentPlayer r of
             Some p \<Rightarrow> if phase = PhasePlaying then rp_id p else []
           | None \<Rightarrow> []),
          St_OwnerID = ownerID r,
          St_BagRemaining = (case bag r of Some b \<Rightarrow> Remaining b | None \<Rightarrow> 0),
          St_TimerMs = (case turnDeadline r of
             Some d \<Rightarrow> if phase = PhasePlaying \<and> d - now env > 0
                       then (d - now env) div millisecond else 0
           | None \<Rightarrow> 0),
          St_PerRack = racks\<rparr>) r)
     }"

definition tellError :: "string \<Rightarrow> room_error \<Rightarrow> RoomActor \<Rightarrow> RoomActor" where
  "tellError pid msg r =
     (case playerByID r pid of
        None \<Rightarrow> r
      | Some p \<Rightarrow>
          (case rp_sessionPID p of
             None \<Rightarrow> r
           | Some session \<Rightarrow> emit (Tell (Some session) (EvError pid msg)) r))"

definition sendJoined :: "Env \<Rightarrow> string \<Rightarrow> string \<Rightarrow> RoomActor \<Rightarrow> RoomActor" where
  "sendJoined env pid name r =
     (case sender env of
        None \<Rightarrow> r
      | Some s \<Rightarrow>
          emit (Tell (Some s) (EvJoined
            \<lparr>Jn_For = pid, Jn_Room = code r, Jn_Language = language r, Jn_PlayerID = pid,
             Jn_Owner = (pid = ownerID r), Jn_Name = name\<rparr>)) r)"

definition schedule :: "Env \<Rightarrow> scheduled \<Rightarrow> int \<Rightarrow> string \<Rightarrow> RoomActor \<Rightarrow> RoomActor" where
  "schedule env msg delay refPrefix r =
     (let ref = refPrefix @ schedSuffix r in
      if \<not> schedule_ok env ref then r
      else (emit (Schedule ref msg None delay) r)\<lparr>activeRefs := insert ref (activeRefs r)\<rparr>)"

definition cancelSchedule :: "string \<Rightarrow> RoomActor \<Rightarrow> RoomActor" where
  "cancelSchedule refPrefix r =
     (let ref = refPrefix @ schedSuffix r in
      if ref \<notin> activeRefs r then r
      else (emit (CancelSchedule ref) r)\<lparr>activeRefs := activeRefs r - {ref}\<rparr>)"

definition maybeShutdown :: "RoomActor \<Rightarrow> RoomActor" where
  "maybeShutdown r =
     (let humans = length (filter (\<lambda>p. \<not> rp_bot p) (players r)) in
      if hadPlayer r \<and> humans = 0 then emit Shutdown r else r)"

definition new_player :: "string \<Rightarrow> string \<Rightarrow> string \<Rightarrow> string option \<Rightarrow> roomPlayer" where
  "new_player pid name session s =
     \<lparr>rp_id = pid, rp_name = name, rp_sessionName = session, rp_sessionPID = s, rp_score = 0,
      rp_rack = None, rp_bot = False, rp_botPID = None\<rparr>"

definition watch :: "string option \<Rightarrow> RoomActor \<Rightarrow> RoomActor" where
  "watch s r = (case s of Some p \<Rightarrow> emit (Watch p) r | None \<Rightarrow> r)"

definition addPlayer :: "Env \<Rightarrow> string \<Rightarrow> string \<Rightarrow> string \<Rightarrow> RoomActor \<Rightarrow> bool \<times> RoomActor" where
  "addPlayer env pid name session r =
     (let r = (if leaderboard r then emit (RememberName pid name) r else r) in
      case find_index (\<lambda>p. rp_id p = pid) (players r) of
        Some i \<Rightarrow>
          (True, watch (sender env)
             (r\<lparr>players := (players r)[i := (players r ! i)\<lparr>rp_sessionName := session,
                  rp_sessionPID := sender env, rp_name := name\<rparr>]\<rparr>))
      | None \<Rightarrow>
          (if length (players r) \<ge> MaxPlayers
           then (False, emit (Tell (sender env) (EvError pid RoomFull)) r)
           else
             (True, watch (sender env)
                (r\<lparr>players := players r @ [new_player pid name session (sender env)],
                   ownerID := (if ownerID r = [] then pid else ownerID r),
                   hadPlayer := True\<rparr>))))"

definition addBot :: "Env \<Rightarrow> room_op" where
  "addBot env r =
     (if length (players r) \<ge> MaxPlayers then Some r
      else
        let botID = ''bot-'' @ newID env;
            botName = ''Bot '' @ ToUpper (drop (length botID - 3) botID);
            r = emit (SpawnBot (BotActorPrefix @ language r @ ''.'' @ code r @ ''.'' @ botID)) r in
        case spawned env of
          None \<Rightarrow> Some r
        | Some pid \<Rightarrow>
            broadcastState env PhaseWaiting
              (r\<lparr>players := players r @
                   [\<lparr>rp_id = botID, rp_name = botName, rp_sessionName = [], rp_sessionPID = None,
                     rp_score = 0, rp_rack = None, rp_bot = True, rp_botPID = Some pid\<rparr>]\<rparr>))"

definition removeBot :: "Env \<Rightarrow> int \<Rightarrow> room_op" where
  "removeBot env seat r =
     (if seat < 0 \<or> seat \<ge> int (length (players r)) then Some r
      else let target = players r ! nat seat in
        if \<not> rp_bot target then Some r
        else
          let r = (case rp_botPID target of Some pid \<Rightarrow> emit (TellShutdownBot pid) r | None \<Rightarrow> r) in
          broadcastState env PhaseWaiting (r\<lparr>players := remove_at (nat seat) (players r)\<rparr>))"

definition removePlayerByName :: "string \<Rightarrow> RoomActor \<Rightarrow> bool \<times> RoomActor" where
  "removePlayerByName name r =
     (case find_index (\<lambda>p. rp_sessionName p = name) (players r) of
        Some i \<Rightarrow> (True, r\<lparr>players := remove_at i (players r)\<rparr>)
      | None \<Rightarrow> (False, r))"

definition removePlayerByPath :: "string \<Rightarrow> RoomActor \<Rightarrow> bool \<times> RoomActor" where
  "removePlayerByPath path r =
     (case find_index (\<lambda>p. rp_sessionPID p = Some path) (players r) of
        Some i \<Rightarrow> (True, r\<lparr>players := remove_at i (players r)\<rparr>)
      | None \<Rightarrow> (False, r))"

section \<open>The game\<close>

definition become :: "behavior \<Rightarrow> RoomActor \<Rightarrow> RoomActor" where
  "become b r = r\<lparr>behavior := b\<rparr>"

definition set_player :: "nat \<Rightarrow> roomPlayer \<Rightarrow> RoomActor \<Rightarrow> RoomActor" where
  "set_player i p r = r\<lparr>players := (players r)[i := p]\<rparr>"

definition scheduleBotMove :: "Env \<Rightarrow> roomPlayer \<Rightarrow> room_op" where
  "scheduleBotMove env seat r =
     do {
       b \<leftarrow> board r;
       grid \<leftarrow> boardToWire b (Bundle_Lang (room_bundle r));
       k \<leftarrow> rp_rack seat;
       rack \<leftarrow> rackToWire k (Bundle_Lang (room_bundle r));
       let turn = \<lparr>YT_BotID = rp_id seat, YT_Board = grid, YT_Rack = rack\<rparr>;
           ref = schedRefBotMove @ schedSuffix r @ ''.'' @ rp_id seat in
       if \<not> schedule_ok env ref then Some r
       else Some ((emit (Schedule ref (SchedYourTurn turn) (rp_botPID seat)
                          (BotMoveDelayMs * millisecond)) r)
                    \<lparr>activeRefs := insert ref (activeRefs r)\<rparr>)
     }"

definition kickBot :: "Env \<Rightarrow> room_op" where
  "kickBot env r =
     (case currentPlayer r of
        Some p \<Rightarrow> if rp_bot p \<and> rp_botPID p \<noteq> None then scheduleBotMove env p r else Some r
      | None \<Rightarrow> Some r)"

definition beginTurn :: "Env \<Rightarrow> room_op" where
  "beginTurn env r =
     do {
       r \<leftarrow> broadcastState env PhasePlaying
              (schedule env SchedTurnTimeout turnDuration schedRefTurn
                (r\<lparr>turnDeadline := Some (now env + turnDuration)\<rparr>));
       kickBot env r
     }"

definition advanceTurn :: "Env \<Rightarrow> room_op" where
  "advanceTurn env r =
     (let r = cancelSchedule schedRefTurn r in
      if length (players r) = 0 then None
      else beginTurn env (r\<lparr>currentIdx := (currentIdx r + 1) mod int (length (players r))\<rparr>))"

fun deal :: "roomPlayer list \<Rightarrow> Bag \<Rightarrow> roomPlayer list \<times> Bag" where
  "deal [] b = ([], b)"
| "deal (p # ps) b =
     (let (k, b1) = Refill NewRack b; (ps', b2) = deal ps b1
      in (p\<lparr>rp_rack := Some k, rp_score := 0\<rparr> # ps', b2))"

definition startGame :: "Env \<Rightarrow> room_op" where
  "startGame env r =
     (let (ps, b) = deal (players r) (NewBag (Bundle_Lang (room_bundle r)) (roomRNG env)) in
      beginTurn env (become playingBehavior
        (r\<lparr>bag := Some b, board := Some NewBoard, currentIdx := 0, scorelessTurns := 0,
           players := ps\<rparr>)))"

definition recordResults :: "string \<Rightarrow> RoomActor \<Rightarrow> RoomActor" where
  "recordResults winnerID r =
     (let humans = filter (\<lambda>p. \<not> rp_bot p) (players r);
          r = fold (\<lambda>p. emit (RecordGrain (rp_id p) (rp_name p) (rp_id p = winnerID) (rp_score p))) humans r in
      if winnerID = [] \<or> \<not> leaderboard r then r
      else emit (RecordWinTop (language r) winnerID
             (case playerByID r winnerID of Some p \<Rightarrow> rp_name p | None \<Rightarrow> [])) r)"

definition enterGameOver :: "Env \<Rightarrow> room_op" where
  "enterGameOver env r =
     (let r = cancelSchedule schedRefTurn r in
      do {
        final \<leftarrow> FinalScores (map rp_score (players r)) (map rp_rack (players r))
                   (Bundle_Lang (room_bundle r));
        let r = r\<lparr>players := map2 (\<lambda>p n. p\<lparr>rp_score := n\<rparr>) (players r) final\<rparr>;
            (winnerID, winnerName) = computeWinner r;
            r = publish env (EvGameOver \<lparr>GO_WinnerID = winnerID, GO_WinnerName = winnerName,
                  GO_Scores = scoreEntries r, GO_Leaderboard = []\<rparr>) r;
            r = recordResults winnerID r in
        do {
          r \<leftarrow> broadcastState env PhaseGameOver r;
          Some (become gameOverBehavior
            (schedule env SchedShutdownRoom (GameOverSecs * second) schedRefShutdown r))
        }
      })"

definition checkGameOver :: "Env \<Rightarrow> RoomActor \<Rightarrow> (bool \<times> RoomActor) option" where
  "checkGameOver env r =
     do {
       b \<leftarrow> bag r;
       over \<leftarrow> IsGameOver b (map rp_rack (players r)) (scorelessTurns r);
       if \<not> over then Some (False, r) else map_option (Pair True) (enterGameOver env r)
     }"

text \<open>What all three moves end with: the game is over or the turn passes on.\<close>

definition endTurn :: "Env \<Rightarrow> room_op" where
  "endTurn env r =
     do {
       (over, r) \<leftarrow> checkGameOver env r;
       if over then Some r else advanceTurn env r
     }"

definition applyPlace :: "Env \<Rightarrow> string \<Rightarrow> PlacementWire list \<Rightarrow> room_op" where
  "applyPlace env playerID wires r =
     (case currentPlayer r of
        None \<Rightarrow> Some (tellError playerID NotYourTurn r)
      | Some current \<Rightarrow>
          if rp_id current \<noteq> playerID then Some (tellError playerID NotYourTurn r)
          else case toEnginePlacements wires (Bundle_Lang (room_bundle r)) of
            Panic \<Rightarrow> None
          | Err e \<Rightarrow> Some (tellError playerID (WireErr e) r)
          | Ok placements \<Rightarrow>
              do {
                rack \<leftarrow> rp_rack current;
                let i = nat (currentIdx r) in
                case Rack_Remove rack (tilesUsed placements) of
                  Panic \<Rightarrow> None
                | Err e \<Rightarrow> Some (tellError playerID TilesNotInRack r)
                | Ok (taken, left) \<Rightarrow>
                    do {
                      b \<leftarrow> board r;
                      let move = \<lparr>Placements = placements\<rparr>;
                          restored = set_player i (current\<lparr>rp_rack := Some (Rack_Add taken left)\<rparr>) r in
                      case Validate move b (Contains (Bundle_Dawg (room_bundle r)))
                             (Bundle_Lang (room_bundle r)) of
                        Panic \<Rightarrow> None
                      | Err e \<Rightarrow> Some (tellError playerID (MoveErr e) restored)
                      | Ok result \<Rightarrow>
                          (case Apply move b of
                             Panic \<Rightarrow> None
                           | Err (e, b') \<Rightarrow>
                               Some (tellError playerID (BoardErr e) (restored\<lparr>board := Some b'\<rparr>))
                           | Ok b' \<Rightarrow>
                               do {
                                 bg \<leftarrow> bag r;
                                 let (full, bg') = Refill left bg;
                                     current = current\<lparr>rp_score := rp_score current + MR_Score result,
                                                       rp_rack := Some full\<rparr>;
                                     r = (set_player i current r)\<lparr>board := Some b', bag := Some bg',
                                                                   scorelessTurns := 0\<rparr>;
                                     r = publish env (EvMove
                                       \<lparr>Mv_PlayerID = rp_id current, Mv_Name = rp_name current,
                                        Mv_Placements = wires, Mv_Words = formedWords result,
                                        Mv_Score = MR_Score result, Mv_NewTotal = rp_score current,
                                        Mv_Bingo = MR_Bingo result\<rparr>) r in
                                 endTurn env r
                               })
                    }
              })"

text \<open>\<open>Exchange\<close> through the rack pointer: a nil rack panics once the code reads its tiles.\<close>

definition ptr_Exchange :: "Rack option \<Rightarrow> int list \<Rightarrow> Bag \<Rightarrow> (rack_error, Rack \<times> Bag) res" where
  "ptr_Exchange rack indices b =
     (case rack of
        Some k \<Rightarrow> Exchange k indices b
      | None \<Rightarrow>
          if Remaining b < RackSize then Err (BagTooSmall (Remaining b))
          else (case indices of
                  idx # _ \<Rightarrow> if idx < 0 then Err (ExchangeOutOfRange idx) else Panic
                | [] \<Rightarrow> Panic))"

definition applyExchange :: "Env \<Rightarrow> string \<Rightarrow> int list \<Rightarrow> room_op" where
  "applyExchange env playerID indices r =
     (case currentPlayer r of
        None \<Rightarrow> Some (tellError playerID NotYourTurn r)
      | Some current \<Rightarrow>
          if rp_id current \<noteq> playerID then Some (tellError playerID NotYourTurn r)
          else do {
            bg \<leftarrow> bag r;
            case ptr_Exchange (rp_rack current) indices bg of
              Panic \<Rightarrow> None
            | Err e \<Rightarrow> Some (tellError playerID (RackErr e) r)
            | Ok (k, bg') \<Rightarrow>
                endTurn env
                  ((set_player (nat (currentIdx r)) (current\<lparr>rp_rack := Some k\<rparr>) r)
                     \<lparr>bag := Some bg', scorelessTurns := scorelessTurns r + 1\<rparr>)
          })"

definition applyPass :: "Env \<Rightarrow> string \<Rightarrow> bool \<Rightarrow> room_op" where
  "applyPass env playerID timedOut r =
     (case currentPlayer r of
        Some current \<Rightarrow>
          if rp_id current = playerID
          then endTurn env (r\<lparr>scorelessTurns := scorelessTurns r + 1\<rparr>)
          else Some (if timedOut then r else tellError playerID NotYourTurn r)
      | None \<Rightarrow> Some (if timedOut then r else tellError playerID NotYourTurn r))"

definition handleBotPlay :: "Env \<Rightarrow> BotPlay \<Rightarrow> room_op" where
  "handleBotPlay env play r =
     (case currentPlayer r of
        None \<Rightarrow> Some r
      | Some current \<Rightarrow>
          if rp_id current \<noteq> BP_BotID play then Some r
          else if length (BP_Placements play) = 0 then applyPass env (BP_BotID play) False r
          else applyPlace env (BP_BotID play) (BP_Placements play) r)"

definition cancelBotMove :: "RoomActor \<Rightarrow> RoomActor" where
  "cancelBotMove r =
     (case currentPlayer r of
        None \<Rightarrow> r
      | Some current \<Rightarrow>
          if \<not> rp_bot current then r
          else let ref = schedRefBotMove @ schedSuffix r @ ''.'' @ rp_id current in
            if ref \<notin> activeRefs r then r
            else (emit (CancelSchedule ref) r)\<lparr>activeRefs := activeRefs r - {ref}\<rparr>)"

text \<open>The remaining time of the zero deadline is negative, so it is raised to one second.\<close>

definition pauseGame :: "Env \<Rightarrow> string \<Rightarrow> room_op" where
  "pauseGame env playerID r =
     (let r = cancelBotMove (cancelSchedule schedRefTurn r);
          remaining = (case turnDeadline r of Some d \<Rightarrow> max (d - now env) second | None \<Rightarrow> second);
          r = r\<lparr>pausedRemaining := remaining, turnDeadline := None\<rparr>;
          r = publish env (EvChat ''paused'' (nameFor r playerID @ '' paused the game'')) r in
      broadcastState env PhasePaused (become pauseBehavior r))"

definition resumeGame :: "Env \<Rightarrow> string \<Rightarrow> room_op" where
  "resumeGame env playerID r =
     (let remaining = (if pausedRemaining r \<le> 0 then turnDuration else pausedRemaining r);
          r = schedule env SchedTurnTimeout remaining schedRefTurn
                (r\<lparr>pausedRemaining := 0, turnDeadline := Some (now env + remaining)\<rparr>);
          r = publish env (EvChat ''resumed'' (nameFor r playerID @ '' resumed the game'')) r in
      do {
        r \<leftarrow> broadcastState env PhasePlaying (become playingBehavior r);
        kickBot env r
      })"

definition restartGame :: "Env \<Rightarrow> string \<Rightarrow> room_op" where
  "restartGame env byPlayerID r =
     (let r = cancelSchedule schedRefShutdown r;
          r = publish env (EvChat ''restart'' (nameFor r byPlayerID @ '' started a new game'')) r in
      if length (players r) < MinPlayers
      then map_option (become waitingBehavior) (broadcastState env PhaseWaiting r)
      else startGame env r)"

section \<open>Behaviours\<close>

definition chat :: "Env \<Rightarrow> string \<Rightarrow> WSIn \<Rightarrow> RoomActor \<Rightarrow> RoomActor" where
  "chat env playerID inp r = publish env (EvChat (nameFor r playerID) (In_Text inp)) r"

text \<open>A hello in any behaviour: join, greet, broadcast.\<close>

definition hello :: "Env \<Rightarrow> Phase \<Rightarrow> string \<Rightarrow> string \<Rightarrow> string \<Rightarrow> room_op" where
  "hello env phase pid name session r =
     (let (joined, r) = addPlayer env pid name session r in
      if joined then broadcastState env phase (sendJoined env pid name r) else Some r)"

definition on_waiting :: "Env \<Rightarrow> room_msg \<Rightarrow> room_op" where
  "on_waiting env msg r =
     (case msg of
        PlayerHello pid name session \<Rightarrow> hello env PhaseWaiting pid name session r
      | GoodbyePlayer name \<Rightarrow>
          (let (gone, r) = removePlayerByName name r in
           map_option maybeShutdown (if gone then broadcastState env PhaseWaiting r else Some r))
      | Terminated path \<Rightarrow>
          (let (gone, r) = removePlayerByPath path r in
           map_option maybeShutdown (if gone then broadcastState env PhaseWaiting r else Some r))
      | PlayerInput pid inp \<Rightarrow>
          (case In_Type inp of
             InTypeStart \<Rightarrow>
               if pid \<noteq> ownerID r \<or> length (players r) < MinPlayers then Some r else startGame env r
           | InTypeAddBot \<Rightarrow> if pid \<noteq> ownerID r then Some r else addBot env r
           | InTypeRemoveBot \<Rightarrow> if pid \<noteq> ownerID r then Some r else removeBot env (In_Seat inp) r
           | InTypeChat \<Rightarrow> Some (chat env pid inp r)
           | _ \<Rightarrow> Some r)
      | _ \<Rightarrow> Some (emit Unhandled r))"

definition handlePlayingInput :: "Env \<Rightarrow> string \<Rightarrow> WSIn \<Rightarrow> room_op" where
  "handlePlayingInput env pid inp r =
     (case In_Type inp of
        InTypePlace \<Rightarrow> applyPlace env pid (In_Placements inp) r
      | InTypeExchange \<Rightarrow> applyExchange env pid (In_Indices inp) r
      | InTypePass \<Rightarrow> applyPass env pid False r
      | InTypePause \<Rightarrow> pauseGame env pid r
      | InTypeChat \<Rightarrow> Some (chat env pid inp r)
      | _ \<Rightarrow> Some r)"

definition on_playing :: "Env \<Rightarrow> room_msg \<Rightarrow> room_op" where
  "on_playing env msg r =
     (case msg of
        PlayerHello pid name session \<Rightarrow> hello env PhasePlaying pid name session r
      | GoodbyePlayer name \<Rightarrow> Some (maybeShutdown (snd (removePlayerByName name r)))
      | Terminated path \<Rightarrow> Some (maybeShutdown (snd (removePlayerByPath path r)))
      | PlayerInput pid inp \<Rightarrow> handlePlayingInput env pid inp r
      | BotPlayMsg play \<Rightarrow> handleBotPlay env play r
      | TurnTimeout \<Rightarrow>
          (case currentPlayer r of None \<Rightarrow> None | Some p \<Rightarrow> applyPass env (rp_id p) True r)
      | _ \<Rightarrow> Some (emit Unhandled r))"

definition on_pause :: "Env \<Rightarrow> room_msg \<Rightarrow> room_op" where
  "on_pause env msg r =
     (case msg of
        PlayerHello pid name session \<Rightarrow> hello env PhasePaused pid name session r
      | GoodbyePlayer name \<Rightarrow> Some (maybeShutdown (snd (removePlayerByName name r)))
      | Terminated path \<Rightarrow> Some (maybeShutdown (snd (removePlayerByPath path r)))
      | PlayerInput pid inp \<Rightarrow>
          (case In_Type inp of
             InTypeResume \<Rightarrow> resumeGame env pid r
           | InTypeChat \<Rightarrow> Some (chat env pid inp r)
           | _ \<Rightarrow> Some r)
      | BotPlayMsg play \<Rightarrow> Some r
      | _ \<Rightarrow> Some (emit Unhandled r))"

definition on_gameOver :: "Env \<Rightarrow> room_msg \<Rightarrow> room_op" where
  "on_gameOver env msg r =
     (case msg of
        LeaderboardTop entries \<Rightarrow>
          (let (winnerID, winnerName) = computeWinner r in
           Some (publish env (EvGameOver \<lparr>GO_WinnerID = winnerID, GO_WinnerName = winnerName,
                   GO_Scores = scoreEntries r, GO_Leaderboard = entries\<rparr>) r))
      | PlayerHello pid name session \<Rightarrow> hello env PhaseGameOver pid name session r
      | GoodbyePlayer name \<Rightarrow> Some (snd (removePlayerByName name r))
      | Terminated path \<Rightarrow> Some (snd (removePlayerByPath path r))
      | PlayerInput pid inp \<Rightarrow>
          (case In_Type inp of
             InTypePlayAgain \<Rightarrow> restartGame env pid r
           | InTypeChat \<Rightarrow> Some (chat env pid inp r)
           | _ \<Rightarrow> Some r)
      | ShutdownRoom \<Rightarrow> Some (emit Shutdown r)
      | _ \<Rightarrow> Some (emit Unhandled r))"

definition room_receive :: "Env \<Rightarrow> room_msg \<Rightarrow> room_op" where
  "room_receive env msg r =
     (case behavior r of
        waitingBehavior \<Rightarrow> on_waiting env msg r
      | playingBehavior \<Rightarrow> on_playing env msg r
      | pauseBehavior \<Rightarrow> on_pause env msg r
      | gameOverBehavior \<Rightarrow> on_gameOver env msg r)"

text \<open>
  \<open>Receive\<close> of a fresh actor at \<^verbatim>\<open>PostStart\<close>: the room it becomes, or \<open>None\<close> when it shuts itself
  down (a malformed name, no registry, an unknown language).
\<close>

definition room_PostStart :: "string \<Rightarrow> Registry option \<Rightarrow> bool \<Rightarrow> RoomActor option" where
  "room_PostStart self ext has_leaderboard =
     (case Cut (TrimPrefix self RoomActorPrefix) CHR ''.'' of
        None \<Rightarrow> None
      | Some (lang, cd) \<Rightarrow>
          (case ext of
             None \<Rightarrow> None
           | Some registry \<Rightarrow>
               (case Registry_Get registry lang of
                  Ok b \<Rightarrow>
                    Some \<lparr>code = ToUpper cd, language = lang, room_bundle = b,
                          leaderboard = has_leaderboard, players = [], ownerID = [], bag = None,
                          board = None, currentIdx = 0, scorelessTurns = 0, turnDeadline = None,
                          pausedRemaining = 0, schedSuffix = ''.'' @ self, activeRefs = {},
                          topic = RoomTopicPrefix @ ToUpper cd, hadPlayer = False,
                          behavior = waitingBehavior, outbox = []\<rparr>
                | _ \<Rightarrow> None)))"

end
