(* ===== verification/Scrabble_Room_Inv.thy ===== *)
theory Scrabble_Room_Inv
  imports Scrabble_Room
begin

text \<open>
  The invariants of a room at play: the tiles of the bag, the racks and the board are well formed,
  no handler panics while every seat was dealt a rack, and the tiles on the table are conserved by
  every message but a departure.
\<close>

section \<open>What the auxiliary operations leave alone\<close>

lemma emit_frame [simp]:
  "players (emit e r) = players r" "bag (emit e r) = bag r" "board (emit e r) = board r"
  "currentIdx (emit e r) = currentIdx r" "scorelessTurns (emit e r) = scorelessTurns r"
  "room_bundle (emit e r) = room_bundle r" "behavior (emit e r) = behavior r"
  "turnDeadline (emit e r) = turnDeadline r" "ownerID (emit e r) = ownerID r"
  "language (emit e r) = language r" "leaderboard (emit e r) = leaderboard r"
  "hadPlayer (emit e r) = hadPlayer r" "pausedRemaining (emit e r) = pausedRemaining r"
  "schedSuffix (emit e r) = schedSuffix r" "activeRefs (emit e r) = activeRefs r"
  by (simp_all add: emit_def)

lemma publish_frame [simp]:
  "players (publish env e r) = players r" "bag (publish env e r) = bag r"
  "board (publish env e r) = board r" "currentIdx (publish env e r) = currentIdx r"
  "scorelessTurns (publish env e r) = scorelessTurns r" "room_bundle (publish env e r) = room_bundle r"
  "behavior (publish env e r) = behavior r" "turnDeadline (publish env e r) = turnDeadline r"
  "ownerID (publish env e r) = ownerID r" "language (publish env e r) = language r"
  "leaderboard (publish env e r) = leaderboard r" "hadPlayer (publish env e r) = hadPlayer r"
  "pausedRemaining (publish env e r) = pausedRemaining r"
  "schedSuffix (publish env e r) = schedSuffix r" "activeRefs (publish env e r) = activeRefs r"
  by (simp_all add: publish_def)

lemma tellError_frame [simp]:
  "players (tellError pid e r) = players r" "bag (tellError pid e r) = bag r"
  "board (tellError pid e r) = board r" "currentIdx (tellError pid e r) = currentIdx r"
  "scorelessTurns (tellError pid e r) = scorelessTurns r" "room_bundle (tellError pid e r) = room_bundle r"
  "behavior (tellError pid e r) = behavior r" "turnDeadline (tellError pid e r) = turnDeadline r"
  "ownerID (tellError pid e r) = ownerID r"
  by (simp_all add: tellError_def split: option.splits)

lemma schedule_frame [simp]:
  "players (schedule env m d p r) = players r" "bag (schedule env m d p r) = bag r"
  "board (schedule env m d p r) = board r" "currentIdx (schedule env m d p r) = currentIdx r"
  "scorelessTurns (schedule env m d p r) = scorelessTurns r"
  "room_bundle (schedule env m d p r) = room_bundle r" "behavior (schedule env m d p r) = behavior r"
  "turnDeadline (schedule env m d p r) = turnDeadline r" "ownerID (schedule env m d p r) = ownerID r"
  "pausedRemaining (schedule env m d p r) = pausedRemaining r"
  by (simp_all add: schedule_def Let_def)

lemma cancelSchedule_frame [simp]:
  "players (cancelSchedule p r) = players r" "bag (cancelSchedule p r) = bag r"
  "board (cancelSchedule p r) = board r" "currentIdx (cancelSchedule p r) = currentIdx r"
  "scorelessTurns (cancelSchedule p r) = scorelessTurns r"
  "room_bundle (cancelSchedule p r) = room_bundle r" "behavior (cancelSchedule p r) = behavior r"
  "turnDeadline (cancelSchedule p r) = turnDeadline r" "ownerID (cancelSchedule p r) = ownerID r"
  "pausedRemaining (cancelSchedule p r) = pausedRemaining r" "leaderboard (cancelSchedule p r) = leaderboard r"
  by (simp_all add: cancelSchedule_def Let_def)

lemma cancelBotMove_frame [simp]:
  "players (cancelBotMove r) = players r" "bag (cancelBotMove r) = bag r"
  "board (cancelBotMove r) = board r" "currentIdx (cancelBotMove r) = currentIdx r"
  "scorelessTurns (cancelBotMove r) = scorelessTurns r"
  "room_bundle (cancelBotMove r) = room_bundle r" "behavior (cancelBotMove r) = behavior r"
  "turnDeadline (cancelBotMove r) = turnDeadline r" "ownerID (cancelBotMove r) = ownerID r"
  by (simp_all add: cancelBotMove_def Let_def split: option.splits)

lemma become_frame [simp]:
  "players (become b r) = players r" "bag (become b r) = bag r" "board (become b r) = board r"
  "currentIdx (become b r) = currentIdx r" "scorelessTurns (become b r) = scorelessTurns r"
  "room_bundle (become b r) = room_bundle r" "behavior (become b r) = b"
  "turnDeadline (become b r) = turnDeadline r" "ownerID (become b r) = ownerID r"
  "pausedRemaining (become b r) = pausedRemaining r"
  by (simp_all add: become_def)

lemma watch_frame [simp]:
  "players (watch s r) = players r" "bag (watch s r) = bag r" "board (watch s r) = board r"
  "currentIdx (watch s r) = currentIdx r" "scorelessTurns (watch s r) = scorelessTurns r"
  "room_bundle (watch s r) = room_bundle r" "behavior (watch s r) = behavior r"
  "ownerID (watch s r) = ownerID r"
  by (simp_all add: watch_def split: option.splits)

lemma sendJoined_frame [simp]:
  "players (sendJoined env pid nm r) = players r" "bag (sendJoined env pid nm r) = bag r"
  "board (sendJoined env pid nm r) = board r" "currentIdx (sendJoined env pid nm r) = currentIdx r"
  "scorelessTurns (sendJoined env pid nm r) = scorelessTurns r"
  "room_bundle (sendJoined env pid nm r) = room_bundle r" "behavior (sendJoined env pid nm r) = behavior r"
  by (simp_all add: sendJoined_def split: option.splits)

lemma maybeShutdown_frame [simp]:
  "players (maybeShutdown r) = players r" "bag (maybeShutdown r) = bag r"
  "board (maybeShutdown r) = board r" "currentIdx (maybeShutdown r) = currentIdx r"
  "scorelessTurns (maybeShutdown r) = scorelessTurns r"
  "room_bundle (maybeShutdown r) = room_bundle r" "behavior (maybeShutdown r) = behavior r"
  by (simp_all add: maybeShutdown_def Let_def)

lemma recordResults_frame [simp]:
  "players (recordResults w r) = players r" "bag (recordResults w r) = bag r"
  "board (recordResults w r) = board r" "currentIdx (recordResults w r) = currentIdx r"
  "scorelessTurns (recordResults w r) = scorelessTurns r"
  "room_bundle (recordResults w r) = room_bundle r" "behavior (recordResults w r) = behavior r"
  "turnDeadline (recordResults w r) = turnDeadline r"
proof -
  have "players (fold (\<lambda>p. emit (f p)) ps r) = players r \<and> bag (fold (\<lambda>p. emit (f p)) ps r) = bag r \<and>
      board (fold (\<lambda>p. emit (f p)) ps r) = board r \<and>
      currentIdx (fold (\<lambda>p. emit (f p)) ps r) = currentIdx r \<and>
      scorelessTurns (fold (\<lambda>p. emit (f p)) ps r) = scorelessTurns r \<and>
      room_bundle (fold (\<lambda>p. emit (f p)) ps r) = room_bundle r \<and>
      behavior (fold (\<lambda>p. emit (f p)) ps r) = behavior r \<and>
      turnDeadline (fold (\<lambda>p. emit (f p)) ps r) = turnDeadline r"
    for f and ps :: "roomPlayer list"
    by (induction ps arbitrary: r) simp_all
  then show "players (recordResults w r) = players r" "bag (recordResults w r) = bag r"
    "board (recordResults w r) = board r" "currentIdx (recordResults w r) = currentIdx r"
    "scorelessTurns (recordResults w r) = scorelessTurns r"
    "room_bundle (recordResults w r) = room_bundle r" "behavior (recordResults w r) = behavior r"
    "turnDeadline (recordResults w r) = turnDeadline r"
    by (simp_all add: recordResults_def Let_def)
qed

section \<open>The table\<close>

text \<open>What is on the table: the seats, the bag, the board and the turn.\<close>

definition same_table :: "RoomActor \<Rightarrow> RoomActor \<Rightarrow> bool" where
  "same_table r r' \<longleftrightarrow> players r' = players r \<and> bag r' = bag r \<and> board r' = board r \<and>
     currentIdx r' = currentIdx r \<and> scorelessTurns r' = scorelessTurns r \<and>
     room_bundle r' = room_bundle r"

lemma same_table_refl [simp]: "same_table r r"
  by (simp add: same_table_def)

lemma currentPlayer_same: "same_table r r' \<Longrightarrow> currentPlayer r' = currentPlayer r"
  by (simp add: same_table_def currentPlayer_def)

lemma same_table_trans [trans]: "same_table r s \<Longrightarrow> same_table s t \<Longrightarrow> same_table r t"
  by (simp add: same_table_def)

definition bundle_ok :: "LangBundle \<Rightarrow> bool" where
  "bundle_ok B \<longleftrightarrow> wire_lang (Bundle_Lang B) \<and> Letters (Bundle_Lang B) \<noteq> [] \<and>
     AlphabetSize (Bundle_Lang B) \<le> maxAlphabetForBitset \<and>
     wf_dawg (Bundle_Dawg B) \<and> letters_below (AlphabetSize (Bundle_Lang B)) (Dawg_root (Bundle_Dawg B))"

definition rack_ok :: "Language \<Rightarrow> Rack \<Rightarrow> bool" where
  "rack_ok l k \<longleftrightarrow> list_all (hand_tile l) (Rack_tiles k) \<and> Rack_Size k \<le> RackSize"

definition board_ok :: "Language \<Rightarrow> Board \<Rightarrow> bool" where
  "board_ok l b \<longleftrightarrow> wf_board l b \<and> tidy_board b"

text \<open>A game that was dealt.\<close>

definition game_ok :: "RoomActor \<Rightarrow> bool" where
  "game_ok r \<longleftrightarrow>
     (let l = Bundle_Lang (room_bundle r) in
      bundle_ok (room_bundle r) \<and>
      (case bag r of Some bg \<Rightarrow> list_all (hand_tile l) (Bag_tiles bg) | None \<Rightarrow> False) \<and>
      (case board r of Some b \<Rightarrow> board_ok l b | None \<Rightarrow> False) \<and>
      (\<forall>p \<in> set (players r). case rp_rack p of Some k \<Rightarrow> rack_ok l k | None \<Rightarrow> True))"

lemma game_ok_same: "same_table r r' \<Longrightarrow> game_ok r' = game_ok r"
  by (simp add: same_table_def game_ok_def)

lemma game_okE:
  assumes "game_ok r"
  obtains bg b where "bag r = Some bg" "board r = Some b" "bundle_ok (room_bundle r)"
    "list_all (hand_tile (Bundle_Lang (room_bundle r))) (Bag_tiles bg)"
    "board_ok (Bundle_Lang (room_bundle r)) b"
    "\<forall>p k. p \<in> set (players r) \<longrightarrow> rp_rack p = Some k \<longrightarrow> rack_ok (Bundle_Lang (room_bundle r)) k"
  using assms by (force simp: game_ok_def Let_def split: option.splits)

lemma rack_ok_wf: "rack_ok l k \<Longrightarrow> list_all (wf_tile l) (Rack_tiles k)"
  by (auto simp: rack_ok_def list_all_iff intro: hand_tile_wf)

lemma perRack_total:
  assumes "wire_lang l" and "\<forall>p \<in> set ps. case rp_rack p of Some k \<Rightarrow> rack_ok l k | None \<Rightarrow> True"
  shows "\<exists>m'. perRack ps l m = Some m'"
  using assms(2)
proof (induction ps arbitrary: m)
  case (Cons p ps)
  then show ?case
    using wireToRack_rackToWire [OF assms(1) rack_ok_wf] by (fastforce split: option.splits)
qed simp

text \<open>A broadcast of a dealt game always succeeds and changes nothing but the outbox.\<close>

lemma broadcastState_ok:
  assumes "game_ok r"
  shows "\<exists>e. broadcastState env ph r = Some (publish env e r)"
proof -
  obtain bg b where g: "bag r = Some bg" "board r = Some b" "bundle_ok (room_bundle r)"
    "board_ok (Bundle_Lang (room_bundle r)) b"
    using assms by (rule game_okE)
  have l: "wire_lang (Bundle_Lang (room_bundle r))" using g(3) by (simp add: bundle_ok_def)
  obtain grid where "boardToWire b (Bundle_Lang (room_bundle r)) = Some grid"
    using wireToBoard_boardToWire [OF _ _ l, of b] g(4) by (auto simp: board_ok_def)
  moreover obtain m where "perRack (players r) (Bundle_Lang (room_bundle r)) Map.empty = Some m"
    using perRack_total [OF l, of "players r" Map.empty] assms by (auto simp: game_ok_def Let_def)
  ultimately show ?thesis using g(2) unfolding broadcastState_def by (simp, blast)
qed

lemma kickBot_ok:
  assumes g: "game_ok r" and seated: "\<And>p. currentPlayer r = Some p \<Longrightarrow> rp_rack p \<noteq> None"
  shows "\<exists>r'. kickBot env r = Some r' \<and> same_table r r' \<and> behavior r' = behavior r \<and>
     turnDeadline r' = turnDeadline r"
proof (cases "currentPlayer r")
  case None
  then show ?thesis by (simp add: kickBot_def)
next
  case (Some p)
  obtain bg b where b: "bag r = Some bg" "board r = Some b" "bundle_ok (room_bundle r)"
    "board_ok (Bundle_Lang (room_bundle r)) b"
    and rk: "\<forall>p k. p \<in> set (players r) \<longrightarrow> rp_rack p = Some k \<longrightarrow> rack_ok (Bundle_Lang (room_bundle r)) k"
    using g by (rule game_okE)
  have l: "wire_lang (Bundle_Lang (room_bundle r))" using b(3) by (simp add: bundle_ok_def)
  have p: "p \<in> set (players r)" using Some by (auto simp: currentPlayer_def split: if_splits)
  obtain k where k: "rp_rack p = Some k" using seated [OF Some] by auto
  obtain grid where "boardToWire b (Bundle_Lang (room_bundle r)) = Some grid"
    using wireToBoard_boardToWire [OF _ _ l, of b] b(4) by (auto simp: board_ok_def)
  moreover obtain ss where "rackToWire k (Bundle_Lang (room_bundle r)) = Some ss"
    using wireToRack_rackToWire [OF l rack_ok_wf [OF rk [rule_format, OF p k]]] by blast
  ultimately show ?thesis
    using Some k b(2) by (auto simp: kickBot_def scheduleBotMove_def Let_def same_table_def)
qed

text \<open>Every seat holds a rack and the turn is with one of them.\<close>

definition seated :: "RoomActor \<Rightarrow> bool" where
  "seated r \<longleftrightarrow> (\<forall>p \<in> set (players r). rp_rack p \<noteq> None) \<and>
     0 \<le> currentIdx r \<and> currentIdx r < int (length (players r))"

definition safe :: "RoomActor \<Rightarrow> bool" where
  "safe r \<longleftrightarrow> game_ok r \<and> seated r"

lemma seated_current:
  assumes "seated r"
  shows "currentPlayer r = Some (players r ! nat (currentIdx r))"
    and "nat (currentIdx r) < length (players r)"
  using assms by (auto simp: seated_def currentPlayer_def)

lemma beginTurn_ok:
  assumes "game_ok r" and "\<And>p. currentPlayer r = Some p \<Longrightarrow> rp_rack p \<noteq> None"
  shows "\<exists>r'. beginTurn env r = Some r' \<and> same_table r r' \<and> behavior r' = behavior r \<and>
     turnDeadline r' = Some (now env + turnDuration)"
proof -
  let ?r = "schedule env SchedTurnTimeout turnDuration schedRefTurn
      (r\<lparr>turnDeadline := Some (now env + turnDuration)\<rparr>)"
  have st: "same_table r ?r" by (simp add: same_table_def)
  then have "game_ok ?r" using assms(1) game_ok_same by blast
  then obtain e where e: "broadcastState env PhasePlaying ?r = Some (publish env e ?r)"
    using broadcastState_ok by blast
  let ?s = "publish env e ?r"
  have st': "same_table r ?s" by (simp add: same_table_def)
  have "game_ok ?s" using st' assms(1) game_ok_same by blast
  moreover have "rp_rack p \<noteq> None" if "currentPlayer ?s = Some p" for p
    using that assms(2) currentPlayer_same [OF st'] by simp
  ultimately obtain r' where "kickBot env ?s = Some r'" "same_table ?s r'" "behavior r' = behavior ?s"
    "turnDeadline r' = turnDeadline ?s" using kickBot_ok by blast
  with e st' same_table_trans [OF st'] show ?thesis by (simp add: beginTurn_def)
qed

definition next_seat :: "RoomActor \<Rightarrow> RoomActor" where
  "next_seat r = r\<lparr>currentIdx := (currentIdx r + 1) mod int (length (players r))\<rparr>"

lemma seated_next:
  assumes "seated r"
  shows "seated (next_seat r)"
proof -
  have "0 < int (length (players r))" using assms by (auto simp: seated_def)
  then show ?thesis using assms by (simp add: seated_def next_seat_def)
qed

lemma advanceTurn_ok:
  assumes "safe r"
  shows "\<exists>r'. advanceTurn env r = Some r' \<and> same_table (next_seat r) r' \<and> behavior r' = behavior r \<and>
     turnDeadline r' = Some (now env + turnDuration)"
proof -
  let ?c = "cancelSchedule schedRefTurn r"
  let ?r = "?c\<lparr>currentIdx := (currentIdx ?c + 1) mod int (length (players ?c))\<rparr>"
  have ne: "length (players r) \<noteq> 0" using assms by (auto simp: safe_def seated_def)
  have st: "same_table (next_seat r) ?r" by (simp add: same_table_def next_seat_def)
  have "game_ok (next_seat r)" using assms by (simp add: safe_def game_ok_def next_seat_def)
  then have "game_ok ?r" using game_ok_same [OF st] by simp
  moreover have "rp_rack p \<noteq> None" if "currentPlayer ?r = Some p" for p
  proof -
    have "p \<in> set (players r)" using that by (auto simp: currentPlayer_def split: if_splits)
    then show ?thesis using assms by (simp add: safe_def seated_def)
  qed
  ultimately obtain r' where "beginTurn env ?r = Some r'" "same_table ?r r'" "behavior r' = behavior ?r"
    "turnDeadline r' = Some (now env + turnDuration)" using beginTurn_ok [of ?r env] by blast
  with ne same_table_trans [OF st] show ?thesis by (simp add: advanceTurn_def Let_def)
qed

lemma seated_racks:
  assumes "safe r"
  obtains ks where "map rp_rack (players r) = map Some ks" "length ks = length (players r)"
    "list_all (rack_ok (Bundle_Lang (room_bundle r))) ks"
proof -
  let ?ks = "map (\<lambda>p. the (rp_rack p)) (players r)"
  have racks: "map rp_rack (players r) = map Some ?ks"
    using assms by (auto simp: safe_def seated_def)
  have "list_all (rack_ok (Bundle_Lang (room_bundle r))) ?ks"
    using assms by (auto simp: safe_def seated_def game_ok_def Let_def list_all_iff split: option.splits)
  then show thesis by (intro that [OF racks]) simp_all
qed

lemma FinalScores_room:
  assumes "safe r"
  obtains final where
    "FinalScores (map rp_score (players r)) (map rp_rack (players r)) (Bundle_Lang (room_bundle r)) = Some final"
    "length final = length (players r)"
proof -
  obtain ks where ks: "map rp_rack (players r) = map Some ks" "length ks = length (players r)"
    "list_all (rack_ok (Bundle_Lang (room_bundle r))) ks"
    using assms by (rule seated_racks)
  have l: "wf_lang (Bundle_Lang (room_bundle r))"
    using assms by (auto simp: safe_def game_ok_def Let_def bundle_ok_def wire_lang_def)
  have "list_all (\<lambda>k. list_all (wf_tile (Bundle_Lang (room_bundle r))) (Rack_tiles k)) ks"
    using ks(3) rack_ok_wf by (auto simp: list_all_iff)
  from FinalScores_total [OF l this, of "map rp_score (players r)"] ks that show thesis by auto
qed

lemma IsGameOver_room:
  assumes "safe r" and "bag r = Some bg"
  shows "\<exists>over. IsGameOver bg (map rp_rack (players r)) (scorelessTurns r) = Some over"
proof -
  obtain ks where "map rp_rack (players r) = map Some ks"
    using assms(1) by (rule seated_racks)
  then show ?thesis by (auto simp: IsGameOver_def FirstEmptyRack_spec split: option.splits)
qed

definition scored_players :: "roomPlayer list \<Rightarrow> int list \<Rightarrow> roomPlayer list" where
  "scored_players ps final = map2 (\<lambda>p n. p\<lparr>rp_score := n\<rparr>) ps final"

lemma scored_players_racks [simp]:
  "length final = length ps \<Longrightarrow> map rp_rack (scored_players ps final) = map rp_rack ps"
  "length final = length ps \<Longrightarrow> length (scored_players ps final) = length ps"
  "length final = length ps \<Longrightarrow> map rp_id (scored_players ps final) = map rp_id ps"
  "length final = length ps \<Longrightarrow> map rp_score (scored_players ps final) = final"
  unfolding scored_players_def by (induction final ps rule: list_induct2) auto

lemma game_ok_racks:
  "game_ok r \<longleftrightarrow>
     (let l = Bundle_Lang (room_bundle r) in
      bundle_ok (room_bundle r) \<and>
      (case bag r of Some bg \<Rightarrow> list_all (hand_tile l) (Bag_tiles bg) | None \<Rightarrow> False) \<and>
      (case board r of Some b \<Rightarrow> board_ok l b | None \<Rightarrow> False) \<and>
      (\<forall>k \<in> set (map rp_rack (players r)). case k of Some k \<Rightarrow> rack_ok l k | None \<Rightarrow> True))"
  by (simp add: game_ok_def)

lemma enterGameOver_ok:
  assumes "safe r"
  obtains final r' where
    "FinalScores (map rp_score (players r)) (map rp_rack (players r)) (Bundle_Lang (room_bundle r)) = Some final"
    "length final = length (players r)" "enterGameOver env r = Some r'"
    "same_table (r\<lparr>players := scored_players (players r) final\<rparr>) r'" "behavior r' = gameOverBehavior"
proof -
  obtain final where f:
    "FinalScores (map rp_score (players r)) (map rp_rack (players r)) (Bundle_Lang (room_bundle r)) = Some final"
    "length final = length (players r)" using assms by (rule FinalScores_room)
  let ?r1 = "(cancelSchedule schedRefTurn r)\<lparr>players := scored_players (players r) final\<rparr>"
  let ?w = "computeWinner ?r1"
  let ?r2 = "recordResults (fst ?w) (publish env (EvGameOver \<lparr>GO_WinnerID = fst ?w, GO_WinnerName = snd ?w,
      GO_Scores = scoreEntries ?r1, GO_Leaderboard = []\<rparr>) ?r1)"
  have st: "same_table (r\<lparr>players := scored_players (players r) final\<rparr>) ?r2" by (simp add: same_table_def)
  have "game_ok (r\<lparr>players := scored_players (players r) final\<rparr>)"
    using assms f(2) by (simp add: safe_def game_ok_racks del: set_map)
  then have "game_ok ?r2" using game_ok_same [OF st] by simp
  then obtain e where e: "broadcastState env PhaseGameOver ?r2 = Some (publish env e ?r2)"
    using broadcastState_ok by blast
  let ?r' = "become gameOverBehavior
      (schedule env SchedShutdownRoom (GameOverSecs * second) schedRefShutdown (publish env e ?r2))"
  have "enterGameOver env r = Some ?r'"
    using f(1) e by (simp add: enterGameOver_def Let_def split_def scored_players_def)
  moreover have "same_table (r\<lparr>players := scored_players (players r) final\<rparr>) ?r'"
    by (simp add: same_table_def)
  moreover have "behavior ?r' = gameOverBehavior" by simp
  ultimately show thesis using that f by blast
qed

lemma endTurn_ok:
  assumes "safe r"
  obtains (over) final r' where
    "FinalScores (map rp_score (players r)) (map rp_rack (players r)) (Bundle_Lang (room_bundle r)) = Some final"
    "length final = length (players r)" "endTurn env r = Some r'"
    "same_table (r\<lparr>players := scored_players (players r) final\<rparr>) r'" "behavior r' = gameOverBehavior"
  | (next_turn) r' where "endTurn env r = Some r'" "same_table (next_seat r) r'" "behavior r' = behavior r"
      "turnDeadline r' = Some (now env + turnDuration)"
proof -
  obtain bg where bg: "bag r = Some bg"
    using assms by (auto simp: safe_def game_ok_def Let_def split: option.splits)
  obtain ov where ov: "IsGameOver bg (map rp_rack (players r)) (scorelessTurns r) = Some ov"
    using IsGameOver_room [OF assms bg] by blast
  show thesis
  proof (cases ov)
    case True
    obtain final r' where f:
      "FinalScores (map rp_score (players r)) (map rp_rack (players r)) (Bundle_Lang (room_bundle r)) = Some final"
      "length final = length (players r)" "enterGameOver env r = Some r'"
      "same_table (r\<lparr>players := scored_players (players r) final\<rparr>) r'" "behavior r' = gameOverBehavior"
      using assms by (rule enterGameOver_ok)
    have "endTurn env r = Some r'"
      using f(3) True bg ov by (simp add: endTurn_def checkGameOver_def)
    with f over show thesis by blast
  next
    case False
    obtain r' where a: "advanceTurn env r = Some r'" "same_table (next_seat r) r'" "behavior r' = behavior r"
      "turnDeadline r' = Some (now env + turnDuration)"
      using advanceTurn_ok [OF assms] by blast
    have "endTurn env r = Some r'"
      using a(1) False bg ov by (simp add: endTurn_def checkGameOver_def)
    with a next_turn show thesis by blast
  qed
qed

section \<open>Where the tiles are\<close>

definition board_mset :: "Board \<Rightarrow> Tile multiset" where
  "board_mset b = image_mset (\<lambda>(r, c). rack_want (Sq_Tile (At b r c))) (mset_set (filled_set b))"

definition rack_mset :: "roomPlayer \<Rightarrow> Tile multiset" where
  "rack_mset p = (case rp_rack p of Some k \<Rightarrow> mset (Rack_tiles k) | None \<Rightarrow> {#})"

definition table_tiles :: "RoomActor \<Rightarrow> Tile multiset" where
  "table_tiles r =
     (case bag r of Some bg \<Rightarrow> mset (Bag_tiles bg) | None \<Rightarrow> {#}) +
     (\<Sum>p\<leftarrow>players r. rack_mset p) +
     (case board r of Some b \<Rightarrow> board_mset b | None \<Rightarrow> {#})"

lemma board_mset_Place [conserve]:
  assumes "wf_board l b" and p: "Place row col t b = Ok b'"
  shows "board_mset b' = add_mset (rack_want t) (board_mset b)"
proof -
  have free: "(row, col) \<notin> filled_set b"
    using p Place_Ok_iff [of row col t b] by (auto simp: filled_set_def)
  have "filled_set b' = insert (row, col) (filled_set b)"
    using Place_filled [OF p] by (auto simp: filled_set_def)
  moreover have "image_mset (\<lambda>(r, c). rack_want (Sq_Tile (At b' r c))) (mset_set (filled_set b)) = board_mset b"
    unfolding board_mset_def
  proof (rule image_mset_cong)
    fix sq assume "sq \<in># mset_set (filled_set b)"
    then have "sq \<noteq> (row, col)" using free wf_board_finite [OF assms(1)] by auto
    then show "(case sq of (r, c) \<Rightarrow> rack_want (Sq_Tile (At b' r c))) = (case sq of (r, c) \<Rightarrow> rack_want (Sq_Tile (At b r c)))"
      using Place_tile [OF p] by (cases sq) auto
  qed
  ultimately show ?thesis
    using free wf_board_finite [OF assms(1)] Place_tile [OF p, of row col] by (simp add: board_mset_def)
qed

lemma board_mset_after [conserve]:
  "placeable ps b \<Longrightarrow> wf_board l b \<Longrightarrow> \<forall>p \<in> set ps. wf_tile l (P_Tile p) \<Longrightarrow>
     board_mset (after ps b) = board_mset b + mset (map rack_want (map P_Tile ps))"
proof (induction ps arbitrary: b)
  case (Cons p ps)
  from Cons.prems(1) obtain b' where b': "Place (P_Row p) (P_Col p) (P_Tile p) b = Ok b'" "placeable ps b'"
    by (rule placeable_Place)
  have "wf_board l b'"
    using wf_Place [OF Cons.prems(2) b'(1)] Cons.prems(1,3) by (simp add: placeable_Cons)
  from Cons.IH [OF b'(2) this] have "board_mset (after ps b') = board_mset b' + mset (map rack_want (map P_Tile ps))"
    using Cons.prems(3) by simp
  with b' board_mset_Place [OF Cons.prems(2) b'(1)] show ?case
    by (simp add: after_def place_ignore_def)
qed (simp add: after_def)

lemma board_mset_NewBoard [simp]: "board_mset NewBoard = {#}"
  by (simp add: board_mset_def filled_set_def)

lemma racks_update:
  assumes "i < length ps"
  shows "(\<Sum>p\<leftarrow>ps[i := q]. rack_mset p) + rack_mset (ps ! i) = (\<Sum>p\<leftarrow>ps. rack_mset p) + rack_mset q"
  using assms
proof (induction ps arbitrary: i)
  case (Cons a ps)
  then show ?case by (cases i) (auto simp: ac_simps)
qed simp

lemma racks_scored:
  "length final = length ps \<Longrightarrow> (\<Sum>p\<leftarrow>scored_players ps final. rack_mset p) = (\<Sum>p\<leftarrow>ps. rack_mset p)"
  unfolding scored_players_def by (induction final ps rule: list_induct2) (auto simp: rack_mset_def)

lemma table_tiles_same: "same_table r r' \<Longrightarrow> table_tiles r' = table_tiles r"
  by (simp add: same_table_def table_tiles_def)

lemma safe_same: "same_table r r' \<Longrightarrow> safe r' = safe r"
  using game_ok_same [of r r'] by (auto simp: safe_def seated_def same_table_def)

text \<open>A turn can end without losing a tile or the safety of the table.\<close>

lemma endTurn_safe:
  assumes "safe r"
  shows "\<exists>r'. endTurn env r = Some r' \<and> safe r' \<and> table_tiles r' = table_tiles r \<and>
     room_bundle r' = room_bundle r \<and> behavior r' \<in> {behavior r, gameOverBehavior} \<and>
     map rp_id (players r') = map rp_id (players r)"
  using assms
proof (cases rule: endTurn_ok [of r env])
  case (over final r')
  let ?s = "r\<lparr>players := scored_players (players r) final\<rparr>"
  have len: "length final = length (players r)" by (rule over(2))
  have racks: "\<forall>p \<in> set (scored_players (players r) final). rp_rack p \<noteq> None"
  proof -
    have "None \<notin> set (map rp_rack (players r))" using assms by (auto simp: safe_def seated_def)
    then have "None \<notin> set (map rp_rack (scored_players (players r) final))" using len by simp
    then show ?thesis by force
  qed
  have "safe ?s"
    using assms len racks by (simp add: safe_def game_ok_racks seated_def del: set_map)
  moreover have "table_tiles ?s = table_tiles r" using len by (simp add: table_tiles_def racks_scored)
  ultimately show ?thesis
    using over safe_same [OF over(4)] table_tiles_same [OF over(4)]
    by (intro exI [of _ r']) (simp add: same_table_def)
next
  case (next_turn r')
  have "safe (next_seat r)"
    using assms seated_next by (simp add: safe_def game_ok_def next_seat_def)
  moreover have "table_tiles (next_seat r) = table_tiles r" by (simp add: table_tiles_def next_seat_def)
  ultimately show ?thesis
    using next_turn safe_same [OF next_turn(2)] table_tiles_same [OF next_turn(2)]
    by (intro exI [of _ r']) (simp add: same_table_def next_seat_def)
qed

section \<open>Moves\<close>

text \<open>The table after the player to move has a new rack and score.\<close>

definition commit :: "Rack \<Rightarrow> int \<Rightarrow> Bag \<Rightarrow> Board \<Rightarrow> nat \<Rightarrow> RoomActor \<Rightarrow> RoomActor" where
  "commit k score bg b turns r =
     (set_player (nat (currentIdx r))
        ((players r ! nat (currentIdx r))\<lparr>rp_score := score, rp_rack := Some k\<rparr>) r)
     \<lparr>board := Some b, bag := Some bg, scorelessTurns := turns\<rparr>"

lemma commit_frame [simp]:
  "players (commit k sc bg b t r) = (players r)[nat (currentIdx r) :=
     (players r ! nat (currentIdx r))\<lparr>rp_score := sc, rp_rack := Some k\<rparr>]"
  "bag (commit k sc bg b t r) = Some bg" "board (commit k sc bg b t r) = Some b"
  "currentIdx (commit k sc bg b t r) = currentIdx r" "scorelessTurns (commit k sc bg b t r) = t"
  "room_bundle (commit k sc bg b t r) = room_bundle r" "behavior (commit k sc bg b t r) = behavior r"
  "ownerID (commit k sc bg b t r) = ownerID r"
  by (simp_all add: commit_def set_player_def)

lemma commit_ids [simp]:
  assumes "seated r"
  shows "map rp_id (players (commit k sc bg b t r)) = map rp_id (players r)"
  using seated_current(2) [OF assms] by (simp add: map_update list_update_same_conv)

lemma commit_safe:
  assumes r: "safe r" and ok: "rack_ok (Bundle_Lang (room_bundle r)) k"
    "list_all (hand_tile (Bundle_Lang (room_bundle r))) (Bag_tiles bg)"
    "board_ok (Bundle_Lang (room_bundle r)) b"
  shows "safe (commit k sc bg b t r)"
proof -
  have sub: "set (players (commit k sc bg b t r)) \<subseteq>
      insert ((players r ! nat (currentIdx r))\<lparr>rp_score := sc, rp_rack := Some k\<rparr>) (set (players r))"
    using set_update_subset_insert by (simp add: commit_def set_player_def)
  have "\<forall>p \<in> set (players (commit k sc bg b t r)). case rp_rack p of Some k \<Rightarrow> rack_ok (Bundle_Lang (room_bundle r)) k | None \<Rightarrow> True"
    using sub r ok(1) by (auto simp: safe_def game_ok_def Let_def simp del: commit_frame)
  then have "game_ok (commit k sc bg b t r)"
    using r ok by (simp add: safe_def game_ok_def [of r] game_ok_def [of "commit k sc bg b t r"] Let_def)
  moreover have "\<forall>p \<in> set (players (commit k sc bg b t r)). rp_rack p \<noteq> None"
    using sub r by (auto simp: safe_def seated_def simp del: commit_frame)
  then have "seated (commit k sc bg b t r)"
    using r by (simp add: safe_def seated_def [of r] seated_def [of "commit k sc bg b t r"])
  ultimately show ?thesis by (simp add: safe_def)
qed

lemma commit_tiles [conserve]:
  assumes "seated r" and "rp_rack (players r ! nat (currentIdx r)) = Some k0" and "bag r = Some bg0"
    and "board r = Some b0"
    and "mset (Rack_tiles k) + mset (Bag_tiles bg) + board_mset b =
         mset (Rack_tiles k0) + mset (Bag_tiles bg0) + board_mset b0"
  shows "table_tiles (commit k sc bg b t r) = table_tiles r"
proof -
  let ?i = "nat (currentIdx r)"
  let ?q = "(players r ! ?i)\<lparr>rp_score := sc, rp_rack := Some k\<rparr>"
  let ?S = "\<Sum>p\<leftarrow>players r. rack_mset p" and ?S' = "\<Sum>p\<leftarrow>(players r)[?i := ?q]. rack_mset p"
  have "?S' + mset (Rack_tiles k0) = ?S + mset (Rack_tiles k)"
    using racks_update [OF seated_current(2) [OF assms(1)], of ?q] assms(2) by (simp add: rack_mset_def)
  then have "(mset (Bag_tiles bg) + ?S' + board_mset b) + mset (Rack_tiles k0) =
      (mset (Rack_tiles k) + mset (Bag_tiles bg) + board_mset b) + ?S"
    by (simp add: ac_simps)
  also have "\<dots> = (mset (Bag_tiles bg0) + ?S + board_mset b0) + mset (Rack_tiles k0)"
    unfolding assms(5) by (simp add: ac_simps)
  finally show ?thesis using assms by (simp add: table_tiles_def)
qed

lemma rack_want_idem [simp]: "rack_want (rack_want t) = rack_want t"
  by (simp add: rack_want_def BlankTile_def)

lemma map_rack_want_tilesUsed [simp]: "map rack_want (tilesUsed ps) = tilesUsed ps"
  by (simp add: tilesUsed_rack_want)

lemma tilesUsed_no_sentinel:
  assumes "bundle_ok B" and "\<forall>p \<in> set ps. wf_tile (Bundle_Lang B) (P_Tile p)"
  shows "\<forall>t \<in> set (tilesUsed ps). Tile_Letter t \<noteq> sentinelLetter"
  using assms
  by (auto simp: tilesUsed_def wf_tile_def bundle_ok_def maxAlphabetForBitset_def sentinelLetter_def BlankTile_def)

lemma rack_ok_sub:
  assumes "rack_ok l k" and "mset (Rack_tiles k') \<subseteq># mset (Rack_tiles k)"
  shows "rack_ok l k'"
  using assms set_mset_mono [OF assms(2)] size_mset_mono [OF assms(2)]
  by (auto simp: rack_ok_def list_all_iff Rack_Size_def)

lemma Refill_ok:
  assumes "rack_ok l k" and "list_all (hand_tile l) (Bag_tiles bg)"
  shows "rack_ok l (fst (Refill k bg))" and "list_all (hand_tile l) (Bag_tiles (snd (Refill k bg)))"
proof -
  let ?k = "fst (Refill k bg)" and ?bg = "snd (Refill k bg)"
  have "set_mset (mset (Rack_tiles ?k) + mset (Bag_tiles ?bg)) = set (Rack_tiles k) \<union> set (Bag_tiles bg)"
    unfolding Refill_mset by simp
  then have s: "set (Rack_tiles ?k) \<union> set (Bag_tiles ?bg) = set (Rack_tiles k) \<union> set (Bag_tiles bg)" by simp
  moreover have "Rack_Size ?k \<le> RackSize"
    using Refill_length [of k bg] assms(1) by (simp add: rack_ok_def Rack_Size_def)
  ultimately show "rack_ok l ?k" "list_all (hand_tile l) (Bag_tiles ?bg)"
    using assms by (auto simp: rack_ok_def list_all_iff)
qed

text \<open>
  A placement against its contract: it is refused with nothing but the order of the rack changed,
  or the whole move is committed (the tiles leave the rack for the board, the rack is refilled, the
  score of the move is added) and the turn ends.
\<close>

lemma applyPlace_commit:
  assumes r: "safe r"
  defines "p \<equiv> players r ! nat (currentIdx r)" and "l \<equiv> Bundle_Lang (room_bundle r)"
  assumes pid: "rp_id p = pid" and ps: "toEnginePlacements wires l = Ok ps"
    and b: "board r = Some b" "bag r = Some bg" and k: "rp_rack p = Some k0"
    and rm: "Rack_Remove k0 (tilesUsed ps) = Ok (tilesUsed ps, left)"
    and v: "Validate \<lparr>Placements = ps\<rparr> b (Contains (Bundle_Dawg (room_bundle r))) l = Ok result"
  shows "applyPlace env pid wires r = endTurn env (publish env
      (EvMove \<lparr>Mv_PlayerID = pid, Mv_Name = rp_name p, Mv_Placements = wires,
         Mv_Words = formedWords result, Mv_Score = MR_Score result,
         Mv_NewTotal = rp_score p + MR_Score result, Mv_Bingo = MR_Bingo result\<rparr>)
      (commit (fst (Refill left bg)) (rp_score p + MR_Score result) (snd (Refill left bg)) (after ps b) 0 r))"
proof -
  have g: "game_ok r" and st: "seated r" using r by (simp_all add: safe_def)
  have cur: "currentPlayer r = Some p" using seated_current [OF st] by (simp add: p_def)
  have l: "wf_lang l" "wf_board l b"
    using g b(1) by (simp_all add: game_ok_def Let_def bundle_ok_def wire_lang_def board_ok_def l_def)
  have "\<forall>q \<in> set ps. wf_tile l (P_Tile q)" by (rule toEnginePlacements_wf [OF l(1) ps])
  then have "Apply \<lparr>Placements = ps\<rparr> b = res.Ok (after ps b)" using Validate_Apply(1) [OF l _ v] by simp
  then show ?thesis
    using cur pid ps k rm b v
    by (simp add: applyPlace_def Let_def split_def commit_def set_player_def p_def l_def)
qed

lemma applyPlace_cases:
  assumes r: "safe r"
  defines "p \<equiv> players r ! nat (currentIdx r)"
  obtains (refused) k e where
      "applyPlace env pid wires r = Some (tellError pid e
         (r\<lparr>players := (players r)[nat (currentIdx r) := p\<lparr>rp_rack := Some k\<rparr>]\<rparr>))"
      "\<exists>k0. rp_rack p = Some k0 \<and> mset (Rack_tiles k) = mset (Rack_tiles k0)"
  | (committed) ps b bg left k0 result where
      "rp_id p = pid" "toEnginePlacements wires (Bundle_Lang (room_bundle r)) = Ok ps"
      "board r = Some b" "bag r = Some bg" "rp_rack p = Some k0"
      "Rack_Remove k0 (tilesUsed ps) = Ok (tilesUsed ps, left)"
      "mset (Rack_tiles k0) = mset (tilesUsed ps) + mset (Rack_tiles left)"
      "Validate \<lparr>Placements = ps\<rparr> b (Contains (Bundle_Dawg (room_bundle r))) (Bundle_Lang (room_bundle r)) = Ok result"
      "\<exists>e. applyPlace env pid wires r = endTurn env (publish env e
         (commit (fst (Refill left bg)) (rp_score p + MR_Score result) (snd (Refill left bg)) (after ps b) 0 r))"
proof -
  let ?l = "Bundle_Lang (room_bundle r)" and ?i = "nat (currentIdx r)"
  have g: "game_ok r" and st: "seated r" using r by (simp_all add: safe_def)
  have cur: "currentPlayer r = Some p" and i: "?i < length (players r)"
    using seated_current [OF st] by (simp_all add: p_def)
  obtain bg b where b: "bag r = Some bg" "board r = Some b" "bundle_ok (room_bundle r)"
    "list_all (hand_tile ?l) (Bag_tiles bg)" "board_ok ?l b"
    "\<forall>p k. p \<in> set (players r) \<longrightarrow> rp_rack p = Some k \<longrightarrow> rack_ok ?l k"
    using g by (rule game_okE)
  have p_in: "p \<in> set (players r)" using i by (simp add: p_def)
  obtain k0 where k0: "rp_rack p = Some k0" using st p_in by (auto simp: seated_def)
  have rk: "rack_ok ?l k0" using b(6) p_in k0 by blast
  have l: "wf_lang ?l" using b(3) by (simp add: bundle_ok_def wire_lang_def)
  have self: "r\<lparr>players := (players r)[?i := p\<lparr>rp_rack := Some k0\<rparr>]\<rparr> = r"
    using k0 i by (simp add: p_def) (metis RoomActor.surjective RoomActor.update_convs(5) list_update_id roomPlayer.surjective roomPlayer.update_convs(6))
  have unchanged: thesis if "applyPlace env pid wires r = Some (tellError pid e r)" for e
    using refused [of e k0] that self k0 by simp
  show thesis
  proof (cases "rp_id p = pid")
    case False
    then show thesis using unchanged [of NotYourTurn] cur by (simp add: applyPlace_def)
  next
    case True
    show thesis
    proof (cases "toEnginePlacements wires ?l")
      case (Err e)
      then show thesis using unchanged [of "WireErr e"] cur True by (simp add: applyPlace_def)
    next
      case Panic
      then show thesis using toEnginePlacements_not_Panic by blast
    next
      case (Ok ps)
      have wf: "\<forall>q \<in> set ps. wf_tile ?l (P_Tile q)" by (rule toEnginePlacements_wf [OF l Ok])
      have nos: "sentinel \<notin> set (Rack_tiles k0)" using hand_no_sentinel [OF l] rk by (simp add: rack_ok_def)
      note used = tilesUsed_no_sentinel [OF b(3) wf]
      show thesis
      proof (cases "mset (tilesUsed ps) \<subseteq># mset (Rack_tiles k0)")
        case False
        then obtain w where "Rack_Remove k0 (tilesUsed ps) = Err (RackMissing w)"
          using Rack_Remove_Err [OF nos used] by auto
        then show thesis
          using unchanged [of TilesNotInRack] cur True Ok k0 by (simp add: applyPlace_def Let_def)
      next
        case sub: True
        obtain left where rm: "Rack_Remove k0 (tilesUsed ps) = res.Ok (tilesUsed ps, left)"
          "mset (Rack_tiles k0) = mset (tilesUsed ps) + mset (Rack_tiles left)"
          using Rack_Remove_Ok [OF nos used] sub by auto
        have wb: "wf_board ?l b" using b(5) by (simp add: board_ok_def)
        let ?V = "Validate \<lparr>Placements = ps\<rparr> b (Contains (Bundle_Dawg (room_bundle r))) ?l"
        have "?V \<noteq> Panic" using Validate_not_Panic [OF l wb] wf by simp
        then show thesis
        proof (cases ?V)
          case (Err e)
          have "applyPlace env pid wires r = Some (tellError pid (MoveErr e)
             (r\<lparr>players := (players r)[?i := p\<lparr>rp_rack := Some (Rack_Add (tilesUsed ps) left)\<rparr>]\<rparr>))"
            using cur True Ok k0 rm(1) b(2) Err by (simp add: applyPlace_def Let_def set_player_def)
          then show thesis
            by (rule refused) (use rm(2) k0 in \<open>simp add: Rack_Add_def add.commute\<close>)
        next
          case (Ok result)
          have "\<exists>e. applyPlace env pid wires r = endTurn env (publish env e
             (commit (fst (Refill left bg)) (rp_score p + MR_Score result) (snd (Refill left bg)) (after ps b) 0 r))"
            using applyPlace_commit [OF r _ \<open>toEnginePlacements wires ?l = res.Ok ps\<close> b(2,1) _ rm(1) Ok]
              True k0 by (simp add: p_def) blast
          then show thesis
            using committed [of ps b bg k0 left result] True
              \<open>toEnginePlacements wires ?l = res.Ok ps\<close> b(1,2) k0 rm Ok by blast
        qed simp
      qed
    qed
  qed
qed

lemma safeE:
  assumes "safe r"
  obtains bg b k where "bag r = Some bg" "board r = Some b" "rp_rack (players r ! nat (currentIdx r)) = Some k"
    "bundle_ok (room_bundle r)" "list_all (hand_tile (Bundle_Lang (room_bundle r))) (Bag_tiles bg)"
    "board_ok (Bundle_Lang (room_bundle r)) b" "rack_ok (Bundle_Lang (room_bundle r)) k" "seated r"
proof -
  have st: "seated r" and g: "game_ok r" using assms by (simp_all add: safe_def)
  obtain bg b where b: "bag r = Some bg" "board r = Some b" "bundle_ok (room_bundle r)"
    "list_all (hand_tile (Bundle_Lang (room_bundle r))) (Bag_tiles bg)"
    "board_ok (Bundle_Lang (room_bundle r)) b"
    "\<forall>p k. p \<in> set (players r) \<longrightarrow> rp_rack p = Some k \<longrightarrow> rack_ok (Bundle_Lang (room_bundle r)) k"
    using g by (rule game_okE)
  have p_in: "players r ! nat (currentIdx r) \<in> set (players r)" using seated_current(2) [OF st] by simp
  then obtain k where "rp_rack (players r ! nat (currentIdx r)) = Some k" using st by (auto simp: seated_def)
  with b p_in st that show thesis by blast
qed

text \<open>What every handler keeps while the table is safe.\<close>

definition keeps :: "RoomActor \<Rightarrow> RoomActor option \<Rightarrow> bool" where
  "keeps r o' \<longleftrightarrow> (\<exists>r'. o' = Some r' \<and> safe r' \<and> table_tiles r' = table_tiles r \<and>
     room_bundle r' = room_bundle r \<and> map rp_id (players r') = map rp_id (players r))"

lemma keeps_same: "safe r \<Longrightarrow> same_table r r' \<Longrightarrow> keeps r (Some r')"
  unfolding keeps_def using safe_same [of r r'] table_tiles_same [of r r']
  by (simp add: same_table_def)

lemma keeps_tellError: "safe r \<Longrightarrow> keeps r (Some (tellError pid e r))"
  by (rule keeps_same) (simp_all add: same_table_def)

lemma keeps_endTurn:
  assumes "safe s" and "table_tiles s = table_tiles r" and "room_bundle s = room_bundle r"
    and "map rp_id (players s) = map rp_id (players r)"
  shows "keeps r (endTurn env s)"
  using endTurn_safe [OF assms(1), of env] assms(2-) by (auto simp: keeps_def)

lemma safe_publish [simp]: "safe (publish env e r) = safe r"
  by (rule safe_same) (simp add: same_table_def)

lemma table_tiles_publish [simp]: "table_tiles (publish env e r) = table_tiles r"
  by (rule table_tiles_same) (simp add: same_table_def)

lemma placed_safe:
  assumes r: "safe r" and b: "board r = Some b" "bag r = Some bg"
    and k: "rp_rack (players r ! nat (currentIdx r)) = Some k0"
    and ps: "toEnginePlacements wires (Bundle_Lang (room_bundle r)) = Ok ps"
    and left: "mset (Rack_tiles k0) = mset (tilesUsed ps) + mset (Rack_tiles left)"
    and v: "Validate \<lparr>Placements = ps\<rparr> b (Contains (Bundle_Dawg (room_bundle r))) (Bundle_Lang (room_bundle r)) = Ok result"
  shows "safe (commit (fst (Refill left bg)) sc (snd (Refill left bg)) (after ps b) 0 r)"
proof -
  let ?l = "Bundle_Lang (room_bundle r)"
  obtain bg1 b1 k1 where "bag r = Some bg1" "board r = Some b1" "rp_rack (players r ! nat (currentIdx r)) = Some k1"
    "bundle_ok (room_bundle r)" "list_all (hand_tile ?l) (Bag_tiles bg1)" "board_ok ?l b1" "rack_ok ?l k1"
    using r by (rule safeE)
  then have ok: "bundle_ok (room_bundle r)" "list_all (hand_tile ?l) (Bag_tiles bg)" "board_ok ?l b" "rack_ok ?l k0"
    using b k by simp_all
  have l: "wf_lang ?l" "wf_board ?l b" "tidy_board b" using ok by (simp_all add: bundle_ok_def wire_lang_def board_ok_def)
  have wf: "\<forall>q \<in> set ps. wf_tile ?l (P_Tile q)" by (rule toEnginePlacements_wf [OF l(1) ps])
  have pl: "placeable ps b" using Validate_OkE [OF l(1,2) _ v] wf by auto
  have "rack_ok ?l left" by (rule rack_ok_sub [OF ok(4)]) (simp add: left)
  note refill = Refill_ok [OF this ok(2)]
  have "board_ok ?l (after ps b)"
    using after_wf [OF pl l(2) wf] tidy_after [OF l(3)] by (simp add: board_ok_def)
  then show ?thesis by (rule commit_safe [OF r refill])
qed

lemma tiles_removable:
  assumes r: "safe r" and p: "currentPlayer r = Some p" "rp_rack p = Some k"
    and ps: "toEnginePlacements wires (Bundle_Lang (room_bundle r)) = Ok ps"
    and has: "mset (tilesUsed ps) \<subseteq># mset (Rack_tiles k)"
  obtains left where "Rack_Remove k (tilesUsed ps) = Ok (tilesUsed ps, left)"
    "mset (Rack_tiles k) = mset (tilesUsed ps) + mset (Rack_tiles left)"
proof -
  let ?l = "Bundle_Lang (room_bundle r)"
  obtain k1 where "rp_rack (players r ! nat (currentIdx r)) = Some k1" "bundle_ok (room_bundle r)" "rack_ok ?l k1" "seated r"
    using r by (rule safeE)
  then have ok: "bundle_ok (room_bundle r)" "rack_ok ?l k" using seated_current(1) [of r] p by simp_all
  have l: "wf_lang ?l" using ok(1) by (simp add: bundle_ok_def wire_lang_def)
  have "sentinel \<notin> set (Rack_tiles k)" using hand_no_sentinel [OF l] ok(2) by (simp add: rack_ok_def)
  moreover have "\<forall>w \<in> set (tilesUsed ps). Tile_Letter w \<noteq> sentinelLetter"
    using tilesUsed_no_sentinel [OF ok(1)] toEnginePlacements_wf [OF l ps] by blast
  ultimately show thesis using that Rack_Remove_Ok [of k "tilesUsed ps"] has unfolding map_rack_want_tilesUsed by blast
qed

lemma applyPlace_keeps:
  assumes r: "safe r"
  shows "keeps r (applyPlace env pid wires r)"
  using r
proof (cases rule: applyPlace_cases [of r env pid wires])
  case (refused k e)
  let ?i = "nat (currentIdx r)"
  let ?p = "players r ! ?i"
  obtain bg b k0 where b: "bag r = Some bg" "board r = Some b"
    and k0: "rp_rack ?p = Some k0"
    and bb: "list_all (hand_tile (Bundle_Lang (room_bundle r))) (Bag_tiles bg)"
    "board_ok (Bundle_Lang (room_bundle r)) b"
    and rk: "rack_ok (Bundle_Lang (room_bundle r)) k0" and st: "seated r"
    using r by (rule safeE)
  have k: "mset (Rack_tiles k) = mset (Rack_tiles k0)" using refused(2) k0 by simp
  have ok: "rack_ok (Bundle_Lang (room_bundle r)) k" by (rule rack_ok_sub [OF rk]) (simp add: k)
  let ?s = "commit k (rp_score ?p) bg b (scorelessTurns r) r"
  have s: "safe ?s" by (rule commit_safe [OF r ok bb])
  have t: "table_tiles ?s = table_tiles r" by (rule commit_tiles [OF st k0 b]) (simp add: k)
  have "same_table ?s (tellError pid e (r\<lparr>players := (players r)[?i := ?p\<lparr>rp_rack := Some k\<rparr>]\<rparr>))"
    using b by (simp add: same_table_def)
  from keeps_same [OF s this] have "keeps ?s (applyPlace env pid wires r)" using refused(1) by simp
  then show ?thesis
    using t commit_ids [OF st, of k "rp_score ?p" bg b "scorelessTurns r"] unfolding keeps_def by simp
next
  case (committed ps b bg left k0 result)
  let ?l = "Bundle_Lang (room_bundle r)"
  let ?p = "players r ! nat (currentIdx r)"
  obtain bg1 b1 k1 where "bag r = Some bg1" "board r = Some b1" "rp_rack ?p = Some k1"
    "bundle_ok (room_bundle r)" "list_all (hand_tile ?l) (Bag_tiles bg1)" "board_ok ?l b1"
    "rack_ok ?l k1" and st: "seated r"
    using r by (rule safeE)
  then have ok: "bundle_ok (room_bundle r)" "list_all (hand_tile ?l) (Bag_tiles bg)" "board_ok ?l b"
    "rack_ok ?l k0" using committed(3-5) by simp_all
  have l: "wf_lang ?l" "wf_board ?l b" "tidy_board b" using ok by (simp_all add: bundle_ok_def wire_lang_def board_ok_def)
  have wf: "\<forall>q \<in> set ps. wf_tile ?l (P_Tile q)" by (rule toEnginePlacements_wf [OF l(1) committed(2)])
  have pl: "placeable ps b"
    using Validate_OkE [OF l(1,2) _ committed(8)] wf by auto
  let ?s = "commit (fst (Refill left bg)) (rp_score ?p + MR_Score result) (snd (Refill left bg)) (after ps b) 0 r"
  have "safe ?s" by (rule placed_safe [OF r committed(3,4,5,2,7,8)])
  moreover have "table_tiles ?s = table_tiles r"
  proof (rule commit_tiles [OF st committed(5,4,3)])
    have "board_mset (after ps b) = board_mset b + mset (tilesUsed ps)"
      using board_mset_after [OF pl l(2) wf] by (simp add: tilesUsed_rack_want)
    then show "mset (Rack_tiles (fst (Refill left bg))) + mset (Bag_tiles (snd (Refill left bg))) + board_mset (after ps b) =
      mset (Rack_tiles k0) + mset (Bag_tiles bg) + board_mset b"
      using Refill_mset [of left bg] committed(7) by (simp add: ac_simps)
  qed
  moreover obtain e where "applyPlace env pid wires r = endTurn env (publish env e ?s)"
    using committed(9) by blast
  ultimately show ?thesis
    using commit_ids [OF st] by (simp only:) (intro keeps_endTurn, simp_all del: commit_frame(1))
qed

lemma applyPass_keeps:
  assumes r: "safe r"
  shows "keeps r (applyPass env pid timedOut r)"
proof -
  let ?s = "r\<lparr>scorelessTurns := scorelessTurns r + 1\<rparr>"
  have "safe ?s" using r by (simp add: safe_def game_ok_def seated_def)
  then have "keeps r (endTurn env ?s)" by (rule keeps_endTurn) (simp_all add: table_tiles_def)
  then show ?thesis
    using keeps_tellError [OF r] keeps_same [OF r same_table_refl]
    by (auto simp: applyPass_def split: option.splits)
qed

lemma Exchange_ok:
  assumes ex: "Exchange k is bg = Ok (k', bg')" and ok: "rack_ok l k" "list_all (hand_tile l) (Bag_tiles bg)"
  shows "rack_ok l k'" and "list_all (hand_tile l) (Bag_tiles bg')"
proof -
  have hand: "list_all (hand_tile l) (Rack_tiles k)" using ok(1) by (simp add: rack_ok_def)
  have "set (Rack_tiles k') \<union> set (Bag_tiles bg') = set (Rack_tiles k) \<union> set (Bag_tiles bg)"
    using arg_cong [OF Exchange_mset [OF ex hand], of set_mset] by simp
  moreover have "Rack_Size k' \<le> RackSize"
    using Exchange_length [OF ex] ok(1) by (simp add: rack_ok_def Rack_Size_def)
  ultimately show "rack_ok l k'" "list_all (hand_tile l) (Bag_tiles bg')"
    using ok hand by (auto simp: rack_ok_def list_all_iff)
qed

lemma Exchange_not_Panic: "Exchange k is bg \<noteq> Panic"
  by (auto simp: Exchange_def Let_def split_def split: option.splits)

lemma applyExchange_keeps:
  assumes r: "safe r"
  shows "keeps r (applyExchange env pid is r)"
proof -
  let ?l = "Bundle_Lang (room_bundle r)"
  let ?p = "players r ! nat (currentIdx r)"
  obtain bg b k where b: "bag r = Some bg" "board r = Some b" and k: "rp_rack ?p = Some k"
    and bo: "bundle_ok (room_bundle r)" "list_all (hand_tile ?l) (Bag_tiles bg)" "board_ok ?l b"
    and rk: "rack_ok ?l k" and st: "seated r"
    using r by (rule safeE)
  show ?thesis
  proof (cases "rp_id ?p = pid")
    case False
    then show ?thesis
      using keeps_tellError [OF r] seated_current(1) [OF st] by (simp add: applyExchange_def)
  next
    case True
    show ?thesis
    proof (cases "Exchange k is bg")
      case (Ok x)
      obtain k' bg' where x: "x = (k', bg')" by (cases x)
      note ex = Ok [unfolded x]
      let ?s = "commit k' (rp_score ?p) bg' b (scorelessTurns r + 1) r"
      have "safe ?s" by (rule commit_safe [OF r Exchange_ok [OF ex rk bo(2)] bo(3)])
      moreover have "table_tiles ?s = table_tiles r"
        by (rule commit_tiles [OF st k b])
           (use Exchange_mset [OF ex, of ?l] rk in \<open>simp add: rack_ok_def\<close>)
      ultimately have "keeps r (endTurn env ?s)"
        using commit_ids [OF st] by (intro keeps_endTurn) (simp_all del: commit_frame(1))
      moreover have "(set_player (nat (currentIdx r)) (?p\<lparr>rp_rack := Some k'\<rparr>) r)
          \<lparr>bag := Some bg', scorelessTurns := scorelessTurns r + 1\<rparr> = ?s"
        using b(2) by (intro RoomActor.equality) (simp_all add: commit_def set_player_def)
      ultimately show ?thesis
        using True seated_current(1) [OF st] b(1) k ex by (simp add: applyExchange_def ptr_Exchange_def)
    next
      case (Err e)
      then show ?thesis
        using keeps_tellError [OF r] True seated_current(1) [OF st] b(1) k
        by (simp add: applyExchange_def ptr_Exchange_def)
    next
      case Panic
      then show ?thesis using Exchange_not_Panic by blast
    qed
  qed
qed

section \<open>Dealing\<close>

lemma deal_spec:
  assumes "list_all (hand_tile l) (Bag_tiles bg)"
  shows "list_all (hand_tile l) (Bag_tiles (snd (deal ps bg))) \<and>
     (\<forall>p \<in> set (fst (deal ps bg)). \<exists>k. rp_rack p = Some k \<and> rack_ok l k \<and> rp_score p = 0) \<and>
     map rp_id (fst (deal ps bg)) = map rp_id ps \<and>
     (\<Sum>p\<leftarrow>fst (deal ps bg). rack_mset p) + mset (Bag_tiles (snd (deal ps bg))) = mset (Bag_tiles bg)"
  using assms
proof (induction ps arbitrary: bg)
  case (Cons p ps)
  have "rack_ok l NewRack" by (simp add: rack_ok_def NewRack_def Rack_Size_def)
  note ok = Refill_ok [OF this Cons.prems]
  let ?k = "fst (Refill NewRack bg)" and ?bg = "snd (Refill NewRack bg)"
  have deal: "deal (p # ps) bg =
      (p\<lparr>rp_rack := Some ?k, rp_score := 0\<rparr> # fst (deal ps ?bg), snd (deal ps ?bg))"
    by (simp add: Let_def split_def)
  have "mset (Rack_tiles ?k) + mset (Bag_tiles ?bg) = mset (Bag_tiles bg)"
    using Refill_mset [of NewRack bg] by (simp add: NewRack_def)
  then have tiles: "mset (Rack_tiles ?k) + ((\<Sum>p\<leftarrow>fst (deal ps ?bg). rack_mset p) +
      mset (Bag_tiles (snd (deal ps ?bg)))) = mset (Bag_tiles bg)"
    using Cons.IH [OF ok(2)] by simp
  show ?case
    unfolding deal using Cons.IH [OF ok(2)] ok(1) tiles
    by (simp add: rack_mset_def add.assoc del: deal.simps)
qed simp

lemma deal_length: "length (fst (deal ps bg)) = length ps"
  by (induction ps arbitrary: bg) (simp_all add: Let_def split_def)

lemma startGame_ok:
  assumes b: "bundle_ok (room_bundle r)" and ne: "players r \<noteq> []"
  obtains r' where "startGame env r = Some r'" "safe r'" "behavior r' = playingBehavior"
    "table_tiles r' = mset (full_tiles (Bundle_Lang (room_bundle r)))"
    "map rp_id (players r') = map rp_id (players r)" "\<forall>p \<in> set (players r'). rp_score p = 0"
    "currentIdx r' = 0" "scorelessTurns r' = 0" "room_bundle r' = room_bundle r" "board r' = Some NewBoard"
    "(players r', bag r') = map_prod id Some (deal (players r) (NewBag (Bundle_Lang (room_bundle r)) (roomRNG env)))"
proof -
  let ?l = "Bundle_Lang (room_bundle r)"
  let ?bg = "NewBag ?l (roomRNG env)"
  let ?ps = "fst (deal (players r) ?bg)" and ?bg' = "snd (deal (players r) ?bg)"
  let ?s = "become playingBehavior (r\<lparr>bag := Some ?bg', board := Some NewBoard, currentIdx := 0,
      scorelessTurns := 0, players := ?ps\<rparr>)"
  have "list_all (hand_tile ?l) (full_tiles ?l)"
    using b by (intro full_tiles_hand) (simp_all add: bundle_ok_def wire_lang_def)
  then have "list_all (hand_tile ?l) (Bag_tiles ?bg)" using list_all_mset [OF NewBag_mset] by blast
  note d = deal_spec [OF this, of "players r"]
  have len: "length ?ps = length (players r)" by (rule deal_length)
  have dealt: "\<exists>k. rp_rack p = Some k \<and> rack_ok ?l k \<and> rp_score p = 0" if "p \<in> set ?ps" for p
    using d that by blast
  have racks: "case rp_rack p of Some k \<Rightarrow> rack_ok ?l k | None \<Rightarrow> True" if "p \<in> set ?ps" for p
    using dealt [OF that] by (elim exE) simp
  have some: "rp_rack p \<noteq> None" if "p \<in> set ?ps" for p
    using dealt [OF that] by (elim exE) simp
  have fields: "players ?s = ?ps" "bag ?s = Some ?bg'" "board ?s = Some NewBoard" "currentIdx ?s = 0"
    "scorelessTurns ?s = 0" "room_bundle ?s = room_bundle r" "behavior ?s = playingBehavior"
    by (simp_all add: become_def)
  have "list_all (hand_tile ?l) (Bag_tiles ?bg')" using d by blast
  then have g: "game_ok ?s"
    using b racks wf_NewBoard tidy_NewBoard by (simp add: game_ok_def fields Let_def board_ok_def)
  have st: "seated ?s" using ne len some by (simp add: seated_def fields)
  then have safe: "safe ?s" using g by (simp add: safe_def)
  have cur: "rp_rack p \<noteq> None" if "currentPlayer ?s = Some p" for p
  proof -
    have "p = ?ps ! 0" using that by (simp add: currentPlayer_def fields split: if_splits)
    moreover have "?ps ! 0 \<in> set ?ps" using ne len by (intro nth_mem) simp
    ultimately show ?thesis using some by simp
  qed
  from beginTurn_ok [OF g cur, of env] obtain r' where
    r': "beginTurn env ?s = Some r'" "same_table ?s r'" "behavior r' = behavior ?s" by blast
  have tiles: "table_tiles ?s = mset (full_tiles ?l)"
    using d NewBag_mset [of ?l "roomRNG env"] by (simp add: table_tiles_def fields ac_simps)
  have same: "players r' = ?ps" "currentIdx r' = 0" "scorelessTurns r' = 0" "room_bundle r' = room_bundle r"
    "bag r' = Some ?bg'" "board r' = Some NewBoard"
    using r'(2) by (simp_all only: same_table_def fields)
  have "startGame env r = Some r'" using r'(1) by (simp add: startGame_def split_def Let_def)
  moreover have "safe r'" using safe safe_same [OF r'(2)] by simp
  moreover have "table_tiles r' = mset (full_tiles ?l)" using tiles table_tiles_same [OF r'(2)] by simp
  moreover have "map rp_id (players r') = map rp_id (players r)" using d by (simp add: same)
  moreover have "\<forall>p \<in> set (players r'). rp_score p = 0" using dealt by (auto simp: same)
  moreover have "behavior r' = playingBehavior" using r'(3) by (simp only: fields)
  moreover have "(players r', bag r') = map_prod id Some (deal (players r) ?bg)"
    by (simp add: same map_prod_def split_def)
  ultimately show thesis using that same by blast
qed

section \<open>Messages\<close>

text \<open>Messages that neither seat a newcomer nor remove a seat.\<close>

definition calm :: "RoomActor \<Rightarrow> room_msg \<Rightarrow> bool" where
  "calm r msg =
     (case msg of
        GoodbyePlayer name \<Rightarrow> list_all (\<lambda>p. rp_sessionName p \<noteq> name) (players r)
      | Terminated path \<Rightarrow> list_all (\<lambda>p. rp_sessionPID p \<noteq> Some path) (players r)
      | PlayerHello pid name session \<Rightarrow>
          list_ex (\<lambda>p. rp_id p = pid) (players r) \<or> length (players r) \<ge> MaxPlayers
      | _ \<Rightarrow> True)"

lemma calm_goodbye: "calm r (GoodbyePlayer name) \<Longrightarrow> snd (removePlayerByName name r) = r"
  using find_index_None_iff [of "\<lambda>p. rp_sessionName p = name" "players r"]
  by (simp add: calm_def removePlayerByName_def list_all_iff)

lemma calm_terminated: "calm r (Terminated path) \<Longrightarrow> snd (removePlayerByPath path r) = r"
  using find_index_None_iff [of "\<lambda>p. rp_sessionPID p = Some path" "players r"]
  by (simp add: calm_def removePlayerByPath_def list_all_iff)

lemma keeps_broadcast:
  assumes "safe s" and "keeps r (Some s)"
  shows "keeps r (broadcastState env ph s)"
proof -
  obtain e where "broadcastState env ph s = Some (publish env e s)"
    using broadcastState_ok [of s env ph] assms(1) by (auto simp: safe_def)
  with assms show ?thesis by (simp add: keeps_def)
qed

text \<open>A seat changed in its session only.\<close>

lemma keeps_session:
  assumes r: "safe r" and i: "i < length (players r)"
  shows "keeps r (Some (r\<lparr>players := (players r)[i := (players r ! i)\<lparr>rp_sessionName := sn,
           rp_sessionPID := sp, rp_name := nm\<rparr>]\<rparr>))" (is "keeps r (Some ?s)")
proof -
  have racks: "map rp_rack (players ?s) = map rp_rack (players r)"
    and ids: "map rp_id (players ?s) = map rp_id (players r)"
    using i by (simp_all add: map_update list_update_same_conv)
  then have "set (map rp_rack (players ?s)) = set (map rp_rack (players r))" by simp
  then have "game_ok ?s" using r by (simp add: safe_def game_ok_racks del: set_map)
  moreover have "None \<notin> set (map rp_rack (players ?s))"
    unfolding racks using r by (auto simp: safe_def seated_def)
  then have "seated ?s" using r by (auto simp: safe_def seated_def simp del: set_map) force
  moreover have "(\<Sum>p\<leftarrow>players ?s. rack_mset p) = (\<Sum>p\<leftarrow>players r. rack_mset p)"
  proof -
    have "map rack_mset (players ?s) = map rack_mset (players r)"
      using i by (simp add: map_update list_update_same_conv rack_mset_def)
    then show ?thesis by simp
  qed
  then have "table_tiles ?s = table_tiles r" by (simp add: table_tiles_def)
  ultimately show ?thesis using ids by (simp add: keeps_def safe_def)
qed

lemma hello_keeps:
  assumes r: "safe r" and c: "calm r (PlayerHello pid nm sn)"
  shows "keeps r (hello env ph pid nm sn r)"
proof -
  let ?r = "if leaderboard r then emit (RememberName pid nm) r else r"
  have st: "same_table r ?r" by (simp add: same_table_def)
  then have safe: "safe ?r" using safe_same r by blast
  have ps: "players ?r = players r" by simp
  show ?thesis
  proof (cases "find_index (\<lambda>p. rp_id p = pid) (players r)")
    case None
    then have "length (players r) \<ge> MaxPlayers"
      using c find_index_None_iff [of "\<lambda>p. rp_id p = pid" "players r"] by (auto simp: calm_def list_ex_iff)
    with None have "hello env ph pid nm sn r = Some (emit (Tell (sender env) (EvError pid RoomFull)) ?r)"
      by (simp add: hello_def addPlayer_def Let_def)
    then show ?thesis using keeps_same [OF r] by (simp add: same_table_def)
  next
    case (Some i)
    then have i: "i < length (players ?r)" using find_index_SomeD [of _ "players r" i] ps by force
    let ?s = "?r\<lparr>players := (players ?r)[i := (players ?r ! i)\<lparr>rp_sessionName := sn,
        rp_sessionPID := sender env, rp_name := nm\<rparr>]\<rparr>"
    let ?t = "sendJoined env pid nm (watch (sender env) ?s)"
    have k: "keeps ?r (Some ?s)" by (rule keeps_session [OF safe i])
    have "keeps ?s (Some ?t)" using k keeps_same [of ?s ?t] by (simp add: keeps_def same_table_def)
    with k have kt: "keeps r (Some ?t)" using table_tiles_same [OF st] by (simp add: keeps_def)
    then have "keeps r (broadcastState env ph ?t)" by (intro keeps_broadcast) (simp_all add: keeps_def)
    with Some show ?thesis by (cases "leaderboard r") (simp_all add: hello_def addPlayer_def Let_def)
  qed
qed

end
