(* ===== verification/Scrabble_Room_Run.thy ===== *)
theory Scrabble_Room_Run
  imports Scrabble_Room_Inv Actor
begin

text \<open>
  Whole runs of a room. Which messages a room survives in which behaviour, the invariant of every
  state it reaches from its start, and what a turn, a pause and the end of a game do. While a game
  is on, the messages considered are the ones that neither seat a newcomer nor remove a seat; the
  last section shows what the others do.
\<close>

section \<open>A room before and after a game\<close>

definition lobby_ok :: "RoomActor \<Rightarrow> bool" where
  "lobby_ok r \<longleftrightarrow>
     (let l = Bundle_Lang (room_bundle r) in
      bundle_ok (room_bundle r) \<and>
      (case board r of Some b \<Rightarrow> board_ok l b | None \<Rightarrow> True) \<and>
      (\<forall>k \<in> set (map rp_rack (players r)). case k of Some k \<Rightarrow> rack_ok l k | None \<Rightarrow> True))"

lemma game_lobby: "game_ok r \<Longrightarrow> lobby_ok r"
  by (auto simp: game_ok_def lobby_ok_def Let_def split: option.splits)

lemma broadcastState_lobby:
  assumes r: "lobby_ok r"
  shows "\<exists>e. broadcastState env ph r = Some (publish env e r)"
proof -
  let ?l = "Bundle_Lang (room_bundle r)"
  have l: "wire_lang ?l" using r by (simp add: lobby_ok_def bundle_ok_def Let_def)
  obtain grid where grid: "(case board r of Some b \<Rightarrow> boardToWire b ?l | None \<Rightarrow> Some emptyBoardWire) = Some grid"
  proof (cases "board r")
    case (Some b)
    then have "board_ok ?l b" using r by (simp add: lobby_ok_def Let_def)
    then obtain g where "boardToWire b ?l = Some g"
      using wireToBoard_boardToWire [OF _ _ l, of b] by (auto simp: board_ok_def)
    then show thesis using that Some by simp
  qed simp
  moreover obtain m where "perRack (players r) ?l Map.empty = Some m"
    using perRack_total [OF l, of "players r" Map.empty] r by (auto simp: lobby_ok_def Let_def)
  ultimately show ?thesis unfolding broadcastState_def by (simp, blast)
qed

text \<open>The second room differs from the first in who sits at the table, no rack being new.\<close>

definition shuffled_seats :: "RoomActor \<Rightarrow> RoomActor \<Rightarrow> bool" where
  "shuffled_seats r r' \<longleftrightarrow> bag r' = bag r \<and> board r' = board r \<and> room_bundle r' = room_bundle r \<and>
     behavior r' = behavior r \<and> set (map rp_rack (players r')) \<subseteq> insert None (set (map rp_rack (players r)))"

lemma racks_fit:
  assumes "T \<subseteq> insert None S" and "\<forall>k \<in> S. case k of Some k \<Rightarrow> P k | None \<Rightarrow> True"
  shows "\<forall>k \<in> T. case k of Some k \<Rightarrow> P k | None \<Rightarrow> True"
proof
  fix k assume "k \<in> T"
  then have "k = None \<or> k \<in> S" using assms(1) by blast
  then show "case k of Some k \<Rightarrow> P k | None \<Rightarrow> True" using assms(2) by auto
qed

lemma shuffled_seats_lobby:
  assumes "shuffled_seats r r'" and "lobby_ok r"
  shows "lobby_ok r'"
proof -
  have "\<forall>k \<in> set (map rp_rack (players r')).
      case k of Some k \<Rightarrow> rack_ok (Bundle_Lang (room_bundle r)) k | None \<Rightarrow> True"
    by (rule racks_fit [of _ "set (map rp_rack (players r))"])
       (use assms in \<open>simp_all add: shuffled_seats_def lobby_ok_def Let_def\<close>)
  then show ?thesis using assms by (simp add: shuffled_seats_def lobby_ok_def Let_def)
qed

lemma shuffled_seats_game: "shuffled_seats r r' \<Longrightarrow> game_ok r \<Longrightarrow> game_ok r'"
  using shuffled_seats_lobby [of r r'] game_lobby [of r]
  by (auto simp: shuffled_seats_def game_ok_def lobby_ok_def Let_def)

lemma shuffled_seats_refl [simp]: "shuffled_seats r r"
  by (auto simp: shuffled_seats_def)

lemma remove_seat: "shuffled_seats r (r\<lparr>players := remove_at i (players r)\<rparr>)"
  using set_remove_at_subset [of i "players r"] by (auto simp: shuffled_seats_def)

lemma removePlayer_seats:
  "shuffled_seats r (snd (removePlayerByName n r))" "shuffled_seats r (snd (removePlayerByPath p r))"
  by (simp_all add: removePlayerByName_def removePlayerByPath_def remove_seat split: option.splits)

lemma emit_seats: "shuffled_seats r (emit e s) = shuffled_seats r s"
  by (simp add: shuffled_seats_def)

lemma watch_seats: "shuffled_seats r (watch p s) = shuffled_seats r s"
  by (simp add: watch_def emit_seats split: option.splits)

lemma publish_seats: "shuffled_seats r (publish env e s) = shuffled_seats r s"
  by (simp add: shuffled_seats_def)

lemma sendJoined_seats: "shuffled_seats r (sendJoined env pid nm s) = shuffled_seats r s"
  by (simp add: shuffled_seats_def)

lemma maybeShutdown_seats: "shuffled_seats r (maybeShutdown s) = shuffled_seats r s"
  by (simp add: shuffled_seats_def)

lemmas seats_frame = emit_seats watch_seats publish_seats sendJoined_seats maybeShutdown_seats

lemma rerack_same:
  "i < length ps \<Longrightarrow> rp_rack p = rp_rack (ps ! i) \<Longrightarrow> map rp_rack (ps[i := p]) = map rp_rack ps"
  by (simp add: map_update list_update_same_conv)

lemma addPlayer_seats: "shuffled_seats r (snd (addPlayer env pid nm sn r))"
proof (cases "find_index (\<lambda>p. rp_id p = pid) (players r)")
  case None
  then show ?thesis
    by (auto simp: addPlayer_def Let_def seats_frame shuffled_seats_def new_player_def)
next
  case (Some i)
  then have "i < length (players r)" using find_index_SomeD by blast
  then show ?thesis
    using Some by (auto simp: addPlayer_def Let_def seats_frame shuffled_seats_def rerack_same simp del: set_map)
qed

section \<open>The invariant of a room\<close>

definition room_inv :: "RoomActor \<Rightarrow> bool" where
  "room_inv r \<longleftrightarrow>
     (case behavior r of
        waitingBehavior \<Rightarrow> lobby_ok r
      | gameOverBehavior \<Rightarrow> game_ok r
      | _ \<Rightarrow> safe r \<and> table_tiles r = mset (full_tiles (Bundle_Lang (room_bundle r))))"

definition admissible :: "RoomActor \<Rightarrow> room_msg \<Rightarrow> bool" where
  "admissible r msg \<longleftrightarrow> behavior r \<in> {playingBehavior, pauseBehavior} \<longrightarrow> calm r msg"

definition good :: "RoomActor \<Rightarrow> RoomActor option \<Rightarrow> bool" where
  "good r x \<longleftrightarrow> (\<exists>r'. x = Some r' \<and> room_inv r' \<and> room_bundle r' = room_bundle r)"

lemma good_Some [simp]: "good r (Some r') = (room_inv r' \<and> room_bundle r' = room_bundle r)"
  by (simp add: good_def)

lemma good_broadcast:
  assumes "lobby_ok s" and "room_inv s" and "room_bundle s = room_bundle r"
  shows "good r (broadcastState env ph s)"
proof -
  obtain e where e: "broadcastState env ph s = Some (publish env e s)"
    using broadcastState_lobby [OF assms(1)] by blast
  have "room_inv (publish env e s)"
    using assms(2) shuffled_seats_lobby [of s "publish env e s"] shuffled_seats_game [of s "publish env e s"]
    by (simp add: room_inv_def publish_seats split: behavior.splits)
  then show ?thesis using assms(3) e by simp
qed

lemma room_inv_seats:
  assumes "room_inv r" and "shuffled_seats r s" and "behavior r \<in> {waitingBehavior, gameOverBehavior}"
  shows "room_inv s" and "lobby_ok s" and "room_bundle s = room_bundle r"
  using assms shuffled_seats_lobby [OF assms(2)] shuffled_seats_game [OF assms(2)] game_lobby [of r]
  by (auto simp: room_inv_def shuffled_seats_def)

lemma hello_good:
  assumes "room_inv r" and "behavior r \<in> {waitingBehavior, gameOverBehavior}"
  shows "good r (hello env ph pid nm sn r)"
proof -
  obtain ok s where s: "addPlayer env pid nm sn r = (ok, s)" by fastforce
  let ?t = "sendJoined env pid nm s"
  have seats: "shuffled_seats r s" using addPlayer_seats [of r env pid nm sn] s by simp
  then have "shuffled_seats r ?t" by (simp add: seats_frame)
  note t = room_inv_seats [OF assms(1) this assms(2)]
  show ?thesis
    using good_broadcast [OF t(2) t(1) t(3)] room_inv_seats [OF assms(1) seats assms(2)]
    by (simp add: hello_def s)
qed

lemma startGame_good:
  assumes "bundle_ok (room_bundle r)" and "MinPlayers \<le> length (players r)"
  shows "good r (startGame env r)"
proof -
  have "players r \<noteq> []" using assms(2) by (auto simp: MinPlayers_def)
  from startGame_ok [OF assms(1) this, of env] obtain r' where
    "startGame env r = Some r'" "safe r'" "behavior r' = playingBehavior" "room_bundle r' = room_bundle r"
    "table_tiles r' = mset (full_tiles (Bundle_Lang (room_bundle r)))" .
  then show ?thesis by (simp add: room_inv_def)
qed

section \<open>Every message\<close>

lemma remove_good:
  assumes r: "room_inv r" "behavior r \<in> {waitingBehavior, gameOverBehavior}" and s: "shuffled_seats r s"
  shows "good r (map_option maybeShutdown (if gone then broadcastState env ph s else Some s))"
proof -
  note s' = room_inv_seats [OF r(1) s r(2)]
  obtain e where e: "broadcastState env ph s = Some (publish env e s)"
    using broadcastState_lobby [OF s'(2)] by blast
  have m: "good r (Some t)" if "shuffled_seats r t" for t
    using room_inv_seats [OF r(1) that r(2)] by simp
  have "shuffled_seats r (maybeShutdown (publish env e s))" "shuffled_seats r (maybeShutdown s)"
    using s by (simp_all add: seats_frame)
  from this [THEN m] show ?thesis using e by simp
qed

lemma addBot_good:
  assumes r: "room_inv r" "behavior r \<in> {waitingBehavior, gameOverBehavior}"
  shows "good r (addBot env r)" and "good r (removeBot env seat r)"
proof -
  have add: "good r (broadcastState env PhaseWaiting ((emit (SpawnBot p) r)\<lparr>players := players r @ [q]\<rparr>))"
    if "rp_rack q = None" for p q
  proof -
    have "shuffled_seats r ((emit (SpawnBot p) r)\<lparr>players := players r @ [q]\<rparr>)"
      using that by (auto simp: shuffled_seats_def)
    note s = room_inv_seats [OF r(1) this r(2)]
    show ?thesis by (rule good_broadcast [OF s(2,1,3)])
  qed
  have spawn: "good r (Some (emit (SpawnBot p) r))" for p
    using room_inv_seats [OF r(1) _ r(2), of "emit (SpawnBot p) r"] by (simp add: seats_frame)
  show "good r (addBot env r)"
  proof (cases "spawned env")
    case None
    then show ?thesis using r(1) spawn by (simp add: addBot_def Let_def)
  next
    case (Some b)
    then show ?thesis using r(1) by (simp add: addBot_def Let_def add)
  qed
  let ?tell = "case rp_botPID (players r ! nat seat) of Some pid \<Rightarrow> emit (TellShutdownBot pid) r | None \<Rightarrow> r"
  have "shuffled_seats r (?tell\<lparr>players := remove_at (nat seat) (players r)\<rparr>)"
    using remove_seat [of r "nat seat"] by (auto simp: shuffled_seats_def split: option.splits)
  note t = room_inv_seats [OF r(1) this r(2)]
  have "players ?tell = players r" by (simp split: option.splits)
  then show "good r (removeBot env seat r)"
    using r good_broadcast [OF t(2,1,3)] by (simp add: removeBot_def Let_def)
qed

lemma room_inv_bundle: "room_inv r \<Longrightarrow> bundle_ok (room_bundle r)"
  by (auto simp: room_inv_def lobby_ok_def game_ok_def safe_def Let_def split: behavior.splits)

lemma idle_good:
  assumes "room_inv r" and "behavior r \<in> {waitingBehavior, gameOverBehavior}"
  shows "good r (Some r)" "good r (Some (emit e r))" "good r (Some (publish env ev r))"
  using assms room_inv_seats [OF assms(1) _ assms(2), of "emit e r"]
    room_inv_seats [OF assms(1) _ assms(2), of "publish env ev r"]
  by (simp_all add: seats_frame)

lemma on_waiting_good:
  assumes r: "room_inv r" "behavior r = waitingBehavior"
  shows "good r (on_waiting env msg r)"
proof -
  have b: "behavior r \<in> {waitingBehavior, gameOverBehavior}" using r(2) by simp
  note idle = idle_good [OF r(1) b]
  show ?thesis
  proof (cases msg)
    case (GoodbyePlayer n)
    with remove_good [OF r(1) b removePlayer_seats(1) [of r n]] show ?thesis
      by (simp add: on_waiting_def split_def Let_def)
  next
    case (Terminated p)
    with remove_good [OF r(1) b removePlayer_seats(2) [of r p]] show ?thesis
      by (simp add: on_waiting_def split_def Let_def)
  next
    case (PlayerInput pid inp)
    have "good r (startGame env r)" if "\<not> length (players r) < MinPlayers"
      using startGame_good [OF room_inv_bundle [OF r(1)]] that by simp
    with PlayerInput idle addBot_good [OF r(1) b] show ?thesis
      by (cases "In_Type inp") (simp_all add: on_waiting_def chat_def)
  qed (use idle hello_good [OF r(1) b] in \<open>simp_all add: on_waiting_def\<close>)
qed

lemma on_gameOver_good:
  assumes r: "room_inv r" "behavior r = gameOverBehavior"
  shows "good r (on_gameOver env msg r)"
proof -
  have b: "behavior r \<in> {waitingBehavior, gameOverBehavior}" using r(2) by simp
  note idle = idle_good [OF r(1) b]
  have gone: "good r (Some (snd (removePlayerByName n r)))" "good r (Some (snd (removePlayerByPath p r)))" for n p
    using room_inv_seats [OF r(1) removePlayer_seats(1) b] room_inv_seats [OF r(1) removePlayer_seats(2) b]
    by simp_all
  show ?thesis
  proof (cases msg)
    case (PlayerInput pid inp)
    let ?s = "publish env (EvChat ''restart'' (nameFor (cancelSchedule schedRefShutdown r) pid @
        '' started a new game'')) (cancelSchedule schedRefShutdown r)"
    have "shuffled_seats r ?s" by (auto simp: shuffled_seats_def)
    note s = room_inv_seats [OF r(1) this b]
    obtain e where e: "broadcastState env PhaseWaiting ?s = Some (publish env e ?s)"
      using broadcastState_lobby [OF s(2)] by blast
    have "shuffled_seats ?s (publish env e ?s)" by (simp only: publish_seats shuffled_seats_refl)
    then have "lobby_ok (publish env e ?s)" using shuffled_seats_lobby s(2) by blast
    then have "room_inv (become waitingBehavior (publish env e ?s))"
      by (simp add: room_inv_def lobby_ok_def)
    then have "good r (restartGame env pid r)"
      using e startGame_good [of ?s env] room_inv_bundle [OF r(1)] s(3)
      by (simp add: restartGame_def Let_def good_def)
    with PlayerInput idle show ?thesis
      by (cases "In_Type inp") (simp_all add: on_gameOver_def chat_def)
  qed (use idle gone hello_good [OF r(1) b] in \<open>simp_all add: on_gameOver_def split_def Let_def\<close>)
qed

lemma keeps_good:
  assumes "keeps r x" and "table_tiles r = mset (full_tiles (Bundle_Lang (room_bundle r)))"
  shows "good r x"
proof -
  obtain r' where r': "x = Some r'" "safe r'" "table_tiles r' = table_tiles r" "room_bundle r' = room_bundle r"
    using assms(1) unfolding keeps_def by blast
  have "game_ok r'" "lobby_ok r'" using r'(2) game_lobby by (auto simp: safe_def)
  then show ?thesis using r' assms(2) by (simp add: room_inv_def split: behavior.splits)
qed

lemma keeps_trans: "keeps r (Some s) \<Longrightarrow> keeps s x \<Longrightarrow> keeps r x"
  unfolding keeps_def by (elim exE conjE) (simp only: option.inject, blast)

lemma handleBotPlay_keeps: "safe r \<Longrightarrow> keeps r (handleBotPlay env play r)"
  using applyPass_keeps [of r env "BP_BotID play" False]
    applyPlace_keeps [of r env "BP_BotID play" "BP_Placements play"] keeps_same [of r r]
  by (simp add: handleBotPlay_def split: option.splits)

lemma pauseGame_keeps:
  assumes r: "safe r"
  shows "keeps r (pauseGame env pid r)"
proof -
  obtain s where s: "pauseGame env pid r = broadcastState env PhasePaused s" "same_table r s"
    by (simp add: pauseGame_def Let_def same_table_def)
  then show ?thesis using keeps_broadcast [of s r] keeps_same [OF r s(2)] safe_same [OF s(2)] r by simp
qed

lemma resumeGame_keeps:
  assumes r: "safe r"
  shows "keeps r (resumeGame env pid r)"
proof -
  obtain s where s: "resumeGame env pid r = Option.bind (broadcastState env PhasePlaying s) (kickBot env)"
    "same_table r s" by (simp add: resumeGame_def Let_def same_table_def)
  then have "safe s" using safe_same r by blast
  then obtain e where e: "broadcastState env PhasePlaying s = Some (publish env e s)"
    using broadcastState_ok [of s env PhasePlaying] by (auto simp: safe_def)
  let ?t = "publish env e s"
  have st: "same_table r ?t" using s(2) by (simp add: same_table_def)
  then have safe: "safe ?t" using safe_same r by blast
  then have g: "game_ok ?t" by (simp add: safe_def)
  have cur: "rp_rack p \<noteq> None" if "currentPlayer ?t = Some p" for p
    using that seated_current [of ?t] safe by (auto simp: safe_def seated_def)
  obtain u where "kickBot env ?t = Some u" "same_table ?t u"
    using kickBot_ok [OF g cur, of env] by blast
  then show ?thesis using keeps_same [OF r same_table_trans [OF st]] s(1) e by simp
qed

lemma on_playing_keeps:
  assumes r: "safe r" and c: "calm r msg"
  shows "keeps r (on_playing env msg r)"
proof -
  have still: "keeps r (Some s)" if "same_table r s" for s by (rule keeps_same [OF r that])
  show ?thesis
  proof (cases msg)
    case (GoodbyePlayer n)
    then show ?thesis using calm_goodbye c still by (simp add: on_playing_def same_table_def)
  next
    case (Terminated p)
    then show ?thesis using calm_terminated c still by (simp add: on_playing_def same_table_def)
  next
    case (PlayerInput pid inp)
    then show ?thesis
      using applyPlace_keeps [OF r] applyExchange_keeps [OF r] applyPass_keeps [OF r]
        pauseGame_keeps [OF r] still
      by (cases "In_Type inp") (simp_all add: on_playing_def handlePlayingInput_def chat_def same_table_def)
  next
    case TurnTimeout
    then show ?thesis
      using applyPass_keeps [OF r] seated_current(1) r by (simp add: on_playing_def safe_def)
  qed (use c hello_keeps [OF r] handleBotPlay_keeps [OF r] still in \<open>simp_all add: on_playing_def same_table_def\<close>)
qed

lemma on_pause_keeps:
  assumes r: "safe r" and c: "calm r msg"
  shows "keeps r (on_pause env msg r)"
proof -
  have still: "keeps r (Some s)" if "same_table r s" for s by (rule keeps_same [OF r that])
  show ?thesis
  proof (cases msg)
    case (GoodbyePlayer n)
    then show ?thesis using calm_goodbye c still by (simp add: on_pause_def same_table_def)
  next
    case (Terminated p)
    then show ?thesis using calm_terminated c still by (simp add: on_pause_def same_table_def)
  next
    case (PlayerInput pid inp)
    then show ?thesis
      using resumeGame_keeps [OF r] still
      by (cases "In_Type inp") (simp_all add: on_pause_def chat_def same_table_def)
  qed (use c hello_keeps [OF r] still in \<open>simp_all add: on_pause_def same_table_def\<close>)
qed

lemma room_receive_good:
  assumes "room_inv r" and "admissible r msg"
  shows "good r (room_receive env msg r)"
proof (cases "behavior r")
  case waitingBehavior
  then show ?thesis using on_waiting_good [OF assms(1)] by (simp add: room_receive_def)
next
  case gameOverBehavior
  then show ?thesis using on_gameOver_good [OF assms(1)] by (simp add: room_receive_def)
next
  case playingBehavior
  then show ?thesis
    using assms keeps_good [OF on_playing_keeps] by (simp add: room_receive_def room_inv_def admissible_def)
next
  case pauseBehavior
  then show ?thesis
    using assms keeps_good [OF on_pause_keeps] by (simp add: room_receive_def room_inv_def admissible_def)
qed

section \<open>Runs\<close>

type_synonym room_input = "Env \<times> room_msg"

definition room_step :: "room_input \<Rightarrow> RoomActor \<Rightarrow> RoomActor option" where
  "room_step m r = room_receive (fst m) (snd m) r"

definition room_accepts :: "RoomActor \<Rightarrow> room_input \<Rightarrow> bool" where
  "room_accepts r m = admissible r (snd m)"

interpretation room: actor room_step room_inv room_accepts
proof
  fix r and m :: room_input
  assume "room_inv r" "room_accepts r m"
  then show "\<exists>r'. room_step m r = Some r' \<and> room_inv r'"
    using room_receive_good [of r "snd m" "fst m"] by (auto simp: good_def room_step_def room_accepts_def)
qed

lemma room_PostStart_inv:
  assumes "room_PostStart self (Some reg) lb = Some r" and "bundle_ok (room_bundle r)"
  shows "room_inv r"
  using assms by (auto simp: room_PostStart_def room_inv_def lobby_ok_def Let_def split: option.splits res.splits)

end
