(* ===== verification/Scrabble_Room_Turns.thy ===== *)
theory Scrabble_Room_Turns
  imports Scrabble_Room_Run Scrabble_Complete
begin

text \<open>
  What a turn of the room does: a bot's answer to the turn it is sent, the clock over a pause, the
  order of turns, the winner, and the messages that break a running game.
\<close>

section \<open>The bot's turn\<close>

definition turn_of :: "RoomActor \<Rightarrow> YourTurn option" where
  "turn_of r =
     do {
       p \<leftarrow> currentPlayer r;
       b \<leftarrow> board r;
       grid \<leftarrow> boardToWire b (Bundle_Lang (room_bundle r));
       k \<leftarrow> rp_rack p;
       rack \<leftarrow> rackToWire k (Bundle_Lang (room_bundle r));
       Some \<lparr>YT_BotID = rp_id p, YT_Board = grid, YT_Rack = rack\<rparr>
     }"

lemma turn_of_same: "same_table r r' \<Longrightarrow> turn_of r' = turn_of r"
  by (simp add: turn_of_def same_table_def currentPlayer_def)

lemma turn_of_ok:
  assumes r: "safe r"
  obtains turn b k where "turn_of r = Some turn" "YT_BotID turn = rp_id (players r ! nat (currentIdx r))"
    "board r = Some b" "rp_rack (players r ! nat (currentIdx r)) = Some k"
    "wireToBoard (YT_Board turn) (Bundle_Lang (room_bundle r)) = Ok b"
    "wireToRack (YT_Rack turn) (Bundle_Lang (room_bundle r)) = Ok k"
    "gen_ready b k (Bundle_Dawg (room_bundle r)) (Bundle_Lang (room_bundle r))"
proof -
  let ?l = "Bundle_Lang (room_bundle r)"
  obtain bg b k where b: "bag r = Some bg" "board r = Some b" "rp_rack (players r ! nat (currentIdx r)) = Some k"
    "bundle_ok (room_bundle r)" "board_ok ?l b" "rack_ok ?l k" and st: "seated r"
    using r by (rule safeE)
  have l: "wire_lang ?l" using b(4) by (simp add: bundle_ok_def)
  obtain grid where g: "boardToWire b ?l = Some grid" "wireToBoard grid ?l = Ok b"
    using wireToBoard_boardToWire [OF _ _ l, of b] b(5) by (auto simp: board_ok_def)
  obtain ss where s: "rackToWire k ?l = Some ss" "wireToRack ss ?l = Ok k"
    using wireToRack_rackToWire [OF l rack_ok_wf [OF b(6)]] by blast
  have "gen_ready b k (Bundle_Dawg (room_bundle r)) ?l"
    using b(4-6) by (simp add: gen_ready_def bundle_ok_def board_ok_def rack_ok_def wire_lang_def)
  moreover have "turn_of r = Some \<lparr>YT_BotID = rp_id (players r ! nat (currentIdx r)), YT_Board = grid, YT_Rack = ss\<rparr>"
    using seated_current(1) [OF st] b(2,3) g(1) s(1) by (simp add: turn_of_def)
  ultimately show thesis using that b(2,3) g(2) s(2) by fastforce
qed

text \<open>The room sends its bot exactly this turn.\<close>

lemma kickBot_turn:
  assumes r: "safe r" and p: "currentPlayer r = Some p" "rp_bot p" "rp_botPID p = Some apid"
    and ok: "schedule_ok env (schedRefBotMove @ schedSuffix r @ ''.'' @ rp_id p)"
  shows "\<exists>turn r'. turn_of r = Some turn \<and> kickBot env r = Some r' \<and> same_table r r' \<and>
     outbox r' = outbox r @ [Schedule (schedRefBotMove @ schedSuffix r @ ''.'' @ rp_id p)
       (SchedYourTurn turn) (Some apid) (BotMoveDelayMs * millisecond)]"
proof -
  obtain turn where turn: "turn_of r = Some turn" using turn_of_ok [OF r] by blast
  then show ?thesis using p ok
    by (auto simp: turn_of_def kickBot_def scheduleBotMove_def Let_def same_table_def emit_def
             split: Option.bind_splits)
qed

text \<open>
  The bot answers with a best move of its rack, and the room commits it; it passes only when the
  rack has no legal move.
\<close>

lemma bot_turn:
  assumes r: "safe r" and turn: "turn_of r = Some turn"
  defines "p \<equiv> players r ! nat (currentIdx r)" and "l \<equiv> Bundle_Lang (room_bundle r)"
    and "d \<equiv> Contains (Bundle_Dawg (room_bundle r))"
  obtains b k where "board r = Some b" "rp_rack p = Some k"
    "(\<exists>ps res left bg play e. handleTurn (room_bundle r) turn = Some play \<and> bag r = Some bg \<and>
        Validate \<lparr>Placements = ps\<rparr> b d l = Ok res \<and>
        mset (Rack_tiles k) = mset (tilesUsed ps) + mset (Rack_tiles left) \<and>
        (\<forall>qs. legal_move qs b d \<and> (\<forall>q \<in> set qs. wf_tile l (P_Tile q)) \<and>
           mset (tilesUsed qs) \<subseteq># mset (Rack_tiles k) \<longrightarrow>
           (\<exists>res'. Validate \<lparr>Placements = qs\<rparr> b d l = Ok res' \<and> MR_Score res' \<le> MR_Score res)) \<and>
        handleBotPlay env play r = endTurn env (publish env e
          (commit (fst (Refill left bg)) (rp_score p + MR_Score res) (snd (Refill left bg)) (after ps b) 0 r))) \<or>
     (\<exists>play. handleTurn (room_bundle r) turn = Some play \<and>
        handleBotPlay env play r = applyPass env (rp_id p) False r \<and>
        (\<forall>qs. legal_move qs b d \<and> (\<forall>q \<in> set qs. wf_tile l (P_Tile q)) \<longrightarrow>
           \<not> mset (tilesUsed qs) \<subseteq># mset (Rack_tiles k)))"
proof -
  obtain turn' b k where t': "turn_of r = Some turn'" "YT_BotID turn' = rp_id p"
    and b: "board r = Some b" "rp_rack p = Some k"
    and w: "wireToBoard (YT_Board turn') l = Ok b" "wireToRack (YT_Rack turn') l = Ok k"
    and ready: "gen_ready b k (Bundle_Dawg (room_bundle r)) l"
    using turn_of_ok [OF r] unfolding p_def l_def by blast
  have t: "turn' = turn" using t'(1) turn by simp
  have st: "seated r" using r by (simp add: safe_def)
  have cur: "currentPlayer r = Some p" using seated_current [OF st] by (simp add: p_def)
  obtain best where best: "BestMove b k (Bundle_Dawg (room_bundle r)) l = Some best"
    "\<And>m. best = Some m \<Longrightarrow> Validate (SM_Move m) b d l = Ok (SM_Result m) \<and>
       (\<forall>p \<in> set (Placements (SM_Move m)). wf_tile l (P_Tile p)) \<and>
       mset (map rack_want (map P_Tile (Placements (SM_Move m)))) \<subseteq># mset (Rack_tiles k)"
    "\<And>ps. legal_move ps b d \<Longrightarrow> \<forall>p \<in> set ps. wf_tile l (P_Tile p) \<Longrightarrow>
       mset (map rack_want (map P_Tile ps)) \<subseteq># mset (Rack_tiles k) \<Longrightarrow>
       \<exists>m res. best = Some m \<and> Validate \<lparr>Placements = ps\<rparr> b d l = Ok res \<and>
         MR_Score res \<le> MR_Score (SM_Result m)"
    using BestMove_optimal [OF ready] unfolding d_def by blast
  show thesis
  proof (rule that [OF b])
    show "(\<exists>ps res left bg play e. handleTurn (room_bundle r) turn = Some play \<and> bag r = Some bg \<and>
        Validate \<lparr>Placements = ps\<rparr> b d l = Ok res \<and>
        mset (Rack_tiles k) = mset (tilesUsed ps) + mset (Rack_tiles left) \<and>
        (\<forall>qs. legal_move qs b d \<and> (\<forall>q \<in> set qs. wf_tile l (P_Tile q)) \<and>
           mset (tilesUsed qs) \<subseteq># mset (Rack_tiles k) \<longrightarrow>
           (\<exists>res'. Validate \<lparr>Placements = qs\<rparr> b d l = Ok res' \<and> MR_Score res' \<le> MR_Score res)) \<and>
        handleBotPlay env play r = endTurn env (publish env e
          (commit (fst (Refill left bg)) (rp_score p + MR_Score res) (snd (Refill left bg)) (after ps b) 0 r))) \<or>
     (\<exists>play. handleTurn (room_bundle r) turn = Some play \<and>
        handleBotPlay env play r = applyPass env (rp_id p) False r \<and>
        (\<forall>qs. legal_move qs b d \<and> (\<forall>q \<in> set qs. wf_tile l (P_Tile q)) \<longrightarrow>
           \<not> mset (tilesUsed qs) \<subseteq># mset (Rack_tiles k)))" (is "?plays \<or> ?passes")
    proof (cases best)
      case None
      have "handleTurn (room_bundle r) turn = Some \<lparr>BP_BotID = rp_id p, BP_Placements = []\<rparr>"
        using w t' t best(1) None by (simp add: handleTurn_def l_def)
      moreover have "handleBotPlay env \<lparr>BP_BotID = rp_id p, BP_Placements = []\<rparr> r = applyPass env (rp_id p) False r"
        using cur by (simp add: handleBotPlay_def)
      ultimately show ?thesis using best(3) None by (auto simp: tilesUsed_rack_want)
    next
      case (Some m)
      let ?ps = "Placements (SM_Move m)" and ?res = "SM_Result m"
      note m = best(2) [OF Some]
      have v: "Validate \<lparr>Placements = ?ps\<rparr> b d l = Ok ?res"
        using m by (cases "SM_Move m") simp
      have bo: "bundle_ok (room_bundle r)" "rack_ok l k"
        using r b(2) unfolding p_def l_def by (auto elim: safeE)
      have wl: "wire_lang l" "wf_lang l" using bo(1) by (simp_all add: bundle_ok_def wire_lang_def l_def)
      obtain ws where ws: "enginePlacementsToWire ?ps l = Some ws" "length ws = length ?ps" "toEnginePlacements ws l = Ok ?ps"
        using toEnginePlacements_wire [OF wl(1)] m by blast
      have "?ps \<noteq> []"
        using v wl(2) ready m by (auto simp: gen_ready_def elim!: Validate_OkE)
      then have ne: "length ws \<noteq> 0" using ws(2) by simp
      have play: "handleTurn (room_bundle r) turn = Some \<lparr>BP_BotID = rp_id p, BP_Placements = ws\<rparr>"
        using w t' t best(1) Some ws(1) by (simp add: handleTurn_def l_def)
      have "sentinel \<notin> set (Rack_tiles k)" using hand_no_sentinel [OF wl(2)] bo(2) by (simp add: rack_ok_def)
      moreover have "\<forall>w \<in> set (tilesUsed ?ps). Tile_Letter w \<noteq> sentinelLetter"
        using tilesUsed_no_sentinel [OF bo(1), of ?ps] m unfolding l_def by blast
      moreover have "mset (map rack_want (tilesUsed ?ps)) \<subseteq># mset (Rack_tiles k)"
        using m by (simp only: map_rack_want_tilesUsed) (simp add: tilesUsed_rack_want)
      ultimately obtain left where left: "Rack_Remove k (tilesUsed ?ps) = Ok (tilesUsed ?ps, left)"
        "mset (Rack_tiles k) = mset (tilesUsed ?ps) + mset (Rack_tiles left)"
        using Rack_Remove_Ok [of k "tilesUsed ?ps"] unfolding map_rack_want_tilesUsed by blast
      obtain bg where bg: "bag r = Some bg" using r by (rule safeE)
      have "handleBotPlay env \<lparr>BP_BotID = rp_id p, BP_Placements = ws\<rparr> r = applyPlace env (rp_id p) ws r"
        using cur ne by (simp add: handleBotPlay_def)
      then obtain e where "handleBotPlay env \<lparr>BP_BotID = rp_id p, BP_Placements = ws\<rparr> r = endTurn env (publish env e
          (commit (fst (Refill left bg)) (rp_score p + MR_Score ?res) (snd (Refill left bg)) (after ?ps b) 0 r))"
        using applyPlace_commit [OF r refl _ b(1) bg _ left(1), of ws ?res env] ws(3) b(2) v
        by (simp add: p_def l_def d_def)
      moreover have "\<exists>res'. Validate \<lparr>Placements = qs\<rparr> b d l = Ok res' \<and> MR_Score res' \<le> MR_Score ?res"
        if "legal_move qs b d" "\<forall>q \<in> set qs. wf_tile l (P_Tile q)" "mset (tilesUsed qs) \<subseteq># mset (Rack_tiles k)" for qs
        using best(3) [OF that(1,2)] that(3) Some by (auto simp: tilesUsed_rack_want)
      ultimately have ?plays using play bg v left(2) by blast
      then show ?thesis ..
    qed
  qed
qed

section \<open>The end of a turn\<close>

definition game_ends :: "RoomActor \<Rightarrow> bool" where
  "game_ends r \<longleftrightarrow> scorelessTurns r \<ge> ScorelessTurnsToEnd \<or>
     (\<exists>bg. bag r = Some bg \<and> Bag_tiles bg = []) \<and> (\<exists>p \<in> set (players r). \<exists>k. rp_rack p = Some k \<and> Rack_tiles k = [])"

lemma IsGameOver_exact:
  assumes r: "safe r" and b: "bag r = Some bg"
  shows "IsGameOver bg (map rp_rack (players r)) (scorelessTurns r) = Some (game_ends r)"
proof -
  obtain ks where ks: "map rp_rack (players r) = map Some ks" using r by (rule seated_racks)
  have "(\<exists>p \<in> set (players r). \<exists>k. rp_rack p = Some k \<and> Rack_tiles k = []) \<longleftrightarrow>
      (\<exists>x \<in> set (map rp_rack (players r)). \<exists>k. x = Some k \<and> Rack_tiles k = [])" by simp
  also have "\<dots> \<longleftrightarrow> (\<exists>k \<in> set ks. Rack_tiles k = [])" unfolding ks by simp
  finally have some: "(\<exists>p \<in> set (players r). \<exists>k. rp_rack p = Some k \<and> Rack_tiles k = []) \<longleftrightarrow>
      (\<exists>k \<in> set ks. Rack_tiles k = [])" .
  have "find_index (\<lambda>k. Rack_Size k = 0) ks = None \<longleftrightarrow> \<not> (\<exists>k \<in> set ks. Rack_tiles k = [])"
    by (auto simp: find_index_None_iff Rack_Size_def)
  then show ?thesis
    unfolding game_ends_def some IsGameOver_def ks FirstEmptyRack_spec Remaining_def
    using b by (cases "find_index (\<lambda>k. Rack_Size k = 0) ks") simp_all
qed

lemma endTurn_exact:
  assumes r: "safe r"
  shows "\<exists>r'. endTurn env r = Some r' \<and>
     (if game_ends r
      then behavior r' = gameOverBehavior \<and>
        FinalScores (map rp_score (players r)) (map rp_rack (players r)) (Bundle_Lang (room_bundle r)) =
          Some (map rp_score (players r'))
      else same_table (next_seat r) r' \<and> behavior r' = behavior r \<and>
        turnDeadline r' = Some (now env + turnDuration))"
proof -
  obtain bg where bg: "bag r = Some bg" using r by (rule safeE)
  note ov = IsGameOver_exact [OF r bg]
  show ?thesis
  proof (cases "game_ends r")
    case True
    obtain final r' where f:
      "FinalScores (map rp_score (players r)) (map rp_rack (players r)) (Bundle_Lang (room_bundle r)) = Some final"
      "length final = length (players r)" "enterGameOver env r = Some r'"
      "same_table (r\<lparr>players := scored_players (players r) final\<rparr>) r'" "behavior r' = gameOverBehavior"
      using r by (rule enterGameOver_ok)
    have "players r' = scored_players (players r) final" using f(4) by (simp add: same_table_def)
    then have "map rp_score (players r') = final" using f(2) by simp
    then show ?thesis using f True bg ov by (simp add: endTurn_def checkGameOver_def)
  next
    case False
    then show ?thesis using advanceTurn_ok [OF r, of env] bg ov by (auto simp: endTurn_def checkGameOver_def)
  qed
qed

section \<open>The clock over a pause\<close>

lemma pauseGame_exact:
  assumes r: "safe r" and d: "turnDeadline r = Some d"
  shows "\<exists>r'. pauseGame env pid r = Some r' \<and> same_table r r' \<and> behavior r' = pauseBehavior \<and>
     turnDeadline r' = None \<and> pausedRemaining r' = max (d - now env) second \<and>
     schedRefTurn @ schedSuffix r \<notin> activeRefs r' \<and> schedSuffix r' = schedSuffix r"
proof -
  let ?c = "cancelBotMove (cancelSchedule schedRefTurn r)"
  let ?s = "?c\<lparr>pausedRemaining := max (d - now env) second, turnDeadline := None\<rparr>"
  define s where "s = become pauseBehavior (publish env (EvChat ''paused'' (nameFor ?s pid @ '' paused the game'')) ?s)"
  have st: "same_table r s" by (simp add: s_def same_table_def)
  then have "safe s" using safe_same r by blast
  then obtain e where e: "broadcastState env PhasePaused s = Some (publish env e s)"
    using broadcastState_ok [of s env PhasePaused] by (auto simp: safe_def)
  have P: "pauseGame env pid r = Some (publish env e s)"
    using e d by (simp add: pauseGame_def Let_def s_def)
  have suf: "schedSuffix ?c = schedSuffix r"
    by (simp add: cancelBotMove_def cancelSchedule_def Let_def split: option.splits)
  have act: "activeRefs (cancelBotMove x) \<subseteq> activeRefs x" for x
    by (auto simp: cancelBotMove_def Let_def split: option.splits)
  have "schedRefTurn @ schedSuffix r \<notin> activeRefs (cancelSchedule schedRefTurn r)"
    by (simp add: cancelSchedule_def Let_def)
  then have "schedRefTurn @ schedSuffix r \<notin> activeRefs ?c" using act by blast
  then have "schedRefTurn @ schedSuffix r \<notin> activeRefs (publish env e s)" "schedSuffix (publish env e s) = schedSuffix r"
    using suf by (simp_all add: s_def become_def)
  moreover have "turnDeadline (publish env e s) = None" "pausedRemaining (publish env e s) = max (d - now env) second"
    "behavior (publish env e s) = pauseBehavior" "same_table r (publish env e s)"
    using st by (simp_all add: s_def same_table_def)
  ultimately show ?thesis using P by blast
qed

lemma resumeGame_exact:
  assumes r: "safe r" and rem: "pausedRemaining r > 0"
  shows "\<exists>r'. resumeGame env pid r = Some r' \<and> same_table r r' \<and> behavior r' = playingBehavior \<and>
     turnDeadline r' = Some (now env + pausedRemaining r)"
proof -
  let ?c = "schedule env SchedTurnTimeout (pausedRemaining r) schedRefTurn
      (r\<lparr>pausedRemaining := 0, turnDeadline := Some (now env + pausedRemaining r)\<rparr>)"
  define s where "s = become playingBehavior (publish env (EvChat ''resumed'' (nameFor ?c pid @ '' resumed the game'')) ?c)"
  have st: "same_table r s" by (simp add: s_def same_table_def)
  then have "safe s" using safe_same r by blast
  then obtain e where e: "broadcastState env PhasePlaying s = Some (publish env e s)"
    using broadcastState_ok [of s env PhasePlaying] by (auto simp: safe_def)
  let ?t = "publish env e s"
  have st': "same_table r ?t" using st by (simp add: same_table_def)
  then have safe: "safe ?t" using safe_same r by blast
  then have g: "game_ok ?t" by (simp add: safe_def)
  have cur: "rp_rack p \<noteq> None" if "currentPlayer ?t = Some p" for p
    using that seated_current [of ?t] safe by (auto simp: safe_def seated_def)
  obtain u where u: "kickBot env ?t = Some u" "same_table ?t u" "behavior u = behavior ?t" "turnDeadline u = turnDeadline ?t"
    using kickBot_ok [OF g cur, of env] by blast
  have "resumeGame env pid r = Some u" using e u(1) rem by (simp add: resumeGame_def Let_def s_def)
  moreover have "behavior ?t = playingBehavior" "turnDeadline ?t = Some (now env + pausedRemaining r)"
    by (simp_all add: s_def)
  ultimately show ?thesis using u same_table_trans [OF st' u(2)] by auto
qed

section \<open>The winner\<close>

lemma computeWinner_loop_spec:
  "if list_all (\<lambda>p. rp_score p \<le> best) ps then computeWinner_loop ps best w = w
   else \<exists>i < length ps. computeWinner_loop ps best w = (rp_id (ps ! i), rp_name (ps ! i)) \<and>
     best < rp_score (ps ! i) \<and> (\<forall>j < length ps. rp_score (ps ! j) \<le> rp_score (ps ! i)) \<and>
     (\<forall>j < i. rp_score (ps ! j) < rp_score (ps ! i))"
proof (induction ps arbitrary: best w)
  case (Cons p ps)
  show ?case
  proof (cases "rp_score p > best")
    case gt: True
    show ?thesis
    proof (cases "list_all (\<lambda>q. rp_score q \<le> rp_score p) ps")
      case True
      then have "computeWinner_loop (p # ps) best w = (rp_id p, rp_name p)"
        using gt Cons.IH [of "rp_score p" "(rp_id p, rp_name p)"] by simp
      moreover have "\<forall>j < length (p # ps). rp_score ((p # ps) ! j) \<le> rp_score p"
        using True by (auto simp: nth_Cons list_all_length split: nat.splits)
      ultimately show ?thesis using gt by (auto intro!: exI [of _ 0])
    next
      case False
      then obtain i where i: "i < length ps" "computeWinner_loop ps (rp_score p) (rp_id p, rp_name p) = (rp_id (ps ! i), rp_name (ps ! i))"
        "rp_score p < rp_score (ps ! i)" "\<forall>j < length ps. rp_score (ps ! j) \<le> rp_score (ps ! i)"
        "\<forall>j < i. rp_score (ps ! j) < rp_score (ps ! i)"
        using Cons.IH [of "rp_score p" "(rp_id p, rp_name p)"] by auto
      then have "\<forall>j < length (p # ps). rp_score ((p # ps) ! j) \<le> rp_score ((p # ps) ! Suc i)"
        "\<forall>j < Suc i. rp_score ((p # ps) ! j) < rp_score ((p # ps) ! Suc i)"
        by (auto simp: nth_Cons split: nat.splits)
      then show ?thesis using i gt by (auto intro!: exI [of _ "Suc i"])
    qed
  next
    case False
    show ?thesis
    proof (cases "list_all (\<lambda>q. rp_score q \<le> best) ps")
      case True
      then show ?thesis using False Cons.IH [of best w] by simp
    next
      case more: False
      then obtain i where i: "i < length ps" "computeWinner_loop ps best w = (rp_id (ps ! i), rp_name (ps ! i))"
        "best < rp_score (ps ! i)" "\<forall>j < length ps. rp_score (ps ! j) \<le> rp_score (ps ! i)"
        "\<forall>j < i. rp_score (ps ! j) < rp_score (ps ! i)"
        using Cons.IH [of best w] by auto
      then have "\<forall>j < length (p # ps). rp_score ((p # ps) ! j) \<le> rp_score ((p # ps) ! Suc i)"
        "\<forall>j < Suc i. rp_score ((p # ps) ! j) < rp_score ((p # ps) ! Suc i)"
        using False by (auto simp: nth_Cons split: nat.splits)
      then show ?thesis using i False more by (auto intro!: exI [of _ "Suc i"])
    qed
  qed
qed simp

section \<open>Joining and leaving a running game\<close>

text \<open>
  A newcomer to a running game is seated without a rack: the next time the scores are settled, the
  nil rack is dereferenced.
\<close>

lemma FinalScores_nil_rack: "None \<in> set racks \<Longrightarrow> FinalScores scores racks l = None"
proof -
  have "those (map (\<lambda>k. Option.bind k (\<lambda>k. Rack_Value k l)) racks) = None" if "None \<in> set racks"
    using that by (induction racks) (auto split: option.splits)
  then show "None \<in> set racks \<Longrightarrow> FinalScores scores racks l = None"
    by (simp add: FinalScores_def)
qed

lemma late_joiner_unracked:
  assumes r: "safe r" "behavior r = playingBehavior" and room: "length (players r) < MaxPlayers"
    and new: "pid \<notin> rp_id ` set (players r)"
  shows "\<exists>r'. room_receive env (PlayerHello pid nm sn) r = Some r' \<and> behavior r' = playingBehavior \<and>
     map rp_rack (players r') = map rp_rack (players r) @ [None] \<and> bag r' = bag r \<and>
     currentIdx r' = currentIdx r \<and> scorelessTurns r' = scorelessTurns r"
proof -
  have none: "find_index (\<lambda>p. rp_id p = pid) (players r) = None"
    using new by (auto simp: find_index_None_iff)
  let ?s = "snd (addPlayer env pid nm sn r)"
  have s: "addPlayer env pid nm sn r = (True, ?s)"
    using none room by (simp add: addPlayer_def Let_def)
  let ?t = "sendJoined env pid nm ?s"
  have "shuffled_seats r ?t" using addPlayer_seats [of r env pid nm sn] by (simp add: sendJoined_seats)
  then have "game_ok ?t" using r(1) shuffled_seats_game by (auto simp: safe_def)
  then obtain e where e: "broadcastState env PhasePlaying ?t = Some (publish env e ?t)"
    using broadcastState_ok by blast
  have "room_receive env (PlayerHello pid nm sn) r = Some (publish env e ?t)"
    using r(2) e by (simp add: room_receive_def on_playing_def hello_def split_def) (use s in \<open>simp add: prod_eq_iff\<close>)
  moreover have "map rp_rack (players ?s) = map rp_rack (players r) @ [None]" "bag ?s = bag r"
    "currentIdx ?s = currentIdx r" "scorelessTurns ?s = scorelessTurns r" "behavior ?s = behavior r"
    using none room by (simp_all add: addPlayer_def Let_def new_player_def)
  ultimately show ?thesis using r(2) by simp
qed

end
