(* ===== verification/Scrabble_Example.thy ===== *)
theory Scrabble_Example
  imports Scrabble_Complete
begin

text \<open>
  A small position the properties are tried on: the English language, a dictionary of one word, a
  rack that spells it, and the first move that plays it through the centre.
\<close>

definition cat_dawg :: DAWG where
  "cat_dawg = (case BuildDAWG english_lang ([''CAT''], None :: string option) of Ok d \<Rightarrow> d | _ \<Rightarrow>
     \<lparr>Dawg_lang = english_lang, Dawg_root = DAWGNode [] False, Dawg_size = 0\<rparr>)"

definition letter_tile :: "LetterID \<Rightarrow> Tile" where
  "letter_tile i = \<lparr>Tile_Letter = i, Tile_Blank = False\<rparr>"

definition cat_rack :: Rack where
  "cat_rack = \<lparr>Rack_tiles = [letter_tile 2, letter_tile 0, letter_tile 19]\<rparr>"

definition cat_move :: "Placement list" where
  "cat_move = [\<lparr>P_Row = 7, P_Col = 6, P_Tile = letter_tile 2\<rparr>, \<lparr>P_Row = 7, P_Col = 7, P_Tile = letter_tile 0\<rparr>,
     \<lparr>P_Row = 7, P_Col = 8, P_Tile = letter_tile 19\<rparr>]"

lemma cat_dawg_built: "BuildDAWG english_lang ([''CAT''], None :: string option) = Ok cat_dawg"
  by (simp add: BuildDAWG_def cat_dawg_def Let_def)

lemma cat_ready: "gen_ready NewBoard cat_rack cat_dawg english_lang"
  using BuildDAWG_words [OF cat_dawg_built] BuildDAWG_letters [OF wf_english cat_dawg_built] wf_english wf_NewBoard
  by (simp add: gen_ready_def maxAlphabetForBitset_def cat_rack_def letter_tile_def hand_tile_def)

lemma cat_validate:
  "Validate \<lparr>Placements = cat_move\<rparr> NewBoard (Contains cat_dawg) english_lang =
     Ok \<lparr>MR_Words = [\<lparr>FW_Word = ''CAT'', FW_Score = 10, FW_StartRow = 7, FW_StartCol = 6,
           FW_Direction = Horizontal\<rparr>], MR_Score = 10, MR_Bingo = False\<rparr>"
  by code_simp

lemma cat_wf: "\<forall>p \<in> set cat_move. wf_tile english_lang (P_Tile p)"
  by (simp add: cat_move_def letter_tile_def wf_tile_def)

lemma cat_legal: "legal_move cat_move NewBoard (Contains cat_dawg)"
  using Validate_legal [OF wf_english wf_NewBoard, of "\<lparr>Placements = cat_move\<rparr>" "Contains cat_dawg"] cat_wf cat_validate
  by simp

lemma cat_tiles: "mset (map rack_want (map P_Tile cat_move)) \<subseteq># mset (Rack_tiles cat_rack)"
  by (simp add: cat_move_def cat_rack_def letter_tile_def rack_want_def)

end
