(* ===== verification/Scrabble_Engine.thy ===== *)
theory Scrabble_Engine
  imports Scrabble_Example Scrabble_Endgame Scrabble_Wire
begin

text \<open>
  The properties of the rules engine (package \<^verbatim>\<open>scrabble\<close>) and of its wire format, each with an
  instance on the example position.
\<close>

section \<open>Move generation\<close>

text \<open>
  C3: the move generator is sound and complete. On a well-formed position it returns (no panic), every
  move it returns passes \<open>Validate\<close> with the result it is listed with and uses tiles of the rack, and
  every legal move the rack can pay for is listed, up to the order of its placements.
\<close>

theorem generate_moves_exact:
  assumes "gen_ready b rack d l"
  shows "\<exists>ms. GenerateMoves b rack d l = Some ms \<and>
     (\<forall>m \<in> set ms. Validate (SM_Move m) b (Contains d) l = Ok (SM_Result m) \<and>
        mset (map rack_want (map P_Tile (Placements (SM_Move m)))) \<subseteq># mset (Rack_tiles rack)) \<and>
     (\<forall>ps. legal_move ps b (Contains d) \<and> (\<forall>p \<in> set ps. wf_tile l (P_Tile p)) \<and>
        mset (map rack_want (map P_Tile ps)) \<subseteq># mset (Rack_tiles rack) \<longrightarrow>
        (\<exists>m \<in> set ms. mset (Placements (SM_Move m)) = mset ps))"
proof -
  obtain g ms where ms: "GenerateMoves b rack d l = Some ms" using assms by (rule GenerateMoves_spec)
  have "\<exists>m \<in> set ms. mset (Placements (SM_Move m)) = mset ps"
    if "legal_move ps b (Contains d)" "\<forall>p \<in> set ps. wf_tile l (P_Tile p)"
      "mset (map rack_want (map P_Tile ps)) \<subseteq># mset (Rack_tiles rack)" for ps
    using GenerateMoves_complete [OF assms that] ms by auto
  then show ?thesis using ms GenerateMoves_sound(1,4) [OF assms ms] by blast
qed

theorem generate_moves_exact_witness:
  "\<exists>ms. GenerateMoves NewBoard cat_rack cat_dawg english_lang = Some ms \<and>
     (\<exists>m \<in> set ms. mset (Placements (SM_Move m)) = mset cat_move)"
  using generate_moves_exact [OF cat_ready] cat_legal cat_wf cat_tiles by blast

text \<open>
  \<open>BestMove\<close> returns a legal move of the rack with the highest score of all, and returns none only
  when the rack has no legal move.
\<close>

theorem best_move_optimal:
  assumes "gen_ready b rack d l"
  shows "\<exists>best. BestMove b rack d l = Some best \<and>
     (\<forall>m. best = Some m \<longrightarrow> Validate (SM_Move m) b (Contains d) l = Ok (SM_Result m) \<and>
        mset (map rack_want (map P_Tile (Placements (SM_Move m)))) \<subseteq># mset (Rack_tiles rack)) \<and>
     (\<forall>ps. legal_move ps b (Contains d) \<and> (\<forall>p \<in> set ps. wf_tile l (P_Tile p)) \<and>
        mset (map rack_want (map P_Tile ps)) \<subseteq># mset (Rack_tiles rack) \<longrightarrow>
        (\<exists>m res. best = Some m \<and> Validate \<lparr>Placements = ps\<rparr> b (Contains d) l = Ok res \<and>
           MR_Score res \<le> MR_Score (SM_Result m)))"
proof (rule BestMove_optimal [OF assms])
  fix best
  assume 1: "BestMove b rack d l = Some best"
    and 2: "\<And>m. best = Some m \<Longrightarrow> Validate (SM_Move m) b (Contains d) l = Ok (SM_Result m) \<and>
       (\<forall>p \<in> set (Placements (SM_Move m)). wf_tile l (P_Tile p)) \<and>
       mset (map rack_want (map P_Tile (Placements (SM_Move m)))) \<subseteq># mset (Rack_tiles rack)"
    and 3: "\<And>ps. legal_move ps b (Contains d) \<Longrightarrow> \<forall>p \<in> set ps. wf_tile l (P_Tile p) \<Longrightarrow>
       mset (map rack_want (map P_Tile ps)) \<subseteq># mset (Rack_tiles rack) \<Longrightarrow>
       \<exists>m res. best = Some m \<and> Validate \<lparr>Placements = ps\<rparr> b (Contains d) l = Ok res \<and>
         MR_Score res \<le> MR_Score (SM_Result m)"
  show ?thesis
  proof (intro exI [of _ best] conjI allI impI)
    fix m assume "best = Some m"
    from 2 [OF this] show "Validate (SM_Move m) b (Contains d) l = Ok (SM_Result m)"
      "mset (map rack_want (map P_Tile (Placements (SM_Move m)))) \<subseteq># mset (Rack_tiles rack)" by blast+
  next
    fix ps assume "legal_move ps b (Contains d) \<and> (\<forall>p \<in> set ps. wf_tile l (P_Tile p)) \<and>
      mset (map rack_want (map P_Tile ps)) \<subseteq># mset (Rack_tiles rack)"
    then show "\<exists>m res. best = Some m \<and> Validate \<lparr>Placements = ps\<rparr> b (Contains d) l = Ok res \<and>
         MR_Score res \<le> MR_Score (SM_Result m)" by (elim conjE) (rule 3)
  qed (rule 1)
qed

theorem best_move_optimal_witness:
  "\<exists>m. BestMove NewBoard cat_rack cat_dawg english_lang = Some (Some m) \<and> 10 \<le> MR_Score (SM_Result m)"
  using best_move_optimal [OF cat_ready]
proof (elim exE conjE)
  fix best
  assume 1: "BestMove NewBoard cat_rack cat_dawg english_lang = Some best"
    and 3: "\<forall>ps. legal_move ps NewBoard (Contains cat_dawg) \<and> (\<forall>p \<in> set ps. wf_tile english_lang (P_Tile p)) \<and>
        mset (map rack_want (map P_Tile ps)) \<subseteq># mset (Rack_tiles cat_rack) \<longrightarrow>
        (\<exists>m res. best = Some m \<and> Validate \<lparr>Placements = ps\<rparr> NewBoard (Contains cat_dawg) english_lang = Ok res \<and>
           MR_Score res \<le> MR_Score (SM_Result m))"
  have "\<exists>m res. best = Some m \<and> Validate \<lparr>Placements = cat_move\<rparr> NewBoard (Contains cat_dawg) english_lang = Ok res \<and>
      MR_Score res \<le> MR_Score (SM_Result m)"
    by (rule 3 [rule_format]) (intro conjI cat_legal cat_wf cat_tiles)
  then show ?thesis using 1 by (auto simp: cat_validate)
qed

section \<open>Validation\<close>

text \<open>
  C4: \<open>Validate\<close> never panics and accepts exactly the moves that are legal by the rules of the game:
  placements on free squares of one line without a gap, joined to the board (or through the centre on
  the first move), every word they form being in the dictionary.
\<close>

theorem validate_iff_legal:
  assumes "wf_lang l" "wf_board l b" "\<forall>p \<in> set (Placements m). wf_tile l (P_Tile p)"
  shows "Validate m b contains l \<noteq> Panic \<and>
     ((\<exists>res. Validate m b contains l = Ok res) \<longleftrightarrow> legal_move (Placements m) b contains)"
  using Validate_not_Panic [OF assms] Validate_legal [OF assms] by simp_all

theorem validate_iff_legal_witness:
  "Validate \<lparr>Placements = cat_move\<rparr> NewBoard (Contains cat_dawg) english_lang \<noteq> Panic \<and>
   legal_move cat_move NewBoard (Contains cat_dawg)"
  using validate_iff_legal [OF wf_english wf_NewBoard, of "\<lparr>Placements = cat_move\<rparr>" "Contains cat_dawg"]
    cat_wf cat_validate by simp



text \<open>
  The order in which a move lists its placements does not matter: a permuted move validates to the
  same words and the same score.
\<close>

theorem placement_order_irrelevant:
  assumes "wf_lang l" "wf_board l b" "\<forall>p \<in> set ps. wf_tile l (P_Tile p)" and "mset ps = mset qs"
    and "Validate \<lparr>Placements = ps\<rparr> b contains l = Ok res"
  shows "Validate \<lparr>Placements = qs\<rparr> b contains l = Ok res"
  by (rule Validate_mset [OF assms])

theorem placement_order_irrelevant_witness:
  "\<exists>res. Validate \<lparr>Placements = rev cat_move\<rparr> NewBoard (Contains cat_dawg) english_lang = Ok res \<and> MR_Score res = 10"
  using placement_order_irrelevant [OF wf_english wf_NewBoard cat_wf _ cat_validate, of "rev cat_move"] by simp



text \<open>
  A blank played as the first letter of the alphabet cannot be told from an unassigned one: every
  move that contains it is refused.
\<close>

theorem blank_as_first_letter_refused:
  assumes "p \<in> set (Placements m)" and "P_Tile p = \<lparr>Tile_Letter = 0, Tile_Blank = True\<rparr>"
  shows "Validate m b contains l \<noteq> Ok res"
proof -
  have "IsUnassignedBlank (P_Tile p)" using assms(2) by (simp add: IsUnassignedBlank_def)
  then have "checkPlacements m b \<noteq> None"
    using assms(1) unfolding checkPlacements_None placeable_def by blast
  then show ?thesis by (auto simp: Validate_def)
qed

theorem blank_as_first_letter_refused_witness:
  "Validate \<lparr>Placements = cat_move[1 := \<lparr>P_Row = 7, P_Col = 7, P_Tile = \<lparr>Tile_Letter = 0, Tile_Blank = True\<rparr>\<rparr>]\<rparr>
     NewBoard (Contains cat_dawg) english_lang \<noteq> Ok \<lparr>MR_Words = [], MR_Score = 0, MR_Bingo = False\<rparr>"
  by (rule blank_as_first_letter_refused [of "\<lparr>P_Row = 7, P_Col = 7, P_Tile = \<lparr>Tile_Letter = 0, Tile_Blank = True\<rparr>\<rparr>"])
     (simp_all add: cat_move_def)

section \<open>The dictionary\<close>

text \<open>
  C19: a DAWG built from a word list contains exactly the words of the list (trimmed, normalised, comments
  and unknown letters dropped, at least two letters), its size is their number, and lookups never
  find a word of fewer letters.
\<close>

theorem built_dictionary:
  assumes "BuildDAWG l (lines, err) = Ok d"
  shows "(\<forall>w. Contains d w \<longleftrightarrow> w \<in> wordlist l lines) \<and> Dawg_size d = card (wordlist l lines) \<and>
     (\<forall>w. Contains d w \<longrightarrow> MinWordLength \<le> length w)"
  using BuildDAWG_words [OF assms] dawg.contains_iff [of d] dawg.contains_long [of d]
  by (simp add: wf_dawg_def)

theorem built_dictionary_witness:
  "Contains cat_dawg [2, 0, 19] \<and> \<not> Contains cat_dawg [2, 0] \<and> Dawg_size cat_dawg = 1"
proof -
  have w: "wordlist english_lang [''CAT''] = {[2, 0, 19]}" by code_simp
  show ?thesis
    using built_dictionary [OF cat_dawg_built] unfolding w by simp
qed

text \<open>
  The cross-check set of an empty square is exact. A letter is allowed there if and only if the word
  it would complete between the tiles before and after it is in the dictionary, or there are no such
  tiles; the test is one bit of a 32-bit mask.
\<close>

theorem cross_checks_exact:
  fixes dir :: Direction
  assumes "AlphabetSize l \<le> maxAlphabetForBitset" and "InBounds row col" and "\<not> filled b row col"
    and "letter < AlphabetSize l"
  defines "before \<equiv> rev (walkExisting b (row - fst (step dir)) (col - snd (step dir)) dir True)"
    and "behind \<equiv> walkExisting b (row + fst (step dir)) (col + snd (step dir)) dir False"
  shows "allows (computeCrossChecks b d l dir) row col letter \<longleftrightarrow>
     before = [] \<and> behind = [] \<or> Contains d (before @ [letter] @ behind)"
proof (cases "before = [] \<and> behind = []")
  case True
  then have "computeCrossChecks b d l dir row col = allLettersMask l"
    using assms(2,3) by (simp add: computeCrossChecks_def filled_def before_def behind_def split_def Let_def)
  then show ?thesis using True allows_bit bit_allLettersMask [OF assms(4,1)] by simp
next
  case False
  then have "computeCrossChecks b d l dir row col = crossBits d l before behind"
    using assms(2,3) by (auto simp: computeCrossChecks_def filled_def before_def behind_def split_def Let_def)
  then show ?thesis using False assms(4) by (auto simp: allows_bit bit_crossBits [OF assms(1)])
qed

theorem cross_checks_exact_witness:
  "allows (computeCrossChecks (after cat_move NewBoard) cat_dawg english_lang Vertical) 0 0 4 \<and>
   \<not> allows (computeCrossChecks (after cat_move NewBoard) cat_dawg english_lang Vertical) 8 7 4"
proof -
  have free: "\<not> filled (after cat_move NewBoard) 0 0" "\<not> filled (after cat_move NewBoard) 8 7" by code_simp+
  have walks: "walkExisting (after cat_move NewBoard) (- 1) 0 Vertical True = []"
    "walkExisting (after cat_move NewBoard) 1 0 Vertical False = []"
    "walkExisting (after cat_move NewBoard) 7 7 Vertical True = [0]"
    "walkExisting (after cat_move NewBoard) 9 7 Vertical False = []" by code_simp+
  have no: "\<not> Contains cat_dawg [0, 4]" by code_simp
  show ?thesis
    using cross_checks_exact [where l = english_lang and row = 0 and col = 0 and b = "after cat_move NewBoard"
          and letter = 4 and dir = Vertical and d = cat_dawg]
      cross_checks_exact [where l = english_lang and row = 8 and col = 7 and b = "after cat_move NewBoard"
          and letter = 4 and dir = Vertical and d = cat_dawg] free walks no
    by (simp add: maxAlphabetForBitset_def InBounds_def BoardSize_def step_def)
qed

section \<open>Bag and racks\<close>

text \<open>
  A new bag is a permutation of the full set of the language, whatever the random source; drawing
  takes as many tiles as asked for or all that are left, and loses none. The English set has 100
  tiles.
\<close>

theorem new_bag_full:
  "mset (Bag_tiles (NewBag l g)) = mset (full_tiles l) \<and> Remaining (NewBag l g) = TotalTiles l \<and>
   length (fst (Draw n b)) = min n (Remaining b) \<and>
   mset (fst (Draw n b)) + mset (Bag_tiles (snd (Draw n b))) = mset (Bag_tiles b) \<and>
   TotalTiles english_lang = 100"
  using NewBag_Remaining [of l g] by (simp add: NewBag_mset Draw_length Draw_mset english_TotalTiles Remaining_def)

text \<open>
  \<open>Remove\<close> takes the wanted tiles (a blank for each assigned blank) from the rack if and only if
  it holds all of them, with multiplicity; it then leaves exactly the others, and otherwise reports
  a missing tile.
\<close>

theorem rack_remove_exact:
  assumes "wf_lang l" and "AlphabetSize l \<le> maxAlphabetForBitset" and "list_all (hand_tile l) (Rack_tiles r)"
    and "\<forall>w \<in> set needed. wf_tile l w"
  shows "if mset (map rack_want needed) \<subseteq># mset (Rack_tiles r)
     then \<exists>r'. Rack_Remove r needed = Ok (map rack_want needed, r') \<and>
       mset (Rack_tiles r) = mset (map rack_want needed) + mset (Rack_tiles r')
     else \<exists>w. Rack_Remove r needed = Err (RackMissing w)"
proof -
  have s: "sentinel \<notin> set (Rack_tiles r)" by (rule hand_no_sentinel [OF assms(1,3)])
  have "\<forall>w \<in> set needed. Tile_Letter w \<noteq> sentinelLetter"
    using assms(2,4) by (auto simp: wf_tile_def sentinelLetter_def maxAlphabetForBitset_def)
  then show ?thesis using Rack_Remove_Ok [OF s] Rack_Remove_Err [OF s] by simp
qed

theorem rack_remove_exact_witness:
  "\<exists>r'. Rack_Remove cat_rack [letter_tile 0] = Ok ([letter_tile 0], r') \<and>
     mset (Rack_tiles r') = {# letter_tile 2, letter_tile 19 #}"
proof -
  have h: "list_all (hand_tile english_lang) (Rack_tiles cat_rack)" "\<forall>w \<in> set [letter_tile 0]. wf_tile english_lang w"
    by (simp_all add: cat_rack_def letter_tile_def hand_tile_def wf_tile_def)
  have w: "map rack_want [letter_tile 0] = [letter_tile 0]" by (simp add: rack_want_def letter_tile_def)
  show ?thesis
    using rack_remove_exact [OF wf_english _ h] unfolding w
    by (auto simp: maxAlphabetForBitset_def cat_rack_def add_mset_commute)
qed

text \<open>
  An exchange is accepted only with at least a full rack left in the bag and distinct indices into
  the rack; it keeps the size of the rack and loses or duplicates no tile.
\<close>

theorem exchange_conserves:
  assumes "Exchange r indices b = Ok (r', b')" and "list_all (hand_tile l) (Rack_tiles r)"
    and "Rack_Size r \<le> RackSize"
  shows "mset (Rack_tiles r') + mset (Bag_tiles b') = mset (Rack_tiles r) + mset (Bag_tiles b) \<and>
     Rack_Size r' = Rack_Size r \<and> RackSize \<le> Remaining b \<and> distinct indices \<and>
     (\<forall>i \<in> set indices. 0 \<le> i \<and> i < int (Rack_Size r))"
  using Exchange_mset [OF assms(1,2)] Exchange_length [OF assms(1)] assms(3) Exchange_OkE [OF assms(1)]
  by (auto simp: Rack_Size_def)

theorem exchange_conserves_witness:
  "\<exists>r' b'. Exchange cat_rack [1] (NewBag english_lang id) = Ok (r', b') \<and> Rack_Size r' = 3"
proof -
  have rem: "\<not> Remaining (NewBag english_lang id) < RackSize"
    by (simp add: NewBag_Remaining english_TotalTiles RackSize_def)
  then obtain r' b' where e: "Exchange cat_rack [1] (NewBag english_lang id) = Ok (r', b')"
    by (auto simp: Exchange_def cat_rack_def split_def Let_def)
  have "list_all (hand_tile english_lang) (Rack_tiles cat_rack)" "Rack_Size cat_rack \<le> RackSize"
    by (simp_all add: cat_rack_def letter_tile_def hand_tile_def Rack_Size_def RackSize_def)
  from exchange_conserves [OF e this] have "Rack_Size r' = Rack_Size cat_rack" by blast
  then show ?thesis using e by (simp add: cat_rack_def Rack_Size_def)
qed

text \<open>
  Settling the scores never panics on dealt racks; the players lose together the value of the tiles
  left on the racks, or nothing when somebody has gone out.
\<close>

theorem final_scores_total:
  assumes "wf_lang l" and "list_all (\<lambda>r. list_all (wf_tile l) (Rack_tiles r)) rs"
    and "length scores = length rs"
  shows "\<exists>out. FinalScores scores (map Some rs) l = Some out \<and> length out = length scores \<and>
     sum_list out = sum_list scores -
       (if \<exists>r \<in> set rs. Rack_Size r = 0 then 0 else (\<Sum>r\<leftarrow>rs. tiles_value l (Rack_tiles r)))"
  by (rule FinalScores_total [OF assms])

theorem final_scores_total_witness:
  "\<exists>out. FinalScores [20, 10] (map Some [NewRack, cat_rack]) english_lang = Some out \<and> sum_list out = 30"
proof -
  have "list_all (\<lambda>r. list_all (wf_tile english_lang) (Rack_tiles r)) [NewRack, cat_rack]"
    by (simp add: NewRack_def cat_rack_def letter_tile_def wf_tile_def)
  from final_scores_total [OF wf_english this, of "[20, 10]"] show ?thesis
    by (auto simp: NewRack_def Rack_Size_def)
qed

section \<open>The wire\<close>

text \<open>
  What the room sends a bot is read back unchanged: every rack and every board that play can reach
  has a wire form, and the bot's decoder recovers it, assigned blanks included. Hence two different
  positions never look the same on the wire.
\<close>

theorem position_roundtrip:
  assumes "wire_lang l" and "wf_board l b" "tidy_board b" and "list_all (wf_tile l) (Rack_tiles k)"
  shows "\<exists>grid ss. boardToWire b l = Some grid \<and> wireToBoard grid l = Ok b \<and>
     rackToWire k l = Some ss \<and> wireToRack ss l = Ok k"
  using board_codec.decode_encode [of l b] rack_codec.decode_encode [of l k] assms by blast

theorem position_roundtrip_witness:
  "\<exists>grid ss. boardToWire NewBoard english_lang = Some grid \<and> wireToBoard grid english_lang = Ok NewBoard \<and>
     rackToWire cat_rack english_lang = Some ss \<and> wireToRack ss english_lang = Ok cat_rack"
  by (rule position_roundtrip [OF wire_english wf_NewBoard tidy_NewBoard])
     (simp add: cat_rack_def letter_tile_def wf_tile_def)

text \<open>
  The moves a bot answers with arrive at the room as the engine made them, and two moves with the
  same wire form are the same move.
\<close>

theorem move_roundtrip:
  assumes "wire_lang l" and "\<forall>p \<in> set ps. wf_tile l (P_Tile p)"
  shows "\<exists>ws. enginePlacementsToWire ps l = Some ws \<and> length ws = length ps \<and> toEnginePlacements ws l = Ok ps \<and>
     (\<forall>qs. (\<forall>p \<in> set qs. wf_tile l (P_Tile p)) \<and> enginePlacementsToWire qs l = Some ws \<longrightarrow> qs = ps)"
proof -
  obtain ws where ws: "enginePlacementsToWire ps l = Some ws" "length ws = length ps" "toEnginePlacements ws l = Ok ps"
    using toEnginePlacements_wire [OF assms] by blast
  have "qs = ps" if "\<forall>p \<in> set qs. wf_tile l (P_Tile p)" "enginePlacementsToWire qs l = Some ws" for qs
    using move_codec.encode_inj [of l qs ps] that assms ws(1) by simp
  then show ?thesis using ws by blast
qed

theorem move_roundtrip_witness:
  "\<exists>ws. enginePlacementsToWire cat_move english_lang = Some ws \<and> length ws = 3 \<and>
     toEnginePlacements ws english_lang = Ok cat_move"
proof -
  have "length cat_move = 3" by (simp add: cat_move_def)
  then show ?thesis using move_roundtrip [OF wire_english cat_wf] by auto
qed

end
