(* ===== verification/Scrabble_Game.thy ===== *)
theory Scrabble_Game
  imports Scrabble_Room_Turns Scrabble_Engine
begin

text \<open>
  The properties of a room with its players and bots: what holds in every state a room reaches, what
  a turn does, and which messages break a running game. The instances are on a room of two seats
  that plays with the dictionary of the example position.
\<close>

section \<open>The example room\<close>

definition cat_bundle :: LangBundle where
  "cat_bundle = \<lparr>Bundle_Lang = english_lang, Bundle_Dawg = cat_dawg\<rparr>"

definition cat_seat :: "string \<Rightarrow> bool \<Rightarrow> roomPlayer" where
  "cat_seat i is_bot = \<lparr>rp_id = i, rp_name = i, rp_sessionName = ''s.'' @ i, rp_sessionPID = None, rp_score = 0,
     rp_rack = Some cat_rack, rp_bot = is_bot,
     rp_botPID = (if is_bot then Some ''botpid'' else None)\<rparr>"

definition cat_room :: RoomActor where
  "cat_room = \<lparr>code = ''ABCD'', language = ''en'', room_bundle = cat_bundle, leaderboard = False,
     players = [cat_seat ''ann'' False, cat_seat ''bot'' True], ownerID = ''ann'',
     bag = Some (NewBag english_lang id), board = Some NewBoard, currentIdx = 0, scorelessTurns = 0,
     turnDeadline = Some 5000000000, pausedRemaining = 0, schedSuffix = ''.room.en.abcd'', activeRefs = {},
     topic = ''room.ABCD'', hadPlayer = True, behavior = playingBehavior, outbox = []\<rparr>"

definition cat_env :: Env where
  "cat_env = \<lparr>now = 0, sender = None, topicActor = True, schedule_ok = (\<lambda>_. True), roomRNG = id, newID = ''7'',
     spawned = None\<rparr>"

definition cat_input :: WSIn where
  "cat_input = \<lparr>In_Type = InTypePlace, In_Placements =
      (case enginePlacementsToWire cat_move english_lang of Some ws \<Rightarrow> ws | None \<Rightarrow> []),
     In_Indices = [], In_Text = [], In_Seat = 0\<rparr>"

lemma cat_room_sel [simp]:
  "behavior (cat_room\<lparr>currentIdx := i, scorelessTurns := n\<rparr>) = playingBehavior" "behavior cat_room = playingBehavior"
  "players cat_room = [cat_seat ''ann'' False, cat_seat ''bot'' True]" "room_bundle cat_room = cat_bundle"
  "board cat_room = Some NewBoard" "bag cat_room = Some (NewBag english_lang id)"
  "turnDeadline cat_room = Some 5000000000" "currentPlayer cat_room = Some (cat_seat ''ann'' False)"
  "currentPlayer (cat_room\<lparr>currentIdx := 1, scorelessTurns := n\<rparr>) = Some (cat_seat ''bot'' True)"
  by (simp_all add: cat_room_def currentPlayer_def)

lemma cat_seat_sel [simp]:
  "rp_id (cat_seat i h) = i" "rp_rack (cat_seat i h) = Some cat_rack" "rp_bot (cat_seat i h) = h"
  "rp_score (cat_seat i h) = 0" "rp_name (cat_seat i h) = i" "rp_sessionName (cat_seat i h) = ''s.'' @ i"
  "rp_botPID (cat_seat i h) = (if h then Some ''botpid'' else None)"
  by (simp_all add: cat_seat_def)

lemma cat_bundle_sel [simp]: "Bundle_Lang cat_bundle = english_lang" "Bundle_Dawg cat_bundle = cat_dawg"
  by (simp_all add: cat_bundle_def)

lemma cat_bundle_ok: "bundle_ok cat_bundle"
  using BuildDAWG_words [OF cat_dawg_built] BuildDAWG_letters [OF wf_english cat_dawg_built] wire_english
  by (simp add: bundle_ok_def cat_bundle_def maxAlphabetForBitset_def english_sel)

lemma cat_rack_ok: "rack_ok english_lang cat_rack"
  by (simp add: rack_ok_def cat_rack_def letter_tile_def hand_tile_def Rack_Size_def RackSize_def)

lemma cat_input_moves: "toEnginePlacements (In_Placements cat_input) english_lang = Ok cat_move"
  using toEnginePlacements_wire [OF wire_english, of cat_move] cat_wf by (auto simp: cat_input_def)

lemma cat_safe_at:
  assumes "i \<in> {0, 1}"
  shows "safe (cat_room\<lparr>currentIdx := i, scorelessTurns := n\<rparr>)"
proof -
  have "list_all (hand_tile english_lang) (full_tiles english_lang)"
    by (rule full_tiles_hand) (simp_all add: wf_english english_sel)
  then have "list_all (hand_tile english_lang) (Bag_tiles (NewBag english_lang id))"
    using list_all_mset [OF NewBag_mset] by blast
  then have "game_ok (cat_room\<lparr>currentIdx := i, scorelessTurns := n\<rparr>)"
    using cat_bundle_ok cat_rack_ok wf_NewBoard tidy_NewBoard
    by (simp add: game_ok_def cat_room_def cat_bundle_def cat_seat_def board_ok_def Let_def)
  moreover have "seated (cat_room\<lparr>currentIdx := i, scorelessTurns := n\<rparr>)"
    using assms by (auto simp: seated_def cat_room_def cat_seat_def)
  ultimately show ?thesis by (simp add: safe_def)
qed

lemma cat_safe: "safe cat_room"
proof -
  have "cat_room\<lparr>currentIdx := 0, scorelessTurns := 0\<rparr> = cat_room" by (simp add: cat_room_def)
  then show ?thesis using cat_safe_at [of 0 0] by simp
qed

section \<open>Every reachable state\<close>

text \<open>
  C1: a room never panics, and no tile is ever lost or made up. From its start on, whatever messages
  arrive (as long as nobody new is seated and nobody leaves while a game is on), the next message is
  handled, and while a game is on or paused the bag, the racks and the board together hold exactly
  the full set of the language and every seat has a rack.
\<close>

theorem room_never_panics:
  assumes start: "room_PostStart self (Some registry) lb = Some r0" and bnd: "bundle_ok (room_bundle r0)"
    and run: "reaches room_step room_accepts r0 r" and msg: "admissible r msg"
  shows "\<exists>r'. room_receive env msg r = Some r' \<and>
     (behavior r' \<in> {playingBehavior, pauseBehavior} \<longrightarrow>
        table_tiles r' = mset (full_tiles (Bundle_Lang (room_bundle r'))) \<and>
        (\<forall>p \<in> set (players r'). rp_rack p \<noteq> None))"
proof -
  have "room_inv r0" by (rule room_PostStart_inv [OF start bnd])
  from room.never_panics [OF run this, of "(env, msg)"] msg
  obtain r' where "room_receive env msg r = Some r'" "room_inv r'"
    by (auto simp: room_step_def room_accepts_def)
  then show ?thesis by (auto simp: room_inv_def safe_def seated_def)
qed

theorem room_never_panics_witness:
  "\<exists>r0 r'. room_PostStart ''room.en.abcd'' (Some (Registry_Add cat_bundle NewRegistry)) False = Some r0 \<and>
     room_receive cat_env (PlayerHello ''ann'' ''Ann'' ''s1'') r0 = Some r'"
proof -
  have "Lang_Code english_lang = ''en''" by (simp add: english_lang_def English_def newLanguage_def)
  then obtain r0 where r0: "room_PostStart ''room.en.abcd'' (Some (Registry_Add cat_bundle NewRegistry)) False = Some r0"
    "room_bundle r0 = cat_bundle" "behavior r0 = waitingBehavior"
    by (simp add: room_PostStart_def TrimPrefix_def HasPrefix_def RoomActorPrefix_def Registry_Get_def
        Registry_Add_def cat_bundle_def)
  have "admissible r0 (PlayerHello ''ann'' ''Ann'' ''s1'')" using r0(3) by (simp add: admissible_def)
  from room_never_panics [OF r0(1) _ reaches.start this, of cat_env] show ?thesis
    using r0 cat_bundle_ok by auto
qed

lemma deal_full:
  "RackSize * length ps \<le> length (Bag_tiles bg) \<Longrightarrow>
   (\<forall>p \<in> set (fst (deal ps bg)). \<exists>k. rp_rack p = Some k \<and> Rack_Size k = RackSize) \<and>
   length (Bag_tiles (snd (deal ps bg))) = length (Bag_tiles bg) - RackSize * length ps"
proof (induction ps arbitrary: bg)
  case (Cons p ps)
  let ?k = "fst (Refill NewRack bg)" and ?bg = "snd (Refill NewRack bg)"
  have len: "length (Rack_tiles ?k) = RackSize"
    using Refill_length [of NewRack bg] Cons.prems by (simp add: NewRack_def)
  have "size (mset (Rack_tiles ?k) + mset (Bag_tiles ?bg)) = size (mset (Bag_tiles bg))"
    using Refill_mset [of NewRack bg] by (simp add: NewRack_def)
  then have bg: "length (Bag_tiles ?bg) = length (Bag_tiles bg) - RackSize" using len by simp
  have "deal (p # ps) bg = (p\<lparr>rp_rack := Some ?k, rp_score := 0\<rparr> # fst (deal ps ?bg), snd (deal ps ?bg))"
    by (simp add: Let_def split_def)
  then show ?case using Cons.IH [of ?bg] Cons.prems bg len by (auto simp: Rack_Size_def)
qed simp

text \<open>
  Starting a game deals. With enough tiles in the set every seat gets a full rack and score 0, the
  rest stays in the bag, the board is empty and the first seat is to move; together the table holds
  the full set.
\<close>

theorem start_deals:
  assumes b: "bundle_ok (room_bundle r)" and ne: "players r \<noteq> []"
    and enough: "RackSize * length (players r) \<le> TotalTiles (Bundle_Lang (room_bundle r))"
  shows "\<exists>r' bg. startGame env r = Some r' \<and> behavior r' = playingBehavior \<and> currentIdx r' = 0 \<and>
     scorelessTurns r' = 0 \<and> board r' = Some NewBoard \<and> bag r' = Some bg \<and>
     Remaining bg = TotalTiles (Bundle_Lang (room_bundle r)) - RackSize * length (players r) \<and>
     map rp_id (players r') = map rp_id (players r) \<and>
     (\<forall>p \<in> set (players r'). rp_score p = 0 \<and> (\<exists>k. rp_rack p = Some k \<and> Rack_Size k = RackSize)) \<and>
     table_tiles r' = mset (full_tiles (Bundle_Lang (room_bundle r)))"
proof -
  let ?l = "Bundle_Lang (room_bundle r)"
  let ?bg = "NewBag ?l (roomRNG env)"
  obtain r' where r': "startGame env r = Some r'" "behavior r' = playingBehavior"
    "table_tiles r' = mset (full_tiles ?l)" "map rp_id (players r') = map rp_id (players r)"
    "\<forall>p \<in> set (players r'). rp_score p = 0" "currentIdx r' = 0" "scorelessTurns r' = 0" "board r' = Some NewBoard"
    "(players r', bag r') = map_prod id Some (deal (players r) ?bg)"
    using startGame_ok [OF b ne, of env] by blast
  have "length (Bag_tiles ?bg) = TotalTiles ?l" using NewBag_Remaining by (simp add: Remaining_def)
  then have d: "\<forall>p \<in> set (fst (deal (players r) ?bg)). \<exists>k. rp_rack p = Some k \<and> Rack_Size k = RackSize"
    "length (Bag_tiles (snd (deal (players r) ?bg))) = TotalTiles ?l - RackSize * length (players r)"
    using deal_full [of "players r" ?bg] enough by simp_all
  have t: "players r' = fst (deal (players r) ?bg)" "bag r' = Some (snd (deal (players r) ?bg))"
    using r'(9) by (simp_all add: map_prod_def split_def)
  show ?thesis
    by (intro exI [of _ r'] exI [of _ "snd (deal (players r) ?bg)"]) (use r' d t in \<open>auto simp: Remaining_def\<close>)
qed

theorem start_deals_witness:
  "\<exists>r' bg. startGame cat_env cat_room = Some r' \<and> bag r' = Some bg \<and> Remaining bg = 86"
proof -
  have "bundle_ok (room_bundle cat_room)" "players cat_room \<noteq> []"
    "RackSize * length (players cat_room) \<le> TotalTiles (Bundle_Lang (room_bundle cat_room))"
    using cat_bundle_ok by (simp_all add: english_TotalTiles RackSize_def)
  from start_deals [OF this, of cat_env] show ?thesis
    by (elim exE conjE) (simp add: english_TotalTiles RackSize_def)
qed

section \<open>A turn\<close>

text \<open>
  C2: a bot plays a best move. The turn the room schedules for its bot describes the position exactly:
  the bot answers with a legal move of its rack of the highest score there is, which the room commits
  (the score is added, the rack refilled from the bag, the turn ended), and it passes only when its
  rack has no legal move.
\<close>

theorem bot_turn_best:
  assumes r: "safe r" and p: "currentPlayer r = Some p" "rp_bot p" "rp_botPID p = Some apid"
    and ok: "schedule_ok env (schedRefBotMove @ schedSuffix r @ ''.'' @ rp_id p)"
  shows "\<exists>turn r' play b k. kickBot env r = Some r' \<and>
     outbox r' = outbox r @ [Schedule (schedRefBotMove @ schedSuffix r @ ''.'' @ rp_id p)
       (SchedYourTurn turn) (Some apid) (BotMoveDelayMs * millisecond)] \<and>
     handleTurn (room_bundle r) turn = Some play \<and> board r = Some b \<and> rp_rack p = Some k \<and>
     (let d = Contains (Bundle_Dawg (room_bundle r)); l = Bundle_Lang (room_bundle r);
          payable = (\<lambda>qs. legal_move qs b d \<and> (\<forall>q \<in> set qs. wf_tile l (P_Tile q)) \<and>
             mset (tilesUsed qs) \<subseteq># mset (Rack_tiles k)) in
      (\<exists>ps res left bg e. bag r = Some bg \<and> Validate \<lparr>Placements = ps\<rparr> b d l = Ok res \<and>
         mset (Rack_tiles k) = mset (tilesUsed ps) + mset (Rack_tiles left) \<and>
         (\<forall>qs. payable qs \<longrightarrow>
            (\<exists>res'. Validate \<lparr>Placements = qs\<rparr> b d l = Ok res' \<and> MR_Score res' \<le> MR_Score res)) \<and>
         handleBotPlay env' play r' = endTurn env' (publish env' e
           (commit (fst (Refill left bg)) (rp_score p + MR_Score res) (snd (Refill left bg)) (after ps b) 0 r'))) \<or>
      (\<forall>qs. \<not> payable qs) \<and> handleBotPlay env' play r' = applyPass env' (rp_id p) False r')"
proof -
  obtain turn r' where t: "turn_of r = Some turn" "kickBot env r = Some r'" "same_table r r'"
    "outbox r' = outbox r @ [Schedule (schedRefBotMove @ schedSuffix r @ ''.'' @ rp_id p)
       (SchedYourTurn turn) (Some apid) (BotMoveDelayMs * millisecond)]"
    using kickBot_turn [OF r p ok] by blast
  have same: "players r' = players r" "currentIdx r' = currentIdx r" "room_bundle r' = room_bundle r"
    "board r' = board r" "bag r' = bag r" using t(3) by (simp_all add: same_table_def)
  have r': "safe r'" "turn_of r' = Some turn" using safe_same [OF t(3)] r turn_of_same [OF t(3)] t(1) by simp_all
  have cur: "players r ! nat (currentIdx r) = p"
    using seated_current(1) [of r] r p(1) by (simp add: safe_def)
  show ?thesis
  proof (rule bot_turn [OF r', of env', unfolded same cur], erule disjE)
    fix b k
    assume bk: "board r = Some b" "rp_rack p = Some k"
    {
      assume "\<exists>ps res left bg play e. handleTurn (room_bundle r) turn = Some play \<and> bag r = Some bg \<and>
        Validate \<lparr>Placements = ps\<rparr> b (Contains (Bundle_Dawg (room_bundle r))) (Bundle_Lang (room_bundle r)) = Ok res \<and>
        mset (Rack_tiles k) = mset (tilesUsed ps) + mset (Rack_tiles left) \<and>
        (\<forall>qs. legal_move qs b (Contains (Bundle_Dawg (room_bundle r))) \<and>
           (\<forall>q \<in> set qs. wf_tile (Bundle_Lang (room_bundle r)) (P_Tile q)) \<and>
           mset (tilesUsed qs) \<subseteq># mset (Rack_tiles k) \<longrightarrow>
           (\<exists>res'. Validate \<lparr>Placements = qs\<rparr> b (Contains (Bundle_Dawg (room_bundle r))) (Bundle_Lang (room_bundle r)) = Ok res' \<and>
              MR_Score res' \<le> MR_Score res)) \<and>
        handleBotPlay env' play r' = endTurn env' (publish env' e
          (commit (fst (Refill left bg)) (rp_score p + MR_Score res) (snd (Refill left bg)) (after ps b) 0 r'))"
      with t(2,4) bk show ?thesis unfolding Let_def by (elim exE conjE) (intro exI conjI disjI1)
    next
      assume "\<exists>play. handleTurn (room_bundle r) turn = Some play \<and>
        handleBotPlay env' play r' = applyPass env' (rp_id p) False r' \<and>
        (\<forall>qs. legal_move qs b (Contains (Bundle_Dawg (room_bundle r))) \<and>
           (\<forall>q \<in> set qs. wf_tile (Bundle_Lang (room_bundle r)) (P_Tile q)) \<longrightarrow>
           \<not> mset (tilesUsed qs) \<subseteq># mset (Rack_tiles k))"
      with t(2,4) bk show ?thesis unfolding Let_def by (elim exE conjE) (intro exI conjI disjI2, blast+)
    }
  qed
qed

theorem bot_turn_best_witness:
  "\<exists>turn r' play. kickBot cat_env (cat_room\<lparr>currentIdx := 1, scorelessTurns := 0\<rparr>) = Some r' \<and>
     handleTurn cat_bundle turn = Some play"
proof -
  let ?r = "cat_room\<lparr>currentIdx := 1, scorelessTurns := 0\<rparr>"
  have "safe ?r" "currentPlayer ?r = Some (cat_seat ''bot'' True)" "rp_bot (cat_seat ''bot'' True)"
    "rp_botPID (cat_seat ''bot'' True) = Some ''botpid''"
    "schedule_ok cat_env (schedRefBotMove @ schedSuffix ?r @ ''.'' @ rp_id (cat_seat ''bot'' True))"
    using cat_safe_at [of 1 0] by (simp_all add: cat_env_def)
  from bot_turn_best [OF this, of cat_env] show ?thesis
    by (elim exE conjE) (auto simp del: Let_def)
qed

text \<open>
  A legal placement of the player to move is committed. The tiles leave the rack, which is
  refilled from the bag, the board gets the placements, the score is added, the count of scoreless
  turns starts again, and the game ends or the turn goes to the next seat with a fresh clock.
\<close>

theorem room_place_commits:
  assumes r: "safe r" "behavior r = playingBehavior" and p: "currentPlayer r = Some p" "rp_rack p = Some k"
    and b: "board r = Some b" "bag r = Some bg"
    and inp: "In_Type inp = InTypePlace" "toEnginePlacements (In_Placements inp) (Bundle_Lang (room_bundle r)) = Ok ps"
    and v: "Validate \<lparr>Placements = ps\<rparr> b (Contains (Bundle_Dawg (room_bundle r))) (Bundle_Lang (room_bundle r)) = Ok res"
    and has: "mset (tilesUsed ps) \<subseteq># mset (Rack_tiles k)"
  shows "\<exists>left r' s. mset (Rack_tiles k) = mset (tilesUsed ps) + mset (Rack_tiles left) \<and>
     s = commit (fst (Refill left bg)) (rp_score p + MR_Score res) (snd (Refill left bg)) (after ps b) 0 r \<and>
     room_receive env (PlayerInput (rp_id p) inp) r = Some r' \<and>
     (if game_ends s
      then behavior r' = gameOverBehavior \<and>
        FinalScores (map rp_score (players s)) (map rp_rack (players s)) (Bundle_Lang (room_bundle r)) =
          Some (map rp_score (players r'))
      else same_table (next_seat s) r' \<and> behavior r' = playingBehavior \<and>
        turnDeadline r' = Some (now env + turnDuration))"
proof -
  let ?l = "Bundle_Lang (room_bundle r)"
  have cur: "players r ! nat (currentIdx r) = p"
    using seated_current(1) [of r] r(1) p(1) by (simp add: safe_def)
  obtain left where left: "Rack_Remove k (tilesUsed ps) = Ok (tilesUsed ps, left)"
    "mset (Rack_tiles k) = mset (tilesUsed ps) + mset (Rack_tiles left)"
    using tiles_removable [OF r(1) p inp(2) has] .
  let ?s = "commit (fst (Refill left bg)) (rp_score p + MR_Score res) (snd (Refill left bg)) (after ps b) 0 r"
  have safe: "safe ?s" using placed_safe [OF r(1) b _ inp(2) left(2) v] cur p(2) by simp
  obtain e where e: "applyPlace env (rp_id p) (In_Placements inp) r = endTurn env (publish env e ?s)"
    using applyPlace_commit [OF r(1) _ inp(2) b _ left(1) v, of "rp_id p" env] cur p(2) by simp
  let ?t = "publish env e ?s"
  have st: "same_table ?s ?t" by (simp add: same_table_def)
  obtain r' where r': "endTurn env ?t = Some r'"
    "if game_ends ?t
      then behavior r' = gameOverBehavior \<and>
        FinalScores (map rp_score (players ?t)) (map rp_rack (players ?t)) (Bundle_Lang (room_bundle ?t)) =
          Some (map rp_score (players r'))
      else same_table (next_seat ?t) r' \<and> behavior r' = behavior ?t \<and> turnDeadline r' = Some (now env + turnDuration)"
    using endTurn_exact [of ?t env] safe safe_same [OF st] by blast
  have frame: "game_ends ?t = game_ends ?s" "behavior ?t = playingBehavior" "players ?t = players ?s"
    "room_bundle ?t = room_bundle r" "same_table (next_seat ?t) r' = same_table (next_seat ?s) r'"
    using r(2) by (simp_all add: game_ends_def next_seat_def same_table_def)
  have "room_receive env (PlayerInput (rp_id p) inp) r = Some r'"
    using r(2) inp(1) e r'(1) by (simp add: room_receive_def on_playing_def handlePlayingInput_def)
  then show ?thesis using left(2) r'(2) unfolding frame by blast
qed

theorem room_place_commits_witness:
  "\<exists>(left :: Rack) r'. mset (Rack_tiles cat_rack) = mset (tilesUsed cat_move) + mset (Rack_tiles left) \<and>
     room_receive cat_env (PlayerInput ''ann'' cat_input) cat_room = Some r'"
proof -
  let ?p = "cat_seat ''ann'' False"
  have 1: "currentPlayer cat_room = Some ?p" "rp_rack ?p = Some cat_rack"
    "board cat_room = Some NewBoard" "bag cat_room = Some (NewBag english_lang id)" by simp_all
  have 2: "In_Type cat_input = InTypePlace" by (simp add: cat_input_def)
  have 3: "toEnginePlacements (In_Placements cat_input) (Bundle_Lang (room_bundle cat_room)) = Ok cat_move"
    using cat_input_moves by simp
  obtain res where 4: "Validate \<lparr>Placements = cat_move\<rparr> NewBoard (Contains (Bundle_Dawg (room_bundle cat_room)))
      (Bundle_Lang (room_bundle cat_room)) = Ok res"
    using cat_validate by simp
  have "mset (tilesUsed cat_move) \<subseteq># mset (Rack_tiles cat_rack)"
    using cat_tiles by (simp add: tilesUsed_rack_want)
  from room_place_commits [OF cat_safe cat_room_sel(2) 1 2 3 4 this, of cat_env] show ?thesis
    unfolding cat_seat_sel(1) by blast
qed

text \<open>
  A pass and an expired clock end the turn alike: one more scoreless turn, and then the game ends
  with the final scores, or the next seat is to move with a fresh clock and nothing else changed on
  the table.
\<close>

theorem room_turn_ends:
  assumes r: "safe r" "behavior r = playingBehavior" and p: "currentPlayer r = Some p"
    and msg: "msg = TurnTimeout \<or> (\<exists>inp. msg = PlayerInput (rp_id p) inp \<and> In_Type inp = InTypePass)"
  shows "\<exists>r' s. s = r\<lparr>scorelessTurns := scorelessTurns r + 1\<rparr> \<and> room_receive env msg r = Some r' \<and>
     (if game_ends s
      then behavior r' = gameOverBehavior \<and>
        FinalScores (map rp_score (players r)) (map rp_rack (players r)) (Bundle_Lang (room_bundle r)) =
          Some (map rp_score (players r'))
      else same_table (next_seat s) r' \<and> behavior r' = playingBehavior \<and>
        turnDeadline r' = Some (now env + turnDuration))"
proof -
  define s where "s = r\<lparr>scorelessTurns := scorelessTurns r + 1\<rparr>"
  have s: "safe s" "players s = players r" "room_bundle s = room_bundle r" "behavior s = playingBehavior"
    using r by (simp_all add: s_def safe_def game_ok_def seated_def)
  have "room_receive env msg r = endTurn env s"
    using msg r(2) p by (auto simp: s_def room_receive_def on_playing_def handlePlayingInput_def applyPass_def)
  then show ?thesis using endTurn_exact [OF s(1), of env] s(2-4) s_def by auto
qed

theorem room_turn_ends_witness: "\<exists>r'. room_receive cat_env TurnTimeout cat_room = Some r'"
  using room_turn_ends [OF cat_safe, of "cat_seat ''ann'' False" TurnTimeout cat_env]
  by (auto simp: currentPlayer_def cat_room_def)

text \<open>
  Only the player to move can place, exchange or pass. Anybody else is told so, and neither the
  table nor the clock changes.
\<close>

theorem not_your_turn:
  assumes r: "behavior r = playingBehavior" and other: "\<forall>p. currentPlayer r = Some p \<longrightarrow> rp_id p \<noteq> pid"
    and inp: "In_Type inp \<in> {InTypePlace, InTypeExchange, InTypePass}"
  shows "\<exists>r'. room_receive env (PlayerInput pid inp) r = Some r' \<and> r' = tellError pid NotYourTurn r \<and>
     same_table r r' \<and> behavior r' = playingBehavior \<and> turnDeadline r' = turnDeadline r"
proof -
  have "handlePlayingInput env pid inp r = Some (tellError pid NotYourTurn r)"
    using other inp by (auto simp: handlePlayingInput_def applyPlace_def applyExchange_def applyPass_def
      split: option.splits)
  then show ?thesis using r by (simp add: room_receive_def on_playing_def same_table_def)
qed

theorem not_your_turn_witness:
  "room_receive cat_env (PlayerInput ''bot'' cat_input) cat_room = Some (tellError ''bot'' NotYourTurn cat_room)"
  using not_your_turn [of cat_room "''bot''" cat_input cat_env]
  by (auto simp: cat_room_def cat_seat_def currentPlayer_def cat_input_def)

text \<open>
  A pause stops the clock. Resuming gives the player to move the time that was left when the game
  was paused (one second at least), with nothing changed on the table; in between no deadline runs.
\<close>

theorem pause_clock:
  assumes r: "safe r" "behavior r = playingBehavior" "turnDeadline r = Some d"
    and inp: "In_Type inp1 = InTypePause" "In_Type inp2 = InTypeResume"
  shows "\<exists>r1 r2. room_receive env1 (PlayerInput pid1 inp1) r = Some r1 \<and> behavior r1 = pauseBehavior \<and>
     turnDeadline r1 = None \<and> room_receive env2 (PlayerInput pid2 inp2) r1 = Some r2 \<and>
     behavior r2 = playingBehavior \<and> same_table r r2 \<and>
     turnDeadline r2 = Some (now env2 + max (d - now env1) second)"
proof -
  obtain r1 where r1: "pauseGame env1 pid1 r = Some r1" "same_table r r1" "behavior r1 = pauseBehavior"
    "turnDeadline r1 = None" "pausedRemaining r1 = max (d - now env1) second"
    using pauseGame_exact [OF r(1,3), of env1 pid1] by blast
  have "safe r1" using safe_same [OF r1(2)] r(1) by simp
  moreover have "pausedRemaining r1 > 0" using r1(5) by (simp add: second_def millisecond_def less_max_iff_disj)
  ultimately obtain r2 where "resumeGame env2 pid2 r1 = Some r2" "same_table r1 r2" "behavior r2 = playingBehavior"
    "turnDeadline r2 = Some (now env2 + pausedRemaining r1)"
    using resumeGame_exact by blast
  then show ?thesis
    using r1 r(2) inp same_table_trans [OF r1(2)]
    by (auto simp: room_receive_def on_playing_def on_pause_def handlePlayingInput_def)
qed

theorem pause_clock_witness:
  "\<exists>r1. room_receive cat_env (PlayerInput ''ann'' (cat_input\<lparr>In_Type := InTypePause\<rparr>)) cat_room = Some r1 \<and>
     turnDeadline r1 = None"
  using pause_clock [OF cat_safe, of 5000000000 "cat_input\<lparr>In_Type := InTypePause\<rparr>"
      "cat_input\<lparr>In_Type := InTypeResume\<rparr>" cat_env "''ann''" cat_env "''ann''"]
  by auto

text \<open>
  The winner has the highest score, the first seat of those who share it; nobody wins when every
  score is negative.
\<close>

theorem winner_highest:
  "if list_all (\<lambda>p. rp_score p < 0) (players r) then computeWinner r = ([], [])
   else \<exists>i < length (players r). computeWinner r = (rp_id (players r ! i), rp_name (players r ! i)) \<and>
     0 \<le> rp_score (players r ! i) \<and>
     (\<forall>j < length (players r). rp_score (players r ! j) \<le> rp_score (players r ! i)) \<and>
     (\<forall>j < i. rp_score (players r ! j) < rp_score (players r ! i))"
proof -
  have below: "n \<le> -1 \<longleftrightarrow> n < 0" "-1 < n \<longleftrightarrow> 0 \<le> n" for n :: int by auto
  show ?thesis using computeWinner_loop_spec [of "-1" "players r" "([], [])"]
    unfolding computeWinner_def below .
qed

theorem winner_highest_witness: "computeWinner cat_room = (''ann'', ''ann'')"
  using winner_highest [of cat_room]
  by (auto simp: cat_room_def cat_seat_def less_Suc_eq)

section \<open>What breaks a running game\<close>

text \<open>
  C36: a newcomer to a running game is seated without a rack. When the next timeout ends the game,
  settling the scores dereferences the missing rack and the room panics.
\<close>

theorem late_joiner_crash:
  assumes r: "safe r" "behavior r = playingBehavior" and room: "length (players r) < MaxPlayers"
    and new: "pid \<notin> rp_id ` set (players r)" and turns: "scorelessTurns r + 1 \<ge> ScorelessTurnsToEnd"
  shows "\<exists>r'. room_receive env (PlayerHello pid nm sn) r = Some r' \<and> room_receive env' TurnTimeout r' = None"
proof -
  obtain r' where r': "room_receive env (PlayerHello pid nm sn) r = Some r'" "behavior r' = playingBehavior"
    "map rp_rack (players r') = map rp_rack (players r) @ [None]" "bag r' = bag r"
    "currentIdx r' = currentIdx r" "scorelessTurns r' = scorelessTurns r"
    using late_joiner_unracked [OF r room new] by blast
  have len: "length (players r') = length (players r) + 1" using arg_cong [OF r'(3), of length] by simp
  then have cur: "currentPlayer r' = Some (players r' ! nat (currentIdx r))"
    using r(1) r'(5) by (auto simp: currentPlayer_def safe_def seated_def)
  obtain bg where bg: "bag r' = Some bg" using r(1) r'(4) by (auto elim: safeE)
  let ?s = "r'\<lparr>scorelessTurns := scorelessTurns r' + 1\<rparr>"
  have "None \<in> set (map rp_rack (players r'))" unfolding r'(3) by simp
  then have "enterGameOver env' ?s = None"
    by (simp add: enterGameOver_def FinalScores_nil_rack Let_def)
  then have "endTurn env' ?s = None"
    using bg turns r'(6) by (simp add: endTurn_def checkGameOver_def IsGameOver_def)
  then have "room_receive env' TurnTimeout r' = None"
    using r'(2) cur by (simp add: room_receive_def on_playing_def applyPass_def)
  then show ?thesis using r'(1) by blast
qed

theorem late_joiner_crash_witness:
  "\<exists>r'. room_receive cat_env (PlayerHello ''eve'' ''Eve'' ''s3'') (cat_room\<lparr>currentIdx := 0, scorelessTurns := 5\<rparr>) = Some r' \<and>
     room_receive cat_env TurnTimeout r' = None"
  using late_joiner_crash [OF cat_safe_at [of 0 5], of "''eve''" cat_env "''Eve''" "''s3''" cat_env]
  by (auto simp: cat_room_def cat_seat_def MaxPlayers_def ScorelessTurnsToEnd_def)

text \<open>
  A departure does not move the turn. When a player leaves while the last seat is to move, the
  turn points past the seats, and the next timeout dereferences the missing player: the room panics.
\<close>

theorem departure_crash:
  assumes r: "safe r" "behavior r = playingBehavior" and last: "currentIdx r = int (length (players r)) - 1"
    and leaves: "p \<in> set (players r)" "rp_sessionName p = n"
  shows "\<exists>r'. room_receive env (GoodbyePlayer n) r = Some r' \<and> room_receive env' TurnTimeout r' = None"
proof -
  obtain i where i: "find_index (\<lambda>p. rp_sessionName p = n) (players r) = Some i"
    using leaves find_index_None_iff [of "\<lambda>p. rp_sessionName p = n" "players r"] by auto
  then have len: "i < length (players r)" using find_index_SomeD by blast
  let ?r = "maybeShutdown (r\<lparr>players := remove_at i (players r)\<rparr>)"
  have "room_receive env (GoodbyePlayer n) r = Some ?r"
    using r(2) i by (simp add: room_receive_def on_playing_def removePlayerByName_def)
  moreover have "currentPlayer ?r = None" using last len by (simp add: currentPlayer_def)
  then have "room_receive env' TurnTimeout ?r = None"
    using r(2) by (simp add: room_receive_def on_playing_def)
  ultimately show ?thesis by blast
qed

theorem departure_crash_witness:
  "\<exists>r'. room_receive cat_env (GoodbyePlayer ''s.ann'') (cat_room\<lparr>currentIdx := 1, scorelessTurns := 0\<rparr>) = Some r' \<and>
     room_receive cat_env TurnTimeout r' = None"
  using departure_crash [OF cat_safe_at [of 1 0], of "cat_seat ''ann'' False" "''s.ann''" cat_env cat_env]
  by (auto simp: cat_room_def cat_seat_def)

end
