(* ===== verification/Room_Codes.thy ===== *)
theory Room_Codes
  imports Go_Std
begin

text \<open>
  The codes of game rooms, which the lobbies of the Scrabble and the Pictograph example generate and
  read in the same way (\<^verbatim>\<open>generateCode\<close> of the two \<^verbatim>\<open>lobby.go\<close>), with what trimming and changing case do to them.
\<close>

section \<open>Generating a code\<close>

definition code_alphabet :: string where
  "code_alphabet = ''ABCDEFGHJKLMNPQRSTUVWXYZ23456789''"

fun random_code :: "nat \<Rightarrow> rng \<Rightarrow> string \<times> rng" where
  "random_code 0 g = ([], g)"
| "random_code (Suc n) g =
     (let (k, g) = uint64n (length code_alphabet) g; (s, g) = random_code n g
      in (code_alphabet ! k # s, g))"

fun generateCode_loop :: "nat \<Rightarrow> (string \<rightharpoonup> string) \<Rightarrow> rng \<Rightarrow> string" where
  "generateCode_loop 0 rooms g = fst (random_code 6 g)"
| "generateCode_loop (Suc n) rooms g =
     (let (s, g) = random_code 4 g in if rooms s = None then s else generateCode_loop n rooms g)"

definition generateCode :: "(string \<rightharpoonup> string) \<Rightarrow> rng \<Rightarrow> string" where
  "generateCode rooms g = generateCode_loop 16 rooms g"

section \<open>Codes\<close>

lemma random_code_spec:
  "length (fst (random_code n g)) = n \<and> set (fst (random_code n g)) \<subseteq> set code_alphabet"
proof (induction n arbitrary: g)
  case (Suc n)
  have "code_alphabet ! (g 0 mod length code_alphabet) \<in> set code_alphabet"
    by (intro nth_mem mod_less_divisor) (simp add: code_alphabet_def)
  then show ?case using Suc [of "rng_tail g"] by (simp add: uint64n_def split_def Let_def)
qed simp

lemma generateCode_loop_spec:
  "let s = generateCode_loop n rooms g in
   set s \<subseteq> set code_alphabet \<and> (length s = 4 \<and> rooms s = None \<or> length s = 6)"
proof (induction n arbitrary: g)
  case 0
  then show ?case using random_code_spec [of 6 g] by (simp add: Let_def)
next
  case (Suc n)
  then show ?case using random_code_spec [of 4 g] by (simp add: Let_def split_def)
qed

lemma code_alphabet_upper: "c \<in> set code_alphabet \<Longrightarrow> ToUpper_char c = c \<and> \<not> is_space c"
proof -
  have "list_all (\<lambda>c. ToUpper_char c = c \<and> \<not> is_space c) code_alphabet" by code_simp
  then show "c \<in> set code_alphabet \<Longrightarrow> ToUpper_char c = c \<and> \<not> is_space c" by (auto simp: list_all_iff)
qed

lemma ToUpper_ToLower_char: "ToUpper_char (ToLower_char c) = ToUpper_char c"
  using of_char_lt_256 [of c] by (auto simp: ToUpper_char_def ToLower_char_def Let_def)

lemma ToUpper_ToLower: "ToUpper (ToLower s) = ToUpper s"
  by (simp add: ToUpper_def ToLower_def ToUpper_ToLower_char)

lemma TrimSpace_id: "\<forall>c \<in> set s. \<not> is_space c \<Longrightarrow> TrimSpace s = s"
proof -
  assume a: "\<forall>c \<in> set s. \<not> is_space c"
  have d: "dropWhile is_space xs = xs" if "\<forall>c \<in> set xs. \<not> is_space c" for xs
    using that by (cases xs) auto
  show ?thesis using a by (simp add: TrimSpace_def d)
qed

lemma ToUpper_space: "is_space (ToUpper_char c) = is_space c"
  using of_char_lt_256 [of c] by (auto simp: is_space_def ToUpper_char_def Let_def)

lemma TrimSpace_ToUpper: "TrimSpace (ToUpper s) = ToUpper (TrimSpace s)"
proof -
  have d: "dropWhile is_space (map ToUpper_char xs) = map ToUpper_char (dropWhile is_space xs)" for xs
    by (induction xs) (auto simp: ToUpper_space)
  show ?thesis by (simp only: TrimSpace_def ToUpper_def d rev_map)
qed

lemma dropWhile_rev_hd:
  assumes "dropWhile P (rev xs) \<noteq> []"
  shows "hd (rev (dropWhile P (rev xs))) = hd xs"
proof -
  obtain zs where "rev xs = takeWhile P (rev xs) @ dropWhile P (rev xs)" by simp
  then have "xs = rev (dropWhile P (rev xs)) @ rev (takeWhile P (rev xs))"
    by (metis rev_append rev_rev_ident)
  then show ?thesis using assms by (metis hd_append rev_is_Nil_conv)
qed

lemma TrimSpace_idem: "TrimSpace (TrimSpace s) = TrimSpace s"
proof (cases "TrimSpace s = []")
  case True
  then show ?thesis by (simp only: True) (simp add: TrimSpace_def)
next
  case False
  let ?d = "dropWhile is_space s" and ?y = "TrimSpace s"
  have y: "?y = rev (dropWhile is_space (rev ?d))" by (simp add: TrimSpace_def)
  then have ne: "dropWhile is_space (rev ?d) \<noteq> []" using False by simp
  then have "?d \<noteq> []" by (metis dropWhile.simps(1) rev.simps(1))
  then have "\<not> is_space (hd ?d)" by (rule hd_dropWhile)
  then have "\<not> is_space (hd ?y)" using dropWhile_rev_hd [OF ne] y by simp
  then have 1: "dropWhile is_space ?y = ?y" using False by (cases ?y) auto
  have "\<not> is_space (hd (rev ?y))" using hd_dropWhile [OF ne] y by simp
  then have "dropWhile is_space (rev ?y) = rev ?y" using False by (cases "rev ?y") auto
  then have "rev (dropWhile is_space (rev (dropWhile is_space ?y))) = ?y" by (simp only: 1 rev_rev_ident)
  then show ?thesis by (simp only: TrimSpace_def [of ?y])
qed

text \<open>A code as the lobby stores it: trimmed, upper case and not empty.\<close>

definition room_code :: "string \<Rightarrow> bool" where
  "room_code c \<longleftrightarrow> c \<noteq> [] \<and> ToUpper (TrimSpace c) = c"

lemma room_code_generated: "room_code (generateCode rooms g)"
proof -
  let ?s = "generateCode rooms g"
  have s: "set ?s \<subseteq> set code_alphabet" "?s \<noteq> []"
    using generateCode_loop_spec [of 16 rooms g] by (auto simp: Let_def generateCode_def)
  then have "ToUpper ?s = ?s" "\<forall>c \<in> set ?s. \<not> is_space c"
    using code_alphabet_upper by (auto simp: ToUpper_def intro!: map_idI)
  then show ?thesis using s(2) by (simp add: room_code_def TrimSpace_id)
qed

lemma room_code_given: "ToUpper (TrimSpace s) \<noteq> [] \<Longrightarrow> room_code (ToUpper (TrimSpace s))"
  by (simp add: room_code_def TrimSpace_ToUpper TrimSpace_idem)

lemma room_code_upper: "room_code c \<Longrightarrow> ToUpper c = c"
  unfolding room_code_def by (metis ToUpper_idem)

end
