(* ===== verification/Scrabble_Lobby.thy ===== *)
theory Scrabble_Lobby
  imports Scrabble_Room Room_Codes Actor
begin

text \<open>
  The lobby singleton that hands out rooms (\<^verbatim>\<open>lobby.go\<close>) and the gateway's search for a room it was
  given (\<^verbatim>\<open>resolveRoom\<close> of \<^verbatim>\<open>gateway.go\<close>). The outcome of spawning a room, of looking one up and
  the passing of time belong to the actor system and are arguments.
\<close>

section \<open>The lobby\<close>

record JoinOrCreate =
  JC_Room :: string
  JC_Language :: string
  JC_PlayerID :: string
  JC_PlayerName :: string

datatype lobby_error = NoRegistry | UnsupportedLanguage string | SpawnError string

datatype JoinOrCreateResult = Joined string string | JoinErr lobby_error

datatype spawn_result = Spawned | ErrActorAlreadyExists | SpawnFailed string

type_synonym LobbyActor = "string \<rightharpoonup> string"

definition handleJoinOrCreate ::
  "Registry option \<Rightarrow> (string \<Rightarrow> spawn_result) \<Rightarrow> rng \<Rightarrow> JoinOrCreate \<Rightarrow> LobbyActor \<Rightarrow>
   JoinOrCreateResult \<times> LobbyActor"
where
  "handleJoinOrCreate ext spawn g msg rooms =
     (let language = ToLower (TrimSpace (JC_Language msg)) in
      case ext of
        None \<Rightarrow> (JoinErr NoRegistry, rooms)
      | Some registry \<Rightarrow>
          if language \<notin> Registry_Codes registry then (JoinErr (UnsupportedLanguage language), rooms)
          else
            let code = ToUpper (TrimSpace (JC_Room msg)) in
            if code \<noteq> [] \<and> rooms code \<noteq> None then (Joined code (the (rooms code)), rooms)
            else
              let code = (if code = [] then generateCode rooms g else code);
                  name = RoomActorPrefix @ language @ ''.'' @ ToLower code in
              case spawn name of
                ErrActorAlreadyExists \<Rightarrow> (Joined code name, rooms(code \<mapsto> name))
              | SpawnFailed e \<Rightarrow> (JoinErr (SpawnError e), rooms)
              | Spawned \<Rightarrow> (Joined code name, rooms(code \<mapsto> name)))"

datatype lobby_msg = LobbyPostStart | LobbyJoinOrCreate JoinOrCreate | LobbyOther

datatype lobby_effect = LobbyResponse JoinOrCreateResult | LobbyUnhandled

definition Lobby_Receive ::
  "Registry option \<Rightarrow> (string \<Rightarrow> spawn_result) \<Rightarrow> rng \<Rightarrow> lobby_msg \<Rightarrow> LobbyActor \<Rightarrow>
   lobby_effect list \<times> LobbyActor"
where
  "Lobby_Receive ext spawn g msg rooms =
     (case msg of
        LobbyPostStart \<Rightarrow> ([], Map.empty)
      | LobbyJoinOrCreate m \<Rightarrow>
          (let (res, rooms) = handleJoinOrCreate ext spawn g m rooms in ([LobbyResponse res], rooms))
      | LobbyOther \<Rightarrow> ([LobbyUnhandled], rooms))"

section \<open>Resolving a room\<close>

definition roomResolveDeadline :: int where "roomResolveDeadline = 2 * second"
definition roomResolveStartDelay :: int where "roomResolveStartDelay = 10 * millisecond"
definition roomResolveMaxDelay :: int where "roomResolveMaxDelay = 200 * millisecond"

text \<open>What the \<open>i\<close>-th call of \<^verbatim>\<open>ActorOf\<close> returns: a process id (which may be nil) or an error.\<close>

type_synonym lookup = "nat \<Rightarrow> (string, string option) res"

datatype resolve_outcome = Resolved string | ResolveTimeout "string option" | ResolveCancelled

text \<open>
  The loop at its \<open>i\<close>-th round. A wait lets at least a clock tick pass; \<open>lag i \<ge> 0\<close> is the time the round takes beyond its wait, and
  \<open>cancelled i\<close> says whether the request's context ends during that wait. The result carries the
  number of look-ups made and the time it returned at.
\<close>

function resolve_loop ::
  "lookup \<Rightarrow> (nat \<Rightarrow> nat) \<Rightarrow> (nat \<Rightarrow> bool) \<Rightarrow> int \<Rightarrow> nat \<Rightarrow> int \<Rightarrow> int \<Rightarrow> resolve_outcome \<times> nat"
where
  "resolve_loop lookup lag cancelled deadline i t delay =
     (case lookup i of
        Ok (Some room) \<Rightarrow> (Resolved room, Suc i)
      | res \<Rightarrow>
          let remaining = deadline - t in
          if remaining \<le> 0 then (ResolveTimeout (case res of Err e \<Rightarrow> Some e | _ \<Rightarrow> None), Suc i)
          else
            let wait = min delay remaining in
            if cancelled i then (ResolveCancelled, Suc i)
            else resolve_loop lookup lag cancelled deadline (Suc i) (t + max wait 1 + int (lag i))
                   (if delay < roomResolveMaxDelay then delay * 2 else delay))"
  by pat_completeness auto
termination
  by (relation "measure (\<lambda>(lookup, lag, cancelled, deadline, i, t, delay). nat (deadline - t))") auto

definition resolveRoom :: "lookup \<Rightarrow> (nat \<Rightarrow> nat) \<Rightarrow> (nat \<Rightarrow> bool) \<Rightarrow> int \<Rightarrow> resolve_outcome \<times> nat" where
  "resolveRoom lookup lag cancelled t =
     resolve_loop lookup lag cancelled (t + roomResolveDeadline) 0 t roomResolveStartDelay"

declare resolve_loop.simps [simp del]

section \<open>The directory\<close>

definition lobby_inv :: "Registry \<Rightarrow> LobbyActor \<Rightarrow> bool" where
  "lobby_inv registry rooms \<longleftrightarrow>
     (\<forall>c n. rooms c = Some n \<longrightarrow> room_code c \<and>
        (\<exists>language \<in> Registry_Codes registry. n = RoomActorPrefix @ language @ ''.'' @ ToLower c))"

lemma handleJoinOrCreate_cases:
  assumes j: "handleJoinOrCreate (Some registry) spawn g msg rooms = (Joined c n, rooms')"
  obtains (known) "rooms c = Some n" "rooms' = rooms" "c \<noteq> []"
  | (fresh) "room_code c" "rooms' = rooms(c \<mapsto> n)" "rooms c = None \<or> length c = 6"
      "ToLower (TrimSpace (JC_Language msg)) \<in> Registry_Codes registry"
      "n = RoomActorPrefix @ ToLower (TrimSpace (JC_Language msg)) @ ''.'' @ ToLower c"
proof -
  let ?lang = "ToLower (TrimSpace (JC_Language msg))" and ?code = "ToUpper (TrimSpace (JC_Room msg))"
  define new where "new = (if ?code = [] then generateCode rooms g else ?code)"
  have rc: "room_code new"
    using room_code_generated [of rooms g] room_code_given [of "JC_Room msg"] by (simp add: new_def)
  have free: "rooms new = None \<or> length new = 6" if "\<not> (?code \<noteq> [] \<and> rooms ?code \<noteq> None)"
    using that generateCode_loop_spec [of 16 rooms g] by (auto simp: new_def generateCode_def Let_def)
  have reg: "?lang \<in> Registry_Codes registry"
    using j by (simp add: handleJoinOrCreate_def Let_def split: if_splits)
  show thesis
  proof (cases "?code \<noteq> [] \<and> rooms ?code \<noteq> None")
    case True
    then have "c = ?code" "rooms' = rooms" "n = the (rooms ?code)"
      using j reg by (auto simp: handleJoinOrCreate_def Let_def)
    then show thesis using known True by auto
  next
    case False
    let ?name = "RoomActorPrefix @ ?lang @ ''.'' @ ToLower new"
    have "handleJoinOrCreate (Some registry) spawn g msg rooms =
        (case spawn ?name of
           ErrActorAlreadyExists \<Rightarrow> (Joined new ?name, rooms(new \<mapsto> ?name))
         | SpawnFailed e \<Rightarrow> (JoinErr (SpawnError e), rooms)
         | Spawned \<Rightarrow> (Joined new ?name, rooms(new \<mapsto> ?name)))"
      using reg False by (cases "?code = []") (simp_all add: handleJoinOrCreate_def Let_def new_def split: spawn_result.split)
    with j have "c = new" "n = ?name" "rooms' = rooms(new \<mapsto> ?name)"
      by (auto split: spawn_result.splits)
    then show thesis using fresh rc reg free [OF False] by blast
  qed
qed

lemma handleJoinOrCreate_JoinErr:
  "handleJoinOrCreate ext spawn g msg rooms = (JoinErr e, rooms') \<Longrightarrow> rooms' = rooms"
  by (auto simp: handleJoinOrCreate_def Let_def split: if_splits spawn_result.splits option.splits)

lemma handleJoinOrCreate_inv:
  assumes "lobby_inv registry rooms"
  shows "lobby_inv registry (snd (handleJoinOrCreate (Some registry) spawn g msg rooms))"
proof (cases "handleJoinOrCreate (Some registry) spawn g msg rooms")
  case (Pair res rooms')
  show ?thesis
  proof (cases res)
    case (Joined c n)
    with Pair have j: "handleJoinOrCreate (Some registry) spawn g msg rooms = (Joined c n, rooms')" by simp
    from j show ?thesis
    proof (cases rule: handleJoinOrCreate_cases)
      case known
      then show ?thesis using assms Pair by simp
    next
      case fresh
      then show ?thesis using assms Pair by (auto simp: lobby_inv_def)
    qed
  next
    case (JoinErr e)
    then show ?thesis using handleJoinOrCreate_JoinErr [of "Some registry"] assms Pair by fastforce
  qed
qed

type_synonym lobby_input = "(string \<Rightarrow> spawn_result) \<times> rng \<times> lobby_msg"

definition lobby_step :: "Registry \<Rightarrow> lobby_input \<Rightarrow> LobbyActor \<Rightarrow> LobbyActor" where
  "lobby_step registry m rooms =
     (case m of (spawn, g, msg) \<Rightarrow> snd (Lobby_Receive (Some registry) spawn g msg rooms))"

interpretation lobby: total_actor "lobby_step registry" "lobby_inv registry" for registry
proof
  fix rooms and m :: lobby_input
  assume "lobby_inv registry rooms"
  then show "lobby_inv registry (lobby_step registry m rooms)"
    using handleJoinOrCreate_inv [of registry rooms "fst m" "fst (snd m)"]
    by (cases "snd (snd m)") (simp_all add: lobby_step_def Lobby_Receive_def split_def Let_def, simp add: lobby_inv_def)
qed

text \<open>
  An announced code stays with its room: an entry is overwritten only by a six-letter fallback code,
  which is not checked against the directory, or when the lobby starts again.
\<close>

lemma lobby_step_keeps:
  assumes "rooms c = Some n" and "length c \<noteq> 6" and "snd (snd m) \<noteq> LobbyPostStart"
  shows "lobby_step registry m rooms c = Some n"
proof (cases "snd (snd m)")
  case (LobbyJoinOrCreate msg)
  obtain res rooms' where j: "handleJoinOrCreate (Some registry) (fst m) (fst (snd m)) msg rooms = (res, rooms')" by fastforce
  have "rooms' c = Some n"
  proof (cases res)
    case (Joined c' n')
    with j have "handleJoinOrCreate (Some registry) (fst m) (fst (snd m)) msg rooms = (Joined c' n', rooms')" by simp
    then show ?thesis using assms(1,2) by (cases rule: handleJoinOrCreate_cases) auto
  next
    case (JoinErr e)
    then show ?thesis using j handleJoinOrCreate_JoinErr assms(1) by blast
  qed
  then show ?thesis using LobbyJoinOrCreate j by (simp add: lobby_step_def Lobby_Receive_def split_def)
qed (use assms in \<open>simp_all add: lobby_step_def Lobby_Receive_def split_def\<close>)

lemma lobby_run_keeps:
  assumes "rooms c = Some n" and "length c \<noteq> 6" and "\<forall>m \<in> set ms. snd (snd m) \<noteq> LobbyPostStart"
  shows "fold (lobby_step registry) ms rooms c = Some n"
  using assms(1,3) by (induction ms arbitrary: rooms) (simp_all add: lobby_step_keeps [OF _ assms(2)])

text \<open>
  The room's name carries what the room needs: an actor started under a name of the directory
  recovers its code and a registered language from it.
\<close>

lemma room_of_lobby_name:
  assumes inv: "lobby_inv registry rooms" and n: "rooms c = Some n"
    and dots: "\<forall>language \<in> Registry_Codes registry. CHR ''.'' \<notin> set language"
  shows "\<exists>r. room_PostStart n (Some registry) lb = Some r \<and> code r = c \<and>
     language r \<in> Registry_Codes registry \<and> registry (language r) = Some (room_bundle r) \<and>
     behavior r = waitingBehavior \<and> topic r = RoomTopicPrefix @ c"
proof -
  obtain lang where l: "lang \<in> Registry_Codes registry" "n = RoomActorPrefix @ lang @ ''.'' @ ToLower c"
    and c: "room_code c" using inv n by (auto simp: lobby_inv_def)
  obtain b where b: "registry lang = Some b" using l(1) by (auto simp: Registry_Codes_def)
  have "Cut (lang @ CHR ''.'' # ToLower c) CHR ''.'' = Some (lang, ToLower c)"
    using dots l(1) by (intro Cut_append) blast
  then show ?thesis
    using l b room_code_upper [OF c]
    by (simp add: room_PostStart_def Registry_Get_def ToUpper_ToLower)
qed

section \<open>The search ends\<close>

lemma resolve_bound:
  assumes "\<And>t'. deadline - t' \<le> max 0 (R - delay) \<Longrightarrow>
      snd (resolve_loop lookup lag cancelled deadline (Suc i) t'
        (if delay < roomResolveMaxDelay then delay * 2 else delay)) \<le> k"
    and "deadline - t \<le> R" and "Suc i \<le> k"
  shows "snd (resolve_loop lookup lag cancelled deadline i t delay) \<le> k"
proof -
  let ?t = "t + max (min delay (deadline - t)) 1 + int (lag i)"
  have "deadline - ?t \<le> max 0 (R - delay)" using assms(2) by linarith
  then show ?thesis
    using assms(1) [of ?t] assms(3)
    by (subst resolve_loop.simps) (auto simp: Let_def split: res.splits option.splits)
qed

lemma resolve_late:
  assumes "deadline - t \<le> 0" and "Suc i \<le> k"
  shows "snd (resolve_loop lookup lag cancelled deadline i t delay) \<le> k"
  using assms by (subst resolve_loop.simps) (simp add: Let_def split: res.splits option.splits)

lemma resolve_capped:
  assumes "roomResolveMaxDelay \<le> delay" and "deadline - t \<le> int n * delay"
  shows "snd (resolve_loop lookup lag cancelled deadline i t delay) \<le> Suc (i + n)"
  using assms(2)
proof (induction n arbitrary: i t)
  case 0
  then show ?case by (simp add: resolve_late)
next
  case (Suc n)
  have d: "\<not> delay < roomResolveMaxDelay" "0 < delay" using assms(1) by (simp_all add: roomResolveMaxDelay_def millisecond_def)
  show ?case
  proof (rule resolve_bound [OF _ Suc.prems])
    fix t' assume "deadline - t' \<le> max 0 (int (Suc n) * delay - delay)"
    also have "\<dots> \<le> int n * delay" using d(2) by (simp add: algebra_simps)
    finally show "snd (resolve_loop lookup lag cancelled deadline (Suc i) t'
        (if delay < roomResolveMaxDelay then delay * 2 else delay)) \<le> Suc (i + Suc n)"
      using Suc.IH [of t' "Suc i"] d by simp
  qed simp
qed

lemma resolveRoom_bounded: "snd (resolveRoom lookup lag cancelled t) \<le> 12"
proof -
  note ms = millisecond_def second_def roomResolveMaxDelay_def
  have 5: "snd (resolve_loop lookup lag cancelled deadline 5 t (320 * millisecond)) \<le> 12"
    if "deadline - t \<le> 1690 * millisecond" for deadline t
    using that resolve_capped [of "320 * millisecond" deadline t 6 lookup lag cancelled 5] by (simp add: ms)
  have 4: "snd (resolve_loop lookup lag cancelled deadline 4 t (160 * millisecond)) \<le> 12"
    if "deadline - t \<le> 1850 * millisecond" for deadline t
    by (rule resolve_bound [OF _ that]) (use 5 in \<open>simp_all add: ms\<close>)
  have 3: "snd (resolve_loop lookup lag cancelled deadline 3 t (80 * millisecond)) \<le> 12"
    if "deadline - t \<le> 1930 * millisecond" for deadline t
    by (rule resolve_bound [OF _ that]) (use 4 in \<open>simp_all add: ms\<close>)
  have 2: "snd (resolve_loop lookup lag cancelled deadline 2 t (40 * millisecond)) \<le> 12"
    if "deadline - t \<le> 1970 * millisecond" for deadline t
    by (rule resolve_bound [OF _ that]) (use 3 in \<open>simp_all add: ms\<close>)
  have 1: "snd (resolve_loop lookup lag cancelled deadline (Suc 0) t (20 * millisecond)) \<le> 12"
    if "deadline - t \<le> 1990 * millisecond" for deadline t
    by (rule resolve_bound [OF _ that]) (use 2 in \<open>simp_all add: ms numeral_2_eq_2 [symmetric]\<close>)
  have "t + roomResolveDeadline - t \<le> 2000 * millisecond" by (simp add: ms roomResolveDeadline_def)
  then show ?thesis
    unfolding resolveRoom_def roomResolveStartDelay_def
    by (rule resolve_bound [rotated]) (use 1 in \<open>simp_all add: ms\<close>)
qed

text \<open>A room is returned exactly when a look-up found it, and then by the first that did.\<close>

lemma resolve_loop_sound:
  "resolve_loop lookup lag cancelled deadline i t delay = (out, n) \<Longrightarrow>
   i < n \<and> (\<forall>j. i \<le> j \<and> j < n - 1 \<longrightarrow> (\<forall>room. lookup j \<noteq> Ok (Some room))) \<and>
   (\<forall>room. out = Resolved room \<longleftrightarrow> lookup (n - 1) = Ok (Some room))"
proof (induction lookup lag cancelled deadline i t delay rule: resolve_loop.induct)
  case (1 lookup lag cancelled deadline i t delay)
  let ?rec = "resolve_loop lookup lag cancelled deadline (Suc i)
      (t + max (min delay (deadline - t)) 1 + int (lag i))
      (if delay < roomResolveMaxDelay then delay * 2 else delay)"
  show ?case
  proof (cases "\<exists>room. lookup i = Ok (Some room)")
    case True
    then show ?thesis using 1(4) by (subst (asm) resolve_loop.simps) auto
  next
    case False
    show ?thesis
    proof (cases "deadline - t \<le> 0 \<or> cancelled i")
      case True
      then show ?thesis using 1(4) False
        by (subst (asm) resolve_loop.simps) (auto simp: Let_def split: res.splits option.splits if_splits)
    next
      case go: False
      then have "?rec = (out, n)" using 1(4) False
        by (subst (asm) resolve_loop.simps) (auto simp: Let_def split: res.splits option.splits if_splits)
      moreover have "?rec = (out, n) \<Longrightarrow> Suc i < n \<and> (\<forall>j. Suc i \<le> j \<and> j < n - 1 \<longrightarrow> (\<forall>room. lookup j \<noteq> Ok (Some room))) \<and>
          (\<forall>room. out = Resolved room \<longleftrightarrow> lookup (n - 1) = Ok (Some room))"
        using 1(1-3) go False by (cases "lookup i") (auto split: option.splits)
      ultimately show ?thesis using False by (metis Suc_lessD Suc_leI le_neq_implies_less)
    qed
  qed
qed

end
