(* ===== verification/Scrabble_Session.thy ===== *)
theory Scrabble_Session
  imports Scrabble_Room_Run
begin

text \<open>
  The actor between one web socket and its room (\<^verbatim>\<open>session.go\<close>), and what it lets its player see.
  The room publishes one state event with every rack in it; the session forwards its own player's
  rack only. A frame is the JSON object the session writes, and whether the write succeeds is an
  argument. The \<^verbatim>\<open>For\<close> field of the events the room publishes to everybody is never set and is left
  out of their records.
\<close>

section \<open>The session\<close>

record PlayerSession =
  sess_self :: string
  sess_room :: string
  sess_playerID :: string
  sess_name :: string
  sess_roomCode :: string
  sess_topicName :: string

record StateFrame =
  SF_phase :: Phase
  SF_board :: "string list list"
  SF_yourRack :: "string list"
  SF_players :: "PlayerView list"
  SF_currentID :: string
  SF_ownerID :: string
  SF_bagRemaining :: nat
  SF_timerMs :: int

datatype frame =
    FrameJoined JoinedEvent
  | FrameState StateFrame
  | FrameMove MoveEvent
  | FrameChat string string
  | FrameError room_error
  | FrameGameOver GameOverEvent

datatype session_msg =
    SessPostStart
  | SubscribeAck
  | UnsubscribeAck
  | SessInput string WSIn
  | Closed
  | SessEvent room_event
  | SessOther

datatype session_effect =
    Subscribe string
  | TellRoom string room_msg
  | WriteFrame frame
  | SessShutdown
  | SessUnhandled

definition event_For :: "room_event \<Rightarrow> string" where
  "event_For e =
     (case e of
        EvJoined j \<Rightarrow> Jn_For j
      | EvError pid msg \<Rightarrow> pid
      | _ \<Rightarrow> [])"

definition event_frame :: "string \<Rightarrow> room_event \<Rightarrow> frame" where
  "event_frame me e =
     (case e of
        EvJoined j \<Rightarrow> FrameJoined j
      | EvState s \<Rightarrow>
          FrameState \<lparr>SF_phase = St_Phase s, SF_board = St_Board s,
            SF_yourRack = (case St_PerRack s me of Some ys \<Rightarrow> ys | None \<Rightarrow> []),
            SF_players = St_Players s, SF_currentID = St_CurrentID s, SF_ownerID = St_OwnerID s,
            SF_bagRemaining = St_BagRemaining s, SF_timerMs = St_TimerMs s\<rparr>
      | EvMove m \<Rightarrow> FrameMove m
      | EvChat from text \<Rightarrow> FrameChat from text
      | EvError pid msg \<Rightarrow> FrameError msg
      | EvGameOver g \<Rightarrow> FrameGameOver g)"

definition encodeWS :: "bool \<Rightarrow> PlayerSession \<Rightarrow> room_event \<Rightarrow> session_effect list" where
  "encodeWS write_ok p e =
     (if event_For e \<noteq> [] \<and> event_For e \<noteq> sess_playerID p then []
      else WriteFrame (event_frame (sess_playerID p) e) # (if write_ok then [] else [SessShutdown]))"

definition Session_Receive :: "bool \<Rightarrow> bool \<Rightarrow> PlayerSession \<Rightarrow> session_msg \<Rightarrow> session_effect list" where
  "Session_Receive topic_actor write_ok p msg =
     (case msg of
        SessPostStart \<Rightarrow>
          (if topic_actor then [Subscribe (sess_topicName p)] else []) @
          [TellRoom (sess_room p) (PlayerHello (sess_playerID p) (sess_name p) (sess_self p))]
      | SubscribeAck \<Rightarrow> []
      | UnsubscribeAck \<Rightarrow> []
      | SessInput pid inp \<Rightarrow> [TellRoom (sess_room p) (PlayerInput pid inp)]
      | Closed \<Rightarrow> [SessShutdown]
      | SessEvent e \<Rightarrow> encodeWS write_ok p e
      | SessOther \<Rightarrow> [SessUnhandled])"

section \<open>Privacy of the racks\<close>

text \<open>Two rooms that look the same from one seat: only what is on the other racks differs.\<close>

definition same_seat :: "string \<Rightarrow> roomPlayer \<Rightarrow> roomPlayer \<Rightarrow> bool" where
  "same_seat me p q \<longleftrightarrow> rp_id p = rp_id q \<and> rp_name p = rp_name q \<and> rp_score p = rp_score q \<and>
     rp_bot p = rp_bot q \<and> map_option Rack_Size (rp_rack p) = map_option Rack_Size (rp_rack q) \<and>
     (rp_id p = me \<longrightarrow> rp_rack p = rp_rack q)"

definition same_view :: "string \<Rightarrow> RoomActor \<Rightarrow> RoomActor \<Rightarrow> bool" where
  "same_view me r r' \<longleftrightarrow> list_all2 (same_seat me) (players r) (players r') \<and>
     board r' = board r \<and> room_bundle r' = room_bundle r \<and> currentIdx r' = currentIdx r \<and>
     ownerID r' = ownerID r \<and> map_option Remaining (bag r') = map_option Remaining (bag r) \<and>
     turnDeadline r' = turnDeadline r"

lemma perRack_me:
  assumes "list_all2 (same_seat me) ps qs" and "perRack ps l m = Some racks" and "perRack qs l m' = Some racks'"
    and "m me = m' me"
  shows "racks me = racks' me"
  using assms
proof (induction ps qs arbitrary: m m' rule: list_all2_induct)
  case (Cons p ps q qs)
  show ?case
  proof (cases "rp_rack p")
    case None
    then have "rp_rack q = None" using Cons.hyps(1) by (simp add: same_seat_def)
    with None Cons show ?thesis by simp
  next
    case (Some k)
    then obtain k' where k': "rp_rack q = Some k'" using Cons.hyps(1) by (cases "rp_rack q") (auto simp: same_seat_def)
    obtain w w' where w: "rackToWire k l = Some w" "rackToWire k' l = Some w'"
      "perRack ps l (m(rp_id p \<mapsto> w)) = Some racks" "perRack qs l (m'(rp_id q \<mapsto> w')) = Some racks'"
      using Cons.prems(1,2) Some k' by (auto simp: bind_eq_Some_conv)
    have "(m(rp_id p \<mapsto> w)) me = (m'(rp_id q \<mapsto> w')) me"
      using Cons.hyps(1) Cons.prems(3) Some k' w(1,2) by (auto simp: same_seat_def)
    with Cons.IH [OF w(3,4)] show ?thesis by simp
  qed
qed simp

lemma playerViews_same: "list_all2 (same_seat me) ps qs \<Longrightarrow> playerViews r = playerViews s"
  if "players r = ps" "players s = qs"
  unfolding playerViews_def that
proof (induction rule: list_all2_induct)
  case (Cons p ps q qs)
  then show ?case by (cases "rp_rack p"; cases "rp_rack q") (auto simp: same_seat_def)
qed simp

lemma currentID_same:
  assumes "same_view me r r'"
  shows "map_option rp_id (currentPlayer r) = map_option rp_id (currentPlayer r')"
proof -
  have len: "length (players r) = length (players r')"
    using assms list_all2_lengthD by (auto simp: same_view_def)
  have "rp_id (players r ! i) = rp_id (players r' ! i)" if "i < length (players r)" for i
    using assms that list_all2_nthD [of "same_seat me" "players r" "players r'" i] by (simp add: same_view_def same_seat_def)
  then show ?thesis using len assms by (auto simp: currentPlayer_def same_view_def)
qed

definition state_of :: "Env \<Rightarrow> Phase \<Rightarrow> RoomActor \<Rightarrow> StateEvent option" where
  "state_of env phase r =
     do {
       grid \<leftarrow> (case board r of
                 Some b \<Rightarrow> boardToWire b (Bundle_Lang (room_bundle r))
               | None \<Rightarrow> Some emptyBoardWire);
       racks \<leftarrow> perRack (players r) (Bundle_Lang (room_bundle r)) Map.empty;
       Some
         \<lparr>St_Phase = phase, St_Board = grid, St_Players = playerViews r,
          St_CurrentID = (if phase = PhasePlaying
             then (case map_option rp_id (currentPlayer r) of Some i \<Rightarrow> i | None \<Rightarrow> []) else []),
          St_OwnerID = ownerID r,
          St_BagRemaining = (case map_option Remaining (bag r) of Some n \<Rightarrow> n | None \<Rightarrow> 0),
          St_TimerMs = (case turnDeadline r of
             Some d \<Rightarrow> if phase = PhasePlaying \<and> d - now env > 0
                       then (d - now env) div millisecond else 0
           | None \<Rightarrow> 0),
          St_PerRack = racks\<rparr>
     }"

lemma broadcastState_state:
  "broadcastState env phase r = map_option (\<lambda>e. publish env (EvState e) r) (state_of env phase r)"
  unfolding broadcastState_def state_of_def
  by (auto split: Option.bind_splits option.splits)

lemma frames_agree:
  assumes v: "same_view me r r'" and e: "state_of env ph r = Some e" "state_of env ph r' = Some e'"
  shows "event_frame me (EvState e) = event_frame me (EvState e')"
proof -
  let ?l = "Bundle_Lang (room_bundle r)"
  have bdl: "room_bundle r' = room_bundle r" using v by (simp add: same_view_def)
  obtain grid racks where 1: "(case board r of Some b \<Rightarrow> boardToWire b ?l | None \<Rightarrow> Some emptyBoardWire) = Some grid"
    "perRack (players r) ?l Map.empty = Some racks"
    using e(1) by (auto simp: state_of_def bind_eq_Some_conv)
  obtain grid' racks' where 2: "(case board r' of Some b \<Rightarrow> boardToWire b ?l | None \<Rightarrow> Some emptyBoardWire) = Some grid'"
    "perRack (players r') ?l Map.empty = Some racks'"
    using e(2) unfolding state_of_def bdl by (auto simp: bind_eq_Some_conv)
  have "racks me = racks' me" using perRack_me [OF _ 1(2) 2(2)] v by (simp add: same_view_def)
  moreover have "grid = grid'" using 1(1) 2(1) v by (simp add: same_view_def)
  moreover have "playerViews r = playerViews r'"
    using v playerViews_same [OF refl refl, of me r r'] by (simp only: same_view_def)
  moreover have "e = \<lparr>St_Phase = ph, St_Board = grid, St_Players = playerViews r,
      St_CurrentID = (if ph = PhasePlaying
         then (case map_option rp_id (currentPlayer r) of Some i \<Rightarrow> i | None \<Rightarrow> []) else []),
      St_OwnerID = ownerID r,
      St_BagRemaining = (case map_option Remaining (bag r) of Some n \<Rightarrow> n | None \<Rightarrow> 0),
      St_TimerMs = (case turnDeadline r of
         Some d \<Rightarrow> if ph = PhasePlaying \<and> d - now env > 0 then (d - now env) div millisecond else 0
       | None \<Rightarrow> 0),
      St_PerRack = racks\<rparr>"
    using e(1) unfolding state_of_def 1 Option.bind.bind_lunit option.inject by (rule sym)
  moreover have "e' = \<lparr>St_Phase = ph, St_Board = grid', St_Players = playerViews r',
      St_CurrentID = (if ph = PhasePlaying
         then (case map_option rp_id (currentPlayer r') of Some i \<Rightarrow> i | None \<Rightarrow> []) else []),
      St_OwnerID = ownerID r',
      St_BagRemaining = (case map_option Remaining (bag r') of Some n \<Rightarrow> n | None \<Rightarrow> 0),
      St_TimerMs = (case turnDeadline r' of
         Some d \<Rightarrow> if ph = PhasePlaying \<and> d - now env > 0 then (d - now env) div millisecond else 0
       | None \<Rightarrow> 0),
      St_PerRack = racks'\<rparr>"
    using e(2) unfolding state_of_def bdl 2 Option.bind.bind_lunit option.inject by (rule sym)
  moreover have "ownerID r' = ownerID r" "turnDeadline r' = turnDeadline r"
    "map_option Remaining (bag r') = map_option Remaining (bag r)"
    using v by (simp_all add: same_view_def)
  ultimately show ?thesis using currentID_same [OF v] by (simp only: event_frame_def StateEvent.simps room_event.case)
qed

end
