(* ===== verification/Scrabble_Records.thy ===== *)
theory Scrabble_Records
  imports Scrabble_Room Actor
begin

text \<open>
  What outlives a game: the player profiles (\<^verbatim>\<open>profile.go\<close>) and the leaderboard in the mode without
  a replicator (\<^verbatim>\<open>leaderboard.go\<close>). Go's maps are iterated in an unspecified order, which is an
  argument of \<open>topFromFallback\<close>; its sort leaves the order of equal entries open, which that argument
  covers.
\<close>

section \<open>Profiles\<close>

record profileSnapshot =
  PS_Name :: string
  PS_GamesPlayed :: int
  PS_Wins :: int
  PS_TotalScore :: int

definition zeroSnapshot :: profileSnapshot where
  "zeroSnapshot = \<lparr>PS_Name = [], PS_GamesPlayed = 0, PS_Wins = 0, PS_TotalScore = 0\<rparr>"

type_synonym memProfileStore = "string \<rightharpoonup> profileSnapshot"

definition newMemProfileStore :: memProfileStore where
  "newMemProfileStore = Map.empty"

definition memStore_Load :: "memProfileStore \<Rightarrow> string \<Rightarrow> profileSnapshot \<times> bool" where
  "memStore_Load s i = (case s i of Some snap \<Rightarrow> (snap, True) | None \<Rightarrow> (zeroSnapshot, False))"

definition memStore_Save :: "memProfileStore \<Rightarrow> string \<Rightarrow> profileSnapshot \<Rightarrow> memProfileStore" where
  "memStore_Save s i snap = s(i \<mapsto> snap)"

definition GrainPrefix :: string where "GrainPrefix = ''scrabble.profile.''"

record PlayerProfileGrain =
  grain_id :: string
  grain_state :: profileSnapshot

text \<open>
  \<open>OnActivate\<close> on a fresh grain and \<open>OnDeactivate\<close>, against any store: the result of loading (\<open>None\<close>
  is an error) and whether saving succeeds belong to the store.
\<close>

definition OnActivate :: "(string \<Rightarrow> (profileSnapshot \<times> bool) option) \<Rightarrow> string \<Rightarrow> PlayerProfileGrain" where
  "OnActivate load identity =
     (let i = TrimPrefix identity GrainPrefix in
      case load i of
        Some (snap, True) \<Rightarrow> \<lparr>grain_id = i, grain_state = snap\<rparr>
      | _ \<Rightarrow> \<lparr>grain_id = i, grain_state = zeroSnapshot\<rparr>)"

definition OnDeactivate :: "PlayerProfileGrain \<Rightarrow> string \<times> profileSnapshot" where
  "OnDeactivate g = (grain_id g, grain_state g)"

datatype grain_msg = GetProfile | SetName string | RecordGame bool int | GrainOther

record ProfileView =
  View_PlayerID :: string
  View_Name :: string
  View_GamesPlayed :: int
  View_Wins :: int
  View_TotalScore :: int

datatype grain_reply = ReplyProfile ProfileView | NoErr | GrainUnhandled

definition OnReceive :: "grain_msg \<Rightarrow> PlayerProfileGrain \<Rightarrow> grain_reply \<times> PlayerProfileGrain" where
  "OnReceive msg g =
     (let st = grain_state g in
      case msg of
        GetProfile \<Rightarrow>
          (ReplyProfile \<lparr>View_PlayerID = grain_id g, View_Name = PS_Name st,
             View_GamesPlayed = PS_GamesPlayed st, View_Wins = PS_Wins st,
             View_TotalScore = PS_TotalScore st\<rparr>, g)
      | SetName name \<Rightarrow> (NoErr, g\<lparr>grain_state := st\<lparr>PS_Name := name\<rparr>\<rparr>)
      | RecordGame won score \<Rightarrow>
          (NoErr, g\<lparr>grain_state := st\<lparr>PS_GamesPlayed := PS_GamesPlayed st + 1,
             PS_Wins := (if won then PS_Wins st + 1 else PS_Wins st),
             PS_TotalScore := PS_TotalScore st + score\<rparr>\<rparr>)
      | GrainOther \<Rightarrow> (GrainUnhandled, g))"

section \<open>The leaderboard\<close>

record Leaderboard =
  lb_fallback :: "string \<rightharpoonup> int"
  lb_names :: "string \<rightharpoonup> string"

definition NewLeaderboard :: Leaderboard where
  "NewLeaderboard = \<lparr>lb_fallback = Map.empty, lb_names = Map.empty\<rparr>"

definition fallbackKey :: "string \<Rightarrow> string \<Rightarrow> string" where
  "fallbackKey lang playerID = lang @ ''|'' @ playerID"

definition Leaderboard_RememberName :: "string \<Rightarrow> string \<Rightarrow> Leaderboard \<Rightarrow> Leaderboard" where
  "Leaderboard_RememberName playerID name l = l\<lparr>lb_names := (lb_names l)(playerID \<mapsto> name)\<rparr>"

definition Leaderboard_RecordWin :: "string \<Rightarrow> string \<Rightarrow> string \<Rightarrow> Leaderboard \<Rightarrow> Leaderboard" where
  "Leaderboard_RecordWin lang playerID name l =
     (let l = Leaderboard_RememberName playerID name l;
          key = fallbackKey lang playerID in
      l\<lparr>lb_fallback := (lb_fallback l)(key \<mapsto> (case lb_fallback l key of Some n \<Rightarrow> n | None \<Rightarrow> 0) + 1)\<rparr>)"

definition Leaderboard_nameFor :: "Leaderboard \<Rightarrow> string \<Rightarrow> string" where
  "Leaderboard_nameFor l pid = (case lb_names l pid of Some name \<Rightarrow> name | None \<Rightarrow> pid)"

fun fallback_entries :: "string \<Rightarrow> Leaderboard \<Rightarrow> string list \<Rightarrow> LeaderboardEntry list" where
  "fallback_entries prefix l [] = []"
| "fallback_entries prefix l (key # keys) =
     (case lb_fallback l key of
        None \<Rightarrow> fallback_entries prefix l keys
      | Some wins \<Rightarrow>
          if length key \<le> length prefix \<or> take (length prefix) key \<noteq> prefix
          then fallback_entries prefix l keys
          else let pid = drop (length prefix) key in
            \<lparr>LE_PlayerID = pid, LE_Name = (case lb_names l pid of Some n \<Rightarrow> n | None \<Rightarrow> []),
             LE_Wins = wins\<rparr> # fallback_entries prefix l keys)"

definition topFromFallback :: "string list \<Rightarrow> string \<Rightarrow> int \<Rightarrow> Leaderboard \<Rightarrow> LeaderboardEntry list" where
  "topFromFallback keys lang n l =
     (let entries = sort_key (\<lambda>e. - LE_Wins e) (fallback_entries (lang @ ''|'') l keys) in
      if n > 0 \<and> int (length entries) > n then take (nat n) entries else entries)"

section \<open>Profiles add up\<close>

definition snapshot_ok :: "profileSnapshot \<Rightarrow> bool" where
  "snapshot_ok st \<longleftrightarrow> 0 \<le> PS_Wins st \<and> PS_Wins st \<le> PS_GamesPlayed st"

interpretation grain: total_actor "\<lambda>m g. snd (OnReceive m g)" "\<lambda>g :: PlayerProfileGrain. snapshot_ok (grain_state g)"
proof
  fix g :: PlayerProfileGrain and m
  assume "snapshot_ok (grain_state g)"
  then show "snapshot_ok (grain_state (snd (OnReceive m g)))"
    by (cases m) (auto simp: OnReceive_def snapshot_ok_def Let_def)
qed

definition games_of :: "grain_msg list \<Rightarrow> (bool \<times> int) list" where
  "games_of ms = List.map_filter (\<lambda>m. case m of RecordGame won score \<Rightarrow> Some (won, score) | _ \<Rightarrow> None) ms"

lemma games_of_simps [simp]:
  "games_of [] = []"
  "games_of (m # ms) = (case m of RecordGame won score \<Rightarrow> (won, score) # games_of ms | _ \<Rightarrow> games_of ms)"
  by (simp_all add: games_of_def List.map_filter_simps split: grain_msg.splits)

lemma grain_totals:
  fixes g :: PlayerProfileGrain and ms :: "grain_msg list"
  defines "g' \<equiv> fold (\<lambda>m g. snd (OnReceive m g)) ms g"
  shows "PS_GamesPlayed (grain_state g') = PS_GamesPlayed (grain_state g) + int (length (games_of ms))"
    and "PS_Wins (grain_state g') = PS_Wins (grain_state g) + int (length (filter fst (games_of ms)))"
    and "PS_TotalScore (grain_state g') = PS_TotalScore (grain_state g) + (\<Sum>x\<leftarrow>games_of ms. snd x)"
    and "grain_id g' = grain_id g"
proof -
  have "PS_GamesPlayed (grain_state (fold (\<lambda>m g. snd (OnReceive m g)) ms g)) =
      PS_GamesPlayed (grain_state g) + int (length (games_of ms)) \<and>
     PS_Wins (grain_state (fold (\<lambda>m g. snd (OnReceive m g)) ms g)) =
      PS_Wins (grain_state g) + int (length (filter fst (games_of ms))) \<and>
     PS_TotalScore (grain_state (fold (\<lambda>m g. snd (OnReceive m g)) ms g)) =
      PS_TotalScore (grain_state g) + (\<Sum>x\<leftarrow>games_of ms. snd x) \<and>
     grain_id (fold (\<lambda>m g. snd (OnReceive m g)) ms g) = grain_id g"
  proof (induction ms arbitrary: g)
    case (Cons m ms)
    show ?case using Cons [of "snd (OnReceive m g)"]
      by (cases m) (simp_all add: OnReceive_def Let_def)
  qed simp
  then show "PS_GamesPlayed (grain_state g') = PS_GamesPlayed (grain_state g) + int (length (games_of ms))"
    "PS_Wins (grain_state g') = PS_Wins (grain_state g) + int (length (filter fst (games_of ms)))"
    "PS_TotalScore (grain_state g') = PS_TotalScore (grain_state g) + (\<Sum>x\<leftarrow>games_of ms. snd x)"
    "grain_id g' = grain_id g"
    by (simp_all add: g'_def)
qed

text \<open>A grain that is passivated and activated again is the same grain.\<close>

lemma reactivate:
  assumes "identity = GrainPrefix @ grain_id g"
  shows "OnActivate (\<lambda>i. Some (memStore_Load (memStore_Save s (fst (OnDeactivate g)) (snd (OnDeactivate g))) i)) identity = g"
  using assms by (simp add: OnActivate_def OnDeactivate_def memStore_Load_def memStore_Save_def)

section \<open>The ranking\<close>

definition wins :: "Leaderboard \<Rightarrow> string \<Rightarrow> string \<Rightarrow> int" where
  "wins l lang pid = (case lb_fallback l (fallbackKey lang pid) of Some n \<Rightarrow> n | None \<Rightarrow> 0)"

lemma fallbackKey_inject:
  assumes "CHR ''|'' \<notin> set lang" and "CHR ''|'' \<notin> set lang'"
  shows "fallbackKey lang pid = fallbackKey lang' pid' \<longleftrightarrow> lang = lang' \<and> pid = pid'"
proof -
  have cut: "Cut (fallbackKey lang pid) CHR ''|'' = Some (lang, pid)"
    "Cut (fallbackKey lang' pid') CHR ''|'' = Some (lang', pid')"
    unfolding fallbackKey_def append_Cons append_Nil by (rule Cut_append [OF assms(1)], rule Cut_append [OF assms(2)])
  show ?thesis
  proof
    assume eq: "fallbackKey lang pid = fallbackKey lang' pid'"
    have "Some (lang, pid) = Some (lang', pid')" using cut(1) unfolding eq cut(2) by (rule sym)
    then show "lang = lang' \<and> pid = pid'" by simp
  qed simp
qed

lemma RecordWin_wins:
  assumes "CHR ''|'' \<notin> set lang" and "CHR ''|'' \<notin> set lang'"
  shows "wins (Leaderboard_RecordWin lang pid name l) lang' pid' =
     wins l lang' pid' + (if lang = lang' \<and> pid = pid' then 1 else 0)"
  using fallbackKey_inject [OF assms, of pid pid']
  by (auto simp: wins_def Leaderboard_RecordWin_def Leaderboard_RememberName_def Let_def)

lemma fallback_entries_spec:
  assumes "distinct keys"
  shows "set (fallback_entries (lang @ ''|'') l keys) =
    {\<lparr>LE_PlayerID = pid, LE_Name = (case lb_names l pid of Some n \<Rightarrow> n | None \<Rightarrow> []), LE_Wins = w\<rparr> | pid w.
       pid \<noteq> [] \<and> fallbackKey lang pid \<in> set keys \<and> lb_fallback l (fallbackKey lang pid) = Some w}"
    (is "_ = ?S keys")
proof (induction keys)
  case (Cons key keys)
  show ?case
  proof (cases "\<exists>pid w. pid \<noteq> [] \<and> key = fallbackKey lang pid \<and> lb_fallback l key = Some w")
    case True
    then obtain pid w where k: "pid \<noteq> []" "key = fallbackKey lang pid" "lb_fallback l key = Some w" by blast
    then have "?S (key # keys) = insert \<lparr>LE_PlayerID = pid, LE_Name = (case lb_names l pid of Some n \<Rightarrow> n | None \<Rightarrow> []),
        LE_Wins = w\<rparr> (?S keys)" by (auto simp: fallbackKey_def)
    with Cons k show ?thesis by (simp add: fallbackKey_def Let_def)
  next
    case False
    then have S: "?S (key # keys) = ?S keys" by auto
    have "fallback_entries (lang @ ''|'') l (key # keys) = fallback_entries (lang @ ''|'') l keys"
    proof (cases "lb_fallback l key")
      case (Some w)
      let ?p = "lang @ ''|''"
      have "length key \<le> length ?p" if pre: "take (length ?p) key = ?p"
      proof -
        have "key = ?p @ drop (length ?p) key" using append_take_drop_id [of "length ?p" key] unfolding pre by simp
        then have "key = fallbackKey lang (drop (length ?p) key)" by (simp only: fallbackKey_def append_assoc)
        then have "drop (length ?p) key = []" using False Some by blast
        then show ?thesis by (simp only: drop_eq_Nil)
      qed
      then show ?thesis using Some by auto
    qed simp
    then show ?thesis using Cons S by simp
  qed
qed simp

lemma topFromFallback_sorted:
  "sorted (rev (map LE_Wins (topFromFallback keys lang n l)))"
proof -
  let ?es = "sort_key (\<lambda>e. - LE_Wins e) (fallback_entries (lang @ ''|'') l keys)"
  have "sorted (map (\<lambda>e. - LE_Wins e) (take k ?es))" for k
    by (simp add: take_map [symmetric] sorted_wrt_take)
  then have s: "sorted_wrt (\<ge>) (map LE_Wins (take k ?es))" for k
    by (simp add: sorted_wrt_map)
  have "sorted_wrt (\<ge>) (map LE_Wins ?es)" using s [of "length ?es"] by simp
  with s show ?thesis by (simp add: topFromFallback_def Let_def sorted_wrt_rev)
qed

end
