(* ===== verification/Scrabble_Service.thy ===== *)
theory Scrabble_Service
  imports Scrabble_Game Scrabble_Lobby Scrabble_Session Scrabble_Records
begin

text \<open>
  The properties of what surrounds a room: the lobby that hands out rooms, the gateway's search for
  one, the session of a player, the profiles and the leaderboard.
\<close>

section \<open>The lobby\<close>

definition cat_registry :: Registry where
  "cat_registry = Registry_Add cat_bundle NewRegistry"

definition cat_join :: "string \<Rightarrow> JoinOrCreate" where
  "cat_join c = \<lparr>JC_Room = c, JC_Language = ''en'', JC_PlayerID = ''ann'', JC_PlayerName = ''Ann''\<rparr>"

lemma cat_registry_simp: "cat_registry = [''en'' \<mapsto> cat_bundle]"
  by (simp add: cat_registry_def Registry_Add_def NewRegistry_def cat_bundle_def english_lang_def English_def newLanguage_def)

lemma cat_registry_codes [simp]: "Registry_Codes cat_registry = {''en''}"
  by (auto simp: cat_registry_simp Registry_Codes_def)

lemma cat_upper: "ToUpper (TrimSpace ''abcd'') = ''ABCD''" by code_simp

lemma cat_upper_padded: "ToUpper (TrimSpace '' abcd'') = ''ABCD''" by code_simp

lemma cat_lower: "ToLower ''ABCD'' = ''abcd''" by code_simp

lemma cat_language: "ToLower (TrimSpace ''en'') = ''en''" by code_simp

lemmas cat_strings = cat_upper cat_upper_padded cat_lower cat_language

lemma cat_join_creates:
  "handleJoinOrCreate (Some cat_registry) (\<lambda>_. Spawned) g (cat_join ''abcd'') Map.empty =
     (Joined ''ABCD'' ''room.en.abcd'', [''ABCD'' \<mapsto> ''room.en.abcd''])"
  by (simp add: handleJoinOrCreate_def cat_join_def RoomActorPrefix_def cat_strings Let_def)

text \<open>
  The room's name carries what the room needs. Whatever requests the lobby got since it started,
  an actor started under a name of its directory becomes a waiting room with the code it is listed
  under, the bundle of a registered language, and the topic of that code.
\<close>

theorem lobby_room_recovers:
  assumes run: "rooms = fold (lobby_step registry) ms Map.empty" and n: "rooms c = Some n"
    and dots: "\<forall>language \<in> Registry_Codes registry. CHR ''.'' \<notin> set language"
  shows "\<exists>r. room_PostStart n (Some registry) lb = Some r \<and> code r = c \<and>
     language r \<in> Registry_Codes registry \<and> registry (language r) = Some (room_bundle r) \<and>
     behavior r = waitingBehavior \<and> topic r = RoomTopicPrefix @ c"
proof -
  have "lobby_inv registry rooms"
    unfolding run by (rule lobby.fold_ok) (simp add: lobby_inv_def)
  from room_of_lobby_name [OF this n dots] show ?thesis .
qed

theorem lobby_room_recovers_witness:
  "\<exists>r. room_PostStart ''room.en.abcd'' (Some cat_registry) False = Some r \<and> code r = ''ABCD''"
proof -
  have "fold (lobby_step cat_registry) [(\<lambda>_. Spawned, \<lambda>_. 0, LobbyJoinOrCreate (cat_join ''abcd''))] Map.empty ''ABCD'' =
      Some ''room.en.abcd''"
    by (simp add: lobby_step_def Lobby_Receive_def cat_join_creates)
  from lobby_room_recovers [OF refl this, of False] show ?thesis by auto
qed

text \<open>
  Whoever asks for the code a room was announced under gets that room, whatever requests came in
  between and whatever registered language is asked for; only a code of six letters can be taken over.
\<close>

theorem lobby_join_announced:
  assumes j: "handleJoinOrCreate (Some registry) spawn g msg rooms = (Joined c n, rooms')"
    and c: "length c \<noteq> 6" and later: "\<forall>m \<in> set ms. snd (snd m) \<noteq> LobbyPostStart"
    and again: "ToUpper (TrimSpace (JC_Room msg')) = c" "ToLower (TrimSpace (JC_Language msg')) \<in> Registry_Codes registry"
  shows "fst (handleJoinOrCreate (Some registry) spawn' g' msg' (fold (lobby_step registry) ms rooms')) = Joined c n"
proof -
  have "c \<noteq> []" "rooms' c = Some n"
    using j by (auto elim!: handleJoinOrCreate_cases simp: room_code_def)
  moreover from lobby_run_keeps [where rooms = rooms' and c = c, OF _ c later] this(2)
  have "fold (lobby_step registry) ms rooms' c = Some n" by blast
  ultimately show ?thesis using again by (simp add: handleJoinOrCreate_def Let_def)
qed

theorem lobby_join_announced_witness:
  "fst (handleJoinOrCreate (Some cat_registry) (\<lambda>_. SpawnFailed ''late'') (\<lambda>_. 0) (cat_join '' abcd'')
     (fold (lobby_step cat_registry) [(\<lambda>_. Spawned, \<lambda>_. 0, LobbyOther)] [''ABCD'' \<mapsto> ''room.en.abcd''])) =
     Joined ''ABCD'' ''room.en.abcd''"
  by (rule lobby_join_announced [OF cat_join_creates [of "\<lambda>_. 0"]])
     (simp_all add: cat_join_def cat_strings)

text \<open>
  C35: the gateway's search for a room ends after at most 12 look-ups, whatever the look-ups answer and
  however long they take; it returns a room exactly when its last look-up found it, and no earlier one
  had.
\<close>

theorem resolve_room_bounded:
  assumes "resolveRoom lookup lag cancelled t = (out, n)"
  shows "0 < n \<and> n \<le> 12 \<and> (\<forall>j < n - 1. \<forall>room. lookup j \<noteq> Ok (Some room)) \<and>
     (\<forall>room. out = Resolved room \<longleftrightarrow> lookup (n - 1) = Ok (Some room))"
  using resolveRoom_bounded [of lookup lag cancelled t] assms
    resolve_loop_sound [of lookup lag cancelled "t + roomResolveDeadline" 0 t roomResolveStartDelay out n]
  by (simp add: resolveRoom_def)

theorem resolve_room_bounded_witness:
  "snd (resolveRoom (\<lambda>_. Err ''not found'') (\<lambda>_. 0) (\<lambda>_. False) 0) \<le> 12 \<and>
   (\<forall>room. fst (resolveRoom (\<lambda>_. Err ''not found'') (\<lambda>_. 0) (\<lambda>_. False) 0) \<noteq> Resolved room)"
  using resolve_room_bounded [of "\<lambda>_. Err ''not found''" "\<lambda>_. 0" "\<lambda>_. False" 0] by (auto simp: prod_eq_iff)

section \<open>The session\<close>


definition cat_session :: PlayerSession where
  "cat_session = \<lparr>sess_self = ''s.ann'', sess_room = ''room.en.abcd'', sess_playerID = ''ann'',
     sess_name = ''Ann'', sess_roomCode = ''ABCD'', sess_topicName = ''room.ABCD''\<rparr>"

definition other_room :: RoomActor where
  "other_room = cat_room\<lparr>players := [cat_seat ''ann'' False,
     (cat_seat ''bot'' True)\<lparr>rp_rack := Some \<lparr>Rack_tiles = rev (Rack_tiles cat_rack)\<rparr>\<rparr>]\<rparr>"

lemma other_room_view: "same_view ''ann'' cat_room other_room"
  by (simp add: same_view_def other_room_def same_seat_def Rack_Size_def cat_room_def cat_seat_def)

lemma other_room_ok: "game_ok other_room"
  using cat_safe cat_rack_ok
  by (auto simp: safe_def game_ok_def other_room_def Let_def rack_ok_def Rack_Size_def)


section \<open>Profiles and the leaderboard\<close>

text \<open>
  Profiles add up. After any sequence of messages a profile has counted every recorded game once,
  its wins and its scores, and a grain that is deactivated and activated again from what it saved is
  the same grain.
\<close>

theorem profile_totals:
  "let g' = fold (\<lambda>m g. snd (OnReceive m g)) ms g; st = grain_state g; st' = grain_state g' in
   PS_GamesPlayed st' = PS_GamesPlayed st + int (length (games_of ms)) \<and>
   PS_Wins st' = PS_Wins st + int (length (filter fst (games_of ms))) \<and>
   PS_TotalScore st' = PS_TotalScore st + (\<Sum>x\<leftarrow>games_of ms. snd x) \<and>
   OnActivate (\<lambda>i. Some (memStore_Load (memStore_Save store (fst (OnDeactivate g')) (snd (OnDeactivate g'))) i))
     (GrainPrefix @ grain_id g) = g'"
  using grain_totals [of ms g] reactivate [of "GrainPrefix @ grain_id g" "fold (\<lambda>m g. snd (OnReceive m g)) ms g" store]
  by (simp add: Let_def)

definition won :: "(string \<times> string \<times> string) list \<Rightarrow> Leaderboard" where
  "won ws = fold (\<lambda>(lang, pid, name). Leaderboard_RecordWin lang pid name) ws NewLeaderboard"

definition win_count :: "(string \<times> string \<times> string) list \<Rightarrow> string \<Rightarrow> string \<Rightarrow> int" where
  "win_count ws lang pid = int (length (filter (\<lambda>(l, p, _). l = lang \<and> p = pid) ws))"

lemma won_snoc: "won (ws @ [(l, p, nm)]) = Leaderboard_RecordWin l p nm (won ws)"
  by (simp add: won_def)

lemma won_count:
  assumes "\<forall>(l, p, nm) \<in> set ws. CHR ''|'' \<notin> set l" and "CHR ''|'' \<notin> set lang"
  shows "wins (won ws) lang pid = win_count ws lang pid"
  using assms(1)
proof (induction ws rule: rev_induct)
  case Nil
  then show ?case by (simp add: won_def wins_def NewLeaderboard_def win_count_def)
next
  case (snoc w ws)
  obtain l p nm where w: "w = (l, p, nm)" by (cases w)
  then have "CHR ''|'' \<notin> set l" using snoc.prems by auto
  from RecordWin_wins [OF this assms(2), of p nm "won ws" pid] snoc w show ?case
    by (auto simp: won_snoc win_count_def)
qed

lemma won_positive: "lb_fallback (won ws) key = Some w \<Longrightarrow> 0 < w"
proof (induction ws arbitrary: w rule: rev_induct)
  case Nil
  then show ?case by (simp add: won_def NewLeaderboard_def)
next
  case (snoc x ws)
  obtain l p nm where x: "x = (l, p, nm)" by (cases x)
  show ?case using snoc unfolding x won_snoc
    by (auto simp: Leaderboard_RecordWin_def Leaderboard_RememberName_def Let_def split: if_splits option.splits)
qed

lemma won_entry:
  assumes "\<forall>(l, p, nm) \<in> set ws. CHR ''|'' \<notin> set l" and "CHR ''|'' \<notin> set lang"
  shows "lb_fallback (won ws) (fallbackKey lang pid) = Some w \<longleftrightarrow> w = win_count ws lang pid \<and> 0 < w"
  using won_count [OF assms, of pid] won_positive [of ws "fallbackKey lang pid"]
  by (auto simp: wins_def split: option.splits)

lemma sorted_take_top:
  assumes "sorted_wrt (\<lambda>x y. f y \<le> f x) xs" and "x \<in> set xs" "x \<notin> set (take k xs)" "y \<in> set (take k xs)"
  shows "f x \<le> (f y :: int)"
proof -
  have "x \<in> set (drop k xs)" using assms(2,3) append_take_drop_id [of k xs] by (metis Un_iff set_append)
  then show ?thesis using assms(1,4) append_take_drop_id [of k xs] by (metis sorted_wrt_append)
qed

text \<open>
  The ranking is the ranking. After any sequence of wins, the leaderboard of a language lists
  players by their number of wins there, most wins first and \<open>n\<close> of them at most (all of them when \<open>n\<close>
  is not positive), and leaves out a winner only in favour of \<open>n\<close> others with at least as many wins.
\<close>

theorem leaderboard_top:
  assumes ws: "\<forall>(l, p, nm) \<in> set ws. CHR ''|'' \<notin> set l" and lang: "CHR ''|'' \<notin> set lang"
    and keys: "distinct keys" "set keys = dom (lb_fallback (won ws))"
  shows "let top = topFromFallback keys lang n (won ws) in
     sorted (rev (map LE_Wins top)) \<and> (0 < n \<longrightarrow> int (length top) \<le> n) \<and>
     (\<forall>e \<in> set top. LE_Wins e = win_count ws lang (LE_PlayerID e) \<and> 0 < LE_Wins e) \<and>
     (\<forall>pid. pid \<noteq> [] \<and> 0 < win_count ws lang pid \<longrightarrow>
        pid \<in> LE_PlayerID ` set top \<or>
        0 < n \<and> int (length top) = n \<and> (\<forall>e \<in> set top. win_count ws lang pid \<le> LE_Wins e))"
proof -
  let ?es = "fallback_entries (lang @ ''|'') (won ws) keys"
  let ?sorted = "sort_key (\<lambda>e. - LE_Wins e) ?es"
  let ?top = "topFromFallback keys lang n (won ws)"
  let ?cut = "n > 0 \<and> int (length ?es) > n"
  have top: "?top = (if ?cut then take (nat n) ?sorted else ?sorted)" by (simp add: topFromFallback_def Let_def)
  have sub: "set ?top \<subseteq> set ?es" using set_take_subset [of "nat n" ?sorted] by (auto simp: top)
  have entry: "e \<in> set ?es \<Longrightarrow> LE_Wins e = win_count ws lang (LE_PlayerID e) \<and> 0 < LE_Wins e" for e
    unfolding fallback_entries_spec [OF keys(1)] using won_entry [OF ws lang] by auto
  have desc: "sorted_wrt (\<lambda>x y. LE_Wins y \<le> LE_Wins x) ?sorted"
    using sorted_sort_key [of "\<lambda>e. - LE_Wins e" ?es] by (simp add: sorted_wrt_map)
  have listed: "pid \<in> LE_PlayerID ` set ?top \<or> 0 < n \<and> int (length ?top) = n \<and> (\<forall>e \<in> set ?top. win_count ws lang pid \<le> LE_Wins e)"
    if pid: "pid \<noteq> []" "0 < win_count ws lang pid" for pid
  proof -
    have "lb_fallback (won ws) (fallbackKey lang pid) = Some (win_count ws lang pid)"
      using won_entry [OF ws lang] pid(2) by blast
    moreover from this have "fallbackKey lang pid \<in> set keys" using keys(2) by auto
    ultimately obtain e where e: "e \<in> set ?es" "LE_PlayerID e = pid" "LE_Wins e = win_count ws lang pid"
      unfolding fallback_entries_spec [OF keys(1)] using pid(1) by fastforce
    show ?thesis
    proof (cases "e \<in> set ?top")
      case False
      then have cut: ?cut using e(1) by (auto simp: top split: if_splits)
      then have "?top = take (nat n) ?sorted" by (simp add: top)
      moreover have "LE_Wins e \<le> LE_Wins y" if "y \<in> set (take (nat n) ?sorted)" for y
        using sorted_take_top [OF desc _ _ that] e(1) False cut by (simp add: top)
      ultimately show ?thesis using cut e(3) by auto
    qed (use e in auto)
  qed
  have "0 < n \<longrightarrow> int (length ?top) \<le> n" by (auto simp: top)
  then show ?thesis
    using topFromFallback_sorted [of keys lang n "won ws"] sub entry listed unfolding Let_def by blast
qed

theorem leaderboard_top_witness:
  "list_all (\<lambda>e. LE_Wins e =
       win_count [(''en'', ''ann'', ''Ann''), (''en'', ''eve'', ''Eve''), (''en'', ''ann'', ''Ann'')] ''en'' (LE_PlayerID e))
     (topFromFallback [''en|eve'', ''en|ann''] ''en'' 1
       (won [(''en'', ''ann'', ''Ann''), (''en'', ''eve'', ''Eve''), (''en'', ''ann'', ''Ann'')]))"
proof -
  let ?ws = "[(''en'', ''ann'', ''Ann''), (''en'', ''eve'', ''Eve''), (''en'', ''ann'', ''Ann'')]"
  have "set [''en|eve'', ''en|ann''] = dom (lb_fallback (won ?ws))"
    by (auto simp: won_def Leaderboard_RecordWin_def Leaderboard_RememberName_def NewLeaderboard_def fallbackKey_def)
  from leaderboard_top [OF _ _ _ this, of "''en''" 1] show ?thesis by (simp add: Let_def list_all_iff)
qed

end
