(* ===== verification/Replicated.thy ===== *)
theory Replicated
  imports Actor "HOL-Library.Multiset"
begin

text \<open>
  What the two leaderboards rely on: the replicated store of the actor library, with counters and sets under
  string keys. It is third-party code: its four operations are arguments, and what a leaderboard relies on is the
  predicate \<open>replicates\<close>. The locale \<open>win_board\<close> states what recording a win and reading the top list owe the store, and
  proves once that the list shows the recorded wins.
\<close>

section \<open>The store\<close>

record 'r crdt_ops =
  crdt_increment :: "string \<Rightarrow> 'r \<Rightarrow> 'r"
  crdt_add :: "string \<Rightarrow> string \<Rightarrow> 'r \<Rightarrow> 'r"
  crdt_value :: "string \<Rightarrow> 'r \<Rightarrow> int option"
  crdt_elements :: "string \<Rightarrow> 'r \<Rightarrow> string list option"

text \<open>One request to the replicator: it is processed or not, and the caller sees an error or not.\<close>

record fate =
  fa_done :: bool
  fa_error :: "string option"

definition calm :: fate where "calm = \<lparr>fa_done = True, fa_error = None\<rparr>"

definition crdt_update :: "fate \<Rightarrow> ('r \<Rightarrow> 'r) \<Rightarrow> 'r \<Rightarrow> string option \<times> 'r" where
  "crdt_update f upd r = (fa_error f, if fa_done f then upd r else r)"

lemma crdt_update_calm [simp]: "crdt_update calm upd r = (None, upd r)"
  by (simp add: crdt_update_def calm_def)

definition count_at :: "'r crdt_ops \<Rightarrow> 'r \<Rightarrow> string \<Rightarrow> int" where
  "count_at ops r k = (case crdt_value ops k r of Some w \<Rightarrow> w | None \<Rightarrow> 0)"

definition members :: "'r crdt_ops \<Rightarrow> 'r \<Rightarrow> string \<Rightarrow> string list" where
  "members ops r k = (case crdt_elements ops k r of Some xs \<Rightarrow> xs | None \<Rightarrow> [])"

text \<open>A counter counts, a set holds what was added, without repetition, and different keys do not interfere.\<close>

definition replicates :: "'r crdt_ops \<Rightarrow> bool" where
  "replicates ops \<longleftrightarrow>
     (\<forall>k r k'. count_at ops (crdt_increment ops k r) k' = count_at ops r k' + (if k = k' then 1 else 0))
   \<and> (\<forall>k r k'. set (members ops (crdt_increment ops k r) k') = set (members ops r k'))
   \<and> (\<forall>k x r k'. count_at ops (crdt_add ops k x r) k' = count_at ops r k')
   \<and> (\<forall>k x r k'. set (members ops (crdt_add ops k x r) k') = set (members ops r k') \<union> (if k = k' then {x} else {}))
   \<and> (\<forall>r k. distinct (members ops r k))"

lemma replicatesD:
  assumes "replicates ops"
  shows "count_at ops (crdt_increment ops k r) k' = count_at ops r k' + (if k = k' then 1 else 0)"
    and "set (members ops (crdt_increment ops k r) k') = set (members ops r k')"
    and "count_at ops (crdt_add ops k x r) k' = count_at ops r k'"
    and "set (members ops (crdt_add ops k x r) k') = set (members ops r k') \<union> (if k = k' then {x} else {})"
    and "distinct (members ops r k)"
  using assms unfolding replicates_def by blast+

section \<open>Rankings\<close>

definition cut_top :: "('e \<Rightarrow> int) \<Rightarrow> int \<Rightarrow> 'e list \<Rightarrow> 'e list" where
  "cut_top wins n entries =
     (let entries = sort_key (\<lambda>e. - wins e) entries in
      if n > 0 \<and> int (length entries) > n then take (nat n) entries else entries)"

lemma set_cut_top: "set (cut_top wins n es) \<subseteq> set es"
  by (auto simp: cut_top_def Let_def dest: in_set_takeD)

lemma length_cut_top: "length (cut_top wins n es) = (if n > 0 then min (nat n) (length es) else length es)"
  by (auto simp: cut_top_def Let_def)

text \<open>The entries come in descending order, and what is cut off has no more wins than what is kept.\<close>

lemma cut_top_sorted: "sorted_wrt (\<lambda>a b. wins b \<le> wins a) (cut_top wins n es)"
proof -
  have "sorted_wrt (\<lambda>a b. wins b \<le> wins a) (sort_key (\<lambda>e. - wins e) es)"
    using sorted_sort_key [of "\<lambda>e. - wins e" es] by (simp add: sorted_map)
  then show ?thesis by (simp add: cut_top_def Let_def sorted_wrt_take)
qed

lemma cut_top_best:
  assumes "a \<in> set (cut_top wins n es)" and "b \<in> set es" and "b \<notin> set (cut_top wins n es)"
  shows "wins b \<le> wins a"
proof -
  let ?s = "sort_key (\<lambda>e. - wins e) es"
  have sorted: "sorted_wrt (\<lambda>a b. wins b \<le> wins a) (take k ?s @ drop k ?s)" for k
    using sorted_sort_key [of "\<lambda>e. - wins e" es] by (simp add: sorted_map)
  have cut: "cut_top wins n es = take (nat n) ?s"
    using assms(2,3) by (auto simp: cut_top_def Let_def split: if_splits)
  have "b \<in> set ?s" using assms(2) by simp
  then have "b \<in> set (take (nat n) ?s) \<union> set (drop (nat n) ?s)" by (metis append_take_drop_id set_append)
  with assms(3) cut have "b \<in> set (drop (nat n) ?s)" by simp
  with sorted [of "nat n"] assms(1) cut show ?thesis unfolding sorted_wrt_append by simp
qed

lemma distinct_cut_top:
  assumes "distinct (map g es)"
  shows "distinct (map g (cut_top wins n es))"
proof -
  have "mset (map g (sort_key (\<lambda>e. - wins e) es)) = mset (map g es)" by simp
  then have "distinct (map g (sort_key (\<lambda>e. - wins e) es))" using assms mset_eq_imp_distinct_iff by blast
  then show ?thesis by (simp add: cut_top_def Let_def take_map [symmetric])
qed

section \<open>Leaderboards\<close>

text \<open>A list that ranks these winners: each of the best once, with exactly the wins recorded for them.\<close>

definition ranks :: "('e \<Rightarrow> string) \<Rightarrow> ('e \<Rightarrow> int) \<Rightarrow> string list \<Rightarrow> int \<Rightarrow> 'e list \<Rightarrow> bool" where
  "ranks player wins winners n es \<longleftrightarrow>
     (\<forall>e \<in> set es. player e \<in> set winners \<and> wins e = int (count_list winners (player e)))
   \<and> distinct (map player es)
   \<and> sorted_wrt (\<lambda>a b. wins b \<le> wins a) es
   \<and> length es = (let w = card (set winners) in if n > 0 then min (nat n) w else w)
   \<and> (\<forall>p \<in> set winners - player ` set es. \<forall>e \<in> set es. int (count_list winners p) \<le> wins e)"

text \<open>
  \<open>record_win ops w (l, r)\<close> records the win \<open>w\<close> on the board \<open>l\<close> and the store \<open>r\<close> without a fault; \<open>winner w\<close> is the player it
  counts for on this board.
\<close>

locale win_board =
  fixes record_win :: "'r crdt_ops \<Rightarrow> 'w \<Rightarrow> 'l \<times> 'r \<Rightarrow> 'l \<times> 'r"
    and top_list :: "'r crdt_ops \<Rightarrow> int \<Rightarrow> 'l \<Rightarrow> 'r \<Rightarrow> 'e list"
    and counter_key :: "string \<Rightarrow> string"
    and index_key :: string
    and winner :: "'w \<Rightarrow> string option"
    and valid :: "'w \<Rightarrow> bool"
    and entry :: "'l \<Rightarrow> string \<Rightarrow> int \<Rightarrow> 'e"
    and player :: "'e \<Rightarrow> string"
    and wins :: "'e \<Rightarrow> int"
  assumes record_counts: "replicates ops \<Longrightarrow> valid w \<Longrightarrow>
      count_at ops (snd (record_win ops w (l, r))) (counter_key p) =
        count_at ops r (counter_key p) + (if winner w = Some p then 1 else 0)"
    and record_indexes: "replicates ops \<Longrightarrow> valid w \<Longrightarrow>
      set (members ops (snd (record_win ops w (l, r))) index_key) = set (members ops r index_key) \<union> set_option (winner w)"
    and top_reads: "top_list ops n l r = cut_top wins n (map (\<lambda>p. entry l p (count_at ops r (counter_key p))) (members ops r index_key))"
    and entry_shows: "player (entry l p k) = p" "wins (entry l p k) = k"
begin

lemma wins_counted:
  assumes rep: "replicates ops" and "\<forall>w \<in> set ws. valid w"
  shows "count_at ops (snd (fold (record_win ops) ws (l, r))) (counter_key p) =
      count_at ops r (counter_key p) + int (count_list (List.map_filter winner ws) p)
    \<and> set (members ops (snd (fold (record_win ops) ws (l, r))) index_key) =
      set (members ops r index_key) \<union> set (List.map_filter winner ws)"
  using assms(2)
proof (induction ws arbitrary: l r)
  case Nil
  then show ?case by (simp add: List.map_filter_def)
next
  case (Cons w ws)
  obtain l' r' where s: "record_win ops w (l, r) = (l', r')" by fastforce
  show ?case
    using Cons.IH [of l' r'] Cons.prems record_counts [OF rep, of w l r p] record_indexes [OF rep, of w l r]
    by (cases "winner w") (auto simp: s List.map_filter_simps)
qed

lemma top_ranks:
  assumes rep: "replicates ops" and valid: "\<forall>w \<in> set ws. valid w"
    and empty: "members ops r index_key = []" "\<And>k. count_at ops r k = 0"
    and run: "fold (record_win ops) ws (l0, r) = (l, r')"
  shows "ranks player wins (List.map_filter winner ws) n (top_list ops n l r')"
proof -
  let ?ws = "List.map_filter winner ws"
  define ids where "ids = members ops r' index_key"
  define en where "en p = entry l p (count_at ops r' (counter_key p))" for p
  let ?es = "cut_top wins n (map en ids)"
  have ids: "set ids = set ?ws" "distinct ids"
    using wins_counted [OF rep valid, of l0 r] replicatesD(5) [OF rep] empty by (simp_all add: run ids_def)
  have en: "player (en p) = p" "wins (en p) = int (count_list ?ws p)" for p
    using wins_counted [OF rep valid, of l0 r p] empty by (simp_all add: run en_def entry_shows)
  have es: "top_list ops n l r' = ?es" by (simp add: top_reads en_def [abs_def] ids_def)
  have shown: "\<exists>p \<in> set ?ws. e = en p" if "e \<in> set ?es" for e
    using that set_cut_top [of wins n "map en ids"] ids(1) by auto
  have "distinct (map player ?es)"
    by (rule distinct_cut_top) (simp add: ids(2) en(1) comp_def)
  moreover have "length ?es = (let w = card (set ?ws) in if n > 0 then min (nat n) w else w)"
    using distinct_card [OF ids(2)] by (simp add: length_cut_top ids(1) Let_def)
  moreover have "int (count_list ?ws p) \<le> wins e" if p: "p \<in> set ?ws - player ` set ?es" and e: "e \<in> set ?es" for p e
  proof -
    have "en p \<notin> set ?es" using p en(1) by (metis DiffD2 imageI)
    moreover have "en p \<in> set (map en ids)" using p ids(1) by simp
    ultimately show ?thesis using cut_top_best [OF e] en(2) by metis
  qed
  moreover have "\<forall>e \<in> set ?es. player e \<in> set ?ws \<and> wins e = int (count_list ?ws (player e))"
    using shown en by force
  ultimately show ?thesis unfolding ranks_def es using cut_top_sorted by blast
qed

end

section \<open>A store on one node\<close>

definition local_ops :: "((string \<Rightarrow> int) \<times> (string \<Rightarrow> string list)) crdt_ops" where
  "local_ops = \<lparr>crdt_increment = (\<lambda>k (c, s). (c(k := c k + 1), s)),
     crdt_add = (\<lambda>k x (c, s). (c, s(k := List.insert x (s k)))),
     crdt_value = (\<lambda>k (c, s). Some (c k)), crdt_elements = (\<lambda>k (c, s). Some (remdups (s k)))\<rparr>"

lemma local_replicates: "replicates local_ops"
  by (auto simp: replicates_def local_ops_def count_at_def members_def split_def)

lemma local_empty: "members local_ops (\<lambda>_. 0, \<lambda>_. []) k = []" "count_at local_ops (\<lambda>_. 0, \<lambda>_. []) k = 0"
  by (simp_all add: local_ops_def members_def count_at_def)

end
