(* ===== verification/Scrabble_Leaders.thy ===== *)
theory Scrabble_Leaders
  imports Scrabble_Records Replicated
begin

text \<open>
  The Scrabble leaderboard on the replicated store (\<^verbatim>\<open>RecordWin\<close> and \<^verbatim>\<open>Top\<close> of \<^verbatim>\<open>goakt-scrabble/leaderboard.go\<close>): one counter per player
  and language, one index per language. Without a replicator it is the local map of the records theory. It
  interprets the locale \<open>win_board\<close> for each language.
\<close>

section \<open>Recording and reading\<close>

definition ScrLeaderboardKeyPrefix :: string where "ScrLeaderboardKeyPrefix = ''scrabble.wins.''"
definition playerSetKeyPrefix :: string where "playerSetKeyPrefix = ''scrabble.players.''"

definition counterKey :: "string \<Rightarrow> string \<Rightarrow> string" where
  "counterKey lang playerID = ScrLeaderboardKeyPrefix @ lang @ ''.'' @ playerID"

definition indexKey :: "string \<Rightarrow> string" where
  "indexKey lang = playerSetKeyPrefix @ lang"

definition Scr_RecordWin :: "'r crdt_ops option \<Rightarrow> fate \<Rightarrow> fate \<Rightarrow> string \<Rightarrow> string \<Rightarrow> string \<Rightarrow> Leaderboard \<Rightarrow> 'r \<Rightarrow>
    string option \<times> Leaderboard \<times> 'r" where
  "Scr_RecordWin rep f1 f2 lang playerID name l r =
     (case rep of
        None \<Rightarrow> (None, Leaderboard_RecordWin lang playerID name l, r)
      | Some ops \<Rightarrow>
          let l = Leaderboard_RememberName playerID name l in
          (case crdt_update f1 (crdt_increment ops (counterKey lang playerID)) r of
             (Some err, r) \<Rightarrow> (Some (''crdt increment win: '' @ err), l, r)
           | (None, r) \<Rightarrow>
               (case crdt_update f2 (crdt_add ops (indexKey lang) playerID) r of
                  (Some err, r) \<Rightarrow> (Some (''crdt index player: '' @ err), l, r)
                | (None, r) \<Rightarrow> (None, l, r))))"

definition Scr_Top :: "'r crdt_ops option \<Rightarrow> string option \<Rightarrow> (string \<Rightarrow> bool) \<Rightarrow> string list \<Rightarrow> string \<Rightarrow> int \<Rightarrow> Leaderboard \<Rightarrow> 'r \<Rightarrow>
    (string, LeaderboardEntry list) res" where
  "Scr_Top rep set_err fails keys lang n l r =
     (case rep of
        None \<Rightarrow> Ok (topFromFallback keys lang n l)
      | Some ops \<Rightarrow>
          (case set_err of
             Some err \<Rightarrow> Err (''crdt get player set: '' @ err)
           | None \<Rightarrow>
               (case crdt_elements ops (indexKey lang) r of
                  None \<Rightarrow> Ok []
                | Some ids \<Rightarrow>
                    Ok (cut_top LE_Wins n
                      (map (\<lambda>pid. \<lparr>LE_PlayerID = pid, LE_Name = Leaderboard_nameFor l pid,
                          LE_Wins = (case crdt_value ops (counterKey lang pid) r of Some w \<Rightarrow> w | None \<Rightarrow> 0)\<rparr>)
                        (filter (\<lambda>pid. \<not> fails pid) ids))))))"

section \<open>Wins are counted per language\<close>

lemma counterKey_inject:
  assumes "CHR ''.'' \<notin> set a" and "CHR ''.'' \<notin> set b"
  shows "counterKey a p = counterKey b q \<longleftrightarrow> a = b \<and> p = q"
proof
  assume "counterKey a p = counterKey b q"
  then have "a @ CHR ''.'' # p = b @ CHR ''.'' # q" by (simp add: counterKey_def)
  then have "Cut (a @ CHR ''.'' # p) CHR ''.'' = Cut (b @ CHR ''.'' # q) CHR ''.''" by simp
  then show "a = b \<and> p = q" using assms by simp
qed simp

definition scr_win :: "'r crdt_ops \<Rightarrow> string \<times> string \<times> string \<Rightarrow> Leaderboard \<times> 'r \<Rightarrow> Leaderboard \<times> 'r" where
  "scr_win ops w s = (case w of (lang, pid, name) \<Rightarrow>
     snd (Scr_RecordWin (Some ops) calm calm lang pid name (fst s) (snd s)))"

definition scr_entry :: "Leaderboard \<Rightarrow> string \<Rightarrow> int \<Rightarrow> LeaderboardEntry" where
  "scr_entry l pid w = \<lparr>LE_PlayerID = pid, LE_Name = Leaderboard_nameFor l pid, LE_Wins = w\<rparr>"

definition scr_top :: "string \<Rightarrow> 'r crdt_ops \<Rightarrow> int \<Rightarrow> Leaderboard \<Rightarrow> 'r \<Rightarrow> LeaderboardEntry list" where
  "scr_top lang ops n l r =
     cut_top LE_Wins n (map (\<lambda>p. scr_entry l p (count_at ops r (counterKey lang p))) (members ops r (indexKey lang)))"

definition winner_in :: "string \<Rightarrow> string \<times> string \<times> string \<Rightarrow> string option" where
  "winner_in lang w = (if fst w = lang then Some (fst (snd w)) else None)"

lemma Scr_Top_eq: "Scr_Top (Some ops) None (\<lambda>_. False) keys lang n l r = Ok (scr_top lang ops n l r)"
  by (auto simp: Scr_Top_def scr_top_def scr_entry_def members_def count_at_def cut_top_def split: option.split)

interpretation scr_board: win_board scr_win "scr_top lang" "counterKey lang" "indexKey lang" "winner_in lang"
  "\<lambda>w. CHR ''.'' \<notin> set (fst w) \<and> CHR ''.'' \<notin> set lang" scr_entry LE_PlayerID LE_Wins for lang
proof
  fix ops :: "'r crdt_ops" and w :: "string \<times> string \<times> string" and l r p
  assume rep: "replicates ops" and dots: "CHR ''.'' \<notin> set (fst w) \<and> CHR ''.'' \<notin> set lang"
  obtain lang' pid name where w: "w = (lang', pid, name)" by (rule prod_cases3)
  show "count_at ops (snd (scr_win ops w (l, r))) (counterKey lang p) =
      count_at ops r (counterKey lang p) + (if winner_in lang w = Some p then 1 else 0)"
    using counterKey_inject [of lang' lang pid p] dots
    by (auto simp: w scr_win_def Scr_RecordWin_def Let_def replicatesD [OF rep] winner_in_def)
  show "set (members ops (snd (scr_win ops w (l, r))) (indexKey lang)) =
      set (members ops r (indexKey lang)) \<union> set_option (winner_in lang w)"
    by (auto simp: w scr_win_def Scr_RecordWin_def Let_def replicatesD [OF rep] winner_in_def indexKey_def)
qed (simp_all add: scr_top_def scr_entry_def)

text \<open>
  The top list of a language shows the wins recorded for that language, whatever was recorded for the
  others in between, as long as no language code has a dot in it.
\<close>
theorem scrabble_top_shows_wins:
  assumes rep: "replicates ops" and empty: "members ops r (indexKey lang) = []" "\<And>k. count_at ops r k = 0"
    and codes: "CHR ''.'' \<notin> set lang" "\<forall>w \<in> set ws. CHR ''.'' \<notin> set (fst w)"
    and run: "fold (scr_win ops) ws (NewLeaderboard, r) = (l, r')"
  shows "\<exists>es. Scr_Top (Some ops) None (\<lambda>_. False) keys lang n l r' = Ok es
    \<and> ranks LE_PlayerID LE_Wins (List.map_filter (winner_in lang) ws) n es"
  using scr_board.top_ranks [OF rep _ empty run, of n] codes by (simp add: Scr_Top_eq)

end
