(* ===== verification/Ws_Gateway.thy ===== *)
theory Ws_Gateway
  imports Room_Codes
begin

text \<open>
  What the gateways of the Scrabble and the Pictograph example share: how the parameters of a web-socket request
  are read, and the interface \<open>session_bridge\<close> between a connection and its room.
\<close>

section \<open>The parameters of a request\<close>

text \<open>\<open>uuid\<close> is a fresh identifier; a parameter that is not given is empty.\<close>

definition shortID :: "string \<Rightarrow> string" where
  "shortID uuid = take 6 uuid"

definition ws_name :: "string \<Rightarrow> string \<Rightarrow> string" where
  "ws_name uuid q = (let name = TrimSpace q in if name = [] then ''Player-'' @ shortID uuid else name)"

definition ws_playerID :: "string \<Rightarrow> string \<Rightarrow> string" where
  "ws_playerID uuid q = (let i = TrimSpace q in if i = [] then uuid else i)"

definition ws_room :: "string \<Rightarrow> string" where
  "ws_room q = ToUpper (TrimSpace q)"

lemma ws_name_nonempty: "ws_name uuid q \<noteq> []"
  by (simp add: ws_name_def Let_def)

text \<open>A room code is read as it was handed out, in any case and with spaces around it.\<close>

lemma ws_room_idem [simp]: "ToUpper (TrimSpace (ws_room q)) = ws_room q"
  by (simp add: ws_room_def TrimSpace_ToUpper TrimSpace_idem)

section \<open>From a connection to a room\<close>

text \<open>
  A session is started, is given the inputs of its connection and is closed; \<open>told\<close> is what it sends to the room
  for each message.
\<close>

locale session_bridge =
  fixes start closing :: 'm
    and input :: "'i \<Rightarrow> 'm"
    and told :: "'m \<Rightarrow> 'r list"
    and hello :: 'r
    and play :: "'i \<Rightarrow> 'r"
  assumes told_start: "told start = [hello]"
    and told_input: "told (input i) = [play i]"
    and told_closing: "told closing = []"
begin

lemma told_connection: "concat (map told (start # map input is @ [closing])) = hello # map play is"
  by (induction "is") (simp_all add: told_start told_input told_closing)

end

end
