(* ===== verification/Scrabble_Gateway.thy ===== *)
theory Scrabble_Gateway
  imports Scrabble_Lobby Scrabble_Session Scrabble_Leaders Ws_Gateway
begin

text \<open>
  The gateway of the Scrabble example (\<^verbatim>\<open>goakt-scrabble/gateway.go\<close>): the request for a room and the handler of a
  web socket, from the parameters of the request to the end of the connection. What the actor system finds,
  whether it spawns the session, and the frames that are read are arguments.
\<close>

section \<open>The request for a room\<close>

datatype ws_error =
    LocateLobby string
  | LobbyAsk string
  | UnexpectedReply
  | LobbyRefused lobby_error
  | RoomNotResolved string "string option"
  | RequestCancelled

text \<open>\<open>reply\<close> is the error of the request to the lobby, or its reply, \<open>None\<close> for a reply of another type.\<close>

definition scr_requestRoom :: "string option \<Rightarrow> string + JoinOrCreateResult option \<Rightarrow> (string \<Rightarrow> lookup) \<Rightarrow> (nat \<Rightarrow> nat) \<Rightarrow>
    (nat \<Rightarrow> bool) \<Rightarrow> int \<Rightarrow> ws_error + string \<times> string" where
  "scr_requestRoom lobby_err reply lookup lag cancelled t =
     (case lobby_err of
        Some e \<Rightarrow> Inl (LocateLobby e)
      | None \<Rightarrow>
          (case reply of
             Inl e \<Rightarrow> Inl (LobbyAsk e)
           | Inr None \<Rightarrow> Inl UnexpectedReply
           | Inr (Some (JoinErr e)) \<Rightarrow> Inl (LobbyRefused e)
           | Inr (Some (Joined rc name)) \<Rightarrow>
               (case fst (resolveRoom (lookup name) lag cancelled t) of
                  Resolved room \<Rightarrow> Inr (room, rc)
                | ResolveTimeout e \<Rightarrow> Inl (RoomNotResolved name e)
                | ResolveCancelled \<Rightarrow> Inl RequestCancelled)))"

section \<open>The handler\<close>

definition defaultLanguageCode :: string where "defaultLanguageCode = ''en''"
definition SessionActorPrefix :: string where "SessionActorPrefix = ''session.''"

record ws_query =
  q_name :: string
  q_id :: string
  q_lang :: string
  q_room :: string

definition ws_language :: "string \<Rightarrow> string" where
  "ws_language q = (let l = ToLower (TrimSpace q) in if l = [] then defaultLanguageCode else l)"

definition ws_join :: "string \<Rightarrow> string \<Rightarrow> ws_query \<Rightarrow> JoinOrCreate" where
  "ws_join uuid1 uuid2 q =
     \<lparr>JC_Room = ws_room (q_room q), JC_Language = ws_language (q_lang q),
      JC_PlayerID = ws_playerID uuid2 (q_id q), JC_PlayerName = ws_name uuid1 (q_name q)\<rparr>"

definition scr_ws_session :: "string \<Rightarrow> string \<Rightarrow> JoinOrCreate \<Rightarrow> string \<Rightarrow> PlayerSession" where
  "scr_ws_session sessionName room msg rc =
     \<lparr>sess_self = sessionName, sess_room = room, sess_playerID = JC_PlayerID msg, sess_name = JC_PlayerName msg,
      sess_roomCode = rc, sess_topicName = RoomTopicPrefix @ rc\<rparr>"

text \<open>What the handler does, in order.\<close>

datatype ws_effect =
    WsClose string
  | WsRemember string string
  | WsSpawn PlayerSession
  | WsTellSession session_msg
  | WsTellRoom string room_msg

text \<open>
  A frame is \<open>Inl\<close> when it does not parse. The reading ends when the connection does, or when the server drains;
  \<open>frames\<close> are the frames read until then.
\<close>

definition ws_input :: "string \<Rightarrow> string + WSIn \<Rightarrow> ws_effect list" where
  "ws_input playerID f = (case f of Inl _ \<Rightarrow> [] | Inr inp \<Rightarrow> [WsTellSession (SessInput playerID inp)])"

definition ws_teardown :: "PlayerSession \<Rightarrow> ws_effect list" where
  "ws_teardown s = [WsTellRoom (sess_room s) (GoodbyePlayer (sess_self s)), WsTellSession Closed, WsClose []]"

definition scr_wsHandler :: "bool \<Rightarrow> (JoinOrCreate \<Rightarrow> ws_error + string \<times> string) \<Rightarrow> string option \<Rightarrow> string \<Rightarrow> string \<Rightarrow> string \<Rightarrow>
    ws_query \<Rightarrow> (string + WSIn) list \<Rightarrow> ws_effect list" where
  "scr_wsHandler upgraded request spawn_err uuid1 uuid2 uuid3 q frames =
     (if \<not> upgraded then []
      else
        let msg = ws_join uuid1 uuid2 q in
        case request msg of
          Inl _ \<Rightarrow> [WsClose ''lobby unavailable'']
        | Inr (room, rc) \<Rightarrow>
            WsRemember (JC_PlayerID msg) (JC_PlayerName msg) #
            (let s = scr_ws_session (SessionActorPrefix @ uuid3) room msg rc in
             case spawn_err of
               Some _ \<Rightarrow> [WsClose ''session spawn failed'']
             | None \<Rightarrow> WsSpawn s # concat (map (ws_input (JC_PlayerID msg)) frames) @ ws_teardown s))"

section \<open>A connection speaks for its player\<close>

text \<open>What a session gets from the gateway and from its start, and what it tells the room.\<close>

definition ws_mail :: "ws_effect list \<Rightarrow> session_msg list" where
  "ws_mail es = SessPostStart # List.map_filter (\<lambda>e. case e of WsTellSession m \<Rightarrow> Some m | _ \<Rightarrow> None) es"

definition told_room :: "bool \<Rightarrow> PlayerSession \<Rightarrow> session_msg \<Rightarrow> room_msg list" where
  "told_room ta s m =
     List.map_filter (\<lambda>e. case e of TellRoom _ r \<Rightarrow> Some r | _ \<Rightarrow> None) (Session_Receive ta True s m)"

definition decoded :: "(string + WSIn) list \<Rightarrow> WSIn list" where
  "decoded frames = List.map_filter (\<lambda>f. case f of Inl _ \<Rightarrow> None | Inr inp \<Rightarrow> Some inp) frames"

interpretation scr_bridge: session_bridge SessPostStart Closed "SessInput (sess_playerID s)" "told_room ta s"
  "PlayerHello (sess_playerID s) (sess_name s) (sess_self s)" "PlayerInput (sess_playerID s)" for ta s
  by unfold_locales (simp_all add: told_room_def Session_Receive_def List.map_filter_def)

lemma mail_of_inputs:
  "List.map_filter (\<lambda>e. case e of WsTellSession m \<Rightarrow> Some m | _ \<Rightarrow> None) (concat (map (ws_input i) frames)) =
   map (SessInput i) (decoded frames)"
  by (induction frames) (auto simp: ws_input_def decoded_def List.map_filter_def split: sum.split)

lemma map_filter_append: "List.map_filter f (xs @ ys) = List.map_filter f xs @ List.map_filter f ys"
  by (simp add: List.map_filter_def)

text \<open>
  Whatever frames a client sends, its session announces it under one name, passes on each input that parses under
  the player's own identity and in order, and nothing else; the gateway says goodbye to the room it was in under
  the name of that session.
\<close>

lemma connection_speaks_for_player:
  assumes "request (ws_join uuid1 uuid2 q) = Inr (room, rc)"
    and es_def: "es = scr_wsHandler True request None uuid1 uuid2 uuid3 q frames"
    and me_def: "me = ws_playerID uuid2 (q_id q)" and session_def: "session = SessionActorPrefix @ uuid3"
  shows "\<exists>s. WsSpawn s \<in> set es \<and> sess_topicName s = RoomTopicPrefix @ rc \<and>
    concat (map (told_room ta s) (ws_mail es)) =
      PlayerHello me (ws_name uuid1 (q_name q)) session # map (PlayerInput me) (decoded frames) \<and>
    filter (\<lambda>e. case e of WsTellRoom _ _ \<Rightarrow> True | _ \<Rightarrow> False) es = [WsTellRoom room (GoodbyePlayer session)]"
proof -
  define s where "s = scr_ws_session session room (ws_join uuid1 uuid2 q) rc"
  have es: "es = WsRemember me (ws_name uuid1 (q_name q)) # WsSpawn s # concat (map (ws_input me) frames) @ ws_teardown s"
    using assms(1) by (simp add: es_def scr_wsHandler_def s_def session_def me_def ws_join_def Let_def)
  have s: "sess_playerID s = me" "sess_name s = ws_name uuid1 (q_name q)" "sess_self s = session" "sess_room s = room"
      "sess_topicName s = RoomTopicPrefix @ rc"
    by (simp_all add: s_def scr_ws_session_def ws_join_def me_def)
  have "ws_mail es = SessPostStart # map (SessInput me) (decoded frames) @ [Closed]"
    by (simp add: ws_mail_def es map_filter_append mail_of_inputs ws_teardown_def)
  then have told: "concat (map (told_room ta s) (ws_mail es)) =
      PlayerHello me (ws_name uuid1 (q_name q)) session # map (PlayerInput me) (decoded frames)"
    using scr_bridge.told_connection [of ta s "decoded frames"] s by simp
  have "filter (\<lambda>e. case e of WsTellRoom _ _ \<Rightarrow> True | _ \<Rightarrow> False) (concat (map (ws_input me) frames)) = []"
    by (induction frames) (auto simp: ws_input_def split: sum.split)
  then have "filter (\<lambda>e. case e of WsTellRoom _ _ \<Rightarrow> True | _ \<Rightarrow> False) es = [WsTellRoom room (GoodbyePlayer session)]"
    by (simp add: es ws_teardown_def s)
  moreover have "WsSpawn s \<in> set es" by (simp add: es)
  ultimately show ?thesis using told s(5) by blast
qed

text \<open>Somebody who asks for a room that is open is given that room, whatever language is asked for besides.\<close>

lemma open_room_joined:
  assumes "rooms rc = Some name" and "ws_room (q_room q) = rc" and "rc \<noteq> []"
    and "ws_language (q_lang q) \<in> Registry_Codes registry"
  shows "handleJoinOrCreate (Some registry) spawn g (ws_join uuid1 uuid2 q) rooms = (Joined rc name, rooms)"
proof -
  have "ToLower (TrimSpace ''en'') = ''en''" by code_simp
  then have "ToLower (TrimSpace (ws_language (q_lang q))) = ws_language (q_lang q)"
    by (simp add: ws_language_def Let_def TrimSpace_ToLower TrimSpace_idem defaultLanguageCode_def)
  then show ?thesis using assms ws_room_idem [of "q_room q"] by (simp add: handleJoinOrCreate_def ws_join_def Let_def)
qed

end
