(* ===== verification/Bank.thy ===== *)
theory Bank
  imports Actor "HOL-Library.Monad_Syntax"
begin

text \<open>
  What the two money-transfer services share (\<^verbatim>\<open>goakt-2pc\<close> and \<^verbatim>\<open>goakt-saga\<close>): accounts, transfers,
  the tables of the store, and the request-reply primitive through which a coordinator talks to an
  account actor. Amounts are \<^verbatim>\<open>float64\<close> in Go; here they are integers, which \<^verbatim>\<open>float64\<close> represents
  exactly below \<open>2 ^ 53\<close>. A time is an integer, the zero time is \<open>0\<close>.

  \<^verbatim>\<open>Ask\<close> can fail in two ways the caller cannot tell apart: the request never reached the actor, or it
  was processed and the reply got lost. Which one happens at which request is an argument of the
  coordinators.

  The locale \<open>atomic_transfers\<close> is the contract both services are meant to meet; what it gives (money
  is conserved, no overdraft) is proved once.
\<close>

section \<open>Accounts and transfers\<close>

record Account =
  accountID :: string
  balance :: int
  createdAt :: int

definition zeroTime :: int where "zeroTime = 0"

definition NewAccount :: "string \<Rightarrow> int \<Rightarrow> int \<Rightarrow> Account" where
  "NewAccount actorID b t = \<lparr>accountID = actorID, balance = b, createdAt = t\<rparr>"

definition SetBalance :: "int \<Rightarrow> Account \<Rightarrow> Account" where
  "SetBalance b a = a\<lparr>balance := b\<rparr>"

definition SetCreatedAt :: "int \<Rightarrow> Account \<Rightarrow> Account" where
  "SetCreatedAt t a = a\<lparr>createdAt := t\<rparr>"

record Transfer =
  tr_transferID :: string
  tr_from :: string
  tr_to :: string
  tr_amount :: int
  tr_status :: string
  tr_reason :: string
  tr_createdAt :: int
  tr_updatedAt :: int

definition SetStatus :: "int \<Rightarrow> string \<Rightarrow> Transfer \<Rightarrow> Transfer" where
  "SetStatus t s tr = tr\<lparr>tr_status := s, tr_updatedAt := t\<rparr>"

definition SetReason :: "string \<Rightarrow> Transfer \<Rightarrow> Transfer" where
  "SetReason s tr = tr\<lparr>tr_reason := s\<rparr>"

section \<open>The store\<close>

text \<open>The tables \<open>accounts\<close> and \<open>transfers\<close>, with the upsert clauses of the two writes.\<close>

type_synonym account_rows = "string \<rightharpoonup> int \<times> int"
type_synonym transfer_rows = "string \<rightharpoonup> Transfer"

definition WriteAccountState :: "string \<Rightarrow> Account \<Rightarrow> account_rows \<Rightarrow> account_rows" where
  "WriteAccountState actorID st rows =
     rows(actorID \<mapsto> (balance st, case rows actorID of Some (_, t) \<Rightarrow> t | None \<Rightarrow> createdAt st))"

definition GetAccountState :: "string \<Rightarrow> account_rows \<Rightarrow> Account" where
  "GetAccountState actorID rows =
     (case rows actorID of
        None \<Rightarrow> NewAccount actorID 0 zeroTime
      | Some (b, t) \<Rightarrow> NewAccount actorID b t)"

definition WriteTransferState :: "string \<Rightarrow> Transfer \<Rightarrow> transfer_rows \<Rightarrow> transfer_rows" where
  "WriteTransferState transferID st rows =
     rows(tr_transferID st \<mapsto>
       (case rows (tr_transferID st) of
          None \<Rightarrow> st
        | Some old \<Rightarrow> old\<lparr>tr_status := tr_status st, tr_reason := tr_reason st,
                          tr_updatedAt := tr_updatedAt st\<rparr>))"

definition GetTransferState :: "string \<Rightarrow> transfer_rows \<Rightarrow> Transfer option" where
  "GetTransferState transferID rows = rows transferID"

lemma stored_account [simp]:
  "balance (GetAccountState i (WriteAccountState i st rows)) = balance st"
  "accountID (GetAccountState i rows) = i"
  by (simp_all add: GetAccountState_def WriteAccountState_def NewAccount_def split: option.splits prod.splits)

section \<open>Requests\<close>

datatype net = Delivered | Lost string | ReplyLost string

definition ask :: "('m \<Rightarrow> 'e \<Rightarrow> 'r \<times> 'e) \<Rightarrow> net \<Rightarrow> string \<Rightarrow> 'm \<Rightarrow> (string \<rightharpoonup> 'e) \<Rightarrow>
    (string + 'r) \<times> (string \<rightharpoonup> 'e)" where
  "ask receive n pid msg actors =
     (case actors pid of
        None \<Rightarrow> (Inl ''dead actor'', actors)
      | Some e \<Rightarrow>
          (let (reply, e') = receive msg e in
           case n of
             Delivered \<Rightarrow> (Inr reply, actors(pid \<mapsto> e'))
           | Lost err \<Rightarrow> (Inl err, actors)
           | ReplyLost err \<Rightarrow> (Inl err, actors(pid \<mapsto> e'))))"

text \<open>
  \<open>getOrSpawnAccount\<close>: an actor that is not found is spawned, which loads its state from the store
  (\<open>PreStart\<close>); spawning may fail.
\<close>

definition getOrSpawn :: "('e \<Rightarrow> 'e) \<Rightarrow> (string \<Rightarrow> 'e) \<Rightarrow> string option \<Rightarrow> string \<Rightarrow> (string \<rightharpoonup> 'e) \<Rightarrow>
    (string + string) \<times> (string \<rightharpoonup> 'e)" where
  "getOrSpawn postStart preStart spawn_err pid actors =
     (case actors pid of
        Some _ \<Rightarrow> (Inr pid, actors)
      | None \<Rightarrow>
          (case spawn_err of
             Some e \<Rightarrow> (Inl e, actors)
           | None \<Rightarrow> (Inr pid, actors(pid \<mapsto> postStart (preStart pid)))))"

section \<open>The contract of a transfer service\<close>

locale atomic_transfers =
  fixes run :: "'req \<Rightarrow> 'bank \<Rightarrow> bool \<times> 'bank"
    and bal :: "'bank \<Rightarrow> string \<Rightarrow> int"
    and src dst :: "'req \<Rightarrow> string"
    and amt :: "'req \<Rightarrow> int"
    and valid :: "'bank \<Rightarrow> 'req \<Rightarrow> bool"
  assumes apart: "valid b q \<Longrightarrow> src q \<noteq> dst q \<and> 0 < amt q"
    and completed: "valid b q \<Longrightarrow> run q b = (True, b') \<Longrightarrow>
        amt q \<le> bal b (src q) \<and>
        bal b' = (bal b)(src q := bal b (src q) - amt q, dst q := bal b (dst q) + amt q)"
    and failed: "valid b q \<Longrightarrow> run q b = (False, b') \<Longrightarrow> bal b' = bal b"
begin

lemma transfer_conserves:
  assumes v: "valid b q" and A: "finite A" "src q \<in> A" "dst q \<in> A"
  shows "(\<Sum>a\<in>A. bal (snd (run q b)) a) = (\<Sum>a\<in>A. bal b a)"
proof -
  obtain d b' where r: "run q b = (d, b')" by fastforce
  show ?thesis
  proof (cases d)
    case True
    let ?s = "src q" and ?t = "dst q"
    have b': "bal b' = (bal b)(?s := bal b ?s - amt q, ?t := bal b ?t + amt q)"
      using completed [OF v] r True by simp
    have ne: "?t \<noteq> ?s" using apart [OF v] by auto
    have "(\<Sum>a\<in>A. f a) = f ?s + (f ?t + (\<Sum>a\<in>A - {?s} - {?t}. f a))" for f :: "string \<Rightarrow> int"
      using A ne by (simp add: sum.remove [of A ?s f] sum.remove [of "A - {?s}" ?t f])
    moreover have "(\<Sum>a\<in>A - {?s} - {?t}. bal b' a) = (\<Sum>a\<in>A - {?s} - {?t}. bal b a)"
      by (rule sum.cong) (auto simp: b')
    moreover have "bal b' ?s + bal b' ?t = bal b ?s + bal b ?t" using ne by (simp add: b')
    ultimately show ?thesis using r by simp
  next
    case False
    then show ?thesis using failed [OF v] r by simp
  qed
qed

lemma transfer_nonneg:
  assumes v: "valid b q" and "\<forall>a. 0 \<le> bal b a"
  shows "0 \<le> bal (snd (run q b)) a"
proof -
  obtain d b' where r: "run q b = (d, b')" by fastforce
  show ?thesis
  proof (cases d)
    case True
    then show ?thesis
      using completed [OF v, of b'] apart [OF v] r assms(2) by (auto intro: add_nonneg_nonneg)
  next
    case False
    then show ?thesis using failed [OF v] r assms(2) by simp
  qed
qed

lemma transfers_conserve:
  assumes "accepted (\<lambda>q b. Some (snd (run q b))) valid qs b"
    and "finite A" "\<forall>q \<in> set qs. src q \<in> A \<and> dst q \<in> A"
  shows "(\<Sum>a\<in>A. bal (fold (\<lambda>q b. snd (run q b)) qs b) a) = (\<Sum>a\<in>A. bal b a)"
  using assms(1,3)
proof (induction qs arbitrary: b)
  case (Cons q qs)
  then show ?case using transfer_conserves [of b q A] assms(2) by simp
qed simp

lemma transfers_nonneg:
  assumes "accepted (\<lambda>q b. Some (snd (run q b))) valid qs b" and "\<forall>a. 0 \<le> bal b a"
  shows "0 \<le> bal (fold (\<lambda>q b. snd (run q b)) qs b) a"
  using assms
proof (induction qs arbitrary: b)
  case (Cons q qs)
  then show ?case using transfer_nonneg [of b q] by simp
qed simp

end

end
