(* ===== verification/TwoPC.thy ===== *)
theory TwoPC
  imports Bank
begin

text \<open>
  The two-phase commit service (\<^verbatim>\<open>goakt-2pc\<close>): the account actor, the coordinator actor (one per
  transfer) and the HTTP handler that starts it. A coordinator's run is one function of the bank it
  finds, of the faults that strike it and of the request; runs of several coordinators can interleave
  at the accounts, which is looked at on the sequences of messages an account receives.
\<close>

section \<open>The account actor\<close>

record preparedTransfer =
  pt_transferID :: string
  pt_amount :: int
  pt_isDebit :: bool

record AccountEntity =
  ae_state :: Account
  ae_prepared :: "string \<rightharpoonup> preparedTransfer"

datatype account_msg =
    AccPostStart
  | CreateAccount string int
  | PrepareTransfer string string int bool
  | CommitTransfer string
  | AbortTransfer string
  | GetAccount string
  | CreditAccount string int
  | AccOther

datatype account_reply =
    AccountReply string int
  | VoteYes string string
  | VoteNo string string string
  | AccNoReply
  | AccUnhandled

definition AccountEntity_PreStart :: "account_rows \<Rightarrow> string \<Rightarrow> AccountEntity" where
  "AccountEntity_PreStart rows actorName =
     \<lparr>ae_state = GetAccountState actorName rows, ae_prepared = Map.empty\<rparr>"

definition AccountEntity_PostStop :: "AccountEntity \<Rightarrow> account_rows \<Rightarrow> account_rows" where
  "AccountEntity_PostStop x rows = WriteAccountState (accountID (ae_state x)) (ae_state x) rows"

definition handlePrepareTransfer ::
  "string \<Rightarrow> int \<Rightarrow> bool \<Rightarrow> AccountEntity \<Rightarrow> account_reply \<times> AccountEntity" where
  "handlePrepareTransfer tid amount isDebit x =
     (let st = ae_state x in
      if ae_prepared x tid \<noteq> None then (VoteYes tid (accountID st), x)
      else if isDebit \<and> balance st < amount
      then (VoteNo tid (accountID st) ''insufficient funds'', x)
      else (VoteYes tid (accountID st),
            x\<lparr>ae_prepared := (ae_prepared x)(tid \<mapsto>
                \<lparr>pt_transferID = tid, pt_amount = amount, pt_isDebit = isDebit\<rparr>)\<rparr>))"

definition handleCommitTransfer :: "string \<Rightarrow> AccountEntity \<Rightarrow> account_reply \<times> AccountEntity" where
  "handleCommitTransfer tid x =
     (case ae_prepared x tid of
        None \<Rightarrow> (AccountReply (accountID (ae_state x)) (balance (ae_state x)), x)
      | Some p \<Rightarrow>
          let st = ae_state x;
              st = (if pt_isDebit p then SetBalance (balance st - pt_amount p) st
                    else SetBalance (balance st + pt_amount p) st) in
          (AccountReply (accountID st) (balance st),
           x\<lparr>ae_state := st, ae_prepared := (ae_prepared x)(tid := None)\<rparr>))"

definition handleAbortTransfer :: "string \<Rightarrow> AccountEntity \<Rightarrow> account_reply \<times> AccountEntity" where
  "handleAbortTransfer tid x =
     (let x = (if ae_prepared x tid \<noteq> None then x\<lparr>ae_prepared := (ae_prepared x)(tid := None)\<rparr> else x) in
      (AccountReply (accountID (ae_state x)) (balance (ae_state x)), x))"

definition Account_Receive :: "int \<Rightarrow> account_msg \<Rightarrow> AccountEntity \<Rightarrow> account_reply \<times> AccountEntity" where
  "Account_Receive t msg x =
     (let st = ae_state x in
      case msg of
        AccPostStart \<Rightarrow>
          (AccNoReply,
           if st = \<lparr>accountID = [], balance = 0, createdAt = zeroTime\<rparr>
           then x\<lparr>ae_state := SetBalance 0 (SetCreatedAt zeroTime st)\<rparr> else x)
      | CreateAccount aid b \<Rightarrow>
          (if createdAt st \<noteq> zeroTime then (AccountReply (accountID st) (balance st), x)
           else (AccountReply aid b, x\<lparr>ae_state := SetCreatedAt t (SetBalance b st)\<rparr>))
      | PrepareTransfer tid aid amount isDebit \<Rightarrow> handlePrepareTransfer tid amount isDebit x
      | CommitTransfer tid \<Rightarrow> handleCommitTransfer tid x
      | AbortTransfer tid \<Rightarrow> handleAbortTransfer tid x
      | GetAccount aid \<Rightarrow> (AccountReply aid (balance st), x)
      | _ \<Rightarrow> (AccUnhandled, x))"

section \<open>The coordinator\<close>

record Bank =
  live :: "string \<rightharpoonup> AccountEntity"
  rows :: account_rows
  transfers :: transfer_rows

record StartTransfer =
  ST_TransferID :: string
  ST_From :: string
  ST_To :: string
  ST_Amount :: int

datatype transfer_reply = TransferCompleted string | TransferFailed string string

text \<open>What can go wrong in one run: the writes and the read of the store, spawning, the requests.\<close>

record TransferEnv =
  te_now :: int
  write_err :: "nat \<Rightarrow> string option"
  read_fails :: bool
  spawn_err :: "string \<Rightarrow> string option"
  te_net :: "nat \<Rightarrow> net"

definition TransferStatusPreparing :: string where "TransferStatusPreparing = ''preparing''"
definition TransferStatusPrepared :: string where "TransferStatusPrepared = ''prepared''"
definition TransferStatusCommitted :: string where "TransferStatusCommitted = ''committed''"
definition TransferStatusAborted :: string where "TransferStatusAborted = ''aborted''"

definition NewTransfer :: "int \<Rightarrow> string \<Rightarrow> string \<Rightarrow> string \<Rightarrow> int \<Rightarrow> Transfer" where
  "NewTransfer t tid from to amount =
     \<lparr>tr_transferID = tid, tr_from = from, tr_to = to, tr_amount = amount,
      tr_status = TransferStatusPreparing, tr_reason = [], tr_createdAt = t, tr_updatedAt = t\<rparr>"

definition write_transfer :: "TransferEnv \<Rightarrow> nat \<Rightarrow> string \<Rightarrow> Transfer \<Rightarrow> Bank \<Rightarrow> string option \<times> Bank" where
  "write_transfer env k tid tr b =
     (case write_err env k of
        Some e \<Rightarrow> (Some e, b)
      | None \<Rightarrow> (None, b\<lparr>transfers := WriteTransferState tid tr (transfers b)\<rparr>))"

definition getOrSpawnAccount :: "TransferEnv \<Rightarrow> string \<Rightarrow> Bank \<Rightarrow> (string + string) \<times> Bank" where
  "getOrSpawnAccount env aid b =
     (let (res, actors) = getOrSpawn (\<lambda>x. snd (Account_Receive (te_now env) AccPostStart x))
            (AccountEntity_PreStart (rows b)) (spawn_err env aid) aid (live b)
      in (res, b\<lparr>live := actors\<rparr>))"

definition ask_account :: "TransferEnv \<Rightarrow> nat \<Rightarrow> string \<Rightarrow> account_msg \<Rightarrow> Bank \<Rightarrow> (string + account_reply) \<times> Bank" where
  "ask_account env k pid msg b =
     (let (res, actors) = ask (Account_Receive (te_now env)) (te_net env k) pid msg (live b)
      in (res, b\<lparr>live := actors\<rparr>))"

definition abortTransfer :: "TransferEnv \<Rightarrow> string \<Rightarrow> string \<Rightarrow> Bank \<Rightarrow> transfer_reply \<times> Bank" where
  "abortTransfer env tid reason b =
     (case (if read_fails env then None else GetTransferState tid (transfers b)) of
        None \<Rightarrow> (TransferFailed tid reason, b)
      | Some tr \<Rightarrow>
          let tr = SetReason reason (SetStatus (te_now env) TransferStatusAborted tr) in
          (TransferFailed tid reason, snd (write_transfer env 3 tid tr b)))"

definition commit_phase :: "TransferEnv \<Rightarrow> StartTransfer \<Rightarrow> Transfer \<Rightarrow> string \<Rightarrow> string \<Rightarrow> Bank \<Rightarrow> transfer_reply \<times> Bank" where
  "commit_phase env msg transfer fromPid toPid b =
     (let tid = ST_TransferID msg;
          b = snd (ask_account env 2 fromPid (CommitTransfer tid) b);
          b = snd (ask_account env 3 toPid (CommitTransfer tid) b);
          transfer = SetStatus (te_now env) TransferStatusCommitted transfer;
          b = snd (write_transfer env 2 tid transfer b) in
      (TransferCompleted tid, b))"

definition prepare_phase :: "TransferEnv \<Rightarrow> StartTransfer \<Rightarrow> Transfer \<Rightarrow> string \<Rightarrow> string \<Rightarrow> Bank \<Rightarrow> transfer_reply \<times> Bank" where
  "prepare_phase env msg transfer fromPid toPid b =
     (let tid = ST_TransferID msg;
          (fromReply, b) = ask_account env 0 fromPid (PrepareTransfer tid (ST_From msg) (ST_Amount msg) True) b in
      case fromReply of
        Inl e \<Rightarrow> abortTransfer env tid (''prepare failed for source account: '' @ e) b
      | Inr (VoteNo _ _ reason) \<Rightarrow> abortTransfer env tid (''source account voted NO: '' @ reason) b
      | Inr _ \<Rightarrow>
          let (toReply, b) = ask_account env 1 toPid (PrepareTransfer tid (ST_To msg) (ST_Amount msg) False) b in
          case toReply of
            Inl e \<Rightarrow> abortTransfer env tid (''prepare failed for destination account: '' @ e) b
          | Inr (VoteNo _ _ reason) \<Rightarrow> abortTransfer env tid (''destination account voted NO: '' @ reason) b
          | Inr _ \<Rightarrow> commit_phase env msg transfer fromPid toPid b)"

definition handleStartTransfer :: "TransferEnv \<Rightarrow> StartTransfer \<Rightarrow> Bank \<Rightarrow> transfer_reply \<times> Bank" where
  "handleStartTransfer env msg b =
     (let tid = ST_TransferID msg;
          transfer = NewTransfer (te_now env) tid (ST_From msg) (ST_To msg) (ST_Amount msg);
          (err, b) = write_transfer env 0 tid transfer b in
      case err of
        Some e \<Rightarrow> (TransferFailed tid e, b)
      | None \<Rightarrow>
          let (fromPid, b) = getOrSpawnAccount env (ST_From msg) b in
          case fromPid of
            Inl e \<Rightarrow> abortTransfer env tid (''failed to get from account: '' @ e) b
          | Inr fromPid \<Rightarrow>
              let (toPid, b) = getOrSpawnAccount env (ST_To msg) b in
              case toPid of
                Inl e \<Rightarrow> abortTransfer env tid (''failed to get to account: '' @ e) b
              | Inr toPid \<Rightarrow>
                  let transfer = SetStatus (te_now env) TransferStatusPrepared transfer;
                      (err, b) = write_transfer env 1 tid transfer b in
                  case err of
                    Some e \<Rightarrow> abortTransfer env tid (''failed to persist prepared state: '' @ e) b
                  | None \<Rightarrow> prepare_phase env msg transfer fromPid toPid b)"

datatype transfer_status = TransferStatusReply string string string

definition handleGetTransferStatus :: "string option \<Rightarrow> string \<Rightarrow> Bank \<Rightarrow> transfer_status" where
  "handleGetTransferStatus read_err tid b =
     (case read_err of
        Some e \<Rightarrow> TransferStatusReply tid ''unknown'' e
      | None \<Rightarrow>
          (case GetTransferState tid (transfers b) of
             None \<Rightarrow> TransferStatusReply tid ''not_found'' []
           | Some tr \<Rightarrow> TransferStatusReply (tr_transferID tr) (tr_status tr) (tr_reason tr)))"

datatype coordinator_msg = MsgStartTransfer StartTransfer | MsgGetTransferStatus string | MsgOther

datatype coordinator_reply = ReplyTransfer transfer_reply | ReplyStatus transfer_status | CoordUnhandled

definition Coordinator_Receive ::
  "TransferEnv \<Rightarrow> string option \<Rightarrow> coordinator_msg \<Rightarrow> Bank \<Rightarrow> coordinator_reply \<times> Bank" where
  "Coordinator_Receive env read_err msg b =
     (case msg of
        MsgStartTransfer m \<Rightarrow> (let (r, b) = handleStartTransfer env m b in (ReplyTransfer r, b))
      | MsgGetTransferStatus tid \<Rightarrow> (ReplyStatus (handleGetTransferStatus read_err tid b), b)
      | MsgOther \<Rightarrow> (CoordUnhandled, b))"

section \<open>The request\<close>

datatype http = BadRequest | InternalError string | TransferOk string | TransferRefused string string

text \<open>
  The HTTP handler: it checks the request, spawns a coordinator under a fresh id and asks it. The
  outcome of the spawn and the fate of the request are arguments.
\<close>

definition CreateTransfer ::
  "TransferEnv \<Rightarrow> string \<Rightarrow> string option \<Rightarrow> net \<Rightarrow> string \<Rightarrow> string \<Rightarrow> int \<Rightarrow> Bank \<Rightarrow> http \<times> Bank" where
  "CreateTransfer env uuid spawn_coord n from to amount b =
     (if from = [] \<or> to = [] \<or> amount \<le> 0 then (BadRequest, b)
      else if from = to then (BadRequest, b)
      else
        case spawn_coord of
          Some e \<Rightarrow> (InternalError e, b)
        | None \<Rightarrow>
            let (reply, b') = handleStartTransfer env
                  \<lparr>ST_TransferID = uuid, ST_From = from, ST_To = to, ST_Amount = amount\<rparr> b in
            case n of
              Lost e \<Rightarrow> (InternalError e, b)
            | ReplyLost e \<Rightarrow> (InternalError e, b')
            | Delivered \<Rightarrow>
                (case reply of
                   TransferCompleted tid \<Rightarrow> (TransferOk tid, b')
                 | TransferFailed tid reason \<Rightarrow> (TransferRefused tid reason, b')))"

section \<open>Balances\<close>

definition bal :: "Bank \<Rightarrow> string \<Rightarrow> int" where
  "bal b a = (case live b a of
      Some x \<Rightarrow> balance (ae_state x)
    | None \<Rightarrow> balance (GetAccountState a (rows b)))"

definition unprepared :: "string \<Rightarrow> Bank \<Rightarrow> bool" where
  "unprepared tid b \<longleftrightarrow> (\<forall>a x. live b a = Some x \<longrightarrow> ae_prepared x tid = None)"

lemma write_transfer_frame [simp]:
  "live (snd (write_transfer env k tid tr b)) = live b" "rows (snd (write_transfer env k tid tr b)) = rows b"
  "bal (snd (write_transfer env k tid tr b)) = bal b"
  by (auto simp: write_transfer_def bal_def fun_eq_iff split: option.splits)

lemma abortTransfer_frame [simp]:
  "live (snd (abortTransfer env tid reason b)) = live b" "bal (snd (abortTransfer env tid reason b)) = bal b"
  "fst (abortTransfer env tid reason b) = TransferFailed tid reason"
  by (auto simp: abortTransfer_def Let_def split: option.splits)

lemma getOrSpawnAccount_spec:
  assumes "getOrSpawnAccount env aid b = (res, b')"
  shows "bal b' = bal b" "unprepared tid b \<Longrightarrow> unprepared tid b'" "\<forall>a x. live b a = Some x \<longrightarrow> live b' a = Some x"
    "\<forall>pid. res = Inr pid \<longrightarrow> pid = aid \<and> live b' aid \<noteq> None"
  using assms
  by (auto simp: getOrSpawnAccount_def getOrSpawn_def AccountEntity_PreStart_def Account_Receive_def
      SetBalance_def SetCreatedAt_def bal_def unprepared_def fun_eq_iff Let_def split: option.splits if_splits)

lemma ask_account_bal:
  assumes "\<And>x. live b pid = Some x \<Longrightarrow>
      balance (ae_state (snd (Account_Receive (te_now env) msg x))) = balance (ae_state x)"
  shows "bal (snd (ask_account env k pid msg b)) = bal b"
  using assms by (auto simp: ask_account_def ask_def bal_def fun_eq_iff Let_def split_def split: option.splits net.splits)

lemma prepare_state: "ae_state (snd (handlePrepareTransfer tid amt deb x)) = ae_state x"
  by (simp add: handlePrepareTransfer_def Let_def)

lemma prepare_bal: "bal (snd (ask_account env k pid (PrepareTransfer tid a amt deb) b)) = bal b"
  by (rule ask_account_bal) (simp add: Account_Receive_def prepare_state)

lemma prepare_vote:
  assumes "unprepared tid b" and "live b pid = Some x"
    and "ask_account env k pid (PrepareTransfer tid a amt deb) b = (Inr r, b')"
  obtains (no) reason aid where "r = VoteNo tid aid reason" "deb" "balance (ae_state x) < amt"
  | (yes) aid where "r = VoteYes tid aid" "deb \<longrightarrow> amt \<le> balance (ae_state x)"
      "live b' = (live b)(pid \<mapsto> x\<lparr>ae_prepared := (ae_prepared x)(tid \<mapsto>
          \<lparr>pt_transferID = tid, pt_amount = amt, pt_isDebit = deb\<rparr>)\<rparr>)" "rows b' = rows b"
proof -
  have "ae_prepared x tid = None" using assms(1,2) by (simp add: unprepared_def)
  then show thesis
    using assms(2,3) no yes
    by (auto simp: ask_account_def ask_def Account_Receive_def handlePrepareTransfer_def Let_def
        split: net.splits if_splits)
qed

lemma commit_ask:
  assumes "te_net env k = Delivered" and "live b pid = Some x" and "ae_prepared x tid = Some p"
  shows "bal (snd (ask_account env k pid (CommitTransfer tid) b)) =
      (bal b)(pid := bal b pid + (if pt_isDebit p then - pt_amount p else pt_amount p))"
    and "a \<noteq> pid \<Longrightarrow> live (snd (ask_account env k pid (CommitTransfer tid) b)) a = live b a"
  using assms
  by (auto simp: ask_account_def ask_def Account_Receive_def handleCommitTransfer_def SetBalance_def bal_def
      fun_eq_iff Let_def split_def split: option.splits)

lemma abort_result:
  assumes "abortTransfer env tid reason b = (reply, b')"
  shows "reply = TransferFailed tid reason" and "bal b' = bal b"
  using abortTransfer_frame(2,3) [of env tid reason b] unfolding assms by simp_all

lemma prepare_phase_atomic:
  assumes b: "unprepared (ST_TransferID m) b" "live b (ST_From m) = Some x" "live b (ST_To m) = Some y"
    and ne: "ST_From m \<noteq> ST_To m" and net: "te_net env 2 = Delivered" "te_net env 3 = Delivered"
    and run: "prepare_phase env m tr (ST_From m) (ST_To m) b = (reply, b')"
  shows "case reply of
      TransferCompleted tid \<Rightarrow> ST_Amount m \<le> bal b (ST_From m) \<and>
        bal b' = (bal b)(ST_From m := bal b (ST_From m) - ST_Amount m, ST_To m := bal b (ST_To m) + ST_Amount m)
    | TransferFailed tid reason \<Rightarrow> bal b' = bal b"
proof -
  let ?tid = "ST_TransferID m" and ?f = "ST_From m" and ?t = "ST_To m" and ?amt = "ST_Amount m"
  let ?prep = "\<lambda>deb. \<lparr>pt_transferID = ?tid, pt_amount = ?amt, pt_isDebit = deb\<rparr>"
  obtain r1 b1 where r1: "ask_account env 0 ?f (PrepareTransfer ?tid ?f ?amt True) b = (r1, b1)" by fastforce
  have bal1: "bal b1 = bal b" using prepare_bal [of env 0 ?f ?tid ?f ?amt True b] r1 by simp
  show ?thesis
  proof (cases "\<exists>r. r1 = Inr r \<and> (\<forall>t a s. r \<noteq> VoteNo t a s)")
    case False
    obtain reason where "prepare_phase env m tr ?f ?t b = abortTransfer env ?tid reason b1"
    proof (cases r1)
      case (Inl e)
      then show thesis using that r1 by (simp add: prepare_phase_def Let_def)
    next
      case (Inr v)
      then obtain t a s where "v = VoteNo t a s" using False by blast
      then show thesis using that Inr r1 by (simp add: prepare_phase_def Let_def)
    qed
    then have "abortTransfer env ?tid reason b1 = (reply, b')" using run by simp
    from abort_result [OF this] show ?thesis using bal1 by simp
  next
    case True
    then obtain v1 where v1: "r1 = Inr v1" "\<forall>t a s. v1 \<noteq> VoteNo t a s" by blast
    obtain aid where yes1: "v1 = VoteYes ?tid aid" "?amt \<le> balance (ae_state x)"
      "live b1 = (live b)(?f \<mapsto> x\<lparr>ae_prepared := (ae_prepared x)(?tid \<mapsto> ?prep True)\<rparr>)" "rows b1 = rows b"
      using prepare_vote [OF b(1,2) r1 [unfolded v1(1)]] v1(2) by metis
    have y1: "live b1 ?t = Some y" "ae_prepared y ?tid = None"
      using yes1(3) b(1,3) ne by (auto simp: unprepared_def)
    obtain r2 b2 where r2: "ask_account env 1 ?t (PrepareTransfer ?tid ?t ?amt False) b1 = (r2, b2)" by fastforce
    have bal2: "bal b2 = bal b" using prepare_bal [of env 1 ?t ?tid ?t ?amt False b1] r2 bal1 by simp
    have unfold2: "prepare_phase env m tr ?f ?t b =
        (case r2 of Inl e \<Rightarrow> abortTransfer env ?tid (''prepare failed for destination account: '' @ e) b2
         | Inr (VoteNo _ _ reason) \<Rightarrow> abortTransfer env ?tid (''destination account voted NO: '' @ reason) b2
         | Inr _ \<Rightarrow> commit_phase env m tr ?f ?t b2)"
      using r1 r2 v1 yes1(1) by (simp add: prepare_phase_def Let_def)
    show ?thesis
    proof (cases r2)
      case (Inl e)
      then have "abortTransfer env ?tid (''prepare failed for destination account: '' @ e) b2 = (reply, b')"
        using run unfold2 by simp
      from abort_result [OF this] show ?thesis using bal2 by simp
    next
      case (Inr v2)
      have "live b2 = (live b1)(?t \<mapsto> y\<lparr>ae_prepared := (ae_prepared y)(?tid \<mapsto> ?prep False)\<rparr>) \<and> (\<exists>aid. v2 = VoteYes ?tid aid)"
        using r2 Inr y1
        by (auto simp: ask_account_def ask_def Account_Receive_def handlePrepareTransfer_def Let_def split: net.splits)
      then obtain aid2 where live2: "live b2 = (live b1)(?t \<mapsto> y\<lparr>ae_prepared := (ae_prepared y)(?tid \<mapsto> ?prep False)\<rparr>)"
        and v2: "v2 = VoteYes ?tid aid2" by blast
      let ?b3 = "snd (ask_account env 2 ?f (CommitTransfer ?tid) b2)"
      let ?b4 = "snd (ask_account env 3 ?t (CommitTransfer ?tid) ?b3)"
      have c1: "bal ?b3 = (bal b)(?f := bal b ?f - ?amt)" "live ?b3 ?t = live b2 ?t"
        using commit_ask [OF net(1), of b2 ?f "x\<lparr>ae_prepared := (ae_prepared x)(?tid \<mapsto> ?prep True)\<rparr>" ?tid "?prep True"]
          live2 yes1(3) ne bal2 by auto
      have c2: "bal ?b4 = (bal ?b3)(?t := bal ?b3 ?t + ?amt)"
        using commit_ask(1) [OF net(2), of ?b3 ?t "y\<lparr>ae_prepared := (ae_prepared y)(?tid \<mapsto> ?prep False)\<rparr>" ?tid "?prep False"]
          c1(2) live2 by simp
      have "bal b ?f = balance (ae_state x)" using b(2) by (simp add: bal_def)
      moreover have "reply = TransferCompleted ?tid" "bal b' = bal ?b4"
        using run unfold2 Inr v2 by (auto simp: commit_phase_def Let_def)
      ultimately show ?thesis using c1(1) c2 yes1(2) ne by (simp add: fun_upd_def fun_eq_iff)
    qed
  qed
qed

lemma handleStartTransfer_atomic:
  assumes u: "unprepared (ST_TransferID m) b" and ne: "ST_From m \<noteq> ST_To m"
    and net: "te_net env 2 = Delivered" "te_net env 3 = Delivered"
    and run: "handleStartTransfer env m b = (reply, b')"
  shows "case reply of
      TransferCompleted tid \<Rightarrow> ST_Amount m \<le> bal b (ST_From m) \<and>
        bal b' = (bal b)(ST_From m := bal b (ST_From m) - ST_Amount m, ST_To m := bal b (ST_To m) + ST_Amount m)
    | TransferFailed tid reason \<Rightarrow> bal b' = bal b"
proof -
  let ?tid = "ST_TransferID m" and ?f = "ST_From m" and ?t = "ST_To m"
  let ?tr = "NewTransfer (te_now env) ?tid ?f ?t (ST_Amount m)"
  obtain e0 b0 where w0: "write_transfer env 0 ?tid ?tr b = (e0, b0)" by fastforce
  have 0: "live b0 = live b" "bal b0 = bal b" "unprepared ?tid b0"
    using write_transfer_frame [of env 0 ?tid ?tr b] u unfolding w0 by (simp_all add: unprepared_def)
  obtain p1 b1 where g1: "getOrSpawnAccount env ?f b0 = (p1, b1)" by fastforce
  note 1 = getOrSpawnAccount_spec [OF g1]
  obtain p2 b2 where g2: "getOrSpawnAccount env ?t b1 = (p2, b2)" by fastforce
  note 2 = getOrSpawnAccount_spec [OF g2]
  let ?tr' = "SetStatus (te_now env) TransferStatusPrepared ?tr"
  obtain e3 b3 where w3: "write_transfer env (Suc 0) ?tid ?tr' b2 = (e3, b3)" by fastforce
  have 3: "live b3 = live b2" "bal b3 = bal b"
    using write_transfer_frame [of env "Suc 0" ?tid ?tr' b2] 1(1) 2(1) 0(2) unfolding w3 by simp_all
  note unfold = handleStartTransfer_def Let_def w0 g1 g2 w3 prod.case
  have aborted: ?thesis if "handleStartTransfer env m b = abortTransfer env ?tid reason c" "bal c = bal b" for reason c
    using abort_result [of env ?tid reason c reply b'] that run by simp
  show ?thesis
  proof (cases e0)
    case (Some e)
    then have "reply = TransferFailed ?tid e" "b' = b0" using run by (simp_all add: unfold)
    then show ?thesis using 0(2) by simp
  next
    case e0: None
    show ?thesis
    proof (cases p1)
      case (Inl e)
      then show ?thesis using aborted [of _ b1] e0 1(1) 0(2) by (simp add: unfold)
    next
      case p1: (Inr pid1)
      show ?thesis
      proof (cases p2)
        case (Inl e)
        then show ?thesis using aborted [of _ b2] e0 p1 1(1) 2(1) 0(2) by (simp add: unfold)
      next
        case p2: (Inr pid2)
        show ?thesis
        proof (cases e3)
          case (Some e)
          then show ?thesis using aborted [of _ b3] e0 p1 p2 3(2) by (simp add: unfold)
        next
          case None
          have pids: "pid1 = ?f" "pid2 = ?t" using 1(4) 2(4) p1 p2 by auto
          obtain x y where xy: "live b3 ?f = Some x" "live b3 ?t = Some y"
            using 1(4) 2(3,4) 3(1) p1 p2 by auto
          have up: "unprepared ?tid b3" using 1(2) [OF 0(3)] 2(2) 3(1) by (simp add: unprepared_def)
          have "prepare_phase env m ?tr' ?f ?t b3 = (reply, b')"
            using run e0 p1 p2 None pids by (simp add: unfold)
          from prepare_phase_atomic [OF up xy ne net this] show ?thesis unfolding 3(2) .
        qed
      qed
    qed
  qed
qed

lemma handleStartTransfer_tid:
  "fst (handleStartTransfer env m b) = TransferCompleted tid \<Longrightarrow> tid = ST_TransferID m"
  by (auto simp: handleStartTransfer_def prepare_phase_def commit_phase_def Let_def split_def
      split: option.splits sum.splits account_reply.splits)

text \<open>A run without faults.\<close>

lemma faultless_run:
  assumes u: "unprepared (ST_TransferID m) b" and ne: "ST_From m \<noteq> ST_To m"
    and funds: "ST_Amount m \<le> bal b (ST_From m)"
    and env: "\<forall>k. write_err env k = None" "\<forall>a. spawn_err env a = None" "\<forall>k. te_net env k = Delivered"
  shows "\<exists>b'. handleStartTransfer env m b = (TransferCompleted (ST_TransferID m), b') \<and>
     (\<exists>tr. transfers b' (ST_TransferID m) = Some tr \<and> tr_status tr = TransferStatusCommitted)"
proof -
  let ?tid = "ST_TransferID m" and ?f = "ST_From m" and ?t = "ST_To m" and ?amt = "ST_Amount m"
  let ?tr = "NewTransfer (te_now env) ?tid ?f ?t ?amt"
  have stored: "write_transfer env k tid tr c = (None, c\<lparr>transfers := WriteTransferState tid tr (transfers c)\<rparr>)" for k tid tr c
    using env(1) by (simp add: write_transfer_def)
  let ?b0 = "b\<lparr>transfers := WriteTransferState ?tid ?tr (transfers b)\<rparr>"
  have 0: "bal ?b0 = bal b" "unprepared ?tid ?b0" using u by (auto simp: bal_def unprepared_def fun_eq_iff split: option.split)
  have found: "\<exists>c'. getOrSpawnAccount env a c = (Inr a, c')" for a c
    using env(2) by (auto simp: getOrSpawnAccount_def getOrSpawn_def Let_def split: option.splits)
  obtain b1 where g1: "getOrSpawnAccount env ?f ?b0 = (Inr ?f, b1)" using found by blast
  note 1 = getOrSpawnAccount_spec [OF g1]
  obtain b2 where g2: "getOrSpawnAccount env ?t b1 = (Inr ?t, b2)" using found by blast
  note 2 = getOrSpawnAccount_spec [OF g2]
  let ?tr' = "SetStatus (te_now env) TransferStatusPrepared ?tr"
  let ?b3 = "b2\<lparr>transfers := WriteTransferState ?tid ?tr' (transfers b2)\<rparr>"
  obtain x y where xy: "live b2 ?f = Some x" "live b2 ?t = Some y" using 1(4) 2(3,4) by auto
  have up: "ae_prepared x ?tid = None" "ae_prepared y ?tid = None"
    using 1(2) [OF 0(2)] 2(2) xy by (auto simp: unprepared_def)
  have "?amt \<le> balance (ae_state x)" using funds 0(1) 1(1) 2(1) xy(1) by (metis bal_def option.simps(5))
  then have rx: "Account_Receive (te_now env) (PrepareTransfer ?tid ?f ?amt True) x =
      (VoteYes ?tid (accountID (ae_state x)), x\<lparr>ae_prepared := (ae_prepared x)(?tid \<mapsto>
         \<lparr>pt_transferID = ?tid, pt_amount = ?amt, pt_isDebit = True\<rparr>)\<rparr>)"
    using up(1) by (simp add: Account_Receive_def handlePrepareTransfer_def)
  have ry: "Account_Receive (te_now env) (PrepareTransfer ?tid ?t ?amt False) y =
      (VoteYes ?tid (accountID (ae_state y)), y\<lparr>ae_prepared := (ae_prepared y)(?tid \<mapsto>
         \<lparr>pt_transferID = ?tid, pt_amount = ?amt, pt_isDebit = False\<rparr>)\<rparr>)"
    using up(2) by (simp add: Account_Receive_def handlePrepareTransfer_def)
  obtain c where c: "handleStartTransfer env m b = commit_phase env m ?tr' ?f ?t c"
    using g1 g2 xy ne rx ry env(3) that
    by (simp add: handleStartTransfer_def prepare_phase_def stored ask_account_def ask_def Let_def split_def)
  let ?tr2 = "SetStatus (te_now env) TransferStatusCommitted ?tr'"
  have "\<exists>tr. WriteTransferState ?tid ?tr2 rs ?tid = Some tr \<and> tr_status tr = TransferStatusCommitted" for rs
    by (auto simp: WriteTransferState_def SetStatus_def NewTransfer_def split: option.splits)
  then show ?thesis unfolding c by (auto simp: commit_phase_def Let_def stored)
qed

definition two_pc :: "TransferEnv \<times> StartTransfer \<Rightarrow> Bank \<Rightarrow> bool \<times> Bank" where
  "two_pc q b =
     (case handleStartTransfer (fst q) (snd q) b of
        (TransferCompleted _, b') \<Rightarrow> (True, b')
      | (TransferFailed _ _, b') \<Rightarrow> (False, b'))"

text \<open>
  A transfer under a fresh id between two accounts whose commit messages arrive; any other request,
  write or spawn may fail.
\<close>

definition two_pc_valid :: "Bank \<Rightarrow> TransferEnv \<times> StartTransfer \<Rightarrow> bool" where
  "two_pc_valid b q \<longleftrightarrow> unprepared (ST_TransferID (snd q)) b \<and> ST_From (snd q) \<noteq> ST_To (snd q) \<and>
     0 < ST_Amount (snd q) \<and> te_net (fst q) 2 = Delivered \<and> te_net (fst q) 3 = Delivered"

interpretation twopc: atomic_transfers two_pc bal "\<lambda>q. ST_From (snd q)" "\<lambda>q. ST_To (snd q)"
  "\<lambda>q. ST_Amount (snd q)" two_pc_valid
proof
  fix b q
  assume "two_pc_valid b q"
  then show "ST_From (snd q) \<noteq> ST_To (snd q) \<and> 0 < ST_Amount (snd q)" by (simp add: two_pc_valid_def)
next
  fix b q b'
  assume v: "two_pc_valid b q" and "two_pc q b = (True, b')"
  then obtain tid where "handleStartTransfer (fst q) (snd q) b = (TransferCompleted tid, b')"
    by (auto simp: two_pc_def split: prod.splits transfer_reply.splits)
  from handleStartTransfer_atomic [OF _ _ _ _ this] v
  show "ST_Amount (snd q) \<le> bal b (ST_From (snd q)) \<and>
      bal b' = (bal b)(ST_From (snd q) := bal b (ST_From (snd q)) - ST_Amount (snd q),
                       ST_To (snd q) := bal b (ST_To (snd q)) + ST_Amount (snd q))"
    by (simp add: two_pc_valid_def)
next
  fix b q b'
  assume v: "two_pc_valid b q" and "two_pc q b = (False, b')"
  then obtain tid reason where "handleStartTransfer (fst q) (snd q) b = (TransferFailed tid reason, b')"
    by (auto simp: two_pc_def split: prod.splits transfer_reply.splits)
  from handleStartTransfer_atomic [OF _ _ _ _ this] v
  show "bal b' = bal b" by (simp add: two_pc_valid_def)
qed

section \<open>What breaks atomicity\<close>

text \<open>
  A vote does not reserve the amount: two transfers can both be prepared against the same funds,
  and both commit.
\<close>

definition account_run :: "int \<Rightarrow> account_msg list \<Rightarrow> AccountEntity \<Rightarrow> AccountEntity" where
  "account_run t ms x = fold (\<lambda>m x. snd (Account_Receive t m x)) ms x"

lemma commit_idempotent:
  "account_run t [CommitTransfer tid, CommitTransfer tid] x = account_run t [CommitTransfer tid] x"
  by (auto simp: account_run_def Account_Receive_def handleCommitTransfer_def Let_def split: option.splits)

lemma abort_releases:
  assumes "ae_prepared x tid = None" and "deb \<longrightarrow> a \<le> balance (ae_state x)"
  shows "account_run t [PrepareTransfer tid i a deb, AbortTransfer tid] x = x"
  using assms
  by (auto simp: account_run_def Account_Receive_def handlePrepareTransfer_def handleAbortTransfer_def
      Let_def fun_upd_idem)

text \<open>A restart keeps the balance and forgets every vote.\<close>

lemma restart_forgets:
  defines "restart x rs \<equiv> AccountEntity_PreStart (AccountEntity_PostStop x rs) (accountID (ae_state x))"
  shows "balance (ae_state (restart x rs)) = balance (ae_state x)" "ae_prepared (restart x rs) = Map.empty"
  by (simp_all add: restart_def AccountEntity_PreStart_def AccountEntity_PostStop_def)

section \<open>Properties\<close>

text \<open>
  C5: a transfer request is all or nothing. When the commit messages of its coordinator arrive, then
  whatever else fails (a write, a spawn, a vote, the reply to the client), a confirmed transfer moved
  exactly the amount between the two accounts and the source had it; a refused one changed no balance;
  one answered with an internal error did the one or the other; a bad request touched nothing.
\<close>

theorem two_pc_atomic:
  assumes fresh: "unprepared uuid b" and net: "te_net env 2 = Delivered" "te_net env 3 = Delivered"
    and run: "CreateTransfer env uuid spawn_coord n from to amount b = (resp, b')"
  shows "let moved = (from \<noteq> to \<and> 0 < amount \<and> amount \<le> bal b from \<and>
      bal b' = (bal b)(from := bal b from - amount, to := bal b to + amount)) in
    case resp of
      TransferOk tid \<Rightarrow> tid = uuid \<and> moved
    | TransferRefused tid reason \<Rightarrow> bal b' = bal b
    | InternalError e \<Rightarrow> moved \<or> bal b' = bal b
    | BadRequest \<Rightarrow> b' = b"
proof (cases "from = [] \<or> to = [] \<or> amount \<le> 0 \<or> from = to \<or> spawn_coord \<noteq> None")
  case True
  then show ?thesis using run by (auto simp: CreateTransfer_def split: if_splits option.splits)
next
  case False
  let ?m = "\<lparr>ST_TransferID = uuid, ST_From = from, ST_To = to, ST_Amount = amount\<rparr>"
  obtain reply b1 where r: "handleStartTransfer env ?m b = (reply, b1)" by fastforce
  have tid: "reply = TransferCompleted tid \<Longrightarrow> tid = uuid" for tid
    using handleStartTransfer_tid [of env ?m b] r by simp
  have "case reply of TransferCompleted tid \<Rightarrow> amount \<le> bal b from \<and>
        bal b1 = (bal b)(from := bal b from - amount, to := bal b to + amount)
      | TransferFailed tid reason \<Rightarrow> bal b1 = bal b"
    using handleStartTransfer_atomic [OF _ _ net r] fresh False by (auto split: transfer_reply.splits)
  moreover have "(resp, b') = (case n of Lost e \<Rightarrow> (InternalError e, b) | ReplyLost e \<Rightarrow> (InternalError e, b1)
      | Delivered \<Rightarrow> (case reply of TransferCompleted tid \<Rightarrow> (TransferOk tid, b1)
          | TransferFailed tid reason \<Rightarrow> (TransferRefused tid reason, b1)))"
    using run r False by (simp add: CreateTransfer_def)
  ultimately show ?thesis
    using tid False by (cases n; cases reply) (simp_all add: Let_def not_le)
qed

definition no_fault :: TransferEnv where
  "no_fault = \<lparr>te_now = 1, write_err = (\<lambda>_. None), read_fails = False, spawn_err = (\<lambda>_. None), te_net = (\<lambda>_. Delivered)\<rparr>"

definition two_accounts :: Bank where
  "two_accounts = \<lparr>live = [''a'' \<mapsto> \<lparr>ae_state = NewAccount ''a'' 100 1, ae_prepared = Map.empty\<rparr>,
      ''b'' \<mapsto> \<lparr>ae_state = NewAccount ''b'' 0 1, ae_prepared = Map.empty\<rparr>], rows = Map.empty, transfers = Map.empty\<rparr>"

definition pay_30 :: StartTransfer where
  "pay_30 = \<lparr>ST_TransferID = ''t1'', ST_From = ''a'', ST_To = ''b'', ST_Amount = 30\<rparr>"

lemma two_accounts_unprepared: "unprepared tid two_accounts"
  by (auto simp: unprepared_def two_accounts_def split: if_splits)

lemma no_fault_sel [simp]:
  "write_err no_fault k = None" "spawn_err no_fault a = None" "te_net no_fault k = Delivered"
  by (simp_all add: no_fault_def)

lemma pay_30_sel [simp]:
  "ST_TransferID pay_30 = ''t1''" "ST_From pay_30 = ''a''" "ST_To pay_30 = ''b''" "ST_Amount pay_30 = 30"
  by (simp_all add: pay_30_def)

lemma two_accounts_bal [simp]: "bal two_accounts a = (if a = ''a'' then 100 else 0)"
  by (simp add: bal_def two_accounts_def NewAccount_def GetAccountState_def)

theorem two_pc_atomic_witness:
  "case fst (CreateTransfer no_fault ''t1'' None Delivered ''a'' ''b'' 500 two_accounts) of
     TransferOk tid \<Rightarrow> False
   | TransferRefused tid reason \<Rightarrow>
       bal (snd (CreateTransfer no_fault ''t1'' None Delivered ''a'' ''b'' 500 two_accounts)) = bal two_accounts
   | _ \<Rightarrow> True"
proof -
  obtain resp b' where r: "CreateTransfer no_fault ''t1'' None Delivered ''a'' ''b'' 500 two_accounts = (resp, b')" by fastforce
  then show ?thesis
    using two_pc_atomic [OF two_accounts_unprepared _ _ r] by (auto simp: Let_def split: http.splits)
qed

text \<open>
  C6: a transfer that nothing strikes goes through. With no failing write, spawn or request and enough
  funds, the coordinator completes the transfer, the balances move, and the stored transfer is
  committed.
\<close>

theorem two_pc_completes:
  assumes u: "unprepared (ST_TransferID m) b" and ne: "ST_From m \<noteq> ST_To m"
    and funds: "ST_Amount m \<le> bal b (ST_From m)"
    and env: "\<forall>k. write_err env k = None" "\<forall>a. spawn_err env a = None" "\<forall>k. te_net env k = Delivered"
  shows "\<exists>b' tr. handleStartTransfer env m b = (TransferCompleted (ST_TransferID m), b') \<and>
     bal b' = (bal b)(ST_From m := bal b (ST_From m) - ST_Amount m, ST_To m := bal b (ST_To m) + ST_Amount m) \<and>
     transfers b' (ST_TransferID m) = Some tr \<and> tr_status tr = TransferStatusCommitted"
proof -
  have "\<exists>b'. handleStartTransfer env m b = (TransferCompleted (ST_TransferID m), b') \<and>
      (\<exists>tr. transfers b' (ST_TransferID m) = Some tr \<and> tr_status tr = TransferStatusCommitted)"
    using faultless_run [OF u ne funds env] .
  then obtain b' tr where r: "handleStartTransfer env m b = (TransferCompleted (ST_TransferID m), b')"
    "transfers b' (ST_TransferID m) = Some tr" "tr_status tr = TransferStatusCommitted" by blast
  moreover have "bal b' = (bal b)(ST_From m := bal b (ST_From m) - ST_Amount m, ST_To m := bal b (ST_To m) + ST_Amount m)"
    using handleStartTransfer_atomic [OF u ne _ _ r(1)] env(3) by simp
  ultimately show ?thesis by blast
qed

theorem two_pc_completes_witness:
  "\<exists>b'. handleStartTransfer no_fault pay_30 two_accounts = (TransferCompleted ''t1'', b') \<and> bal b' ''a'' = 70 \<and> bal b' ''b'' = 30"
  using two_pc_completes [OF two_accounts_unprepared, of pay_30 no_fault] by auto

text \<open>
  Over any sequence of transfers between accounts of a finite set, each under a fresh id and with
  its commit messages arriving, the total of the set stays the same and no balance gets negative.
\<close>

theorem two_pc_conserves:
  assumes ok: "accepted (\<lambda>q b. Some (snd (two_pc q b))) two_pc_valid qs b"
    and A: "finite A" "\<forall>q \<in> set qs. ST_From (snd q) \<in> A \<and> ST_To (snd q) \<in> A" and nonneg: "\<forall>a. 0 \<le> bal b a"
  shows "(\<Sum>a\<in>A. bal (fold (\<lambda>q b. snd (two_pc q b)) qs b) a) = (\<Sum>a\<in>A. bal b a) \<and>
     (\<forall>a. 0 \<le> bal (fold (\<lambda>q b. snd (two_pc q b)) qs b) a)"
  using twopc.transfers_conserve [OF ok A] twopc.transfers_nonneg [OF ok nonneg] by blast

theorem two_pc_conserves_witness:
  "bal (fold (\<lambda>q b. snd (two_pc q b)) [(no_fault, pay_30)] two_accounts) ''a'' +
   bal (fold (\<lambda>q b. snd (two_pc q b)) [(no_fault, pay_30)] two_accounts) ''b'' = 100"
proof -
  have "accepted (\<lambda>q b. Some (snd (two_pc q b))) two_pc_valid [(no_fault, pay_30)] two_accounts"
    using two_accounts_unprepared by (simp add: two_pc_valid_def)
  then show ?thesis
    using two_pc_conserves [of "[(no_fault, pay_30)]" two_accounts "{''a'', ''b''}"] by simp
qed

text \<open>
  A vote does not reserve the amount. Two coordinators that both get a yes for the same funds both
  commit: the account is overdrawn as soon as the two amounts exceed the balance.
\<close>

theorem two_pc_overdraft:
  assumes "t1 \<noteq> t2" "ae_prepared x t1 = None" "ae_prepared x t2 = None"
    and "a1 \<le> balance (ae_state x)" "a2 \<le> balance (ae_state x)"
  shows "balance (ae_state (account_run t
     [PrepareTransfer t1 i a1 True, PrepareTransfer t2 i a2 True, CommitTransfer t1, CommitTransfer t2] x)) =
     balance (ae_state x) - a1 - a2"
  using assms
  by (simp add: account_run_def Account_Receive_def handlePrepareTransfer_def handleCommitTransfer_def
      SetBalance_def Let_def)

theorem two_pc_overdraft_witness:
  "balance (ae_state (account_run 0
     [PrepareTransfer ''t1'' ''a'' 80 True, PrepareTransfer ''t2'' ''a'' 80 True, CommitTransfer ''t1'', CommitTransfer ''t2'']
     \<lparr>ae_state = NewAccount ''a'' 100 1, ae_prepared = Map.empty\<rparr>)) = -60"
  using two_pc_overdraft [of "''t1''" "''t2''" "\<lparr>ae_state = NewAccount ''a'' 100 1, ae_prepared = Map.empty\<rparr>" 80 80 0 "''a''"]
  by (simp add: NewAccount_def)

text \<open>
  The coordinator aborts without telling the participants. When the request to the destination
  gets lost, the transfer fails and the source keeps the vote it gave.
\<close>

theorem abort_keeps_vote:
  assumes "live b (ST_From m) = Some x" "live b (ST_To m) = Some y" and u: "unprepared (ST_TransferID m) b"
    and ne: "ST_From m \<noteq> ST_To m" and funds: "ST_Amount m \<le> balance (ae_state x)"
    and net: "te_net env 0 = Delivered" "te_net env 1 = Lost e" and w: "\<forall>k. write_err env k = None"
  shows "\<exists>reason b' x'. handleStartTransfer env m b = (TransferFailed (ST_TransferID m) reason, b') \<and>
     live b' (ST_From m) = Some x' \<and> ae_prepared x' (ST_TransferID m) \<noteq> None"
proof -
  let ?tid = "ST_TransferID m" and ?f = "ST_From m" and ?t = "ST_To m"
  let ?x = "x\<lparr>ae_prepared := (ae_prepared x)(?tid \<mapsto> \<lparr>pt_transferID = ?tid, pt_amount = ST_Amount m, pt_isDebit = True\<rparr>)\<rparr>"
  have "ae_prepared x ?tid = None" using u assms(1) by (simp add: unprepared_def)
  then have rx: "Account_Receive (te_now env) (PrepareTransfer ?tid ?f (ST_Amount m) True) x = (VoteYes ?tid (accountID (ae_state x)), ?x)"
    using funds by (simp add: Account_Receive_def handlePrepareTransfer_def)
  have spawn: "getOrSpawnAccount env a c = (Inr a, c)" if "live c a = Some z" for a c z
    using that by (simp add: getOrSpawnAccount_def getOrSpawn_def)
  have stored: "write_transfer env k tid tr c = (None, c\<lparr>transfers := WriteTransferState tid tr (transfers c)\<rparr>)" for k tid tr c
    using w by (simp add: write_transfer_def)
  have ask0: "ask_account env 0 ?f (PrepareTransfer ?tid ?f (ST_Amount m) True) c =
      (Inr (VoteYes ?tid (accountID (ae_state x))), c\<lparr>live := (live c)(?f \<mapsto> ?x)\<rparr>)" if "live c ?f = Some x" for c
    using that net(1) rx by (simp add: ask_account_def ask_def)
  have ask1: "ask_account env (Suc 0) ?t msg c = (Inl e, c)" if "live c ?t = Some y" for c msg
    using that net(2) by (simp add: ask_account_def ask_def split_def)
  let ?c = "b\<lparr>transfers := WriteTransferState ?tid
      (SetStatus (te_now env) TransferStatusPrepared (NewTransfer (te_now env) ?tid ?f ?t (ST_Amount m)))
      (WriteTransferState ?tid (NewTransfer (te_now env) ?tid ?f ?t (ST_Amount m)) (transfers b)),
      live := (live b)(?f \<mapsto> ?x)\<rparr>"
  let ?r = "''prepare failed for destination account: '' @ e"
  have "handleStartTransfer env m b = abortTransfer env ?tid ?r ?c"
    using assms(1,2) ne by (simp add: handleStartTransfer_def prepare_phase_def Let_def stored spawn ask0 ask1)
  then have "handleStartTransfer env m b = (TransferFailed ?tid ?r, snd (abortTransfer env ?tid ?r ?c))"
    using abortTransfer_frame(3) [of env ?tid ?r ?c] by (simp add: prod_eq_iff)
  then show ?thesis by fastforce
qed

theorem abort_keeps_vote_witness:
  "\<exists>reason b' x'. handleStartTransfer (no_fault\<lparr>te_net := (\<lambda>k. if k = 1 then Lost ''timeout'' else Delivered)\<rparr>) pay_30 two_accounts =
     (TransferFailed ''t1'' reason, b') \<and> live b' ''a'' = Some x' \<and> ae_prepared x' ''t1'' \<noteq> None"
proof -
  let ?env = "no_fault\<lparr>te_net := (\<lambda>k. if k = 1 then Lost ''timeout'' else Delivered)\<rparr>"
  obtain x y where "live two_accounts (ST_From pay_30) = Some x" "live two_accounts (ST_To pay_30) = Some y"
    "ST_Amount pay_30 \<le> balance (ae_state x)"
    by (simp add: two_accounts_def NewAccount_def)
  moreover have "\<forall>k. write_err ?env k = None" by (simp add: no_fault_def)
  ultimately show ?thesis
    using abort_keeps_vote [of two_accounts pay_30 x y ?env "''timeout''"] two_accounts_unprepared by simp
qed

end
