(* ===== verification/Saga.thy ===== *)
theory Saga
  imports Bank
begin

text \<open>
  The saga service (\<^verbatim>\<open>goakt-saga\<close>): the account actor, the orchestrator (debit, credit, compensate)
  and the HTTP handler that starts it. Structure and conventions are those of the two-phase commit
  theory; this account actor has no prepared state.
\<close>

section \<open>The account actor\<close>

datatype saga_account_msg =
    SAccPostStart
  | SCreateAccount string int
  | DebitAccount string int
  | SCreditAccount string int
  | SGetAccount string
  | SAccOther

datatype saga_account_reply =
    SAccountReply string int
  | ErrInsufficientFunds
  | SAccNoReply
  | SAccUnhandled

definition SagaAccount_PreStart :: "account_rows \<Rightarrow> string \<Rightarrow> Account" where
  "SagaAccount_PreStart rows actorName = GetAccountState actorName rows"

definition SagaAccount_PostStop :: "Account \<Rightarrow> account_rows \<Rightarrow> account_rows" where
  "SagaAccount_PostStop st rows = WriteAccountState (accountID st) st rows"

definition SagaAccount_Receive :: "int \<Rightarrow> saga_account_msg \<Rightarrow> Account \<Rightarrow> saga_account_reply \<times> Account" where
  "SagaAccount_Receive t msg st =
     (case msg of
        SAccPostStart \<Rightarrow>
          (SAccNoReply,
           if st = \<lparr>accountID = [], balance = 0, createdAt = zeroTime\<rparr>
           then SetBalance 0 (SetCreatedAt zeroTime st) else st)
      | SCreateAccount aid b \<Rightarrow>
          (if createdAt st \<noteq> zeroTime then (SAccountReply (accountID st) (balance st), st)
           else (SAccountReply aid b, SetCreatedAt t (SetBalance b st)))
      | DebitAccount aid amount \<Rightarrow>
          (if balance st < amount then (ErrInsufficientFunds, st)
           else (SAccountReply aid (balance st - amount), SetBalance (balance st - amount) st))
      | SCreditAccount aid amount \<Rightarrow>
          (SAccountReply aid (balance st + amount), SetBalance (balance st + amount) st)
      | SGetAccount aid \<Rightarrow> (SAccountReply aid (balance st), st)
      | SAccOther \<Rightarrow> (SAccUnhandled, st))"

section \<open>The orchestrator\<close>

record SagaBank =
  s_live :: "string \<rightharpoonup> Account"
  s_rows :: account_rows
  s_transfers :: transfer_rows

record SagaStart =
  SS_TransferID :: string
  SS_From :: string
  SS_To :: string
  SS_Amount :: int

datatype saga_reply = SagaCompleted string | SagaFailed string string

record SagaEnv =
  se_now :: int
  s_write_err :: "nat \<Rightarrow> string option"
  s_read_fails :: bool
  s_spawn_err :: "string \<Rightarrow> string option"
  s_net :: "nat \<Rightarrow> net"

definition TransferStatusPending :: string where "TransferStatusPending = ''pending''"
definition TransferStatusCompleted :: string where "TransferStatusCompleted = ''completed''"
definition TransferStatusFailed :: string where "TransferStatusFailed = ''failed''"
definition TransferStatusCompensating :: string where "TransferStatusCompensating = ''compensating''"

definition NewSagaTransfer :: "int \<Rightarrow> string \<Rightarrow> string \<Rightarrow> string \<Rightarrow> int \<Rightarrow> Transfer" where
  "NewSagaTransfer t tid from to amount =
     \<lparr>tr_transferID = tid, tr_from = from, tr_to = to, tr_amount = amount,
      tr_status = TransferStatusPending, tr_reason = [], tr_createdAt = t, tr_updatedAt = t\<rparr>"

definition saga_write :: "SagaEnv \<Rightarrow> nat \<Rightarrow> string \<Rightarrow> Transfer \<Rightarrow> SagaBank \<Rightarrow> string option \<times> SagaBank" where
  "saga_write env k tid tr b =
     (case s_write_err env k of
        Some e \<Rightarrow> (Some e, b)
      | None \<Rightarrow> (None, b\<lparr>s_transfers := WriteTransferState tid tr (s_transfers b)\<rparr>))"

definition saga_read :: "SagaEnv \<Rightarrow> string \<Rightarrow> SagaBank \<Rightarrow> Transfer option" where
  "saga_read env tid b = (if s_read_fails env then None else GetTransferState tid (s_transfers b))"

definition saga_getOrSpawnAccount :: "SagaEnv \<Rightarrow> string \<Rightarrow> SagaBank \<Rightarrow> (string + string) \<times> SagaBank" where
  "saga_getOrSpawnAccount env aid b =
     (let (res, actors) = getOrSpawn (\<lambda>x. snd (SagaAccount_Receive (se_now env) SAccPostStart x))
            (SagaAccount_PreStart (s_rows b)) (s_spawn_err env aid) aid (s_live b)
      in (res, b\<lparr>s_live := actors\<rparr>))"

definition saga_ask :: "SagaEnv \<Rightarrow> nat \<Rightarrow> string \<Rightarrow> saga_account_msg \<Rightarrow> SagaBank \<Rightarrow> (string + saga_account_reply) \<times> SagaBank" where
  "saga_ask env k pid msg b =
     (let (res, actors) = ask (SagaAccount_Receive (se_now env)) (s_net env k) pid msg (s_live b)
      in (res, b\<lparr>s_live := actors\<rparr>))"

definition compensateAndFail ::
  "SagaEnv \<Rightarrow> string \<Rightarrow> string \<Rightarrow> int \<Rightarrow> string \<Rightarrow> string \<Rightarrow> SagaBank \<Rightarrow> saga_reply \<times> SagaBank" where
  "compensateAndFail env fromPid fromAccountID amount tid reason b =
     (let transfer = saga_read env tid b;
          b = (case transfer of
                 Some tr \<Rightarrow> snd (saga_write env 2 tid (SetStatus (se_now env) TransferStatusCompensating tr) b)
               | None \<Rightarrow> b);
          b = snd (saga_ask env 2 fromPid (SCreditAccount fromAccountID amount) b);
          b = (case transfer of
                 Some tr \<Rightarrow> snd (saga_write env 3 tid
                   (SetReason reason (SetStatus (se_now env) TransferStatusFailed tr)) b)
               | None \<Rightarrow> b) in
      (SagaFailed tid reason, b))"

definition failTransfer :: "SagaEnv \<Rightarrow> string \<Rightarrow> string \<Rightarrow> SagaBank \<Rightarrow> saga_reply \<times> SagaBank" where
  "failTransfer env tid reason b =
     (case saga_read env tid b of
        None \<Rightarrow> (SagaFailed tid reason, b)
      | Some tr \<Rightarrow>
          (SagaFailed tid reason,
           snd (saga_write env 3 tid (SetReason reason (SetStatus (se_now env) TransferStatusFailed tr)) b)))"

definition saga_credit_step :: "SagaEnv \<Rightarrow> SagaStart \<Rightarrow> Transfer \<Rightarrow> string \<Rightarrow> SagaBank \<Rightarrow> saga_reply \<times> SagaBank" where
  "saga_credit_step env msg transfer fromPid b =
     (let tid = SS_TransferID msg;
          (toPid, b) = saga_getOrSpawnAccount env (SS_To msg) b in
      case toPid of
        Inl e \<Rightarrow> compensateAndFail env fromPid (SS_From msg) (SS_Amount msg) tid (''failed to get to account: '' @ e) b
      | Inr toPid \<Rightarrow>
          let (creditReply, b) = saga_ask env 1 toPid (SCreditAccount (SS_To msg) (SS_Amount msg)) b in
          case creditReply of
            Inl e \<Rightarrow> compensateAndFail env fromPid (SS_From msg) (SS_Amount msg) tid (''credit failed: '' @ e) b
          | Inr _ \<Rightarrow>
              (SagaCompleted tid,
               snd (saga_write env 1 tid (SetStatus (se_now env) TransferStatusCompleted transfer) b)))"

definition saga_handleStartTransfer :: "SagaEnv \<Rightarrow> SagaStart \<Rightarrow> SagaBank \<Rightarrow> saga_reply \<times> SagaBank" where
  "saga_handleStartTransfer env msg b =
     (let tid = SS_TransferID msg;
          transfer = NewSagaTransfer (se_now env) tid (SS_From msg) (SS_To msg) (SS_Amount msg);
          (err, b) = saga_write env 0 tid transfer b in
      case err of
        Some e \<Rightarrow> (SagaFailed tid e, b)
      | None \<Rightarrow>
          let (fromPid, b) = saga_getOrSpawnAccount env (SS_From msg) b in
          case fromPid of
            Inl e \<Rightarrow> failTransfer env tid (''failed to get from account: '' @ e) b
          | Inr fromPid \<Rightarrow>
              let (debitReply, b) = saga_ask env 0 fromPid (DebitAccount (SS_From msg) (SS_Amount msg)) b in
              case debitReply of
                Inl e \<Rightarrow> failTransfer env tid (''debit failed: '' @ e) b
              | Inr ErrInsufficientFunds \<Rightarrow>
                  let transfer = SetReason ''insufficient funds''
                        (SetStatus (se_now env) TransferStatusFailed transfer) in
                  (SagaFailed tid ''insufficient funds'', snd (saga_write env 1 tid transfer b))
              | Inr _ \<Rightarrow> saga_credit_step env msg transfer fromPid b)"

datatype saga_status = SagaStatusReply string string string

definition saga_handleGetTransferStatus :: "string option \<Rightarrow> string \<Rightarrow> SagaBank \<Rightarrow> saga_status" where
  "saga_handleGetTransferStatus read_err tid b =
     (case read_err of
        Some e \<Rightarrow> SagaStatusReply tid ''unknown'' e
      | None \<Rightarrow>
          (case GetTransferState tid (s_transfers b) of
             None \<Rightarrow> SagaStatusReply tid ''not_found'' []
           | Some tr \<Rightarrow> SagaStatusReply (tr_transferID tr) (tr_status tr) (tr_reason tr)))"

datatype saga_msg = SagaMsgStart SagaStart | SagaMsgStatus string | SagaMsgOther

datatype saga_out = SagaOutTransfer saga_reply | SagaOutStatus saga_status | SagaUnhandled

definition SagaOrchestrator_Receive :: "SagaEnv \<Rightarrow> string option \<Rightarrow> saga_msg \<Rightarrow> SagaBank \<Rightarrow> saga_out \<times> SagaBank" where
  "SagaOrchestrator_Receive env read_err msg b =
     (case msg of
        SagaMsgStart m \<Rightarrow> (let (r, b) = saga_handleStartTransfer env m b in (SagaOutTransfer r, b))
      | SagaMsgStatus tid \<Rightarrow> (SagaOutStatus (saga_handleGetTransferStatus read_err tid b), b)
      | SagaMsgOther \<Rightarrow> (SagaUnhandled, b))"

section \<open>The request\<close>

datatype saga_http = SagaBadRequest | SagaInternalError string | SagaOk string | SagaRefused string string

definition saga_CreateTransfer ::
  "SagaEnv \<Rightarrow> string \<Rightarrow> string option \<Rightarrow> net \<Rightarrow> string \<Rightarrow> string \<Rightarrow> int \<Rightarrow> SagaBank \<Rightarrow> saga_http \<times> SagaBank" where
  "saga_CreateTransfer env uuid spawn_saga n from to amount b =
     (if from = [] \<or> to = [] \<or> amount \<le> 0 then (SagaBadRequest, b)
      else if from = to then (SagaBadRequest, b)
      else
        case spawn_saga of
          Some e \<Rightarrow> (SagaInternalError e, b)
        | None \<Rightarrow>
            let (reply, b') = saga_handleStartTransfer env
                  \<lparr>SS_TransferID = uuid, SS_From = from, SS_To = to, SS_Amount = amount\<rparr> b in
            case n of
              Lost e \<Rightarrow> (SagaInternalError e, b)
            | ReplyLost e \<Rightarrow> (SagaInternalError e, b')
            | Delivered \<Rightarrow>
                (case reply of
                   SagaCompleted tid \<Rightarrow> (SagaOk tid, b')
                 | SagaFailed tid reason \<Rightarrow> (SagaRefused tid reason, b')))"

section \<open>Balances\<close>

definition saga_bal :: "SagaBank \<Rightarrow> string \<Rightarrow> int" where
  "saga_bal b a = (case s_live b a of
      Some x \<Rightarrow> balance x
    | None \<Rightarrow> balance (GetAccountState a (s_rows b)))"

text \<open>The effect of a request on a live account, by what becomes of it.\<close>

definition processed :: "net \<Rightarrow> bool" where
  "processed n \<longleftrightarrow> (case n of Lost _ \<Rightarrow> False | _ \<Rightarrow> True)"

lemma saga_write_frame [simp]:
  "s_live (snd (saga_write env k tid tr b)) = s_live b" "saga_bal (snd (saga_write env k tid tr b)) = saga_bal b"
  by (auto simp: saga_write_def saga_bal_def fun_eq_iff split: option.splits)

lemma failTransfer_frame [simp]:
  "saga_bal (snd (failTransfer env tid reason b)) = saga_bal b"
  "fst (failTransfer env tid reason b) = SagaFailed tid reason"
  by (auto simp: failTransfer_def split: option.splits)

lemma saga_getOrSpawn_spec:
  assumes "saga_getOrSpawnAccount env aid b = (res, b')"
  shows "saga_bal b' = saga_bal b" "\<forall>a x. s_live b a = Some x \<longrightarrow> s_live b' a = Some x"
    "\<forall>pid. res = Inr pid \<longrightarrow> pid = aid \<and> s_live b' aid \<noteq> None"
  using assms
  by (auto simp: saga_getOrSpawnAccount_def getOrSpawn_def SagaAccount_PreStart_def SagaAccount_Receive_def
      SetBalance_def SetCreatedAt_def saga_bal_def fun_eq_iff Let_def split: option.splits if_splits)

lemma saga_credit_bal:
  assumes "s_live b pid \<noteq> None"
  shows "saga_bal (snd (saga_ask env k pid (SCreditAccount a amt) b)) =
     (if processed (s_net env k) then (saga_bal b)(pid := saga_bal b pid + amt) else saga_bal b)"
    and "\<forall>a. s_live b a \<noteq> None \<longrightarrow> s_live (snd (saga_ask env k pid (SCreditAccount aid amt) b)) a \<noteq> None"
  using assms
  by (auto simp: saga_ask_def ask_def SagaAccount_Receive_def SetBalance_def saga_bal_def processed_def
      fun_eq_iff Let_def split: option.splits net.splits)

lemma compensate_bal:
  assumes "s_live b fromPid \<noteq> None"
  shows "saga_bal (snd (compensateAndFail env fromPid aid amt tid reason b)) =
     (if processed (s_net env 2) then (saga_bal b)(fromPid := saga_bal b fromPid + amt) else saga_bal b)"
    and "fst (compensateAndFail env fromPid aid amt tid reason b) = SagaFailed tid reason"
  using assms saga_credit_bal(1) [of _ fromPid env 2 aid amt]
  by (auto simp: compensateAndFail_def Let_def split: option.splits)

lemma debit_ask:
  assumes "s_live b pid = Some st" and "saga_ask env k pid (DebitAccount a amt) b = (res, b')"
  obtains (lost) e where "res = Inl e" "s_net env k = Lost e" "b' = b"
  | (reply_lost) e where "res = Inl e" "s_net env k = ReplyLost e"
  | (refused) "res = Inr ErrInsufficientFunds" "balance st < amt" "b' = b"
  | (debited) aid n where "res = Inr (SAccountReply aid n)" "s_net env k = Delivered" "amt \<le> saga_bal b pid"
      "saga_bal b' = (saga_bal b)(pid := saga_bal b pid - amt)" "s_live b' pid \<noteq> None"
proof (cases "s_net env k")
  case Delivered
  show thesis
  proof (cases "balance st < amt")
    case True
    then have "res = Inr ErrInsufficientFunds" "b' = b"
      using assms Delivered by (auto simp: saga_ask_def ask_def SagaAccount_Receive_def fun_upd_idem)
    then show thesis using refused True by blast
  next
    case False
    then have "res = Inr (SAccountReply a (balance st - amt))"
      "b' = b\<lparr>s_live := (s_live b)(pid \<mapsto> SetBalance (balance st - amt) st)\<rparr>"
      using assms Delivered by (auto simp: saga_ask_def ask_def SagaAccount_Receive_def)
    moreover have "saga_bal (b\<lparr>s_live := (s_live b)(pid \<mapsto> SetBalance (balance st - amt) st)\<rparr>) =
        (saga_bal b)(pid := saga_bal b pid - amt)"
      using assms(1) by (auto simp: saga_bal_def SetBalance_def fun_eq_iff split: option.splits)
    moreover have "amt \<le> saga_bal b pid" using False assms(1) by (simp add: saga_bal_def)
    ultimately show thesis using debited Delivered by simp
  qed
next
  case (Lost e)
  then show thesis using lost assms by (auto simp: saga_ask_def ask_def split_def)
next
  case (ReplyLost e)
  then show thesis using reply_lost assms by (auto simp: saga_ask_def ask_def split_def)
qed

text \<open>
  What the credit step does to the balances, given that the source has been debited: the credit
  arrives, or the compensation restores the source, or, when the reply to the credit got lost,
  both happen.
\<close>

lemma saga_credit_step_bal:
  assumes f: "s_live b (SS_From m) \<noteq> None" and ne: "SS_From m \<noteq> SS_To m"
    and run: "saga_credit_step env m tr (SS_From m) b = (reply, b')"
  shows "case reply of
      SagaCompleted _ \<Rightarrow> s_net env 1 = Delivered \<and> saga_bal b' = (saga_bal b)(SS_To m := saga_bal b (SS_To m) + SS_Amount m)
    | SagaFailed _ _ \<Rightarrow>
        processed (s_net env 2) \<longrightarrow>
        saga_bal b' = (saga_bal b)(SS_From m := saga_bal b (SS_From m) + SS_Amount m) \<or>
        (\<exists>e. s_net env 1 = ReplyLost e) \<and>
        saga_bal b' = (saga_bal b)(SS_From m := saga_bal b (SS_From m) + SS_Amount m,
                                   SS_To m := saga_bal b (SS_To m) + SS_Amount m)"
proof -
  let ?f = "SS_From m" and ?t = "SS_To m" and ?amt = "SS_Amount m" and ?tid = "SS_TransferID m"
  obtain p b1 where g: "saga_getOrSpawnAccount env ?t b = (p, b1)" by fastforce
  note 1 = saga_getOrSpawn_spec [OF g]
  have f1: "s_live b1 ?f \<noteq> None" using f 1(2) by auto
  show ?thesis
  proof (cases p)
    case (Inl e)
    then have "compensateAndFail env ?f ?f ?amt ?tid (''failed to get to account: '' @ e) b1 = (reply, b')"
      using run g by (simp add: saga_credit_step_def Let_def)
    with compensate_bal [OF f1, of env ?f ?amt ?tid "''failed to get to account: '' @ e"] 1(1)
    show ?thesis by simp
  next
    case (Inr pid)
    then have pid: "pid = ?t" and t1: "s_live b1 ?t \<noteq> None" using 1(3) by auto
    obtain r b2 where a: "saga_ask env (Suc 0) ?t (SCreditAccount ?t ?amt) b1 = (r, b2)" by fastforce
    note credit = saga_credit_bal [OF t1, of env "Suc 0" ?t ?amt, unfolded a snd_conv]
    have f2: "s_live b2 ?f \<noteq> None"
      using saga_credit_bal(2) [OF t1, of env "Suc 0" ?t ?amt] f1 unfolding a by auto
    obtain st where st: "s_live b1 ?t = Some st" using t1 by auto
    have r: "(\<exists>v. r = Inr v) \<and> s_net env (Suc 0) = Delivered \<or> (\<exists>e. r = Inl e \<and> (s_net env (Suc 0) = Lost e \<or> s_net env (Suc 0) = ReplyLost e))"
      using a st by (cases "s_net env (Suc 0)") (auto simp: saga_ask_def ask_def split_def Let_def)
    show ?thesis
    proof (cases r)
      case (Inr v)
      have "reply = SagaCompleted ?tid" "saga_bal b' = saga_bal b2"
        using run g Inr \<open>p = Inr pid\<close> pid a by (auto simp: saga_credit_step_def Let_def)
      then show ?thesis using Inr r credit(1) 1(1) by (simp add: processed_def)
    next
      case (Inl e)
      let ?c = "compensateAndFail env ?f ?f ?amt ?tid (''credit failed: '' @ e) b2"
      have "?c = (reply, b')"
        using run g Inl \<open>p = Inr pid\<close> pid a by (simp add: saga_credit_step_def Let_def)
      moreover note compensate_bal [OF f2, of env ?f ?amt ?tid "''credit failed: '' @ e"]
      ultimately have c: "reply = SagaFailed ?tid (''credit failed: '' @ e)"
        "saga_bal b' = (if processed (s_net env 2) then (saga_bal b2)(?f := saga_bal b2 ?f + ?amt) else saga_bal b2)"
        by simp_all
      have "s_net env (Suc 0) = Lost e \<or> s_net env (Suc 0) = ReplyLost e" using r Inl by auto
      then show ?thesis
      proof
        assume n: "s_net env (Suc 0) = Lost e"
        then have "saga_bal b2 = saga_bal b" using credit(1) 1(1) by (simp add: processed_def)
        then show ?thesis using c by simp
      next
        assume n: "s_net env (Suc 0) = ReplyLost e"
        then have "saga_bal b2 = (saga_bal b)(?t := saga_bal b ?t + ?amt)" using credit(1) 1(1) by (simp add: processed_def)
        then show ?thesis using c ne n by (auto simp: fun_upd_twist)
      qed
    qed
  qed
qed

lemma saga_atomic:
  assumes ne: "SS_From m \<noteq> SS_To m" and net: "\<And>e. s_net env 0 \<noteq> ReplyLost e" "\<And>e. s_net env 1 \<noteq> ReplyLost e"
    "processed (s_net env 2)"
    and run: "saga_handleStartTransfer env m b = (reply, b')"
  shows "case reply of
      SagaCompleted _ \<Rightarrow> SS_Amount m \<le> saga_bal b (SS_From m) \<and>
        saga_bal b' = (saga_bal b)(SS_From m := saga_bal b (SS_From m) - SS_Amount m,
                                   SS_To m := saga_bal b (SS_To m) + SS_Amount m)
    | SagaFailed _ _ \<Rightarrow> saga_bal b' = saga_bal b"
proof -
  let ?f = "SS_From m" and ?t = "SS_To m" and ?amt = "SS_Amount m" and ?tid = "SS_TransferID m"
  let ?tr = "NewSagaTransfer (se_now env) ?tid ?f ?t ?amt"
  obtain e0 b0 where w: "saga_write env 0 ?tid ?tr b = (e0, b0)" by fastforce
  have 0: "saga_bal b0 = saga_bal b" using saga_write_frame(2) [of env 0 ?tid ?tr b] unfolding w by simp
  obtain p b1 where g: "saga_getOrSpawnAccount env ?f b0 = (p, b1)" by fastforce
  note 1 = saga_getOrSpawn_spec [OF g]
  note unfold = saga_handleStartTransfer_def Let_def w g prod.case
  have failed: ?thesis if "saga_handleStartTransfer env m b = failTransfer env ?tid reason c" "saga_bal c = saga_bal b" for reason c
    using failTransfer_frame [of env ?tid reason c] that run by (cases "failTransfer env ?tid reason c") simp
  show ?thesis
  proof (cases e0)
    case (Some e)
    then show ?thesis using run 0 by (auto simp: unfold)
  next
    case e0: None
    show ?thesis
    proof (cases p)
      case (Inl e)
      then show ?thesis using failed [of _ b1] e0 1(1) 0 by (simp add: unfold)
    next
      case p: (Inr pid)
      then have pid: "pid = ?f" and "s_live b1 ?f \<noteq> None" using 1(3) by auto
      then obtain st where st: "s_live b1 ?f = Some st" by auto
      obtain r b2 where a: "saga_ask env 0 ?f (DebitAccount ?f ?amt) b1 = (r, b2)" by fastforce
      from st a show ?thesis
      proof (cases rule: debit_ask)
        case (lost e)
        then show ?thesis using failed [of _ b2] e0 p pid a 1(1) 0 by (simp add: unfold)
      next
        case (reply_lost e)
        then show ?thesis using net(1) by blast
      next
        case refused
        then have "reply = SagaFailed ?tid ''insufficient funds''" "saga_bal b' = saga_bal b2"
          using run e0 p pid a by (auto simp: unfold)
        then show ?thesis using refused 1(1) 0 by simp
      next
        case (debited aid n)
        have step: "saga_credit_step env m ?tr ?f b2 = (reply, b')"
          using run e0 p pid a debited(1) by (simp add: unfold)
        have b2: "saga_bal b2 = (saga_bal b)(?f := saga_bal b ?f - ?amt)" "?amt \<le> saga_bal b ?f"
          using debited(3,4) 1(1) 0 by simp_all
        show ?thesis
          using saga_credit_step_bal [OF debited(5) ne step] net(2,3) b2 ne
          by (auto split: saga_reply.splits)
      qed
    qed
  qed
qed

definition saga_run :: "SagaEnv \<times> SagaStart \<Rightarrow> SagaBank \<Rightarrow> bool \<times> SagaBank" where
  "saga_run q b =
     (case saga_handleStartTransfer (fst q) (snd q) b of
        (SagaCompleted _, b') \<Rightarrow> (True, b')
      | (SagaFailed _ _, b') \<Rightarrow> (False, b'))"

text \<open>
  No reply to the debit or the credit gets lost and the compensation arrives; requests, writes and
  spawns may fail otherwise.
\<close>

definition saga_valid :: "SagaBank \<Rightarrow> SagaEnv \<times> SagaStart \<Rightarrow> bool" where
  "saga_valid b q \<longleftrightarrow> SS_From (snd q) \<noteq> SS_To (snd q) \<and> 0 < SS_Amount (snd q) \<and>
     (\<forall>e. s_net (fst q) 0 \<noteq> ReplyLost e \<and> s_net (fst q) 1 \<noteq> ReplyLost e) \<and> processed (s_net (fst q) 2)"

interpretation saga: atomic_transfers saga_run saga_bal "\<lambda>q. SS_From (snd q)" "\<lambda>q. SS_To (snd q)"
  "\<lambda>q. SS_Amount (snd q)" saga_valid
proof
  fix b q
  assume "saga_valid b q"
  then show "SS_From (snd q) \<noteq> SS_To (snd q) \<and> 0 < SS_Amount (snd q)" by (simp add: saga_valid_def)
next
  fix b q b'
  assume v: "saga_valid b q" and "saga_run q b = (True, b')"
  then obtain tid where "saga_handleStartTransfer (fst q) (snd q) b = (SagaCompleted tid, b')"
    by (auto simp: saga_run_def split: prod.splits saga_reply.splits)
  from saga_atomic [OF _ _ _ _ this] v
  show "SS_Amount (snd q) \<le> saga_bal b (SS_From (snd q)) \<and>
      saga_bal b' = (saga_bal b)(SS_From (snd q) := saga_bal b (SS_From (snd q)) - SS_Amount (snd q),
                       SS_To (snd q) := saga_bal b (SS_To (snd q)) + SS_Amount (snd q))"
    by (simp add: saga_valid_def)
next
  fix b q b'
  assume v: "saga_valid b q" and "saga_run q b = (False, b')"
  then obtain tid reason where "saga_handleStartTransfer (fst q) (snd q) b = (SagaFailed tid reason, b')"
    by (auto simp: saga_run_def split: prod.splits saga_reply.splits)
  from saga_atomic [OF _ _ _ _ this] v
  show "saga_bal b' = saga_bal b" by (simp add: saga_valid_def)
qed

lemma saga_reply_tid:
  "fst (saga_handleStartTransfer env m b) = SagaCompleted tid \<Longrightarrow> tid = SS_TransferID m"
  by (auto simp: saga_handleStartTransfer_def saga_credit_step_def compensateAndFail_def failTransfer_def Let_def split_def
      split: option.splits sum.splits saga_account_reply.splits)

text \<open>A run without faults.\<close>

lemma saga_faultless_run:
  assumes ne: "SS_From m \<noteq> SS_To m" and funds: "SS_Amount m \<le> saga_bal b (SS_From m)"
    and env: "\<forall>k. s_write_err env k = None" "\<forall>a. s_spawn_err env a = None" "\<forall>k. s_net env k = Delivered"
  shows "\<exists>b'. saga_handleStartTransfer env m b = (SagaCompleted (SS_TransferID m), b') \<and>
     (\<exists>tr. s_transfers b' (SS_TransferID m) = Some tr \<and> tr_status tr = TransferStatusCompleted)"
proof -
  let ?f = "SS_From m" and ?t = "SS_To m" and ?amt = "SS_Amount m" and ?tid = "SS_TransferID m"
  let ?tr = "NewSagaTransfer (se_now env) ?tid ?f ?t ?amt"
  have stored: "saga_write env k tid tr c = (None, c\<lparr>s_transfers := WriteTransferState tid tr (s_transfers c)\<rparr>)" for k tid tr c
    using env(1) by (simp add: saga_write_def)
  let ?b0 = "b\<lparr>s_transfers := WriteTransferState ?tid ?tr (s_transfers b)\<rparr>"
  have 0: "saga_bal ?b0 = saga_bal b" by (auto simp: saga_bal_def fun_eq_iff split: option.split)
  have found: "\<exists>c'. saga_getOrSpawnAccount env a c = (Inr a, c')" for a c
    using env(2) by (auto simp: saga_getOrSpawnAccount_def getOrSpawn_def Let_def split: option.splits)
  obtain b1 where g1: "saga_getOrSpawnAccount env ?f ?b0 = (Inr ?f, b1)" using found by blast
  note 1 = saga_getOrSpawn_spec [OF g1]
  obtain x where x: "s_live b1 ?f = Some x" using 1(3) by auto
  have "?amt \<le> balance x" using funds 0 1(1) x by (metis saga_bal_def option.simps(5))
  then obtain b2 where a1: "saga_ask env 0 ?f (DebitAccount ?f ?amt) b1 = (Inr (SAccountReply ?f (balance x - ?amt)), b2)"
    using x env(3) by (simp add: saga_ask_def ask_def SagaAccount_Receive_def)
  obtain b3 where g2: "saga_getOrSpawnAccount env ?t b2 = (Inr ?t, b3)" using found by blast
  obtain y where y: "s_live b3 ?t = Some y" using saga_getOrSpawn_spec(3) [OF g2] by auto
  obtain b4 where a2: "saga_ask env (Suc 0) ?t (SCreditAccount ?t ?amt) b3 = (Inr (SAccountReply ?t (balance y + ?amt)), b4)"
    using y env(3) by (simp add: saga_ask_def ask_def SagaAccount_Receive_def)
  have "\<exists>tr. WriteTransferState ?tid (SetStatus (se_now env) TransferStatusCompleted ?tr) rs ?tid = Some tr \<and>
      tr_status tr = TransferStatusCompleted" for rs
    by (auto simp: WriteTransferState_def SetStatus_def NewSagaTransfer_def split: option.splits)
  then show ?thesis
    by (simp add: saga_handleStartTransfer_def saga_credit_step_def stored g1 a1 g2 a2 Let_def)
qed

section \<open>Properties\<close>


definition saga_no_fault :: SagaEnv where
  "saga_no_fault = \<lparr>se_now = 1, s_write_err = (\<lambda>_. None), s_read_fails = False, s_spawn_err = (\<lambda>_. None),
     s_net = (\<lambda>_. Delivered)\<rparr>"

definition saga_accounts :: SagaBank where
  "saga_accounts = \<lparr>s_live = [''a'' \<mapsto> NewAccount ''a'' 100 1, ''b'' \<mapsto> NewAccount ''b'' 0 1],
     s_rows = Map.empty, s_transfers = Map.empty\<rparr>"

definition saga_pay_30 :: SagaStart where
  "saga_pay_30 = \<lparr>SS_TransferID = ''t1'', SS_From = ''a'', SS_To = ''b'', SS_Amount = 30\<rparr>"

lemma saga_no_fault_sel [simp]:
  "s_write_err saga_no_fault k = None" "s_spawn_err saga_no_fault a = None" "s_net saga_no_fault k = Delivered"
  by (simp_all add: saga_no_fault_def)

lemma saga_pay_30_sel [simp]:
  "SS_TransferID saga_pay_30 = ''t1''" "SS_From saga_pay_30 = ''a''" "SS_To saga_pay_30 = ''b''" "SS_Amount saga_pay_30 = 30"
  by (simp_all add: saga_pay_30_def)

lemma saga_accounts_bal [simp]: "saga_bal saga_accounts a = (if a = ''a'' then 100 else 0)"
  by (simp add: saga_bal_def saga_accounts_def NewAccount_def GetAccountState_def)


text \<open>
  A saga that nothing strikes goes through: with enough funds the transfer completes, the balances
  move, and the stored transfer is completed.
\<close>

theorem saga_completes:
  assumes ne: "SS_From m \<noteq> SS_To m" and funds: "SS_Amount m \<le> saga_bal b (SS_From m)"
    and env: "\<forall>k. s_write_err env k = None" "\<forall>a. s_spawn_err env a = None" "\<forall>k. s_net env k = Delivered"
  shows "\<exists>b' tr. saga_handleStartTransfer env m b = (SagaCompleted (SS_TransferID m), b') \<and>
     saga_bal b' = (saga_bal b)(SS_From m := saga_bal b (SS_From m) - SS_Amount m, SS_To m := saga_bal b (SS_To m) + SS_Amount m) \<and>
     s_transfers b' (SS_TransferID m) = Some tr \<and> tr_status tr = TransferStatusCompleted"
proof -
  obtain b' tr where r: "saga_handleStartTransfer env m b = (SagaCompleted (SS_TransferID m), b')"
    "s_transfers b' (SS_TransferID m) = Some tr" "tr_status tr = TransferStatusCompleted"
    using saga_faultless_run [OF ne funds env] by blast
  with saga_atomic [OF ne _ _ _ r(1)] env(3) show ?thesis by (simp add: processed_def)
qed

theorem saga_completes_witness:
  "\<exists>b'. saga_handleStartTransfer saga_no_fault saga_pay_30 saga_accounts = (SagaCompleted ''t1'', b') \<and>
     saga_bal b' ''a'' = 70 \<and> saga_bal b' ''b'' = 30"
  using saga_completes [of saga_pay_30 saga_accounts saga_no_fault] by auto

text \<open>
  Over any sequence of such transfers between accounts of a finite set the total of the set stays
  the same and no balance gets negative.
\<close>

theorem saga_conserves:
  assumes ok: "accepted (\<lambda>q b. Some (snd (saga_run q b))) saga_valid qs b"
    and A: "finite A" "\<forall>q \<in> set qs. SS_From (snd q) \<in> A \<and> SS_To (snd q) \<in> A" and nonneg: "\<forall>a. 0 \<le> saga_bal b a"
  shows "(\<Sum>a\<in>A. saga_bal (fold (\<lambda>q b. snd (saga_run q b)) qs b) a) = (\<Sum>a\<in>A. saga_bal b a) \<and>
     (\<forall>a. 0 \<le> saga_bal (fold (\<lambda>q b. snd (saga_run q b)) qs b) a)"
  using saga.transfers_conserve [OF ok A] saga.transfers_nonneg [OF ok nonneg] by blast

theorem saga_conserves_witness:
  "saga_bal (fold (\<lambda>q b. snd (saga_run q b)) [(saga_no_fault, saga_pay_30)] saga_accounts) ''a'' +
   saga_bal (fold (\<lambda>q b. snd (saga_run q b)) [(saga_no_fault, saga_pay_30)] saga_accounts) ''b'' = 100"
proof -
  have "accepted (\<lambda>q b. Some (snd (saga_run q b))) saga_valid [(saga_no_fault, saga_pay_30)] saga_accounts"
    by (simp add: saga_valid_def processed_def)
  then show ?thesis
    using saga_conserves [of "[(saga_no_fault, saga_pay_30)]" saga_accounts "{''a'', ''b''}"] by simp
qed

text \<open>
  When the reply to the credit gets lost, the saga compensates although the credit was booked:
  the transfer fails, the source has its money back, and the destination keeps the amount.
\<close>

theorem lost_credit_reply:
  assumes ne: "SS_From m \<noteq> SS_To m" and live: "s_live b (SS_From m) = Some x" "s_live b (SS_To m) = Some y"
    and funds: "SS_Amount m \<le> balance x" and w: "s_write_err env 0 = None"
    and net: "s_net env 0 = Delivered" "s_net env 1 = ReplyLost e" "s_net env 2 = Delivered"
    and run: "saga_handleStartTransfer env m b = (reply, b')"
  shows "reply = SagaFailed (SS_TransferID m) (''credit failed: '' @ e) \<and>
    saga_bal b' = (saga_bal b)(SS_To m := saga_bal b (SS_To m) + SS_Amount m)"
proof -
  let ?f = "SS_From m" and ?t = "SS_To m" and ?amt = "SS_Amount m" and ?tid = "SS_TransferID m"
  let ?tr = "NewSagaTransfer (se_now env) ?tid ?f ?t ?amt"
  let ?b0 = "b\<lparr>s_transfers := WriteTransferState ?tid ?tr (s_transfers b)\<rparr>"
  let ?b1 = "?b0\<lparr>s_live := (s_live b)(?f \<mapsto> SetBalance (balance x - ?amt) x)\<rparr>"
  let ?b2 = "?b1\<lparr>s_live := (s_live ?b1)(?t \<mapsto> SetBalance (balance y + ?amt) y)\<rparr>"
  have spawn: "saga_getOrSpawnAccount env a c = (Inr a, c)" if "s_live c a = Some z" for a c z
    using that by (simp add: saga_getOrSpawnAccount_def getOrSpawn_def)
  have w0: "saga_write env 0 ?tid ?tr b = (None, ?b0)" using w by (simp add: saga_write_def)
  have debit: "saga_ask env 0 ?f (DebitAccount ?f ?amt) ?b0 = (Inr (SAccountReply ?f (balance x - ?amt)), ?b1)"
    using live(1) funds net(1) by (simp add: saga_ask_def ask_def SagaAccount_Receive_def)
  have credit: "saga_ask env (Suc 0) ?t (SCreditAccount ?t ?amt) ?b1 = (Inl e, ?b2)"
    using live(2) net(2) ne by (simp add: saga_ask_def ask_def SagaAccount_Receive_def)
  have "saga_handleStartTransfer env m b = compensateAndFail env ?f ?f ?amt ?tid (''credit failed: '' @ e) ?b2"
    using w0 debit credit spawn live ne
    by (simp add: saga_handleStartTransfer_def saga_credit_step_def Let_def)
  then have c: "compensateAndFail env ?f ?f ?amt ?tid (''credit failed: '' @ e) ?b2 = (reply, b')" using run by simp
  have f2: "s_live ?b2 ?f \<noteq> None" by simp
  note comp = compensate_bal [OF f2, of env ?f ?amt ?tid "''credit failed: '' @ e", unfolded c fst_conv snd_conv]
  have "saga_bal ?b2 = (saga_bal b)(?f := saga_bal b ?f - ?amt, ?t := saga_bal b ?t + ?amt)"
    using live ne by (auto simp: saga_bal_def SetBalance_def fun_eq_iff split: option.splits)
  then have "saga_bal b' = (saga_bal b)(?t := saga_bal b ?t + ?amt)"
    using comp(1) net(3) ne by (auto simp: processed_def)
  with comp(2) show ?thesis by blast
qed

theorem lost_credit_reply_witness:
  "saga_bal (snd (saga_handleStartTransfer
      (saga_no_fault\<lparr>s_net := (\<lambda>k. if k = 1 then ReplyLost ''timeout'' else Delivered)\<rparr>) saga_pay_30 saga_accounts)) ''b'' = 30"
proof -
  let ?env = "saga_no_fault\<lparr>s_net := (\<lambda>k. if k = 1 then ReplyLost ''timeout'' else Delivered)\<rparr>"
  obtain x y where "s_live saga_accounts (SS_From saga_pay_30) = Some x" "s_live saga_accounts (SS_To saga_pay_30) = Some y"
    "SS_Amount saga_pay_30 \<le> balance x"
    by (simp add: saga_accounts_def NewAccount_def)
  moreover obtain reply b' where "saga_handleStartTransfer ?env saga_pay_30 saga_accounts = (reply, b')" by fastforce
  ultimately show ?thesis
    using lost_credit_reply [of saga_pay_30 saga_accounts x y ?env "''timeout''" reply b'] by (simp add: saga_no_fault_def)
qed

end
