(* ===== verification/Transfer_Service.thy ===== *)
theory Transfer_Service
  imports TwoPC Saga
begin

text \<open>
  The other HTTP handlers of the two transfer services (\<^verbatim>\<open>service/service.go\<close> of \<^verbatim>\<open>goakt-2pc\<close> and \<^verbatim>\<open>goakt-saga\<close>): accounts are
  created, read and credited, and the state of a transfer is asked for. A request body that cannot be decoded is
  \<open>Inl\<close> of the decoder's error. A message an account does not handle is never answered, so the request ends
  with the error of the runtime, which is an argument like the outcome of a look-up.
\<close>

section \<open>Answers\<close>

datatype account_http =
    AccountOk string int
  | AccountNotFound
  | AccountBadRequest string
  | AccountError string

datatype status_http = StatusOk string string "string option" | StatusError string

record RequestEnv =
  re_lookup_err :: "string option"
  re_timeout :: string
  re_read_err :: "string option"
  re_coordinator :: bool
  re_net :: net

definition optional_reason :: "string \<Rightarrow> string option" where
  "optional_reason r = (if r = [] then None else Some r)"

section \<open>Two-phase commit\<close>

definition account_response :: "RequestEnv \<Rightarrow> string + account_reply \<Rightarrow> account_http" where
  "account_response q res =
     (case res of
        Inl err \<Rightarrow> AccountError err
      | Inr (AccountReply aid b) \<Rightarrow> AccountOk aid b
      | Inr AccUnhandled \<Rightarrow> AccountError (re_timeout q)
      | Inr AccNoReply \<Rightarrow> AccountError (re_timeout q)
      | Inr _ \<Rightarrow> AccountError ''invalid reply type'')"

definition svc_CreateAccount ::
    "TransferEnv \<Rightarrow> RequestEnv \<Rightarrow> string + string \<times> int \<Rightarrow> Bank \<Rightarrow> account_http \<times> Bank" where
  "svc_CreateAccount env q req b =
     (case req of
        Inl err \<Rightarrow> (AccountBadRequest (''invalid request: '' @ err), b)
      | Inr (aid, n) \<Rightarrow>
          (case getOrSpawnAccount env aid b of
             (Inl err, b) \<Rightarrow> (AccountError err, b)
           | (Inr pid, b) \<Rightarrow>
               (case ask_account env 0 pid (CreateAccount aid n) b of (res, b) \<Rightarrow> (account_response q res, b))))"

definition svc_ask_found ::
    "TransferEnv \<Rightarrow> RequestEnv \<Rightarrow> string \<Rightarrow> account_msg \<Rightarrow> Bank \<Rightarrow> account_http \<times> Bank" where
  "svc_ask_found env q aid m b =
     (case re_lookup_err q of
        Some err \<Rightarrow> (AccountError err, b)
      | None \<Rightarrow>
          if live b aid = None then (AccountNotFound, b)
          else (case ask_account env 0 aid m b of (res, b) \<Rightarrow> (account_response q res, b)))"

definition svc_GetAccount :: "TransferEnv \<Rightarrow> RequestEnv \<Rightarrow> string \<Rightarrow> Bank \<Rightarrow> account_http \<times> Bank" where
  "svc_GetAccount env q aid b = svc_ask_found env q aid (GetAccount aid) b"

definition svc_CreditAccount :: "TransferEnv \<Rightarrow> RequestEnv \<Rightarrow> string + int \<Rightarrow> string \<Rightarrow> Bank \<Rightarrow> account_http \<times> Bank" where
  "svc_CreditAccount env q req aid b =
     (case req of
        Inl err \<Rightarrow> (AccountBadRequest (''invalid request: '' @ err), b)
      | Inr n \<Rightarrow> svc_ask_found env q aid (CreditAccount aid n) b)"

definition svc_GetTransfer :: "RequestEnv \<Rightarrow> string \<Rightarrow> Bank \<Rightarrow> status_http" where
  "svc_GetTransfer q tid b =
     (case re_lookup_err q of
        Some err \<Rightarrow> StatusError err
      | None \<Rightarrow>
          if \<not> re_coordinator q then StatusOk tid ''not_found'' (Some ''not_found'')
          else
            (case re_net q of
               Lost err \<Rightarrow> StatusError err
             | ReplyLost err \<Rightarrow> StatusError err
             | Delivered \<Rightarrow>
                 (case handleGetTransferStatus (re_read_err q) tid b of
                    TransferStatusReply i status reason \<Rightarrow> StatusOk i status (optional_reason reason))))"

section \<open>Saga\<close>

definition saga_account_response :: "RequestEnv \<Rightarrow> string + saga_account_reply \<Rightarrow> account_http" where
  "saga_account_response q res =
     (case res of
        Inl err \<Rightarrow> AccountError err
      | Inr (SAccountReply aid b) \<Rightarrow> AccountOk aid b
      | Inr SAccUnhandled \<Rightarrow> AccountError (re_timeout q)
      | Inr SAccNoReply \<Rightarrow> AccountError (re_timeout q)
      | Inr _ \<Rightarrow> AccountError ''invalid reply type'')"

definition saga_svc_CreateAccount ::
    "SagaEnv \<Rightarrow> RequestEnv \<Rightarrow> string + string \<times> int \<Rightarrow> SagaBank \<Rightarrow> account_http \<times> SagaBank" where
  "saga_svc_CreateAccount env q req b =
     (case req of
        Inl err \<Rightarrow> (AccountBadRequest (''invalid request: '' @ err), b)
      | Inr (aid, n) \<Rightarrow>
          (case saga_getOrSpawnAccount env aid b of
             (Inl err, b) \<Rightarrow> (AccountError err, b)
           | (Inr pid, b) \<Rightarrow>
               (case saga_ask env 0 pid (SCreateAccount aid n) b of (res, b) \<Rightarrow> (saga_account_response q res, b))))"

definition saga_svc_ask_found ::
    "SagaEnv \<Rightarrow> RequestEnv \<Rightarrow> string \<Rightarrow> saga_account_msg \<Rightarrow> SagaBank \<Rightarrow> account_http \<times> SagaBank" where
  "saga_svc_ask_found env q aid m b =
     (case re_lookup_err q of
        Some err \<Rightarrow> (AccountError err, b)
      | None \<Rightarrow>
          if s_live b aid = None then (AccountNotFound, b)
          else (case saga_ask env 0 aid m b of (res, b) \<Rightarrow> (saga_account_response q res, b)))"

definition saga_svc_GetAccount :: "SagaEnv \<Rightarrow> RequestEnv \<Rightarrow> string \<Rightarrow> SagaBank \<Rightarrow> account_http \<times> SagaBank" where
  "saga_svc_GetAccount env q aid b = saga_svc_ask_found env q aid (SGetAccount aid) b"

definition saga_svc_CreditAccount ::
    "SagaEnv \<Rightarrow> RequestEnv \<Rightarrow> string + int \<Rightarrow> string \<Rightarrow> SagaBank \<Rightarrow> account_http \<times> SagaBank" where
  "saga_svc_CreditAccount env q req aid b =
     (case req of
        Inl err \<Rightarrow> (AccountBadRequest (''invalid request: '' @ err), b)
      | Inr n \<Rightarrow> saga_svc_ask_found env q aid (SCreditAccount aid n) b)"

definition saga_svc_GetTransfer :: "RequestEnv \<Rightarrow> string \<Rightarrow> SagaBank \<Rightarrow> status_http" where
  "saga_svc_GetTransfer q tid b =
     (case re_lookup_err q of
        Some err \<Rightarrow> StatusError err
      | None \<Rightarrow>
          if \<not> re_coordinator q then StatusOk tid ''not_found'' (Some ''not_found'')
          else
            (case re_net q of
               Lost err \<Rightarrow> StatusError err
             | ReplyLost err \<Rightarrow> StatusError err
             | Delivered \<Rightarrow>
                 (case saga_handleGetTransferStatus (re_read_err q) tid b of
                    SagaStatusReply i status reason \<Rightarrow> StatusOk i status (optional_reason reason))))"

section \<open>Credits by request\<close>

text \<open>
  C32: The account actor of the two-phase commit service has no case for a credit: whatever the state and the
  faults, a credit request is never confirmed and changes no balance.
\<close>
theorem credit_request_refused:
  "(\<forall>i x. fst (svc_CreditAccount env q req aid b) \<noteq> AccountOk i x) \<and> bal (snd (svc_CreditAccount env q req aid b)) = bal b"
  by (auto simp: svc_CreditAccount_def svc_ask_found_def account_response_def ask_account_def ask_def Account_Receive_def
      bal_def fun_eq_iff Let_def split: sum.splits option.splits net.splits)

text \<open>The saga service books a credit that is delivered, and answers with the new balance.\<close>

lemma saga_credit_request:
  assumes "re_lookup_err q = None" "s_live b aid = Some st" "s_net env 0 = Delivered"
  shows "saga_svc_CreditAccount env q (Inr n) aid b =
    (AccountOk aid (balance st + n), b\<lparr>s_live := (s_live b)(aid \<mapsto> SetBalance (balance st + n) st)\<rparr>)"
  using assms
  by (simp add: saga_svc_CreditAccount_def saga_svc_ask_found_def saga_ask_def ask_def SagaAccount_Receive_def
      saga_account_response_def)

section \<open>The state of a transfer\<close>

lemma transfers_frame:
  "transfers (snd (getOrSpawnAccount env aid b)) = transfers b"
  "transfers (snd (ask_account env k pid m b)) = transfers b"
  by (simp_all add: getOrSpawnAccount_def ask_account_def Let_def split: prod.split)

lemma abortTransfer_fails: "abortTransfer env tid reason b = (r, b') \<Longrightarrow> \<exists>why. r = TransferFailed tid why"
  by (auto simp: abortTransfer_def Let_def split: option.splits if_splits)

text \<open>The row of a transfer names that transfer.\<close>

definition named_row :: "string \<Rightarrow> Bank \<Rightarrow> bool" where
  "named_row tid b \<longleftrightarrow> (\<exists>tr. transfers b tid = Some tr \<and> tr_transferID tr = tid)"

lemma named_row_write:
  assumes "tr_transferID tr = tid" and "transfers b tid = None \<or> named_row tid b" and "write_err env k = None"
  shows "\<exists>tr'. transfers (snd (write_transfer env k tid tr b)) tid = Some tr' \<and> tr_transferID tr' = tid
    \<and> tr_status tr' = tr_status tr \<and> tr_reason tr' = tr_reason tr"
  using assms by (auto simp: write_transfer_def WriteTransferState_def named_row_def)

lemma named_row_frame [simp]:
  "named_row tid (snd (getOrSpawnAccount env aid b)) = named_row tid b"
  "named_row tid (snd (ask_account env k pid m b)) = named_row tid b"
  by (simp_all add: named_row_def transfers_frame)

lemma commit_phase_stores:
  assumes "commit_phase env m tr p1 p2 b = (r, b')" and "write_err env 2 = None" and "named_row (ST_TransferID m) b"
    and "tr_transferID tr = ST_TransferID m" and "tr_reason tr = []"
  shows "\<exists>tr'. transfers b' (ST_TransferID m) = Some tr' \<and> tr_transferID tr' = ST_TransferID m
    \<and> tr_status tr' = TransferStatusCommitted \<and> tr_reason tr' = []"
  using assms named_row_write [of "SetStatus (te_now env) TransferStatusCommitted tr" "ST_TransferID m" _ env 2]
  by (fastforce simp: commit_phase_def Let_def SetStatus_def)

lemma prepare_phase_commits:
  assumes "prepare_phase env m tr p1 p2 b = (TransferCompleted tid, b')"
  shows "tid = ST_TransferID m \<and> (\<exists>b1. commit_phase env m tr p1 p2 b1 = (TransferCompleted tid, b')
    \<and> named_row (ST_TransferID m) b1 = named_row (ST_TransferID m) b)"
proof -
  obtain r1 b1 where 1: "ask_account env 0 p1 (PrepareTransfer (ST_TransferID m) (ST_From m) (ST_Amount m) True) b = (r1, b1)"
    by fastforce
  obtain r2 b2 where 2: "ask_account env 1 p2 (PrepareTransfer (ST_TransferID m) (ST_To m) (ST_Amount m) False) b1 = (r2, b2)"
    by fastforce
  have "named_row (ST_TransferID m) b2 = named_row (ST_TransferID m) b"
    using named_row_frame(2) [of "ST_TransferID m" env 0 p1 _ b] named_row_frame(2) [of "ST_TransferID m" env 1 p2 _ b1] 1 2
    by (metis snd_conv)
  moreover have "commit_phase env m tr p1 p2 b2 = (TransferCompleted tid, b')"
    using assms unfolding prepare_phase_def Let_def 1 prod.case
    by (auto simp: 2 [unfolded One_nat_def] dest: abortTransfer_fails split: sum.splits account_reply.splits)
  moreover from this have "tid = ST_TransferID m" by (simp add: commit_phase_def Let_def)
  ultimately show ?thesis by blast
qed

lemma completed_is_committed:
  assumes run: "handleStartTransfer env m b = (TransferCompleted tid, b')" and stored: "write_err env 2 = None"
    and fresh: "transfers b (ST_TransferID m) = None"
  shows "tid = ST_TransferID m \<and> (\<exists>tr. transfers b' tid = Some tr \<and> tr_transferID tr = tid
    \<and> tr_status tr = TransferStatusCommitted \<and> tr_reason tr = [])"
proof -
  let ?tid = "ST_TransferID m"
  let ?tr = "NewTransfer (te_now env) ?tid (ST_From m) (ST_To m) (ST_Amount m)"
  let ?tr' = "SetStatus (te_now env) TransferStatusPrepared ?tr"
  have tr: "tr_transferID ?tr = ?tid" "tr_transferID ?tr' = ?tid" "tr_reason ?tr' = []"
    by (simp_all add: NewTransfer_def SetStatus_def)
  obtain e0 b0 where 0: "write_transfer env 0 ?tid ?tr b = (e0, b0)" by fastforce
  obtain f b1 where 1: "getOrSpawnAccount env (ST_From m) b0 = (f, b1)" by fastforce
  obtain t b2 where 2: "getOrSpawnAccount env (ST_To m) b1 = (t, b2)" by fastforce
  obtain e3 b3 where 3: "write_transfer env 1 ?tid ?tr' b2 = (e3, b3)" by fastforce
  from run obtain fp tp where ok: "e0 = None" "f = Inr fp" "t = Inr tp" "e3 = None"
    and phase: "prepare_phase env m ?tr' fp tp b3 = (TransferCompleted tid, b')"
    unfolding handleStartTransfer_def Let_def 0 prod.case
    by (auto simp: 1 2 3 [unfolded One_nat_def] dest: abortTransfer_fails split: option.splits sum.splits)
  have w: "write_err env 0 = None" "write_err env 1 = None"
    using 0 3 ok by (auto simp: write_transfer_def split: option.splits)
  have "named_row ?tid b0" using named_row_write [OF tr(1) _ w(1)] fresh 0 unfolding named_row_def by (metis snd_conv)
  then have "named_row ?tid b2" using named_row_frame(1) 1 2 by (metis snd_conv)
  then have "named_row ?tid b3" using named_row_write [OF tr(2) _ w(2)] 3 unfolding named_row_def by (metis snd_conv)
  with prepare_phase_commits [OF phase] obtain b4 where "tid = ?tid" "named_row ?tid b4"
    "commit_phase env m ?tr' fp tp b4 = (TransferCompleted tid, b')" by blast
  with commit_phase_stores [OF this(3) stored this(2) tr(2,3)] show ?thesis by simp
qed

text \<open>
  A transfer that was confirmed under a fresh id, and whose last write succeeded, is reported as committed to whoever
  asks for it afterwards.
\<close>
theorem transfer_status_reported:
  assumes run: "CreateTransfer env uuid spawn n from to amount b = (TransferOk tid, b')"
    and stored: "write_err env 2 = None" and fresh: "transfers b uuid = None"
    and q: "re_lookup_err q = None" "re_coordinator q" "re_net q = Delivered" "re_read_err q = None"
  shows "tid = uuid \<and> svc_GetTransfer q uuid b' = StatusOk uuid ''committed'' None"
proof -
  let ?m = "\<lparr>ST_TransferID = uuid, ST_From = from, ST_To = to, ST_Amount = amount\<rparr>"
  from run have "handleStartTransfer env ?m b = (TransferCompleted tid, b')"
    by (auto simp: CreateTransfer_def Let_def split: if_splits option.splits prod.splits net.splits transfer_reply.splits)
  from completed_is_committed [OF this stored] fresh obtain tr where "tid = uuid" "transfers b' uuid = Some tr"
    "tr_transferID tr = uuid" "tr_status tr = TransferStatusCommitted" "tr_reason tr = []" by auto
  then show ?thesis
    by (simp add: svc_GetTransfer_def q handleGetTransferStatus_def GetTransferState_def optional_reason_def TransferStatusCommitted_def)
qed

definition calm_env :: TransferEnv where
  "calm_env = \<lparr>te_now = 5, write_err = (\<lambda>_. None), read_fails = False, spawn_err = (\<lambda>_. None), te_net = (\<lambda>_. Delivered)\<rparr>"

definition calm_request :: RequestEnv where
  "calm_request = \<lparr>re_lookup_err = None, re_timeout = ''request timed out'', re_read_err = None, re_coordinator = True, re_net = Delivered\<rparr>"

definition two_accounts :: Bank where
  "two_accounts = \<lparr>live = Map.empty, rows = [''a'' \<mapsto> (10, 1), ''b'' \<mapsto> (0, 1)], transfers = Map.empty\<rparr>"

theorem transfer_status_reported_witness:
  "\<exists>b'. CreateTransfer calm_env ''t'' None Delivered ''a'' ''b'' 4 two_accounts = (TransferOk ''t'', b')
     \<and> svc_GetTransfer calm_request ''t'' b' = StatusOk ''t'' ''committed'' None"
proof -
  obtain b' where run: "CreateTransfer calm_env ''t'' None Delivered ''a'' ''b'' 4 two_accounts = (TransferOk ''t'', b')"
    by (simp add: CreateTransfer_def handleStartTransfer_def prepare_phase_def commit_phase_def write_transfer_def
        getOrSpawnAccount_def getOrSpawn_def ask_account_def ask_def Account_Receive_def handlePrepareTransfer_def
        AccountEntity_PreStart_def GetAccountState_def NewAccount_def Let_def calm_env_def two_accounts_def)
  with transfer_status_reported [OF run, of calm_request] show ?thesis
    by (simp add: calm_env_def calm_request_def two_accounts_def)
qed

end
