(* ===== verification/Accounts.thy ===== *)
theory Accounts
  imports Actor
begin

text \<open>
  The durable accounts of \<^verbatim>\<open>goakt-persistence\<close> (an actor) and \<^verbatim>\<open>goakt-grains\<close> (a virtual actor) over the in-memory store
  of \<^verbatim>\<open>datastore.go\<close>. The store keeps pointers: after the first write the record in the store and the one the
  account works on are the same object, so the records live in an explicit heap of cells. Amounts are
  integers, which \<^verbatim>\<open>float64\<close> represents exactly below \<open>2 ^ 53\<close>.

  The locale \<open>durable_account\<close> states what a receive function has to do with the cell and the store; the ledger
  of a whole system of such accounts, over any deliveries, stops and restarts, is proved once in it.
\<close>

section \<open>Records and the store\<close>

record PbAccount =
  pa_AccountId :: string
  pa_AccountBalance :: int

record Memory =
  cells :: "nat \<Rightarrow> PbAccount"
  next_cell :: nat
  db :: "string \<rightharpoonup> nat"
  connected :: bool

definition new_Account :: "Memory \<Rightarrow> nat \<times> Memory" where
  "new_Account M = (next_cell M,
     M\<lparr>cells := (cells M)(next_cell M := \<lparr>pa_AccountId = [], pa_AccountBalance = 0\<rparr>), next_cell := next_cell M + 1\<rparr>)"

definition NewMemoryStore :: Memory where
  "NewMemoryStore = \<lparr>cells = (\<lambda>_. \<lparr>pa_AccountId = [], pa_AccountBalance = 0\<rparr>), next_cell = 0, db = Map.empty, connected = False\<rparr>"

definition store_Connect :: "Memory \<Rightarrow> Memory" where
  "store_Connect M = (if connected M then M else M\<lparr>connected := True\<rparr>)"

definition store_Ping :: "Memory \<Rightarrow> Memory" where
  "store_Ping M = (if \<not> connected M then store_Connect M else M)"

definition store_Disconnect :: "Memory \<Rightarrow> Memory" where
  "store_Disconnect M = (if \<not> connected M then M else M\<lparr>db := Map.empty, connected := False\<rparr>)"

definition store_WriteState :: "string \<Rightarrow> nat \<Rightarrow> Memory \<Rightarrow> (string, Memory) res" where
  "store_WriteState persistenceID state M =
     (if \<not> connected M then Err ''store is not connected'' else Ok (M\<lparr>db := (db M)(persistenceID \<mapsto> state)\<rparr>))"

definition store_GetLatestState :: "string \<Rightarrow> Memory \<Rightarrow> (string, nat \<times> Memory) res" where
  "store_GetLatestState persistenceID M =
     (if \<not> connected M then Err ''store is not connected''
      else case db M persistenceID of
        None \<Rightarrow> Ok (new_Account M)
      | Some p \<Rightarrow> Ok (p, M))"

section \<open>The two accounts\<close>

record holder =
  hd_id :: string
  hd_created :: bool
  hd_state :: nat

datatype account_msg =
    CreateAccount string int
  | CreditAccount string int
  | GetAccount string
  | PostStart
  | OtherMsg

datatype account_reply = Response nat | Failed string | NoReply | Unhandled

definition add_balance :: "nat \<Rightarrow> int \<Rightarrow> Memory \<Rightarrow> Memory" where
  "add_balance p n M = M\<lparr>cells := (cells M)(p := (cells M p)\<lparr>pa_AccountBalance := pa_AccountBalance (cells M p) + n\<rparr>)\<rparr>"

definition recoverFromStore :: "holder \<Rightarrow> Memory \<Rightarrow> (string, holder \<times> Memory) res" where
  "recoverFromStore e M =
     (case store_GetLatestState (hd_id e) M of
        Err err \<Rightarrow> Err (''failed to get the latest state: '' @ err)
      | Ok (p, M) \<Rightarrow> Ok (e\<lparr>hd_state := p\<rparr>, M))"

definition Entity_PreStart :: "string \<Rightarrow> Memory \<Rightarrow> (string, holder \<times> Memory) res" where
  "Entity_PreStart name M =
     (let (p, M) = new_Account M in recoverFromStore \<lparr>hd_id = name, hd_created = False, hd_state = p\<rparr> M)"

definition Entity_Receive :: "account_msg \<Rightarrow> holder \<Rightarrow> Memory \<Rightarrow> holder \<times> Memory \<times> account_reply" where
  "Entity_Receive m e M =
     (case m of
        CreateAccount i n \<Rightarrow>
          if hd_id e \<noteq> i then (e, M, Unhandled)
          else if hd_created e then (e, M, NoReply)
          else let M = add_balance (hd_state e) n M in
            (case store_WriteState (hd_id e) (hd_state e) M of
               Err err \<Rightarrow> (e, M, Failed err)
             | Ok M \<Rightarrow> (e, M, Response (hd_state e)))
      | CreditAccount i n \<Rightarrow>
          if hd_id e \<noteq> i then (e, M, Unhandled)
          else let M = add_balance (hd_state e) n M in
            (case store_WriteState (hd_id e) (hd_state e) M of
               Err err \<Rightarrow> (e, M, Failed err)
             | Ok M \<Rightarrow> (e, M, Response (hd_state e)))
      | GetAccount i \<Rightarrow> if hd_id e \<noteq> i then (e, M, Unhandled) else (e, M, Response (hd_state e))
      | PostStart \<Rightarrow> (e, M, NoReply)
      | OtherMsg \<Rightarrow> (e, M, Unhandled))"

definition Entity_PostStop :: "holder \<Rightarrow> Memory \<Rightarrow> (string, Memory) res" where
  "Entity_PostStop e M = store_WriteState (hd_id e) (hd_state e) M"

definition Grain_OnActivate :: "string \<Rightarrow> Memory \<Rightarrow> (string, holder \<times> Memory) res" where
  "Grain_OnActivate name M =
     (let (p, M) = new_Account M in recoverFromStore \<lparr>hd_id = name, hd_created = False, hd_state = p\<rparr> M)"

definition Grain_OnReceive :: "account_msg \<Rightarrow> holder \<Rightarrow> Memory \<Rightarrow> holder \<times> Memory \<times> account_reply" where
  "Grain_OnReceive m g M =
     (case m of
        CreateAccount _ n \<Rightarrow>
          if hd_created g then (g, M, Failed (''account '' @ hd_id g @ '' already created''))
          else let M = add_balance (hd_state g) n M in
            (case store_WriteState (hd_id g) (hd_state g) M of
               Err err \<Rightarrow> (g, M, Failed (''failed to write state: '' @ err))
             | Ok M \<Rightarrow> (g, M, Response (hd_state g)))
      | CreditAccount _ n \<Rightarrow>
          let M = add_balance (hd_state g) n M in
            (case store_WriteState (hd_id g) (hd_state g) M of
               Err err \<Rightarrow> (g, M, Failed (''failed to write state: '' @ err))
             | Ok M \<Rightarrow> (g, M, Response (hd_state g)))
      | GetAccount _ \<Rightarrow> (g, M, Response (hd_state g))
      | _ \<Rightarrow> (g, M, Unhandled))"

definition Grain_OnDeactivate :: "holder \<Rightarrow> Memory \<Rightarrow> (string, Memory) res" where
  "Grain_OnDeactivate g M = store_WriteState (hd_id g) (hd_state g) M"

section \<open>Systems of accounts\<close>

text \<open>
  What the runtime does with the accounts: a message activates the account it is for when it is not active, and an
  active account may be stopped at any time.
\<close>

record bank =
  mem :: Memory
  live :: "string \<rightharpoonup> holder"

datatype bank_event = Deliver string account_msg | Halt string

type_synonym receiver = "account_msg \<Rightarrow> holder \<Rightarrow> Memory \<Rightarrow> holder \<times> Memory \<times> account_reply"
type_synonym starter = "string \<Rightarrow> Memory \<Rightarrow> (string, holder \<times> Memory) res"
type_synonym stopper = "holder \<Rightarrow> Memory \<Rightarrow> (string, Memory) res"

definition activate :: "starter \<Rightarrow> string \<Rightarrow> bank \<Rightarrow> (string, bank) res" where
  "activate start i S =
     (case live S i of
        Some e \<Rightarrow> Ok S
      | None \<Rightarrow>
          (case start i (mem S) of
             Err err \<Rightarrow> Err err
           | Ok (e, M) \<Rightarrow> Ok \<lparr>mem = M, live = (live S)(i \<mapsto> e)\<rparr>))"

definition deliver_to :: "receiver \<Rightarrow> string \<Rightarrow> account_msg \<Rightarrow> bank \<Rightarrow> bank \<times> account_reply" where
  "deliver_to receive i m S =
     (case live S i of
        None \<Rightarrow> (S, NoReply)
      | Some e \<Rightarrow> (case receive m e (mem S) of (e, M, r) \<Rightarrow> (\<lparr>mem = M, live = (live S)(i \<mapsto> e)\<rparr>, r)))"

fun bank_step :: "starter \<Rightarrow> receiver \<Rightarrow> stopper \<Rightarrow> bank_event \<Rightarrow> bank \<Rightarrow> bank \<times> account_reply" where
  "bank_step start receive stop (Deliver i m) S =
     (case activate start i S of Err err \<Rightarrow> (S, Failed err) | Ok S \<Rightarrow> deliver_to receive i m S)"
| "bank_step start receive stop (Halt i) S =
     (case live S i of
        None \<Rightarrow> (S, NoReply)
      | Some e \<Rightarrow>
          (case stop e (mem S) of
             Err err \<Rightarrow> (S\<lparr>live := (live S)(i := None)\<rparr>, Failed err)
           | Ok M \<Rightarrow> (\<lparr>mem = M, live = (live S)(i := None)\<rparr>, NoReply)))"

definition bank_init :: bank where
  "bank_init = \<lparr>mem = store_Connect NewMemoryStore, live = Map.empty\<rparr>"

text \<open>The cell that holds the balance of an account, and the balance.\<close>

definition cell_of :: "bank \<Rightarrow> string \<Rightarrow> nat option" where
  "cell_of S i = (case live S i of Some e \<Rightarrow> Some (hd_state e) | None \<Rightarrow> db (mem S) i)"

definition balance_of :: "bank \<Rightarrow> string \<Rightarrow> int" where
  "balance_of S i = (case cell_of S i of None \<Rightarrow> 0 | Some p \<Rightarrow> pa_AccountBalance (cells (mem S) p))"

text \<open>No two accounts share a cell, and an active account works on the record that is in the store.\<close>

definition bank_ok :: "bank \<Rightarrow> bool" where
  "bank_ok S \<longleftrightarrow> connected (mem S)
     \<and> (\<forall>i e. live S i = Some e \<longrightarrow> hd_id e = i \<and> \<not> hd_created e \<and> db (mem S) i \<in> {None, Some (hd_state e)})
     \<and> (\<forall>i p. cell_of S i = Some p \<longrightarrow> p < next_cell (mem S))
     \<and> (\<forall>i j p. cell_of S i = Some p \<longrightarrow> cell_of S j = Some p \<longrightarrow> i = j)"

lemma bank_okI:
  assumes "connected (mem S)"
    and "\<And>i e. live S i = Some e \<Longrightarrow> hd_id e = i \<and> \<not> hd_created e \<and> db (mem S) i \<in> {None, Some (hd_state e)}"
    and "\<And>i p. cell_of S i = Some p \<Longrightarrow> p < next_cell (mem S)"
    and "\<And>i j p. cell_of S i = Some p \<Longrightarrow> cell_of S j = Some p \<Longrightarrow> i = j"
  shows "bank_ok S"
  unfolding bank_ok_def using assms by blast

lemma bank_okD:
  assumes "bank_ok S"
  shows "connected (mem S)"
    and "live S i = Some e \<Longrightarrow> hd_id e = i \<and> \<not> hd_created e \<and> db (mem S) i \<in> {None, Some (hd_state e)}"
    and "cell_of S i = Some p \<Longrightarrow> p < next_cell (mem S)"
    and "cell_of S i = Some p \<Longrightarrow> cell_of S j = Some p \<Longrightarrow> i = j"
  using assms unfolding bank_ok_def by blast+

text \<open>The three ways a system of accounts changes: an activation, a write, and a stop.\<close>

lemma bank_ok_activated:
  assumes ok: "bank_ok S" and idle: "live S i = None"
    and M: "connected M" "db M = db (mem S)" "next_cell (mem S) \<le> next_cell M"
      "\<And>c. c < next_cell (mem S) \<Longrightarrow> cells M c = cells (mem S) c"
    and p: "db (mem S) i = Some p \<or>
      db (mem S) i = None \<and> next_cell (mem S) \<le> p \<and> p < next_cell M \<and> pa_AccountBalance (cells M p) = 0"
  defines "S' \<equiv> \<lparr>mem = M, live = (live S)(i \<mapsto> \<lparr>hd_id = i, hd_created = False, hd_state = p\<rparr>)\<rparr>"
  shows "bank_ok S'" and "balance_of S' j = balance_of S j"
proof -
  have cell: "cell_of S' k = (if k = i then Some p else cell_of S k)" for k
    using M by (simp add: cell_of_def S'_def split: option.split)
  have mem': "mem S' = M" by (simp add: S'_def)
  have old: "cell_of S i = db (mem S) i" using idle by (simp add: cell_of_def)
  have fresh: "cell_of S i = Some p \<or> cell_of S i = None \<and> next_cell (mem S) \<le> p" using p by (auto simp: old)
  show "bank_ok S'"
  proof (rule bank_okI)
    fix k e assume "live S' k = Some e"
    then show "hd_id e = k \<and> \<not> hd_created e \<and> db (mem S') k \<in> {None, Some (hd_state e)}"
      using bank_okD(2) [OF ok, of k e] p M by (auto simp: S'_def split: if_splits)
  next
    fix k c assume "cell_of S' k = Some c"
    then show "c < next_cell (mem S')"
      using bank_okD(3) [OF ok, of k c] bank_okD(3) [OF ok, of i p] p M old by (auto simp: cell mem' split: if_splits)
  next
    fix k l c assume "cell_of S' k = Some c" "cell_of S' l = Some c"
    then show "k = l"
      using bank_okD(3,4) [OF ok] fresh by (metis cell leD option.inject)
  qed (simp add: S'_def M)
  show "balance_of S' j = balance_of S j"
    using p M bank_okD(3) [OF ok] old by (auto simp: balance_of_def cell mem' split: option.split)
qed

lemma bank_ok_written:
  fixes n :: int
  assumes ok: "bank_ok S" and live: "live S i = Some e"
  defines "S' \<equiv> \<lparr>mem = (add_balance (hd_state e) n (mem S))\<lparr>db := (db (mem S))(i \<mapsto> hd_state e)\<rparr>, live = (live S)(i \<mapsto> e)\<rparr>"
  shows "bank_ok S'" and "balance_of S' j = balance_of S j + (if i = j then n else 0)"
proof -
  have cell: "cell_of S' = cell_of S"
    using live by (auto simp: cell_of_def S'_def add_balance_def split: option.split)
  have mem': "mem S' = (add_balance (hd_state e) n (mem S))\<lparr>db := (db (mem S))(i \<mapsto> hd_state e)\<rparr>" by (simp add: S'_def)
  have own: "cell_of S i = Some (hd_state e)" using live by (simp add: cell_of_def)
  show "bank_ok S'"
  proof (rule bank_okI)
    fix k e' assume "live S' k = Some e'"
    then show "hd_id e' = k \<and> \<not> hd_created e' \<and> db (mem S') k \<in> {None, Some (hd_state e')}"
      using bank_okD(2) [OF ok, of k e'] live by (auto simp: S'_def split: if_splits)
  qed (use bank_okD [OF ok] in \<open>auto simp: cell mem' add_balance_def\<close>)
  show "balance_of S' j = balance_of S j + (if i = j then n else 0)"
    using bank_okD(4) [OF ok own, of j] own
    by (auto simp: balance_of_def cell mem' add_balance_def split: option.split)
qed

lemma bank_ok_halted:
  assumes ok: "bank_ok S" and live: "live S i = Some e"
  defines "S' \<equiv> \<lparr>mem = (mem S)\<lparr>db := (db (mem S))(i \<mapsto> hd_state e)\<rparr>, live = (live S)(i := None)\<rparr>"
  shows "bank_ok S'" and "balance_of S' j = balance_of S j"
proof -
  have cell: "cell_of S' = cell_of S"
    using live by (auto simp: cell_of_def S'_def split: option.split)
  have mem': "mem S' = (mem S)\<lparr>db := (db (mem S))(i \<mapsto> hd_state e)\<rparr>" by (simp add: S'_def)
  show "bank_ok S'"
  proof (rule bank_okI)
    fix k e' assume "live S' k = Some e'"
    then show "hd_id e' = k \<and> \<not> hd_created e' \<and> db (mem S') k \<in> {None, Some (hd_state e')}"
      using bank_okD(2) [OF ok, of k e'] by (auto simp: S'_def split: if_splits)
  qed (use bank_okD [OF ok] in \<open>auto simp: cell mem'\<close>)
  show "balance_of S' j = balance_of S j" by (simp add: balance_of_def cell mem' split: option.split)
qed

section \<open>The contract of an account\<close>

text \<open>What one message adds to the balance of the account it is delivered to is the argument \<open>amount\<close>.\<close>

fun event_amount :: "(string \<Rightarrow> account_msg \<Rightarrow> int) \<Rightarrow> string \<Rightarrow> bank_event \<Rightarrow> int" where
  "event_amount amount i (Deliver j m) = (if j = i then amount i m else 0)"
| "event_amount amount i (Halt j) = 0"

definition bank_run :: "starter \<Rightarrow> receiver \<Rightarrow> stopper \<Rightarrow> bank_event list \<Rightarrow> bank" where
  "bank_run start receive stop evs = fold (\<lambda>ev S. fst (bank_step start receive stop ev S)) evs bank_init"

lemma bank_ok_init [simp]: "bank_ok bank_init"
  by (auto simp: bank_ok_def bank_init_def store_Connect_def NewMemoryStore_def cell_of_def)

lemma balance_of_init [simp]: "balance_of bank_init i = 0"
  by (simp add: balance_of_def cell_of_def bank_init_def store_Connect_def NewMemoryStore_def)

locale durable_account =
  fixes start :: starter and receive :: receiver and stop :: stopper and amount :: "string \<Rightarrow> account_msg \<Rightarrow> int"
  assumes start_recovers: "connected M \<Longrightarrow> db M i = Some q \<Longrightarrow>
      \<exists>M'. start i M = Ok (\<lparr>hd_id = i, hd_created = False, hd_state = q\<rparr>, M')
        \<and> connected M' \<and> db M' = db M \<and> next_cell M \<le> next_cell M' \<and> (\<forall>c < next_cell M. cells M' c = cells M c)"
    and start_fresh: "connected M \<Longrightarrow> db M i = None \<Longrightarrow>
      \<exists>p M'. start i M = Ok (\<lparr>hd_id = i, hd_created = False, hd_state = p\<rparr>, M')
        \<and> connected M' \<and> db M' = db M \<and> next_cell M \<le> p \<and> p < next_cell M' \<and> pa_AccountBalance (cells M' p) = 0
        \<and> (\<forall>c < next_cell M. cells M' c = cells M c)"
    and receive_adds: "connected M \<Longrightarrow> \<not> hd_created e \<Longrightarrow>
      \<exists>r. receive m e M = (e, M, r) \<and> amount (hd_id e) m = 0
        \<or> receive m e M = (e, (add_balance (hd_state e) (amount (hd_id e) m) M)\<lparr>db := (db M)(hd_id e \<mapsto> hd_state e)\<rparr>, r)"
    and stop_writes: "connected M \<Longrightarrow> stop e M = Ok (M\<lparr>db := (db M)(hd_id e \<mapsto> hd_state e)\<rparr>)"
    and get_responds: "receive (GetAccount (hd_id e)) e M = (e, M, Response (hd_state e))"
begin

definition "step ev S = fst (bank_step start receive stop ev S)"

lemma activate_ok:
  assumes ok: "bank_ok S"
  shows "\<exists>S'. activate start i S = Ok S' \<and> bank_ok S' \<and> (\<forall>j. balance_of S' j = balance_of S j) \<and> live S' i \<noteq> None"
proof (cases "live S i")
  case (Some e)
  then show ?thesis using ok by (auto simp: activate_def)
next
  case idle: None
  note conn = bank_okD(1) [OF ok]
  obtain p M where M: "start i (mem S) = Ok (\<lparr>hd_id = i, hd_created = False, hd_state = p\<rparr>, M)" "connected M"
      "db M = db (mem S)" "next_cell (mem S) \<le> next_cell M" "\<And>c. c < next_cell (mem S) \<Longrightarrow> cells M c = cells (mem S) c"
    and p: "db (mem S) i = Some p \<or>
      db (mem S) i = None \<and> next_cell (mem S) \<le> p \<and> p < next_cell M \<and> pa_AccountBalance (cells M p) = 0"
  proof (cases "db (mem S) i")
    case None
    from start_fresh [OF conn this] obtain p M where "start i (mem S) = Ok (\<lparr>hd_id = i, hd_created = False, hd_state = p\<rparr>, M)"
      "connected M" "db M = db (mem S)" "next_cell (mem S) \<le> p" "p < next_cell M" "pa_AccountBalance (cells M p) = 0"
      "\<forall>c < next_cell (mem S). cells M c = cells (mem S) c" by blast
    with None that [of p M] show ?thesis by simp
  next
    case (Some q)
    from start_recovers [OF conn this] Some that show ?thesis by blast
  qed
  show ?thesis
    using bank_ok_activated [OF ok idle M(2-5) p] by (simp add: activate_def idle M(1))
qed

lemma deliver_to_ok:
  assumes ok: "bank_ok S" and live: "live S i = Some e"
  shows "bank_ok (fst (deliver_to receive i m S))
    \<and> (\<forall>j. balance_of (fst (deliver_to receive i m S)) j = balance_of S j + event_amount amount j (Deliver i m))"
proof -
  have e: "hd_id e = i" "\<not> hd_created e" "connected (mem S)" using bank_okD [OF ok] live by auto
  from receive_adds [OF e(3,2), of m] obtain r where
    "receive m e (mem S) = (e, mem S, r) \<and> amount i m = 0 \<or>
     receive m e (mem S) = (e, (add_balance (hd_state e) (amount i m) (mem S))\<lparr>db := (db (mem S))(i \<mapsto> hd_state e)\<rparr>, r)"
    by (auto simp: e)
  then show ?thesis
  proof
    assume "receive m e (mem S) = (e, mem S, r) \<and> amount i m = 0"
    moreover from live have "\<lparr>mem = mem S, live = (live S)(i \<mapsto> e)\<rparr> = S" by (simp add: fun_upd_idem)
    ultimately show ?thesis using ok by (simp add: deliver_to_def live)
  qed (simp add: deliver_to_def live bank_ok_written [OF ok live])
qed

lemma step_ok:
  assumes ok: "bank_ok S"
  shows "bank_ok (step ev S) \<and> (\<forall>j. balance_of (step ev S) j = balance_of S j + event_amount amount j ev)"
proof (cases ev)
  case (Deliver i m)
  from activate_ok [OF ok, of i] obtain S' e where "activate start i S = Ok S'" "bank_ok S'"
    "\<forall>j. balance_of S' j = balance_of S j" "live S' i = Some e" by auto
  then show ?thesis using deliver_to_ok [of S' i e m] by (simp add: Deliver step_def)
next
  case (Halt i)
  show ?thesis
  proof (cases "live S i")
    case (Some e)
    then show ?thesis
      using bank_ok_halted [OF ok Some] bank_okD(2) [OF ok Some] bank_okD(1) [OF ok]
      by (simp add: Halt step_def stop_writes)
  qed (simp add: Halt step_def ok)
qed

lemma ledger:
  assumes "bank_ok S"
  shows "bank_ok (fold step evs S) \<and> balance_of (fold step evs S) i = balance_of S i + (\<Sum>ev\<leftarrow>evs. event_amount amount i ev)"
  using assms
proof (induction evs arbitrary: S)
  case (Cons ev evs)
  then show ?case using Cons.IH [of "step ev S"] step_ok [of S ev] by simp
qed simp

lemma run_eq: "bank_run start receive stop evs = fold step evs bank_init"
  by (simp add: bank_run_def step_def [abs_def])

text \<open>An account answers with everything it was ever given, however often it was stopped in between.\<close>

lemma get_ledger:
  "\<exists>p S'. bank_step start receive stop (Deliver i (GetAccount i)) (bank_run start receive stop evs) = (S', Response p)
     \<and> pa_AccountBalance (cells (mem S') p) = (\<Sum>ev\<leftarrow>evs. event_amount amount i ev)"
proof -
  let ?S = "bank_run start receive stop evs"
  have ok: "bank_ok ?S" and total: "balance_of ?S i = (\<Sum>ev\<leftarrow>evs. event_amount amount i ev)"
    using ledger [of bank_init evs i] by (simp_all add: run_eq)
  from activate_ok [OF ok, of i] obtain S' e where S': "activate start i ?S = Ok S'" "bank_ok S'"
    "balance_of S' i = balance_of ?S i" "live S' i = Some e" by auto
  then have "hd_id e = i" using bank_okD(2) by blast
  with get_responds [of e] have "receive (GetAccount i) e (mem S') = (e, mem S', Response (hd_state e))" by simp
  with S' total show ?thesis by (auto simp: deliver_to_def balance_of_def cell_of_def)
qed

end

section \<open>The two examples\<close>

fun entity_amount :: "string \<Rightarrow> account_msg \<Rightarrow> int" where
  "entity_amount i (CreateAccount j n) = (if i = j then n else 0)"
| "entity_amount i (CreditAccount j n) = (if i = j then n else 0)"
| "entity_amount i _ = 0"

fun grain_amount :: "string \<Rightarrow> account_msg \<Rightarrow> int" where
  "grain_amount i (CreateAccount j n) = n"
| "grain_amount i (CreditAccount j n) = n"
| "grain_amount i _ = 0"

lemmas start_defs = recoverFromStore_def store_GetLatestState_def new_Account_def Let_def
lemmas receive_defs = store_WriteState_def add_balance_def Let_def

interpretation entity: durable_account Entity_PreStart Entity_Receive Entity_PostStop entity_amount
proof
  show "\<exists>r. Entity_Receive m e M = (e, M, r) \<and> entity_amount (hd_id e) m = 0
      \<or> Entity_Receive m e M =
         (e, (add_balance (hd_state e) (entity_amount (hd_id e) m) M)\<lparr>db := (db M)(hd_id e \<mapsto> hd_state e)\<rparr>, r)"
    if "connected M" "\<not> hd_created e" for M e m
    using that by (cases m) (auto simp: Entity_Receive_def receive_defs)
qed (auto simp: Entity_PreStart_def Entity_PostStop_def Entity_Receive_def start_defs receive_defs)

interpretation grain: durable_account Grain_OnActivate Grain_OnReceive Grain_OnDeactivate grain_amount
proof
  show "\<exists>r. Grain_OnReceive m e M = (e, M, r) \<and> grain_amount (hd_id e) m = 0
      \<or> Grain_OnReceive m e M =
         (e, (add_balance (hd_state e) (grain_amount (hd_id e) m) M)\<lparr>db := (db M)(hd_id e \<mapsto> hd_state e)\<rparr>, r)"
    if "connected M" "\<not> hd_created e" for M e m
    using that by (cases m) (auto simp: Grain_OnReceive_def receive_defs)
qed (auto simp: Grain_OnActivate_def Grain_OnDeactivate_def Grain_OnReceive_def start_defs receive_defs)

text \<open>
  C28: Whatever messages the accounts received and however often they were stopped and activated again in between,
  an account answers a query with the sum of everything it was given, and nothing given to another account; for
  the actor these are the creations and credits that name it, for the grain all that are delivered to it.
\<close>
theorem account_ledger:
  "(\<exists>p S'. bank_step Entity_PreStart Entity_Receive Entity_PostStop (Deliver i (GetAccount i))
       (bank_run Entity_PreStart Entity_Receive Entity_PostStop evs) = (S', Response p)
     \<and> pa_AccountBalance (cells (mem S') p) = (\<Sum>ev\<leftarrow>evs. event_amount entity_amount i ev))
   \<and> (\<exists>p S'. bank_step Grain_OnActivate Grain_OnReceive Grain_OnDeactivate (Deliver i (GetAccount i))
       (bank_run Grain_OnActivate Grain_OnReceive Grain_OnDeactivate evs) = (S', Response p)
     \<and> pa_AccountBalance (cells (mem S') p) = (\<Sum>ev\<leftarrow>evs. event_amount grain_amount i ev))"
  by (intro conjI entity.get_ledger grain.get_ledger)

text \<open>
  While the store is down a credit is answered with an error, yet the balance has grown; the retry
  that succeeds after the store is back then counts and stores the amount a second time.
\<close>
theorem failed_credit_counts:
  assumes down: "\<not> connected M"
  shows "\<exists>err M' M''. Grain_OnReceive (CreditAccount i n) g M = (g, M', Failed err)
    \<and> pa_AccountBalance (cells M' (hd_state g)) = pa_AccountBalance (cells M (hd_state g)) + n
    \<and> Grain_OnReceive (CreditAccount i n) g (store_Connect M') = (g, M'', Response (hd_state g))
    \<and> db M'' (hd_id g) = Some (hd_state g)
    \<and> pa_AccountBalance (cells M'' (hd_state g)) = pa_AccountBalance (cells M (hd_state g)) + 2 * n"
  using down by (simp add: Grain_OnReceive_def receive_defs store_Connect_def)

theorem failed_credit_counts_witness:
  "\<exists>err M' M''. Grain_OnReceive (CreditAccount ''a'' 7) \<lparr>hd_id = ''a'', hd_created = False, hd_state = 0\<rparr> NewMemoryStore =
       (\<lparr>hd_id = ''a'', hd_created = False, hd_state = 0\<rparr>, M', Failed err)
    \<and> Grain_OnReceive (CreditAccount ''a'' 7) \<lparr>hd_id = ''a'', hd_created = False, hd_state = 0\<rparr> (store_Connect M') =
       (\<lparr>hd_id = ''a'', hd_created = False, hd_state = 0\<rparr>, M'', Response 0)
    \<and> pa_AccountBalance (cells M'' 0) = 14"
  using failed_credit_counts [of NewMemoryStore "''a''" 7 "\<lparr>hd_id = ''a'', hd_created = False, hd_state = 0\<rparr>"]
  by (auto simp: NewMemoryStore_def)

end
