(* ===== verification/Grains_Cluster.thy ===== *)
theory Grains_Cluster
  imports Bank
begin

text \<open>
  The clustered account grain with its store and its service (\<^verbatim>\<open>goakt-grains-cluster/grains-dnssd\<close>). A grain is
  activated by the first request for it and deactivated when it has been idle. What the database library makes
  of a selected row is the argument \<open>scan\<close>; the failures of the runtime and of the transactions are arguments
  too. Amounts are as in the transfer services.
\<close>

section \<open>The store\<close>

text \<open>The table of balances; its key is the identifier of an account.\<close>

type_synonym grain_rows = "string \<rightharpoonup> int"

type_synonym scanner = "(string \<times> int) option \<Rightarrow> (string, Account) res"

text \<open>The row is deleted and inserted in one transaction.\<close>

definition gc_WriteState :: "string option \<Rightarrow> Account \<Rightarrow> grain_rows \<Rightarrow> string option \<times> grain_rows" where
  "gc_WriteState tx_err account rows =
     (case tx_err of
        Some e \<Rightarrow> (Some e, rows)
      | None \<Rightarrow> (None, (rows(accountID account := None))(accountID account \<mapsto> balance account)))"

definition gc_GetState :: "scanner \<Rightarrow> string \<Rightarrow> grain_rows \<Rightarrow> (string, Account) res" where
  "gc_GetState scan i rows = scan (case rows i of None \<Rightarrow> None | Some b \<Rightarrow> Some (i, b))"

section \<open>The grain\<close>

definition gc_OnActivate :: "scanner \<Rightarrow> string \<Rightarrow> grain_rows \<Rightarrow> (string, Account) res" where
  "gc_OnActivate scan name rows =
     (let state = NewAccount name 0 zeroTime in
      case gc_GetState scan name rows of
        Err e \<Rightarrow> Err e
      | Panic \<Rightarrow> Panic
      | Ok recoveredState \<Rightarrow> (let state = recoveredState in Ok state))"

datatype gc_msg = GcCreate string int | GcCredit string int | GcGet string | GcOther

datatype gc_reply = GcAccount string int | GcNoErr | GcUnhandled

definition gc_OnReceive :: "int \<Rightarrow> gc_msg \<Rightarrow> Account \<Rightarrow> gc_reply \<times> Account" where
  "gc_OnReceive t msg state =
     (case msg of
        GcCreate i n \<Rightarrow>
          if createdAt state \<noteq> zeroTime then (GcNoErr, state)
          else let state = SetCreatedAt t (SetBalance n state) in (GcAccount i (balance state), state)
      | GcCredit i n \<Rightarrow>
          let newBalance = balance state + n; state = SetBalance newBalance state in (GcAccount i (balance state), state)
      | GcGet i \<Rightarrow> (GcAccount i (balance state), state)
      | GcOther \<Rightarrow> (GcUnhandled, state))"

definition gc_OnDeactivate :: "string option \<Rightarrow> Account \<Rightarrow> grain_rows \<Rightarrow> string option \<times> grain_rows" where
  "gc_OnDeactivate tx_err state rows = gc_WriteState tx_err state rows"

section \<open>The service\<close>

text \<open>What a request meets: the clock, an error of the grain's identity, and the fate of the request.\<close>

record gc_env =
  ge_now :: int
  ge_identity_err :: "string option"
  ge_net :: net

type_synonym gc_world = "(string \<rightharpoonup> Account) \<times> grain_rows"

datatype gc_response = GcOk string int | GcInternal string

text \<open>A request to a grain activates it when it is not active; an activation that fails is the error of the request.\<close>

definition AskGrain :: "scanner \<Rightarrow> gc_env \<Rightarrow> string \<Rightarrow> gc_msg \<Rightarrow> gc_world \<Rightarrow> (string + gc_reply) \<times> gc_world" where
  "AskGrain scan env i msg w =
     (let (G, rows) = w in
      case (case G i of Some _ \<Rightarrow> Ok G
            | None \<Rightarrow> (case gc_OnActivate scan i rows of Ok a \<Rightarrow> Ok (G(i \<mapsto> a)) | Err e \<Rightarrow> Err e | Panic \<Rightarrow> Panic)) of
        Err e \<Rightarrow> (Inl e, w)
      | Panic \<Rightarrow> (Inl ''panic'', w)
      | Ok G \<Rightarrow> (let (r, G') = ask (gc_OnReceive (ge_now env)) (ge_net env) i msg G in (r, (G', rows))))"

definition getGrain :: "gc_env \<Rightarrow> string \<Rightarrow> string + string" where
  "getGrain env name = (case ge_identity_err env of Some e \<Rightarrow> Inl e | None \<Rightarrow> Inr name)"

definition gc_answer :: "(string + gc_reply) \<times> gc_world \<Rightarrow> gc_response \<times> gc_world" where
  "gc_answer r =
     (case r of
        (Inl e, w) \<Rightarrow> (GcInternal e, w)
      | (Inr (GcAccount i n), w) \<Rightarrow> (GcOk i n, w)
      | (Inr _, w) \<Rightarrow> (GcInternal ''invalid reply'', w))"

definition gc_CreateAccount :: "scanner \<Rightarrow> gc_env \<Rightarrow> string \<Rightarrow> int \<Rightarrow> gc_world \<Rightarrow> gc_response \<times> gc_world" where
  "gc_CreateAccount scan env i n w =
     (case getGrain env i of
        Inl e \<Rightarrow> (GcInternal e, w)
      | Inr identity \<Rightarrow> gc_answer (AskGrain scan env identity (GcCreate i n) w))"

definition gc_CreditAccount :: "scanner \<Rightarrow> gc_env \<Rightarrow> string \<Rightarrow> int \<Rightarrow> gc_world \<Rightarrow> gc_response \<times> gc_world" where
  "gc_CreditAccount scan env i n w =
     (case getGrain env i of
        Inl e \<Rightarrow> (GcInternal e, w)
      | Inr identity \<Rightarrow> gc_answer (AskGrain scan env identity (GcCredit i n) w))"

definition gc_GetAccount :: "scanner \<Rightarrow> gc_env \<Rightarrow> string \<Rightarrow> gc_world \<Rightarrow> gc_response \<times> gc_world" where
  "gc_GetAccount scan env i w =
     (case getGrain env i of
        Inl e \<Rightarrow> (GcInternal e, w)
      | Inr identity \<Rightarrow> gc_answer (AskGrain scan env identity (GcGet i) w))"

text \<open>Requests and deactivations.\<close>

datatype gc_event = EvCreate gc_env string int | EvCredit gc_env string int | EvGet gc_env string | EvIdle "string option" string

fun gc_name :: "gc_event \<Rightarrow> string" where
  "gc_name (EvCreate _ i _) = i" | "gc_name (EvCredit _ i _) = i" | "gc_name (EvGet _ i) = i" | "gc_name (EvIdle _ i) = i"

fun gc_step :: "scanner \<Rightarrow> gc_event \<Rightarrow> gc_world \<Rightarrow> gc_world" where
  "gc_step scan (EvCreate env i n) w = snd (gc_CreateAccount scan env i n w)"
| "gc_step scan (EvCredit env i n) w = snd (gc_CreditAccount scan env i n w)"
| "gc_step scan (EvGet env i) w = snd (gc_GetAccount scan env i w)"
| "gc_step scan (EvIdle tx_err i) (G, rows) =
     (case G i of None \<Rightarrow> (G, rows) | Some a \<Rightarrow> (G(i := None), snd (gc_OnDeactivate tx_err a rows)))"

section \<open>What is stored\<close>

text \<open>
  What the library documents of a selection that finds no row: there is no error, and the destination, a new
  account, is left as it is.
\<close>

definition no_row :: "scanner \<Rightarrow> bool" where
  "no_row scan \<longleftrightarrow> scan None = Ok (NewAccount [] 0 zeroTime)"

text \<open>Nobody but the account without a name has a row, and no active account knows its name.\<close>

definition nameless :: "gc_world \<Rightarrow> bool" where
  "nameless w \<longleftrightarrow> (\<forall>i a. fst w i = Some a \<longrightarrow> accountID a = []) \<and> dom (snd w) \<subseteq> {[]}"

lemma gc_OnReceive_id: "accountID (snd (gc_OnReceive t msg a)) = accountID a"
  by (cases msg) (simp_all add: gc_OnReceive_def SetBalance_def SetCreatedAt_def Let_def)

lemma AskGrain_nameless:
  assumes "no_row scan" and "nameless w" and "i \<noteq> []"
  shows "nameless (snd (AskGrain scan env i msg w))"
proof -
  obtain G rows where w: "w = (G, rows)" by fastforce
  have none: "rows i = None" using assms(2,3) by (auto simp: nameless_def w)
  define G' where "G' = (case G i of Some _ \<Rightarrow> G | None \<Rightarrow> G(i \<mapsto> NewAccount [] 0 zeroTime))"
  have n: "nameless (G', rows)" using assms(2) by (auto simp: nameless_def w G'_def NewAccount_def split: option.splits)
  have "AskGrain scan env i msg w = (let (r, G'') = ask (gc_OnReceive (ge_now env)) (ge_net env) i msg G' in (r, (G'', rows)))"
    using assms(1) none by (simp add: AskGrain_def w G'_def gc_OnActivate_def gc_GetState_def no_row_def Let_def split: option.split)
  moreover have "nameless (snd (ask (gc_OnReceive (ge_now env)) (ge_net env) i msg G'), rows)"
  proof (cases "G' i")
    case None
    then show ?thesis using n by (simp add: ask_def)
  next
    case (Some a)
    obtain r a' where r: "gc_OnReceive (ge_now env) msg a = (r, a')" by fastforce
    then have "accountID a' = []" using gc_OnReceive_id [of "ge_now env" msg a] n Some by (auto simp: nameless_def)
    then show ?thesis using n Some r by (cases "ge_net env") (auto simp: ask_def nameless_def)
  qed
  ultimately show ?thesis by (simp add: split_def Let_def)
qed

lemma gc_answer_snd [simp]: "snd (gc_answer r) = snd r"
  by (auto simp: gc_answer_def split: prod.split sum.split gc_reply.split)

lemma gc_step_nameless:
  assumes "no_row scan" and "nameless w" and "gc_name e \<noteq> []"
  shows "nameless (gc_step scan e w)"
proof (cases e)
  case (EvIdle tx_err i)
  obtain G rows where w: "w = (G, rows)" by fastforce
  show ?thesis
  proof (cases "G i")
    case (Some a)
    then have "accountID a = []" using assms(2) by (auto simp: nameless_def w)
    then show ?thesis using assms(2) Some EvIdle w
      by (cases tx_err) (auto simp: gc_OnDeactivate_def gc_WriteState_def nameless_def split: if_splits)
  qed (use assms(2) EvIdle w in simp)
qed (use AskGrain_nameless [OF assms(1,2)] assms(2,3) in
     \<open>auto simp: gc_CreateAccount_def gc_CreditAccount_def gc_GetAccount_def getGrain_def split: option.split\<close>)

lemma gc_run_nameless:
  assumes "no_row scan" and "list_all (\<lambda>e. gc_name e \<noteq> []) es"
  shows "nameless w \<Longrightarrow> nameless (fold (gc_step scan) es w)"
  using assms(2)
proof (induction es arbitrary: w)
  case (Cons e es)
  then show ?case using gc_step_nameless [OF assms(1) Cons.prems(1), of e] by simp
qed simp

text \<open>
  C39: The clustered grain loses what it stores. From an empty table on, whatever requests are made, with
  whatever faults, and however often grains are deactivated, no account that has a name ever gets a row: the
  state that is loaded at the first activation replaces the one that carries the name, so everything is written
  to the row of the empty name. A grain that has been deactivated therefore answers a query with 0.
\<close>

theorem clustered_grain_forgets:
  assumes "no_row scan" and "list_all (\<lambda>e. gc_name e \<noteq> []) es" and "i \<noteq> []"
    and w_def: "w = gc_step scan (EvIdle tx_err i) (fold (gc_step scan) es (Map.empty, Map.empty))"
  shows "snd w i = None \<and>
    fst (gc_GetAccount scan \<lparr>ge_now = t, ge_identity_err = None, ge_net = Delivered\<rparr> i w) = GcOk i 0"
proof -
  have "nameless (fold (gc_step scan) es (Map.empty, Map.empty))"
    by (rule gc_run_nameless [OF assms(1,2)]) (simp add: nameless_def)
  then have "nameless w" using gc_step_nameless [OF assms(1), of _ "EvIdle tx_err i"] assms(3) by (simp add: w_def)
  then have row: "snd w i = None" using assms(3) by (auto simp: nameless_def)
  have idle: "fst w i = None"
    unfolding w_def by (cases "fold (gc_step scan) es (Map.empty, Map.empty)") (simp split: option.split)
  obtain G rows where w: "w = (G, rows)" by fastforce
  show ?thesis using row idle assms(1)
    by (simp add: w gc_GetAccount_def getGrain_def AskGrain_def gc_OnActivate_def gc_GetState_def no_row_def ask_def
        gc_OnReceive_def gc_answer_def NewAccount_def)
qed

text \<open>An account is created with 100 and credited with 5; after it was idle it has 0.\<close>

theorem clustered_grain_forgets_witness:
  "\<exists>scan w. fst (gc_CreditAccount scan \<lparr>ge_now = 2, ge_identity_err = None, ge_net = Delivered\<rparr> ''ann'' 5
       (gc_step scan (EvCreate \<lparr>ge_now = 1, ge_identity_err = None, ge_net = Delivered\<rparr> ''ann'' 100) (Map.empty, Map.empty))) =
     GcOk ''ann'' 105 \<and>
   w = gc_step scan (EvIdle None ''ann'') (fold (gc_step scan)
     [EvCreate \<lparr>ge_now = 1, ge_identity_err = None, ge_net = Delivered\<rparr> ''ann'' 100,
      EvCredit \<lparr>ge_now = 2, ge_identity_err = None, ge_net = Delivered\<rparr> ''ann'' 5] (Map.empty, Map.empty)) \<and>
   snd w ''ann'' = None \<and>
   fst (gc_GetAccount scan \<lparr>ge_now = 3, ge_identity_err = None, ge_net = Delivered\<rparr> ''ann'' w) = GcOk ''ann'' 0"
proof -
  define scan :: scanner where
    "scan = (\<lambda>row. Ok (case row of None \<Rightarrow> NewAccount [] 0 zeroTime | Some (i, b) \<Rightarrow> NewAccount i b zeroTime))"
  let ?es = "[EvCreate \<lparr>ge_now = 1, ge_identity_err = None, ge_net = Delivered\<rparr> ''ann'' 100,
      EvCredit \<lparr>ge_now = 2, ge_identity_err = None, ge_net = Delivered\<rparr> ''ann'' 5]"
  have scan: "no_row scan" by (simp add: no_row_def scan_def)
  have "fst (gc_CreditAccount scan \<lparr>ge_now = 2, ge_identity_err = None, ge_net = Delivered\<rparr> ''ann'' 5
       (gc_step scan (hd ?es) (Map.empty, Map.empty))) = GcOk ''ann'' 105"
    by (simp add: gc_CreditAccount_def gc_CreateAccount_def getGrain_def AskGrain_def gc_OnActivate_def gc_GetState_def scan_def ask_def
        gc_OnReceive_def gc_answer_def NewAccount_def SetBalance_def SetCreatedAt_def zeroTime_def)
  then show ?thesis using clustered_grain_forgets [OF scan _ _ refl, of ?es "''ann''" None 3] by auto
qed

end
