(* ===== verification/Cluster.thy ===== *)
theory Cluster
  imports Bank
begin

text \<open>
  The account service that spans data centers (\<^verbatim>\<open>goakt-cluster/multi-dc\<close>): the account entity with its row in the
  store, the gateway actor that forwards a request to another data center, and the HTTP handlers. Where the
  actor runtime finds an account, which of its operations fail, and what gets lost on the way are arguments.
  Amounts and times are as in the transfer services.
\<close>

section \<open>The account entity\<close>

datatype dc_msg = CreateAccount string int | CreditAccount string int | GetAccount string | OtherMsg

datatype dc_reply = AccountReply string int | NoAnswer

definition pg_WriteState :: "int \<Rightarrow> string \<Rightarrow> Account \<Rightarrow> account_rows \<Rightarrow> account_rows" where
  "pg_WriteState db_now actorID state rows =
     rows(actorID \<mapsto> (balance state, case rows actorID of Some (_, t) \<Rightarrow> t | None \<Rightarrow> db_now))"

definition pg_GetState :: "string \<Rightarrow> account_rows \<Rightarrow> Account" where
  "pg_GetState actorID rows =
     (case rows actorID of
        None \<Rightarrow> NewAccount actorID 0 zeroTime
      | Some (b, t) \<Rightarrow> NewAccount actorID b t)"

definition DcEntity_PreStart :: "string option \<Rightarrow> account_rows \<Rightarrow> string \<Rightarrow> (string, Account) res" where
  "DcEntity_PreStart read_err rows name =
     (case read_err of Some e \<Rightarrow> Err e | None \<Rightarrow> Ok (pg_GetState name rows))"

definition DcEntity_PostStart :: "Account \<Rightarrow> Account" where
  "DcEntity_PostStart state =
     (if state = NewAccount [] 0 zeroTime then SetBalance 0 (SetCreatedAt zeroTime state) else state)"

definition DcEntity_Receive :: "int \<Rightarrow> dc_msg \<Rightarrow> Account \<Rightarrow> dc_reply \<times> Account" where
  "DcEntity_Receive t m state =
     (case m of
        CreateAccount i n \<Rightarrow>
          if createdAt state \<noteq> zeroTime then (AccountReply (accountID state) (balance state), state)
          else let state = SetCreatedAt t (SetBalance n state) in (AccountReply i (balance state), state)
      | CreditAccount i n \<Rightarrow>
          let state = SetBalance (balance state + n) state in (AccountReply i (balance state), state)
      | GetAccount i \<Rightarrow> (AccountReply i (balance state), state)
      | OtherMsg \<Rightarrow> (NoAnswer, state))"

definition DcEntity_PostStop :: "int \<Rightarrow> Account \<Rightarrow> account_rows \<Rightarrow> account_rows" where
  "DcEntity_PostStop db_now state rows = pg_WriteState db_now (accountID state) state rows"

section \<open>The gateway\<close>

text \<open>The accounts that run in each data center.\<close>

type_synonym datacenters = "string \<Rightarrow> (string \<rightharpoonup> Account)"

record ServiceEnv =
  se_now :: int
  se_lookup_err :: "string option"
  se_net :: net
  se_gateway_err :: "string option"
  se_gateway_net :: net
  se_discover :: "string \<Rightarrow> string option"
  se_forward_net :: net
  se_spawn_err :: "string option"
  se_read_err :: "string option"
  se_rows :: "string \<Rightarrow> account_rows"

datatype gateway_msg = ForwardGetAccount string | ForwardCreditAccount string int

definition ask_dc :: "ServiceEnv \<Rightarrow> net \<Rightarrow> string \<Rightarrow> string \<Rightarrow> dc_msg \<Rightarrow> datacenters \<Rightarrow> (string + dc_reply) \<times> datacenters" where
  "ask_dc env n dc name m C =
     (let (res, actors) = ask (DcEntity_Receive (se_now env)) n name m (C dc) in (res, C(dc := actors)))"

definition forwardAndReply :: "ServiceEnv \<Rightarrow> string \<Rightarrow> dc_msg \<Rightarrow> datacenters \<Rightarrow> dc_reply \<times> datacenters" where
  "forwardAndReply env actorName m C =
     (case se_discover env actorName of
        None \<Rightarrow> (AccountReply [] 0, C)
      | Some dc \<Rightarrow>
          (case ask_dc env (se_forward_net env) dc actorName m C of
             (Inl err, C) \<Rightarrow> (AccountReply [] 0, C)
           | (Inr reply, C) \<Rightarrow> (reply, C)))"

fun Gateway_Receive :: "ServiceEnv \<Rightarrow> gateway_msg \<Rightarrow> datacenters \<Rightarrow> dc_reply \<times> datacenters" where
  "Gateway_Receive env (ForwardGetAccount i) C = forwardAndReply env i (GetAccount i) C"
| "Gateway_Receive env (ForwardCreditAccount i n) C = forwardAndReply env i (CreditAccount i n) C"

section \<open>The HTTP handlers\<close>

datatype http = HttpAccount string int | HttpError nat string

definition forwardViaGateway :: "ServiceEnv \<Rightarrow> gateway_msg \<Rightarrow> datacenters \<Rightarrow> (string + dc_reply) \<times> datacenters" where
  "forwardViaGateway env m C =
     (case se_gateway_err env of
        Some e \<Rightarrow> (Inl (''dc-gateway not available: '' @ e), C)
      | None \<Rightarrow>
          (case se_gateway_net env of
             Lost err \<Rightarrow> (Inl err, C)
           | ReplyLost err \<Rightarrow> (Inl err, snd (Gateway_Receive env m C))
           | Delivered \<Rightarrow> (case Gateway_Receive env m C of (reply, C) \<Rightarrow> (Inr reply, C))))"

definition writeAccountResponse :: "dc_reply \<Rightarrow> http" where
  "writeAccountResponse reply =
     (case reply of
        AccountReply i b \<Rightarrow> HttpAccount i b
      | NoAnswer \<Rightarrow> HttpError 500 ''invalid reply type'')"

definition forwarded_response :: "string + dc_reply \<Rightarrow> http" where
  "forwarded_response res =
     (case res of
        Inl err \<Rightarrow> HttpError 404 ''account not found''
      | Inr NoAnswer \<Rightarrow> HttpError 404 ''account not found''
      | Inr (AccountReply i b) \<Rightarrow>
          if i = [] then HttpError 404 ''account not found'' else writeAccountResponse (AccountReply i b))"

text \<open>The two handlers that look an account up: first in their own data center, then through the gateway.\<close>

definition GetAccount_handler :: "ServiceEnv \<Rightarrow> string \<Rightarrow> string \<Rightarrow> datacenters \<Rightarrow> http \<times> datacenters" where
  "GetAccount_handler env dc accountId C =
     (case se_lookup_err env of
        Some e \<Rightarrow> (HttpError 500 e, C)
      | None \<Rightarrow>
          if C dc accountId \<noteq> None then
            (case ask_dc env (se_net env) dc accountId (GetAccount accountId) C of
               (Inl askErr, C) \<Rightarrow> (HttpError 500 askErr, C)
             | (Inr reply, C) \<Rightarrow> (writeAccountResponse reply, C))
          else
            (case forwardViaGateway env (ForwardGetAccount accountId) C of
               (res, C) \<Rightarrow> (forwarded_response res, C)))"

definition CreditAccount_handler :: "ServiceEnv \<Rightarrow> string \<Rightarrow> string + int \<Rightarrow> string \<Rightarrow> datacenters \<Rightarrow> http \<times> datacenters" where
  "CreditAccount_handler env dc req accountId C =
     (case req of
        Inl err \<Rightarrow> (HttpError 400 (''invalid request: '' @ err), C)
      | Inr amount \<Rightarrow>
          (case se_lookup_err env of
             Some e \<Rightarrow> (HttpError 500 e, C)
           | None \<Rightarrow>
               if C dc accountId \<noteq> None then
                 (case ask_dc env (se_net env) dc accountId (CreditAccount accountId amount) C of
                    (Inl askErr, C) \<Rightarrow> (HttpError 500 askErr, C)
                  | (Inr reply, C) \<Rightarrow> (writeAccountResponse reply, C))
               else
                 (case forwardViaGateway env (ForwardCreditAccount accountId amount) C of
                    (res, C) \<Rightarrow> (forwarded_response res, C))))"

text \<open>Spawning a name that runs already is refused by the runtime (the error) or returns the running actor.\<close>

definition spawn_dc :: "ServiceEnv \<Rightarrow> string \<Rightarrow> string \<Rightarrow> datacenters \<Rightarrow> (string, datacenters) res" where
  "spawn_dc env dc name C =
     (case se_spawn_err env of
        Some e \<Rightarrow> Err e
      | None \<Rightarrow>
          (case C dc name of
             Some _ \<Rightarrow> Ok C
           | None \<Rightarrow>
               (case DcEntity_PreStart (se_read_err env) (se_rows env dc) name of
                  Err e \<Rightarrow> Err e
                | Ok a \<Rightarrow> Ok (C(dc := (C dc)(name \<mapsto> DcEntity_PostStart a))))))"

definition create_in :: "ServiceEnv \<Rightarrow> string \<Rightarrow> string \<Rightarrow> int \<Rightarrow> datacenters \<Rightarrow> http \<times> datacenters" where
  "create_in env dc aid n C =
     (case spawn_dc env dc aid C of
        Err e \<Rightarrow> (HttpError 500 e, C)
      | Ok C \<Rightarrow>
          (case ask_dc env (se_net env) dc aid (CreateAccount aid n) C of
             (Inl err, C) \<Rightarrow> (HttpError 500 err, C)
           | (Inr reply, C) \<Rightarrow> (writeAccountResponse reply, C)))"

definition CreateAccount_handler :: "ServiceEnv \<Rightarrow> string \<Rightarrow> string + string \<times> int \<Rightarrow> datacenters \<Rightarrow> http \<times> datacenters" where
  "CreateAccount_handler env dc req C =
     (case req of
        Inl err \<Rightarrow> (HttpError 400 (''invalid request: '' @ err), C)
      | Inr (aid, n) \<Rightarrow> create_in env dc aid n C)"

definition SpawnRemoteAccount_handler ::
    "ServiceEnv \<Rightarrow> string + string \<times> int \<times> string \<Rightarrow> datacenters \<Rightarrow> http \<times> datacenters" where
  "SpawnRemoteAccount_handler env req C =
     (case req of
        Inl err \<Rightarrow> (HttpError 400 (''invalid request: '' @ err), C)
      | Inr (aid, n, targetDc) \<Rightarrow> create_in env targetDc aid n C)"

datatype dc_status = DCStatusResponse bool string "int option"

definition GetDCStatus_handler :: "string \<Rightarrow> bool \<Rightarrow> int \<Rightarrow> dc_status" where
  "GetDCStatus_handler dcName ready lastRefresh =
     DCStatusResponse ready dcName (if lastRefresh = zeroTime then None else Some lastRefresh)"

section \<open>Where a credit goes\<close>

definition credit :: "string \<Rightarrow> string \<Rightarrow> int \<Rightarrow> datacenters \<Rightarrow> datacenters" where
  "credit dc name n C = C(dc := (C dc)(name := map_option (\<lambda>a. a\<lparr>balance := balance a + n\<rparr>) (C dc name)))"

definition delivers :: "net \<Rightarrow> bool" where
  "delivers n \<longleftrightarrow> (\<forall>err. n \<noteq> Lost err)"

lemma ask_dc_Credit:
  assumes "C dc name = Some a"
  shows "ask_dc env n dc name (CreditAccount name amt) C =
    (case n of
       Delivered \<Rightarrow> (Inr (AccountReply name (balance a + amt)), credit dc name amt C)
     | Lost err \<Rightarrow> (Inl err, C)
     | ReplyLost err \<Rightarrow> (Inl err, credit dc name amt C))"
  using assms
  by (auto simp: ask_dc_def ask_def DcEntity_Receive_def SetBalance_def credit_def Let_def split: net.split)

lemma ask_dc_Get:
  assumes "C dc name = Some a"
  shows "ask_dc env n dc name (GetAccount name) C =
    (case n of Delivered \<Rightarrow> (Inr (AccountReply name (balance a)), C) | Lost err \<Rightarrow> (Inl err, C) | ReplyLost err \<Rightarrow> (Inl err, C))"
  using assms
  by (auto simp: ask_dc_def ask_def DcEntity_Receive_def Let_def fun_upd_idem split: net.split)

lemma ask_dc_dead: "C dc name = None \<Longrightarrow> ask_dc env n dc name m C = (Inl ''dead actor'', C)"
  by (simp add: ask_dc_def ask_def)

text \<open>What the gateway can have done with a credit.\<close>

lemma forward_Credit_cases:
  assumes "forwardAndReply env name (CreditAccount name amt) C = (reply, C')"
  obtains (none) "reply = AccountReply [] 0" "C' = C"
    | (lost) dc a where "C dc name = Some a" "reply = AccountReply [] 0" "C' = credit dc name amt C"
    | (applied) dc a where "C dc name = Some a" "reply = AccountReply name (balance a + amt)" "C' = credit dc name amt C"
proof (cases "se_discover env name")
  case None
  then show ?thesis using assms none by (simp add: forwardAndReply_def)
next
  case (Some dc)
  show ?thesis
  proof (cases "C dc name")
    case None
    then show ?thesis using assms none Some by (simp add: forwardAndReply_def ask_dc_dead)
  next
    case a: (Some a)
    show ?thesis
      using assms Some none lost [OF a] applied [OF a]
      by (auto simp: forwardAndReply_def ask_dc_Credit [of C, OF a] split: net.splits)
  qed
qed

lemma forwardViaGateway_Credit_cases:
  assumes "forwardViaGateway env (ForwardCreditAccount name amt) C = (res, C')"
  obtains (failed) "forwarded_response res = HttpError 404 ''account not found''" "C' = C"
    | (lost) d a where "C d name = Some a" "forwarded_response res = HttpError 404 ''account not found''"
        "C' = credit d name amt C"
    | (applied) d a where "C d name = Some a" "forwarded_response res = HttpAccount name (balance a + amt)"
        "C' = credit d name amt C"
proof -
  obtain reply C2 where fwd: "forwardAndReply env name (CreditAccount name amt) C = (reply, C2)" by fastforce
  consider (unsent) "forwarded_response res = HttpError 404 ''account not found''" "C' = C"
    | (silent) "forwarded_response res = HttpError 404 ''account not found''" "C' = C2"
    | (answered) "res = Inr reply" "C' = C2"
    using assms by (auto simp: forwardViaGateway_def forwarded_response_def fwd split: option.splits net.splits)
  then show ?thesis
  proof cases
    case unsent
    then show ?thesis by (rule failed)
  next
    case silent
    from fwd show ?thesis by (cases rule: forward_Credit_cases) (use silent in \<open>auto intro: failed lost\<close>)
  next
    case answered
    from fwd show ?thesis
    proof (cases rule: forward_Credit_cases)
      case none
      then show ?thesis using answered by (intro failed) (auto simp: forwarded_response_def)
    next
      case (lost d a)
      then show ?thesis using answered by (intro that(2)) (auto simp: forwarded_response_def)
    next
      case (applied d a)
      then show ?thesis
        using answered
        by (cases "name = []") (auto intro: that(2,3) simp: forwarded_response_def writeAccountResponse_def)
    qed
  qed
qed

text \<open>
  C29: A credit request changes the balance of at most one account, once and by the amount asked for. When the
  answer is an account, it has been credited: the one in the service's own data center if there is one there, and
  the answer carries its new balance.
\<close>
theorem credit_applied_once:
  assumes "CreditAccount_handler env dc req name C = (response, C')"
  shows "(C' = C \<and> (\<forall>i b. response \<noteq> HttpAccount i b))
    \<or> (\<exists>d a amt. req = Inr amt \<and> C d name = Some a \<and> (C dc name = None \<or> d = dc) \<and> C' = credit d name amt C
         \<and> (\<forall>i b. response = HttpAccount i b \<longrightarrow> i = name \<and> b = balance a + amt))"
proof (cases "(\<exists>amt. req = Inr amt) \<and> se_lookup_err env = None")
  case True
  then obtain amt where req: "req = Inr amt" and look: "se_lookup_err env = None" by blast
  show ?thesis
  proof (cases "C dc name")
    case None
    obtain res C2 where fwd: "forwardViaGateway env (ForwardCreditAccount name amt) C = (res, C2)" by fastforce
    then have handler: "response = forwarded_response res" "C' = C2"
      using assms None by (auto simp: CreditAccount_handler_def req look)
    show ?thesis
      using fwd by (cases rule: forwardViaGateway_Credit_cases) (use None handler req in auto)
  next
    case (Some a)
    then show ?thesis
      using assms
      by (auto simp: CreditAccount_handler_def req look ask_dc_Credit writeAccountResponse_def split: net.splits)
  qed
next
  case False
  then show ?thesis
    using assms by (auto simp: CreditAccount_handler_def split: sum.splits option.splits)
qed

text \<open>
  When no request is lost and the runtime finds an account wherever it runs, a query through any data center
  answers with the balance of the account, the one next to the service first, and with not found
  exactly when it runs nowhere.
\<close>
theorem account_found:
  assumes up: "se_lookup_err env = None" "se_net env = Delivered" "se_gateway_err env = None"
      "se_gateway_net env = Delivered" "se_forward_net env = Delivered"
    and finds: "\<And>d. se_discover env name = Some d \<Longrightarrow> C d name \<noteq> None"
      "\<And>d. se_discover env name = None \<Longrightarrow> C d name = None"
    and name: "name \<noteq> []"
  shows "(\<exists>d a. C d name = Some a \<and> (C dc name = None \<or> d = dc)
            \<and> GetAccount_handler env dc name C = (HttpAccount name (balance a), C))
    \<or> (\<forall>d. C d name = None) \<and> GetAccount_handler env dc name C = (HttpError 404 ''account not found'', C)"
proof (cases "C dc name")
  case (Some a)
  then show ?thesis
    using up by (intro disjI1 exI [of _ dc] exI [of _ a])
      (simp add: GetAccount_handler_def ask_dc_Get writeAccountResponse_def)
next
  case idle: None
  show ?thesis
  proof (cases "se_discover env name")
    case None
    then show ?thesis
      using idle up finds(2)
      by (simp add: GetAccount_handler_def forwardViaGateway_def forwardAndReply_def forwarded_response_def)
  next
    case (Some d)
    then obtain a where a: "C d name = Some a" using finds(1) by auto
    with Some idle up name show ?thesis
      by (intro disjI1 exI [of _ d] exI [of _ a])
        (simp add: GetAccount_handler_def forwardViaGateway_def forwardAndReply_def ask_dc_Get forwarded_response_def
          writeAccountResponse_def)
  qed
qed

text \<open>
  A credit that reached another data center is reported as not found when the answer is lost on the way.
\<close>
lemma lost_forward_is_404:
  assumes "se_lookup_err env = None" "se_gateway_err env = None" "se_gateway_net env = Delivered"
    and "C dc name = None" "se_discover env name = Some d" "C d name = Some a" "se_forward_net env = ReplyLost err"
  shows "CreditAccount_handler env dc (Inr amt) name C = (HttpError 404 ''account not found'', credit d name amt C)"
  using assms
  by (simp add: CreditAccount_handler_def forwardViaGateway_def forwardAndReply_def ask_dc_Credit forwarded_response_def)

section \<open>Restarts\<close>

text \<open>
  An account that was stopped and starts again has its balance, and no later creation changes it; this also
  holds for an account that was spawned and never created: the row of the stop carries a creation time, and the
  initial balance of the creation that follows is dropped.
\<close>
theorem restarted_account_fixed:
  assumes "db_now \<noteq> zeroTime" and "\<And>b t. rows (accountID a) = Some (b, t) \<Longrightarrow> t \<noteq> zeroTime"
  shows "\<exists>a'. DcEntity_PreStart None (DcEntity_PostStop db_now a rows) (accountID a) = Ok a'
    \<and> balance a' = balance a \<and> accountID a' = accountID a
    \<and> DcEntity_Receive t (CreateAccount i n) (DcEntity_PostStart a') =
        (AccountReply (accountID a) (balance a), DcEntity_PostStart a')"
  using assms
  by (auto simp: DcEntity_PreStart_def DcEntity_PostStop_def DcEntity_PostStart_def DcEntity_Receive_def
      pg_GetState_def pg_WriteState_def NewAccount_def split: option.split)

section \<open>Runs\<close>

definition dc_env :: ServiceEnv where
  "dc_env = \<lparr>se_now = 9, se_lookup_err = None, se_net = Delivered, se_gateway_err = None, se_gateway_net = Delivered,
     se_discover = (\<lambda>name. if name = ''acc'' then Some ''east'' else None), se_forward_net = Delivered,
     se_spawn_err = None, se_read_err = None, se_rows = (\<lambda>_. Map.empty)\<rparr>"

definition dc_world :: datacenters where
  "dc_world = (\<lambda>dc name. if dc = ''east'' \<and> name = ''acc'' then Some (NewAccount ''acc'' 40 5) else None)"

theorem credit_applied_once_witness:
  "\<exists>C'. CreditAccount_handler dc_env ''west'' (Inr 2) ''acc'' dc_world = (HttpAccount ''acc'' 42, C')
     \<and> C' = credit ''east'' ''acc'' 2 dc_world"
proof -
  obtain r C' where run: "CreditAccount_handler dc_env ''west'' (Inr 2) ''acc'' dc_world = (r, C')" by fastforce
  moreover from run have "r = HttpAccount ''acc'' 42"
    by (auto simp: CreditAccount_handler_def forwardViaGateway_def forwardAndReply_def forwarded_response_def
        writeAccountResponse_def dc_env_def dc_world_def ask_dc_def ask_def DcEntity_Receive_def NewAccount_def SetBalance_def)
  ultimately show ?thesis
    using credit_applied_once [OF run] by (auto simp: dc_world_def split: if_splits)
qed

theorem account_found_witness:
  "GetAccount_handler dc_env ''west'' ''acc'' dc_world = (HttpAccount ''acc'' 40, dc_world)
   \<and> GetAccount_handler dc_env ''west'' ''nobody'' dc_world = (HttpError 404 ''account not found'', dc_world)"
  using account_found [of dc_env "''acc''" dc_world "''west''"] account_found [of dc_env "''nobody''" dc_world "''west''"]
  by (auto simp: dc_env_def dc_world_def NewAccount_def split: if_splits)

theorem restarted_account_fixed_witness:
  "\<exists>a'. DcEntity_PreStart None (DcEntity_PostStop 6 (NewAccount ''acc'' 0 zeroTime) Map.empty) ''acc'' = Ok a'
     \<and> DcEntity_Receive 7 (CreateAccount ''acc'' 100) (DcEntity_PostStart a') = (AccountReply ''acc'' 0, DcEntity_PostStart a')"
  using restarted_account_fixed [of 6 Map.empty "NewAccount ''acc'' 0 zeroTime" 7 "''acc''" 100]
  by (auto simp: NewAccount_def zeroTime_def)

end
