(* ===== verification/Cluster_K8s.thy ===== *)
theory Cluster_K8s
  imports Bank Go_Std
begin

text \<open>
  The account service on Kubernetes (\<^verbatim>\<open>goakt-cluster/k8s\<close>). A process runs with one of two wire formats, chosen
  at its start: the Go structs themselves, or protobuf messages. The account entity decodes what it receives
  and answers in the format of the request; an HTTP face serves the first mode and a Connect face the second.
  An error is its text, without the Go types some texts end with, and whether it is the runtime's ``actor not
  found''. Amounts are as in the transfer services.
\<close>

section \<open>Messages and the two wire formats\<close>

datatype dom_msg = CreateAccount string int | CreditAccount string int | GetAccount string | AccountMsg string int

text \<open>What travels: a struct of the domain, a protobuf message, the start signal, or anything else.\<close>

datatype wire_msg =
    Struct dom_msg
  | PbCreateAccount string int
  | PbCreditAccount string int
  | PbGetAccount string
  | PbAccount string int
  | PostStart
  | Foreign string

datatype Codec = CBORCodec | ProtoCodec

fun Codec_Name :: "Codec \<Rightarrow> string" where
  "Codec_Name CBORCodec = ''cbor''"
| "Codec_Name ProtoCodec = ''proto''"

definition ParseCodec :: "string \<Rightarrow> string + Codec" where
  "ParseCodec name =
     (let n = ToLower (TrimSpace name) in
      if n = ''cbor'' then Inr CBORCodec
      else if n = ''proto'' then Inr ProtoCodec
      else Inl (''unknown codec '' @ [CHR 0x22] @ name @ [CHR 0x22] @ '': want '' @ [CHR 0x22] @ ''proto'' @ [CHR 0x22] @ '' or '' @
                [CHR 0x22] @ ''cbor'' @ [CHR 0x22]))"

fun proto_Encode :: "dom_msg \<Rightarrow> wire_msg" where
  "proto_Encode (CreateAccount i n) = PbCreateAccount i n"
| "proto_Encode (CreditAccount i n) = PbCreditAccount i n"
| "proto_Encode (GetAccount i) = PbGetAccount i"
| "proto_Encode (AccountMsg i n) = PbAccount i n"

definition cbor_Encode :: "dom_msg \<Rightarrow> wire_msg" where
  "cbor_Encode m = Struct m"

fun Encode :: "Codec \<Rightarrow> dom_msg \<Rightarrow> wire_msg" where
  "Encode CBORCodec = cbor_Encode"
| "Encode ProtoCodec = proto_Encode"

text \<open>The domain message and the format it came in; a message of neither format stays as it is.\<close>

fun Decode :: "wire_msg \<Rightarrow> (wire_msg + dom_msg) \<times> Codec option" where
  "Decode (PbCreateAccount i n) = (Inr (CreateAccount i n), Some ProtoCodec)"
| "Decode (PbCreditAccount i n) = (Inr (CreditAccount i n), Some ProtoCodec)"
| "Decode (PbGetAccount i) = (Inr (GetAccount i), Some ProtoCodec)"
| "Decode (PbAccount i n) = (Inr (AccountMsg i n), Some ProtoCodec)"
| "Decode (Struct m) = (Inr m, Some CBORCodec)"
| "Decode m = (Inl m, None)"

lemma k8s_Decode_Encode [simp]: "Decode (Encode c m) = (Inr m, Some c)"
  by (cases c; cases m) (simp_all add: cbor_Encode_def)

definition read_wire :: "wire_msg \<Rightarrow> (wire_msg, dom_msg) res" where
  "read_wire w = (case fst (Decode w) of Inr m \<Rightarrow> Ok m | Inl x \<Rightarrow> Err x)"

text \<open>Both formats carry every message of the domain.\<close>

interpretation k8s_wire: codec "\<lambda>m. Some (Encode c m)" read_wire "\<lambda>_. True" for c
  by unfold_locales (simp add: read_wire_def)

section \<open>The account entity\<close>

definition k8s_WriteState :: "int \<Rightarrow> string \<Rightarrow> Account \<Rightarrow> account_rows \<Rightarrow> account_rows" where
  "k8s_WriteState db_now actorID state rows =
     rows(actorID \<mapsto> (balance state, case rows actorID of Some (_, t) \<Rightarrow> t | None \<Rightarrow> db_now))"

definition k8s_GetState :: "string option \<Rightarrow> string \<Rightarrow> account_rows \<Rightarrow> (string, Account) res" where
  "k8s_GetState db_err actorID rows =
     (case db_err of
        Some e \<Rightarrow> Err (''failed to get state for actor '' @ actorID @ '': '' @ e)
      | None \<Rightarrow>
          Ok (case rows actorID of None \<Rightarrow> NewAccount actorID 0 zeroTime | Some (b, t) \<Rightarrow> NewAccount actorID b t))"

definition Entity_PreStart :: "string option \<Rightarrow> string \<Rightarrow> account_rows \<Rightarrow> (string, Account) res" where
  "Entity_PreStart db_err name rows = k8s_GetState db_err name rows"

definition Entity_PostStop :: "int \<Rightarrow> Account \<Rightarrow> account_rows \<Rightarrow> account_rows" where
  "Entity_PostStop db_now state rows = k8s_WriteState db_now (accountID state) state rows"

definition respond :: "Codec option \<Rightarrow> dom_msg \<Rightarrow> wire_msg" where
  "respond c account = (case c of None \<Rightarrow> Struct account | Some c \<Rightarrow> Encode c account)"

text \<open>The reply, if any, and the new state; \<open>t\<close> is the clock.\<close>

definition Entity_Receive :: "int \<Rightarrow> wire_msg \<Rightarrow> Account \<Rightarrow> wire_msg option \<times> Account" where
  "Entity_Receive t msg state =
     (case Decode msg of
        (Inl PostStart, c) \<Rightarrow>
          (None, if state = NewAccount [] 0 zeroTime then SetBalance 0 (SetCreatedAt zeroTime state) else state)
      | (Inr (CreateAccount i n), c) \<Rightarrow>
          if createdAt state \<noteq> zeroTime then (Some (respond c (AccountMsg (accountID state) (balance state))), state)
          else let state = SetCreatedAt t (SetBalance n state) in (Some (respond c (AccountMsg i (balance state))), state)
      | (Inr (CreditAccount i n), c) \<Rightarrow>
          let state = SetBalance (balance state + n) state in (Some (respond c (AccountMsg i (balance state))), state)
      | (Inr (GetAccount i), c) \<Rightarrow> (Some (respond c (AccountMsg i (balance state))), state)
      | _ \<Rightarrow> (None, state))"

section \<open>The service\<close>

record go_error =
  is_not_found :: bool
  err_text :: string

text \<open>What a request finds: the clock, the outcome of the spawn or look-up and of the ask, the rows of the store.\<close>

record k8s_env =
  ke_now :: int
  ke_spawn_err :: "go_error option"
  ke_lookup_err :: "go_error option"
  ke_db_err :: "string option"
  ke_net :: net
  ke_rows :: account_rows

type_synonym entities = "string \<rightharpoonup> Account"

definition other_error :: "string \<Rightarrow> go_error" where
  "other_error e = \<lparr>is_not_found = False, err_text = e\<rparr>"

definition not_found :: go_error where
  "not_found = \<lparr>is_not_found = True, err_text = ''actor is not found''\<rparr>"

definition ask_entity :: "k8s_env \<Rightarrow> string \<Rightarrow> wire_msg \<Rightarrow> entities \<Rightarrow> (go_error + wire_msg) \<times> entities" where
  "ask_entity env pid msg C =
     (case ask (Entity_Receive (ke_now env)) (ke_net env) pid msg C of
        (Inl e, C) \<Rightarrow> (Inl (other_error e), C)
      | (Inr None, C) \<Rightarrow> (Inl (other_error ''request timed out''), C)
      | (Inr (Some r), C) \<Rightarrow> (Inr r, C))"

definition toAccount :: "wire_msg \<Rightarrow> go_error + string \<times> int" where
  "toAccount reply =
     (case fst (Decode reply) of
        Inr (AccountMsg i n) \<Rightarrow> Inr (i, n)
      | _ \<Rightarrow> Inl (other_error ''invalid reply type''))"

definition finish :: "(go_error + wire_msg) \<times> entities \<Rightarrow> (go_error + string \<times> int) \<times> entities" where
  "finish r = (case r of (Inl e, C) \<Rightarrow> (Inl e, C) | (Inr reply, C) \<Rightarrow> (toAccount reply, C))"

text \<open>A name that runs already is returned as it is, or refused with an error.\<close>

definition k8s_create :: "Codec \<Rightarrow> k8s_env \<Rightarrow> string \<Rightarrow> int \<Rightarrow> entities \<Rightarrow> (go_error + string \<times> int) \<times> entities" where
  "k8s_create c env aid n C =
     (case ke_spawn_err env of
        Some e \<Rightarrow> (Inl e, C)
      | None \<Rightarrow>
          (case (case C aid of
                   Some _ \<Rightarrow> Ok C
                 | None \<Rightarrow>
                     (case Entity_PreStart (ke_db_err env) aid (ke_rows env) of
                        Err e \<Rightarrow> Err e
                      | Panic \<Rightarrow> Panic
                      | Ok a \<Rightarrow> Ok (C(aid \<mapsto> snd (Entity_Receive (ke_now env) PostStart a))))) of
             Ok C \<Rightarrow> finish (ask_entity env aid (Encode c (CreateAccount aid n)) C)
           | Err e \<Rightarrow> (Inl (other_error e), C)
           | Panic \<Rightarrow> (Inl (other_error ''panic''), C)))"

definition look_up :: "k8s_env \<Rightarrow> string \<Rightarrow> entities \<Rightarrow> go_error option" where
  "look_up env aid C =
     (case ke_lookup_err env of Some e \<Rightarrow> Some e | None \<Rightarrow> if C aid = None then Some not_found else None)"

definition k8s_credit :: "Codec \<Rightarrow> k8s_env \<Rightarrow> string \<Rightarrow> int \<Rightarrow> entities \<Rightarrow> (go_error + string \<times> int) \<times> entities" where
  "k8s_credit c env aid n C =
     (case look_up env aid C of
        Some e \<Rightarrow> (Inl e, C)
      | None \<Rightarrow> finish (ask_entity env aid (Encode c (CreditAccount aid n)) C))"

definition k8s_get :: "Codec \<Rightarrow> k8s_env \<Rightarrow> string \<Rightarrow> entities \<Rightarrow> (go_error + string \<times> int) \<times> entities" where
  "k8s_get c env aid C =
     (case look_up env aid C of
        Some e \<Rightarrow> (Inl e, C)
      | None \<Rightarrow> finish (ask_entity env aid (Encode c (GetAccount aid)) C))"

section \<open>The HTTP face\<close>

datatype http = HttpAccount string int | HttpError nat string

definition writeAccount :: "string \<times> int \<Rightarrow> http" where
  "writeAccount a = HttpAccount (fst a) (snd a)"

text \<open>A body that does not decode is \<open>Inl\<close>.\<close>

definition http_CreateAccount :: "Codec \<Rightarrow> k8s_env \<Rightarrow> string + string \<times> int \<Rightarrow> entities \<Rightarrow> http \<times> entities" where
  "http_CreateAccount c env req C =
     (case req of
        Inl e \<Rightarrow> (HttpError 400 (''invalid request: '' @ e), C)
      | Inr (aid, n) \<Rightarrow>
          (case k8s_create c env aid n C of
             (Inl e, C) \<Rightarrow> (HttpError 500 (err_text e), C)
           | (Inr a, C) \<Rightarrow> (writeAccount a, C)))"

definition http_CreditAccount :: "Codec \<Rightarrow> k8s_env \<Rightarrow> string + int \<Rightarrow> string \<Rightarrow> entities \<Rightarrow> http \<times> entities" where
  "http_CreditAccount c env req aid C =
     (case req of
        Inl e \<Rightarrow> (HttpError 400 (''invalid request: '' @ e), C)
      | Inr n \<Rightarrow>
          (case k8s_credit c env aid n C of
             (Inl e, C) \<Rightarrow> (if is_not_found e then HttpError 404 ''account not found'' else HttpError 500 (err_text e), C)
           | (Inr a, C) \<Rightarrow> (writeAccount a, C)))"

definition http_GetAccount :: "Codec \<Rightarrow> k8s_env \<Rightarrow> string \<Rightarrow> entities \<Rightarrow> http \<times> entities" where
  "http_GetAccount c env aid C =
     (case k8s_get c env aid C of
        (Inl e, C) \<Rightarrow> (HttpError 500 (err_text e), C)
      | (Inr a, C) \<Rightarrow> (writeAccount a, C))"

section \<open>The Connect face\<close>

datatype rpc_code = CodeInternal | CodeNotFound

datatype rpc = RpcAccount wire_msg | RpcError rpc_code string

definition toProtoAccount :: "string \<times> int \<Rightarrow> wire_msg" where
  "toProtoAccount a = proto_Encode (AccountMsg (fst a) (snd a))"

definition rpc_CreateAccount :: "Codec \<Rightarrow> k8s_env \<Rightarrow> string \<Rightarrow> int \<Rightarrow> entities \<Rightarrow> rpc \<times> entities" where
  "rpc_CreateAccount c env aid n C =
     (case k8s_create c env aid n C of
        (Inl e, C) \<Rightarrow> (RpcError CodeInternal (err_text e), C)
      | (Inr a, C) \<Rightarrow> (RpcAccount (toProtoAccount a), C))"

definition rpc_CreditAccount :: "Codec \<Rightarrow> k8s_env \<Rightarrow> string \<Rightarrow> int \<Rightarrow> entities \<Rightarrow> rpc \<times> entities" where
  "rpc_CreditAccount c env aid n C =
     (case k8s_credit c env aid n C of
        (Inl e, C) \<Rightarrow> (RpcError (if is_not_found e then CodeNotFound else CodeInternal) (err_text e), C)
      | (Inr a, C) \<Rightarrow> (RpcAccount (toProtoAccount a), C))"

definition rpc_GetAccount :: "Codec \<Rightarrow> k8s_env \<Rightarrow> string \<Rightarrow> entities \<Rightarrow> rpc \<times> entities" where
  "rpc_GetAccount c env aid C =
     (case k8s_get c env aid C of
        (Inl e, C) \<Rightarrow> (RpcError CodeInternal (err_text e), C)
      | (Inr a, C) \<Rightarrow> (RpcAccount (toProtoAccount a), C))"

section \<open>The two modes\<close>

text \<open>The format of a request does not show in what becomes of it.\<close>

lemma ask_entity_codec: "finish (ask_entity env pid (Encode c m) C) = finish (ask_entity env pid (Encode c' m) C)"
proof (cases "C pid")
  case None
  then show ?thesis by (simp add: ask_entity_def ask_def)
next
  case (Some a)
  then show ?thesis
    by (cases m; cases "ke_net env")
      (simp_all add: ask_entity_def ask_def finish_def toAccount_def Entity_Receive_def respond_def Let_def)
qed

lemma k8s_codec:
  "k8s_create c env aid n C = k8s_create c' env aid n C"
  "k8s_credit c env aid n C = k8s_credit c' env aid n C"
  "k8s_get c env aid C = k8s_get c' env aid C"
  unfolding k8s_create_def k8s_credit_def k8s_get_def by (simp_all only: ask_entity_codec [of env aid c _ _ c'])

datatype acct_req = ReqCreate string int | ReqCredit string int | ReqGet string

fun http_serve :: "k8s_env \<times> acct_req \<Rightarrow> entities \<Rightarrow> http \<times> entities" where
  "http_serve (env, ReqCreate aid n) C = http_CreateAccount CBORCodec env (Inr (aid, n)) C"
| "http_serve (env, ReqCredit aid n) C = http_CreditAccount CBORCodec env (Inr n) aid C"
| "http_serve (env, ReqGet aid) C = http_GetAccount CBORCodec env aid C"

fun rpc_serve :: "k8s_env \<times> acct_req \<Rightarrow> entities \<Rightarrow> rpc \<times> entities" where
  "rpc_serve (env, ReqCreate aid n) C = rpc_CreateAccount ProtoCodec env aid n C"
| "rpc_serve (env, ReqCredit aid n) C = rpc_CreditAccount ProtoCodec env aid n C"
| "rpc_serve (env, ReqGet aid) C = rpc_GetAccount ProtoCodec env aid C"

fun serve_all :: "('q \<Rightarrow> 's \<Rightarrow> 'r \<times> 's) \<Rightarrow> 'q list \<Rightarrow> 's \<Rightarrow> 'r list \<times> 's" where
  "serve_all f [] C = ([], C)"
| "serve_all f (q # qs) C = (let (r, C) = f q C; (rs, C) = serve_all f qs C in (r # rs, C))"

text \<open>The same answer on both faces.\<close>

fun same_answer :: "http \<Rightarrow> rpc \<Rightarrow> bool" where
  "same_answer (HttpAccount i n) (RpcAccount w) = (w = PbAccount i n)"
| "same_answer (HttpError s e) (RpcError CodeInternal e') = (s = 500 \<and> e = e')"
| "same_answer (HttpError s e) (RpcError CodeNotFound e') = (s = 404)"
| "same_answer _ _ = False"

lemma serve_agrees:
  assumes "http_serve q C = (h, C1)" and "rpc_serve q C = (r, C2)"
  shows "C1 = C2 \<and> same_answer h r"
proof (cases q)
  case (Pair env req)
  note codec = k8s_codec [where c = ProtoCodec and c' = CBORCodec]
  show ?thesis
  proof (cases req)
    case (ReqCreate aid n)
    obtain x C' where "k8s_create CBORCodec env aid n C = (x, C')" by fastforce
    with assms Pair ReqCreate show ?thesis
      by (cases x) (auto simp: http_CreateAccount_def rpc_CreateAccount_def codec writeAccount_def toProtoAccount_def)
  next
    case (ReqCredit aid n)
    obtain x C' where "k8s_credit CBORCodec env aid n C = (x, C')" by fastforce
    with assms Pair ReqCredit show ?thesis
      by (cases x) (auto simp: http_CreditAccount_def rpc_CreditAccount_def codec writeAccount_def toProtoAccount_def split: if_splits)
  next
    case (ReqGet aid)
    obtain x C' where "k8s_get CBORCodec env aid C = (x, C')" by fastforce
    with assms Pair ReqGet show ?thesis
      by (cases x) (auto simp: http_GetAccount_def rpc_GetAccount_def codec writeAccount_def toProtoAccount_def)
  qed
qed

lemma serve_all_agrees:
  "snd (serve_all http_serve qs C) = snd (serve_all rpc_serve qs C) \<and>
   list_all2 same_answer (fst (serve_all http_serve qs C)) (fst (serve_all rpc_serve qs C))"
proof (induction qs arbitrary: C)
  case (Cons q qs)
  obtain h C1 where h: "http_serve q C = (h, C1)" by fastforce
  obtain r C2 where r: "rpc_serve q C = (r, C2)" by fastforce
  from serve_agrees [OF h r] Cons [of C1] show ?case by (simp add: h r case_prod_beta)
qed simp

text \<open>An account that is not there is reported differently by the two handlers that look it up.\<close>

lemma missing_account:
  assumes "C aid = None" and "ke_lookup_err env = None"
  shows "fst (http_CreditAccount c env (Inr n) aid C) = HttpError 404 ''account not found''"
    and "fst (http_GetAccount c env aid C) = HttpError 500 (err_text not_found)"
  using assms by (simp_all add: http_CreditAccount_def http_GetAccount_def k8s_credit_def k8s_get_def look_up_def not_found_def)

section \<open>Properties\<close>

text \<open>
  C26: the two modes of the Kubernetes service are one service. Served by the HTTP face over the Go structs or by
  the Connect face over protobuf, any sequence of requests (with the same failures of spawns, look-ups, asks
  and the store) leaves the same accounts and is answered the same way: the same account, or an error of the
  same class.
\<close>

theorem wire_modes_agree:
  "snd (serve_all http_serve qs C) = snd (serve_all rpc_serve qs C) \<and>
   list_all2 same_answer (fst (serve_all http_serve qs C)) (fst (serve_all rpc_serve qs C))"
  by (rule serve_all_agrees)

end
