(* ===== verification/Cluster_Dnssd.thy ===== *)
theory Cluster_Dnssd
  imports Cluster_K8s
begin

text \<open>
  The account service found through DNS (\<^verbatim>\<open>goakt-cluster/dnssd\<close>): the same entity without a wire format of its
  own, and a REST and a Connect face that share one set of actor calls on one port. The service is proved to
  be the Kubernetes service without its wire layer; where its two faces differ is stated exactly.
\<close>

section \<open>The entity\<close>

datatype entity_msg = Started | Command dom_msg | Unknown

definition Dnssd_PreStart :: "string option \<Rightarrow> string \<Rightarrow> account_rows \<Rightarrow> (string, Account) res" where
  "Dnssd_PreStart db_err name rows = k8s_GetState db_err name rows"

definition Dnssd_Receive :: "int \<Rightarrow> entity_msg \<Rightarrow> Account \<Rightarrow> dom_msg option \<times> Account" where
  "Dnssd_Receive t msg state =
     (case msg of
        Started \<Rightarrow>
          (None, if state = NewAccount [] 0 zeroTime then SetBalance 0 (SetCreatedAt zeroTime state) else state)
      | Command (CreateAccount i n) \<Rightarrow>
          if createdAt state \<noteq> zeroTime then (Some (AccountMsg (accountID state) (balance state)), state)
          else let state = SetCreatedAt t (SetBalance n state) in (Some (AccountMsg i (balance state)), state)
      | Command (CreditAccount i n) \<Rightarrow>
          let newBalance = balance state + n; state = SetBalance newBalance state in
          (Some (AccountMsg i (balance state)), state)
      | Command (GetAccount i) \<Rightarrow> (Some (AccountMsg i (balance state)), state)
      | _ \<Rightarrow> (None, state))"

definition Dnssd_PostStop :: "int \<Rightarrow> Account \<Rightarrow> account_rows \<Rightarrow> account_rows" where
  "Dnssd_PostStop db_now state rows = k8s_WriteState db_now (accountID state) state rows"

section \<open>The actor calls\<close>

definition dnssd_ask :: "k8s_env \<Rightarrow> string \<Rightarrow> dom_msg \<Rightarrow> entities \<Rightarrow> (go_error + dom_msg) \<times> entities" where
  "dnssd_ask env pid m C =
     (case ask (Dnssd_Receive (ke_now env)) (ke_net env) pid (Command m) C of
        (Inl e, C) \<Rightarrow> (Inl (other_error e), C)
      | (Inr None, C) \<Rightarrow> (Inl (other_error ''request timed out''), C)
      | (Inr (Some r), C) \<Rightarrow> (Inr r, C))"

definition dnssd_toAccount :: "dom_msg \<Rightarrow> go_error + string \<times> int" where
  "dnssd_toAccount reply =
     (case reply of AccountMsg i n \<Rightarrow> Inr (i, n) | _ \<Rightarrow> Inl (other_error ''invalid reply type''))"

definition dnssd_finish :: "(go_error + dom_msg) \<times> entities \<Rightarrow> (go_error + string \<times> int) \<times> entities" where
  "dnssd_finish r = (case r of (Inl e, C) \<Rightarrow> (Inl e, C) | (Inr reply, C) \<Rightarrow> (dnssd_toAccount reply, C))"

definition dnssd_create :: "k8s_env \<Rightarrow> string \<Rightarrow> int \<Rightarrow> entities \<Rightarrow> (go_error + string \<times> int) \<times> entities" where
  "dnssd_create env aid n C =
     (case ke_spawn_err env of
        Some e \<Rightarrow> (Inl e, C)
      | None \<Rightarrow>
          (case (case C aid of
                   Some _ \<Rightarrow> Ok C
                 | None \<Rightarrow>
                     (case Dnssd_PreStart (ke_db_err env) aid (ke_rows env) of
                        Err e \<Rightarrow> Err e
                      | Panic \<Rightarrow> Panic
                      | Ok a \<Rightarrow> Ok (C(aid \<mapsto> snd (Dnssd_Receive (ke_now env) Started a))))) of
             Ok C \<Rightarrow> dnssd_finish (dnssd_ask env aid (CreateAccount aid n) C)
           | Err e \<Rightarrow> (Inl (other_error e), C)
           | Panic \<Rightarrow> (Inl (other_error ''panic''), C)))"

definition dnssd_credit :: "k8s_env \<Rightarrow> string \<Rightarrow> int \<Rightarrow> entities \<Rightarrow> (go_error + string \<times> int) \<times> entities" where
  "dnssd_credit env aid n C =
     (case look_up env aid C of
        Some e \<Rightarrow> (Inl e, C)
      | None \<Rightarrow> dnssd_finish (dnssd_ask env aid (CreditAccount aid n) C))"

definition dnssd_get :: "k8s_env \<Rightarrow> string \<Rightarrow> entities \<Rightarrow> (go_error + string \<times> int) \<times> entities" where
  "dnssd_get env aid C =
     (case look_up env aid C of
        Some e \<Rightarrow> (Inl e, C)
      | None \<Rightarrow> dnssd_finish (dnssd_ask env aid (GetAccount aid) C))"

section \<open>The REST face\<close>

definition isNotFound :: "go_error \<Rightarrow> bool" where
  "isNotFound err = is_not_found err"

definition rest_CreateAccount :: "k8s_env \<Rightarrow> string + string \<times> int \<Rightarrow> entities \<Rightarrow> http \<times> entities" where
  "rest_CreateAccount env req C =
     (case req of
        Inl e \<Rightarrow> (HttpError 400 (''invalid request: '' @ e), C)
      | Inr (aid, n) \<Rightarrow>
          (case dnssd_create env aid n C of
             (Inl e, C) \<Rightarrow> (HttpError 500 (err_text e), C)
           | (Inr a, C) \<Rightarrow> (HttpAccount (fst a) (snd a), C)))"

definition rest_CreditAccount :: "k8s_env \<Rightarrow> string + int \<Rightarrow> string \<Rightarrow> entities \<Rightarrow> http \<times> entities" where
  "rest_CreditAccount env req aid C =
     (case req of
        Inl e \<Rightarrow> (HttpError 400 (''invalid request: '' @ e), C)
      | Inr n \<Rightarrow>
          (case dnssd_credit env aid n C of
             (Inl e, C) \<Rightarrow> (if isNotFound e then HttpError 404 ''account not found'' else HttpError 500 (err_text e), C)
           | (Inr a, C) \<Rightarrow> (HttpAccount (fst a) (snd a), C)))"

definition rest_GetAccount :: "k8s_env \<Rightarrow> string \<Rightarrow> entities \<Rightarrow> http \<times> entities" where
  "rest_GetAccount env aid C =
     (case dnssd_get env aid C of
        (Inl e, C) \<Rightarrow> (HttpError 500 (err_text e), C)
      | (Inr a, C) \<Rightarrow> (HttpAccount (fst a) (snd a), C))"

section \<open>The Connect face\<close>

definition connectError :: "go_error \<Rightarrow> rpc" where
  "connectError err =
     (if isNotFound err then RpcError CodeNotFound (err_text err) else RpcError CodeInternal (err_text err))"

definition dnssd_toProtoAccount :: "string \<times> int \<Rightarrow> wire_msg" where
  "dnssd_toProtoAccount a = PbAccount (fst a) (snd a)"

definition connect_result :: "(go_error + string \<times> int) \<times> entities \<Rightarrow> rpc \<times> entities" where
  "connect_result r =
     (case r of (Inl e, C) \<Rightarrow> (connectError e, C) | (Inr a, C) \<Rightarrow> (RpcAccount (dnssd_toProtoAccount a), C))"

definition connect_CreateAccount :: "k8s_env \<Rightarrow> string \<Rightarrow> int \<Rightarrow> entities \<Rightarrow> rpc \<times> entities" where
  "connect_CreateAccount env aid n C = connect_result (dnssd_create env aid n C)"

definition connect_CreditAccount :: "k8s_env \<Rightarrow> string \<Rightarrow> int \<Rightarrow> entities \<Rightarrow> rpc \<times> entities" where
  "connect_CreditAccount env aid n C = connect_result (dnssd_credit env aid n C)"

definition connect_GetAccount :: "k8s_env \<Rightarrow> string \<Rightarrow> entities \<Rightarrow> rpc \<times> entities" where
  "connect_GetAccount env aid C = connect_result (dnssd_get env aid C)"

section \<open>The Kubernetes service without its wire layer\<close>

lemma Dnssd_Receive_wire:
  "Entity_Receive t (Encode c m) a = map_prod (map_option (Encode c)) id (Dnssd_Receive t (Command m) a)"
  by (cases m) (simp_all add: Entity_Receive_def Dnssd_Receive_def respond_def Let_def)

lemma Dnssd_Receive_start: "snd (Dnssd_Receive t Started a) = snd (Entity_Receive t PostStart a)"
  by (simp add: Entity_Receive_def Dnssd_Receive_def)

lemma dnssd_ask_wire: "dnssd_finish (dnssd_ask env pid m C) = finish (ask_entity env pid (Encode c m) C)"
proof (cases "C pid")
  case None
  then show ?thesis by (simp add: ask_entity_def dnssd_ask_def ask_def finish_def dnssd_finish_def)
next
  case (Some a)
  obtain r a' where "Dnssd_Receive (ke_now env) (Command m) a = (r, a')" by fastforce
  with Some show ?thesis
    by (cases "ke_net env"; cases r)
      (auto simp: ask_entity_def dnssd_ask_def ask_def finish_def dnssd_finish_def Dnssd_Receive_wire toAccount_def
        dnssd_toAccount_def split: dom_msg.split)
qed

lemma dnssd_is_k8s:
  "dnssd_create env aid n C = k8s_create c env aid n C"
  "dnssd_credit env aid n C = k8s_credit c env aid n C"
  "dnssd_get env aid C = k8s_get c env aid C"
  by (simp_all add: dnssd_create_def k8s_create_def dnssd_credit_def k8s_credit_def dnssd_get_def k8s_get_def
      dnssd_ask_wire [where c = c] Dnssd_PreStart_def Entity_PreStart_def Dnssd_Receive_start
      cong: option.case_cong res.case_cong)

section \<open>Where the faces differ\<close>

text \<open>The error an actor call ended with, if any.\<close>

definition failure :: "(go_error + string \<times> int) \<times> entities \<Rightarrow> go_error option" where
  "failure r = (case fst r of Inl e \<Rightarrow> Some e | Inr _ \<Rightarrow> None)"

definition missing :: "(go_error + string \<times> int) \<times> entities \<Rightarrow> bool" where
  "missing r \<longleftrightarrow> (case failure r of Some e \<Rightarrow> isNotFound e | None \<Rightarrow> False)"

lemma create_faces:
  "snd (rest_CreateAccount env (Inr (aid, n)) C) = snd (connect_CreateAccount env aid n C) \<and>
   (same_answer (fst (rest_CreateAccount env (Inr (aid, n)) C)) (fst (connect_CreateAccount env aid n C)) \<longleftrightarrow>
    \<not> missing (dnssd_create env aid n C))"
proof -
  obtain x C' where "dnssd_create env aid n C = (x, C')" by fastforce
  then show ?thesis
    by (cases x) (auto simp: rest_CreateAccount_def connect_CreateAccount_def connect_result_def connectError_def
        dnssd_toProtoAccount_def missing_def failure_def)
qed

lemma credit_faces:
  "snd (rest_CreditAccount env (Inr n) aid C) = snd (connect_CreditAccount env aid n C) \<and>
   same_answer (fst (rest_CreditAccount env (Inr n) aid C)) (fst (connect_CreditAccount env aid n C))"
proof -
  obtain x C' where "dnssd_credit env aid n C = (x, C')" by fastforce
  then show ?thesis
    by (cases x) (auto simp: rest_CreditAccount_def connect_CreditAccount_def connect_result_def connectError_def
        dnssd_toProtoAccount_def)
qed

lemma get_faces:
  "snd (rest_GetAccount env aid C) = snd (connect_GetAccount env aid C) \<and>
   (same_answer (fst (rest_GetAccount env aid C)) (fst (connect_GetAccount env aid C)) \<longleftrightarrow> \<not> missing (dnssd_get env aid C))"
proof -
  obtain x C' where "dnssd_get env aid C = (x, C')" by fastforce
  then show ?thesis
    by (cases x) (auto simp: rest_GetAccount_def connect_GetAccount_def connect_result_def connectError_def
        dnssd_toProtoAccount_def missing_def failure_def)
qed

section \<open>Properties\<close>


end
