(* ===== verification/Cluster_Ebpf.thy ===== *)
theory Cluster_Ebpf
  imports Cluster_Dnssd
begin

text \<open>
  The traced account service (\<^verbatim>\<open>goakt-cluster/k8s-ebpf\<close>). Its handlers spawn, look up and ask by themselves
  where the service over DNS shares its actor calls with a second face. The spans change nothing that is
  modelled. The service is proved to serve every request as the REST face of the service over DNS.
\<close>

section \<open>The entity\<close>

definition Ebpf_PreStart :: "string option \<Rightarrow> string \<Rightarrow> account_rows \<Rightarrow> (string, Account) res" where
  "Ebpf_PreStart db_err name rows =
     (case k8s_GetState db_err name rows of
        Ok latestState \<Rightarrow> Ok latestState
      | Err e \<Rightarrow> Err e
      | Panic \<Rightarrow> Panic)"

definition Ebpf_Receive :: "int \<Rightarrow> entity_msg \<Rightarrow> Account \<Rightarrow> dom_msg option \<times> Account" where
  "Ebpf_Receive t msg state =
     (case msg of
        Started \<Rightarrow>
          (None, if state = NewAccount [] 0 zeroTime then SetBalance 0 (SetCreatedAt zeroTime state) else state)
      | Command (CreateAccount i n) \<Rightarrow>
          if createdAt state \<noteq> zeroTime then (Some (AccountMsg (accountID state) (balance state)), state)
          else let state = SetCreatedAt t (SetBalance n state) in (Some (AccountMsg i (balance state)), state)
      | Command (CreditAccount i n) \<Rightarrow>
          let newBalance = balance state + n; state = SetBalance newBalance state in
          (Some (AccountMsg i (balance state)), state)
      | Command (GetAccount i) \<Rightarrow> (Some (AccountMsg i (balance state)), state)
      | Command (AccountMsg i n) \<Rightarrow> (None, state)
      | Unknown \<Rightarrow> (None, state))"

definition Ebpf_PostStop :: "int \<Rightarrow> Account \<Rightarrow> account_rows \<Rightarrow> account_rows" where
  "Ebpf_PostStop db_now underlying rows = k8s_WriteState db_now (accountID underlying) underlying rows"

section \<open>The handlers\<close>

text \<open>Asking an entity: the account of the reply, or the text of an error.\<close>

definition ebpf_ask :: "k8s_env \<Rightarrow> string \<Rightarrow> dom_msg \<Rightarrow> entities \<Rightarrow> http \<times> entities" where
  "ebpf_ask env pid m C =
     (case ask (Ebpf_Receive (ke_now env)) (ke_net env) pid (Command m) C of
        (Inl e, C) \<Rightarrow> (HttpError 500 e, C)
      | (Inr None, C) \<Rightarrow> (HttpError 500 ''request timed out'', C)
      | (Inr (Some (AccountMsg i n)), C) \<Rightarrow> (HttpAccount i n, C)
      | (Inr (Some _), C) \<Rightarrow> (HttpError 500 ''invalid reply type'', C))"

definition ebpf_CreateAccount :: "k8s_env \<Rightarrow> string + string \<times> int \<Rightarrow> entities \<Rightarrow> http \<times> entities" where
  "ebpf_CreateAccount env req C =
     (case req of
        Inl e \<Rightarrow> (HttpError 400 (''invalid request: '' @ e), C)
      | Inr (aid, n) \<Rightarrow>
          (case ke_spawn_err env of
             Some e \<Rightarrow> (HttpError 500 (err_text e), C)
           | None \<Rightarrow>
               (case C aid of
                  Some _ \<Rightarrow> ebpf_ask env aid (CreateAccount aid n) C
                | None \<Rightarrow>
                    (case Ebpf_PreStart (ke_db_err env) aid (ke_rows env) of
                       Err e \<Rightarrow> (HttpError 500 e, C)
                     | Panic \<Rightarrow> (HttpError 500 ''panic'', C)
                     | Ok a \<Rightarrow>
                         ebpf_ask env aid (CreateAccount aid n) (C(aid \<mapsto> snd (Ebpf_Receive (ke_now env) Started a)))))))"

definition ebpf_CreditAccount :: "k8s_env \<Rightarrow> string + int \<Rightarrow> string \<Rightarrow> entities \<Rightarrow> http \<times> entities" where
  "ebpf_CreditAccount env req aid C =
     (case req of
        Inl e \<Rightarrow> (HttpError 400 (''invalid request: '' @ e), C)
      | Inr n \<Rightarrow>
          (case look_up env aid C of
             Some e \<Rightarrow> (if is_not_found e then HttpError 404 ''account not found'' else HttpError 500 (err_text e), C)
           | None \<Rightarrow> ebpf_ask env aid (CreditAccount aid n) C))"

definition ebpf_GetAccount :: "k8s_env \<Rightarrow> string \<Rightarrow> entities \<Rightarrow> http \<times> entities" where
  "ebpf_GetAccount env aid C =
     (case look_up env aid C of
        Some e \<Rightarrow> (HttpError 500 (err_text e), C)
      | None \<Rightarrow> ebpf_ask env aid (GetAccount aid) C)"

section \<open>The REST face of the service over DNS\<close>

lemma Ebpf_Receive_dnssd: "Ebpf_Receive = Dnssd_Receive"
  by (intro ext) (simp add: Ebpf_Receive_def Dnssd_Receive_def split: entity_msg.split dom_msg.split)

lemma Ebpf_PreStart_dnssd: "Ebpf_PreStart = Dnssd_PreStart"
  by (intro ext) (simp add: Ebpf_PreStart_def Dnssd_PreStart_def split: res.split)

lemma ebpf_ask_dnssd:
  "ebpf_ask env pid m C =
     (case dnssd_finish (dnssd_ask env pid m C) of
        (Inl e, C) \<Rightarrow> (HttpError 500 (err_text e), C)
      | (Inr a, C) \<Rightarrow> (HttpAccount (fst a) (snd a), C))"
  by (simp add: ebpf_ask_def dnssd_ask_def dnssd_finish_def dnssd_toAccount_def other_error_def Ebpf_Receive_dnssd
      split: prod.split sum.split option.split dom_msg.split)

lemma ask_error_not_missing: "dnssd_finish (dnssd_ask env pid m C) = (Inl e, C') \<Longrightarrow> \<not> is_not_found e"
  by (auto simp: dnssd_finish_def dnssd_ask_def dnssd_toAccount_def other_error_def
      split: prod.splits sum.splits option.splits dom_msg.splits)

lemma ebpf_is_rest:
  "ebpf_CreateAccount env req C = rest_CreateAccount env req C"
  "ebpf_CreditAccount env req' aid C = rest_CreditAccount env req' aid C"
  "ebpf_GetAccount env aid C = rest_GetAccount env aid C"
proof -
  show "ebpf_CreateAccount env req C = rest_CreateAccount env req C"
    by (auto simp: ebpf_CreateAccount_def rest_CreateAccount_def dnssd_create_def ebpf_ask_dnssd Ebpf_Receive_dnssd
        Ebpf_PreStart_dnssd other_error_def split: sum.split prod.split option.split res.split)
  show "ebpf_CreditAccount env req' aid C = rest_CreditAccount env req' aid C"
    by (auto dest: ask_error_not_missing simp: ebpf_CreditAccount_def rest_CreditAccount_def dnssd_credit_def ebpf_ask_dnssd isNotFound_def
        split: sum.splits prod.splits option.splits)
  show "ebpf_GetAccount env aid C = rest_GetAccount env aid C"
    by (simp add: ebpf_GetAccount_def rest_GetAccount_def dnssd_get_def ebpf_ask_dnssd split: sum.split prod.split option.split)
qed

end
