(* ===== verification/Cluster_Memory.thy ===== *)
theory Cluster_Memory
  imports Bank
begin

text \<open>
  The account services that keep the accounts in memory (\<^verbatim>\<open>goakt-cluster/static\<close> and \<^verbatim>\<open>goakt-cluster/dynalloc\<close>):
  one account actor, which both have, and the two Connect services, of which the first looks the actor up
  and asks it while the second sends to it by name. An account that a request does not answer leaves the
  caller with a timeout.
\<close>

section \<open>The account actor\<close>

record MemAccount =
  ma_accountID :: string
  ma_balance :: int
  ma_created :: bool

definition newMemAccount :: MemAccount where
  "newMemAccount = \<lparr>ma_accountID = [], ma_balance = 0, ma_created = False\<rparr>"

datatype mem_msg = MemPostStart string | MemCreate string int | MemCredit string int | MemGet string | MemOther

datatype mem_reply = MemAccountReply string int | MemSilent | MemUnhandled

definition Mem_Receive :: "mem_msg \<Rightarrow> MemAccount \<Rightarrow> mem_reply \<times> MemAccount" where
  "Mem_Receive msg p =
     (case msg of
        MemPostStart self \<Rightarrow> (MemSilent, p\<lparr>ma_accountID := self\<rparr>)
      | MemCreate i n \<Rightarrow>
          if ma_created p then (MemSilent, p)
          else if ma_accountID p = i then
            let p = p\<lparr>ma_balance := n, ma_created := True\<rparr> in (MemAccountReply i (ma_balance p), p)
          else (MemSilent, p)
      | MemCredit i n \<Rightarrow>
          if ma_accountID p = i then
            let p = p\<lparr>ma_balance := ma_balance p + n\<rparr> in (MemAccountReply i (ma_balance p), p)
          else (MemSilent, p)
      | MemGet i \<Rightarrow> (MemAccountReply i (ma_balance p), p)
      | MemOther \<Rightarrow> (MemUnhandled, p))"

definition Mem_PostStop :: "MemAccount \<Rightarrow> MemAccount" where
  "Mem_PostStop p = p\<lparr>ma_created := False, ma_balance := 0\<rparr>"

section \<open>The services\<close>

datatype code = Plain | Internal | NotFound

datatype mem_response = MemOk string int | MemErr code string

record mem_env =
  me_spawn_err :: "string option"
  me_lookup_err :: "string option"
  me_net :: net

type_synonym mem_accounts = "string \<rightharpoonup> MemAccount"

definition mem_ask :: "mem_env \<Rightarrow> string \<Rightarrow> mem_msg \<Rightarrow> mem_accounts \<Rightarrow> (string + string \<times> int) \<times> mem_accounts" where
  "mem_ask env pid msg A =
     (case ask Mem_Receive (me_net env) pid msg A of
        (Inl e, A) \<Rightarrow> (Inl e, A)
      | (Inr (MemAccountReply i n), A) \<Rightarrow> (Inr (i, n), A)
      | (Inr _, A) \<Rightarrow> (Inl ''request timed out'', A))"

definition mem_answer :: "(string + string \<times> int) \<times> mem_accounts \<Rightarrow> mem_response \<times> mem_accounts" where
  "mem_answer r = (case r of (Inl e, A) \<Rightarrow> (MemErr Internal e, A) | (Inr (i, n), A) \<Rightarrow> (MemOk i n, A))"

text \<open>Spawning a name that runs already returns the running actor.\<close>

definition mem_spawn :: "string \<Rightarrow> mem_accounts \<Rightarrow> mem_accounts" where
  "mem_spawn name A =
     (case A name of
        Some _ \<Rightarrow> A
      | None \<Rightarrow> A(name \<mapsto> snd (Mem_Receive (MemPostStart name) newMemAccount)))"

definition static_CreateAccount :: "mem_env \<Rightarrow> string \<Rightarrow> int \<Rightarrow> mem_accounts \<Rightarrow> mem_response \<times> mem_accounts" where
  "static_CreateAccount env aid n A =
     (case me_spawn_err env of
        Some e \<Rightarrow> (MemErr Plain e, A)
      | None \<Rightarrow> mem_answer (mem_ask env aid (MemCreate aid n) (mem_spawn aid A)))"

definition static_CreditAccount :: "mem_env \<Rightarrow> string \<Rightarrow> int \<Rightarrow> mem_accounts \<Rightarrow> mem_response \<times> mem_accounts" where
  "static_CreditAccount env aid n A =
     (case me_lookup_err env of
        Some e \<Rightarrow> (MemErr NotFound e, A)
      | None \<Rightarrow>
          if A aid = None then (MemErr NotFound ''actor is not found'', A)
          else mem_answer (mem_ask env aid (MemCredit aid n) A))"

definition static_GetAccount :: "mem_env \<Rightarrow> string \<Rightarrow> mem_accounts \<Rightarrow> mem_response \<times> mem_accounts" where
  "static_GetAccount env aid A =
     (case me_lookup_err env of
        Some e \<Rightarrow> (MemErr Internal e, A)
      | None \<Rightarrow>
          if A aid = None then (MemErr Internal ''actor is not found'', A)
          else mem_answer (mem_ask env aid (MemGet aid) A))"

text \<open>Sending by name looks the actor up and asks it in one call.\<close>

definition SendSync :: "mem_env \<Rightarrow> string \<Rightarrow> mem_msg \<Rightarrow> mem_accounts \<Rightarrow> (string + string \<times> int) \<times> mem_accounts" where
  "SendSync env aid msg A =
     (case me_lookup_err env of
        Some e \<Rightarrow> (Inl e, A)
      | None \<Rightarrow> if A aid = None then (Inl ''actor is not found'', A) else mem_ask env aid msg A)"

definition dynalloc_CreateAccount :: "mem_env \<Rightarrow> string \<Rightarrow> int \<Rightarrow> mem_accounts \<Rightarrow> mem_response \<times> mem_accounts" where
  "dynalloc_CreateAccount env aid n A =
     (case me_spawn_err env of
        Some e \<Rightarrow> (MemErr Plain e, A)
      | None \<Rightarrow> mem_answer (mem_ask env aid (MemCreate aid n) (mem_spawn aid A)))"

definition dynalloc_CreditAccount :: "mem_env \<Rightarrow> string \<Rightarrow> int \<Rightarrow> mem_accounts \<Rightarrow> mem_response \<times> mem_accounts" where
  "dynalloc_CreditAccount env aid n A = mem_answer (SendSync env aid (MemCredit aid n) A)"

definition dynalloc_GetAccount :: "mem_env \<Rightarrow> string \<Rightarrow> mem_accounts \<Rightarrow> mem_response \<times> mem_accounts" where
  "dynalloc_GetAccount env aid A = mem_answer (SendSync env aid (MemGet aid) A)"

section \<open>Running the services\<close>

datatype mem_req = MReqCreate string int | MReqCredit string int | MReqGet string

fun static_serve :: "mem_env \<times> mem_req \<Rightarrow> mem_accounts \<Rightarrow> mem_response \<times> mem_accounts" where
  "static_serve (env, MReqCreate aid n) A = static_CreateAccount env aid n A"
| "static_serve (env, MReqCredit aid n) A = static_CreditAccount env aid n A"
| "static_serve (env, MReqGet aid) A = static_GetAccount env aid A"

fun dynalloc_serve :: "mem_env \<times> mem_req \<Rightarrow> mem_accounts \<Rightarrow> mem_response \<times> mem_accounts" where
  "dynalloc_serve (env, MReqCreate aid n) A = dynalloc_CreateAccount env aid n A"
| "dynalloc_serve (env, MReqCredit aid n) A = dynalloc_CreditAccount env aid n A"
| "dynalloc_serve (env, MReqGet aid) A = dynalloc_GetAccount env aid A"

lemmas mem_defs = static_CreateAccount_def static_CreditAccount_def static_GetAccount_def
  dynalloc_CreateAccount_def dynalloc_CreditAccount_def dynalloc_GetAccount_def SendSync_def

lemma services_same_state: "snd (static_serve q A) = snd (dynalloc_serve q A)"
  by (cases q; cases "snd q") (auto simp: mem_defs mem_answer_def split: option.split)

text \<open>Every running account knows its own name, so no command to it stays unanswered for want of a match.\<close>

definition mem_ok :: "mem_accounts \<Rightarrow> bool" where
  "mem_ok A \<longleftrightarrow> (\<forall>i p. A i = Some p \<longrightarrow> ma_accountID p = i)"

lemma mem_spawn_ok: "mem_ok A \<Longrightarrow> mem_ok (mem_spawn aid A) \<and> mem_spawn aid A aid \<noteq> None"
  by (auto simp: mem_ok_def mem_spawn_def Mem_Receive_def split: option.splits)

lemma mem_ask_ok: "mem_ok A \<Longrightarrow> mem_ok (snd (mem_ask env pid msg A))" if "\<forall>s. msg \<noteq> MemPostStart s"
proof -
  have keep: "ma_accountID (snd (Mem_Receive msg p)) = ma_accountID p" for p
    using that by (cases msg) (auto simp: Mem_Receive_def Let_def)
  assume ok: "mem_ok A"
  show "mem_ok (snd (mem_ask env pid msg A))"
  proof (cases "A pid")
    case None
    then show ?thesis using ok by (simp add: mem_ask_def ask_def)
  next
    case (Some p)
    obtain r p' where r: "Mem_Receive msg p = (r, p')" by fastforce
    then have "ma_accountID p' = pid" using keep [of p] ok Some by (simp add: mem_ok_def)
    then show ?thesis using ok Some r
      by (cases "me_net env"; cases r) (auto simp: mem_ask_def ask_def mem_ok_def)
  qed
qed

lemma mem_answer_snd [simp]: "snd (mem_answer r) = snd r"
  by (auto simp: mem_answer_def split: prod.split sum.split)

lemma static_serve_ok: "mem_ok A \<Longrightarrow> mem_ok (snd (static_serve q A))"
proof (induction q A rule: static_serve.induct)
  case (1 env aid n A)
  then show ?case using mem_spawn_ok [of A aid] mem_ask_ok [of "MemCreate aid n" "mem_spawn aid A"]
    by (simp add: static_CreateAccount_def split: option.split)
next
  case (2 env aid n A)
  then show ?case using mem_ask_ok [of "MemCredit aid n" A] by (simp add: static_CreditAccount_def split: option.split)
next
  case (3 env aid A)
  then show ?case using mem_ask_ok [of "MemGet aid" A] by (simp add: static_GetAccount_def split: option.split)
qed

interpretation static: total_actor "\<lambda>q A. snd (static_serve q A)" mem_ok
  by unfold_locales (rule static_serve_ok)

interpretation dynalloc: total_actor "\<lambda>q A. snd (dynalloc_serve q A)" mem_ok
  by unfold_locales (use static_serve_ok services_same_state in metis)

lemma mem_empty_ok: "mem_ok Map.empty"
  by (simp add: mem_ok_def)

section \<open>A create that arrives late\<close>

text \<open>An account that was spawned, but whose create command got lost, takes credits; the create that is
  repeated afterwards sets the balance and drops them.\<close>

lemma late_create:
  assumes "mem_ok A" and "A aid = None"
  shows "fst (static_serve (\<lparr>me_spawn_err = None, me_lookup_err = None, me_net = Lost e\<rparr>, MReqCreate aid n) A) = MemErr Internal e"
    and "let A1 = snd (static_serve (\<lparr>me_spawn_err = None, me_lookup_err = None, me_net = Lost e\<rparr>, MReqCreate aid n) A);
             (r, A2) = static_serve (\<lparr>me_spawn_err = None, me_lookup_err = None, me_net = Delivered\<rparr>, MReqCredit aid k) A1 in
         r = MemOk aid k \<and>
         static_serve (\<lparr>me_spawn_err = None, me_lookup_err = None, me_net = Delivered\<rparr>, MReqCreate aid n) A2 =
           (MemOk aid n, A2(aid \<mapsto> \<lparr>ma_accountID = aid, ma_balance = n, ma_created = True\<rparr>))"
  using assms
  by (auto simp: static_CreateAccount_def static_CreditAccount_def mem_spawn_def mem_ask_def ask_def mem_answer_def
      Mem_Receive_def newMemAccount_def Let_def)

section \<open>Properties\<close>

text \<open>
  A create that has to be repeated throws away what was credited in between. When the create command of a new
  account is lost after the actor was spawned, the client gets an error; the account runs with balance zero
  and accepts credits; and when the client repeats the create, it is answered with the initial balance,
  which replaces the credited one. The account actor of both in-memory services does this.
\<close>

theorem repeated_create_drops_credit:
  assumes "fold (\<lambda>q A. snd (static_serve q A)) qs Map.empty aid = None"
  shows "\<exists>A1 A2 A3. static_serve (\<lparr>me_spawn_err = None, me_lookup_err = None, me_net = Lost e\<rparr>, MReqCreate aid n)
         (fold (\<lambda>q A. snd (static_serve q A)) qs Map.empty) = (MemErr Internal e, A1) \<and>
     static_serve (\<lparr>me_spawn_err = None, me_lookup_err = None, me_net = Delivered\<rparr>, MReqCredit aid k) A1 = (MemOk aid k, A2) \<and>
     static_serve (\<lparr>me_spawn_err = None, me_lookup_err = None, me_net = Delivered\<rparr>, MReqCreate aid n) A2 = (MemOk aid n, A3) \<and>
     map_option ma_balance (A3 aid) = Some n"
proof -
  let ?lost = "(\<lparr>me_spawn_err = None, me_lookup_err = None, me_net = Lost e\<rparr>, MReqCreate aid n)"
  let ?A = "fold (\<lambda>q A. snd (static_serve q A)) qs Map.empty"
  note late = late_create [OF static.fold_ok [OF mem_empty_ok] assms]
  obtain A1 where A1: "static_serve ?lost ?A = (MemErr Internal e, A1)" using late(1) [of e n] by (metis prod.collapse)
  obtain r A2 where A2: "static_serve (\<lparr>me_spawn_err = None, me_lookup_err = None, me_net = Delivered\<rparr>, MReqCredit aid k) A1 = (r, A2)"
    by fastforce
  let ?again = "static_serve (\<lparr>me_spawn_err = None, me_lookup_err = None, me_net = Delivered\<rparr>, MReqCreate aid n) A2"
  have again: "?again = (MemOk aid n, A2(aid \<mapsto> \<lparr>ma_accountID = aid, ma_balance = n, ma_created = True\<rparr>))" and "r = MemOk aid k"
    using late(2) [of e n k] by (simp_all add: A1 A2 Let_def del: static_serve.simps)
  show ?thesis
  proof (intro exI conjI)
    show "static_serve ?lost ?A = (MemErr Internal e, A1)" by (rule A1)
    show "static_serve (\<lparr>me_spawn_err = None, me_lookup_err = None, me_net = Delivered\<rparr>, MReqCredit aid k) A1 = (MemOk aid k, A2)"
      using A2 \<open>r = MemOk aid k\<close> by simp
    show "?again = (MemOk aid n, A2(aid \<mapsto> \<lparr>ma_accountID = aid, ma_balance = n, ma_created = True\<rparr>))" by (rule again)
  qed simp
qed

theorem repeated_create_drops_credit_witness:
  "\<exists>A1 A2 A3. static_serve (\<lparr>me_spawn_err = None, me_lookup_err = None, me_net = Lost ''timeout''\<rparr>, MReqCreate ''ann'' 10)
         Map.empty = (MemErr Internal ''timeout'', A1) \<and>
     static_serve (\<lparr>me_spawn_err = None, me_lookup_err = None, me_net = Delivered\<rparr>, MReqCredit ''ann'' 500) A1 = (MemOk ''ann'' 500, A2) \<and>
     static_serve (\<lparr>me_spawn_err = None, me_lookup_err = None, me_net = Delivered\<rparr>, MReqCreate ''ann'' 10) A2 = (MemOk ''ann'' 10, A3) \<and>
     map_option ma_balance (A3 ''ann'') = Some 10"
  using repeated_create_drops_credit [of "[]" "''ann''" "''timeout''" 10 500] by simp

end
