(* ===== verification/Behaviors.thy ===== *)
theory Behaviors
  imports Bank
begin

text \<open>
  The account of \<^verbatim>\<open>goakt-behaviors/main.go\<close>, an actor that changes its behaviour as it is authenticated, created,
  credited and debited, and the program that talks to it. What the actor library keeps of the behaviours of
  an actor is an argument; the predicate \<open>behaviour_laws\<close> states what its documentation promises of the five
  operations. Amounts are as in the transfer services.
\<close>

section \<open>Behaviours\<close>

text \<open>The methods of the account that receive messages.\<close>

datatype behaviour = Receive | Authenticated | CreditState | DebitState

text \<open>
  What the library offers: the behaviour that gets the next message, \<^verbatim>\<open>Become\<close>, \<^verbatim>\<open>BecomeStacked\<close>, \<^verbatim>\<open>UnBecome\<close>
  and \<^verbatim>\<open>UnBecomeStacked\<close>.
\<close>

record 's behaviours =
  current :: "'s \<Rightarrow> behaviour"
  Become :: "behaviour \<Rightarrow> 's \<Rightarrow> 's"
  BecomeStacked :: "behaviour \<Rightarrow> 's \<Rightarrow> 's"
  UnBecome :: "'s \<Rightarrow> 's"
  UnBecomeStacked :: "'s \<Rightarrow> 's"

text \<open>
  \<^verbatim>\<open>Become\<close> and \<^verbatim>\<open>BecomeStacked\<close> switch to the given behaviour, \<^verbatim>\<open>UnBecome\<close> goes back to the default one, and
  \<^verbatim>\<open>UnBecomeStacked\<close> to the one before the last \<^verbatim>\<open>BecomeStacked\<close>.
\<close>

definition behaviour_laws :: "'s behaviours \<Rightarrow> bool" where
  "behaviour_laws B \<longleftrightarrow>
     (\<forall>s m. current B (Become B m s) = m \<and> current B (BecomeStacked B m s) = m \<and> current B (UnBecome B s) = Receive \<and>
        current B (UnBecomeStacked B (BecomeStacked B m s)) = current B s)"

section \<open>The account\<close>

datatype bh_msg =
    BhPostStart string | BhAuthenticate | BhLogout | BhCreate int | BhCredit int | BhDebit int | BhGet | BhOther

datatype bh_reply =
    BhAuthenticated | BhCreated string int | BhCredited string int | BhDebited string int | BhAccount string int

record 's AccountActor =
  act_accountID :: string
  act_balance :: int
  act_up :: bool
  act_stack :: 's

definition NewAccountActor :: "'s \<Rightarrow> 's AccountActor" where
  "NewAccountActor s = \<lparr>act_accountID = [], act_balance = 0, act_up = True, act_stack = s\<rparr>"

definition Act_PostStop :: "'s AccountActor \<Rightarrow> 's AccountActor" where
  "Act_PostStop a = a\<lparr>act_balance := 0\<rparr>"

text \<open>One function per behaviour: the reply, if any, and the new state. A message that is not handled changes nothing.\<close>

definition Act_Receive :: "'s behaviours \<Rightarrow> bh_msg \<Rightarrow> 's AccountActor \<Rightarrow> bh_reply option \<times> 's AccountActor" where
  "Act_Receive B msg a =
     (case msg of
        BhPostStart self \<Rightarrow> (None, a\<lparr>act_accountID := self\<rparr>)
      | BhAuthenticate \<Rightarrow> (Some BhAuthenticated, a\<lparr>act_stack := Become B Authenticated (act_stack a)\<rparr>)
      | BhLogout \<Rightarrow> (None, Act_PostStop (a\<lparr>act_up := False\<rparr>))
      | _ \<Rightarrow> (None, a))"

definition Act_Authenticated :: "'s behaviours \<Rightarrow> bh_msg \<Rightarrow> 's AccountActor \<Rightarrow> bh_reply option \<times> 's AccountActor" where
  "Act_Authenticated B msg a =
     (case msg of
        BhCreate n \<Rightarrow>
          (Some (BhCreated (act_accountID a) n), a\<lparr>act_balance := n, act_stack := Become B CreditState (act_stack a)\<rparr>)
      | _ \<Rightarrow> (None, a))"

definition Act_CreditState :: "'s behaviours \<Rightarrow> bh_msg \<Rightarrow> 's AccountActor \<Rightarrow> bh_reply option \<times> 's AccountActor" where
  "Act_CreditState B msg a =
     (case msg of
        BhCredit n \<Rightarrow>
          let a = a\<lparr>act_balance := act_balance a + n\<rparr> in
          (Some (BhCredited (act_accountID a) (act_balance a)), a\<lparr>act_stack := BecomeStacked B DebitState (act_stack a)\<rparr>)
      | BhGet \<Rightarrow> (Some (BhAccount (act_accountID a) (act_balance a)), a\<lparr>act_stack := UnBecome B (act_stack a)\<rparr>)
      | _ \<Rightarrow> (None, a))"

definition Act_DebitState :: "'s behaviours \<Rightarrow> bh_msg \<Rightarrow> 's AccountActor \<Rightarrow> bh_reply option \<times> 's AccountActor" where
  "Act_DebitState B msg a =
     (case msg of
        BhDebit n \<Rightarrow>
          let a = a\<lparr>act_balance := act_balance a - n\<rparr> in
          (Some (BhDebited (act_accountID a) (act_balance a)), a\<lparr>act_stack := UnBecomeStacked B (act_stack a)\<rparr>)
      | _ \<Rightarrow> (None, a))"

text \<open>The runtime hands a message to the current behaviour; an actor that has stopped answers nothing.\<close>

definition act_receive :: "'s behaviours \<Rightarrow> bh_msg \<Rightarrow> 's AccountActor \<Rightarrow> bh_reply option \<times> 's AccountActor" where
  "act_receive B msg a =
     (if \<not> act_up a then (None, a)
      else case current B (act_stack a) of
        Receive \<Rightarrow> Act_Receive B msg a
      | Authenticated \<Rightarrow> Act_Authenticated B msg a
      | CreditState \<Rightarrow> Act_CreditState B msg a
      | DebitState \<Rightarrow> Act_DebitState B msg a)"

lemmas act_defs = act_receive_def Act_Receive_def Act_Authenticated_def Act_CreditState_def Act_DebitState_def

section \<open>What a client sees\<close>

text \<open>The requests that are answered, with their answers.\<close>

fun answered :: "'s behaviours \<Rightarrow> bh_msg list \<Rightarrow> 's AccountActor \<Rightarrow> (bh_msg \<times> bh_reply) list" where
  "answered B [] a = []"
| "answered B (m # ms) a =
     (let (r, a') = act_receive B m a in
      (case r of Some r \<Rightarrow> [(m, r)] | None \<Rightarrow> []) @ answered B ms a')"

text \<open>
  The protocol: authentication, creation with a balance, then credits, each followed by a debit; a query between
  a debit and a credit ends the session, after which the client has to authenticate and create again.
\<close>

definition turn :: "behaviour \<Rightarrow> string \<Rightarrow> int \<Rightarrow> bh_msg \<Rightarrow> (bh_reply \<times> behaviour \<times> int) option" where
  "turn k i b m =
     (case (k, m) of
        (Receive, BhAuthenticate) \<Rightarrow> Some (BhAuthenticated, Authenticated, b)
      | (Authenticated, BhCreate n) \<Rightarrow> Some (BhCreated i n, CreditState, n)
      | (CreditState, BhCredit n) \<Rightarrow> Some (BhCredited i (b + n), DebitState, b + n)
      | (CreditState, BhGet) \<Rightarrow> Some (BhAccount i b, Receive, b)
      | (DebitState, BhDebit n) \<Rightarrow> Some (BhDebited i (b - n), CreditState, b - n)
      | _ \<Rightarrow> None)"

fun conversation :: "string \<Rightarrow> behaviour \<Rightarrow> int \<Rightarrow> (bh_msg \<times> bh_reply) list \<Rightarrow> bool" where
  "conversation i k b [] = True"
| "conversation i k b ((m, r) # rs) =
     (case turn k i b m of None \<Rightarrow> False | Some (r', k', b') \<Rightarrow> r = r' \<and> conversation i k' b' rs)"

text \<open>The stack of a running account: below the debit behaviour there is the credit behaviour.\<close>

definition stack_ok :: "'s behaviours \<Rightarrow> 's \<Rightarrow> bool" where
  "stack_ok B s \<longleftrightarrow> (current B s = DebitState \<longrightarrow> (\<exists>s'. s = BecomeStacked B DebitState s' \<and> current B s' = CreditState))"

definition is_start :: "bh_msg \<Rightarrow> bool" where
  "is_start m \<longleftrightarrow> (case m of BhPostStart _ \<Rightarrow> True | _ \<Rightarrow> False)"

text \<open>An account that runs answers exactly the turns of the protocol.\<close>

lemma act_receive_step:
  assumes "behaviour_laws B" and "stack_ok B (act_stack a)" and "\<not> is_start m" and up: "act_up a"
    and r: "act_receive B m a = (r, a')"
  shows "(case turn (current B (act_stack a)) (act_accountID a) (act_balance a) m of
       None \<Rightarrow> r = None \<and> (a' = a \<or> \<not> act_up a')
     | Some (r', k', b') \<Rightarrow> r = Some r' \<and> act_up a' \<and> stack_ok B (act_stack a') \<and> act_accountID a' = act_accountID a \<and>
         current B (act_stack a') = k' \<and> act_balance a' = b')"
proof -
  note laws = assms(1) [unfolded behaviour_laws_def, rule_format]
  show ?thesis
  proof (cases "current B (act_stack a)")
    case DebitState
    then obtain s' where s': "act_stack a = BecomeStacked B DebitState s'" "current B s' = CreditState"
      using assms(2) by (auto simp: stack_ok_def)
    then have "current B (UnBecomeStacked B (act_stack a)) = CreditState" using laws by simp
    then show ?thesis using DebitState r up assms(3)
      by (cases m) (auto simp: act_receive_def Act_DebitState_def turn_def stack_ok_def Let_def)
  next
    case CreditState
    then show ?thesis using r up laws assms(3)
      by (cases m) (auto simp: act_receive_def Act_CreditState_def turn_def stack_ok_def Let_def)
  qed (use r up laws assms(3) in \<open>cases m; auto simp: act_receive_def Act_Receive_def Act_Authenticated_def turn_def stack_ok_def
        is_start_def Act_PostStop_def\<close>)+
qed

lemma stopped_silent: "\<not> act_up a \<Longrightarrow> answered B ms a = []"
  by (induction ms) (simp_all add: act_receive_def)

lemma answered_conversation:
  assumes "behaviour_laws B" and "stack_ok B (act_stack a)" and "act_up a" and "list_all (\<lambda>m. \<not> is_start m) ms"
  shows "conversation (act_accountID a) (current B (act_stack a)) (act_balance a) (answered B ms a)"
  using assms(2-)
proof (induction ms arbitrary: a)
  case (Cons m ms)
  obtain r a' where r: "act_receive B m a = (r, a')" by fastforce
  have start: "\<not> is_start m" "list_all (\<lambda>m. \<not> is_start m) ms" using Cons.prems(3) by simp_all
  note st = act_receive_step [OF assms(1) Cons.prems(1) start(1) Cons.prems(2) r]
  show ?case
  proof (cases "turn (current B (act_stack a)) (act_accountID a) (act_balance a) m")
    case None
    then consider "r = None" "a' = a" | "r = None" "\<not> act_up a'" using st by auto
    then show ?thesis
    proof cases
      case 1
      then show ?thesis using Cons.IH [OF Cons.prems(1,2) start(2)] by (simp add: r)
    next
      case 2
      then show ?thesis by (simp add: r stopped_silent)
    qed
  next
    case (Some t)
    then show ?thesis using st Cons.IH [of a'] start(2) by (cases t) (simp add: r)
  qed
qed simp

section \<open>The program\<close>

datatype demo_end = LogPanic string string | FailedAssertion | Exit "(string \<times> int) list" | Done "(string \<times> int) list"

definition bh_ask :: "'s behaviours \<Rightarrow> net \<Rightarrow> bh_msg \<Rightarrow> 's AccountActor \<Rightarrow> (string + bh_reply) \<times> 's AccountActor" where
  "bh_ask B n m a =
     (let (r, a') = act_receive B m a in
      case n of
        Delivered \<Rightarrow> ((case r of Some r \<Rightarrow> Inr r | None \<Rightarrow> Inl ''request timed out''), a')
      | Lost err \<Rightarrow> (Inl err, a)
      | ReplyLost err \<Rightarrow> (Inl err, a'))"

text \<open>A request whose error is a panic with a text, and whose reply is asserted to be of a type.\<close>

definition demand :: "'s behaviours \<Rightarrow> net \<Rightarrow> bh_msg \<Rightarrow> string \<Rightarrow> (bh_reply \<Rightarrow> int option) \<Rightarrow> (int \<Rightarrow> 's AccountActor \<Rightarrow> demo_end) \<Rightarrow>
    's AccountActor \<Rightarrow> demo_end" where
  "demand B n m what read k a =
     (case bh_ask B n m a of
        (Inl e, _) \<Rightarrow> LogPanic what e
      | (Inr r, a) \<Rightarrow> (case read r of None \<Rightarrow> FailedAssertion | Some v \<Rightarrow> k v a))"

definition created_of :: "bh_reply \<Rightarrow> int option" where
  "created_of r = (case r of BhCreated i n \<Rightarrow> Some n | _ \<Rightarrow> None)"

definition credited_of :: "bh_reply \<Rightarrow> int option" where
  "credited_of r = (case r of BhCredited i n \<Rightarrow> Some n | _ \<Rightarrow> None)"

definition debited_of :: "bh_reply \<Rightarrow> int option" where
  "debited_of r = (case r of BhDebited i n \<Rightarrow> Some n | _ \<Rightarrow> None)"

definition account_of :: "bh_reply \<Rightarrow> int option" where
  "account_of r = (case r of BhAccount i n \<Rightarrow> Some n | _ \<Rightarrow> None)"

lemmas read_defs = created_of_def credited_of_def debited_of_def account_of_def

text \<open>\<open>net i\<close> is the fate of the \<open>i\<close>-th request; \<open>logout_err\<close> the error of the last message.\<close>

definition demo_main :: "'s behaviours \<Rightarrow> 's \<Rightarrow> string \<Rightarrow> (nat \<Rightarrow> net) \<Rightarrow> string option \<Rightarrow> demo_end" where
  "demo_main B s aid net logout_err =
     (let a = snd (act_receive B (BhPostStart aid) (NewAccountActor s)) in
      case bh_ask B (net 0) BhAuthenticate a of
        (Inl e, _) \<Rightarrow> LogPanic ''failed to authenticate'' e
      | (Inr r, a) \<Rightarrow>
          if r \<noteq> BhAuthenticated then Exit []
          else
            demand B (net 1) (BhCreate 1000) ''failed to create account'' created_of (\<lambda>b1.
            demand B (net 2) (BhCredit 500) ''failed to credit account'' credited_of (\<lambda>b2.
            demand B (net 3) (BhDebit 250) ''failed to debit account'' debited_of (\<lambda>b3.
            demand B (net 4) BhGet ''failed to get account'' account_of (\<lambda>b4 a.
              case logout_err of
                Some e \<Rightarrow> LogPanic ''failed to logout'' e
              | None \<Rightarrow> Done [(''created'', b1), (''credited'', b2), (''debited'', b3), (''current'', b4)])))) a)"

text \<open>When no request is lost the program runs to its end and logs the balances that it announces.\<close>

lemma demo_transcript:
  assumes "behaviour_laws B" and "current B s = Receive" and "\<And>i. net i = Delivered"
  shows "demo_main B s aid net None = Done [(''created'', 1000), (''credited'', 1500), (''debited'', 1250), (''current'', 1250)]"
  using assms(1) [unfolded behaviour_laws_def, rule_format] assms(2,3)
  by (simp add: demo_main_def demand_def bh_ask_def NewAccountActor_def act_defs read_defs)

text \<open>No reply has an unexpected type: the program ends with the panic of a failed request, or with its transcript.\<close>

lemma demo_no_failed_assertion:
  assumes "behaviour_laws B" and "current B s = Receive"
  shows "demo_main B s aid net err \<noteq> FailedAssertion"
  using assms(1) [unfolded behaviour_laws_def, rule_format] assms(2)
  by (simp add: demo_main_def demand_def bh_ask_def NewAccountActor_def act_defs read_defs split: net.split option.split)

section \<open>The protocol of the account\<close>

text \<open>A stack kept as a list.\<close>

definition list_behaviours :: "behaviour list behaviours" where
  "list_behaviours =
     \<lparr>current = (\<lambda>s. case s of [] \<Rightarrow> Receive | m # _ \<Rightarrow> m), Become = (\<lambda>m s. [m]), BecomeStacked = (\<lambda>m s. m # s),
      UnBecome = (\<lambda>s. []), UnBecomeStacked = tl\<rparr>"

text \<open>
  C27: Whatever messages an account gets after its start, the requests it answers form a conversation of its
  protocol: nothing is answered before authentication and creation, credits and debits alternate, every answer
  carries the account's name and the balance of the last creation plus the credits and less the debits since,
  and a query ends the session. This rests on what the library promises of behaviours, and holds in the same
  way for an account that was logged out, which answers nothing.
\<close>

theorem account_follows_protocol:
  assumes "behaviour_laws B" and "current B s = Receive" and "list_all (\<lambda>m. \<not> is_start m) ms"
  shows "conversation aid Receive 0 (answered B ms (snd (act_receive B (BhPostStart aid) (NewAccountActor s))))"
proof -
  let ?a = "snd (act_receive B (BhPostStart aid) (NewAccountActor s))"
  have "?a = \<lparr>act_accountID = aid, act_balance = 0, act_up = True, act_stack = s\<rparr>"
    using assms(2) by (simp add: act_defs NewAccountActor_def)
  then show ?thesis
    using answered_conversation [OF assms(1) _ _ assms(3), of ?a] assms(2) by (simp add: stack_ok_def)
qed

theorem account_follows_protocol_witness:
  "conversation ''acc'' Receive 0 (answered list_behaviours
     [BhGet, BhAuthenticate, BhCreate 1000, BhCredit 500, BhCredit 7, BhDebit 250, BhGet, BhLogout]
     (snd (act_receive list_behaviours (BhPostStart ''acc'') (NewAccountActor []))))"
  by (rule account_follows_protocol)
    (auto simp: behaviour_laws_def list_behaviours_def is_start_def split: list.split)

end
