(* ===== verification/Passivation.thy ===== *)
theory Passivation
  imports Actor
begin

text \<open>
  Virtual actors that are activated by a message and may be passivated at any time, with a store in
  between. The locale \<open>passivated\<close> states what a store, an activation and a deactivation owe each other, and
  proves once that whoever talks to such actors cannot tell when they were passivated.
\<close>

section \<open>Systems of virtual actors\<close>

text \<open>
  A system of virtual actors: a message activates the actor it is for, an active actor may be deactivated. \<open>('a, 's)\<close>
  are the actor and the store.
\<close>

record ('a, 's) hosts =
  h_live :: "string \<rightharpoonup> 'a"
  h_store :: 's

datatype 'm host_event = Send int string 'm | Passivate string

definition host_get :: "(int \<Rightarrow> string \<Rightarrow> 's \<Rightarrow> 'a) \<Rightarrow> int \<Rightarrow> string \<Rightarrow> ('a, 's) hosts \<Rightarrow> 'a" where
  "host_get activate t i H = (case h_live H i of Some x \<Rightarrow> x | None \<Rightarrow> activate t i (h_store H))"

fun host_step :: "(int \<Rightarrow> string \<Rightarrow> 's \<Rightarrow> 'a) \<Rightarrow> ('a \<Rightarrow> 's \<Rightarrow> 's) \<Rightarrow> (int \<Rightarrow> 'm \<Rightarrow> 'a \<Rightarrow> 'a \<times> 'r) \<Rightarrow>
    'm host_event \<Rightarrow> ('a, 's) hosts \<Rightarrow> ('a, 's) hosts" where
  "host_step activate deactivate receive (Send t i m) H =
     H\<lparr>h_live := (h_live H)(i \<mapsto> fst (receive t m (host_get activate t i H)))\<rparr>"
| "host_step activate deactivate receive (Passivate i) H =
     (case h_live H i of
        None \<Rightarrow> H
      | Some x \<Rightarrow> \<lparr>h_live = (h_live H)(i := None), h_store = deactivate x (h_store H)\<rparr>)"

locale passivated =
  fixes activate :: "int \<Rightarrow> string \<Rightarrow> 's \<Rightarrow> 'a"
    and deactivate :: "'a \<Rightarrow> 's \<Rightarrow> 's"
    and receive :: "int \<Rightarrow> 'm \<Rightarrow> 'a \<Rightarrow> 'a \<times> 'r"
    and ident :: "'a \<Rightarrow> string"
    and view :: "'a \<Rightarrow> 'v"
    and saved :: "'s \<Rightarrow> string \<Rightarrow> 'v"
    and react :: "int \<Rightarrow> 'm \<Rightarrow> 'v \<Rightarrow> 'v"
  assumes ident_activate: "ident (activate t i s) = i"
    and view_activate: "view (activate t i s) = saved s i"
    and saved_deactivate: "saved (deactivate x s) = (saved s)(ident x := view x)"
    and ident_receive: "ident (fst (receive t m x)) = ident x"
    and view_receive: "view (fst (receive t m x)) = react t m (view x)"
begin

definition seen :: "('a, 's) hosts \<Rightarrow> string \<Rightarrow> 'v" where
  "seen H i = (case h_live H i of Some x \<Rightarrow> view x | None \<Rightarrow> saved (h_store H) i)"

definition named :: "('a, 's) hosts \<Rightarrow> bool" where
  "named H \<longleftrightarrow> (\<forall>i x. h_live H i = Some x \<longrightarrow> ident x = i)"

lemma host_get_facts:
  assumes "named H"
  shows "ident (host_get activate t i H) = i" and "view (host_get activate t i H) = seen H i"
  using assms by (auto simp: host_get_def named_def seen_def ident_activate view_activate split: option.split)

lemma named_step: "named H \<Longrightarrow> named (host_step activate deactivate receive e H)"
  using host_get_facts(1) [of H]
  by (cases e) (auto simp: named_def ident_receive split: option.splits if_splits)

lemma seen_step:
  assumes "named H"
  shows "seen (host_step activate deactivate receive e H) i =
    (case e of Send t j m \<Rightarrow> if i = j then react t m (seen H i) else seen H i | Passivate j \<Rightarrow> seen H i)"
proof (cases e)
  case (Send t j m)
  then show ?thesis using host_get_facts [OF assms, of t j] by (simp add: seen_def view_receive split: option.splits)
next
  case (Passivate j)
  then show ?thesis
    using assms by (auto simp: seen_def named_def saved_deactivate split: option.splits)
qed

lemma seen_run:
  assumes "named H"
  shows "seen (fold (host_step activate deactivate receive) es H) i =
      fold (\<lambda>(t, m). react t m) (List.map_filter (\<lambda>e. case e of Send t j m \<Rightarrow> if j = i then Some (t, m) else None | _ \<Rightarrow> None) es)
        (seen H i)
    \<and> named (fold (host_step activate deactivate receive) es H)"
  using assms
proof (induction es arbitrary: H)
  case Nil
  then show ?case by (simp add: List.map_filter_def)
next
  case (Cons e es)
  then show ?case
    using Cons.IH [OF named_step [OF Cons.prems, of e]] seen_step [OF Cons.prems, of e i]
    by (cases e) (auto simp: List.map_filter_simps)
qed

end

end
