(* ===== verification/Device_Twin.thy ===== *)
theory Device_Twin
  imports Passivation "HOL-Library.Word"
begin

text \<open>
  The device twins (\<^verbatim>\<open>goakt-iot-twin/main.go\<close>): one virtual actor per device, which keeps its readings in memory while it is
  active and a snapshot in the store while it is not. Temperatures and humidities are only stored, so their
  type is an argument; the count of readings is a 64-bit integer. A time is an
  integer, the zero time is \<open>0\<close>.

  The twins interpret the locale \<open>passivated\<close>: whoever talks to them cannot tell when they were passivated.
\<close>

section \<open>Twins\<close>

record 'f snapshot =
  LastTemp :: 'f
  LastHumidity :: 'f
  ReadingsSeen :: "64 word"
  LastSeenAt :: int

record 'f DeviceTwin =
  tw_id :: string
  tw_state :: "'f snapshot"
  tw_activated :: int

record 'f twin_status =
  st_LastTemp :: 'f
  st_LastHumidity :: 'f
  st_ReadingsSeen :: "64 word"
  st_LastSeenAt :: int
  st_Activated :: int

datatype 'f twin_msg = Telemetry 'f 'f | GetStatus | TwinOther

datatype 'f twin_reply = TwinNoErr | TwinStatus "'f twin_status" | TwinUnhandled

type_synonym 'f twin_store = "string \<rightharpoonup> 'f snapshot"

definition store_load :: "string \<Rightarrow> 'f twin_store \<Rightarrow> 'f snapshot option" where
  "store_load i st = st i"

definition store_save :: "string \<Rightarrow> 'f snapshot \<Rightarrow> 'f twin_store \<Rightarrow> 'f twin_store" where
  "store_save i snap st = st(i \<mapsto> snap)"

definition fresh_snapshot :: "'f::zero snapshot" where
  "fresh_snapshot = \<lparr>LastTemp = 0, LastHumidity = 0, ReadingsSeen = 0, LastSeenAt = 0\<rparr>"

definition Twin_OnActivate :: "int \<Rightarrow> string \<Rightarrow> 'f::zero twin_store \<Rightarrow> 'f DeviceTwin" where
  "Twin_OnActivate t i st =
     (let x = \<lparr>tw_id = i, tw_state = fresh_snapshot, tw_activated = t\<rparr> in
      case store_load i st of Some snap \<Rightarrow> x\<lparr>tw_state := snap\<rparr> | None \<Rightarrow> x)"

definition Twin_OnDeactivate :: "'f DeviceTwin \<Rightarrow> 'f twin_store \<Rightarrow> 'f twin_store" where
  "Twin_OnDeactivate x st = store_save (tw_id x) (tw_state x) st"

definition Twin_OnReceive :: "int \<Rightarrow> 'f twin_msg \<Rightarrow> 'f DeviceTwin \<Rightarrow> 'f DeviceTwin \<times> 'f twin_reply" where
  "Twin_OnReceive t m x =
     (case m of
        Telemetry temp hum \<Rightarrow>
          (x\<lparr>tw_state := (tw_state x)\<lparr>LastTemp := temp, LastHumidity := hum, ReadingsSeen := ReadingsSeen (tw_state x) + 1,
              LastSeenAt := t\<rparr>\<rparr>, TwinNoErr)
      | GetStatus \<Rightarrow>
          (x, TwinStatus \<lparr>st_LastTemp = LastTemp (tw_state x), st_LastHumidity = LastHumidity (tw_state x),
             st_ReadingsSeen = ReadingsSeen (tw_state x), st_LastSeenAt = LastSeenAt (tw_state x),
             st_Activated = tw_activated x\<rparr>)
      | TwinOther \<Rightarrow> (x, TwinUnhandled))"

section \<open>Passivation\<close>

fun twin_react :: "int \<Rightarrow> 'f twin_msg \<Rightarrow> 'f snapshot \<Rightarrow> 'f snapshot" where
  "twin_react t (Telemetry temp hum) s =
     \<lparr>LastTemp = temp, LastHumidity = hum, ReadingsSeen = ReadingsSeen s + 1, LastSeenAt = t\<rparr>"
| "twin_react t _ s = s"

interpretation twins: passivated Twin_OnActivate Twin_OnDeactivate Twin_OnReceive tw_id tw_state
  "\<lambda>st i. case store_load i st of Some snap \<Rightarrow> snap | None \<Rightarrow> fresh_snapshot" twin_react
proof
  show "tw_state (fst (Twin_OnReceive t m x)) = twin_react t m (tw_state x)" for t m and x :: "'f::zero DeviceTwin"
    by (cases m) (simp_all add: Twin_OnReceive_def)
qed (auto simp: Twin_OnActivate_def Twin_OnDeactivate_def Twin_OnReceive_def store_load_def store_save_def fun_eq_iff Let_def
    split: option.split twin_msg.split)

section \<open>The status of a device\<close>

text \<open>The readings a device sent in a run, with the times they arrived.\<close>

definition readings :: "string \<Rightarrow> 'f twin_msg host_event list \<Rightarrow> (int \<times> 'f \<times> 'f) list" where
  "readings i es = List.map_filter
     (\<lambda>e. case e of Send t j (Telemetry temp hum) \<Rightarrow> if j = i then Some (t, temp, hum) else None | _ \<Rightarrow> None) es"

definition twin_hosts :: "('f::zero DeviceTwin, 'f twin_store) hosts" where
  "twin_hosts = \<lparr>h_live = Map.empty, h_store = Map.empty\<rparr>"

definition twin_ask :: "int \<Rightarrow> string \<Rightarrow> ('f::zero DeviceTwin, 'f twin_store) hosts \<Rightarrow> 'f twin_reply" where
  "twin_ask t i H = snd (Twin_OnReceive t GetStatus (host_get Twin_OnActivate t i H))"

lemma twin_react_run:
  "fold (\<lambda>(t, m). twin_react t m)
     (List.map_filter (\<lambda>e. case e of Send t j m \<Rightarrow> if j = i then Some (t, m) else None | _ \<Rightarrow> None) es) s =
   (case rev (readings i es) of
      [] \<Rightarrow> s
    | (t, temp, hum) # rs \<Rightarrow>
        \<lparr>LastTemp = temp, LastHumidity = hum, ReadingsSeen = ReadingsSeen s + of_nat (Suc (length rs)), LastSeenAt = t\<rparr>)"
proof (induction es rule: rev_induct)
  case Nil
  then show ?case by (simp add: readings_def List.map_filter_def)
next
  case (snoc e es)
  have split: "List.map_filter f (xs @ ys) = List.map_filter f xs @ List.map_filter f ys" for f :: "'x \<Rightarrow> 'y option" and xs ys
    by (simp add: List.map_filter_def)
  show ?case
  proof (cases e)
    case (Send t j m)
    then show ?thesis
      using snoc by (cases m) (auto simp: split readings_def List.map_filter_simps split: list.splits)
  next
    case (Passivate j)
    then show ?thesis using snoc by (simp add: split readings_def List.map_filter_simps)
  qed
qed

text \<open>
  However the twins are activated and passivated in between, a device's status shows its last reading, when it
  arrived, and the number of its readings as a 64-bit integer; a device that sent none shows zeros.
\<close>
theorem twin_status_exact:
  fixes es :: "'f::zero twin_msg host_event list"
  shows "\<exists>a. twin_ask now i (fold (host_step Twin_OnActivate Twin_OnDeactivate Twin_OnReceive) es twin_hosts) =
    TwinStatus (case rev (readings i es) of
       [] \<Rightarrow> \<lparr>st_LastTemp = 0, st_LastHumidity = 0, st_ReadingsSeen = 0, st_LastSeenAt = 0, st_Activated = a\<rparr>
     | (t, temp, hum) # rs \<Rightarrow>
         \<lparr>st_LastTemp = temp, st_LastHumidity = hum, st_ReadingsSeen = of_nat (length (readings i es)), st_LastSeenAt = t,
          st_Activated = a\<rparr>)"
proof -
  let ?H = "fold (host_step Twin_OnActivate Twin_OnDeactivate Twin_OnReceive) es twin_hosts"
  have init: "twins.named twin_hosts" "twins.seen twin_hosts i = fresh_snapshot"
    unfolding twins.named_def twins.seen_def by (simp_all add: twin_hosts_def store_load_def)
  note run = twins.seen_run [OF init(1), of es i]
  have "tw_state (host_get Twin_OnActivate now i ?H) = twins.seen ?H i"
    using twins.host_get_facts(2) run by blast
  also have "\<dots> = (case rev (readings i es) of
      [] \<Rightarrow> fresh_snapshot
    | (t, temp, hum) # rs \<Rightarrow>
        \<lparr>LastTemp = temp, LastHumidity = hum, ReadingsSeen = of_nat (Suc (length rs)), LastSeenAt = t\<rparr>)"
    using run by (simp add: twin_react_run init(2) fresh_snapshot_def cong: list.case_cong)
  finally show ?thesis
    using length_rev [of "readings i es"]
    by (auto simp: twin_ask_def Twin_OnReceive_def fresh_snapshot_def split: list.splits)
qed

end
