(* ===== verification/Tetris.thy ===== *)
theory Tetris
  imports Actor Go_Std "HOL-Library.Monad_Syntax"
begin

text \<open>
  The match actor of the Tetris server (\<^verbatim>\<open>goakt-tetris/match.go\<close>): the board, the falling piece, gravity,
  locking, clearing and scoring, the inputs of the player and the snapshots sent to the subscribers.
  \<open>None\<close> is a run-time panic. The draws of \<^verbatim>\<open>rand.IntN\<close>, the clock and the outcome of scheduling the tick
  are arguments; what an actor sends is recorded in its outbox. A row of the board is a list of cells
  of which \<open>0\<close> is empty.
\<close>

section \<open>Pieces\<close>

definition BoardW :: int where "BoardW = 10"
definition BoardH :: int where "BoardH = 20"

type_synonym grid = "int list list"

record PieceState =
  Kind :: nat
  Rot :: nat
  PX :: int
  PY :: int

definition kindO :: nat where "kindO = 1"

definition pieceShapes :: "(int \<times> int) list list" where
  "pieceShapes =
     [[(-1, 0), (0, 0), (1, 0), (2, 0)],
      [(0, 0), (1, 0), (0, 1), (1, 1)],
      [(-1, 0), (0, 0), (1, 0), (0, 1)],
      [(0, 0), (1, 0), (-1, 1), (0, 1)],
      [(-1, 0), (0, 0), (0, 1), (1, 1)],
      [(-1, 0), (0, 0), (1, 0), (1, 1)],
      [(-1, 0), (0, 0), (1, 0), (-1, 1)]]"

fun pieceCells_loop :: "nat \<Rightarrow> (int \<times> int) list \<Rightarrow> (int \<times> int) list" where
  "pieceCells_loop 0 cells = cells"
| "pieceCells_loop (Suc n) cells = pieceCells_loop n (map (\<lambda>(x, y). (- y, x)) cells)"

definition pieceCells :: "nat \<Rightarrow> nat \<Rightarrow> (int \<times> int) list option" where
  "pieceCells kind rot = map_option (pieceCells_loop rot) (index_opt pieceShapes kind)"

definition cell_free :: "grid \<Rightarrow> int \<Rightarrow> int \<Rightarrow> bool" where
  "cell_free g x y \<longleftrightarrow> \<not> (x < 0 \<or> x \<ge> BoardW \<or> y \<ge> BoardH) \<and> \<not> (y \<ge> 0 \<and> g ! nat y ! nat x \<noteq> 0)"

definition canPlace :: "grid \<Rightarrow> PieceState \<Rightarrow> bool option" where
  "canPlace g p =
     map_option (list_all (\<lambda>(dx, dy). cell_free g (PX p + dx) (PY p + dy))) (pieceCells (Kind p) (Rot p))"

lemma pieceCells_pivot: "pieceCells k r = Some cs \<Longrightarrow> (0, 0) \<in> set cs"
proof -
  have "(0, 0) \<in> set cs \<Longrightarrow> (0, 0) \<in> set (pieceCells_loop n cs)" for n and cs :: "(int \<times> int) list"
  proof (induction n arbitrary: cs)
    case (Suc n)
    have "(0, 0) \<in> set (map (\<lambda>(x, y). (- y, x)) cs)" using Suc.prems by force
    then show ?case using Suc.IH by simp
  qed simp
  moreover have "list_all (\<lambda>cs. (0, 0) \<in> set cs) pieceShapes" by (simp add: pieceShapes_def)
  ultimately show "pieceCells k r = Some cs \<Longrightarrow> (0, 0) \<in> set cs"
    by (auto simp: pieceCells_def index_opt_eq_Some_iff list_all_length)
qed

lemma canPlace_above_bottom: "canPlace g p = Some True \<Longrightarrow> PY p < BoardH"
  using pieceCells_pivot [of "Kind p" "Rot p"]
  by (fastforce simp: canPlace_def cell_free_def list_all_iff)

section \<open>The match\<close>

record pid =
  pid_name :: string
  pid_path :: string

record Snapshot =
  Sn_Tick :: int
  Sn_T :: int
  Sn_Grid :: grid
  Sn_Piece :: PieceState
  Sn_GhostY :: int
  Sn_Next :: nat
  Sn_Score :: int
  Sn_Lines :: int
  Sn_Level :: int
  Sn_GameOver :: bool
  Sn_Paused :: bool

datatype match_effect =
    ScheduleTick string
  | CtxErr string
  | Watch pid
  | ShutdownMatch
  | TellSnapshot pid Snapshot
  | UnhandledMatch

record MatchActor =
  m_grid :: grid
  m_piece :: PieceState
  m_nextKind :: nat
  m_score :: int
  m_lines :: int
  m_level :: int
  m_gameOver :: bool
  m_softDrop :: bool
  m_paused :: bool
  m_gravity :: int
  m_fallTick :: int
  m_tickN :: int
  m_subs :: "pid list"
  m_schedRef :: string
  m_hadSubscriber :: bool
  m_outbox :: "match_effect list"

definition gravityStart :: int where "gravityStart = 50"
definition gravityMin :: int where "gravityMin = 6"
definition gravityPerLvl :: int where "gravityPerLvl = 4"
definition softDropTicks :: int where "softDropTicks = 3"
definition hardDropBonus :: int where "hardDropBonus = 2"
definition schedRefPrefix :: string where "schedRefPrefix = ''tick.''"

definition ActionLeft :: string where "ActionLeft = ''left''"
definition ActionRight :: string where "ActionRight = ''right''"
definition ActionRotate :: string where "ActionRotate = ''rotate''"
definition ActionSoftDrop :: string where "ActionSoftDrop = ''softdrop''"
definition ActionSoftDropEnd :: string where "ActionSoftDropEnd = ''softdrop-end''"
definition ActionHardDrop :: string where "ActionHardDrop = ''harddrop''"
definition ActionPause :: string where "ActionPause = ''pause''"
definition ActionRestart :: string where "ActionRestart = ''restart''"

definition m_emit :: "match_effect \<Rightarrow> MatchActor \<Rightarrow> MatchActor" where
  "m_emit e m = m\<lparr>m_outbox := m_outbox m @ [e]\<rparr>"

definition spawnPiece :: "rng \<Rightarrow> MatchActor \<Rightarrow> MatchActor option" where
  "spawnPiece g m =
     (let p = \<lparr>Kind = m_nextKind m, Rot = 0, PX = BoardW div 2, PY = 1\<rparr>;
          m = m\<lparr>m_piece := p, m_nextKind := fst (uint64n 7 g)\<rparr> in
      do {
        ok \<leftarrow> canPlace (m_grid m) p;
        Some (if ok then m else m\<lparr>m_gameOver := True\<rparr>)
      })"

definition empty_row :: "int list" where "empty_row = replicate (nat BoardW) 0"

definition match_reset :: "rng \<Rightarrow> MatchActor \<Rightarrow> MatchActor option" where
  "match_reset g m =
     (let (k, g) = uint64n 7 g in
      spawnPiece g
        (m\<lparr>m_grid := replicate (nat BoardH) empty_row, m_nextKind := k, m_score := 0, m_lines := 0,
           m_level := 1, m_gameOver := False, m_softDrop := False, m_paused := False,
           m_gravity := gravityStart, m_fallTick := gravityStart\<rparr>))"

definition row_full :: "int list \<Rightarrow> bool" where
  "row_full row \<longleftrightarrow> list_all (\<lambda>c. c \<noteq> 0) row"

text \<open>
  The two loops of \<open>clearLines\<close>: rows are read from the bottom and copied down over the full ones, then
  what is left at the top is emptied.
\<close>

fun clear_loop :: "nat \<Rightarrow> grid \<Rightarrow> int \<Rightarrow> nat \<Rightarrow> grid \<times> int \<times> nat" where
  "clear_loop 0 g wr cleared = (g, wr, cleared)"
| "clear_loop (Suc rd) g wr cleared =
     (if row_full (g ! rd) then clear_loop rd g wr (Suc cleared)
      else clear_loop rd (if wr \<noteq> int rd then g[nat wr := g ! rd] else g) (wr - 1) cleared)"

fun empty_top :: "nat \<Rightarrow> grid \<Rightarrow> grid" where
  "empty_top 0 g = g"
| "empty_top (Suc wr) g = empty_top wr (g[wr := empty_row])"

definition clearLines :: "grid \<Rightarrow> grid \<times> nat" where
  "clearLines g =
     (let (g, wr, cleared) = clear_loop (nat BoardH) g (BoardH - 1) 0
      in (empty_top (nat (wr + 1)) g, cleared))"

definition set_cell :: "nat \<Rightarrow> int \<Rightarrow> int \<Rightarrow> grid \<Rightarrow> grid" where
  "set_cell kind x y g =
     (if x \<ge> 0 \<and> x < BoardW \<and> y \<ge> 0 \<and> y < BoardH
      then g[nat y := (g ! nat y)[nat x := int kind + 1]] else g)"

definition write_piece :: "PieceState \<Rightarrow> (int \<times> int) list \<Rightarrow> grid \<Rightarrow> grid" where
  "write_piece p cells g = fold (\<lambda>(dx, dy). set_cell (Kind p) (PX p + dx) (PY p + dy)) cells g"

definition scoreFor :: "int list" where "scoreFor = [0, 100, 300, 500, 800]"

definition gravity_at :: "int \<Rightarrow> int" where
  "gravity_at level = (let g = gravityStart - (level - 1) * gravityPerLvl in if g < gravityMin then gravityMin else g)"

definition lockPiece :: "rng \<Rightarrow> MatchActor \<Rightarrow> MatchActor option" where
  "lockPiece g m =
     do {
       cells \<leftarrow> pieceCells (Kind (m_piece m)) (Rot (m_piece m));
       let (grid, cleared) = clearLines (write_piece (m_piece m) cells (m_grid m)) in
       do {
         base \<leftarrow> index_opt scoreFor cleared;
         let lines = m_lines m + int cleared; level = 1 + lines div 10 in
         spawnPiece g
           (m\<lparr>m_grid := grid, m_score := m_score m + base * m_level m, m_lines := lines,
              m_level := level, m_gravity := gravity_at level\<rparr>)
       }
     }"

definition currentGravity :: "MatchActor \<Rightarrow> int" where
  "currentGravity m = (if m_softDrop m then softDropTicks else m_gravity m)"

definition below :: "PieceState \<Rightarrow> PieceState" where
  "below p = p\<lparr>PY := PY p + 1\<rparr>"

definition tryFall :: "rng \<Rightarrow> MatchActor \<Rightarrow> MatchActor option" where
  "tryFall g m =
     do {
       ok \<leftarrow> canPlace (m_grid m) (below (m_piece m));
       if ok then Some (m\<lparr>m_piece := below (m_piece m)\<rparr>) else lockPiece g m
     }"

definition match_step :: "rng \<Rightarrow> MatchActor \<Rightarrow> MatchActor option" where
  "match_step g m =
     (let m = m\<lparr>m_tickN := m_tickN m + 1, m_fallTick := m_fallTick m - 1\<rparr> in
      if m_fallTick m \<le> 0
      then map_option (\<lambda>m. m\<lparr>m_fallTick := currentGravity m\<rparr>) (tryFall g m)
      else Some m)"

definition tryShift :: "int \<Rightarrow> MatchActor \<Rightarrow> MatchActor option" where
  "tryShift dx m =
     (let next = (m_piece m)\<lparr>PX := PX (m_piece m) + dx\<rparr> in
      map_option (\<lambda>ok. if ok then m\<lparr>m_piece := next\<rparr> else m) (canPlace (m_grid m) next))"

text \<open>The loops of a hard drop and of the landing hint.\<close>

function drop_loop :: "grid \<Rightarrow> PieceState \<Rightarrow> int \<Rightarrow> (PieceState \<times> int) option" where
  "drop_loop g p score =
     (case canPlace g (below p) of
        None \<Rightarrow> None
      | Some ok \<Rightarrow> if \<not> ok then Some (p, score) else drop_loop g (below p) (score + hardDropBonus))"
  by pat_completeness auto
termination
proof (relation "measure (\<lambda>(g, p, score). nat (BoardH - PY p))")
  fix g :: grid and p :: PieceState and score :: int and ok
  assume "canPlace g (below p) = Some ok" "\<not> \<not> ok"
  then have "PY (below p) < BoardH" using canPlace_above_bottom by simp
  then show "((g, below p, score + hardDropBonus), g, p, score) \<in> measure (\<lambda>(g, p, score). nat (BoardH - PY p))"
    by (simp add: below_def)
qed simp

function ghost_loop :: "grid \<Rightarrow> PieceState \<Rightarrow> int option" where
  "ghost_loop g p =
     (case canPlace g (below p) of
        None \<Rightarrow> None
      | Some ok \<Rightarrow> if \<not> ok then Some (PY p) else ghost_loop g (below p))"
  by pat_completeness auto
termination
proof (relation "measure (\<lambda>(g, p). nat (BoardH - PY p))")
  fix g :: grid and p :: PieceState and ok
  assume "canPlace g (below p) = Some ok" "\<not> \<not> ok"
  then have "PY (below p) < BoardH" using canPlace_above_bottom by simp
  then show "((g, below p), g, p) \<in> measure (\<lambda>(g, p). nat (BoardH - PY p))"
    by (simp add: below_def)
qed simp

declare drop_loop.simps [simp del] ghost_loop.simps [simp del]

definition hardDrop :: "rng \<Rightarrow> MatchActor \<Rightarrow> MatchActor option" where
  "hardDrop g m =
     do {
       (p, score) \<leftarrow> drop_loop (m_grid m) (m_piece m) (m_score m);
       m \<leftarrow> lockPiece g (m\<lparr>m_piece := p, m_score := score\<rparr>);
       Some (m\<lparr>m_fallTick := currentGravity m\<rparr>)
     }"

definition handleInput :: "rng \<Rightarrow> string \<Rightarrow> MatchActor \<Rightarrow> MatchActor option" where
  "handleInput g action m =
     (if action = ActionPause then Some (if \<not> m_gameOver m then m\<lparr>m_paused := \<not> m_paused m\<rparr> else m)
      else if m_gameOver m then (if action = ActionRestart then match_reset g m else Some m)
      else if m_paused m then Some m
      else if action = ActionLeft then tryShift (-1) m
      else if action = ActionRight then tryShift 1 m
      else if action = ActionRotate then
        (if Kind (m_piece m) = kindO then Some m
         else let next = (m_piece m)\<lparr>Rot := (Rot (m_piece m) + 1) mod 4\<rparr> in
           map_option (\<lambda>ok. if ok then m\<lparr>m_piece := next\<rparr> else m) (canPlace (m_grid m) next))
      else if action = ActionSoftDrop then
        (let m = m\<lparr>m_softDrop := True\<rparr> in
         Some (if m_fallTick m > softDropTicks then m\<lparr>m_fallTick := softDropTicks\<rparr> else m))
      else if action = ActionSoftDropEnd then Some (m\<lparr>m_softDrop := False\<rparr>)
      else if action = ActionHardDrop then hardDrop g m
      else Some m)"

definition removeSubscriberByName :: "string \<Rightarrow> MatchActor \<Rightarrow> MatchActor" where
  "removeSubscriberByName name m =
     (case find_index (\<lambda>p. pid_name p = name) (m_subs m) of
        Some i \<Rightarrow> m\<lparr>m_subs := remove_at i (m_subs m)\<rparr> | None \<Rightarrow> m)"

definition removeSubscriberByPath :: "string \<Rightarrow> MatchActor \<Rightarrow> MatchActor" where
  "removeSubscriberByPath path m =
     (case find_index (\<lambda>p. pid_path p = path) (m_subs m) of
        Some i \<Rightarrow> m\<lparr>m_subs := remove_at i (m_subs m)\<rparr> | None \<Rightarrow> m)"

definition m_maybeShutdown :: "MatchActor \<Rightarrow> MatchActor" where
  "m_maybeShutdown m = (if m_hadSubscriber m \<and> m_subs m = [] then m_emit ShutdownMatch m else m)"

definition ghostY :: "MatchActor \<Rightarrow> int option" where
  "ghostY m = (if m_gameOver m \<or> m_paused m then Some (PY (m_piece m)) else ghost_loop (m_grid m) (m_piece m))"

definition broadcast :: "int \<Rightarrow> MatchActor \<Rightarrow> MatchActor option" where
  "broadcast t m =
     do {
       ghost \<leftarrow> ghostY m;
       let snap = \<lparr>Sn_Tick = m_tickN m, Sn_T = t, Sn_Grid = m_grid m, Sn_Piece = m_piece m,
             Sn_GhostY = ghost, Sn_Next = m_nextKind m, Sn_Score = m_score m, Sn_Lines = m_lines m,
             Sn_Level = m_level m, Sn_GameOver = m_gameOver m, Sn_Paused = m_paused m\<rparr> in
       Some (fold (\<lambda>s. m_emit (TellSnapshot s snap)) (m_subs m) m)
     }"

datatype match_msg =
    MatchPostStart string "string option"
  | Subscribe pid
  | Unsubscribe string
  | MatchTerminated string
  | MatchInput string
  | Tick int
  | MatchOther

definition Match_Receive :: "rng \<Rightarrow> match_msg \<Rightarrow> MatchActor \<Rightarrow> MatchActor option" where
  "Match_Receive g msg m =
     (case msg of
        MatchPostStart self err \<Rightarrow>
          map_option (\<lambda>m. let m = m\<lparr>m_schedRef := schedRefPrefix @ self\<rparr> in
              case err of None \<Rightarrow> m_emit (ScheduleTick (m_schedRef m)) m | Some e \<Rightarrow> m_emit (CtxErr e) m)
            (match_reset g m)
      | Subscribe sender \<Rightarrow>
          Some (m_emit (Watch sender) (m\<lparr>m_subs := m_subs m @ [sender], m_hadSubscriber := True\<rparr>))
      | Unsubscribe name \<Rightarrow> Some (m_maybeShutdown (removeSubscriberByName name m))
      | MatchTerminated path \<Rightarrow> Some (m_maybeShutdown (removeSubscriberByPath path m))
      | MatchInput action \<Rightarrow> handleInput g action m
      | Tick t \<Rightarrow>
          do {
            m \<leftarrow> (if \<not> m_gameOver m \<and> \<not> m_paused m then match_step g m else Some m);
            broadcast t m
          }
      | MatchOther \<Rightarrow> Some (m_emit UnhandledMatch m))"

text \<open>The zero value of the struct, with which the actor is spawned.\<close>

definition newMatch :: MatchActor where
  "newMatch = \<lparr>m_grid = replicate (nat BoardH) empty_row, m_piece = \<lparr>Kind = 0, Rot = 0, PX = 0, PY = 0\<rparr>,
     m_nextKind = 0, m_score = 0, m_lines = 0, m_level = 0, m_gameOver = False, m_softDrop = False,
     m_paused = False, m_gravity = 0, m_fallTick = 0, m_tickN = 0, m_subs = [], m_schedRef = [],
     m_hadSubscriber = False, m_outbox = []\<rparr>"

section \<open>Clearing lines\<close>

definition wf_row :: "int list \<Rightarrow> bool" where
  "wf_row row \<longleftrightarrow> int (length row) = BoardW \<and> list_all (\<lambda>c. 0 \<le> c \<and> c \<le> 7) row"

definition wf_grid :: "grid \<Rightarrow> bool" where
  "wf_grid g \<longleftrightarrow> int (length g) = BoardH \<and> list_all wf_row g"

text \<open>What clearing means: the full rows are gone and as many empty rows are put on top.\<close>

definition cleared_grid :: "grid \<Rightarrow> grid" where
  "cleared_grid g = replicate (length (filter row_full g)) empty_row @ filter (\<lambda>row. \<not> row_full row) g"

lemma filter_lengths: "length (filter P xs) + length (filter (\<lambda>x. \<not> P x) xs) = length xs"
  by (induction xs) auto

lemma clear_loop_spec:
  assumes "n \<le> length g0" "length g = length g0" "take n g = take n g0"
    and "drop (nat (wr + 1)) g = filter (\<lambda>row. \<not> row_full row) (drop n g0)"
    and "wr + 1 = int (n + length (filter row_full (drop n g0)))"
    and "cleared = length (filter row_full (drop n g0))"
  shows "\<exists>g' wr'. clear_loop n g wr cleared = (g', wr', length (filter row_full g0)) \<and>
     length g' = length g0 \<and> wr' + 1 = int (length (filter row_full g0)) \<and>
     drop (nat (wr' + 1)) g' = filter (\<lambda>row. \<not> row_full row) g0"
  using assms
proof (induction n arbitrary: g wr cleared)
  case (Suc n)
  have n: "n < length g0" using Suc.prems(1) by simp
  have gn: "g ! n = g0 ! n" using Suc.prems(3) by (metis lessI nth_take)
  have rest: "drop n g0 = g0 ! n # drop (Suc n) g0" using n by (simp add: Cons_nth_drop_Suc)
  have tk: "take n g = take n g0" using Suc.prems(3) by (metis le_add2 min.absorb1 plus_1_eq_Suc take_take)
  show ?case
  proof (cases "row_full (g0 ! n)")
    case True
    then show ?thesis
      using Suc.IH [of g wr "Suc cleared"] Suc.prems n gn rest tk by simp
  next
    case False
    define k where "k = length (filter row_full (drop (Suc n) g0))"
    define G where "G = (if wr \<noteq> int n then g[nat wr := g ! n] else g)"
    have wr: "wr = int (n + k)" "nat (wr + 1) = Suc (n + k)" "nat wr = n + k"
      using Suc.prems(5) by (simp_all add: k_def)
    have len: "n + k < length g0"
      using filter_lengths [of row_full "drop (Suc n) g0"] n by (simp add: k_def)
    have "G = g[n + k := g ! n]" unfolding G_def using wr by auto
    then have G: "take n G = take n g0" "drop (n + k) G = g0 ! n # drop (Suc (n + k)) g" "length G = length g0"
      using tk gn len Suc.prems(2) by (simp_all add: Cons_nth_drop_Suc [symmetric])
    have "nat (wr - 1 + 1) = n + k" using wr(3) by simp
    then have "drop (nat (wr - 1 + 1)) G = filter (\<lambda>row. \<not> row_full row) (drop n g0)"
      using G(2) Suc.prems(4) rest False unfolding wr(2) by simp
    moreover have "wr - 1 + 1 = int (n + length (filter row_full (drop n g0)))"
      "cleared = length (filter row_full (drop n g0))"
      using wr(1) rest False Suc.prems(6) by (simp_all add: k_def)
    ultimately have "\<exists>g' wr'. clear_loop n G (wr - 1) cleared = (g', wr', length (filter row_full g0)) \<and>
       length g' = length g0 \<and> wr' + 1 = int (length (filter row_full g0)) \<and>
       drop (nat (wr' + 1)) g' = filter (\<lambda>row. \<not> row_full row) g0"
      using Suc.IH [of G "wr - 1" cleared] G n by simp
    then show ?thesis using False gn by (simp add: G_def)
  qed
qed simp

lemma empty_top_spec: "n \<le> length g \<Longrightarrow> empty_top n g = replicate n empty_row @ drop n g"
proof (induction n arbitrary: g)
  case (Suc n)
  then have "drop n (g[n := empty_row]) = empty_row # drop (Suc n) g"
    by (simp add: Cons_nth_drop_Suc [symmetric])
  with Suc show ?case by (simp add: replicate_append_same)
qed simp

lemma clearLines_spec:
  assumes "int (length g) = BoardH"
  shows "clearLines g = (cleared_grid g, length (filter row_full g))"
proof -
  have H: "nat BoardH = length g" "BoardH - 1 + 1 = int (length g)" using assms by simp_all
  obtain g' wr' where c: "clear_loop (length g) g (BoardH - 1) 0 = (g', wr', length (filter row_full g))"
    "length g' = length g" "wr' + 1 = int (length (filter row_full g))"
    "drop (nat (wr' + 1)) g' = filter (\<lambda>row. \<not> row_full row) g"
    using clear_loop_spec [of "length g" g g "BoardH - 1" 0] H by auto
  have "length (filter row_full g) \<le> length g" by (rule length_filter_le)
  then show ?thesis using c H by (simp add: clearLines_def empty_top_spec cleared_grid_def)
qed

section \<open>The invariant\<close>

text \<open>
  The board has its shape and no full row, the piece is a piece, and the counters agree; while the game
  is on, the piece lies on free cells.
\<close>

definition board_inv :: "MatchActor \<Rightarrow> bool" where
  "board_inv m \<longleftrightarrow> wf_grid (m_grid m) \<and> list_all (\<lambda>row. \<not> row_full row) (m_grid m) \<and> m_nextKind m < 7 \<and>
     0 \<le> m_score m \<and> 0 \<le> m_lines m \<and> m_level m = 1 + m_lines m div 10 \<and> m_gravity m = gravity_at (m_level m)"

definition match_inv :: "MatchActor \<Rightarrow> bool" where
  "match_inv m \<longleftrightarrow> board_inv m \<and> Kind (m_piece m) < 7 \<and> Rot (m_piece m) < 4 \<and>
     (m_gameOver m \<or> canPlace (m_grid m) (m_piece m) = Some True)"

lemma pieceCells_total: "k < 7 \<Longrightarrow> \<exists>cs. pieceCells k r = Some cs"
  by (simp add: pieceCells_def pieceShapes_def)

lemma canPlace_total: "Kind p < 7 \<Longrightarrow> \<exists>ok. canPlace g p = Some ok"
  using pieceCells_total [of "Kind p" "Rot p"] by (auto simp: canPlace_def)

lemma pieceCells_four:
  assumes "pieceCells k r = Some cs"
  shows "length cs = 4" and "distinct cs"
proof -
  have len: "length (pieceCells_loop n cs) = length cs" for n cs
    by (induction n arbitrary: cs) simp_all
  have inj: "distinct cs \<Longrightarrow> distinct (pieceCells_loop n cs)" for n cs
  proof (induction n arbitrary: cs)
    case (Suc n)
    have "inj_on (\<lambda>(x, y). (- y, x)) (set cs)" by (auto simp: inj_on_def)
    then show ?case using Suc by (simp add: distinct_map)
  qed simp
  have "list_all (\<lambda>cs. length cs = 4 \<and> distinct cs) pieceShapes" by (simp add: pieceShapes_def)
  then show "length cs = 4" "distinct cs"
    using assms len inj by (auto simp: pieceCells_def index_opt_eq_Some_iff list_all_length)
qed

lemma wf_empty_row: "wf_row empty_row" "\<not> row_full empty_row"
  by (simp_all add: wf_row_def row_full_def empty_row_def BoardW_def list_all_iff)

lemma cleared_grid_ok:
  assumes "wf_grid g"
  shows "wf_grid (cleared_grid g)" and "list_all (\<lambda>row. \<not> row_full row) (cleared_grid g)"
  using assms wf_empty_row filter_lengths [of row_full g]
  by (auto simp: wf_grid_def cleared_grid_def list_all_iff)

lemma set_cell_wf: "kind < 7 \<Longrightarrow> wf_grid g \<Longrightarrow> wf_grid (set_cell kind x y g)"
proof -
  assume k: "kind < 7" and g: "wf_grid g"
  have "wf_row ((g ! nat y)[nat x := int kind + 1])" if "0 \<le> y" "y < BoardH"
  proof -
    have "nat y < length g" using g that by (simp add: wf_grid_def nat_less_iff)
    then have "wf_row (g ! nat y)" using g by (simp add: wf_grid_def list_all_length)
    then show ?thesis using k set_update_subset_insert [of "g ! nat y" "nat x" "int kind + 1"]
      by (auto simp: wf_row_def list_all_iff)
  qed
  then show ?thesis using g set_update_subset_insert [of g "nat y"]
    by (fastforce simp: set_cell_def wf_grid_def list_all_iff)
qed

lemma write_piece_wf: "Kind p < 7 \<Longrightarrow> wf_grid g \<Longrightarrow> wf_grid (write_piece p cells g)"
  unfolding write_piece_def by (induction cells arbitrary: g) (auto intro: set_cell_wf)

lemma write_piece_row:
  "i \<notin> (\<lambda>(dx, dy). nat (PY p + dy)) ` set cells \<Longrightarrow> write_piece p cells g ! i = g ! i"
  unfolding write_piece_def
proof (induction cells arbitrary: g)
  case (Cons c cells)
  obtain dx dy where c: "c = (dx, dy)" by (cases c)
  have "set_cell (Kind p) (PX p + dx) (PY p + dy) g ! i = g ! i"
    using Cons.prems c by (auto simp: set_cell_def)
  then show ?case using Cons c by simp
qed simp

text \<open>A piece completes at most four rows, so the table of scores is never read past its end.\<close>

lemma at_most_four:
  assumes g: "list_all (\<lambda>row. \<not> row_full row) g" and len: "length (write_piece p cells g) = length g"
    and four: "length cells = 4"
  shows "length (filter row_full (write_piece p cells g)) \<le> 4"
proof -
  let ?g = "write_piece p cells g" and ?I = "(\<lambda>(dx, dy). nat (PY p + dy)) ` set cells"
  have "{i. i < length ?g \<and> row_full (?g ! i)} \<subseteq> ?I"
  proof
    fix i assume i: "i \<in> {i. i < length ?g \<and> row_full (?g ! i)}"
    then have "\<not> row_full (g ! i)" using g len by (simp add: list_all_length)
    then show "i \<in> ?I" using write_piece_row [of i p cells g] i by force
  qed
  then have "card {i. i < length ?g \<and> row_full (?g ! i)} \<le> card ?I" by (intro card_mono) auto
  also have "\<dots> \<le> length cells" using card_image_le [of "set cells"] card_length [of cells] by (meson finite_set order_trans)
  finally show ?thesis using four by (simp add: length_filter_conv_card)
qed

lemma uint64n_less: "0 < n \<Longrightarrow> fst (uint64n n g) < n"
  by (simp add: uint64n_def)

lemma spawnPiece_inv:
  assumes "board_inv m"
  shows "\<exists>m'. spawnPiece g m = Some m' \<and> match_inv m' \<and> m_grid m' = m_grid m \<and> m_lines m' = m_lines m \<and>
     m_score m' = m_score m \<and> m_level m' = m_level m"
proof -
  let ?p = "\<lparr>Kind = m_nextKind m, Rot = 0, PX = BoardW div 2, PY = 1\<rparr>"
  obtain ok where "canPlace (m_grid m) ?p = Some ok"
    using canPlace_total [of ?p "m_grid m"] assms by (auto simp: board_inv_def)
  then show ?thesis using assms uint64n_less [of 7 g]
    by (auto simp: spawnPiece_def match_inv_def board_inv_def Let_def)
qed

lemma match_reset_inv: "\<exists>m'. match_reset g m = Some m' \<and> match_inv m'"
proof -
  have "wf_grid (replicate (nat BoardH) empty_row)" "list_all (\<lambda>row. \<not> row_full row) (replicate (nat BoardH) empty_row)"
    using wf_empty_row by (auto simp: wf_grid_def list_all_iff BoardH_def)
  moreover have "gravityStart = gravity_at 1"
    by (simp add: gravity_at_def gravityStart_def gravityMin_def)
  ultimately have "board_inv (m\<lparr>m_grid := replicate (nat BoardH) empty_row, m_nextKind := fst (uint64n 7 g), m_score := 0,
      m_lines := 0, m_level := 1, m_gameOver := False, m_softDrop := False, m_paused := False,
      m_gravity := gravityStart, m_fallTick := gravityStart\<rparr>)"
    using uint64n_less [of 7 g] by (simp add: board_inv_def)
  from spawnPiece_inv [OF this] show ?thesis by (auto simp: match_reset_def split_def Let_def)
qed

definition locked :: "MatchActor \<Rightarrow> grid" where
  "locked m = write_piece (m_piece m) (the (pieceCells (Kind (m_piece m)) (Rot (m_piece m)))) (m_grid m)"

lemma lockPiece_exact:
  assumes b: "board_inv m" and k: "Kind (m_piece m) < 7"
  defines "n \<equiv> length (filter row_full (locked m))"
  shows "n \<le> 4 \<and> (\<exists>m'. lockPiece g m = Some m' \<and> match_inv m' \<and> m_grid m' = cleared_grid (locked m) \<and>
     m_lines m' = m_lines m + int n \<and> m_score m' = m_score m + scoreFor ! n * m_level m)"
proof -
  obtain cells where c: "pieceCells (Kind (m_piece m)) (Rot (m_piece m)) = Some cells"
    using pieceCells_total [OF k] by blast
  let ?g = "write_piece (m_piece m) cells (m_grid m)"
  have l: "locked m = ?g" using c by (simp add: locked_def)
  have wf: "wf_grid (m_grid m)" "wf_grid ?g" using b write_piece_wf [OF k] by (auto simp: board_inv_def)
  then have len: "length ?g = length (m_grid m)" by (simp add: wf_grid_def)
  have four: "n \<le> 4"
    using at_most_four [OF _ len pieceCells_four(1) [OF c]] b by (simp add: n_def l board_inv_def)
  have cl: "clearLines ?g = (cleared_grid ?g, n)" using clearLines_spec [of ?g] wf(2) by (simp add: wf_grid_def n_def l)
  have base: "index_opt scoreFor n = Some (scoreFor ! n)" "0 \<le> scoreFor ! n"
    using four by (simp_all add: scoreFor_def nth_Cons split: nat.split)
  let ?lines = "m_lines m + int n"
  let ?m = "m\<lparr>m_grid := cleared_grid ?g, m_score := m_score m + scoreFor ! n * m_level m, m_lines := ?lines,
      m_level := 1 + ?lines div 10, m_gravity := gravity_at (1 + ?lines div 10)\<rparr>"
  have "board_inv ?m"
    using b cleared_grid_ok [OF wf(2)] base(2) by (simp add: board_inv_def pos_imp_zdiv_nonneg_iff)
  from spawnPiece_inv [OF this, of g] obtain m' where
    "spawnPiece g ?m = Some m'" "match_inv m'" "m_grid m' = cleared_grid ?g" "m_lines m' = ?lines"
    "m_score m' = m_score m + scoreFor ! n * m_level m" by auto
  then show ?thesis using four c cl base(1) l by (simp add: lockPiece_def)
qed

lemma match_inv_pos [simp]:
  "match_inv (m\<lparr>m_tickN := a\<rparr>) = match_inv m" "match_inv (m\<lparr>m_fallTick := a\<rparr>) = match_inv m"
  "match_inv (m\<lparr>m_softDrop := b\<rparr>) = match_inv m" "match_inv (m\<lparr>m_paused := b\<rparr>) = match_inv m"
  "match_inv (m\<lparr>m_subs := ss\<rparr>) = match_inv m" "match_inv (m\<lparr>m_schedRef := r\<rparr>) = match_inv m"
  "match_inv (m\<lparr>m_hadSubscriber := b\<rparr>) = match_inv m" "match_inv (m_emit e m) = match_inv m"
  by (simp_all add: match_inv_def board_inv_def m_emit_def)

lemma moved_inv:
  assumes "match_inv m" and "canPlace (m_grid m) p = Some True" and "Kind p = Kind (m_piece m)" and "Rot p < 4"
  shows "match_inv (m\<lparr>m_piece := p\<rparr>)"
  using assms by (simp add: match_inv_def board_inv_def)

lemma below_sel [simp]: "Kind (below p) = Kind p" "Rot (below p) = Rot p" "PY (below p) = PY p + 1"
  by (simp_all add: below_def)

lemma tryFall_inv:
  assumes i: "match_inv m"
  shows "\<exists>m'. tryFall g m = Some m' \<and> match_inv m'"
proof -
  have k: "Kind (m_piece m) < 7" "Rot (m_piece m) < 4" "board_inv m" using i by (simp_all add: match_inv_def)
  obtain ok where ok: "canPlace (m_grid m) (below (m_piece m)) = Some ok"
    using canPlace_total [of "below (m_piece m)"] k by auto
  show ?thesis
  proof (cases ok)
    case True
    then show ?thesis using ok moved_inv [OF i, of "below (m_piece m)"] k by (simp add: tryFall_def)
  next
    case False
    then show ?thesis using ok lockPiece_exact [OF k(3,1), of g] by (auto simp: tryFall_def)
  qed
qed

lemma try_move_inv:
  assumes i: "match_inv m" and p: "Kind p = Kind (m_piece m)" "Rot p < 4"
  shows "\<exists>m'. map_option (\<lambda>ok. if ok then m\<lparr>m_piece := p\<rparr> else m) (canPlace (m_grid m) p) = Some m' \<and> match_inv m'"
proof -
  have "Kind p < 7" using i p by (simp add: match_inv_def)
  then obtain ok where "canPlace (m_grid m) p = Some ok" using canPlace_total by blast
  then show ?thesis using i moved_inv [OF i _ p] by auto
qed

lemma drop_loop_exact:
  assumes "canPlace g p = Some True"
  shows "\<exists>q. drop_loop g p sc = Some (q, sc + hardDropBonus * (PY q - PY p)) \<and> q = p\<lparr>PY := PY q\<rparr> \<and> PY p \<le> PY q \<and>
     ghost_loop g p = Some (PY q) \<and> canPlace g q = Some True \<and> canPlace g (below q) = Some False"
  using assms
proof (induction g p sc rule: drop_loop.induct)
  case (1 g p sc)
  have "pieceCells (Kind p) (Rot p) \<noteq> None" using 1(2) by (auto simp: canPlace_def)
  then obtain ok where ok: "canPlace g (below p) = Some ok" by (auto simp: canPlace_def)
  show ?case
  proof (cases ok)
    case False
    then show ?thesis
      using ok 1(2) by (auto simp: drop_loop.simps [of g p sc] ghost_loop.simps [of g p] intro!: exI [of _ p])
  next
    case True
    then obtain q where q: "drop_loop g (below p) (sc + hardDropBonus) =
        Some (q, sc + hardDropBonus + hardDropBonus * (PY q - PY (below p)))"
      "q = (below p)\<lparr>PY := PY q\<rparr>" "PY (below p) \<le> PY q" "ghost_loop g (below p) = Some (PY q)"
      "canPlace g q = Some True" "canPlace g (below q) = Some False"
      using 1(1) [OF ok] ok by auto
    have "drop_loop g p sc = Some (q, sc + hardDropBonus * (PY q - PY p))" "ghost_loop g p = Some (PY q)"
      using ok True q(1,4) by (simp_all add: drop_loop.simps [of g p sc] ghost_loop.simps [of g p] algebra_simps)
    moreover have "q = p\<lparr>PY := PY q\<rparr>" using q(2) by (metis PieceState.surjective PieceState.update_convs(4) below_def)
    ultimately show ?thesis using q by auto
  qed
qed

lemma hardDrop_inv:
  assumes i: "match_inv m" "\<not> m_gameOver m"
  shows "\<exists>m'. hardDrop g m = Some m' \<and> match_inv m'"
proof -
  have k: "Kind (m_piece m) < 7" "board_inv m" "canPlace (m_grid m) (m_piece m) = Some True"
    using i by (simp_all add: match_inv_def)
  obtain q where q: "drop_loop (m_grid m) (m_piece m) (m_score m) = Some (q, m_score m + hardDropBonus * (PY q - PY (m_piece m)))"
    "q = (m_piece m)\<lparr>PY := PY q\<rparr>" "PY (m_piece m) \<le> PY q"
    using drop_loop_exact [OF k(3), of "m_score m"] by blast
  let ?m = "m\<lparr>m_piece := q, m_score := m_score m + hardDropBonus * (PY q - PY (m_piece m))\<rparr>"
  have "Kind q = Kind (m_piece m)" by (subst q(2)) simp
  moreover have "0 \<le> hardDropBonus * (PY q - PY (m_piece m))" using q(3) by (simp add: hardDropBonus_def)
  ultimately have "board_inv ?m" "Kind (m_piece ?m) < 7" using k(1,2) by (simp_all add: board_inv_def)
  from lockPiece_exact [OF this, of g] show ?thesis using q(1) by (auto simp: hardDrop_def)
qed

lemma handleInput_inv:
  assumes i: "match_inv m"
  shows "\<exists>m'. handleInput g action m = Some m' \<and> match_inv m'"
proof -
  define Q where "Q x \<longleftrightarrow> (\<exists>m'. x = Some m' \<and> match_inv m')" for x
  have r: "Rot (m_piece m) < 4" using i by (simp add: match_inv_def)
  have drop: "\<not> m_gameOver m \<Longrightarrow> Q (hardDrop g m)" using hardDrop_inv [OF i, of g] unfolding Q_def .
  have reset: "Q (match_reset g m)" using match_reset_inv unfolding Q_def .
  have shift: "Q (tryShift dx m)" for dx
    unfolding Q_def tryShift_def Let_def by (rule try_move_inv [OF i]) (simp_all add: r)
  have turn: "Q (map_option (\<lambda>ok. if ok then m\<lparr>m_piece := (m_piece m)\<lparr>Rot := (Rot (m_piece m) + 1) mod 4\<rparr>\<rparr> else m)
        (canPlace (m_grid m) ((m_piece m)\<lparr>Rot := (Rot (m_piece m) + 1) mod 4\<rparr>)))"
    unfolding Q_def by (rule try_move_inv [OF i]) simp_all
  have some: "Q (Some m')" if "match_inv m'" for m' using that by (simp add: Q_def)
  have branch: "Q (if c then x else y)" if "c \<Longrightarrow> Q x" "\<not> c \<Longrightarrow> Q y" for c x y using that by simp
  have either: "match_inv (if c then x else y)" if "match_inv x" "match_inv y" for c x y using that by simp
  have "Q (handleInput g action m)"
    unfolding handleInput_def Let_def using drop shift turn reset i
    by (intro branch some either) (simp_all split del: if_split)
  then show ?thesis by (simp add: Q_def)
qed

lemma match_step_inv: "match_inv m \<Longrightarrow> \<exists>m'. match_step g m = Some m' \<and> match_inv m'"
  using tryFall_inv [of "m\<lparr>m_tickN := m_tickN m + 1, m_fallTick := m_fallTick m - 1\<rparr>" g]
  by (auto simp: match_step_def Let_def)

lemma ghostY_total:
  assumes "match_inv m"
  shows "\<exists>y. ghostY m = Some y"
  using assms drop_loop_exact [of "m_grid m" "m_piece m" 0] by (auto simp: ghostY_def match_inv_def)

lemma broadcast_inv:
  assumes "match_inv m"
  shows "\<exists>m'. broadcast t m = Some m' \<and> match_inv m'"
proof -
  have "match_inv (fold (\<lambda>s. m_emit (TellSnapshot s snap)) ss m) = match_inv m" for ss snap
    by (induction ss arbitrary: m) simp_all
  then show ?thesis using ghostY_total [OF assms] assms by (auto simp: broadcast_def Let_def)
qed

lemma Match_Receive_inv:
  assumes i: "match_inv m"
  shows "\<exists>m'. Match_Receive g msg m = Some m' \<and> match_inv m'"
proof (cases msg)
  case (MatchPostStart self err)
  then show ?thesis using match_reset_inv [of g m] by (cases err) (auto simp: Match_Receive_def Let_def)
next
  case (MatchInput action)
  then show ?thesis using handleInput_inv [OF i] by (simp add: Match_Receive_def)
next
  case (Tick t)
  obtain m1 where "(if \<not> m_gameOver m \<and> \<not> m_paused m then match_step g m else Some m) = Some m1" "match_inv m1"
    using match_step_inv [OF i, of g] i by (cases "\<not> m_gameOver m \<and> \<not> m_paused m") auto
  then show ?thesis using Tick broadcast_inv [of m1 t] by (simp add: Match_Receive_def)
qed (use i in \<open>auto simp: Match_Receive_def m_maybeShutdown_def removeSubscriberByName_def removeSubscriberByPath_def
       split: option.splits\<close>)

definition match_receive :: "rng \<times> match_msg \<Rightarrow> MatchActor \<Rightarrow> MatchActor option" where
  "match_receive q m = Match_Receive (fst q) (snd q) m"

interpretation tetris: actor match_receive match_inv "\<lambda>_ _. True"
  by unfold_locales (simp add: match_receive_def Match_Receive_inv)

section \<open>Cells\<close>

definition row_cells :: "int list \<Rightarrow> nat" where
  "row_cells row = length (filter (\<lambda>c. c \<noteq> 0) row)"

definition filled_cells :: "grid \<Rightarrow> nat" where
  "filled_cells g = sum_list (map row_cells g)"

lemma row_cells_update: "i < length row \<Longrightarrow> row ! i = 0 \<Longrightarrow> c \<noteq> 0 \<Longrightarrow> row_cells (row[i := c]) = Suc (row_cells row)"
proof -
  assume i: "i < length row" "row ! i = 0" "c \<noteq> 0"
  have "row_cells row = row_cells (take i row @ row ! i # drop (Suc i) row)" using id_take_nth_drop [OF i(1)] by simp
  then show ?thesis using i by (simp add: row_cells_def upd_conv_take_nth_drop)
qed

lemma filled_set_cell:
  assumes g: "wf_grid g" and free: "cell_free g x y" and y: "0 \<le> y"
  shows "filled_cells (set_cell kind x y g) = Suc (filled_cells g)"
proof -
  have b: "0 \<le> x" "x < BoardW" "y < BoardH" "g ! nat y ! nat x = 0" using free y by (auto simp: cell_free_def)
  have len: "nat y < length g" using g y b(3) by (simp add: wf_grid_def nat_less_iff)
  then have "nat x < length (g ! nat y)" using g b(1,2) by (simp add: wf_grid_def list_all_length wf_row_def nat_less_iff)
  then have row: "row_cells ((g ! nat y)[nat x := int kind + 1]) = Suc (row_cells (g ! nat y))"
    using row_cells_update b(4) by simp
  have "row_cells (g ! nat y) \<le> sum_list (map row_cells g)"
    using len by (intro member_le_sum_list) (simp_all add: nth_mem)
  then show ?thesis
    using b y len row by (simp add: set_cell_def filled_cells_def map_update sum_list_update)
qed

lemma cell_free_set_cell:
  assumes "wf_grid g" and "cell_free g x' y'" and "(x, y) \<noteq> (x', y')" and "cell_free g x y"
  shows "cell_free (set_cell kind x y g) x' y'"
proof (cases "0 \<le> y' \<and> y' = y \<and> 0 \<le> x \<and> x < BoardW \<and> y < BoardH")
  case True
  then have "nat y < length g" using assms(1) by (simp add: wf_grid_def nat_less_iff)
  moreover have "nat x \<noteq> nat x'" using True assms(2,3) by (auto simp: cell_free_def eq_nat_nat_iff)
  ultimately show ?thesis using True assms(2) by (simp add: cell_free_def set_cell_def)
next
  case False
  then have "g ! nat y' = set_cell kind x y g ! nat y'" if "0 \<le> y'"
    using that assms(4) by (auto simp: set_cell_def cell_free_def nat_eq_iff2)
  then show ?thesis using assms(2) by (auto simp: cell_free_def)
qed

lemma write_piece_filled:
  assumes "Kind p < 7" and "wf_grid g" and "distinct cells"
    and "list_all (\<lambda>(dx, dy). cell_free g (PX p + dx) (PY p + dy)) cells"
  shows "filled_cells (write_piece p cells g) = filled_cells g + length (filter (\<lambda>(dx, dy). 0 \<le> PY p + dy) cells)"
  using assms(2-)
proof (induction cells arbitrary: g)
  case (Cons c cells)
  obtain dx dy where c: "c = (dx, dy)" by (cases c)
  let ?g = "set_cell (Kind p) (PX p + dx) (PY p + dy) g"
  have free: "cell_free g (PX p + dx) (PY p + dy)" using Cons.prems(3) c by simp
  have "list_all (\<lambda>(dx, dy). cell_free ?g (PX p + dx) (PY p + dy)) cells"
    using Cons.prems cell_free_set_cell [OF Cons.prems(1) _ _ free] c by (fastforce simp: list_all_iff)
  then have "filled_cells (write_piece p cells ?g) = filled_cells ?g + length (filter (\<lambda>(dx, dy). 0 \<le> PY p + dy) cells)"
    using Cons.IH [of ?g] set_cell_wf [OF assms(1) Cons.prems(1)] Cons.prems(2) by simp
  moreover have "filled_cells ?g = filled_cells g + (if 0 \<le> PY p + dy then 1 else 0)"
    using filled_set_cell [OF Cons.prems(1) free] by (simp add: set_cell_def)
  ultimately show ?case using c by (simp add: write_piece_def)
qed (simp add: write_piece_def)

lemma cleared_filled: "list_all wf_row g \<Longrightarrow> filled_cells (cleared_grid g) + 10 * length (filter row_full g) = filled_cells g"
proof -
  have e: "row_cells empty_row = 0" by (simp add: row_cells_def empty_row_def)
  then have "filled_cells (cleared_grid g) = sum_list (map row_cells (filter (\<lambda>row. \<not> row_full row) g))"
    by (simp add: filled_cells_def cleared_grid_def sum_list_replicate)
  moreover have "row_cells row = 10" if "wf_row row" "row_full row" for row
  proof -
    have "filter (\<lambda>c. c \<noteq> 0) row = row" using that(2) by (simp add: row_full_def list_all_iff)
    then show ?thesis using that(1) by (simp add: row_cells_def wf_row_def BoardW_def)
  qed
  then have "list_all wf_row g \<Longrightarrow> sum_list (map row_cells (filter (\<lambda>row. \<not> row_full row) g)) + 10 * length (filter row_full g) =
      sum_list (map row_cells g)"
    by (induction g) auto
  ultimately show "list_all wf_row g \<Longrightarrow> filled_cells (cleared_grid g) + 10 * length (filter row_full g) = filled_cells g"
    by (simp add: filled_cells_def)
qed

section \<open>Properties\<close>

lemma first_match:
  obtains m where "match_reset (\<lambda>_. 0) newMatch = Some m" "match_inv m" "\<not> m_gameOver m" "\<not> m_paused m"
    "m_piece m = \<lparr>Kind = 0, Rot = 0, PX = 5, PY = 1\<rparr>" "m_grid m = replicate 20 empty_row"
proof -
  obtain m where r: "match_reset (\<lambda>_. 0) newMatch = Some m" "match_inv m" using match_reset_inv by blast
  then have "m = newMatch\<lparr>m_grid := replicate 20 empty_row, m_score := 0, m_lines := 0, m_level := 1,
      m_gameOver := False, m_softDrop := False, m_paused := False, m_gravity := gravityStart,
      m_fallTick := gravityStart, m_piece := \<lparr>Kind = 0, Rot = 0, PX = 5, PY = 1\<rparr>, m_nextKind := 0\<rparr>"
    by (simp add: match_reset_def spawnPiece_def canPlace_def pieceCells_def pieceShapes_def uint64n_def rng_tail_def
        cell_free_def BoardW_def BoardH_def empty_row_def index_opt_def)
  then show thesis using that r by simp
qed

text \<open>
  C8: a match never panics. After the actor started, any sequence of messages is handled: the board
  keeps its 20 rows of 10 cells, holds no full row, the level and the speed are those of the number of
  cleared lines, and as long as the game is not over the falling piece lies on free cells.
\<close>

theorem match_never_panics:
  "\<exists>m0 m. Match_Receive g (MatchPostStart self err) newMatch = Some m0 \<and> deliver match_receive msgs m0 = Some m \<and>
     wf_grid (m_grid m) \<and> list_all (\<lambda>row. \<not> row_full row) (m_grid m) \<and>
     0 \<le> m_score m \<and> m_level m = 1 + m_lines m div 10 \<and> m_gravity m = gravity_at (m_level m) \<and>
     (m_gameOver m \<or> canPlace (m_grid m) (m_piece m) = Some True)"
proof -
  obtain m0 where m0: "Match_Receive g (MatchPostStart self err) newMatch = Some m0" "match_inv m0"
    using match_reset_inv [of g newMatch] by (cases err) (auto simp: Match_Receive_def Let_def)
  then obtain m where "deliver match_receive msgs m0 = Some m" "match_inv m"
    using tetris.deliver_ok [OF m0(2) accepted_True] by blast
  with m0(1) show ?thesis by (auto simp: match_inv_def board_inv_def)
qed

text \<open>
  C9: \<open>clearLines\<close>, which compacts the board in place, does what clearing means: the full rows are
  removed, the others keep their order, as many empty rows appear on top, and the number of removed
  rows is returned.
\<close>

theorem clear_lines_exact:
  assumes "wf_grid g"
  shows "clearLines g = (replicate (length (filter row_full g)) empty_row @ filter (\<lambda>row. \<not> row_full row) g,
     length (filter row_full g))"
  using clearLines_spec [of g] assms by (simp add: wf_grid_def cleared_grid_def)

theorem clear_lines_exact_witness:
  "snd (clearLines (replicate 18 empty_row @ replicate 2 (replicate 10 1))) = 2"
proof -
  have "wf_grid (replicate 18 empty_row @ replicate 2 (replicate 10 1))"
    using wf_empty_row by (simp add: wf_grid_def list_all_iff wf_row_def BoardH_def BoardW_def)
  from clear_lines_exact [OF this] show ?thesis
    using wf_empty_row by (simp add: row_full_def list_all_iff)
qed

text \<open>
  A hard drop puts the piece where the landing hint of the snapshot shows it, the lowest row it can
  fall to, adds two points per row, and locks it there.
\<close>

theorem hard_drop_lands_on_ghost:
  assumes m: "match_inv m" "\<not> m_gameOver m" "\<not> m_paused m"
  shows "\<exists>y p m'. ghostY m = Some y \<and> p = (m_piece m)\<lparr>PY := y\<rparr> \<and> PY (m_piece m) \<le> y \<and>
     canPlace (m_grid m) p = Some True \<and> canPlace (m_grid m) (below p) = Some False \<and>
     lockPiece g (m\<lparr>m_piece := p, m_score := m_score m + 2 * (y - PY (m_piece m))\<rparr>) = Some m' \<and>
     handleInput g ActionHardDrop m = Some (m'\<lparr>m_fallTick := currentGravity m'\<rparr>)"
proof -
  have c: "canPlace (m_grid m) (m_piece m) = Some True" using m by (simp add: match_inv_def)
  obtain q where q: "drop_loop (m_grid m) (m_piece m) (m_score m) = Some (q, m_score m + hardDropBonus * (PY q - PY (m_piece m)))"
    "q = (m_piece m)\<lparr>PY := PY q\<rparr>" "PY (m_piece m) \<le> PY q" "ghost_loop (m_grid m) (m_piece m) = Some (PY q)"
    "canPlace (m_grid m) q = Some True" "canPlace (m_grid m) (below q) = Some False"
    using drop_loop_exact [OF c] by blast
  have h: "handleInput g ActionHardDrop m = hardDrop g m"
    using m by (simp add: handleInput_def ActionHardDrop_def ActionPause_def ActionLeft_def ActionRight_def ActionRotate_def
        ActionSoftDrop_def ActionSoftDropEnd_def)
  obtain m2 where m2: "hardDrop g m = Some m2" using hardDrop_inv [OF m(1,2)] by blast
  then obtain m' where m': "lockPiece g (m\<lparr>m_piece := q, m_score := m_score m + hardDropBonus * (PY q - PY (m_piece m))\<rparr>) = Some m'"
    "m2 = m'\<lparr>m_fallTick := currentGravity m'\<rparr>"
    using q(1) by (auto simp: hardDrop_def bind_eq_Some_conv)
  show ?thesis
    by (rule exI [of _ "PY q"], rule exI [of _ q], rule exI [of _ m'])
       (use q m m' m2 h in \<open>simp add: ghostY_def hardDropBonus_def\<close>)
qed

theorem hard_drop_lands_on_ghost_witness:
  "\<exists>m y. Match_Receive (\<lambda>_. 0) (MatchPostStart ''m'' None) newMatch = Some m \<and> ghostY m = Some y"
proof (rule first_match)
  fix m
  assume "match_reset (\<lambda>_. 0) newMatch = Some m" "match_inv m" "\<not> m_gameOver m" "\<not> m_paused m"
  then show ?thesis
    using hard_drop_lands_on_ghost [of m]
    by (auto simp: Match_Receive_def Let_def m_emit_def ghostY_def)
qed

text \<open>
  Locking a piece conserves cells. The filled cells afterwards and ten for every line cleared are the
  filled cells before and the piece's cells on the board; at most four lines are cleared at once, and
  they score 100, 300, 500 or 800 times the level.
\<close>

theorem lock_conserves_cells:
  assumes m: "match_inv m" "\<not> m_gameOver m"
    and c: "pieceCells (Kind (m_piece m)) (Rot (m_piece m)) = Some cells"
  shows "\<exists>m' n. lockPiece g m = Some m' \<and> n \<le> 4 \<and> m_lines m' = m_lines m + int n \<and>
     m_score m' = m_score m + [0, 100, 300, 500, 800] ! n * m_level m \<and>
     filled_cells (m_grid m') + 10 * n = filled_cells (m_grid m) + length (filter (\<lambda>(dx, dy). 0 \<le> PY (m_piece m) + dy) cells)"
proof -
  have b: "board_inv m" "Kind (m_piece m) < 7" "wf_grid (m_grid m)"
    using m by (simp_all add: match_inv_def board_inv_def)
  let ?n = "length (filter row_full (locked m))"
  obtain m' where m': "?n \<le> 4" "lockPiece g m = Some m'" "m_grid m' = cleared_grid (locked m)"
    "m_lines m' = m_lines m + int ?n" "m_score m' = m_score m + scoreFor ! ?n * m_level m"
    using lockPiece_exact [OF b(1,2), of g] by blast
  have l: "locked m = write_piece (m_piece m) cells (m_grid m)" using c by (simp add: locked_def)
  have "list_all (\<lambda>(dx, dy). cell_free (m_grid m) (PX (m_piece m) + dx) (PY (m_piece m) + dy)) cells"
    using m c by (simp add: match_inv_def canPlace_def)
  from write_piece_filled [OF b(2,3) pieceCells_four(2) [OF c] this]
  have "filled_cells (locked m) = filled_cells (m_grid m) + length (filter (\<lambda>(dx, dy). 0 \<le> PY (m_piece m) + dy) cells)"
    by (simp add: l)
  moreover have "list_all wf_row (locked m)"
    using write_piece_wf [OF b(2,3)] by (simp add: l wf_grid_def)
  ultimately show ?thesis using m' cleared_filled [of "locked m"] by (auto simp: scoreFor_def)
qed

theorem lock_conserves_cells_witness:
  "\<exists>m m' n. match_reset (\<lambda>_. 0) newMatch = Some m \<and> lockPiece (\<lambda>_. 0) m = Some m' \<and>
     filled_cells (m_grid m') + 10 * n = 4"
proof (rule first_match)
  fix m
  assume r: "match_reset (\<lambda>_. 0) newMatch = Some m" "match_inv m" "\<not> m_gameOver m"
    and m: "m_piece m = \<lparr>Kind = 0, Rot = 0, PX = 5, PY = 1\<rparr>" "m_grid m = replicate 20 empty_row"
  let ?cs = "[(-1, 0), (0, 0), (1, 0), (2, 0)] :: (int \<times> int) list"
  have cells: "pieceCells (Kind (m_piece m)) (Rot (m_piece m)) = Some ?cs"
    by (simp add: m pieceCells_def pieceShapes_def)
  have "filled_cells (m_grid m) = 0" by (simp add: m filled_cells_def row_cells_def empty_row_def sum_list_replicate)
  moreover have "length (filter (\<lambda>(dx, dy). 0 \<le> PY (m_piece m) + dy) ?cs) = 4"
    by (simp add: m(1))
  moreover obtain m' n where "lockPiece (\<lambda>_. 0) m = Some m'" "filled_cells (m_grid m') + 10 * n =
      filled_cells (m_grid m) + length (filter (\<lambda>(dx, dy). 0 \<le> PY (m_piece m) + dy) ?cs)"
    using lock_conserves_cells [OF r(2,3) cells, of "\<lambda>_. 0"] by blast
  ultimately show ?thesis using r(1) by auto
qed

end
