(* ===== verification/Tetris_Gateway.thy ===== *)
theory Tetris_Gateway
  imports Tetris
begin

text \<open>
  What is around a match of \<^verbatim>\<open>goakt-tetris\<close>: the matchmaker that spawns it (\<^verbatim>\<open>matchmaker.go\<close>), the gateway
  that serves a connection (\<^verbatim>\<open>gateway.go\<close>) and the session actor that owns it (\<^verbatim>\<open>session.go\<close>). One
  connection is a step relation in which the gateway, the session and the match take turns in any order;
  the messages from the session and from the gateway travel to the match independently of each other.
\<close>

section \<open>The matchmaker\<close>

definition MessageTypeInput :: string where "MessageTypeInput = ''input''"
definition MatchmakerActorName :: string where "MatchmakerActorName = ''matchmaker''"
definition matchActorPrefix :: string where "matchActorPrefix = ''match.''"
definition sessionActorPrefix :: string where "sessionActorPrefix = ''session.''"
definition matchResolveDeadline :: int where "matchResolveDeadline = 2000"

datatype mm_msg = MmPostStart | CreateMatch | MmOther

datatype mm_reply = MatchCreated string | MmErr string | MmSilent | MmUnhandled

text \<open>A request spawns a match under a fresh name; \<open>err\<close> is the error of the placement, if any.\<close>

definition MatchFactory_Receive :: "string \<Rightarrow> string option \<Rightarrow> mm_msg \<Rightarrow> (string \<rightharpoonup> MatchActor) \<Rightarrow> mm_reply \<times> (string \<rightharpoonup> MatchActor)" where
  "MatchFactory_Receive uuid err msg matches =
     (case msg of
        MmPostStart \<Rightarrow> (MmSilent, matches)
      | CreateMatch \<Rightarrow>
          (let name = matchActorPrefix @ uuid in
           case err of
             Some e \<Rightarrow> (MmErr e, matches)
           | None \<Rightarrow> (MatchCreated name, matches(name \<mapsto> newMatch)))
      | MmOther \<Rightarrow> (MmUnhandled, matches))"

text \<open>
  Resolving the new match: look-ups every 50 ms until the deadline, \<open>lag i\<close> being the time the \<open>i\<close>-th takes
  beyond the pause. A look-up fails with an error, finds nothing, or finds the process.
\<close>

function match_resolve_loop :: "(nat \<Rightarrow> string + string option) \<Rightarrow> (nat \<Rightarrow> nat) \<Rightarrow> int \<Rightarrow> nat \<Rightarrow> int \<Rightarrow> string option \<Rightarrow>
    (string option + string) \<times> nat" where
  "match_resolve_loop lookup lag deadline i t lookupErr =
     (if t < deadline then
        (case lookup i of
           Inr (Some p) \<Rightarrow> (Inr p, Suc i)
         | Inr None \<Rightarrow> match_resolve_loop lookup lag deadline (Suc i) (t + int (lag i) + 50) None
         | Inl e \<Rightarrow> match_resolve_loop lookup lag deadline (Suc i) (t + int (lag i) + 50) (Some e))
      else (Inl lookupErr, i))"
  by pat_completeness auto
termination
  by (relation "measure (\<lambda>(lookup, lag, deadline, i, t, e). nat (deadline - t))") auto

declare match_resolve_loop.simps [simp del]

definition requestMatch :: "string option \<Rightarrow> string + mm_reply \<Rightarrow> (string \<Rightarrow> nat \<Rightarrow> string + string option) \<Rightarrow> (nat \<Rightarrow> nat) \<Rightarrow> int \<Rightarrow>
    string + string \<times> string" where
  "requestMatch mm_err reply lookup lag t =
     (case mm_err of
        Some e \<Rightarrow> Inl (''locate matchmaker: '' @ e)
      | None \<Rightarrow>
          (case reply of
             Inl e \<Rightarrow> Inl (''matchmaker.CreateMatch: '' @ e)
           | Inr (MatchCreated name) \<Rightarrow>
               (case fst (match_resolve_loop (lookup name) lag (t + matchResolveDeadline) 0 t None) of
                  Inr p \<Rightarrow> Inr (p, name)
                | Inl e \<Rightarrow> Inl (''resolve match '' @ name @ '': '' @ (case e of Some s \<Rightarrow> s | None \<Rightarrow> ''%!w(<nil>)'')))
           | Inr _ \<Rightarrow> Inl ''unexpected matchmaker reply type''))"

lemma match_resolve_bounded:
  "snd (match_resolve_loop lookup lag deadline i t e) \<le> i + nat ((deadline - t + 49) div 50)"
proof (induction lookup lag deadline i t e rule: match_resolve_loop.induct)
  case (1 lookup lag deadline i t e)
  show ?case
  proof (cases "t < deadline \<and> (\<forall>p. lookup i \<noteq> Inr (Some p))")
    case True
    have "nat ((deadline - (t + int (lag i) + 50) + 49) div 50) + 1 \<le> nat ((deadline - t + 49) div 50)" using True by linarith
    then show ?thesis using 1 True
      by (cases "lookup i") (auto simp: match_resolve_loop.simps [of lookup lag deadline i t e] split: option.split)
  next
    case False
    then show ?thesis by (auto simp: match_resolve_loop.simps [of lookup lag deadline i t e] split: sum.split option.split)
  qed
qed

lemma requestMatch_lookups: "snd (match_resolve_loop lookup lag (t + matchResolveDeadline) 0 t e) \<le> 40"
  using match_resolve_bounded [of lookup lag "t + matchResolveDeadline" 0 t e] by (simp add: matchResolveDeadline_def)

section \<open>The session\<close>

datatype session_msg = SessPostStart | SessInput string | SessSnapshot Snapshot | SessClosed | SessOther

datatype session_effect = SessTell match_msg | SessWrite Snapshot | SessErr string | SessShutdown | SessUnhandled

text \<open>The outcome of encoding and of writing a snapshot are arguments.\<close>

definition Session_Receive :: "string option \<Rightarrow> bool \<Rightarrow> pid \<Rightarrow> session_msg \<Rightarrow> session_effect list" where
  "Session_Receive marshal_err write_ok self msg =
     (case msg of
        SessPostStart \<Rightarrow> [SessTell (Subscribe self)]
      | SessInput action \<Rightarrow> [SessTell (MatchInput action)]
      | SessSnapshot s \<Rightarrow>
          (case marshal_err of
             Some e \<Rightarrow> [SessErr e]
           | None \<Rightarrow> if write_ok then [SessWrite s] else [SessShutdown])
      | SessClosed \<Rightarrow> [SessShutdown]
      | SessOther \<Rightarrow> [SessUnhandled])"

section \<open>The gateway\<close>

datatype gw_effect =
    GwClose string
  | GwShutdownMatch
  | GwTellSession session_msg
  | GwTellMatch match_msg

text \<open>A frame: not JSON, or its type and action.\<close>

type_synonym frame = "string + string \<times> string"

definition read_frame :: "frame \<Rightarrow> gw_effect list" where
  "read_frame f =
     (case f of
        Inl _ \<Rightarrow> []
      | Inr (typ, action) \<Rightarrow> if typ \<noteq> MessageTypeInput then [] else [GwTellSession (SessInput action)])"

definition teardown :: "string \<Rightarrow> gw_effect list" where
  "teardown sessionName =
     [GwTellMatch (Unsubscribe sessionName), GwTellSession SessClosed, GwClose []]"

text \<open>
  What the handler of a connection does after the upgrade, in order; \<open>frames\<close> are the frames it reads until
  the connection ends. The session itself is spawned in between.
\<close>

definition wsHandler :: "string + string \<times> string \<Rightarrow> string \<Rightarrow> string option \<Rightarrow> frame list \<Rightarrow> gw_effect list" where
  "wsHandler req uuid spawn_err frames =
     (case req of
        Inl _ \<Rightarrow> [GwClose ''matchmaker unavailable'']
      | Inr (match, matchName) \<Rightarrow>
          (case spawn_err of
             Some _ \<Rightarrow> [GwShutdownMatch, GwClose ''session spawn failed'']
           | None \<Rightarrow> concat (map read_frame frames) @ teardown (sessionActorPrefix @ uuid)))"

section \<open>A connection\<close>

text \<open>
  The match and whether it runs, the session with its mailbox, the messages on their way to the match from the
  session and from the gateway, and what the gateway has still to do.
\<close>

record Conn =
  cn_pid :: pid
  cn_remote :: bool
  cn_match :: MatchActor
  cn_up :: bool
  cn_sess :: bool
  cn_inbox :: "session_msg list"
  cn_from_sess :: "match_msg list"
  cn_from_gw :: "match_msg list"
  cn_todo :: "gw_effect list"

fun gw_exec :: "gw_effect \<Rightarrow> Conn \<Rightarrow> Conn" where
  "gw_exec (GwTellSession m) c = c\<lparr>cn_inbox := cn_inbox c @ [m]\<rparr>"
| "gw_exec (GwTellMatch m) c = c\<lparr>cn_from_gw := cn_from_gw c @ [m]\<rparr>"
| "gw_exec GwShutdownMatch c = c\<lparr>cn_up := False\<rparr>"
| "gw_exec (GwClose s) c = c"

definition tells :: "session_effect list \<Rightarrow> match_msg list" where
  "tells es = List.map_filter (\<lambda>e. case e of SessTell m \<Rightarrow> Some m | _ \<Rightarrow> None) es"

text \<open>
  Encoding a snapshot does not fail. A session that stops is reported to a match that watches it, as long as both are on one node; a session that
  stops before it is watched is not reported.
\<close>

definition session_exec :: "bool \<Rightarrow> session_msg \<Rightarrow> Conn \<Rightarrow> Conn" where
  "session_exec write_ok msg c =
     (let es = Session_Receive None write_ok (cn_pid c) msg;
          c = c\<lparr>cn_from_sess := cn_from_sess c @ tells es\<rparr> in
      if SessShutdown \<in> set es
      then c\<lparr>cn_sess := False, cn_inbox := [],
             cn_from_sess := cn_from_sess c @
               (if \<not> cn_remote c \<and> cn_pid c \<in> set (m_subs (cn_match c)) then [MatchTerminated (pid_path (cn_pid c))] else [])\<rparr>
      else c)"

definition snapshots :: "match_effect list \<Rightarrow> session_msg list" where
  "snapshots es = List.map_filter (\<lambda>e. case e of TellSnapshot _ s \<Rightarrow> Some (SessSnapshot s) | _ \<Rightarrow> None) es"

definition match_deliver :: "rng \<Rightarrow> match_msg \<Rightarrow> Conn \<Rightarrow> Conn option" where
  "match_deliver g msg c =
     map_option (\<lambda>m. c\<lparr>cn_match := m, cn_up := ShutdownMatch \<notin> set (m_outbox m), cn_inbox := cn_inbox c @ snapshots (m_outbox m)\<rparr>)
       (Match_Receive g msg ((cn_match c)\<lparr>m_outbox := []\<rparr>))"

inductive conn_step :: "Conn \<Rightarrow> Conn \<Rightarrow> bool" where
  gateway: "cn_todo c = e # es \<Longrightarrow> conn_step c (gw_exec e (c\<lparr>cn_todo := es\<rparr>))"
| session: "cn_sess c \<Longrightarrow> cn_inbox c = msg # ms \<Longrightarrow> conn_step c (session_exec ok msg (c\<lparr>cn_inbox := ms\<rparr>))"
| from_session: "cn_up c \<Longrightarrow> cn_from_sess c = msg # ms \<Longrightarrow>
     match_deliver g msg (c\<lparr>cn_from_sess := ms\<rparr>) = Some c' \<Longrightarrow> conn_step c c'"
| from_gateway: "cn_up c \<Longrightarrow> cn_from_gw c = msg # ms \<Longrightarrow>
     match_deliver g msg (c\<lparr>cn_from_gw := ms\<rparr>) = Some c' \<Longrightarrow> conn_step c c'"
| tick: "cn_up c \<Longrightarrow> match_deliver g (Tick t) c = Some c' \<Longrightarrow> conn_step c c'"

inductive_cases conn_stepE: "conn_step c c'"

text \<open>A connection right after the session was spawned: the match has started and has no subscriber.\<close>

definition conn_start :: "pid \<Rightarrow> bool \<Rightarrow> MatchActor \<Rightarrow> gw_effect list \<Rightarrow> Conn" where
  "conn_start p remote m todo =
     \<lparr>cn_pid = p, cn_remote = remote, cn_match = m, cn_up = True, cn_sess = True, cn_inbox = [SessPostStart],
      cn_from_sess = [], cn_from_gw = [], cn_todo = todo\<rparr>"

section \<open>What the match keeps\<close>

text \<open>Playing changes neither the subscribers nor what is sent.\<close>

definition same_subs :: "MatchActor \<Rightarrow> MatchActor \<Rightarrow> bool" where
  "same_subs m m' \<longleftrightarrow> m_subs m' = m_subs m \<and> m_hadSubscriber m' = m_hadSubscriber m \<and> m_outbox m' = m_outbox m"

lemma same_subs_refl [simp]: "same_subs m m"
  by (simp add: same_subs_def)

lemma lockPiece_same: "lockPiece g m = Some m' \<Longrightarrow> same_subs m m'"
  by (auto simp: lockPiece_def spawnPiece_def same_subs_def Let_def split: bind_splits prod.splits if_splits)

lemma tryFall_same: "tryFall g m = Some m' \<Longrightarrow> same_subs m m'"
  using lockPiece_same by (fastforce simp: tryFall_def Let_def same_subs_def split: bind_splits if_splits)

lemma match_reset_same: "match_reset g m = Some m' \<Longrightarrow> same_subs m m'"
  by (auto simp: match_reset_def spawnPiece_def same_subs_def Let_def split: bind_splits prod.splits if_splits)

lemma same_subs_update [simp]:
  "same_subs (m\<lparr>m_piece := p, m_score := n\<rparr>) m' = same_subs m m'"
  "same_subs (m\<lparr>m_tickN := a, m_fallTick := b\<rparr>) m' = same_subs m m'"
  "same_subs m (m'\<lparr>m_fallTick := b\<rparr>) = same_subs m m'"
  by (simp_all add: same_subs_def)

lemma match_step_same: "match_step g m = Some m' \<Longrightarrow> same_subs m m'"
  using tryFall_same [of g "m\<lparr>m_tickN := m_tickN m + 1, m_fallTick := m_fallTick m - 1\<rparr>"]
  by (auto simp: match_step_def Let_def split: if_splits) (simp add: same_subs_def)

lemma hardDrop_same: "hardDrop g m = Some m' \<Longrightarrow> same_subs m m'"
  by (auto simp: hardDrop_def split: bind_splits dest!: lockPiece_same)

lemma handleInput_same:
  assumes "handleInput g action m = Some m'" shows "same_subs m m'"
proof (cases "action = ActionHardDrop \<or> m_gameOver m")
  case True
  then show ?thesis using assms hardDrop_same match_reset_same
    by (auto simp: handleInput_def Let_def ActionHardDrop_def ActionPause_def ActionRestart_def ActionLeft_def ActionRight_def
        ActionRotate_def ActionSoftDrop_def ActionSoftDropEnd_def same_subs_def split: if_splits)
next
  case False
  then show ?thesis using assms
    by (auto simp: handleInput_def tryShift_def Let_def same_subs_def split: if_splits)
qed

lemma Tick_subs:
  assumes "Match_Receive g (Tick t) (m\<lparr>m_outbox := []\<rparr>) = Some m'"
  shows "m_subs m' = m_subs m \<and> m_hadSubscriber m' = m_hadSubscriber m \<and> ShutdownMatch \<notin> set (m_outbox m')"
proof -
  obtain m1 where m1: "(if \<not> m_gameOver m \<and> \<not> m_paused m then match_step g (m\<lparr>m_outbox := []\<rparr>) else Some (m\<lparr>m_outbox := []\<rparr>)) = Some m1"
    and b: "broadcast t m1 = Some m'"
    using assms by (auto simp: Match_Receive_def split: bind_splits)
  have "same_subs (m\<lparr>m_outbox := []\<rparr>) m1" using m1 match_step_same by (auto split: if_splits)
  moreover have "m_subs (fold (\<lambda>s. m_emit (TellSnapshot s snap)) ss x) = m_subs x \<and>
      m_hadSubscriber (fold (\<lambda>s. m_emit (TellSnapshot s snap)) ss x) = m_hadSubscriber x \<and>
      (ShutdownMatch \<in> set (m_outbox (fold (\<lambda>s. m_emit (TellSnapshot s snap)) ss x)) \<longleftrightarrow> ShutdownMatch \<in> set (m_outbox x))"
    for ss snap x
    by (induction ss arbitrary: x) (simp_all add: m_emit_def)
  ultimately show ?thesis using b by (auto simp: broadcast_def Let_def same_subs_def split: bind_splits)
qed

lemma Input_subs:
  assumes "Match_Receive g (MatchInput a) (m\<lparr>m_outbox := []\<rparr>) = Some m'"
  shows "m_subs m' = m_subs m \<and> m_hadSubscriber m' = m_hadSubscriber m \<and> ShutdownMatch \<notin> set (m_outbox m')"
  using handleInput_same [of g a "m\<lparr>m_outbox := []\<rparr>" m'] assms by (simp add: Match_Receive_def same_subs_def)

section \<open>Subscriptions in flight\<close>

fun is_subscribe :: "match_msg \<Rightarrow> bool" where
  "is_subscribe (Subscribe p) = True"
| "is_subscribe _ = False"

text \<open>The session subscribes once: the message is due, on its way, or has arrived.\<close>

definition subscriptions :: "Conn \<Rightarrow> nat" where
  "subscriptions c = length (filter (\<lambda>m. m = SessPostStart) (cn_inbox c)) + length (filter is_subscribe (cn_from_sess c)) +
     (if m_hadSubscriber (cn_match c) then 1 else 0)"

definition conn_inv :: "Conn \<Rightarrow> bool" where
  "conn_inv c \<longleftrightarrow> subscriptions c \<le> 1 \<and> (m_subs (cn_match c) \<noteq> [] \<longrightarrow> m_hadSubscriber (cn_match c)) \<and>
     (\<forall>m \<in> set (cn_from_sess c). (\<exists>a. m = MatchInput a) \<or> m = Subscribe (cn_pid c) \<or> m = MatchTerminated (pid_path (cn_pid c))) \<and>
     (\<forall>m \<in> set (cn_from_gw c). m = Unsubscribe (pid_name (cn_pid c))) \<and>
     (\<forall>e \<in> set (cn_todo c). e \<in> {GwTellMatch (Unsubscribe (pid_name (cn_pid c))), GwTellSession SessClosed, GwClose []} \<or>
        (\<exists>a. e = GwTellSession (SessInput a)))"

lemma filter_snapshots [simp]: "filter (\<lambda>m. m = SessPostStart) (snapshots es) = []"
  by (induction es) (auto simp: snapshots_def List.map_filter_def split: match_effect.splits)

lemma session_exec_cases:
  "session_exec ok msg c =
     (case msg of
        SessPostStart \<Rightarrow> c\<lparr>cn_from_sess := cn_from_sess c @ [Subscribe (cn_pid c)]\<rparr>
      | SessInput a \<Rightarrow> c\<lparr>cn_from_sess := cn_from_sess c @ [MatchInput a]\<rparr>
      | SessOther \<Rightarrow> c
      | _ \<Rightarrow> if msg \<noteq> SessClosed \<and> ok then c
             else c\<lparr>cn_sess := False, cn_inbox := [],
                    cn_from_sess := cn_from_sess c @
                      (if \<not> cn_remote c \<and> cn_pid c \<in> set (m_subs (cn_match c)) then [MatchTerminated (pid_path (cn_pid c))] else [])\<rparr>)"
  by (cases msg) (simp_all add: session_exec_def Session_Receive_def tells_def List.map_filter_def)

text \<open>What each message does to the subscribers of the match.\<close>

lemma Subscribe_subs:
  "Match_Receive g (Subscribe p) (m\<lparr>m_outbox := []\<rparr>) = Some m' \<Longrightarrow>
   m_subs m' = m_subs m @ [p] \<and> m_hadSubscriber m' \<and> ShutdownMatch \<notin> set (m_outbox m')"
  by (auto simp: Match_Receive_def m_emit_def)

lemma Unsubscribe_subs:
  assumes "Match_Receive g (Unsubscribe n) (m\<lparr>m_outbox := []\<rparr>) = Some m'"
  shows "m_hadSubscriber m' = m_hadSubscriber m" and "set (m_subs m') \<subseteq> set (m_subs m)"
    and "m_subs m = [p] \<Longrightarrow> pid_name p = n \<Longrightarrow> m_hadSubscriber m \<Longrightarrow> ShutdownMatch \<in> set (m_outbox m')"
    and "m_hadSubscriber m = False \<Longrightarrow> ShutdownMatch \<notin> set (m_outbox m')"
  using assms set_remove_at_subset
  by (fastforce simp: Match_Receive_def m_maybeShutdown_def removeSubscriberByName_def m_emit_def remove_at_def split: option.splits if_splits)+

lemma Terminated_subs:
  assumes "Match_Receive g (MatchTerminated path) (m\<lparr>m_outbox := []\<rparr>) = Some m'"
  shows "m_hadSubscriber m' = m_hadSubscriber m" and "set (m_subs m') \<subseteq> set (m_subs m)"
    and "m_subs m = [p] \<Longrightarrow> pid_path p = path \<Longrightarrow> m_hadSubscriber m \<Longrightarrow> ShutdownMatch \<in> set (m_outbox m')"
  using assms set_remove_at_subset
  by (fastforce simp: Match_Receive_def m_maybeShutdown_def removeSubscriberByPath_def m_emit_def remove_at_def split: option.splits if_splits)+

lemma match_deliver_Some:
  assumes "match_deliver g msg c = Some c'"
  obtains m where "Match_Receive g msg ((cn_match c)\<lparr>m_outbox := []\<rparr>) = Some m"
    "c' = c\<lparr>cn_match := m, cn_up := ShutdownMatch \<notin> set (m_outbox m), cn_inbox := cn_inbox c @ snapshots (m_outbox m)\<rparr>"
  using assms by (auto simp: match_deliver_def)

lemma gateway_inv:
  assumes "conn_inv c" and "cn_todo c = e # es"
  shows "conn_inv (gw_exec e (c\<lparr>cn_todo := es\<rparr>))"
proof -
  from assms consider "e = GwTellMatch (Unsubscribe (pid_name (cn_pid c)))" | "e = GwTellSession SessClosed" | "e = GwClose []"
    | a where "e = GwTellSession (SessInput a)" by (auto simp: conn_inv_def)
  then show ?thesis using assms by cases (auto simp: conn_inv_def subscriptions_def)
qed

lemma session_inv:
  assumes "conn_inv c" and "cn_inbox c = msg # ms"
  shows "conn_inv (session_exec ok msg (c\<lparr>cn_inbox := ms\<rparr>))"
  using assms by (cases msg) (auto simp: conn_inv_def subscriptions_def session_exec_cases)

text \<open>A message that keeps the record of subscribers, or only removes some, keeps the invariant.\<close>

lemma deliver_inv:
  assumes "conn_inv c" and "match_deliver g msg c = Some c'"
    and "\<And>m. Match_Receive g msg ((cn_match c)\<lparr>m_outbox := []\<rparr>) = Some m \<Longrightarrow>
       m_hadSubscriber m = m_hadSubscriber (cn_match c) \<and> set (m_subs m) \<subseteq> set (m_subs (cn_match c))"
  shows "conn_inv c'"
proof -
  from assms(2) obtain m where m: "Match_Receive g msg ((cn_match c)\<lparr>m_outbox := []\<rparr>) = Some m"
    and c': "c' = c\<lparr>cn_match := m, cn_up := ShutdownMatch \<notin> set (m_outbox m), cn_inbox := cn_inbox c @ snapshots (m_outbox m)\<rparr>"
    by (rule match_deliver_Some)
  show ?thesis using assms(1) assms(3) [OF m] by (auto simp: conn_inv_def subscriptions_def c')
qed

lemma conn_inv_less:
  "conn_inv c \<Longrightarrow> cn_from_sess c = m # ms \<Longrightarrow> conn_inv (c\<lparr>cn_from_sess := ms\<rparr>)"
  "conn_inv c \<Longrightarrow> cn_from_gw c = m # ms \<Longrightarrow> conn_inv (c\<lparr>cn_from_gw := ms\<rparr>)"
  by (auto simp: conn_inv_def subscriptions_def split: if_splits)

lemma subscribe_inv:
  assumes "conn_inv c" and "cn_from_sess c = Subscribe p # ms" and "match_deliver g (Subscribe p) (c\<lparr>cn_from_sess := ms\<rparr>) = Some c'"
  shows "conn_inv c'"
proof -
  from assms(3) obtain m where m: "Match_Receive g (Subscribe p) ((cn_match (c\<lparr>cn_from_sess := ms\<rparr>))\<lparr>m_outbox := []\<rparr>) = Some m"
    and c': "c' = c\<lparr>cn_from_sess := ms, cn_match := m, cn_up := ShutdownMatch \<notin> set (m_outbox m), cn_inbox := cn_inbox c @ snapshots (m_outbox m)\<rparr>"
    by (rule match_deliver_Some) simp
  show ?thesis using assms(1,2) Subscribe_subs [OF m] by (auto simp: conn_inv_def subscriptions_def c')
qed

lemma conn_step_inv: "conn_step c c' \<Longrightarrow> conn_inv c \<Longrightarrow> conn_inv c'"
proof (induction rule: conn_step.induct)
  case (from_session c msg ms g c')
  note less = conn_inv_less(1) [OF from_session.prems from_session.hyps(2)]
  from from_session.prems from_session.hyps(2)
  consider a where "msg = MatchInput a" | "msg = Subscribe (cn_pid c)" | "msg = MatchTerminated (pid_path (cn_pid c))"
    by (auto simp: conn_inv_def)
  then show ?case
  proof cases
    case 1
    from less from_session.hyps(3) show ?thesis unfolding 1 by (rule deliver_inv) (simp add: Input_subs)
  next
    case 2
    from from_session.prems from_session.hyps(2,3) show ?thesis unfolding 2 by (rule subscribe_inv)
  next
    case 3
    from less from_session.hyps(3) show ?thesis unfolding 3 by (rule deliver_inv) (simp add: Terminated_subs(1,2))
  qed
next
  case (from_gateway c msg ms g c')
  then have msg: "msg = Unsubscribe (pid_name (cn_pid c))" by (simp add: conn_inv_def)
  from conn_inv_less(2) [OF from_gateway.prems from_gateway.hyps(2)] from_gateway.hyps(3) show ?case
    unfolding msg by (rule deliver_inv) (simp add: Unsubscribe_subs(1,2))
next
  case (tick c g t c')
  from tick.prems tick.hyps(2) show ?case by (rule deliver_inv) (simp add: Tick_subs)
qed (simp_all add: gateway_inv session_inv)

lemma conn_run_inv: "conn_step\<^sup>*\<^sup>* c c' \<Longrightarrow> conn_inv c \<Longrightarrow> conn_inv c'"
  by (induction rule: rtranclp_induct) (auto intro: conn_step_inv)

lemma conn_step_pid: "conn_step c c' \<Longrightarrow> cn_pid c' = cn_pid c \<and> cn_remote c' = cn_remote c"
proof (induction rule: conn_step.induct)
  case (gateway c e es)
  then show ?case by (cases e) simp_all
next
  case (session c msg ms ok)
  then show ?case by (cases msg) (simp_all add: session_exec_cases)
qed (auto simp: match_deliver_def)

section \<open>When the connection ends\<close>

text \<open>A match that runs has its session as the only subscriber, and is going to be told when it leaves.\<close>

definition registered :: "Conn \<Rightarrow> bool" where
  "registered c \<longleftrightarrow> (cn_up c \<longrightarrow> m_subs (cn_match c) = [cn_pid c] \<and> m_hadSubscriber (cn_match c) \<and>
     (GwTellMatch (Unsubscribe (pid_name (cn_pid c))) \<in> set (cn_todo c) \<or> Unsubscribe (pid_name (cn_pid c)) \<in> set (cn_from_gw c)))"

lemma deliver_registered:
  assumes "registered c" and "cn_up c" and "match_deliver g msg c = Some c'"
    and "\<And>m. Match_Receive g msg ((cn_match c)\<lparr>m_outbox := []\<rparr>) = Some m \<Longrightarrow>
       m_subs m = m_subs (cn_match c) \<and> m_hadSubscriber m = m_hadSubscriber (cn_match c) \<or> ShutdownMatch \<in> set (m_outbox m)"
  shows "registered c'"
proof -
  from assms(3) obtain m where m: "Match_Receive g msg ((cn_match c)\<lparr>m_outbox := []\<rparr>) = Some m"
    and c': "c' = c\<lparr>cn_match := m, cn_up := ShutdownMatch \<notin> set (m_outbox m), cn_inbox := cn_inbox c @ snapshots (m_outbox m)\<rparr>"
    by (rule match_deliver_Some)
  show ?thesis using assms(1,2) assms(4) [OF m] by (auto simp: registered_def c')
qed

lemma conn_step_registered: "conn_step c c' \<Longrightarrow> conn_inv c \<Longrightarrow> registered c \<Longrightarrow> registered c'"
proof (induction rule: conn_step.induct)
  case (gateway c e es)
  then show ?case by (cases e) (auto simp: registered_def)
next
  case (session c msg ms ok)
  then show ?case by (cases msg) (simp_all add: registered_def session_exec_cases)
next
  case (from_session c msg ms g c')
  have r: "registered (c\<lparr>cn_from_sess := ms\<rparr>)" using from_session.prems(2) by (simp add: registered_def)
  have up: "cn_up (c\<lparr>cn_from_sess := ms\<rparr>)" using from_session.hyps(1) by simp
  have sub: "m_subs (cn_match c) = [cn_pid c]" "m_hadSubscriber (cn_match c)"
    using from_session.prems(2) from_session.hyps(1) by (simp_all add: registered_def)
  then have "\<not> is_subscribe msg" using from_session.prems(1) from_session.hyps(2) by (auto simp: conn_inv_def subscriptions_def)
  then consider a where "msg = MatchInput a" | "msg = MatchTerminated (pid_path (cn_pid c))"
    using from_session.prems(1) from_session.hyps(2) by (auto simp: conn_inv_def)
  then show ?case
  proof cases
    case 1
    from r up from_session.hyps(3) show ?thesis unfolding 1 by (rule deliver_registered) (simp add: Input_subs)
  next
    case 2
    from r up from_session.hyps(3) show ?thesis
      unfolding 2 by (rule deliver_registered) (use sub in \<open>simp add: Terminated_subs(3)\<close>)
  qed
next
  case (from_gateway c msg ms g c')
  have msg: "msg = Unsubscribe (pid_name (cn_pid c))" using from_gateway.prems(1) from_gateway.hyps(2) by (simp add: conn_inv_def)
  have sub: "m_subs (cn_match c) = [cn_pid c]" "m_hadSubscriber (cn_match c)"
    using from_gateway.prems(2) from_gateway.hyps(1) by (simp_all add: registered_def)
  from from_gateway.hyps(3) obtain m where
    m: "Match_Receive g msg ((cn_match c)\<lparr>m_outbox := []\<rparr>) = Some m" and c': "cn_up c' = (ShutdownMatch \<notin> set (m_outbox m))"
    by (rule match_deliver_Some) simp
  then show ?case using Unsubscribe_subs(3) [OF m [unfolded msg] sub(1) refl sub(2)] by (simp add: registered_def)
next
  case (tick c g t c')
  from tick.prems(2) tick.hyps(1,2) show ?case by (rule deliver_registered) (simp add: Tick_subs)
qed

lemma conn_run_registered:
  "conn_step\<^sup>*\<^sup>* c c' \<Longrightarrow> conn_inv c \<Longrightarrow> registered c \<Longrightarrow> conn_inv c' \<and> registered c'"
  by (induction rule: rtranclp_induct) (auto intro: conn_step_inv conn_step_registered)

lemma conn_run_pid: "conn_step\<^sup>*\<^sup>* c c' \<Longrightarrow> cn_pid c' = cn_pid c"
  by (induction rule: rtranclp_induct) (auto dest: conn_step_pid)

lemma conn_start_inv:
  assumes "m_subs m = []" and "\<not> m_hadSubscriber m" and "pid_name p = sessionActorPrefix @ uuid"
  shows "conn_inv (conn_start p remote m (wsHandler (Inr q) uuid None frames))"
proof -
  have "\<forall>e \<in> set (concat (map read_frame frames)). \<exists>a. e = GwTellSession (SessInput a)"
    by (auto simp: read_frame_def split: sum.splits if_splits)
  then show ?thesis using assms
    by (auto simp: conn_inv_def subscriptions_def conn_start_def wsHandler_def teardown_def split: prod.split)
qed

text \<open>A match whose session has gone, with nothing on its way to it, only ticks.\<close>

definition orphaned :: "Conn \<Rightarrow> bool" where
  "orphaned c \<longleftrightarrow> cn_up c \<and> \<not> cn_sess c \<and> cn_todo c = [] \<and> cn_from_sess c = [] \<and> cn_from_gw c = [] \<and>
     m_subs (cn_match c) = [cn_pid c]"

lemma orphaned_step: "conn_step c c' \<Longrightarrow> orphaned c \<Longrightarrow> orphaned c'"
  by (induction rule: conn_step.induct) (auto simp: orphaned_def match_deliver_def dest!: Tick_subs)

lemma orphaned_run: "conn_step\<^sup>*\<^sup>* c c' \<Longrightarrow> orphaned c \<Longrightarrow> orphaned c'"
  by (induction rule: rtranclp_induct) (auto intro: orphaned_step)

section \<open>Properties\<close>

text \<open>
  C25: a match does not outlive its player once it knows him. Whatever the player sends and in whatever order the
  gateway, the session and the match act: from any state in which the match has registered the session
  and the connection has not ended, as soon as the gateway has torn the connection down and its message to the
  match has arrived, the match has stopped.
\<close>

theorem left_match_stops:
  assumes "m_subs m = []" and "\<not> m_hadSubscriber m" and "pid_name p = sessionActorPrefix @ uuid"
    and "conn_step\<^sup>*\<^sup>* (conn_start p remote m (wsHandler (Inr q) uuid None frames)) c"
    and "m_subs (cn_match c) = [p]" and "GwTellMatch (Unsubscribe (pid_name p)) \<in> set (cn_todo c)"
    and "conn_step\<^sup>*\<^sup>* c c'" and "cn_todo c' = []" and "cn_from_gw c' = []"
  shows "\<not> cn_up c'"
proof -
  have inv: "conn_inv c" using conn_run_inv [OF assms(4) conn_start_inv [OF assms(1-3)]] .
  have "cn_pid c = p" using conn_run_pid [OF assms(4)] by (simp add: conn_start_def)
  then have "registered c" using assms(5,6) inv by (simp add: registered_def conn_inv_def)
  with conn_run_registered [OF assms(7) inv] assms(8,9) show ?thesis by (auto simp: registered_def)
qed

text \<open>
  C38: a player who leaves at once can leave a match behind that never stops. The session subscribes when it
  starts, the gateway unsubscribes it when the connection ends, and nothing orders the two messages: if the
  match gets them in the wrong order, and the session has stopped by then, the match ticks for ever and sends
  its snapshots to nobody.
\<close>

theorem early_leaver_orphans_match:
  assumes "m_subs m = []" and "\<not> m_hadSubscriber m" and "pid_name p = sessionActorPrefix @ uuid"
  shows "\<exists>c. conn_step\<^sup>*\<^sup>* (conn_start p True m (wsHandler (Inr q) uuid None [])) c \<and> cn_todo c = [] \<and> \<not> cn_sess c \<and>
     (\<forall>c'. conn_step\<^sup>*\<^sup>* c c' \<longrightarrow> cn_up c' \<and> m_subs (cn_match c') = [p])"
proof -
  let ?un = "GwTellMatch (Unsubscribe (pid_name p))"
  define c0 where "c0 = conn_start p True m [?un, GwTellSession SessClosed, GwClose []]"
  let ?m = "m\<lparr>m_outbox := []\<rparr>"
  let ?c1 = "c0\<lparr>cn_todo := [GwTellSession SessClosed, GwClose []], cn_from_gw := [Unsubscribe (pid_name p)]\<rparr>"
  let ?c2 = "?c1\<lparr>cn_from_gw := [], cn_match := ?m\<rparr>"
  let ?c3 = "?c2\<lparr>cn_todo := [GwClose []], cn_inbox := [SessPostStart, SessClosed]\<rparr>"
  let ?c4 = "?c3\<lparr>cn_todo := []\<rparr>"
  let ?c5 = "?c4\<lparr>cn_inbox := [SessClosed], cn_from_sess := [Subscribe p]\<rparr>"
  let ?c6 = "?c5\<lparr>cn_sess := False, cn_inbox := []\<rparr>"
  let ?m' = "m_emit (Watch p) (?m\<lparr>m_subs := [p], m_hadSubscriber := True\<rparr>)"
  let ?c7 = "?c6\<lparr>cn_from_sess := [], cn_match := ?m'\<rparr>"
  note start = c0_def conn_start_def
  have "conn_step c0 ?c1" using conn_step.gateway [of c0 ?un] by (simp add: start)
  moreover have "match_deliver g (Unsubscribe (pid_name p)) (?c1\<lparr>cn_from_gw := []\<rparr>) = Some ?c2" for g
    using assms(1,2) by (simp add: start match_deliver_def Match_Receive_def m_maybeShutdown_def removeSubscriberByName_def snapshots_def List.map_filter_def)
  then have "conn_step ?c1 ?c2" using conn_step.from_gateway [of ?c1 "Unsubscribe (pid_name p)" "[]"] by (simp add: start)
  moreover have "conn_step ?c2 ?c3" using conn_step.gateway [of ?c2 "GwTellSession SessClosed"] by (simp add: start)
  moreover have "conn_step ?c3 ?c4" using conn_step.gateway [of ?c3 "GwClose []"] by (simp add: start)
  moreover have "conn_step ?c4 ?c5" using conn_step.session [of ?c4 SessPostStart "[SessClosed]" True] by (simp add: start session_exec_cases)
  moreover have "conn_step ?c5 ?c6" using conn_step.session [of ?c5 SessClosed "[]" True] by (simp add: start session_exec_cases)
  moreover have "match_deliver g (Subscribe p) (?c6\<lparr>cn_from_sess := []\<rparr>) = Some ?c7" for g
    using assms(1) by (simp add: start match_deliver_def Match_Receive_def m_emit_def snapshots_def List.map_filter_def)
  then have "conn_step ?c6 ?c7" using conn_step.from_session [of ?c6 "Subscribe p" "[]"] by (simp add: start)
  ultimately have run: "conn_step\<^sup>*\<^sup>* c0 ?c7" by (meson converse_rtranclp_into_rtranclp rtranclp.rtrancl_refl)
  have orphan: "orphaned ?c7" by (simp add: orphaned_def start m_emit_def)
  have "cn_up c' \<and> m_subs (cn_match c') = [p]" if "conn_step\<^sup>*\<^sup>* ?c7 c'" for c'
    using orphaned_run [OF that orphan] conn_run_pid [OF that] by (simp add: orphaned_def start)
  moreover have "wsHandler (Inr q) uuid None [] = [?un, GwTellSession SessClosed, GwClose []]"
    using assms(3) by (cases q) (simp add: wsHandler_def teardown_def)
  ultimately show ?thesis using run by (intro exI [of _ ?c7]) (simp add: start)
qed

theorem early_leaver_orphans_match_witness:
  "\<exists>c. conn_step\<^sup>*\<^sup>* (conn_start \<lparr>pid_name = ''session.1'', pid_path = ''/a/session.1''\<rparr> True newMatch
       (wsHandler (Inr (''m'', ''match.1'')) ''1'' None [])) c \<and> cn_todo c = [] \<and> \<not> cn_sess c \<and>
     (\<forall>c'. conn_step\<^sup>*\<^sup>* c c' \<longrightarrow> cn_up c' \<and> m_subs (cn_match c') = [\<lparr>pid_name = ''session.1'', pid_path = ''/a/session.1''\<rparr>])"
  by (rule early_leaver_orphans_match) (simp_all add: newMatch_def sessionActorPrefix_def)

text \<open>A player who connects, is registered, and leaves.\<close>

theorem left_match_stops_witness:
  "\<exists>c c'. conn_step\<^sup>*\<^sup>* (conn_start \<lparr>pid_name = ''session.1'', pid_path = ''/a/session.1''\<rparr> True newMatch
       (wsHandler (Inr (''m'', ''match.1'')) ''1'' None [])) c \<and> cn_up c \<and> conn_step\<^sup>*\<^sup>* c c' \<and> \<not> cn_up c'"
proof -
  let ?p = "\<lparr>pid_name = ''session.1'', pid_path = ''/a/session.1''\<rparr>"
  let ?un = "Unsubscribe (pid_name ?p)"
  define c0 where "c0 = conn_start ?p True newMatch [GwTellMatch ?un, GwTellSession SessClosed, GwClose []]"
  let ?m = "m_emit (Watch ?p) (newMatch\<lparr>m_subs := [?p], m_hadSubscriber := True\<rparr>)"
  let ?c1 = "c0\<lparr>cn_inbox := [], cn_from_sess := [Subscribe ?p]\<rparr>"
  let ?c2 = "?c1\<lparr>cn_from_sess := [], cn_match := ?m\<rparr>"
  let ?c3 = "?c2\<lparr>cn_todo := [GwTellSession SessClosed, GwClose []], cn_from_gw := [?un]\<rparr>"
  let ?c4 = "?c3\<lparr>cn_todo := [GwClose []], cn_inbox := [SessClosed]\<rparr>"
  let ?c5 = "?c4\<lparr>cn_todo := []\<rparr>"
  let ?m6 = "m_emit ShutdownMatch (?m\<lparr>m_outbox := [], m_subs := []\<rparr>)"
  let ?c6 = "?c5\<lparr>cn_from_gw := [], cn_match := ?m6, cn_up := False\<rparr>"
  note start = c0_def conn_start_def newMatch_def m_emit_def
  have "conn_step c0 ?c1" using conn_step.session [of c0 SessPostStart "[]" True] by (simp add: start session_exec_cases)
  moreover have "match_deliver g (Subscribe ?p) (?c1\<lparr>cn_from_sess := []\<rparr>) = Some ?c2" for g
    by (simp add: start match_deliver_def Match_Receive_def snapshots_def List.map_filter_def)
  then have "conn_step ?c1 ?c2" using conn_step.from_session [of ?c1 "Subscribe ?p" "[]"] by (simp add: start)
  ultimately have run: "conn_step\<^sup>*\<^sup>* c0 ?c2" by (meson converse_rtranclp_into_rtranclp rtranclp.rtrancl_refl)
  have "conn_step ?c2 ?c3" using conn_step.gateway [of ?c2 "GwTellMatch ?un"] by (simp add: start)
  moreover have "conn_step ?c3 ?c4" using conn_step.gateway [of ?c3 "GwTellSession SessClosed"] by (simp add: start)
  moreover have "conn_step ?c4 ?c5" using conn_step.gateway [of ?c4 "GwClose []"] by (simp add: start)
  moreover have "match_deliver g ?un (?c5\<lparr>cn_from_gw := []\<rparr>) = Some ?c6" for g
    by (simp add: start match_deliver_def Match_Receive_def m_maybeShutdown_def removeSubscriberByName_def remove_at_def snapshots_def
        List.map_filter_def)
  then have "conn_step ?c5 ?c6" using conn_step.from_gateway [of ?c5 ?un "[]"] by (simp add: start)
  ultimately have run': "conn_step\<^sup>*\<^sup>* ?c2 ?c6" by (meson converse_rtranclp_into_rtranclp rtranclp.rtrancl_refl)
  have ws: "wsHandler (Inr (''m'', ''match.1'')) ''1'' None [] = [GwTellMatch ?un, GwTellSession SessClosed, GwClose []]"
    by (simp add: wsHandler_def teardown_def sessionActorPrefix_def)
  have "\<not> cn_up ?c6"
    using run run' by (intro left_match_stops [of newMatch ?p "''1''" True "(''m'', ''match.1'')" "[]" ?c2 ?c6])
      (simp_all add: ws c0_def [symmetric], simp_all add: start sessionActorPrefix_def)
  moreover have "cn_up ?c2" by (simp add: start)
  ultimately show ?thesis using run run' unfolding ws c0_def [symmetric] by blast
qed

end
