(* ===== verification/Sha256_Example.thy ===== *)
theory Sha256_Example
  imports Sha256
begin

text \<open>
  The evaluation of the digest by the simplifier, with the words kept below \<open>2 ^ 32\<close> after each
  operation, and the digest of the message \<^verbatim>\<open>172608\<close>: the proof 72608 is valid for the genesis block.
\<close>

definition norm32 :: "32 word \<Rightarrow> 32 word" where
  "norm32 x = x"

lemma norm32_numeral: "norm32 (numeral n) = word_of_int (numeral n mod 4294967296)"
proof -
  have "(4294967296 :: int) = 2 ^ LENGTH(32)" by simp
  then show ?thesis
    unfolding norm32_def by (metis take_bit_eq_mod take_bit_of_int word_of_int_numeral take_bit_length_eq)
qed

lemma norm32_num: "norm32 0 = 0" "norm32 1 = 1"
  by (simp_all add: norm32_def)

lemma sha_round_eval:
  "sha_round (k, w) (a, b, c, d, e, f, g, h) =
     (let t1 = norm32 (h + (rotr 6 e XOR rotr 11 e XOR rotr 25 e) + ((e AND f) XOR (NOT e AND g)) + k + w);
          t2 = norm32 ((rotr 2 a XOR rotr 13 a XOR rotr 22 a) + ((a AND b) XOR (a AND c) XOR (b AND c)))
      in (norm32 (t1 + t2), a, b, c, norm32 (d + t1), e, f, g))"
  by (simp add: norm32_def Let_def)

lemma rotr_eval: "rotr n x = norm32 (drop_bit n x OR push_bit (32 - n) x)"
  by (simp add: rotr_def norm32_def)

lemmas sha_eval = norm32_numeral norm32_num rotr_eval sha_round_eval

lemma words_172608:
  "sha_words (sha_pad (map of_char ''172608'')) =
     [0x31373236, 0x30388000, 0, 0, 0, 0, 0, 0, 0, 0, 0, 0, 0, 0, 0, 48]"
proof -
  have "sha_words (sha_pad (map of_char ''172608'')) =
     [822083584 OR 3604480 OR 12800 OR 54, 805306368 OR 3670016 OR 32768 OR 0, 0, 0, 0, 0, 0, 0, 0, 0, 0, 0, 0, 0, 0, 48]"
    by code_simp
  then show ?thesis by simp
qed

definition next_word :: "32 word \<Rightarrow> 32 word \<Rightarrow> 32 word \<Rightarrow> 32 word \<Rightarrow> 32 word" where
  "next_word u v x y =
     norm32 ((rotr 17 v XOR rotr 19 v XOR drop_bit 10 v) + x + (rotr 7 u XOR rotr 18 u XOR drop_bit 3 u) + y)"

lemma schedule_step:
  "sha_schedule (Suc n) (x0 # x1 # x2 # x3 # x4 # x5 # x6 # x7 # x8 # x9 # x10 # x11 # x12 # x13 # x14 # x15 # xs) =
   sha_schedule n (next_word x14 x1 x6 x15 # x0 # x1 # x2 # x3 # x4 # x5 # x6 # x7 # x8 # x9 # x10 # x11 # x12 # x13 # x14 # x15 # xs)"
  by (simp add: next_word_def norm32_def Let_def)

lemma next_words_172608:
  "next_word 0x30388000 0 0 0x31373236 = 0x579e9f44"
  "next_word 0 48 0 0x30388000 = 0x30568000"
  "next_word 0 0x579e9f44 0 0 = 0x9c5f469b"
  "next_word 0 0x30568000 0 0 = 0x900c0b81"
  "next_word 0 0x9c5f469b 0 0 = 0x4bb9aa75"
  "next_word 0 0x900c0b81 0 0 = 0x8494f905"
  "next_word 0 0x4bb9aa75 48 0 = 0xe066e2f1"
  "next_word 0 0x8494f905 0x579e9f44 0 = 0x3b21f72a"
  "next_word 0 0xe066e2f1 0x30568000 0 = 0xdd755587"
  "next_word 0 0x3b21f72a 0x9c5f469b 0 = 0x61ddd924"
  "next_word 0 0xdd755587 0x900c0b81 0 = 0x905053c2"
  "next_word 0 0x61ddd924 0x4bb9aa75 0 = 0xa3687618"
  "next_word 0 0x905053c2 0x8494f905 0 = 0xa852073b"
  "next_word 0 0xa3687618 0xe066e2f1 0 = 0x164e82b5"
  "next_word 48 0xa852073b 0x3b21f72a 0 = 0xde7eacd2"
  "next_word 0x579e9f44 0x164e82b5 0xdd755587 48 = 0x940d0b36"
  "next_word 0x30568000 0xde7eacd2 0x61ddd924 0x579e9f44 = 0xe3ab94d8"
  "next_word 0x9c5f469b 0x940d0b36 0x905053c2 0x30568000 = 0xda9520d0"
  "next_word 0x900c0b81 0xe3ab94d8 0xa3687618 0x9c5f469b = 0x0c59415c"
  "next_word 0x4bb9aa75 0xda9520d0 0xa852073b 0x900c0b81 = 0xf61ffb00"
  "next_word 0x8494f905 0x0c59415c 0x164e82b5 0x4bb9aa75 = 0x10699718"
  "next_word 0xe066e2f1 0xf61ffb00 0xde7eacd2 0x8494f905 = 0xad61f18b"
  "next_word 0x3b21f72a 0x10699718 0x940d0b36 0xe066e2f1 = 0x9cb7f246"
  "next_word 0xdd755587 0xad61f18b 0xe3ab94d8 0x3b21f72a = 0x27233ea8"
  "next_word 0x61ddd924 0x9cb7f246 0xda9520d0 0xdd755587 = 0xf2083f69"
  "next_word 0x905053c2 0x27233ea8 0x0c59415c 0x61ddd924 = 0xea9a0905"
  "next_word 0xa3687618 0xf2083f69 0xf61ffb00 0x905053c2 = 0xd7838b01"
  "next_word 0xa852073b 0xea9a0905 0x10699718 0xa3687618 = 0xdcff0ac9"
  "next_word 0x164e82b5 0xd7838b01 0xad61f18b 0xa852073b = 0xd2d13359"
  "next_word 0xde7eacd2 0xdcff0ac9 0x9cb7f246 0x164e82b5 = 0x2c58fe79"
  "next_word 0x940d0b36 0xd2d13359 0x27233ea8 0xde7eacd2 = 0x02f9716b"
  "next_word 0xe3ab94d8 0x2c58fe79 0xf2083f69 0x940d0b36 = 0x2f920d8f"
  "next_word 0xda9520d0 0x02f9716b 0xea9a0905 0xe3ab94d8 = 0x57b1b65a"
  "next_word 0x0c59415c 0x2f920d8f 0xd7838b01 0xda9520d0 = 0xe35adc48"
  "next_word 0xf61ffb00 0x57b1b65a 0xdcff0ac9 0x0c59415c = 0xb93bd679"
  "next_word 0x10699718 0xe35adc48 0xd2d13359 0xf61ffb00 = 0x5672cfa1"
  "next_word 0xad61f18b 0xb93bd679 0x2c58fe79 0x10699718 = 0x4d34516a"
  "next_word 0x9cb7f246 0x5672cfa1 0x02f9716b 0xad61f18b = 0x50cab6bb"
  "next_word 0x27233ea8 0x4d34516a 0x2f920d8f 0x9cb7f246 = 0x09d54a5d"
  "next_word 0xf2083f69 0x50cab6bb 0x57b1b65a 0x27233ea8 = 0x4ef350e4"
  "next_word 0xea9a0905 0x09d54a5d 0xe35adc48 0xf2083f69 = 0x76917bc7"
  "next_word 0xd7838b01 0x4ef350e4 0xb93bd679 0xea9a0905 = 0x61f1f587"
  "next_word 0xdcff0ac9 0x76917bc7 0x5672cfa1 0xd7838b01 = 0x0b11b4d9"
  "next_word 0xd2d13359 0x61f1f587 0x4d34516a 0xdcff0ac9 = 0xd3c86da7"
  "next_word 0x2c58fe79 0x0b11b4d9 0x50cab6bb 0xd2d13359 = 0xd8df2fc0"
  "next_word 0x02f9716b 0xd3c86da7 0x09d54a5d 0x2c58fe79 = 0xfb8246cd"
  "next_word 0x2f920d8f 0xd8df2fc0 0x4ef350e4 0x02f9716b = 0x5ce9b15c"
  "next_word 0x57b1b65a 0xfb8246cd 0x76917bc7 0x2f920d8f = 0xe574ebc1"
  by (simp_all add: sha_eval next_word_def)

lemma schedule_172608:
  "sha_schedule 48 (rev [0x31373236, 0x30388000, 0, 0, 0, 0, 0, 0, 0, 0, 0, 0, 0, 0, 0, 48]) =
    [0xe574ebc1, 0x5ce9b15c, 0xfb8246cd, 0xd8df2fc0, 0xd3c86da7, 0x0b11b4d9, 0x61f1f587, 0x76917bc7,
      0x4ef350e4, 0x09d54a5d, 0x50cab6bb, 0x4d34516a, 0x5672cfa1, 0xb93bd679, 0xe35adc48, 0x57b1b65a,
      0x2f920d8f, 0x02f9716b, 0x2c58fe79, 0xd2d13359, 0xdcff0ac9, 0xd7838b01, 0xea9a0905, 0xf2083f69,
      0x27233ea8, 0x9cb7f246, 0xad61f18b, 0x10699718, 0xf61ffb00, 0x0c59415c, 0xda9520d0, 0xe3ab94d8,
      0x940d0b36, 0xde7eacd2, 0x164e82b5, 0xa852073b, 0xa3687618, 0x905053c2, 0x61ddd924, 0xdd755587,
      0x3b21f72a, 0xe066e2f1, 0x8494f905, 0x4bb9aa75, 0x900c0b81, 0x9c5f469b, 0x30568000, 0x579e9f44,
     48, 0, 0, 0, 0, 0, 0, 0, 0, 0, 0, 0, 0, 0, 0x30388000, 0x31373236]"
proof -
  have "48 = (Suc (Suc (Suc (Suc (Suc (Suc (Suc (Suc (Suc (Suc (Suc (Suc (Suc (Suc (Suc (Suc (Suc (Suc (Suc (Suc (Suc (Suc (Suc (Suc (Suc (Suc (Suc (Suc (Suc (Suc (Suc (Suc (Suc (Suc (Suc (Suc (Suc (Suc (Suc (Suc (Suc (Suc (Suc (Suc (Suc (Suc (Suc (Suc (0)))))))))))))))))))))))))))))))))))))))))))))))) :: nat)" by simp
  then show ?thesis
    by (simp only: schedule_step next_words_172608 sha_schedule.simps(1) rev.simps append.simps)
qed

lemma rounds_1_172608:
  "fold sha_round
    [(0x428a2f98, 0x31373236), (0x71374491, 0x30388000), (0xb5c0fbcf, 0), (0xe9b5dba5, 0),
     (0x3956c25b, 0), (0x59f111f1, 0), (0x923f82a4, 0), (0xab1c5ed5, 0),
     (0xd807aa98, 0), (0x12835b01, 0), (0x243185be, 0), (0x550c7dc3, 0),
     (0x72be5d74, 0), (0x80deb1fe, 0), (0x9bdc06a7, 0), (0xc19bf174, 48)]
    (0x6a09e667, 0xbb67ae85, 0x3c6ef372, 0xa54ff53a, 0x510e527f, 0x9b05688c, 0x1f83d9ab, 0x5be0cd19) =
    (0xd309b91e, 0xa070cb67, 0x891f5aa9, 0xff0a3f5b, 0x815d28f5, 0x03993224, 0x339b3a28, 0xb25b02fa)"
  by (simp add: sha_eval Let_def del: sha_round.simps)

lemma rounds_2_172608:
  "fold sha_round
    [(0xe49b69c1, 0x579e9f44), (0xefbe4786, 0x30568000), (0x0fc19dc6, 0x9c5f469b), (0x240ca1cc, 0x900c0b81),
     (0x2de92c6f, 0x4bb9aa75), (0x4a7484aa, 0x8494f905), (0x5cb0a9dc, 0xe066e2f1), (0x76f988da, 0x3b21f72a),
     (0x983e5152, 0xdd755587), (0xa831c66d, 0x61ddd924), (0xb00327c8, 0x905053c2), (0xbf597fc7, 0xa3687618),
     (0xc6e00bf3, 0xa852073b), (0xd5a79147, 0x164e82b5), (0x06ca6351, 0xde7eacd2), (0x14292967, 0x940d0b36)]
    (0xd309b91e, 0xa070cb67, 0x891f5aa9, 0xff0a3f5b, 0x815d28f5, 0x03993224, 0x339b3a28, 0xb25b02fa) =
    (0x7b79df2a, 0x699cd87d, 0x27b17547, 0x6a6d7c86, 0x46db6312, 0xe54d827d, 0xbedf920c, 0x002c3e43)"
  by (simp add: sha_eval Let_def del: sha_round.simps)

lemma rounds_3_172608:
  "fold sha_round
    [(0x27b70a85, 0xe3ab94d8), (0x2e1b2138, 0xda9520d0), (0x4d2c6dfc, 0x0c59415c), (0x53380d13, 0xf61ffb00),
     (0x650a7354, 0x10699718), (0x766a0abb, 0xad61f18b), (0x81c2c92e, 0x9cb7f246), (0x92722c85, 0x27233ea8),
     (0xa2bfe8a1, 0xf2083f69), (0xa81a664b, 0xea9a0905), (0xc24b8b70, 0xd7838b01), (0xc76c51a3, 0xdcff0ac9),
     (0xd192e819, 0xd2d13359), (0xd6990624, 0x2c58fe79), (0xf40e3585, 0x02f9716b), (0x106aa070, 0x2f920d8f)]
    (0x7b79df2a, 0x699cd87d, 0x27b17547, 0x6a6d7c86, 0x46db6312, 0xe54d827d, 0xbedf920c, 0x002c3e43) =
    (0xcc2ba378, 0xc3c19724, 0x93a39385, 0x45c75e8d, 0xdf0d601a, 0x58a432bc, 0x024daec9, 0x26adee55)"
  by (simp add: sha_eval Let_def del: sha_round.simps)

lemma rounds_4_172608:
  "fold sha_round
    [(0x19a4c116, 0x57b1b65a), (0x1e376c08, 0xe35adc48), (0x2748774c, 0xb93bd679), (0x34b0bcb5, 0x5672cfa1),
     (0x391c0cb3, 0x4d34516a), (0x4ed8aa4a, 0x50cab6bb), (0x5b9cca4f, 0x09d54a5d), (0x682e6ff3, 0x4ef350e4),
     (0x748f82ee, 0x76917bc7), (0x78a5636f, 0x61f1f587), (0x84c87814, 0x0b11b4d9), (0x8cc70208, 0xd3c86da7),
     (0x90befffa, 0xd8df2fc0), (0xa4506ceb, 0xfb8246cd), (0xbef9a3f7, 0x5ce9b15c), (0xc67178f2, 0xe574ebc1)]
    (0xcc2ba378, 0xc3c19724, 0x93a39385, 0x45c75e8d, 0xdf0d601a, 0x58a432bc, 0x024daec9, 0x26adee55) =
    (0x95f710c0, 0xc9e3a236, 0x59516141, 0xf6cff08f, 0xdd506a7b, 0xb0c5f536, 0x5a7190fe, 0x0e559141)"
  by (simp add: sha_eval Let_def del: sha_round.simps)

lemma compress_172608:
  "sha_compress [0x31373236, 0x30388000, 0, 0, 0, 0, 0, 0, 0, 0, 0, 0, 0, 0, 0, 48] sha_init =
    (0x0000f727, 0x854b50bb, 0x95c054b3, 0x9c1fe5c9, 0x2e5ebcfa, 0x4bcb5dc2, 0x79f56aa9, 0x6a365e5a)"
proof -
  have split: "zip sha_constants (rev (sha_schedule 48 (rev [0x31373236, 0x30388000, 0, 0, 0, 0, 0, 0, 0, 0, 0, 0, 0, 0, 0, 48]))) =
    [(0x428a2f98, 0x31373236), (0x71374491, 0x30388000), (0xb5c0fbcf, 0), (0xe9b5dba5, 0),
     (0x3956c25b, 0), (0x59f111f1, 0), (0x923f82a4, 0), (0xab1c5ed5, 0),
     (0xd807aa98, 0), (0x12835b01, 0), (0x243185be, 0), (0x550c7dc3, 0),
     (0x72be5d74, 0), (0x80deb1fe, 0), (0x9bdc06a7, 0), (0xc19bf174, 48)] @
    [(0xe49b69c1, 0x579e9f44), (0xefbe4786, 0x30568000), (0x0fc19dc6, 0x9c5f469b), (0x240ca1cc, 0x900c0b81),
     (0x2de92c6f, 0x4bb9aa75), (0x4a7484aa, 0x8494f905), (0x5cb0a9dc, 0xe066e2f1), (0x76f988da, 0x3b21f72a),
     (0x983e5152, 0xdd755587), (0xa831c66d, 0x61ddd924), (0xb00327c8, 0x905053c2), (0xbf597fc7, 0xa3687618),
     (0xc6e00bf3, 0xa852073b), (0xd5a79147, 0x164e82b5), (0x06ca6351, 0xde7eacd2), (0x14292967, 0x940d0b36)] @
    [(0x27b70a85, 0xe3ab94d8), (0x2e1b2138, 0xda9520d0), (0x4d2c6dfc, 0x0c59415c), (0x53380d13, 0xf61ffb00),
     (0x650a7354, 0x10699718), (0x766a0abb, 0xad61f18b), (0x81c2c92e, 0x9cb7f246), (0x92722c85, 0x27233ea8),
     (0xa2bfe8a1, 0xf2083f69), (0xa81a664b, 0xea9a0905), (0xc24b8b70, 0xd7838b01), (0xc76c51a3, 0xdcff0ac9),
     (0xd192e819, 0xd2d13359), (0xd6990624, 0x2c58fe79), (0xf40e3585, 0x02f9716b), (0x106aa070, 0x2f920d8f)] @
    [(0x19a4c116, 0x57b1b65a), (0x1e376c08, 0xe35adc48), (0x2748774c, 0xb93bd679), (0x34b0bcb5, 0x5672cfa1),
     (0x391c0cb3, 0x4d34516a), (0x4ed8aa4a, 0x50cab6bb), (0x5b9cca4f, 0x09d54a5d), (0x682e6ff3, 0x4ef350e4),
     (0x748f82ee, 0x76917bc7), (0x78a5636f, 0x61f1f587), (0x84c87814, 0x0b11b4d9), (0x8cc70208, 0xd3c86da7),
     (0x90befffa, 0xd8df2fc0), (0xa4506ceb, 0xfb8246cd), (0xbef9a3f7, 0x5ce9b15c), (0xc67178f2, 0xe574ebc1)]"
    unfolding schedule_172608 sha_constants_def by simp
  show ?thesis
    unfolding sha_compress_def split fold_append o_apply sha_init_def
      rounds_1_172608 rounds_2_172608 rounds_3_172608 rounds_4_172608
    by simp
qed

lemma digest_172608: "take 4 (sha256Hex ''172608'') = ''0000''"
proof -
  let ?ws = "[0x31373236, 0x30388000, 0, 0, 0, 0, 0, 0, 0, 0, 0, 0, 0, 0, 0, 48] :: 32 word list"
  have n: "length ?ws div 16 = Suc 0" and t: "take 16 ?ws = ?ws" by simp_all
  have len: "length (hex_word w) = 8" for w by (simp add: hex_word_def)
  have "take 4 (sha256Hex ''172608'') = take 4 (hex_word 0x0000f727)"
    unfolding sha256Hex_def words_172608 Let_def n sha_blocks.simps t compress_172608 prod.case
    by (simp add: len)
  also have "\<dots> = ''0000''" by (simp add: hex_word_def hex_digit_def)
  finally show ?thesis .
qed

end
