(* ===== verification/Blockchain.thy ===== *)
theory Blockchain
  imports Sha256_Example Actor "HOL-Library.Monad_Syntax" "HOL-Library.Sublist"
begin

text \<open>
  The blockchain (\<^verbatim>\<open>goakt-blockchain\<close>): the chain with its validation and proof of work
  (\<^verbatim>\<open>chain/chain.go\<close>), the replica actor with its store (\<^verbatim>\<open>actors/replica.go\<close>, \<^verbatim>\<open>persistence/pebble.go\<close>),
  and the node with its broker and miner (\<^verbatim>\<open>actors/node.go\<close>, \<^verbatim>\<open>broker.go\<close>, \<^verbatim>\<open>miner.go\<close>). The value of a
  transaction is a \<^verbatim>\<open>float64\<close> in Go; here it is an integer, which Go prints without an exponent below
  \<open>10 ^ 21\<close>. The answers of the peers and the outcome of a write are arguments. A stored block reads
  back as it was written.
\<close>

section \<open>Blocks\<close>

record Transaction =
  Tx_Sender :: string
  Tx_Recipient :: string
  Tx_Value :: int

text \<open>A nil slice of transactions is \<open>None\<close>: its encoding differs from that of an empty one.\<close>

record Block =
  Bk_Index :: int
  Bk_Hash :: string
  Bk_PreviousHash :: string
  Bk_Proof :: "64 word"
  Bk_Transactions :: "Transaction list option"
  Bk_Timestamp :: int

type_synonym Chain = "Block list"

definition difficulty :: nat where "difficulty = 4"
definition MiningReward :: int where "MiningReward = 100"
definition genesisHash :: string where "genesisHash = ''1''"
definition genesisProof :: "64 word" where "genesisProof = 100"

definition marshal_tx :: "Transaction \<Rightarrow> string" where
  "marshal_tx t = json_object [(''sender'', json_string (Tx_Sender t)), (''recipient'', json_string (Tx_Recipient t)),
     (''value'', FormatInt (Tx_Value t))]"

definition marshal_block :: "Block \<Rightarrow> string" where
  "marshal_block b = json_object [(''index'', FormatInt (Bk_Index b)), (''hash'', json_string (Bk_Hash b)),
     (''previousHash'', json_string (Bk_PreviousHash b)), (''proof'', FormatInt (sint (Bk_Proof b))),
     (''transactions'', case Bk_Transactions b of None \<Rightarrow> ''null'' | Some ts \<Rightarrow> json_array (map marshal_tx ts)),
     (''timestamp'', FormatInt (Bk_Timestamp b))]"

definition blockHash :: "Block \<Rightarrow> string" where
  "blockHash b = sha256Hex (marshal_block (b\<lparr>Bk_Hash := []\<rparr>))"

definition ValidProof :: "string \<Rightarrow> 64 word \<Rightarrow> bool" where
  "ValidProof lastHash proof =
     (let digest = sha256Hex (lastHash @ FormatInt (sint proof))
      in take difficulty digest = replicate difficulty CHR ''0'')"

partial_function (option) pow_loop :: "string \<Rightarrow> 64 word \<Rightarrow> 64 word option" where
  "pow_loop lastHash proof =
     (if \<not> ValidProof lastHash proof then pow_loop lastHash (proof + 1) else Some proof)"

definition ProofOfWork :: "string \<Rightarrow> 64 word option" where
  "ProofOfWork lastHash = pow_loop lastHash 0"

section \<open>The chain\<close>

definition newChain :: Chain where
  "newChain = [\<lparr>Bk_Index = 0, Bk_Hash = genesisHash, Bk_PreviousHash = [], Bk_Proof = genesisProof,
     Bk_Transactions = None, Bk_Timestamp = 0\<rparr>]"

definition Chain_Last :: "Chain \<Rightarrow> Block option" where
  "Chain_Last c = (if c = [] then None else Some (last c))"

definition Chain_Blocks :: "Chain \<Rightarrow> Block list" where
  "Chain_Blocks c = rev c"

definition Chain_Since :: "int \<Rightarrow> Chain \<Rightarrow> Block list" where
  "Chain_Since index c = filter (\<lambda>b. Bk_Index b \<ge> index) c"

definition NextBlock :: "Block \<Rightarrow> Transaction list option \<Rightarrow> 64 word \<Rightarrow> int \<Rightarrow> Block" where
  "NextBlock previous transactions proof timestamp =
     (let b = \<lparr>Bk_Index = Bk_Index previous + 1, Bk_Hash = [], Bk_PreviousHash = Bk_Hash previous,
               Bk_Proof = proof, Bk_Transactions = transactions, Bk_Timestamp = timestamp\<rparr>
      in b\<lparr>Bk_Hash := blockHash b\<rparr>)"

datatype chain_error = NotExtending int int | NotLinked int string | InvalidProof int "64 word" | HashMismatch int

definition Chain_Append :: "Block \<Rightarrow> Chain \<Rightarrow> (chain_error, Chain) res" where
  "Chain_Append b c =
     (case Chain_Last c of
        None \<Rightarrow> Panic
      | Some tip \<Rightarrow>
          if Bk_Index b \<noteq> Bk_Index tip + 1 then Err (NotExtending (Bk_Index b) (Bk_Index tip))
          else if Bk_PreviousHash b \<noteq> Bk_Hash tip then Err (NotLinked (Bk_Index b) (Bk_Hash tip))
          else if \<not> ValidProof (Bk_Hash tip) (Bk_Proof b) then Err (InvalidProof (Bk_Index b) (Bk_Proof b))
          else if blockHash b \<noteq> Bk_Hash b then Err (HashMismatch (Bk_Index b))
          else Ok (c @ [b]))"

section \<open>The store\<close>

text \<open>
  The key-value store: keys are the indexes of the blocks in the order of their big-endian bytes, which
  is the order of the indexes as long as these are not negative.
\<close>

type_synonym store = "(int \<times> Block) list"

fun Store_put :: "int \<Rightarrow> Block \<Rightarrow> store \<Rightarrow> store" where
  "Store_put k b [] = [(k, b)]"
| "Store_put k b ((k', b') # s) =
     (if k = k' then (k, b) # s else if k < k' then (k, b) # (k', b') # s else (k', b') # Store_put k b s)"

definition Store_Append :: "Block \<Rightarrow> store \<Rightarrow> store" where
  "Store_Append b s = Store_put (Bk_Index b) b s"

definition Store_Load :: "store \<Rightarrow> Block list" where
  "Store_Load s = map snd s"

section \<open>The replica\<close>

record Replica =
  rep_peers :: "string list"
  rep_store :: store
  rep_chain :: Chain

datatype replica_effect =
    RepSubscribe
  | RepCtxErr
  | RepBlocksFrom "Block list"
  | RepSyncDone int
  | RepChainState "Block list"
  | RepLastHash string
  | RepLastIndex int
  | RepLastBlock Block
  | RepUnhandled

text \<open>
  What a message finds: the answer of a peer to a request for the blocks from an index on (\<open>None\<close>: not
  found or no reply) and whether the write of a block succeeds.
\<close>

record RepEnv =
  ask_peer :: "string \<Rightarrow> int \<Rightarrow> Block list option"
  write_ok :: "Block \<Rightarrow> bool"

definition Replica_PreStart :: "string list \<Rightarrow> store \<Rightarrow> (chain_error, Replica) res" where
  "Replica_PreStart peers s =
     (case run_res Chain_Append (Store_Load s) newChain of
        Ok c \<Rightarrow> Ok \<lparr>rep_peers = peers, rep_store = s, rep_chain = c\<rparr>
      | Err e \<Rightarrow> Err e
      | Panic \<Rightarrow> Panic)"

fun longest_answer :: "(string \<Rightarrow> Block list option) \<Rightarrow> string list \<Rightarrow> Block list \<Rightarrow> Block list" where
  "longest_answer answer [] longest = longest"
| "longest_answer answer (p # ps) longest =
     longest_answer answer ps
       (case answer p of
          None \<Rightarrow> longest
        | Some blocks \<Rightarrow> if length blocks > length longest then blocks else longest)"

fun catchUp_loop :: "(Block \<Rightarrow> bool) \<Rightarrow> Block list \<Rightarrow> Replica \<Rightarrow> (Replica \<times> replica_effect list) option" where
  "catchUp_loop ok [] x = Some (x, [])"
| "catchUp_loop ok (b # bs) x =
     (case Chain_Append b (rep_chain x) of
        Panic \<Rightarrow> None
      | Err e \<Rightarrow> Some (x, [])
      | Ok c \<Rightarrow>
          let x = x\<lparr>rep_chain := c\<rparr> in
          if \<not> ok b then Some (x, [RepCtxErr])
          else catchUp_loop ok bs (x\<lparr>rep_store := Store_Append b (rep_store x)\<rparr>))"

definition catchUp :: "RepEnv \<Rightarrow> Replica \<Rightarrow> (Replica \<times> replica_effect list) option" where
  "catchUp env x =
     do {
       tip \<leftarrow> Chain_Last (rep_chain x);
       catchUp_loop (write_ok env)
         (longest_answer (\<lambda>p. ask_peer env p (Bk_Index tip + 1)) (rep_peers x) []) x
     }"

definition Replica_append :: "RepEnv \<Rightarrow> Block \<Rightarrow> Replica \<Rightarrow> (Replica \<times> replica_effect list) option" where
  "Replica_append env b x =
     (case Chain_Append b (rep_chain x) of
        Panic \<Rightarrow> None
      | Err e \<Rightarrow> catchUp env x
      | Ok c \<Rightarrow>
          let x = x\<lparr>rep_chain := c\<rparr> in
          if \<not> write_ok env b then Some (x, [RepCtxErr])
          else Some (x\<lparr>rep_store := Store_Append b (rep_store x)\<rparr>, []))"

datatype replica_msg =
    RepPostStart
  | RepSubscribeAck
  | BlockMinted Block
  | GetBlocksFrom int
  | SyncChain
  | GetChain
  | GetLastHash
  | GetLastIndex
  | GetLastBlock
  | RepOther

definition Replica_Receive :: "RepEnv \<Rightarrow> replica_msg \<Rightarrow> Replica \<Rightarrow> (Replica \<times> replica_effect list) option" where
  "Replica_Receive env msg x =
     (case msg of
        RepPostStart \<Rightarrow> map_option (\<lambda>(x, es). (x, RepSubscribe # es)) (catchUp env x)
      | RepSubscribeAck \<Rightarrow> Some (x, [])
      | BlockMinted b \<Rightarrow> Replica_append env b x
      | GetBlocksFrom i \<Rightarrow> Some (x, [RepBlocksFrom (Chain_Since i (rep_chain x))])
      | SyncChain \<Rightarrow>
          do {
            (x, es) \<leftarrow> catchUp env x;
            tip \<leftarrow> Chain_Last (rep_chain x);
            Some (x, es @ [RepSyncDone (Bk_Index tip)])
          }
      | GetChain \<Rightarrow> Some (x, [RepChainState (Chain_Blocks (rep_chain x))])
      | GetLastHash \<Rightarrow> map_option (\<lambda>tip. (x, [RepLastHash (Bk_Hash tip)])) (Chain_Last (rep_chain x))
      | GetLastIndex \<Rightarrow> map_option (\<lambda>tip. (x, [RepLastIndex (Bk_Index tip)])) (Chain_Last (rep_chain x))
      | GetLastBlock \<Rightarrow> map_option (\<lambda>tip. (x, [RepLastBlock tip])) (Chain_Last (rep_chain x))
      | RepOther \<Rightarrow> Some (x, [RepUnhandled]))"

text \<open>A failed write restarts the replica, which reloads the chain from the store.\<close>

definition Replica_step :: "RepEnv \<times> replica_msg \<Rightarrow> Replica \<Rightarrow> Replica option" where
  "Replica_step q x =
     (case Replica_Receive (fst q) (snd q) x of
        None \<Rightarrow> None
      | Some (x', es) \<Rightarrow>
          if RepCtxErr \<in> set es
          then (case Replica_PreStart (rep_peers x') (rep_store x') of Ok y \<Rightarrow> Some y | _ \<Rightarrow> None)
          else Some x')"

section \<open>The node\<close>

definition coinbase :: string where "coinbase = ''coinbase''"

type_synonym Broker = "Transaction list"

datatype broker_msg = AddTransaction Transaction | GetTransactions | ClearTransactions | BrokerPostStart | BrokerOther

datatype broker_reply = PendingTransactions "Transaction list" | BrokerSilent | BrokerUnhandled

definition Broker_Receive :: "broker_msg \<Rightarrow> Broker \<Rightarrow> broker_reply \<times> Broker" where
  "Broker_Receive msg pending =
     (case msg of
        BrokerPostStart \<Rightarrow> (BrokerSilent, pending)
      | AddTransaction t \<Rightarrow> (BrokerSilent, pending @ [t])
      | GetTransactions \<Rightarrow> (PendingTransactions pending, pending)
      | ClearTransactions \<Rightarrow> (BrokerSilent, [])
      | BrokerOther \<Rightarrow> (BrokerUnhandled, pending))"

datatype Miner = ReadyBehavior | Busy

datatype miner_msg = MinerPostStart | Mine string | ValidateMsg string "64 word" | Ready | MinerOther

datatype miner_effect = PipeProof string | ProofValidity bool | MinerUnhandled

definition Miner_Receive :: "miner_msg \<Rightarrow> Miner \<Rightarrow> miner_effect list \<times> Miner" where
  "Miner_Receive msg m =
     (case m of
        ReadyBehavior \<Rightarrow>
          (case msg of
             MinerPostStart \<Rightarrow> ([], ReadyBehavior)
           | Mine h \<Rightarrow> ([PipeProof h], Busy)
           | ValidateMsg h p \<Rightarrow> ([ProofValidity (ValidProof h p)], ReadyBehavior)
           | Ready \<Rightarrow> ([], ReadyBehavior)
           | MinerOther \<Rightarrow> ([MinerUnhandled], ReadyBehavior))
      | Busy \<Rightarrow>
          (case msg of
             Mine h \<Rightarrow> ([], Busy)
           | ValidateMsg h p \<Rightarrow> ([ProofValidity (ValidProof h p)], Busy)
           | Ready \<Rightarrow> ([], ReadyBehavior)
           | _ \<Rightarrow> ([MinerUnhandled], Busy)))"

text \<open>
  The pod of the node: its replica, broker and miner, the proofs being computed, and the blocks announced
  on the topic that the replica has not received yet. Requests within the pod are answered.
  When the node starts, it spawns a fresh broker and miner and has the replica catch up; a proof that
  its predecessor asked for has no receiver any more.
\<close>

record Pod =
  pod_replica :: Replica
  pod_broker :: Broker
  pod_miner :: Miner
  pod_jobs :: "string list"
  pod_topic :: "Block list"

datatype node_msg =
    NodePostStart RepEnv
  | SubmitTransaction Transaction
  | MineBlock
  | ProofFound string "64 word"
  | CheckPowSolution "64 word"
  | GetPendingTransactions
  | NodeTerminated
  | NodeOther

datatype node_reply = TransactionSubmitted int | NodeValidity bool | NodePending "Transaction list" | NodeUnhandled

definition tell_broker :: "broker_msg \<Rightarrow> Pod \<Rightarrow> Pod" where
  "tell_broker msg w = w\<lparr>pod_broker := snd (Broker_Receive msg (pod_broker w))\<rparr>"

definition tell_miner :: "miner_msg \<Rightarrow> Pod \<Rightarrow> Pod" where
  "tell_miner msg w =
     (let (es, m) = Miner_Receive msg (pod_miner w) in
      w\<lparr>pod_miner := m, pod_jobs := pod_jobs w @ List.map_filter (\<lambda>e. case e of PipeProof h \<Rightarrow> Some h | _ \<Rightarrow> None) es\<rparr>)"

definition Node_Receive :: "int \<Rightarrow> string \<Rightarrow> node_msg \<Rightarrow> Pod \<Rightarrow> (Pod \<times> node_reply list) option" where
  "Node_Receive t self msg w =
     (case msg of
        NodePostStart env \<Rightarrow>
          map_option (\<lambda>x. (w\<lparr>pod_replica := x, pod_broker := [], pod_miner := ReadyBehavior, pod_jobs := []\<rparr>, []))
            (Replica_step (env, SyncChain) (pod_replica w))
      | SubmitTransaction tx \<Rightarrow>
          (let w = tell_broker (AddTransaction tx) w in
           map_option (\<lambda>tip. (w, [TransactionSubmitted (Bk_Index tip + 1)])) (Chain_Last (rep_chain (pod_replica w))))
      | MineBlock \<Rightarrow>
          map_option (\<lambda>tip. (tell_miner (Mine (Bk_Hash tip)) w, [])) (Chain_Last (rep_chain (pod_replica w)))
      | ProofFound lastHash proof \<Rightarrow>
          map_option (\<lambda>tip.
             if Bk_Hash tip \<noteq> lastHash then (tell_miner Ready w, [])
             else
               let w = tell_broker (AddTransaction \<lparr>Tx_Sender = coinbase, Tx_Recipient = self, Tx_Value = MiningReward\<rparr>) w;
                   b = NextBlock tip (Some (pod_broker w)) proof t;
                   w = w\<lparr>pod_topic := pod_topic w @ [b]\<rparr>;
                   w = tell_broker ClearTransactions w in
               (tell_miner Ready w, []))
            (Chain_Last (rep_chain (pod_replica w)))
      | CheckPowSolution proof \<Rightarrow>
          map_option (\<lambda>tip. (w, [NodeValidity (ValidProof (Bk_Hash tip) proof)])) (Chain_Last (rep_chain (pod_replica w)))
      | GetPendingTransactions \<Rightarrow> Some (w, [NodePending (pod_broker w)])
      | NodeTerminated \<Rightarrow> Some (w, [])
      | NodeOther \<Rightarrow> Some (w, [NodeUnhandled]))"

text \<open>
  The steps of the pod: a message from outside, a proof that was found, and the delivery of the oldest
  announced block to the replica.
\<close>

inductive pod_step :: "Pod \<Rightarrow> Pod \<Rightarrow> bool" where
  request: "Node_Receive t self msg w = Some (w', rs) \<Longrightarrow> \<forall>h p. msg \<noteq> ProofFound h p \<Longrightarrow> pod_step w w'"
| mined: "pod_jobs w = h # hs \<Longrightarrow> ProofOfWork h = Some p \<Longrightarrow>
     Node_Receive t self (ProofFound h p) (w\<lparr>pod_jobs := hs\<rparr>) = Some (w', rs) \<Longrightarrow> pod_step w w'"
| deliver: "pod_topic w = b # bs \<Longrightarrow> Replica_step (env, BlockMinted b) (pod_replica w) = Some x \<Longrightarrow>
     pod_step w (w\<lparr>pod_replica := x, pod_topic := bs\<rparr>)"

inductive_cases pod_stepE: "pod_step w w'"

section \<open>Valid chains\<close>

definition linked :: "Block \<Rightarrow> Block \<Rightarrow> bool" where
  "linked a b \<longleftrightarrow> Bk_Index b = Bk_Index a + 1 \<and> Bk_PreviousHash b = Bk_Hash a \<and>
     ValidProof (Bk_Hash a) (Bk_Proof b) \<and> blockHash b = Bk_Hash b"

definition genesis :: Block where "genesis = hd newChain"

inductive valid_chain :: "Chain \<Rightarrow> bool" where
  start: "valid_chain [genesis]"
| extend: "valid_chain c \<Longrightarrow> linked (last c) b \<Longrightarrow> valid_chain (c @ [b])"

lemma newChain_eq: "newChain = [genesis]"
  by (simp add: newChain_def genesis_def)

lemma valid_chain_ne: "valid_chain c \<Longrightarrow> c \<noteq> []"
  by (induction rule: valid_chain.induct) auto

lemma valid_chain_snoc: "valid_chain (c @ [b]) \<longleftrightarrow> c = [] \<and> b = genesis \<or> valid_chain c \<and> linked (last c) b"
  by (auto elim: valid_chain.cases intro: valid_chain.intros)

lemma Chain_Append_iff:
  assumes "c \<noteq> []"
  shows "Chain_Append b c = Ok c' \<longleftrightarrow> c' = c @ [b] \<and> linked (last c) b" and "Chain_Append b c \<noteq> Panic"
  using assms by (auto simp: Chain_Append_def Chain_Last_def linked_def)

lemma valid_index: "valid_chain c \<Longrightarrow> map Bk_Index c = map int [0..<length c]"
proof (induction rule: valid_chain.induct)
  case (extend c b)
  have ne: "c \<noteq> []" by (rule valid_chain_ne [OF extend.hyps(1)])
  have "map Bk_Index c ! (length c - 1) = map int [0..<length c] ! (length c - 1)" using extend.IH by simp
  then have "Bk_Index (last c) = int (length c - 1)" using ne by (simp add: last_conv_nth)
  then have "Bk_Index b = int (length c)" using extend.hyps ne by (simp add: linked_def of_nat_diff Suc_leI)
  then show ?case using extend.IH by simp
qed (simp add: genesis_def newChain_def)

lemma valid_nth: "valid_chain c \<Longrightarrow> i < length c \<Longrightarrow> Bk_Index (c ! i) = int i"
  using arg_cong [OF valid_index, of c "\<lambda>xs. xs ! i"] by simp

lemma since_drop:
  assumes v: "valid_chain c"
  shows "Chain_Since (int k) (take m c) = drop k (take m c)"
proof -
  have idx: "Bk_Index (take m c ! i) = int i" if "i < length (take m c)" for i
    using valid_nth [OF v, of i] that by simp
  have "filter (\<lambda>b. Bk_Index b \<ge> int k) (take k (take m c)) = []"
    using idx by (intro filter_False) (auto simp: in_set_conv_nth)
  moreover have "filter (\<lambda>b. Bk_Index b \<ge> int k) (drop k (take m c)) = drop k (take m c)"
  proof (rule filter_True, rule ballI)
    fix b assume "b \<in> set (drop k (take m c))"
    then obtain i where i: "i < length (drop k (take m c))" "b = drop k (take m c) ! i" by (metis in_set_conv_nth)
    then have "b = take m c ! (k + i)" "k + i < length (take m c)" by (simp_all only: length_drop nth_drop less_diff_conv add.commute)
    then show "int k \<le> Bk_Index b" using idx [of "k + i"] by simp
  qed
  ultimately show ?thesis
    unfolding Chain_Since_def by (metis append_take_drop_id filter_append self_append_conv2)
qed

lemma tip_index: "valid_chain c \<Longrightarrow> Bk_Index (last c) + 1 = int (length c)"
  using valid_nth [of c "length c - 1"] valid_chain_ne [of c]
  by (cases c) (auto simp: last_conv_nth)

lemma valid_prefix: "valid_chain (c @ bs) \<Longrightarrow> c \<noteq> [] \<Longrightarrow> valid_chain c"
proof (induction bs rule: rev_induct)
  case (snoc b bs)
  then show ?case using valid_chain_snoc [of "c @ bs" b] by simp
qed simp

text \<open>The tip's hash determines the chain, unless two different blocks have the same SHA-256 digest.\<close>

lemma same_tip:
  assumes "valid_chain c" and "valid_chain c'" and "Bk_Hash (last c) = Bk_Hash (last c')"
  shows "c = c' \<or> (\<exists>b \<in> set c. \<exists>b' \<in> set c'. b\<lparr>Bk_Hash := []\<rparr> \<noteq> b'\<lparr>Bk_Hash := []\<rparr> \<and> blockHash b = blockHash b')"
  using assms
proof (induction c arbitrary: c' rule: valid_chain.induct)
  case start
  have g: "length (Bk_Hash genesis) = 1" by (simp add: genesis_def newChain_def genesisHash_def)
  from start.prems(1) show ?case
  proof (cases rule: valid_chain.cases)
    case (extend d b)
    have "length (Bk_Hash b) = 64" using extend(3) sha256Hex_length by (metis blockHash_def linked_def)
    then show ?thesis using start.prems(2) g extend by simp
  qed simp
next
  case (extend d b)
  have len: "length (Bk_Hash b) = 64" using extend.hyps(2) sha256Hex_length by (metis blockHash_def linked_def)
  from extend.prems(1) show ?case
  proof (cases rule: valid_chain.cases)
    case start
    then have "length (Bk_Hash b) = 1" using extend.prems(2) by (simp add: genesis_def newChain_def genesisHash_def)
    then show ?thesis using len by simp
  next
    case (extend d' b')
    have h: "Bk_Hash b = Bk_Hash b'" using extend.prems(2) local.extend(1) by simp
    then have bh: "blockHash b = blockHash b'" using extend.hyps(2) local.extend(3) by (simp add: linked_def)
    show ?thesis
    proof (cases "b\<lparr>Bk_Hash := []\<rparr> = b'\<lparr>Bk_Hash := []\<rparr>")
      case True
      then have "b = b'" using h by (metis Block.surjective Block.update_convs(2))
      then have "Bk_Hash (last d) = Bk_Hash (last d')" using extend.hyps(2) local.extend(3) by (simp add: linked_def)
      with extend.IH [OF local.extend(2) this] \<open>b = b'\<close> local.extend(1) show ?thesis by auto
    next
      case False
      then show ?thesis using bh local.extend(1) by auto
    qed
  qed
qed

section \<open>The replica's invariant\<close>

definition stored :: "Chain \<Rightarrow> store" where
  "stored c = map (\<lambda>b. (Bk_Index b, b)) (tl c)"

definition replica_inv :: "Replica \<Rightarrow> bool" where
  "replica_inv x \<longleftrightarrow> valid_chain (rep_chain x) \<and> rep_store x = stored (rep_chain x)"

lemma Store_put_snoc: "\<forall>k' \<in> fst ` set s. k' < k \<Longrightarrow> Store_put k b s = s @ [(k, b)]"
  by (induction k b s rule: Store_put.induct) auto

lemma stored_snoc:
  assumes v: "valid_chain (c @ [b])" and ne: "c \<noteq> []"
  shows "Store_Append b (stored c) = stored (c @ [b])"
proof -
  note nth = valid_nth [OF v]
  have "\<forall>k' \<in> fst ` set (stored c). k' < Bk_Index b"
  proof -
    have "Bk_Index x < Bk_Index b" if "x \<in> set (tl c)" for x
    proof -
      have "x \<in> set c" using that ne by (rule list.set_sel(2) [rotated])
      then obtain i where "i < length c" "x = c ! i" by (auto simp: in_set_conv_nth)
      then show ?thesis using nth [of i] nth [of "length c"] by (simp add: nth_append)
    qed
    then show ?thesis by (auto simp: stored_def)
  qed
  then show ?thesis using ne by (simp add: Store_Append_def Store_put_snoc stored_def)
qed

lemma load_stored:
  assumes "valid_chain c"
  shows "run_res Chain_Append (Store_Load (stored c)) newChain = Ok c"
  using assms
proof (induction rule: valid_chain.induct)
  case start
  then show ?case by (simp add: stored_def Store_Load_def newChain_eq)
next
  case (extend c b)
  have ne: "c \<noteq> []" by (rule valid_chain_ne [OF extend.hyps(1)])
  have "Store_Load (stored (c @ [b])) = Store_Load (stored c) @ [b]" using ne by (simp add: stored_def Store_Load_def)
  then show ?case using extend.IH extend.hyps(2) Chain_Append_iff(1) [OF ne, of b "c @ [b]"] by (simp add: run_res_append)
qed

lemma restart_ok:
  assumes "valid_chain c"
  shows "Replica_PreStart peers (stored c) = Ok \<lparr>rep_peers = peers, rep_store = stored c, rep_chain = c\<rparr>"
  using load_stored [OF assms] by (simp add: Replica_PreStart_def)

text \<open>
  A run of appends, as the announcements and the catch-up make them: the chain grows by blocks that
  link, the store follows, and after a failed write the restart drops the block that was not stored.
\<close>

definition grown :: "Replica \<Rightarrow> (Replica \<times> replica_effect list) option \<Rightarrow> bool" where
  "grown x r \<longleftrightarrow> (\<exists>x' es bs. r = Some (x', es) \<and> rep_peers x' = rep_peers x \<and> valid_chain (rep_chain x') \<and>
     rep_chain x' = rep_chain x @ bs \<and>
     (if RepCtxErr \<in> set es then bs \<noteq> [] \<and> rep_store x' = stored (butlast (rep_chain x')) else rep_store x' = stored (rep_chain x')))"

lemma grown_self: "replica_inv x \<Longrightarrow> RepCtxErr \<notin> set es \<Longrightarrow> grown x (Some (x, es))"
  by (simp add: grown_def replica_inv_def)

lemma grown_effects:
  "grown x (Some (x', es)) \<Longrightarrow> RepCtxErr \<in> set es' \<longleftrightarrow> RepCtxErr \<in> set es \<Longrightarrow> grown x (Some (x', es'))"
  by (simp add: grown_def)

lemma catchUp_loop_grown: "replica_inv x \<Longrightarrow> grown x (catchUp_loop ok bs x)"
proof (induction bs arbitrary: x)
  case Nil
  then show ?case by (simp add: grown_self)
next
  case (Cons b bs)
  have v: "valid_chain (rep_chain x)" "rep_store x = stored (rep_chain x)" using Cons.prems by (simp_all add: replica_inv_def)
  note ne = valid_chain_ne [OF v(1)]
  show ?case
  proof (cases "linked (last (rep_chain x)) b")
    case False
    then obtain e where "Chain_Append b (rep_chain x) = Err e"
      using Chain_Append_iff [OF ne, of b] by (cases "Chain_Append b (rep_chain x)") auto
    then show ?thesis using Cons.prems by (simp add: grown_self)
  next
    case True
    let ?c = "rep_chain x @ [b]"
    have a: "Chain_Append b (rep_chain x) = Ok ?c" using True Chain_Append_iff(1) [OF ne] by blast
    have vc: "valid_chain ?c" using v(1) True by (rule valid_chain.extend)
    show ?thesis
    proof (cases "ok b")
      case False
      then show ?thesis using a v(2) vc by (simp add: grown_def)
    next
      case ok: True
      let ?x = "x\<lparr>rep_chain := ?c, rep_store := Store_Append b (rep_store x)\<rparr>"
      have "replica_inv ?x" using vc stored_snoc [OF vc ne] v(2) by (simp add: replica_inv_def)
      from Cons.IH [OF this] show ?thesis using a ok by (auto simp: grown_def Let_def)
    qed
  qed
qed

lemma catchUp_grown: "replica_inv x \<Longrightarrow> grown x (catchUp env x)"
  using catchUp_loop_grown [of x] valid_chain_ne [of "rep_chain x"]
  by (simp add: catchUp_def Chain_Last_def replica_inv_def)

lemma Replica_append_grown:
  assumes i: "replica_inv x"
  shows "grown x (Replica_append env b x)"
proof -
  have ne: "rep_chain x \<noteq> []" using i valid_chain_ne by (auto simp: replica_inv_def)
  show ?thesis
  proof (cases "Chain_Append b (rep_chain x)")
    case (Ok c)
    then show ?thesis using catchUp_loop_grown [OF i, of "write_ok env" "[b]"]
      by (auto simp: Replica_append_def Let_def split: if_splits)
  next
    case (Err e)
    then show ?thesis using catchUp_grown [OF i] by (simp add: Replica_append_def)
  next
    case Panic
    then show ?thesis using Chain_Append_iff(2) [OF ne] by blast
  qed
qed

lemma Replica_Receive_grown:
  assumes i: "replica_inv x"
  shows "grown x (Replica_Receive env msg x)"
proof -
  have tip: "Chain_Last (rep_chain x) = Some (last (rep_chain x))"
    using i valid_chain_ne by (auto simp: replica_inv_def Chain_Last_def)
  obtain x' es where c: "catchUp env x = Some (x', es)" using catchUp_grown [OF i, of env] by (auto simp: grown_def)
  then have g: "grown x (Some (x', es))" using catchUp_grown [OF i, of env] by simp
  then have "valid_chain (rep_chain x')" by (auto simp: grown_def)
  then have tip': "Chain_Last (rep_chain x') = Some (last (rep_chain x'))" using valid_chain_ne by (auto simp: Chain_Last_def)
  have "grown x (Some (x', RepSubscribe # es))" "grown x (Some (x', es @ [RepSyncDone k]))" for k
    by (rule grown_effects [OF g], simp)+
  then show ?thesis
    using i tip tip' c Replica_append_grown [OF i, of env]
    by (cases msg) (simp_all add: Replica_Receive_def grown_self)
qed

lemma valid_chain_butlast: "valid_chain c \<Longrightarrow> butlast c \<noteq> [] \<Longrightarrow> valid_chain (butlast c)"
  by (cases rule: valid_chain.cases) auto

lemma Replica_step_inv:
  assumes i: "replica_inv x"
  shows "\<exists>x' bs. Replica_step q x = Some x' \<and> replica_inv x' \<and> rep_chain x' = rep_chain x @ bs"
proof -
  obtain x' es bs where r: "Replica_Receive (fst q) (snd q) x = Some (x', es)" "valid_chain (rep_chain x')"
    "rep_chain x' = rep_chain x @ bs"
    "if RepCtxErr \<in> set es then bs \<noteq> [] \<and> rep_store x' = stored (butlast (rep_chain x')) else rep_store x' = stored (rep_chain x')"
    using Replica_Receive_grown [OF i, of "fst q" "snd q"] by (auto simp: grown_def)
  show ?thesis
  proof (cases "RepCtxErr \<in> set es")
    case True
    let ?c = "butlast (rep_chain x')"
    have bs: "bs \<noteq> []" "rep_store x' = stored ?c" using r(4) True by simp_all
    have c: "?c = rep_chain x @ butlast bs" using r(3) bs(1) by (simp add: butlast_append)
    then have "?c \<noteq> []" using i valid_chain_ne by (auto simp: replica_inv_def)
    then have v: "valid_chain ?c" using valid_chain_butlast [OF r(2)] by blast
    then show ?thesis using r(1) True bs(2) c restart_ok [OF v] by (simp add: Replica_step_def replica_inv_def)
  next
    case False
    then show ?thesis using r by (auto simp: Replica_step_def replica_inv_def)
  qed
qed

interpretation replica: actor Replica_step "\<lambda>x. replica_inv x \<and> prefix c (rep_chain x)" "\<lambda>_ _. True" for c
proof (unfold_locales, elim conjE)
  fix x q assume "replica_inv x" "prefix c (rep_chain x)"
  then show "\<exists>x'. Replica_step q x = Some x' \<and> replica_inv x' \<and> prefix c (rep_chain x')"
    using Replica_step_inv [of x q] by (metis prefix_prefix prefix_order.trans prefixI)
qed

lemma Replica_run:
  "replica_inv x \<Longrightarrow> \<exists>x' bs. deliver Replica_step msgs x = Some x' \<and> replica_inv x' \<and> rep_chain x' = rep_chain x @ bs"
  using replica.deliver_ok [of x "rep_chain x" msgs, OF _ accepted_True] by (auto simp: prefix_def)

lemma PreStart_inv:
  assumes "Replica_PreStart peers s = Ok x" and keys: "\<forall>(k, b) \<in> set s. k = Bk_Index b"
  shows "replica_inv x"
proof -
  obtain c where c: "run_res Chain_Append (Store_Load s) newChain = Ok c" "x = \<lparr>rep_peers = peers, rep_store = s, rep_chain = c\<rparr>"
    using assms(1) by (auto simp: Replica_PreStart_def split: res.splits)
  have run: "valid_chain d \<Longrightarrow> run_res Chain_Append bs d = Ok c \<Longrightarrow> valid_chain c \<and> c = d @ bs" for bs d
  proof (induction bs arbitrary: d)
    case (Cons b bs)
    note ne = valid_chain_ne [OF Cons.prems(1)]
    obtain d' where d': "Chain_Append b d = Ok d'" "run_res Chain_Append bs d' = Ok c"
      using Cons.prems(2) by (auto split: res.splits)
    have eq: "d' = d @ [b]" and v: "valid_chain d'"
      using d'(1) Chain_Append_iff(1) [OF ne, of b d'] Cons.prems(1) valid_chain.extend by auto
    show ?case using Cons.IH [OF v d'(2)] unfolding eq by (metis append_Cons append_assoc append_Nil)
  qed simp
  have "valid_chain c \<and> c = newChain @ Store_Load s"
    unfolding newChain_eq by (rule run [OF valid_chain.start c(1) [unfolded newChain_eq]])
  moreover have "map (\<lambda>b. (Bk_Index b, b)) (map snd s) = s" using keys by (auto intro!: map_idI)
  ultimately show ?thesis using c(2) by (auto simp: replica_inv_def stored_def Store_Load_def newChain_eq)
qed

section \<open>The proof of work\<close>

lemma pow_loop_least:
  assumes "ValidProof h p" and "unat cur \<le> unat p"
  shows "\<exists>q. pow_loop h cur = Some q \<and> ValidProof h q \<and> unat q \<le> unat p \<and>
     (\<forall>r. unat cur \<le> unat r \<and> unat r < unat q \<longrightarrow> \<not> ValidProof h r)"
  using assms(2)
proof (induction "unat p - unat cur" arbitrary: cur rule: less_induct)
  case less
  show ?case
  proof (cases "ValidProof h cur")
    case True
    then show ?thesis using less.prems by (subst pow_loop.simps) auto
  next
    case False
    then have lt: "unat cur < unat p" using less.prems assms(1) by (metis le_neq_implies_less word_unat_eq_iff)
    have "unat cur + 1 < 2 ^ 64" using lt unsigned_less [of p, where 'a = nat] by simp
    then have suc: "unat (cur + 1) = unat cur + 1" by (simp add: unat_word_ariths)
    obtain q where q: "pow_loop h (cur + 1) = Some q" "ValidProof h q" "unat q \<le> unat p"
      "\<forall>r. unat (cur + 1) \<le> unat r \<and> unat r < unat q \<longrightarrow> \<not> ValidProof h r"
      using less.hyps [of "cur + 1"] suc lt by fastforce
    have "\<not> ValidProof h r" if "unat cur \<le> unat r" "unat r < unat q" for r
      using that q(4) suc False word_unat_eq_iff [of r cur] by (cases "unat r = unat cur") auto
    then show ?thesis using q False by (subst pow_loop.simps) auto
  qed
qed

lemma ProofOfWork_valid: "ProofOfWork h = Some q \<Longrightarrow> ValidProof h q"
proof -
  have "pow_loop h cur = Some q \<Longrightarrow> ValidProof h q" for cur
    by (rule pow_loop.raw_induct [of "\<lambda>h p q. ValidProof h q"]) (auto split: if_splits)
  then show "ProofOfWork h = Some q \<Longrightarrow> ValidProof h q" by (simp add: ProofOfWork_def)
qed

lemma genesis_proof: "ValidProof ''1'' 72608"
proof -
  have "sint (72608 :: 64 word) = 72608" by simp
  then have "''1'' @ FormatInt (sint (72608 :: 64 word)) = ''172608''"
    by (simp add: FormatInt_def show_nat.simps)
  moreover have "replicate difficulty CHR ''0'' = ''0000''" "difficulty = 4"
    by (simp_all add: difficulty_def numeral_eq_Suc)
  ultimately show ?thesis unfolding ValidProof_def Let_def using digest_172608 by (simp only:)
qed

lemma NextBlock_linked: "ValidProof (Bk_Hash a) p \<Longrightarrow> linked a (NextBlock a ts p t)"
  by (simp add: linked_def NextBlock_def blockHash_def Let_def)

section \<open>Catching up\<close>

lemma longest_answer_take:
  "\<forall>p \<in> set ps. answer p = map_option (\<lambda>m. drop k (take m full)) (height p) \<Longrightarrow>
   longest_answer answer ps (drop k (take n full)) = drop k (take (fold max (List.map_filter height ps) n) full)"
proof (induction ps arbitrary: n)
  case Nil
  then show ?case by (simp add: List.map_filter_def)
next
  case (Cons p ps)
  show ?case
  proof (cases "height p")
    case None
    then show ?thesis using Cons by (simp add: List.map_filter_def)
  next
    case (Some m)
    have "(if length (drop k (take m full)) > length (drop k (take n full)) then drop k (take m full)
           else drop k (take n full)) = drop k (take (max m n) full)"
      by (auto simp: max_def min_def split: if_splits)
    then show ?thesis using Cons Some by (simp add: List.map_filter_def)
  qed
qed

lemma catchUp_loop_all:
  assumes "\<forall>b. ok b"
  shows "replica_inv x \<Longrightarrow> valid_chain (rep_chain x @ bs) \<Longrightarrow>
    \<exists>x'. catchUp_loop ok bs x = Some (x', []) \<and> replica_inv x' \<and> rep_chain x' = rep_chain x @ bs"
proof (induction bs arbitrary: x)
  case (Cons b bs)
  have v: "valid_chain (rep_chain x)" "rep_store x = stored (rep_chain x)" using Cons.prems by (simp_all add: replica_inv_def)
  note ne = valid_chain_ne [OF v(1)]
  have vb: "valid_chain (rep_chain x @ [b])" using Cons.prems(2) valid_prefix [of "rep_chain x @ [b]" bs] by simp
  then have "linked (last (rep_chain x)) b" using ne by (simp add: valid_chain_snoc)
  then have a: "Chain_Append b (rep_chain x) = Ok (rep_chain x @ [b])" using Chain_Append_iff(1) [OF ne] by blast
  let ?x = "x\<lparr>rep_chain := rep_chain x @ [b], rep_store := Store_Append b (rep_store x)\<rparr>"
  have "replica_inv ?x" using vb stored_snoc [OF vb ne] v(2) by (simp add: replica_inv_def)
  from Cons.IH [OF this] Cons.prems(2) a assms show ?case by (simp add: Let_def)
qed simp

lemma fold_max_ge: "n \<le> fold max ms (n :: nat)"
proof (induction ms arbitrary: n)
  case (Cons m ms)
  show ?case using Cons [of "max m n"] by simp
qed simp

section \<open>The pod of the node\<close>

definition pod_inv :: "Pod \<Rightarrow> bool" where
  "pod_inv w \<longleftrightarrow> replica_inv (pod_replica w) \<and>
     length (pod_jobs w) = (case pod_miner w of ReadyBehavior \<Rightarrow> 0 | Busy \<Rightarrow> 1) \<and>
     (\<forall>b \<in> set (pod_topic w). \<exists>a \<in> set (rep_chain (pod_replica w)). linked a b)"

lemma replica_tip: "replica_inv x \<Longrightarrow> Chain_Last (rep_chain x) = Some (last (rep_chain x))"
  using valid_chain_ne by (auto simp: replica_inv_def Chain_Last_def)

lemma Replica_step_grows:
  assumes "Replica_step q x = Some x'" and "replica_inv x"
  shows "replica_inv x' \<and> set (rep_chain x) \<subseteq> set (rep_chain x')"
proof -
  obtain y bs where "Replica_step q x = Some y" "replica_inv y" "rep_chain y = rep_chain x @ bs"
    using Replica_step_inv [OF assms(2), of q] by blast
  then show ?thesis using assms(1) by simp
qed

lemma pod_inv_replica:
  assumes "pod_inv w" and "Replica_step q (pod_replica w) = Some x" and "set bs \<subseteq> set (pod_topic w)"
  shows "pod_inv (w\<lparr>pod_replica := x, pod_topic := bs\<rparr>)"
  using Replica_step_grows [OF assms(2)] assms(1,3) unfolding pod_inv_def by auto blast

lemmas pod_ops = tell_broker_def tell_miner_def Broker_Receive_def Miner_Receive_def

lemma request_inv:
  assumes i: "pod_inv w" and r: "Node_Receive t self msg w = Some (w', rs)" and "\<forall>h p. msg \<noteq> ProofFound h p"
  shows "pod_inv w'"
proof (cases msg)
  case (NodePostStart env)
  then obtain x where x: "Replica_step (env, SyncChain) (pod_replica w) = Some x"
    and w': "w' = w\<lparr>pod_replica := x, pod_broker := [], pod_miner := ReadyBehavior, pod_jobs := []\<rparr>"
    using r by (auto simp: Node_Receive_def)
  then show ?thesis using pod_inv_replica [OF i x, of "pod_topic w"] by (simp add: pod_inv_def)
qed (use assms replica_tip in \<open>auto simp: Node_Receive_def pod_inv_def pod_ops List.map_filter_def Let_def split: Miner.splits\<close>)

lemma mined_inv:
  assumes i: "pod_inv w" and j: "pod_jobs w = h # hs" and p: "ProofOfWork h = Some p"
    and r: "Node_Receive t self (ProofFound h p) (w\<lparr>pod_jobs := hs\<rparr>) = Some (w', rs)"
  shows "pod_inv w'"
proof -
  let ?c = "rep_chain (pod_replica w)"
  have busy: "pod_miner w = Busy" "hs = []" using i j by (auto simp: pod_inv_def split: Miner.splits)
  have tip: "Chain_Last ?c = Some (last ?c)" "last ?c \<in> set ?c"
    using i replica_tip valid_chain_ne by (auto simp: pod_inv_def replica_inv_def)
  have "linked (last ?c) (NextBlock (last ?c) ts p t)" if "Bk_Hash (last ?c) = h" for ts
    using NextBlock_linked ProofOfWork_valid [OF p] that by blast
  then show ?thesis using i r busy tip
    by (auto simp: Node_Receive_def pod_inv_def pod_ops List.map_filter_def Let_def split: if_splits) blast
qed

lemma pod_step_inv: "pod_step w w' \<Longrightarrow> pod_inv w \<Longrightarrow> pod_inv w'"
  by (induction rule: pod_step.induct) (auto intro: request_inv mined_inv pod_inv_replica simp del: split_paired_All)

lemma pod_run_inv: "pod_step\<^sup>*\<^sup>* w w' \<Longrightarrow> pod_inv w \<Longrightarrow> pod_inv w'"
  by (induction rule: rtranclp_induct) (auto intro: pod_step_inv)

text \<open>
  One round of mining on a tip: the request, the proof found, and the block announced. The announced
  block carries what was pending and the reward; the broker is empty and the miner ready again.
\<close>

definition reward :: "string \<Rightarrow> Transaction" where
  "reward self = \<lparr>Tx_Sender = coinbase, Tx_Recipient = self, Tx_Value = MiningReward\<rparr>"

lemma mining_round:
  assumes i: "pod_inv w" and ready: "pod_miner w = ReadyBehavior" and tip: "last (rep_chain (pod_replica w)) = a"
    and p: "ProofOfWork (Bk_Hash a) = Some p"
  shows "pod_step\<^sup>*\<^sup>* w (w\<lparr>pod_broker := [], pod_topic := pod_topic w @ [NextBlock a (Some (pod_broker w @ [reward self])) p t]\<rparr>)"
proof -
  have last: "Chain_Last (rep_chain (pod_replica w)) = Some a" using i replica_tip tip by (auto simp: pod_inv_def)
  have jobs: "pod_jobs w = []" using i ready by (simp add: pod_inv_def)
  let ?w1 = "w\<lparr>pod_miner := Busy, pod_jobs := [Bk_Hash a]\<rparr>"
  let ?w2 = "w\<lparr>pod_broker := [], pod_topic := pod_topic w @ [NextBlock a (Some (pod_broker w @ [reward self])) p t]\<rparr>"
  have "Node_Receive t self MineBlock w = Some (?w1, [])"
    using last ready jobs by (simp add: Node_Receive_def pod_ops List.map_filter_def)
  then have 1: "pod_step w ?w1" by (rule pod_step.request) simp
  have "Node_Receive t self (ProofFound (Bk_Hash a) p) (?w1\<lparr>pod_jobs := []\<rparr>) = Some (?w2, [])"
    using last ready jobs by (simp add: Node_Receive_def pod_ops List.map_filter_def Let_def reward_def)
  then have "pod_step ?w1 ?w2" using p by (intro pod_step.mined [where h = "Bk_Hash a" and hs = "[]"]) simp_all
  with 1 show ?thesis by (meson converse_rtranclp_into_rtranclp rtranclp.rtrancl_refl)
qed

text \<open>A replica whose peers do not answer: it appends a block that links, and drops any other.\<close>

definition alone :: RepEnv where
  "alone = \<lparr>ask_peer = \<lambda>_ _. None, write_ok = \<lambda>_. True\<rparr>"

lemma alone_accepts:
  assumes "replica_inv x" and "linked (last (rep_chain x)) b"
  shows "Replica_step (alone, BlockMinted b) x =
     Some (x\<lparr>rep_chain := rep_chain x @ [b], rep_store := Store_Append b (rep_store x)\<rparr>)"
proof -
  have "Chain_Append b (rep_chain x) = Ok (rep_chain x @ [b])"
    using assms Chain_Append_iff(1) valid_chain_ne by (auto simp: replica_inv_def)
  then show ?thesis by (simp add: Replica_step_def Replica_Receive_def Replica_append_def alone_def Let_def)
qed

lemma alone_rejects:
  assumes "replica_inv x" and "Chain_Append b (rep_chain x) = Err e"
  shows "Replica_step (alone, BlockMinted b) x = Some x"
proof -
  have "longest_answer (\<lambda>_. None) ps [] = []" for ps by (induction ps) simp_all
  then show ?thesis using assms replica_tip
    by (simp add: Replica_step_def Replica_Receive_def Replica_append_def catchUp_def alone_def)
qed

section \<open>Properties\<close>

text \<open>
  C10: a replica's copy of the chain is always valid. From a store of blocks under their indexes on, any
  messages (announced blocks, well formed or not, answers of peers, failing writes with the restart they
  cause) leave a chain that starts with the genesis block, in which every block extends, links to,
  proves work on and hashes like it should, and which continues the chain it started with; and a restart
  from the store gives the same replica again.
\<close>

theorem replica_chain_valid:
  assumes start: "Replica_PreStart peers s = Ok x0" and keys: "\<forall>(k, b) \<in> set s. k = Bk_Index b"
  shows "\<exists>x bs. deliver Replica_step msgs x0 = Some x \<and> valid_chain (rep_chain x) \<and>
     rep_chain x = rep_chain x0 @ bs \<and> Replica_PreStart (rep_peers x) (rep_store x) = Ok x"
proof -
  obtain x bs where x: "deliver Replica_step msgs x0 = Some x" "replica_inv x" "rep_chain x = rep_chain x0 @ bs"
    using Replica_run [OF PreStart_inv [OF start keys]] by blast
  then have "Replica_PreStart (rep_peers x) (rep_store x) = Ok x"
    using restart_ok [of "rep_chain x" "rep_peers x"] by (simp add: replica_inv_def)
  with x show ?thesis by (auto simp: replica_inv_def)
qed

theorem replica_chain_valid_witness:
  "\<exists>x bs. deliver Replica_step [(\<lparr>ask_peer = \<lambda>_ _. None, write_ok = \<lambda>_. True\<rparr>, BlockMinted genesis)]
     \<lparr>rep_peers = [''chain-b''], rep_store = [], rep_chain = newChain\<rparr> = Some x \<and> rep_chain x = newChain @ bs"
proof -
  have "Replica_PreStart [''chain-b''] [] = Ok \<lparr>rep_peers = [''chain-b''], rep_store = [], rep_chain = newChain\<rparr>"
    by (simp add: Replica_PreStart_def Store_Load_def)
  from replica_chain_valid [OF this, of "[(\<lparr>ask_peer = \<lambda>_ _. None, write_ok = \<lambda>_. True\<rparr>, BlockMinted genesis)]"]
  show ?thesis by auto
qed



text \<open>
  C11: the proof of work is decided by the tip alone. Mining on a valid chain ends with the least valid
  proof, and the block built on it is accepted by every replica with that chain; or it does not end, and
  then no 64-bit proof is valid for that tip.
\<close>

theorem mined_block_accepted:
  assumes c: "valid_chain c"
  shows "case ProofOfWork (Bk_Hash (last c)) of
       None \<Rightarrow> \<forall>p. \<not> ValidProof (Bk_Hash (last c)) p
     | Some q \<Rightarrow> (\<forall>p. ValidProof (Bk_Hash (last c)) p \<longrightarrow> unat q \<le> unat p) \<and>
         Chain_Append (NextBlock (last c) ts q t) c = Ok (c @ [NextBlock (last c) ts q t]) \<and>
         valid_chain (c @ [NextBlock (last c) ts q t])"
proof (cases "ProofOfWork (Bk_Hash (last c))")
  case None
  then show ?thesis using pow_loop_least [of "Bk_Hash (last c)" _ 0] by (auto simp: ProofOfWork_def)
next
  case (Some q)
  have "linked (last c) (NextBlock (last c) ts q t)" by (rule NextBlock_linked [OF ProofOfWork_valid [OF Some]])
  moreover have "unat q \<le> unat p" if "ValidProof (Bk_Hash (last c)) p" for p
    using pow_loop_least [OF that, of 0] Some by (auto simp: ProofOfWork_def)
  ultimately show ?thesis
    using Some Chain_Append_iff(1) [OF valid_chain_ne [OF c]] valid_chain.extend [OF c] by auto
qed

theorem mined_block_accepted_witness:
  "\<exists>q. ProofOfWork (Bk_Hash (last newChain)) = Some q \<and> unat q \<le> 72608 \<and>
     valid_chain (newChain @ [NextBlock (last newChain) None q 0])"
proof -
  have v: "valid_chain newChain" by (simp add: newChain_eq valid_chain.start)
  have p: "ValidProof (Bk_Hash (last newChain)) 72608" using genesis_proof by (simp add: newChain_def genesisHash_def)
  have u: "unat (72608 :: 64 word) = 72608" by simp
  show ?thesis using mined_block_accepted [OF v, of None 0] p u by (auto split: option.splits)
qed

text \<open>
  C12: a replica that missed announcements catches up. Suppose the peers that answer hold prefixes of one
  valid chain (there is one miner) and the writes succeed. When an announced block does not extend its
  tip, a replica whose chain is a prefix of it too ends with the longest of these prefixes, in memory and
  in its store.
\<close>

theorem catch_up_longest:
  assumes v: "valid_chain full" and i: "replica_inv x" and own: "rep_chain x = take n full"
    and peers: "\<forall>p k. ask_peer env p k = map_option (\<lambda>m. Chain_Since k (take m full)) (height p)"
    and ok: "\<forall>b. write_ok env b" and rejected: "Chain_Append b (rep_chain x) = Err e"
  shows "\<exists>x'. Replica_step (env, BlockMinted b) x = Some x' \<and> replica_inv x' \<and>
     rep_chain x' = take (fold max (List.map_filter height (rep_peers x)) n) full"
proof -
  have vc: "valid_chain (rep_chain x)" using i by (simp add: replica_inv_def)
  note ne = valid_chain_ne [OF vc]
  let ?k = "length (rep_chain x)" and ?m = "fold max (List.map_filter height (rep_peers x)) n"
  let ?answer = "\<lambda>p. ask_peer env p (Bk_Index (last (rep_chain x)) + 1)"
  have "\<forall>p \<in> set (rep_peers x). ?answer p = map_option (\<lambda>m. drop ?k (take m full)) (height p)"
    using peers since_drop [OF v] by (simp add: tip_index [OF vc])
  moreover have "drop ?k (take n full) = []" using own by simp
  ultimately have longest: "longest_answer ?answer (rep_peers x) [] = drop ?k (take ?m full)"
    using longest_answer_take [of "rep_peers x" ?answer ?k full height n] by simp
  have "n \<le> ?m" by (rule fold_max_ge)
  then have "take n full = take ?k (take ?m full)" using own by (cases "n \<le> length full") simp_all
  then have all: "rep_chain x @ drop ?k (take ?m full) = take ?m full" using own by (metis append_take_drop_id)
  moreover have "valid_chain (take ?m full)"
    using valid_prefix [of "take ?m full" "drop ?m full"] v all ne by fastforce
  ultimately obtain x' where x': "catchUp_loop (write_ok env) (drop ?k (take ?m full)) x = Some (x', [])"
    "replica_inv x'" "rep_chain x' = take ?m full"
    using catchUp_loop_all [OF ok i, of "drop ?k (take ?m full)"] by auto
  then show ?thesis using rejected longest ne
    by (simp add: Replica_step_def Replica_Receive_def Replica_append_def catchUp_def Chain_Last_def)
qed

theorem catch_up_longest_witness:
  "\<exists>x'. Replica_step (\<lparr>ask_peer = \<lambda>p k. Some (Chain_Since k newChain), write_ok = \<lambda>_. True\<rparr>, BlockMinted genesis)
     \<lparr>rep_peers = [''chain-b''], rep_store = [], rep_chain = newChain\<rparr> = Some x' \<and> rep_chain x' = newChain"
proof -
  let ?x = "\<lparr>rep_peers = [''chain-b''], rep_store = [], rep_chain = newChain\<rparr>"
  have v: "valid_chain newChain" by (simp add: newChain_eq valid_chain.start)
  have i: "replica_inv ?x" using v by (simp add: replica_inv_def stored_def newChain_eq)
  have e: "Chain_Append genesis (rep_chain ?x) = Err (NotExtending 0 0)"
    by (simp add: Chain_Append_def Chain_Last_def newChain_def genesis_def)
  have t: "take (Suc 0) newChain = newChain" by (simp add: newChain_def)
  have "\<exists>x'. Replica_step (\<lparr>ask_peer = \<lambda>p k. Some (Chain_Since k newChain), write_ok = \<lambda>_. True\<rparr>, BlockMinted genesis)
      ?x = Some x' \<and> replica_inv x' \<and> rep_chain x' = take (fold max (List.map_filter (\<lambda>_. Some 1) (rep_peers ?x)) 1) newChain"
    by (rule catch_up_longest [OF v i _ _ _ e]) (simp_all add: t)
  then show ?thesis using t by (auto simp: List.map_filter_def)
qed

text \<open>
  Whatever the order of requests, proofs and deliveries, at most one proof of work runs at a time,
  and every block the node announces extends, links to and proves work on a block of its replica's chain.
\<close>

theorem announced_blocks_link:
  assumes start: "Replica_PreStart peers s = Ok x" and keys: "\<forall>(k, b) \<in> set s. k = Bk_Index b"
    and run: "pod_step\<^sup>*\<^sup>* \<lparr>pod_replica = x, pod_broker = [], pod_miner = ReadyBehavior, pod_jobs = [], pod_topic = []\<rparr> w"
  shows "length (pod_jobs w) \<le> 1 \<and> (\<forall>b \<in> set (pod_topic w). \<exists>a \<in> set (rep_chain (pod_replica w)). linked a b) \<and>
     valid_chain (rep_chain (pod_replica w))"
proof -
  have "pod_inv w" by (rule pod_run_inv [OF run]) (simp add: pod_inv_def PreStart_inv [OF start keys])
  then show ?thesis by (auto simp: pod_inv_def replica_inv_def split: Miner.splits)
qed

theorem announced_blocks_link_witness:
  "length (pod_jobs \<lparr>pod_replica = \<lparr>rep_peers = [], rep_store = [], rep_chain = newChain\<rparr>, pod_broker = [],
     pod_miner = Busy, pod_jobs = [''1''], pod_topic = []\<rparr>) \<le> 1"
proof -
  let ?x = "\<lparr>rep_peers = [], rep_store = [], rep_chain = newChain\<rparr>"
  let ?w = "\<lparr>pod_replica = ?x, pod_broker = [], pod_miner = ReadyBehavior, pod_jobs = [], pod_topic = []\<rparr>"
  let ?w' = "\<lparr>pod_replica = ?x, pod_broker = [], pod_miner = Busy, pod_jobs = [''1''], pod_topic = []\<rparr>"
  have 1: "Replica_PreStart [] [] = Ok ?x" by (simp add: Replica_PreStart_def Store_Load_def)
  have "Node_Receive 0 ''node0'' MineBlock ?w = Some (?w', [])"
    by (simp add: Node_Receive_def Chain_Last_def newChain_def genesisHash_def pod_ops List.map_filter_def)
  then have "pod_step ?w ?w'" by (rule pod_step.request) simp
  then have "pod_step\<^sup>*\<^sup>* ?w ?w'" by (rule r_into_rtranclp)
  from announced_blocks_link [OF 1 _ this] show ?thesis by simp
qed

text \<open>
  C37: a submitted transaction can be lost. The node clears the broker when it announces a block, before
  its replica has it; if it mines again on the same tip before the first announcement is delivered, it
  announces a second block of the same height, which every replica then rejects. A transaction submitted
  in between is acknowledged, and is neither pending nor on the chain in the end.
\<close>

theorem submitted_transaction_lost:
  assumes i: "pod_inv w" and idle: "pod_miner w = ReadyBehavior" "pod_topic w = []"
    and p: "ProofOfWork (Bk_Hash (last (rep_chain (pod_replica w)))) = Some p"
    and fresh: "tx \<noteq> reward self" "tx \<notin> set (pod_broker w)"
      "\<forall>b \<in> set (rep_chain (pod_replica w)). \<forall>ts. Bk_Transactions b = Some ts \<longrightarrow> tx \<notin> set ts"
  shows "\<exists>w1 w2 w3 k. pod_step\<^sup>*\<^sup>* w w1 \<and> Node_Receive t self (SubmitTransaction tx) w1 = Some (w2, [TransactionSubmitted k]) \<and>
     pod_step\<^sup>*\<^sup>* w2 w3 \<and> pod_topic w3 = [] \<and> tx \<notin> set (pod_broker w3) \<and>
     (\<forall>b \<in> set (rep_chain (pod_replica w3)). \<forall>ts. Bk_Transactions b = Some ts \<longrightarrow> tx \<notin> set ts)"
proof -
  let ?a = "last (rep_chain (pod_replica w))"
  let ?b = "NextBlock ?a (Some (pod_broker w @ [reward self])) p t"
  let ?b' = "NextBlock ?a (Some ([tx] @ [reward self])) p t"
  let ?w1 = "w\<lparr>pod_broker := [], pod_topic := [?b]\<rparr>" and ?w2 = "w\<lparr>pod_broker := [tx], pod_topic := [?b]\<rparr>"
  let ?w3 = "w\<lparr>pod_broker := [], pod_topic := [?b, ?b']\<rparr>"
  have r1: "pod_step\<^sup>*\<^sup>* w ?w1" using mining_round [OF i idle(1) refl p, of self t] idle(2) by simp
  have i1: "pod_inv ?w1" by (rule pod_run_inv [OF r1 i])
  have submit: "Node_Receive t self (SubmitTransaction tx) ?w1 = Some (?w2, [TransactionSubmitted (Bk_Index ?a + 1)])"
    using i replica_tip by (simp add: Node_Receive_def pod_ops pod_inv_def Let_def)
  have i2: "pod_inv ?w2" by (rule request_inv [OF i1 submit]) simp
  have r2: "pod_step\<^sup>*\<^sup>* ?w2 ?w3" using mining_round [OF i2, of ?a p self t] idle p by simp
  let ?x = "(pod_replica w)\<lparr>rep_chain := rep_chain (pod_replica w) @ [?b], rep_store := Store_Append ?b (rep_store (pod_replica w))\<rparr>"
  let ?w4 = "?w3\<lparr>pod_replica := ?x, pod_topic := [?b']\<rparr>"
  let ?w5 = "?w4\<lparr>pod_replica := ?x, pod_topic := []\<rparr>"
  have ri: "replica_inv (pod_replica w)" using i by (simp add: pod_inv_def)
  have acc: "Replica_step (alone, BlockMinted ?b) (pod_replica w) = Some ?x"
    by (rule alone_accepts [OF ri NextBlock_linked [OF ProofOfWork_valid [OF p]]])
  have "Chain_Append ?b' (rep_chain ?x) = Err (NotExtending (Bk_Index ?a + 1) (Bk_Index ?a + 1))"
    by (simp add: Chain_Append_def Chain_Last_def NextBlock_def Let_def)
  then have rej: "Replica_step (alone, BlockMinted ?b') ?x = Some ?x"
    using alone_rejects Replica_step_grows [OF acc ri] by blast
  have "pod_step ?w3 ?w4" using pod_step.deliver [of ?w3 ?b "[?b']" alone ?x] acc by simp
  moreover have "pod_step ?w4 ?w5" using pod_step.deliver [of ?w4 ?b' "[]" alone ?x] rej by simp
  ultimately have "pod_step\<^sup>*\<^sup>* ?w2 ?w5" using r2 by (meson rtranclp.rtrancl_into_rtrancl)
  moreover have "\<forall>b \<in> set (rep_chain (pod_replica ?w5)). \<forall>ts. Bk_Transactions b = Some ts \<longrightarrow> tx \<notin> set ts"
    using fresh by (simp add: NextBlock_def Let_def)
  ultimately show ?thesis using r1 submit
    by (intro exI [of _ ?w1] exI [of _ ?w2] exI [of _ ?w5] exI [of _ "Bk_Index ?a + 1"]) simp
qed

theorem submitted_transaction_lost_witness:
  "\<exists>w1 w2 w3 k. pod_step\<^sup>*\<^sup>* \<lparr>pod_replica = \<lparr>rep_peers = [], rep_store = [], rep_chain = newChain\<rparr>, pod_broker = [],
       pod_miner = ReadyBehavior, pod_jobs = [], pod_topic = []\<rparr> w1 \<and>
     Node_Receive 0 ''node0'' (SubmitTransaction \<lparr>Tx_Sender = ''ann'', Tx_Recipient = ''bob'', Tx_Value = 5\<rparr>) w1 =
       Some (w2, [TransactionSubmitted k]) \<and>
     pod_step\<^sup>*\<^sup>* w2 w3 \<and> pod_topic w3 = [] \<and> \<lparr>Tx_Sender = ''ann'', Tx_Recipient = ''bob'', Tx_Value = 5\<rparr> \<notin> set (pod_broker w3)"
proof -
  let ?x = "\<lparr>rep_peers = [], rep_store = [], rep_chain = newChain\<rparr>"
  let ?w = "\<lparr>pod_replica = ?x, pod_broker = [], pod_miner = ReadyBehavior, pod_jobs = [], pod_topic = []\<rparr>"
  let ?tx = "\<lparr>Tx_Sender = ''ann'', Tx_Recipient = ''bob'', Tx_Value = 5\<rparr> :: Transaction"
  have i: "pod_inv ?w" by (simp add: pod_inv_def replica_inv_def stored_def newChain_eq valid_chain.start)
  have "ValidProof (Bk_Hash (last (rep_chain (pod_replica ?w)))) 72608"
    using genesis_proof by (simp add: newChain_def genesisHash_def)
  then obtain p where p: "ProofOfWork (Bk_Hash (last (rep_chain (pod_replica ?w)))) = Some p"
    using pow_loop_least [of _ 72608 0] by (auto simp: ProofOfWork_def)
  have fresh: "?tx \<noteq> reward ''node0''" "?tx \<notin> set (pod_broker ?w)"
    "\<forall>b \<in> set (rep_chain (pod_replica ?w)). \<forall>ts. Bk_Transactions b = Some ts \<longrightarrow> ?tx \<notin> set ts"
    by (simp_all add: reward_def coinbase_def newChain_def)
  have idle: "pod_miner ?w = ReadyBehavior" "pod_topic ?w = []" by simp_all
  from submitted_transaction_lost [OF i idle p fresh, of 0] show ?thesis by blast
qed

end
