(* ===== verification/Go_Float.thy ===== *)
theory Go_Float
  imports Go_Std
begin

text \<open>
  The \<^verbatim>\<open>float64\<close> arithmetic of Go as the modelled code uses it: parsing a decimal literal
  (\<^verbatim>\<open>strconv.ParseFloat\<close>), the four operations, and printing with two decimals
  (\<^verbatim>\<open>fmt.Sprintf("%.2f")\<close>). A finite value is a sign, a natural mantissa and a binary exponent; every
  result is the exact one rounded to 53 bits, ties to even, with gradual underflow at \<open>2 ^ -1074\<close> and
  overflow to infinity at \<open>2 ^ 1024\<close>. The last section shows where the arithmetic is exact: on whole
  numbers below \<open>2 ^ 53\<close>.
\<close>

section \<open>Decimal digits\<close>

definition is_digit :: "char \<Rightarrow> bool" where
  "is_digit c \<longleftrightarrow> (let n = of_char c :: nat in 48 \<le> n \<and> n \<le> 57)"

definition digit_val :: "char \<Rightarrow> nat" where
  "digit_val c = of_char c - 48"

definition digit_char :: "nat \<Rightarrow> char" where
  "digit_char n = char_of (n + 48)"

definition dec_value :: "string \<Rightarrow> nat" where
  "dec_value s = fold (\<lambda>c n. 10 * n + digit_val c) s 0"

fun dec_string :: "nat \<Rightarrow> string" where
  "dec_string n = (if n < 10 then [digit_char n] else dec_string (n div 10) @ [digit_char (n mod 10)])"

declare dec_string.simps [simp del]

lemma digit_char_inverse [simp]: "n < 10 \<Longrightarrow> digit_val (digit_char n) = n"
  by (simp add: digit_val_def digit_char_def)

lemma digit_char_digit [simp]: "n < 10 \<Longrightarrow> is_digit (digit_char n)"
  by (simp add: is_digit_def digit_char_def)

lemma dec_value_snoc [simp]: "dec_value (s @ [c]) = 10 * dec_value s + digit_val c"
  by (simp add: dec_value_def)

lemma dec_value_single [simp]: "dec_value [c] = digit_val c"
  by (simp add: dec_value_def)

text \<open>Printing a number and reading it back.\<close>

lemma dec_roundtrip [simp]: "dec_value (dec_string n) = n"
proof (induction n rule: dec_string.induct)
  case (1 n)
  then show ?case by (cases "n < 10") (simp_all add: dec_string.simps [of n])
qed

lemma dec_string_digits [simp]: "list_all is_digit (dec_string n)"
proof (induction n rule: dec_string.induct)
  case (1 n)
  then show ?case by (cases "n < 10") (simp_all add: dec_string.simps [of n])
qed

lemma dec_string_nonempty [simp]: "dec_string n \<noteq> []"
  by (subst dec_string.simps) simp

section \<open>Rounding\<close>

datatype float64 = Fin bool nat int | Inf bool | NaN

text \<open>The number of bits of \<open>n\<close>.\<close>

fun bit_len :: "nat \<Rightarrow> nat" where
  "bit_len n = (if n = 0 then 0 else Suc (bit_len (n div 2)))"

declare bit_len.simps [simp del]

text \<open>The whole number nearest to \<open>p / q\<close>, ties to even.\<close>

definition round_even :: "nat \<Rightarrow> nat \<Rightarrow> nat" where
  "round_even p q =
     (let d = p div q; r = p mod q in
      if 2 * r < q then d
      else if q < 2 * r then d + 1
      else if even d then d else d + 1)"

text \<open>The fraction \<open>(p / q) * 2 ^ e\<close> with a whole numerator and denominator.\<close>

definition scale :: "nat \<Rightarrow> nat \<Rightarrow> int \<Rightarrow> nat \<times> nat" where
  "scale p q e = (if 0 \<le> e then (p * 2 ^ nat e, q) else (p, q * 2 ^ nat (- e)))"

text \<open>
  The exponent of the rounded value of \<open>p / q\<close>: the one that leaves a mantissa of 53 bits, never below
  the least one of the format.
\<close>

definition float_exp :: "nat \<Rightarrow> nat \<Rightarrow> int" where
  "float_exp p q =
     (let e = int (bit_len p) - int (bit_len q) - 53;
          (a, b) = scale p q (- e) in
      max (- 1074) (if 2 ^ 53 * b \<le> a then e + 1 else e))"

definition round64 :: "bool \<Rightarrow> nat \<Rightarrow> nat \<Rightarrow> float64" where
  "round64 neg p q =
     (if p = 0 then Fin neg 0 0
      else let e = float_exp p q;
               (a, b) = scale p q (- e);
               m = round_even a b in
           if 0 \<le> e \<and> 2 ^ 1024 \<le> m * 2 ^ nat e then Inf neg else Fin neg m e)"

section \<open>Operations\<close>

definition signed :: "bool \<Rightarrow> nat \<Rightarrow> int" where
  "signed neg m = (if neg then - int m else int m)"

definition float_mul :: "float64 \<Rightarrow> float64 \<Rightarrow> float64" where
  "float_mul x y =
     (case (x, y) of
        (Fin s m e, Fin t n f) \<Rightarrow> (let (p, q) = scale (m * n) 1 (e + f) in round64 (s \<noteq> t) p q)
      | (Fin s m e, Inf t) \<Rightarrow> if m = 0 then NaN else Inf (s \<noteq> t)
      | (Inf s, Fin t n f) \<Rightarrow> if n = 0 then NaN else Inf (s \<noteq> t)
      | (Inf s, Inf t) \<Rightarrow> Inf (s \<noteq> t)
      | _ \<Rightarrow> NaN)"

definition float_div :: "float64 \<Rightarrow> float64 \<Rightarrow> float64" where
  "float_div x y =
     (case (x, y) of
        (Fin s m e, Fin t n f) \<Rightarrow>
          if n = 0 then (if m = 0 then NaN else Inf (s \<noteq> t))
          else (let (p, q) = scale m n (e - f) in round64 (s \<noteq> t) p q)
      | (Fin s m e, Inf t) \<Rightarrow> Fin (s \<noteq> t) 0 0
      | (Inf s, Fin t n f) \<Rightarrow> Inf (s \<noteq> t)
      | _ \<Rightarrow> NaN)"

text \<open>An exact sum is taken at the smaller of the two exponents; a zero sum is \<open>+0\<close> unless both are negative.\<close>

definition float_add :: "float64 \<Rightarrow> float64 \<Rightarrow> float64" where
  "float_add x y =
     (case (x, y) of
        (Fin s m e, Fin t n f) \<Rightarrow>
          (let k = min e f;
               v = signed s (m * 2 ^ nat (e - k)) + signed t (n * 2 ^ nat (f - k));
               (p, q) = scale (nat \<bar>v\<bar>) 1 k in
           round64 (if v = 0 then s \<and> t else v < 0) p q)
      | (Fin s m e, Inf t) \<Rightarrow> Inf t
      | (Inf s, Fin t n f) \<Rightarrow> Inf s
      | (Inf s, Inf t) \<Rightarrow> if s = t then Inf s else NaN
      | _ \<Rightarrow> NaN)"

fun float_neg :: "float64 \<Rightarrow> float64" where
  "float_neg (Fin s m e) = Fin (\<not> s) m e"
| "float_neg (Inf s) = Inf (\<not> s)"
| "float_neg NaN = NaN"

definition float_sub :: "float64 \<Rightarrow> float64 \<Rightarrow> float64" where
  "float_sub x y = float_add x (float_neg y)"

text \<open>\<^verbatim>\<open>x == 0\<close>: both zeros are equal to it.\<close>

fun float_is_zero :: "float64 \<Rightarrow> bool" where
  "float_is_zero (Fin s m e) = (m = 0)"
| "float_is_zero _ = False"

text \<open>\<^verbatim>\<open>strconv.ParseFloat\<close> on digits with an optional fraction; too large a literal gives the infinity.\<close>

definition ParseFloat :: "string \<Rightarrow> float64" where
  "ParseFloat s =
     (case Cut s CHR ''.'' of
        None \<Rightarrow> round64 False (dec_value s) 1
      | Some (a, b) \<Rightarrow> round64 False (dec_value (a @ b)) (10 ^ length b))"

text \<open>\<^verbatim>\<open>fmt.Sprintf("%.2f", x)\<close>.\<close>

fun format_2f :: "float64 \<Rightarrow> string" where
  "format_2f (Fin s m e) =
     (let (p, q) = scale (100 * m) 1 e; h = round_even p q in
      (if s then ''-'' else []) @ dec_string (h div 100) @ ''.'' @
        [digit_char (h mod 100 div 10), digit_char (h mod 10)])"
| "format_2f (Inf s) = (if s then ''-Inf'' else ''+Inf'')"
| "format_2f NaN = ''NaN''"

section \<open>Exactness\<close>

text \<open>The finite value that stands for the whole number \<open>z\<close>, with zero as \<open>+0\<close>.\<close>

definition denotes :: "float64 \<Rightarrow> int \<Rightarrow> bool" where
  "denotes x z \<longleftrightarrow> (\<exists>j. x = Fin (z < 0) (nat \<bar>z\<bar> * 2 ^ j) (- int j))"

lemma bit_len_pos [simp]: "0 < bit_len n \<longleftrightarrow> 0 < n"
  by (subst bit_len.simps) simp

lemma bit_len_bounds: "n < 2 ^ bit_len n" "0 < n \<Longrightarrow> 2 ^ bit_len n \<le> 2 * n"
proof (induction n rule: bit_len.induct)
  case (1 n)
  { case 1
    show ?case
    proof (cases "n = 0")
      case False
      have "n div 2 < 2 ^ bit_len (n div 2)" using "1.IH"(1) False by simp
      then show ?thesis using False by (subst bit_len.simps) simp
    qed simp
  next
    case 2
    show ?case
    proof (cases "n div 2 = 0")
      case True
      then show ?thesis using 2 by (subst bit_len.simps, subst bit_len.simps) simp
    next
      case False
      then have "2 ^ bit_len (n div 2) \<le> 2 * (n div 2)" using "1.IH"(2) 2 by simp
      then show ?thesis using 2 by (subst bit_len.simps) simp
    qed }
qed

lemma bit_len_le:
  assumes "n < 2 ^ k" shows "bit_len n \<le> k"
proof (cases "n = 0")
  case False
  have "2 ^ bit_len n < (2 :: nat) ^ Suc k"
    using bit_len_bounds(2) [of n] False assms by simp
  then show ?thesis using power_strict_increasing_iff [of "2 :: nat" "bit_len n" "Suc k"] by simp
qed (simp add: bit_len.simps)

lemma round_even_exact [simp]: "0 < q \<Longrightarrow> round_even (p * q) q = p"
  by (simp add: round_even_def)

lemma scale_neg [simp]: "scale p q (- int j) = (p, q * 2 ^ j)"
  by (simp add: scale_def)

lemma scale_nat [simp]: "scale p q (int j) = (p * 2 ^ j, q)"
  by (simp add: scale_def)

lemma float_exp_whole:
  assumes "z < 2 ^ 53" and "0 < q"
  shows "float_exp (z * q) q \<le> 0"
proof -
  have "z * q < 2 ^ 53 * 2 ^ bit_len q"
    using assms bit_len_bounds(1) [of q] by (intro mult_strict_mono) auto
  then have "bit_len (z * q) \<le> 53 + bit_len q" by (intro bit_len_le) (simp add: power_add)
  then have "int (bit_len (z * q)) - int (bit_len q) - 53 \<le> 0" (is "?e \<le> 0") by simp
  then consider "?e = 0" | "?e + 1 \<le> 0" by linarith
  then show ?thesis
  proof cases
    case 1
    with assms show ?thesis by (simp add: float_exp_def scale_def)
  next
    case 2
    then show ?thesis by (simp add: float_exp_def Let_def split: prod.split)
  qed
qed

text \<open>A fraction that is a whole number below \<open>2 ^ 53\<close> is not changed by the rounding.\<close>

lemma round64_whole:
  assumes "z < 2 ^ 53" and "0 < q"
  shows "\<exists>j. round64 neg (z * q) q = Fin neg (z * 2 ^ j) (- int j)"
proof (cases "z = 0")
  case False
  define j where "j = nat (- float_exp (z * q) q)"
  have e: "float_exp (z * q) q = - int j" using float_exp_whole [OF assms] by (simp add: j_def)
  have "round_even (z * q * 2 ^ j) q = z * 2 ^ j"
    using round_even_exact [of q "z * 2 ^ j"] assms(2) by (simp add: ac_simps)
  moreover have "z < 2 ^ 1024" using assms(1) by (rule less_trans) simp
  ultimately have "round64 neg (z * q) q = Fin neg (z * 2 ^ j) (- int j)"
    using False assms(2) by (auto simp: round64_def e Let_def)
  then show ?thesis by blast
qed (auto simp: round64_def)

lemma round64_denotes:
  assumes "\<bar>z\<bar> < 2 ^ 53" and "0 < q" and "p = nat \<bar>z\<bar> * q"
  shows "denotes (round64 (z < 0) p q) z"
proof -
  have "nat \<bar>z\<bar> < 2 ^ 53" using assms(1) by (simp add: nat_less_iff)
  from round64_whole [OF this assms(2)] show ?thesis by (auto simp: denotes_def assms(3))
qed

lemma ParseFloat_whole:
  assumes "list_all is_digit s" and "dec_value s < 2 ^ 53"
  shows "denotes (ParseFloat s) (int (dec_value s))"
proof -
  have "CHR ''.'' \<notin> set s" using assms(1) by (auto simp: list_all_iff is_digit_def)
  then have "Cut s CHR ''.'' = None" by (induction s) auto
  moreover have "denotes (round64 (int (dec_value s) < 0) (dec_value s) 1) (int (dec_value s))"
    by (rule round64_denotes) (use assms(2) in auto)
  ultimately show ?thesis by (simp add: ParseFloat_def)
qed

lemma denotes_nonneg:
  assumes "denotes x z" and "0 \<le> z"
  obtains j where "x = Fin False (nat z * 2 ^ j) (- int j)"
  using assms by (auto simp: denotes_def)

lemma signed_mult [simp]: "signed s (m * c) = signed s m * int c"
  by (simp add: signed_def)

lemma float_mul_exact:
  assumes "denotes x a" and "denotes y b" and "0 \<le> a" and "0 \<le> b" and "a * b < 2 ^ 53"
  shows "denotes (float_mul x y) (a * b)"
proof -
  from assms(1,3) obtain i where x: "x = Fin False (nat a * 2 ^ i) (- int i)" by (rule denotes_nonneg)
  from assms(2,4) obtain j where y: "y = Fin False (nat b * 2 ^ j) (- int j)" by (rule denotes_nonneg)
  have e: "- int i + - int j = - int (i + j)" by simp
  have "float_mul x y = round64 (a * b < 0) (nat a * 2 ^ i * (nat b * 2 ^ j)) (2 ^ (i + j))"
    using assms(3,4) unfolding x y float_mul_def Let_def prod.case float64.case e scale_neg
    by (simp add: mult_less_0_iff)
  moreover have "nat a * 2 ^ i * (nat b * 2 ^ j) = nat \<bar>a * b\<bar> * 2 ^ (i + j)"
    using assms(3,4) by (simp add: nat_mult_distrib power_add ac_simps)
  ultimately show ?thesis
    using round64_denotes [of "a * b" "2 ^ (i + j)"] assms(3-5) by simp
qed

lemma float_div_exact:
  assumes "denotes x a" and "denotes y b" and "0 < b" and "0 \<le> r" and "a = r * b" and "r < 2 ^ 53"
  shows "denotes (float_div x y) r"
proof -
  have "0 \<le> a" using assms(3-5) by simp
  with assms(1) obtain i where x: "x = Fin False (nat (r * b) * 2 ^ i) (- int i)"
    unfolding assms(5) by (rule denotes_nonneg)
  from assms(2) less_imp_le [OF assms(3)] obtain j where y: "y = Fin False (nat b * 2 ^ j) (- int j)"
    by (rule denotes_nonneg)
  obtain q where q: "scale (nat (r * b) * 2 ^ i) (nat b * 2 ^ j) (- int i - - int j) = (nat r * q, q)" "0 < q"
  proof (cases "i \<le> j")
    case True
    then have e: "- int i - - int j = int (j - i)" by simp
    have "nat (r * b) * 2 ^ i * 2 ^ (j - i) = nat r * (nat b * 2 ^ j)"
      using True assms(3,4) by (simp add: nat_mult_distrib mult.assoc flip: power_add)
    then show ?thesis
      by (intro that [of "nat b * 2 ^ j"]) (use assms(3) in \<open>simp_all only: e scale_nat\<close>, simp)
  next
    case False
    then have e: "- int i - - int j = - int (i - j)" by simp
    have "nat b * 2 ^ j * 2 ^ (i - j) = nat b * 2 ^ i"
      using False by (simp add: mult.assoc flip: power_add)
    moreover have "nat (r * b) * 2 ^ i = nat r * (nat b * 2 ^ i)"
      using assms(3,4) by (simp add: nat_mult_distrib)
    ultimately show ?thesis
      by (intro that [of "nat b * 2 ^ i"]) (use assms(3) in \<open>simp_all only: e scale_neg\<close>, simp)
  qed
  have "float_div x y = round64 (r < 0) (nat r * q) q"
    using assms(3,4) unfolding x y float_div_def Let_def prod.case float64.case q(1) by simp
  then show ?thesis using round64_denotes [of r q] q(2) assms(4,6) by simp
qed

lemma float_add_exact:
  assumes "x = Fin s m (- int i)" and "y = Fin t n (- int j)" and "signed s m = a * 2 ^ i" and "signed t n = b * 2 ^ j"
    and "\<not> (s \<and> t)" and "\<bar>a + b\<bar> < 2 ^ 53"
  shows "denotes (float_add x y) (a + b)"
proof -
  define k where "k = max i j"
  have k: "min (- int i) (- int j) = - int k" "- int i - - int k = int (k - i)" "- int j - - int k = int (k - j)"
    by (auto simp: k_def)
  have "signed s (m * 2 ^ (k - i)) = a * 2 ^ k"
    using assms(3) by (simp add: k_def mult.assoc flip: power_add)
  moreover have "signed t (n * 2 ^ (k - j)) = b * 2 ^ k"
    using assms(4) by (simp add: k_def mult.assoc flip: power_add)
  ultimately have v: "signed s (m * 2 ^ (k - i)) + signed t (n * 2 ^ (k - j)) = (a + b) * 2 ^ k"
    by (simp add: algebra_simps)
  have "float_add x y = round64 (a + b < 0) (nat \<bar>(a + b) * 2 ^ k\<bar>) (2 ^ k)"
    using assms(5) unfolding assms(1,2) float_add_def Let_def prod.case float64.case k nat_int v
    by (cases s) (simp_all add: mult_less_0_iff)
  moreover have "nat \<bar>(a + b) * 2 ^ k\<bar> = nat \<bar>a + b\<bar> * 2 ^ k"
    by (simp add: abs_mult nat_mult_distrib)
  ultimately show ?thesis using round64_denotes [OF assms(6), of "2 ^ k"] by simp
qed

lemma float_add_whole:
  assumes "denotes x a" and "denotes y b" and "0 \<le> a" and "0 \<le> b" and "a + b < 2 ^ 53"
  shows "denotes (float_add x y) (a + b)"
proof -
  from assms(1,3) obtain i where "x = Fin False (nat a * 2 ^ i) (- int i)" by (rule denotes_nonneg)
  moreover from assms(2,4) obtain j where "y = Fin False (nat b * 2 ^ j) (- int j)" by (rule denotes_nonneg)
  ultimately show ?thesis using assms(3-5) by (intro float_add_exact) (auto simp: signed_def)
qed

lemma float_sub_whole:
  assumes "denotes x a" and "denotes y b" and "0 \<le> a" and "0 \<le> b" and "\<bar>a - b\<bar> < 2 ^ 53"
  shows "denotes (float_sub x y) (a - b)"
proof -
  from assms(1,3) obtain i where "x = Fin False (nat a * 2 ^ i) (- int i)" by (rule denotes_nonneg)
  moreover from assms(2) obtain j where "float_neg y = Fin True (nat b * 2 ^ j) (- int j)"
    using assms(4) by (auto simp: denotes_def)
  ultimately have "denotes (float_add x (float_neg y)) (a + - b)"
    using assms(3-5) by (intro float_add_exact) (auto simp: signed_def)
  then show ?thesis by (simp add: float_sub_def)
qed

text \<open>A whole number is printed in decimal, with two zeros.\<close>

definition whole_string :: "int \<Rightarrow> string" where
  "whole_string z = (if z < 0 then ''-'' else []) @ dec_string (nat \<bar>z\<bar>) @ ''.00''"

lemma digit_char_0: "digit_char 0 = CHR ''0''"
  by code_simp

lemma format_2f_whole:
  assumes "denotes x z"
  shows "format_2f x = whole_string z"
proof -
  from assms obtain j where x: "x = Fin (z < 0) (nat \<bar>z\<bar> * 2 ^ j) (- int j)" by (auto simp: denotes_def)
  have "round_even (100 * nat \<bar>z\<bar> * 2 ^ j) (2 ^ j) = 100 * nat \<bar>z\<bar>" by (rule round_even_exact) simp
  moreover have "100 * n mod 10 = 0" for n :: nat by presburger
  ultimately show ?thesis
    by (simp add: x Let_def whole_string_def mult.assoc digit_char_0)
qed

lemma denotes_zero_iff: "denotes x z \<Longrightarrow> float_is_zero x \<longleftrightarrow> z = 0"
  by (auto simp: denotes_def)

end
