(* ===== verification/Blockchain_Service.thy ===== *)
theory Blockchain_Service
  imports Blockchain Bank Go_Float
begin

text \<open>
  The REST service in front of the chain (\<^verbatim>\<open>goakt-blockchain/service/service.go\<close>): every request handler,
  with the look-up of the node singleton or of the local replica, the ask, and the status it answers with.
  What the cluster does to a look-up and to an ask is an argument; decoding a request body and encoding a
  response are left to the JSON package.
\<close>

section \<open>Integers in a query\<close>

text \<open>\<^verbatim>\<open>strconv.ParseInt(s, 10, 64)\<close>: an optional sign, digits, and the range of 64 bits.\<close>

definition ParseInt64 :: "string \<Rightarrow> int option" where
  "ParseInt64 s =
     (let (neg, d) = (case s of [] \<Rightarrow> (False, [])
                              | c # s' \<Rightarrow> if c = CHR ''-'' then (True, s') else if c = CHR ''+'' then (False, s') else (False, s));
          n = (if neg then - int (dec_value d) else int (dec_value d)) in
      if d = [] \<or> \<not> list_all is_digit d then None
      else if n < - (2 ^ 63) \<or> 2 ^ 63 \<le> n then None
      else Some n)"

lemma digit_not_sign: "is_digit c \<Longrightarrow> c \<noteq> CHR ''-'' \<and> c \<noteq> CHR ''+''"
  by (auto simp: is_digit_def)

lemma ParseInt64_nat:
  assumes "n < 2 ^ 63"
  shows "ParseInt64 (dec_string n) = Some (int n)"
proof -
  obtain c s where cs: "dec_string n = c # s" using dec_string_nonempty [of n] by (cases "dec_string n") auto
  then have "list_all is_digit (c # s)" "dec_value (c # s) = n"
    using dec_string_digits [of n] dec_roundtrip [of n] by simp_all
  moreover have "int n < 2 ^ 63" using assms by simp
  ultimately show ?thesis using digit_not_sign [of c] by (simp add: ParseInt64_def cs Let_def)
qed

lemma ParseInt64_range: "ParseInt64 s = Some n \<Longrightarrow> - (2 ^ 63) \<le> n \<and> n < 2 ^ 63"
  by (auto simp: ParseInt64_def Let_def split: if_splits list.splits)

section \<open>Requests to the actors\<close>

datatype svc_error = ErrActorNotFound | SvcErr string

text \<open>One request: the error of the look-up, if any, and what becomes of the message.\<close>

record route =
  look_up :: "svc_error option"
  carry :: net

text \<open>
  The node is resolved across the cluster (\<open>None\<close>: the singleton does not run); \<open>t\<close> is the clock and \<open>self\<close>
  the node's own name. A node that panics or does not answer leaves the asker with a timeout.
\<close>

definition resolve :: "route \<Rightarrow> 'a option \<Rightarrow> svc_error + 'a" where
  "resolve e a = (case look_up e of Some err \<Rightarrow> Inl err | None \<Rightarrow> (case a of None \<Rightarrow> Inl ErrActorNotFound | Some x \<Rightarrow> Inr x))"

definition timeout :: svc_error where
  "timeout = SvcErr ''request timed out''"

definition svc_ask :: "route \<Rightarrow> int \<Rightarrow> string \<Rightarrow> node_msg \<Rightarrow> Pod option \<Rightarrow> (svc_error + node_reply) \<times> Pod option" where
  "svc_ask e t self msg w =
     (case resolve e w of
        Inl err \<Rightarrow> (Inl err, w)
      | Inr pod \<Rightarrow>
          (case Node_Receive t self msg pod of
             None \<Rightarrow> (Inl timeout, w)
           | Some (pod', rs) \<Rightarrow>
               (case carry e of
                  Lost err \<Rightarrow> (Inl (SvcErr err), w)
                | ReplyLost err \<Rightarrow> (Inl (SvcErr err), Some pod')
                | Delivered \<Rightarrow> ((case rs of r # _ \<Rightarrow> Inr r | [] \<Rightarrow> Inl timeout), Some pod'))))"

section \<open>The handlers\<close>

text \<open>A response: an error text, or a JSON payload; \<open>HandlerPanic\<close> is a failed type assertion.\<close>

datatype response =
    ErrorText int string
  | ChainBody "Block list"
  | PendingBody "Transaction list"
  | MessageBody int string
  | ValidBody bool
  | HandlerPanic

definition writeError :: "svc_error \<Rightarrow> response" where
  "writeError err =
     (case err of
        ErrActorNotFound \<Rightarrow> ErrorText 503 ''blockchain node not available yet''
      | SvcErr m \<Rightarrow> ErrorText 500 m)"

text \<open>The chain is read from the replica of the pod that serves the request.\<close>

definition getStatus :: "route \<Rightarrow> RepEnv \<Rightarrow> Replica option \<Rightarrow> response" where
  "getStatus e env local =
     (case resolve e local of
        Inl err \<Rightarrow> writeError err
      | Inr x \<Rightarrow>
          (case carry e of
             Lost err \<Rightarrow> writeError (SvcErr err)
           | ReplyLost err \<Rightarrow> writeError (SvcErr err)
           | Delivered \<Rightarrow>
               (case Replica_Receive env GetChain x of
                  Some (_, RepChainState bs # _) \<Rightarrow> ChainBody bs
                | Some (_, []) \<Rightarrow> writeError timeout
                | None \<Rightarrow> writeError timeout
                | _ \<Rightarrow> HandlerPanic)))"

definition getTransactions :: "route \<Rightarrow> int \<Rightarrow> string \<Rightarrow> Pod option \<Rightarrow> response \<times> Pod option" where
  "getTransactions e t self w =
     (let (r, w') = svc_ask e t self GetPendingTransactions w in
      (case r of Inl err \<Rightarrow> writeError err | Inr (NodePending items) \<Rightarrow> PendingBody items | _ \<Rightarrow> HandlerPanic, w'))"

text \<open>The body decodes to a transaction, or not: \<open>Inl\<close> is the decoder's error.\<close>

definition submitTransaction :: "route \<Rightarrow> int \<Rightarrow> string \<Rightarrow> string + Transaction \<Rightarrow> Pod option \<Rightarrow> response \<times> Pod option" where
  "submitTransaction e t self req w =
     (case req of
        Inl err \<Rightarrow> (ErrorText 400 err, w)
      | Inr tx \<Rightarrow>
          (let (r, w') = svc_ask e t self (SubmitTransaction tx) w in
           (case r of
              Inl err \<Rightarrow> writeError err
            | Inr (TransactionSubmitted i) \<Rightarrow>
                MessageBody 201 (''Transaction will be added to block '' @ (if i < 0 then ''-'' else []) @ dec_string (nat \<bar>i\<bar>))
            | _ \<Rightarrow> HandlerPanic, w')))"

text \<open>Mining is started by a message without a reply; the response does not wait for it.\<close>

definition mine :: "route \<Rightarrow> int \<Rightarrow> string \<Rightarrow> Pod option \<Rightarrow> response \<times> Pod option" where
  "mine e t self w =
     (case resolve e w of
        Inl err \<Rightarrow> (writeError err, w)
      | Inr pod \<Rightarrow>
          (let w' = (case Node_Receive t self MineBlock pod of None \<Rightarrow> w | Some (pod', _) \<Rightarrow> Some pod') in
           case carry e of
             Lost err \<Rightarrow> (writeError (SvcErr err), w)
           | ReplyLost err \<Rightarrow> (writeError (SvcErr err), w')
           | Delivered \<Rightarrow> (MessageBody 202 ''Mining started'', w')))"

definition validate :: "route \<Rightarrow> int \<Rightarrow> string \<Rightarrow> string \<Rightarrow> Pod option \<Rightarrow> response \<times> Pod option" where
  "validate e t self param w =
     (case ParseInt64 param of
        None \<Rightarrow> (ErrorText 400 ''invalid or missing proof query parameter'', w)
      | Some p \<Rightarrow>
          (let (r, w') = svc_ask e t self (CheckPowSolution (word_of_int p)) w in
           (case r of Inl err \<Rightarrow> writeError err | Inr (NodeValidity v) \<Rightarrow> ValidBody v | _ \<Rightarrow> HandlerPanic, w')))"

section \<open>Every request is served\<close>

datatype api_request =
    GetStatus RepEnv
  | GetTransactionsReq
  | PostTransaction "string + Transaction"
  | GetMine
  | GetValidate string

definition serve_api :: "route \<Rightarrow> int \<Rightarrow> string \<Rightarrow> api_request \<Rightarrow> Pod option \<Rightarrow> response \<times> Pod option" where
  "serve_api e t self req w =
     (case req of
        GetStatus env \<Rightarrow> (getStatus e env (map_option pod_replica w), w)
      | GetTransactionsReq \<Rightarrow> getTransactions e t self w
      | PostTransaction r \<Rightarrow> submitTransaction e t self r w
      | GetMine \<Rightarrow> mine e t self w
      | GetValidate p \<Rightarrow> validate e t self p w)"

lemmas api_defs = getStatus_def getTransactions_def submitTransaction_def mine_def validate_def svc_ask_def resolve_def

definition svc_inv :: "Pod option \<Rightarrow> bool" where
  "svc_inv w = (case w of None \<Rightarrow> True | Some pod \<Rightarrow> pod_inv pod)"

text \<open>A request that reaches the node is answered with the kind of reply its handler asserts.\<close>

lemma Node_Receive_replies:
  assumes "pod_inv pod"
  shows "\<exists>pod'. Node_Receive t self GetPendingTransactions pod = Some (pod', [NodePending (pod_broker pod)])"
    and "\<exists>pod' i. Node_Receive t self (SubmitTransaction tx) pod = Some (pod', [TransactionSubmitted i])"
    and "\<exists>pod'. Node_Receive t self MineBlock pod = Some (pod', [])"
    and "\<exists>pod' v. Node_Receive t self (CheckPowSolution p) pod = Some (pod', [NodeValidity v])"
  using assms replica_tip by (auto simp: Node_Receive_def pod_inv_def Let_def tell_broker_def)

lemma request_keeps_inv:
  assumes "pod_inv pod" and "Node_Receive t self msg pod = Some (pod', rs)"
    and "msg \<in> {GetPendingTransactions, MineBlock} \<union> range SubmitTransaction \<union> range CheckPowSolution"
  shows "pod_inv pod'"
  using assms by (intro request_inv [OF assms(1,2)]) auto

lemma svc_ask_inv:
  assumes "svc_inv w" and "msg \<in> {GetPendingTransactions, MineBlock} \<union> range SubmitTransaction \<union> range CheckPowSolution"
  shows "svc_inv (snd (svc_ask e t self msg w))"
proof (cases "resolve e w")
  case (Inr pod)
  then have w: "w = Some pod" by (auto simp: resolve_def split: option.splits)
  show ?thesis
  proof (cases "Node_Receive t self msg pod")
    case None
    then show ?thesis using assms(1) by (simp add: svc_ask_def Inr)
  next
    case (Some z)
    then obtain pod' rs where z: "Node_Receive t self msg pod = Some (pod', rs)" by (cases z) auto
    then have "pod_inv pod'" using assms w request_keeps_inv by (auto simp: svc_inv_def)
    then show ?thesis using assms(1) by (auto simp: svc_ask_def Inr z svc_inv_def split: net.split)
  qed
qed (use assms(1) in \<open>simp add: svc_ask_def\<close>)

lemma mine_inv:
  assumes "svc_inv w" shows "svc_inv (snd (mine e t self w))"
proof (cases "resolve e w")
  case (Inr pod)
  then have w: "w = Some pod" by (auto simp: resolve_def split: option.splits)
  obtain pod' where z: "Node_Receive t self MineBlock pod = Some (pod', [])"
    using Node_Receive_replies(3) [of pod t self] assms w by (auto simp: svc_inv_def)
  have "pod_inv pod'" by (rule request_keeps_inv [OF _ z]) (use assms w in \<open>simp_all add: svc_inv_def\<close>)
  then show ?thesis using assms by (cases "carry e") (simp_all add: mine_def Inr z svc_inv_def Let_def)
qed (use assms in \<open>simp add: mine_def\<close>)

lemma serve_api_inv:
  assumes w: "svc_inv w" shows "svc_inv (snd (serve_api e t self req w))"
proof (cases req)
  case (PostTransaction r)
  then show ?thesis using w svc_ask_inv [OF w, of "SubmitTransaction (projr r)" e t self]
    by (cases r) (auto simp: serve_api_def submitTransaction_def split: prod.split)
next
  case (GetValidate p)
  then show ?thesis using w svc_ask_inv [OF w, of "CheckPowSolution (word_of_int (the (ParseInt64 p)))" e t self]
    by (cases "ParseInt64 p") (auto simp: serve_api_def validate_def split: prod.split)
next
  case GetTransactionsReq
  then show ?thesis using svc_ask_inv [OF w, of GetPendingTransactions e t self]
    by (auto simp: serve_api_def getTransactions_def split: prod.split)
qed (use w mine_inv [OF w, of e t self] in \<open>auto simp: serve_api_def\<close>)

interpretation api: total_actor "\<lambda>(e, t, self, req) w. snd (serve_api e t self req w)" svc_inv
  by unfold_locales (auto intro: serve_api_inv)

lemma writeError_no_panic [simp]: "writeError err \<noteq> HandlerPanic"
  by (simp add: writeError_def split: svc_error.split)

text \<open>No handler fails on the reply it gets.\<close>

lemma api_never_panics:
  assumes "svc_inv w" shows "fst (serve_api e t self req w) \<noteq> HandlerPanic"
proof (cases "resolve e w")
  case (Inl err)
  then have "resolve e (map_option pod_replica w) = Inl err" by (auto simp: resolve_def split: option.splits)
  with Inl show ?thesis
    by (cases req) (auto simp: serve_api_def getStatus_def getTransactions_def submitTransaction_def mine_def
        validate_def svc_ask_def split: option.split sum.split)
next
  case (Inr pod)
  then have pod: "pod_inv pod" "w = Some pod" "look_up e = None"
    using assms by (auto simp: resolve_def svc_inv_def split: option.splits)
  note replies = Node_Receive_replies [OF pod(1), of t self]
  show ?thesis
  proof (cases req)
    case (PostTransaction r)
    then show ?thesis using pod(2,3) replies(2) [of "projr r"]
      by (cases r; cases "carry e") (auto simp: serve_api_def api_defs)
  next
    case (GetValidate p)
    then show ?thesis using pod(2,3) replies(4) [of "word_of_int (the (ParseInt64 p))"]
      by (cases "ParseInt64 p"; cases "carry e") (auto simp: serve_api_def api_defs)
  qed (use pod(2,3) replies(1,3) in \<open>cases "carry e"; auto simp: serve_api_def api_defs Replica_Receive_def\<close>)+
qed

lemma validate_exact:
  assumes "pod_inv pod" and "look_up e = None" and "carry e = Delivered" and "n < 2 ^ 63"
  shows "validate e t self (dec_string n) (Some pod) =
    (ValidBody (ValidProof (Bk_Hash (last (rep_chain (pod_replica pod)))) (of_nat n)), Some pod)"
proof -
  have "Chain_Last (rep_chain (pod_replica pod)) = Some (last (rep_chain (pod_replica pod)))"
    using assms(1) replica_tip by (simp add: pod_inv_def)
  then show ?thesis using assms(2,3)
    by (simp add: validate_def ParseInt64_nat [OF assms(4)] svc_ask_def resolve_def Node_Receive_def)
qed

section \<open>Properties\<close>

text \<open>
  C24: a transaction that is posted and mined appears on the chain in the block the response promised. From a
  fresh pod on, in any state in which the miner is idle and no block is in flight: the post is answered with
  201 and a block number, the request to mine with 202, and when the proof is found and the block delivered,
  the status shows a newest block that has this number and contains the transaction.
\<close>

theorem posted_transaction_minted:
  assumes "Replica_PreStart peers [] = Ok x"
    and "pod_step\<^sup>*\<^sup>* \<lparr>pod_replica = x, pod_broker = [], pod_miner = ReadyBehavior, pod_jobs = [], pod_topic = []\<rparr> w"
    and "pod_miner w = ReadyBehavior" and "pod_topic w = []"
    and p: "ProofOfWork (Bk_Hash (last (rep_chain (pod_replica w)))) = Some p"
    and "look_up e = None" and "carry e = Delivered"
  shows "\<exists>i w1 w2 w3 b bs. submitTransaction e t self (Inr tx) (Some w) =
       (MessageBody 201 (''Transaction will be added to block '' @ (if i < 0 then ''-'' else []) @ dec_string (nat \<bar>i\<bar>)), Some w1) \<and>
     mine e t self (Some w1) = (MessageBody 202 ''Mining started'', Some w2) \<and>
     pod_step\<^sup>*\<^sup>* w2 w3 \<and> getStatus e env (Some (pod_replica w3)) = ChainBody (b # bs) \<and>
     Bk_Index b = i \<and> (\<exists>ts. Bk_Transactions b = Some ts \<and> tx \<in> set ts)"
proof -
  have "x = \<lparr>rep_peers = peers, rep_store = [], rep_chain = newChain\<rparr>"
    using assms(1) by (simp add: Replica_PreStart_def Store_Load_def)
  then have "pod_inv \<lparr>pod_replica = x, pod_broker = [], pod_miner = ReadyBehavior, pod_jobs = [], pod_topic = []\<rparr>"
    by (simp add: pod_inv_def replica_inv_def stored_def newChain_eq valid_chain.start)
  then have i: "pod_inv w" by (rule pod_run_inv [OF assms(2)])
  let ?c = "rep_chain (pod_replica w)" and ?h = "Bk_Hash (last (rep_chain (pod_replica w)))"
  have last: "Chain_Last ?c = Some (last ?c)" using i replica_tip by (simp add: pod_inv_def)
  have jobs: "pod_jobs w = []" using i assms(3) by (simp add: pod_inv_def)
  let ?w1 = "w\<lparr>pod_broker := pod_broker w @ [tx]\<rparr>"
  let ?w2 = "?w1\<lparr>pod_miner := Busy, pod_jobs := [?h]\<rparr>"
  let ?b = "NextBlock (last ?c) (Some (pod_broker w @ [tx, reward self])) p t"
  let ?w3 = "w\<lparr>pod_broker := [], pod_topic := [?b]\<rparr>"
  let ?x = "(pod_replica w)\<lparr>rep_chain := ?c @ [?b], rep_store := Store_Append ?b (rep_store (pod_replica w))\<rparr>"
  let ?w4 = "?w3\<lparr>pod_replica := ?x, pod_topic := []\<rparr>"
  have post: "submitTransaction e t self (Inr tx) (Some w) =
      (MessageBody 201 (''Transaction will be added to block '' @
         (if Bk_Index (last ?c) + 1 < 0 then ''-'' else []) @ dec_string (nat \<bar>Bk_Index (last ?c) + 1\<bar>)), Some ?w1)"
    using assms(6,7) last by (simp add: submitTransaction_def svc_ask_def resolve_def Node_Receive_def tell_broker_def Broker_Receive_def)
  have mined: "mine e t self (Some ?w1) = (MessageBody 202 ''Mining started'', Some ?w2)"
    using assms(3,6,7) last jobs by (simp add: mine_def resolve_def Node_Receive_def pod_ops List.map_filter_def)
  have "Node_Receive t self (ProofFound ?h p) (?w2\<lparr>pod_jobs := []\<rparr>) = Some (?w3, [])"
    using assms(3,4) last jobs by (simp add: Node_Receive_def pod_ops List.map_filter_def Let_def reward_def)
  then have "pod_step ?w2 ?w3" using p by (intro pod_step.mined [where h = ?h and hs = "[]"]) simp_all
  moreover have "Replica_step (alone, BlockMinted ?b) (pod_replica w) = Some ?x"
    using i by (intro alone_accepts NextBlock_linked [OF ProofOfWork_valid [OF p]]) (simp add: pod_inv_def)
  then have "pod_step ?w3 ?w4" using pod_step.deliver [of ?w3 ?b "[]" alone ?x] by simp
  ultimately have run: "pod_step\<^sup>*\<^sup>* ?w2 ?w4" by (meson rtranclp.rtrancl_into_rtrancl rtranclp.rtrancl_refl)
  have "getStatus e env (Some (pod_replica ?w4)) = ChainBody (?b # rev ?c)"
    using assms(6,7) by (simp add: getStatus_def resolve_def Replica_Receive_def Chain_Blocks_def)
  moreover have "Bk_Index ?b = Bk_Index (last ?c) + 1" "Bk_Transactions ?b = Some (pod_broker w @ [tx, reward self])"
    by (simp_all add: NextBlock_def Let_def)
  ultimately show ?thesis using post mined run
    by (intro exI [of _ "Bk_Index (last ?c) + 1"] exI [of _ ?w1] exI [of _ ?w2] exI [of _ ?w4] exI [of _ ?b] exI [of _ "rev ?c"]) simp
qed

theorem posted_transaction_minted_witness:
  "\<exists>i w1 w2 w3 b bs. submitTransaction \<lparr>look_up = None, carry = Delivered\<rparr> 0 ''node0''
       (Inr \<lparr>Tx_Sender = ''ann'', Tx_Recipient = ''bob'', Tx_Value = 5\<rparr>)
       (Some \<lparr>pod_replica = \<lparr>rep_peers = [], rep_store = [], rep_chain = newChain\<rparr>, pod_broker = [],
              pod_miner = ReadyBehavior, pod_jobs = [], pod_topic = []\<rparr>) =
       (MessageBody 201 (''Transaction will be added to block '' @ (if i < 0 then ''-'' else []) @ dec_string (nat \<bar>i\<bar>)), Some w1) \<and>
     mine \<lparr>look_up = None, carry = Delivered\<rparr> 0 ''node0'' (Some w1) = (MessageBody 202 ''Mining started'', Some w2) \<and>
     pod_step\<^sup>*\<^sup>* w2 w3 \<and> getStatus \<lparr>look_up = None, carry = Delivered\<rparr> alone (Some (pod_replica w3)) = ChainBody (b # bs) \<and>
     Bk_Index b = i \<and> (\<exists>ts. Bk_Transactions b = Some ts \<and> \<lparr>Tx_Sender = ''ann'', Tx_Recipient = ''bob'', Tx_Value = 5\<rparr> \<in> set ts)"
proof -
  let ?x = "\<lparr>rep_peers = [], rep_store = [], rep_chain = newChain\<rparr>"
  let ?w = "\<lparr>pod_replica = ?x, pod_broker = [], pod_miner = ReadyBehavior, pod_jobs = [], pod_topic = []\<rparr>"
  have 1: "Replica_PreStart [] [] = Ok ?x" by (simp add: Replica_PreStart_def Store_Load_def)
  have "ValidProof (Bk_Hash (last (rep_chain (pod_replica ?w)))) 72608"
    using genesis_proof by (simp add: newChain_def genesisHash_def)
  then obtain p where p: "ProofOfWork (Bk_Hash (last (rep_chain (pod_replica ?w)))) = Some p"
    using pow_loop_least [of _ 72608 0] by (auto simp: ProofOfWork_def)
  show ?thesis by (rule posted_transaction_minted [OF 1 rtranclp.rtrancl_refl _ _ p]) simp_all
qed

end
