(* ===== verification/AI_Llm.thy ===== *)
theory AI_Llm
  imports Go_Std
begin

text \<open>
  The language-model clients of \<^verbatim>\<open>goakt-ai/llm\<close>: the configuration read from the environment, the choice of
  a client, and the four clients, each as the request it sends and what it makes of the answer. The network
  and the JSON decoder behind it are an argument: a function from the request to its outcome. What
  \<^verbatim>\<open>net/http\<close> documents of a failed request (the error names the method and the URL) is written out,
  because one client has its key in the URL.
\<close>

section \<open>Configuration\<close>

record llm_Config =
  Provider :: string
  OpenAIKey :: string
  AnthropicKey :: string
  GoogleKey :: string
  MistralKey :: string
  cfgModel :: string
  cfgMaxTokens :: int

definition default_model :: "string \<Rightarrow> string" where
  "default_model provider =
     (if provider = ''openai'' then ''gpt-4o-mini''
      else if provider = ''anthropic'' then ''claude-3-5-haiku-20241022''
      else if provider = ''google'' then ''gemini-2.5-flash-lite''
      else if provider = ''mistral'' then ''mistral-small-latest''
      else ''gpt-4o-mini'')"

text \<open>An environment variable that is not set reads as the empty string.\<close>

definition ConfigFromEnv :: "(string \<Rightarrow> string) \<Rightarrow> llm_Config" where
  "ConfigFromEnv getenv =
     (let lower = ToLower (getenv ''LLM_PROVIDER'');
          provider = (if lower = [] then ''openai'' else lower);
          model = getenv ''LLM_MODEL'' in
      \<lparr> Provider = provider, OpenAIKey = getenv ''OPENAI_API_KEY'', AnthropicKey = getenv ''ANTHROPIC_API_KEY'',
        GoogleKey = getenv ''GOOGLE_API_KEY'', MistralKey = getenv ''MISTRAL_API_KEY'',
        cfgModel = (if model = [] then default_model provider else model), cfgMaxTokens = 1024 \<rparr>)"

section \<open>Clients\<close>

text \<open>The key, the model and the token limit of each client.\<close>

datatype Client =
    OpenAIClient string string int
  | AnthropicClient string string int
  | GoogleClient string string int
  | MistralClient string string int

definition tokens_or_default :: "int \<Rightarrow> int" where
  "tokens_or_default n = (if n \<le> 0 then 1024 else n)"

definition NewOpenAIClient :: "string \<Rightarrow> string \<Rightarrow> int \<Rightarrow> Client" where
  "NewOpenAIClient apiKey model maxTokens =
     OpenAIClient apiKey (if model = [] then ''gpt-4o-mini'' else model) (tokens_or_default maxTokens)"

definition NewAnthropicClient :: "string \<Rightarrow> string \<Rightarrow> int \<Rightarrow> Client" where
  "NewAnthropicClient apiKey model maxTokens =
     AnthropicClient apiKey (if model = [] then ''claude-3-5-haiku-20241022'' else model) (tokens_or_default maxTokens)"

definition NewGoogleClient :: "string \<Rightarrow> string \<Rightarrow> int \<Rightarrow> Client" where
  "NewGoogleClient apiKey model maxTokens =
     GoogleClient apiKey (if model = [] then ''gemini-2.5-flash-lite'' else model) (tokens_or_default maxTokens)"

definition NewMistralClient :: "string \<Rightarrow> string \<Rightarrow> int \<Rightarrow> Client" where
  "NewMistralClient apiKey model maxTokens =
     MistralClient apiKey (if model = [] then ''mistral-small-latest'' else model) (tokens_or_default maxTokens)"

text \<open>\<^verbatim>\<open>NewClient\<close>; a missing configuration is \<open>None\<close>.\<close>

definition NewClient :: "llm_Config option \<Rightarrow> string + Client" where
  "NewClient cfg =
     (case cfg of
        None \<Rightarrow> Inl ''config is required''
      | Some c \<Rightarrow>
          if Provider c = ''openai'' then
            if OpenAIKey c = [] then Inl ''OPENAI_API_KEY is required for OpenAI''
            else Inr (NewOpenAIClient (OpenAIKey c) (cfgModel c) (cfgMaxTokens c))
          else if Provider c = ''anthropic'' then
            if AnthropicKey c = [] then Inl ''ANTHROPIC_API_KEY is required for Anthropic''
            else Inr (NewAnthropicClient (AnthropicKey c) (cfgModel c) (cfgMaxTokens c))
          else if Provider c = ''google'' then
            if GoogleKey c = [] then Inl ''GOOGLE_API_KEY is required for Google''
            else Inr (NewGoogleClient (GoogleKey c) (cfgModel c) (cfgMaxTokens c))
          else if Provider c = ''mistral'' then
            if MistralKey c = [] then Inl ''MISTRAL_API_KEY is required for Mistral''
            else Inr (NewMistralClient (MistralKey c) (cfgModel c) (cfgMaxTokens c))
          else Inl (''unsupported provider: '' @ Provider c))"

section \<open>Requests and answers\<close>

text \<open>A message of a request: its role and its content.\<close>

type_synonym chat_msg = "string \<times> string"

datatype request_body =
    ChatRequest string "chat_msg list" int  \<comment> \<open>model, messages, token limit\<close>
  | AnthropicRequest string int "chat_msg list" string  \<comment> \<open>\<dots> and the system prompt\<close>
  | GoogleRequest string int "string option"  \<comment> \<open>prompt, token limit, system instruction\<close>

record http_request =
  url :: string
  headers :: "(string \<times> string) list"
  body :: request_body

text \<open>The error field of an answer is an object with a message, or a bare string.\<close>

datatype api_error = ErrObj string | ErrStr string

text \<open>The fields of an answer that some client reads; a field the answer does not have is empty.\<close>

record api_answer =
  Choices :: "string list"
  Content :: "string list"
  Candidates :: "string list list"
  ApiError :: "api_error option"

text \<open>
  What becomes of a request: it cannot be built, it fails on the way, its answer is not JSON, or it is
  answered.
\<close>

datatype outcome = ReqErr string | DoErr string | BadJSON string | Answer api_answer

text \<open>\<^verbatim>\<open>strconv.Quote\<close> on printable text and \<^verbatim>\<open>(*url.Error).Error\<close>.\<close>

definition go_quote :: "string \<Rightarrow> string" where
  "go_quote s =
     [CHR 0x22] @ concat (map (\<lambda>c. if c \<in> {CHR 0x22, CHR 0x5C} then [CHR 0x5C, c] else [c]) s) @ [CHR 0x22]"

definition url_Error :: "string \<Rightarrow> string \<Rightarrow> string \<Rightarrow> string" where
  "url_Error op u err = op @ '' '' @ go_quote u @ '': '' @ err"

text \<open>
  The common tail of the four \<^verbatim>\<open>Complete\<close> methods: the errors of building and sending the request and of
  decoding the answer go to the caller as they are.
\<close>

definition send :: "(http_request \<Rightarrow> outcome) \<Rightarrow> http_request \<Rightarrow> (api_answer \<Rightarrow> string + string) \<Rightarrow> string + string" where
  "send net req read =
     (case net req of
        ReqErr e \<Rightarrow> Inl (url_Error ''parse'' (url req) e)
      | DoErr e \<Rightarrow> Inl (url_Error ''Post'' (url req) e)
      | BadJSON e \<Rightarrow> Inl e
      | Answer a \<Rightarrow> read a)"

text \<open>Decoding the error field into a struct, or into a string; the other shape is a decoding error.\<close>

definition error_object :: "string \<Rightarrow> api_answer \<Rightarrow> string + string option" where
  "error_object struct a =
     (case ApiError a of
        None \<Rightarrow> Inr None
      | Some (ErrObj m) \<Rightarrow> Inr (Some m)
      | Some (ErrStr _) \<Rightarrow> Inl (''json: cannot unmarshal string into Go struct field '' @ struct @ ''.error''))"

definition error_string :: "string \<Rightarrow> api_answer \<Rightarrow> string + string option" where
  "error_string struct a =
     (case ApiError a of
        None \<Rightarrow> Inr None
      | Some (ErrStr m) \<Rightarrow> Inr (Some m)
      | Some (ErrObj _) \<Rightarrow> Inl (''json: cannot unmarshal object into Go struct field '' @ struct @ ''.error''))"

text \<open>The checks on a decoded answer: the provider's error first, then the first completion.\<close>

definition first_completion :: "string \<Rightarrow> string + string option \<Rightarrow> string list \<Rightarrow> string + string" where
  "first_completion name err texts =
     (case err of
        Inl e \<Rightarrow> Inl e
      | Inr (Some m) \<Rightarrow> Inl (name @ '' api error: '' @ m)
      | Inr None \<Rightarrow> (case texts of [] \<Rightarrow> Inl ''no completion returned'' | t # _ \<Rightarrow> Inr t))"

section \<open>The four clients\<close>

definition chat_messages :: "string \<Rightarrow> string \<Rightarrow> chat_msg list" where
  "chat_messages prompt systemPrompt =
     (if systemPrompt \<noteq> [] then [(''system'', systemPrompt)] else []) @ [(''user'', prompt)]"

definition openAI_Complete ::
  "(http_request \<Rightarrow> outcome) \<Rightarrow> string \<Rightarrow> string \<Rightarrow> int \<Rightarrow> string \<Rightarrow> string \<Rightarrow> string + string" where
  "openAI_Complete net apiKey model maxTokens prompt systemPrompt =
     send net
       \<lparr> url = ''https://api.openai.com/v1/chat/completions'',
         headers = [(''Content-Type'', ''application/json''), (''Authorization'', ''Bearer '' @ apiKey)],
         body = ChatRequest model (chat_messages prompt systemPrompt) maxTokens \<rparr>
       (\<lambda>a. first_completion ''openai'' (error_object ''openAIResponse'' a) (Choices a))"

definition anthropic_Complete ::
  "(http_request \<Rightarrow> outcome) \<Rightarrow> string \<Rightarrow> string \<Rightarrow> int \<Rightarrow> string \<Rightarrow> string \<Rightarrow> string + string" where
  "anthropic_Complete net apiKey model maxTokens prompt systemPrompt =
     send net
       \<lparr> url = ''https://api.anthropic.com/v1/messages'',
         headers = [(''Content-Type'', ''application/json''), (''x-api-key'', apiKey),
                    (''anthropic-version'', ''2023-06-01'')],
         body = AnthropicRequest model maxTokens [(''user'', prompt)] systemPrompt \<rparr>
       (\<lambda>a. first_completion ''anthropic'' (error_object ''anthropicResponse'' a) (Content a))"

definition google_url :: "string \<Rightarrow> string \<Rightarrow> string" where
  "google_url model apiKey =
     ''https://generativelanguage.googleapis.com/v1beta/models/'' @ model @ '':generateContent?key='' @ apiKey"

definition google_Complete ::
  "(http_request \<Rightarrow> outcome) \<Rightarrow> string \<Rightarrow> string \<Rightarrow> int \<Rightarrow> string \<Rightarrow> string \<Rightarrow> string + string" where
  "google_Complete net apiKey model maxTokens prompt systemPrompt =
     send net
       \<lparr> url = google_url model apiKey,
         headers = [(''Content-Type'', ''application/json'')],
         body = GoogleRequest prompt maxTokens (if systemPrompt \<noteq> [] then Some systemPrompt else None) \<rparr>
       (\<lambda>a. first_completion ''google'' (error_object ''googleResponse'' a)
              (case Candidates a of [] \<Rightarrow> [] | parts # _ \<Rightarrow> parts))"

definition mistral_Complete ::
  "(http_request \<Rightarrow> outcome) \<Rightarrow> string \<Rightarrow> string \<Rightarrow> int \<Rightarrow> string \<Rightarrow> string \<Rightarrow> string + string" where
  "mistral_Complete net apiKey model maxTokens prompt systemPrompt =
     send net
       \<lparr> url = ''https://api.mistral.ai/v1/chat/completions'',
         headers = [(''Content-Type'', ''application/json''), (''Authorization'', ''Bearer '' @ apiKey)],
         body = ChatRequest model (chat_messages prompt systemPrompt) maxTokens \<rparr>
       (\<lambda>a. first_completion ''mistral'' (error_string ''mistralResponse'' a) (Choices a))"

fun Complete :: "(http_request \<Rightarrow> outcome) \<Rightarrow> Client \<Rightarrow> string \<Rightarrow> string \<Rightarrow> string + string" where
  "Complete net (OpenAIClient k m n) = openAI_Complete net k m n"
| "Complete net (AnthropicClient k m n) = anthropic_Complete net k m n"
| "Complete net (GoogleClient k m n) = google_Complete net k m n"
| "Complete net (MistralClient k m n) = mistral_Complete net k m n"

section \<open>What an error reveals\<close>

text \<open>Text that a quoted string shows as it is.\<close>

definition plain :: "string \<Rightarrow> bool" where
  "plain s \<longleftrightarrow> CHR 0x22 \<notin> set s \<and> CHR 0x5C \<notin> set s"

lemma go_quote_plain: "plain s \<Longrightarrow> concat (map (\<lambda>c. if c \<in> {CHR 0x22, CHR 0x5C} then [CHR 0x5C, c] else [c]) s) = s"
  by (induction s) (auto simp: plain_def)

lemma go_quote_suffix:
  assumes "plain s" shows "\<exists>pre. go_quote (t @ s) = pre @ s @ [CHR 0x22]"
  using go_quote_plain [OF assms] unfolding go_quote_def map_append concat_append by auto

text \<open>A client whose request failed on the way names the URL of the request.\<close>

lemma google_failure_has_key:
  assumes "plain key" and "\<And>req. net req = DoErr e"
  shows "\<exists>pre post. google_Complete net key model n prompt sys = Inl (pre @ key @ post)"
proof -
  obtain pre where "go_quote (google_url model key) = pre @ key @ [CHR 0x22]"
    using go_quote_suffix [OF assms(1)] unfolding google_url_def append_assoc [symmetric] by blast
  then have "google_Complete net key model n prompt sys =
      Inl ((''Post '' @ pre) @ key @ ([CHR 0x22] @ '': '' @ e))"
    by (simp add: google_Complete_def send_def assms(2) url_Error_def)
  then show ?thesis by blast
qed

end
