(* ===== verification/Go_Regexp.thy ===== *)
theory Go_Regexp
  imports Go_Std
begin

text \<open>
  Go's \<^verbatim>\<open>regexp\<close> package on the fragment the modelled code uses: one-character classes, greedy
  repetition of a class, an optional part, concatenation and capture groups. The search is
  leftmost-first: at each position the matches are tried in the order a backtracking search finds them,
  and the first position with a match wins. The language a pattern denotes is stated separately, and
  the search is proved sound and complete for it.
\<close>

section \<open>Patterns\<close>

datatype cls = Digit | Space | OneOf string

text \<open>\<^verbatim>\<open>\d\<close>, \<^verbatim>\<open>\s\<close> (which has no vertical tab in Go) and a set of literal characters.\<close>

fun in_cls :: "cls \<Rightarrow> char \<Rightarrow> bool" where
  "in_cls Digit c = (let n = of_char c :: nat in 48 \<le> n \<and> n \<le> 57)"
| "in_cls Space c = (let n = of_char c :: nat in n \<in> {9, 10, 12, 13, 32})"
| "in_cls (OneOf cs) c = (c \<in> set cs)"

datatype regexp =
    Cls cls
  | Plus cls
  | Star cls
  | Seq regexp regexp
  | Opt regexp
  | Group nat regexp

type_synonym caps = "nat \<rightharpoonup> string"

section \<open>The search\<close>

text \<open>All ways to split off at most \<open>n\<close> characters, the longest first.\<close>

definition splits_down :: "nat \<Rightarrow> nat \<Rightarrow> string \<Rightarrow> string list" where
  "splits_down lo n s = map (\<lambda>k. drop k s) (rev [lo ..< Suc n])"

text \<open>
  The matches at the front of the text in the order of preference, each as the captures and the text that
  is left.
\<close>

fun re_match :: "regexp \<Rightarrow> caps \<times> string \<Rightarrow> (caps \<times> string) list" where
  "re_match (Cls k) (g, s) = (case s of c # s' \<Rightarrow> if in_cls k c then [(g, s')] else [] | [] \<Rightarrow> [])"
| "re_match (Plus k) (g, s) = map (Pair g) (splits_down 1 (length (takeWhile (in_cls k) s)) s)"
| "re_match (Star k) (g, s) = map (Pair g) (splits_down 0 (length (takeWhile (in_cls k) s)) s)"
| "re_match (Seq r1 r2) (g, s) = concat (map (re_match r2) (re_match r1 (g, s)))"
| "re_match (Opt r) (g, s) = re_match r (g, s) @ [(g, s)]"
| "re_match (Group i r) (g, s) =
     map (\<lambda>(g', s'). (g'(i \<mapsto> take (length s - length s') s), s')) (re_match r (g, s))"

text \<open>
  \<^verbatim>\<open>FindStringSubmatch\<close> of a pattern with \<open>n\<close> groups: the whole match and the groups, or nothing.
\<close>

fun FindStringSubmatch :: "regexp \<Rightarrow> nat \<Rightarrow> string \<Rightarrow> string list" where
  "FindStringSubmatch r n s =
     (case re_match r (Map.empty, s) of
        (g, s') # _ \<Rightarrow>
          take (length s - length s') s # map (\<lambda>i. case g i of Some t \<Rightarrow> t | None \<Rightarrow> []) [1 ..< Suc n]
      | [] \<Rightarrow> (case s of [] \<Rightarrow> [] | _ # s' \<Rightarrow> FindStringSubmatch r n s'))"

declare FindStringSubmatch.simps [simp del]

section \<open>The language\<close>

fun lang :: "regexp \<Rightarrow> string \<Rightarrow> bool" where
  "lang (Cls k) s \<longleftrightarrow> (\<exists>c. s = [c] \<and> in_cls k c)"
| "lang (Plus k) s \<longleftrightarrow> s \<noteq> [] \<and> list_all (in_cls k) s"
| "lang (Star k) s \<longleftrightarrow> list_all (in_cls k) s"
| "lang (Seq r1 r2) s \<longleftrightarrow> (\<exists>s1 s2. s = s1 @ s2 \<and> lang r1 s1 \<and> lang r2 s2)"
| "lang (Opt r) s \<longleftrightarrow> s = [] \<or> lang r s"
| "lang (Group i r) s \<longleftrightarrow> lang r s"

lemma drop_takeWhile_split:
  "k \<le> length (takeWhile P s) \<longleftrightarrow> k \<le> length s \<and> list_all P (take k s)"
proof (induction s arbitrary: k)
  case (Cons c s)
  then show ?case by (cases k) auto
qed simp

lemma set_splits_down:
  "s' \<in> set (splits_down lo (length (takeWhile P s)) s) \<longleftrightarrow>
   (\<exists>s1. s = s1 @ s' \<and> lo \<le> length s1 \<and> list_all P s1)"
proof
  assume "s' \<in> set (splits_down lo (length (takeWhile P s)) s)"
  then obtain k where k: "lo \<le> k" "k \<le> length (takeWhile P s)" "s' = drop k s"
    by (auto simp: splits_down_def less_Suc_eq_le)
  then have "k \<le> length s" "list_all P (take k s)" by (auto simp: drop_takeWhile_split)
  with k show "\<exists>s1. s = s1 @ s' \<and> lo \<le> length s1 \<and> list_all P s1"
    by (intro exI [of _ "take k s"]) simp
next
  assume "\<exists>s1. s = s1 @ s' \<and> lo \<le> length s1 \<and> list_all P s1"
  then obtain s1 where s1: "s = s1 @ s'" "lo \<le> length s1" "list_all P s1" by blast
  then have "length s1 \<le> length (takeWhile P s)" by (simp add: drop_takeWhile_split)
  then have "length s1 \<in> set (rev [lo ..< Suc (length (takeWhile P s))])" using s1(2) by auto
  moreover have "s' = drop (length s1) s" using s1(1) by simp
  ultimately show "s' \<in> set (splits_down lo (length (takeWhile P s)) s)"
    unfolding splits_down_def set_map by blast
qed

text \<open>The same language with the captures: from \<open>g\<close> before the match to \<open>g'\<close> after it.\<close>

fun cap :: "regexp \<Rightarrow> caps \<Rightarrow> string \<Rightarrow> caps \<Rightarrow> bool" where
  "cap (Seq r1 r2) g s g' \<longleftrightarrow> (\<exists>s1 s2 g1. s = s1 @ s2 \<and> cap r1 g s1 g1 \<and> cap r2 g1 s2 g')"
| "cap (Opt r) g s g' \<longleftrightarrow> cap r g s g' \<or> s = [] \<and> g' = g"
| "cap (Group i r) g s g' \<longleftrightarrow> (\<exists>g1. cap r g s g1 \<and> g' = g1(i \<mapsto> s))"
| "cap r g s g' \<longleftrightarrow> lang r s \<and> g' = g"

lemma cap_lang: "(\<exists>g'. cap r g s g') \<longleftrightarrow> lang r s"
proof (induction r arbitrary: g s)
  case (Seq r1 r2)
  then show ?case by simp metis
next
  case (Opt r)
  then show ?case by simp metis
next
  case (Group i r)
  then show ?case by simp
qed auto

text \<open>What is split off at the front, with its captures, is exactly what the pattern denotes.\<close>

lemma re_match_cap: "(g', s') \<in> set (re_match r (g, s)) \<longleftrightarrow> (\<exists>s1. s = s1 @ s' \<and> cap r g s1 g')"
proof (induction r arbitrary: g s g' s')
  case (Cls k)
  then show ?case by (auto split: list.split)
next
  case (Plus k)
  have "(g', s') \<in> set (re_match (Plus k) (g, s)) \<longleftrightarrow>
        g' = g \<and> s' \<in> set (splits_down 1 (length (takeWhile (in_cls k) s)) s)" by auto
  then show ?case unfolding set_splits_down by (auto simp: Suc_le_eq)
next
  case (Star k)
  have "(g', s') \<in> set (re_match (Star k) (g, s)) \<longleftrightarrow>
        g' = g \<and> s' \<in> set (splits_down 0 (length (takeWhile (in_cls k) s)) s)" by auto
  then show ?case unfolding set_splits_down by auto
next
  case (Seq r1 r2)
  have "(g', s') \<in> set (re_match (Seq r1 r2) (g, s)) \<longleftrightarrow>
        (\<exists>g1 t. (g1, t) \<in> set (re_match r1 (g, s)) \<and> (g', s') \<in> set (re_match r2 (g1, t)))" by auto
  also have "\<dots> \<longleftrightarrow> (\<exists>s1 s2 g1. s = s1 @ s2 @ s' \<and> cap r1 g s1 g1 \<and> cap r2 g1 s2 g')"
    unfolding Seq.IH by blast
  also have "\<dots> \<longleftrightarrow> (\<exists>s1. s = s1 @ s' \<and> cap (Seq r1 r2) g s1 g')" by force
  finally show ?case .
next
  case (Opt r)
  then show ?case by auto
next
  case (Group i r)
  have "(g', s') \<in> set (re_match (Group i r) (g, s)) \<longleftrightarrow>
        (\<exists>g1. (g1, s') \<in> set (re_match r (g, s)) \<and> g' = g1(i \<mapsto> take (length s - length s') s))" by auto
  then show ?case unfolding Group.IH by auto
qed

lemma re_match_lang: "s' \<in> snd ` set (re_match r (g, s)) \<longleftrightarrow> (\<exists>s1. s = s1 @ s' \<and> lang r s1)"
proof -
  have "s' \<in> snd ` set (re_match r (g, s)) \<longleftrightarrow> (\<exists>g'. (g', s') \<in> set (re_match r (g, s)))" by force
  then show ?thesis unfolding re_match_cap cap_lang [of r g, symmetric] by blast
qed

text \<open>The search finds something exactly when some part of the text is in the language.\<close>

theorem FindStringSubmatch_iff:
  "FindStringSubmatch r n s \<noteq> [] \<longleftrightarrow> (\<exists>pre m post. s = pre @ m @ post \<and> lang r m)"
proof (induction r n s rule: FindStringSubmatch.induct)
  case (1 r n s)
  let ?in = "\<lambda>t. \<exists>pre m post. t = pre @ m @ post \<and> lang r m"
  show ?case
  proof (cases "re_match r (Map.empty, s)")
    case (Cons x xs)
    then have "snd x \<in> snd ` set (re_match r (Map.empty, s))" by simp
    then have "?in s" unfolding re_match_lang by (metis append_Nil)
    with Cons show ?thesis by (subst FindStringSubmatch.simps) (simp split: prod.split)
  next
    case Nil
    then have no: "\<not> lang r m" if "s = m @ post" for m post
      using re_match_lang [of post r Map.empty s] that by auto
    show ?thesis
    proof (cases s)
      case [simp]: Nil
      with no have "\<not> ?in s" by auto
      with \<open>re_match r (Map.empty, s) = []\<close> show ?thesis by (subst FindStringSubmatch.simps) simp
    next
      case s: (Cons c s')
      have "?in s \<longleftrightarrow> ?in s'"
      proof
        assume "?in s"
        then obtain pre m post where "s = pre @ m @ post" "lang r m" by blast
        with no [of m post] s show "?in s'" by (cases pre) auto
      qed (metis s append_Cons)
      with "1.IH" [OF Nil s] Nil s show ?thesis by (subst FindStringSubmatch.simps) simp
    qed
  qed
qed

lemma length_FindStringSubmatch:
  "length (FindStringSubmatch r n s) = (if FindStringSubmatch r n s = [] then 0 else Suc n)"
proof (induction r n s rule: FindStringSubmatch.induct)
  case (1 r n s)
  show ?case
  proof (cases "re_match r (Map.empty, s)")
    case Nil
    with "1.IH" [OF Nil] show ?thesis by (subst (1 2) FindStringSubmatch.simps) (simp split: list.split)
  qed (subst (1 2) FindStringSubmatch.simps, auto)
qed

text \<open>A match that is found was captured somewhere in the text.\<close>

lemma FindStringSubmatch_cap:
  assumes "FindStringSubmatch r n s \<noteq> []"
  obtains pre m post g where "s = pre @ m @ post" "cap r Map.empty m g"
    "FindStringSubmatch r n s = m # map (\<lambda>i. case g i of Some t \<Rightarrow> t | None \<Rightarrow> []) [1 ..< Suc n]"
  using assms
proof (induction r n s arbitrary: thesis rule: FindStringSubmatch.induct)
  case (1 r n s)
  show ?case
  proof (cases "re_match r (Map.empty, s)")
    case (Cons x xs)
    obtain g s' where x: "x = (g, s')" by (cases x)
    with Cons have "(g, s') \<in> set (re_match r (Map.empty, s))" by simp
    then obtain m where "s = m @ s'" "cap r Map.empty m g" unfolding re_match_cap by blast
    moreover have "FindStringSubmatch r n s =
        take (length s - length s') s # map (\<lambda>i. case g i of Some t \<Rightarrow> t | None \<Rightarrow> []) [1 ..< Suc n]"
      by (subst FindStringSubmatch.simps) (simp only: Cons x list.case prod.case)
    ultimately show ?thesis by (intro "1.prems"(1) [of "[]" m s' g]) simp_all
  next
    case Nil
    with "1.prems"(2) obtain c s' where s: "s = c # s'"
      by (cases s) (simp_all add: FindStringSubmatch.simps [of r n "[]"])
    with Nil have eq: "FindStringSubmatch r n s = FindStringSubmatch r n s'"
      by (subst FindStringSubmatch.simps) simp
    show ?thesis
    proof (rule "1.IH" [OF Nil s])
      fix pre m post g
      assume "s' = pre @ m @ post" "cap r Map.empty m g"
        and sub: "FindStringSubmatch r n s' = m # map (\<lambda>i. case g i of Some t \<Rightarrow> t | None \<Rightarrow> []) [1 ..< Suc n]"
      then show thesis by (intro "1.prems"(1) [of "c # pre" m post g, OF _ _ trans [OF eq sub]]) (simp_all add: s)
    qed (use "1.prems"(2) in \<open>unfold eq\<close>)
  qed
qed

section \<open>The preferred match\<close>

definition first :: "regexp \<Rightarrow> caps \<times> string \<Rightarrow> caps \<times> string \<Rightarrow> bool" where
  "first r st st' \<longleftrightarrow> (\<exists>xs. re_match r st = st' # xs)"

lemma first_Seq: "first r1 st st1 \<Longrightarrow> first r2 st1 st2 \<Longrightarrow> first (Seq r1 r2) st st2"
  by (cases st) (auto simp: first_def)

lemma first_Cls: "in_cls k c \<Longrightarrow> first (Cls k) (g, c # s) (g, s)"
  by (simp add: first_def)

lemma first_Opt: "re_match r st = [] \<Longrightarrow> first (Opt r) st st"
  by (cases st) (simp add: first_def)

lemma first_Group: "first r (g, a @ s) (g', s) \<Longrightarrow> first (Group i r) (g, a @ s) (g'(i \<mapsto> a), s)"
  by (auto simp: first_def)

text \<open>A repetition takes all it can.\<close>

lemma splits_down_greedy:
  assumes "list_all P a" and "b = [] \<or> \<not> P (hd b)" and "lo \<le> length a"
  shows "\<exists>xs. splits_down lo (length (takeWhile P (a @ b))) (a @ b) = b # xs"
proof -
  have "takeWhile P b = []" using assms(2) by (cases b) auto
  then have "takeWhile P (a @ b) = a" using assms(1) by (simp add: list_all_iff takeWhile_append2)
  then show ?thesis using assms(3) by (simp add: splits_down_def)
qed

lemma first_Plus:
  assumes "list_all (in_cls k) a" and "a \<noteq> []" and "b = [] \<or> \<not> in_cls k (hd b)"
  shows "first (Plus k) (g, a @ b) (g, b)"
  using splits_down_greedy [OF assms(1,3), of 1] assms(2) by (auto simp: first_def Suc_le_eq)

lemma first_Star:
  assumes "list_all (in_cls k) a" and "b = [] \<or> \<not> in_cls k (hd b)"
  shows "first (Star k) (g, a @ b) (g, b)"
  using splits_down_greedy [OF assms, of 0] by (auto simp: first_def)

lemmas first_intros = first_Seq first_Cls first_Opt first_Group first_Plus first_Star

end
