(* ===== verification/AI_Agents.thy ===== *)
theory AI_Agents
  imports AI_Llm Go_Float Go_Regexp Bank
begin

text \<open>
  The agents of \<^verbatim>\<open>goakt-ai\<close>: the orchestrator, which picks a specialised agent for a query, spawns it when it
  is not there and asks it, with one retry; the research, summariser and tool agents; the arithmetic the
  tool agent answers itself; and the HTTP service in front of the orchestrator. The agents of the cluster are
  a map from their names; what the cluster does to a look-up, a spawn or an ask is an argument.
\<close>

section \<open>Strings\<close>

fun Contains :: "string \<Rightarrow> string \<Rightarrow> bool" where
  "Contains s t = (HasPrefix s t \<or> (case s of [] \<Rightarrow> False | _ # s' \<Rightarrow> Contains s' t))"

declare Contains.simps [simp del]

definition ContainsAny :: "string \<Rightarrow> string \<Rightarrow> bool" where
  "ContainsAny s cs \<longleftrightarrow> list_ex (\<lambda>c. c \<in> set cs) s"

lemma Contains_substring: "Contains s t \<longleftrightarrow> (\<exists>pre post. s = pre @ t @ post)"
proof (induction s t rule: Contains.induct)
  case (1 s t)
  have pre: "HasPrefix s t \<longleftrightarrow> (\<exists>post. s = t @ post)"
    by (auto simp: HasPrefix_def) (metis append_take_drop_id)
  show ?case
  proof (cases s)
    case Nil
    then show ?thesis by (subst Contains.simps) (auto simp: HasPrefix_def)
  next
    case (Cons c s')
    have "(\<exists>pre post. c # s' = pre @ t @ post) \<longleftrightarrow> (\<exists>post. c # s' = t @ post) \<or> (\<exists>pre post. s' = pre @ t @ post)"
      by (metis append_Cons append_Nil list.inject neq_Nil_conv)
    with "1.IH" [OF Cons] Cons show ?thesis by (subst Contains.simps) (simp add: pre [unfolded Cons])
  qed
qed

section \<open>Messages\<close>

record SubmitQuery =
  sqSession :: string
  sqQuery :: string

record QueryResponse =
  qrSession :: string
  qrResult :: string
  qrErr :: string

record ProcessQuery =
  pqTask :: string
  pqQuery :: string
  pqContext :: string
  pqType :: string

record QueryResult =
  resTask :: string
  resResult :: string
  resErr :: string

datatype ai_msg = SubmitMsg SubmitQuery | ProcessMsg ProcessQuery | OtherMsg

datatype ai_reply = ResponseReply QueryResponse | ResultReply QueryResult

section \<open>Arithmetic\<close>

definition number_re :: "nat \<Rightarrow> regexp" where
  "number_re i = Group i (Seq (Plus Digit) (Opt (Seq (Cls (OneOf ''.'')) (Plus Digit))))"

definition percentRe :: regexp where
  "percentRe =
     Seq (number_re 1) (Seq (Star Space) (Seq (Cls (OneOf ''%'')) (Seq (Star Space)
       (Seq (Cls (OneOf ''o'')) (Seq (Cls (OneOf ''f'')) (Seq (Star Space) (number_re 2)))))))"

definition arithRe :: regexp where
  "arithRe =
     Seq (number_re 1) (Seq (Star Space) (Seq (Group 2 (Cls (OneOf ''+-*/'')))
       (Seq (Star Space) (number_re 3))))"

text \<open>\<open>None\<close> is \<^verbatim>\<open>("", false)\<close>.\<close>

definition arith :: "string \<Rightarrow> float64 \<Rightarrow> float64 \<Rightarrow> string option" where
  "arith op a b =
     (if op = ''+'' then Some (format_2f (float_add a b))
      else if op = ''-'' then Some (format_2f (float_sub a b))
      else if op = ''*'' then Some (format_2f (float_mul a b))
      else if op = ''/'' then
        Some (if float_is_zero b then ''division by zero'' else format_2f (float_div a b))
      else None)"

definition tryMath :: "string \<Rightarrow> string option" where
  "tryMath q =
     (let query = TrimSpace (ToLower q);
          m = FindStringSubmatch percentRe 2 query;
          k = FindStringSubmatch arithRe 3 query in
      if length m = 3 then
        Some (format_2f (float_mul (ParseFloat (m ! 2))
          (float_div (ParseFloat (m ! 1)) (ParseFloat ''100''))))
      else if length k = 4 then arith (k ! 2) (ParseFloat (k ! 1)) (ParseFloat (k ! 3))
      else None)"

section \<open>The agents\<close>

text \<open>A specialised agent is its kind and the client its start found, if any.\<close>

datatype Agent =
    ResearchAgent "Client option"
  | SummarizerAgent "Client option"
  | ToolAgent "Client option"

definition initLLMClient :: "llm_Config option option \<Rightarrow> Client option" where
  "initLLMClient ext =
     (case ext of
        None \<Rightarrow> None
      | Some None \<Rightarrow> None
      | Some (Some cfg) \<Rightarrow> (case NewClient (Some cfg) of Inl _ \<Rightarrow> None | Inr c \<Rightarrow> Some c))"

definition completeWithLLM :: "(http_request \<Rightarrow> outcome) \<Rightarrow> Client option \<Rightarrow> string \<Rightarrow> string \<Rightarrow> string + string" where
  "completeWithLLM net client prompt systemPrompt =
     (case client of
        None \<Rightarrow> Inr ''[LLM not configured - set API key and LLM_PROVIDER]''
      | Some c \<Rightarrow> Complete net c prompt systemPrompt)"

definition respondResult :: "string \<Rightarrow> string \<Rightarrow> QueryResult" where
  "respondResult taskID result = \<lparr> resTask = taskID, resResult = result, resErr = [] \<rparr>"

definition respondError :: "string \<Rightarrow> string \<Rightarrow> QueryResult" where
  "respondError taskID errMsg = \<lparr> resTask = taskID, resResult = [], resErr = errMsg \<rparr>"

definition respond_llm :: "string \<Rightarrow> string + string \<Rightarrow> QueryResult" where
  "respond_llm taskID r = (case r of Inl e \<Rightarrow> respondError taskID e | Inr t \<Rightarrow> respondResult taskID t)"

definition nl2 :: string where
  "nl2 = [CHR 0x0A, CHR 0x0A]"

definition research_handleProcessQuery :: "(http_request \<Rightarrow> outcome) \<Rightarrow> Client option \<Rightarrow> ProcessQuery \<Rightarrow> QueryResult" where
  "research_handleProcessQuery net client msg =
     (let prompt = (if pqContext msg \<noteq> [] then ''Context: '' @ pqContext msg @ nl2 @ ''Query: '' @ pqQuery msg
                    else pqQuery msg) in
      respond_llm (pqTask msg) (completeWithLLM net client prompt
        ''You are a research assistant. Provide factual, well-researched information. Be concise and accurate.''))"

definition summarizer_handleProcessQuery :: "(http_request \<Rightarrow> outcome) \<Rightarrow> Client option \<Rightarrow> ProcessQuery \<Rightarrow> QueryResult" where
  "summarizer_handleProcessQuery net client msg =
     (let prompt = (if pqContext msg \<noteq> []
                    then ''Context: '' @ pqContext msg @ nl2 @ ''Content to summarize:'' @ [CHR 0x0A] @ pqQuery msg
                    else ''Summarize the following:'' @ nl2 @ pqQuery msg) in
      respond_llm (pqTask msg) (completeWithLLM net client prompt
        ''You are a summarization assistant. Summarize the given content concisely while preserving key information.''))"

definition tool_handleProcessQuery :: "(http_request \<Rightarrow> outcome) \<Rightarrow> Client option \<Rightarrow> ProcessQuery \<Rightarrow> QueryResult" where
  "tool_handleProcessQuery net client msg =
     (case tryMath (pqQuery msg) of
        Some result \<Rightarrow> respondResult (pqTask msg) result
      | None \<Rightarrow> respond_llm (pqTask msg) (completeWithLLM net client (pqQuery msg)
          ''You are a tool assistant. For math calculations, extract the expression and respond with ONLY the numeric result. For other tasks, be concise.''))"

text \<open>The reply of an agent to a message; \<open>None\<close> is \<^verbatim>\<open>Unhandled\<close>. No message changes an agent.\<close>

fun Agent_Receive :: "(http_request \<Rightarrow> outcome) \<Rightarrow> ai_msg \<Rightarrow> Agent \<Rightarrow> ai_reply option" where
  "Agent_Receive net (ProcessMsg msg) (ResearchAgent c) = Some (ResultReply (research_handleProcessQuery net c msg))"
| "Agent_Receive net (ProcessMsg msg) (SummarizerAgent c) = Some (ResultReply (summarizer_handleProcessQuery net c msg))"
| "Agent_Receive net (ProcessMsg msg) (ToolAgent c) = Some (ResultReply (tool_handleProcessQuery net c msg))"
| "Agent_Receive net _ _ = None"

section \<open>The orchestrator\<close>

definition selectAgentKind :: "string \<Rightarrow> string" where
  "selectAgentKind query =
     (let q = ToLower (TrimSpace query) in
      if Contains q ''%'' \<and> Contains q ''of'' then ''ToolAgent''
      else if ContainsAny q ''+-*/'' \<and>
           list_ex (\<lambda>c. c = CHR ''+'' \<or> c = CHR ''-'' \<or> c = CHR ''*'' \<or> c = CHR ''/'') q then ''ToolAgent''
      else if Contains q ''summar'' then ''SummarizerAgent''
      else ''ResearchAgent'')"

type_synonym agents = "string \<rightharpoonup> Agent"

definition newAgent :: "llm_Config option option \<Rightarrow> string \<Rightarrow> Agent" where
  "newAgent ext kind =
     (let c = initLLMClient ext in
      if kind = ''ResearchAgent'' then ResearchAgent c
      else if kind = ''SummarizerAgent'' then SummarizerAgent c
      else if kind = ''ToolAgent'' then ToolAgent c
      else ResearchAgent c)"

text \<open>
  One attempt to reach an agent: whether the look-up fails, whether a spawn fails and with which error, and
  what becomes of the ask.
\<close>

record attempt =
  lookup_fails :: bool
  spawn_err :: "string option"
  ask_net :: net

definition getOrSpawnAgent :: "llm_Config option option \<Rightarrow> attempt \<Rightarrow> string \<Rightarrow> agents \<Rightarrow> (string + string) \<times> agents" where
  "getOrSpawnAgent ext a kind ags =
     (if kind \<in> dom ags \<and> \<not> lookup_fails a then (Inr kind, ags)
      else case spawn_err a of
             Some e \<Rightarrow> (Inl e, ags)
           | None \<Rightarrow> (Inr kind, if kind \<in> dom ags then ags else ags(kind \<mapsto> newAgent ext kind)))"

text \<open>\<^verbatim>\<open>goakt.Ask\<close>; an unhandled request is never answered.\<close>

definition askAgent :: "(http_request \<Rightarrow> outcome) \<Rightarrow> net \<Rightarrow> string \<Rightarrow> ai_msg \<Rightarrow> agents \<Rightarrow> string + ai_reply" where
  "askAgent net n pid msg ags =
     (case fst (ask (\<lambda>m e. (Agent_Receive net m e, e)) n pid msg ags) of
        Inl e \<Rightarrow> Inl e
      | Inr None \<Rightarrow> Inl ''request timed out''
      | Inr (Some r) \<Rightarrow> Inr r)"

definition respond :: "string \<Rightarrow> string + string \<Rightarrow> QueryResponse" where
  "respond session r =
     (case r of
        Inl e \<Rightarrow> \<lparr> qrSession = session, qrResult = [], qrErr = e \<rparr>
      | Inr t \<Rightarrow> \<lparr> qrSession = session, qrResult = t, qrErr = [] \<rparr>)"

definition read_reply :: "string + ai_reply \<Rightarrow> string + string" where
  "read_reply reply =
     (case reply of
        Inl e \<Rightarrow> Inl e
      | Inr (ResponseReply _) \<Rightarrow> Inl ''invalid response type''
      | Inr (ResultReply qr) \<Rightarrow> if resErr qr \<noteq> [] then Inl (resErr qr) else Inr (resResult qr))"

definition handleSubmitQuery ::
  "(http_request \<Rightarrow> outcome) \<Rightarrow> llm_Config option option \<Rightarrow> Client option \<Rightarrow> attempt \<Rightarrow> attempt \<Rightarrow>
   SubmitQuery \<Rightarrow> agents \<Rightarrow> QueryResponse \<times> agents" where
  "handleSubmitQuery net ext client a1 a2 msg ags =
     (let kind = selectAgentKind (sqQuery msg) in
      case getOrSpawnAgent ext a1 kind ags of
        (Inl _, ags1) \<Rightarrow>
          (respond (sqSession msg) (completeWithLLM net client (sqQuery msg)
             ''You are an AI assistant. Answer the user's question concisely and helpfully.''), ags1)
      | (Inr pid, ags1) \<Rightarrow>
          (let req = ProcessMsg \<lparr> pqTask = sqSession msg @ ''-task'', pqQuery = sqQuery msg, pqContext = [], pqType = kind \<rparr>;
               reply = askAgent net (ask_net a1) pid req ags1;
               (reply', ags2) =
                 (case reply of
                    Inr _ \<Rightarrow> (reply, ags1)
                  | Inl _ \<Rightarrow>
                      (case getOrSpawnAgent ext a2 kind ags1 of
                         (Inl _, ags2) \<Rightarrow> (reply, ags2)
                       | (Inr pid2, ags2) \<Rightarrow> (askAgent net (ask_net a2) pid2 req ags2, ags2))) in
           (respond (sqSession msg) (read_reply reply'), ags2)))"

text \<open>The orchestrator's receive function; \<open>None\<close> is \<^verbatim>\<open>Unhandled\<close>.\<close>

fun Orchestrator_Receive ::
  "(http_request \<Rightarrow> outcome) \<Rightarrow> llm_Config option option \<Rightarrow> Client option \<Rightarrow> attempt \<Rightarrow> attempt \<Rightarrow>
   ai_msg \<Rightarrow> agents \<Rightarrow> QueryResponse option \<times> agents" where
  "Orchestrator_Receive net ext client a1 a2 (SubmitMsg msg) ags =
     (let (r, ags') = handleSubmitQuery net ext client a1 a2 msg ags in (Some r, ags'))"
| "Orchestrator_Receive net ext client a1 a2 _ ags = (None, ags)"

section \<open>The HTTP service\<close>

text \<open>
  Starting the service: the orchestrator is spawned with up to ten attempts, \<open>spawn k\<close> being the outcome of
  the \<open>k\<close>-th; the result is the process or the error, with the number of attempts and the seconds slept.
\<close>

function spawn_loop :: "(nat \<Rightarrow> string + string) \<Rightarrow> nat \<Rightarrow> nat \<Rightarrow> (string + string) \<times> nat \<times> nat" where
  "spawn_loop spawn k slept =
     (case spawn k of
        Inr pid \<Rightarrow> (Inr pid, k, slept)
      | Inl e \<Rightarrow> if k < 10 then spawn_loop spawn (k + 1) (slept + k * 2)
                 else (Inl (''failed to spawn orchestrator after 10 attempts: '' @ e), k, slept))"
  by pat_completeness auto
termination
  by (relation "measure (\<lambda>(spawn, k, slept). 10 - k)") auto

declare spawn_loop.simps [simp del]

definition QueryService_Start :: "(nat \<Rightarrow> string + string) \<Rightarrow> (string + string) \<times> nat \<times> nat" where
  "QueryService_Start spawn = spawn_loop spawn 1 0"

text \<open>A response: plain text, or a JSON body with the session, the result and the error.\<close>

datatype http_reply = PlainText int string | JSONBody int string string string

definition handleQuery ::
  "(http_request \<Rightarrow> outcome) \<Rightarrow> llm_Config option option \<Rightarrow> Client option \<Rightarrow> net \<Rightarrow> attempt \<Rightarrow> attempt \<Rightarrow>
   string \<Rightarrow> string option \<Rightarrow> agents \<Rightarrow> http_reply \<times> agents" where
  "handleQuery net ext client n a1 a2 sessionID req ags =
     (case req of
        None \<Rightarrow> (PlainText 400 ''invalid request body'', ags)
      | Some q \<Rightarrow>
          if q = [] then (PlainText 400 ''query is required'', ags)
          else
            (let (reply, ags') = Orchestrator_Receive net ext client a1 a2 (SubmitMsg \<lparr> sqSession = sessionID, sqQuery = q \<rparr>) ags in
             case n of
               Lost e \<Rightarrow> (JSONBody 500 sessionID [] e, ags)
             | ReplyLost e \<Rightarrow> (JSONBody 500 sessionID [] e, ags')
             | Delivered \<Rightarrow>
                 (case reply of
                    None \<Rightarrow> (JSONBody 500 sessionID [] ''request timed out'', ags')
                  | Some resp \<Rightarrow>
                      if qrErr resp \<noteq> [] then (JSONBody 400 sessionID [] (qrErr resp), ags')
                      else (JSONBody 200 sessionID (qrResult resp) [], ags'))))"

definition handleHealth :: http_reply where
  "handleHealth = PlainText 200 ''ok''"

section \<open>Which queries the tool agent answers itself\<close>

lemma Contains_char: "Contains s [c] \<longleftrightarrow> c \<in> set s"
  by (auto simp: Contains_substring in_set_conv_decomp)

text \<open>The operator a match of \<open>arithRe\<close> captured is one of the four.\<close>

lemma arithRe_op:
  assumes "FindStringSubmatch arithRe 3 s \<noteq> []"
  shows "FindStringSubmatch arithRe 3 s ! 2 \<in> {''+'', ''-'', ''*'', ''/''}"
proof -
  from assms obtain pre m post g where c: "cap arithRe Map.empty m g"
    and eq: "FindStringSubmatch arithRe 3 s = m # map (\<lambda>i. case g i of Some t \<Rightarrow> t | None \<Rightarrow> []) [1 ..< Suc 3]"
    by (rule FindStringSubmatch_cap)
  from c obtain d where "g 2 = Some [d]" "d \<in> set ''+-*/''" by (auto simp: arithRe_def number_re_def)
  moreover have "[1 ..< Suc 3] = [1, 2, 3]" by (simp add: upt_rec)
  ultimately show ?thesis by (auto simp: eq)
qed

definition has_expression :: "string \<Rightarrow> bool" where
  "has_expression s \<longleftrightarrow> (\<exists>pre m post. s = pre @ m @ post \<and> (lang percentRe m \<or> lang arithRe m))"

lemma tryMath_iff: "tryMath q \<noteq> None \<longleftrightarrow> has_expression (TrimSpace (ToLower q))"
proof -
  let ?s = "TrimSpace (ToLower q)"
  have "has_expression ?s \<longleftrightarrow> FindStringSubmatch percentRe 2 ?s \<noteq> [] \<or> FindStringSubmatch arithRe 3 ?s \<noteq> []"
    unfolding FindStringSubmatch_iff has_expression_def by blast
  moreover have "arith (FindStringSubmatch arithRe 3 ?s ! 2) a b \<noteq> None"
    if "FindStringSubmatch arithRe 3 ?s \<noteq> []" for a b
    using arithRe_op [OF that] by (auto simp: arith_def)
  ultimately show ?thesis
    by (auto simp: tryMath_def Let_def length_FindStringSubmatch [of percentRe] length_FindStringSubmatch [of arithRe])
qed

lemma percent_chars:
  assumes "lang percentRe m" shows "CHR ''%'' \<in> set m" and "Contains m ''of''"
proof -
  from assms obtain n a b c d where m: "m = n @ a @ ''%'' @ b @ ''of'' @ c @ d" by (auto simp: percentRe_def)
  then show "CHR ''%'' \<in> set m" by simp
  from m show "Contains m ''of''" unfolding Contains_substring by (metis append.assoc)
qed

lemma arith_chars: "lang arithRe m \<Longrightarrow> \<exists>c \<in> set m. c \<in> set ''+-*/''"
  by (fastforce simp: arithRe_def)

lemma Contains_mono: "Contains m t \<Longrightarrow> Contains (pre @ m @ post) t"
  unfolding Contains_substring by (metis append.assoc)

lemma expression_selects_tool:
  assumes "has_expression (TrimSpace (ToLower q))"
  shows "selectAgentKind q = ''ToolAgent''"
proof -
  let ?s = "ToLower (TrimSpace q)"
  from assms obtain pre m post where s: "?s = pre @ m @ post" and "lang percentRe m \<or> lang arithRe m"
    by (auto simp: has_expression_def TrimSpace_ToLower)
  then consider "CHR ''%'' \<in> set ?s" "Contains ?s ''of''" | c where "c \<in> set ?s" "c \<in> set ''+-*/''"
  proof (cases "lang percentRe m")
    case True
    then show ?thesis using percent_chars [of m] by (intro that(1)) (simp_all add: s Contains_mono)
  next
    case False
    then obtain c where "c \<in> set m" "c \<in> set ''+-*/''" using arith_chars [of m] \<open>_ \<or> _\<close> by blast
    then show ?thesis by (intro that(2) [of c]) (simp_all add: s)
  qed
  then show ?thesis
  proof cases
    case 1
    then show ?thesis by (simp add: selectAgentKind_def Let_def Contains_char)
  next
    case 2
    then show ?thesis by (auto simp: selectAgentKind_def Let_def ContainsAny_def list_ex_iff)
  qed
qed

lemma no_operator_no_math:
  assumes "set (TrimSpace (ToLower q)) \<inter> set ''%+-*/'' = {}"
  shows "tryMath q = None"
proof (rule ccontr)
  assume "tryMath q \<noteq> None"
  then obtain pre m post where "TrimSpace (ToLower q) = pre @ m @ post" "lang percentRe m \<or> lang arithRe m"
    unfolding tryMath_iff has_expression_def by blast
  with assms percent_chars(1) [of m] arith_chars [of m] show False by auto
qed

section \<open>Whole-number arithmetic is exact\<close>

definition spaces :: "string \<Rightarrow> bool" where
  "spaces = list_all (in_cls Space)"

definition number :: "string \<Rightarrow> bool" where
  "number s \<longleftrightarrow> s \<noteq> [] \<and> list_all is_digit s"

lemma in_cls_Digit [simp]: "in_cls Digit = is_digit"
  by (auto simp: is_digit_def)

lemma first_number:
  assumes "number a" and "b = [] \<or> \<not> is_digit (hd b) \<and> hd b \<noteq> CHR ''.''"
  shows "first (number_re i) (g, a @ b) (g(i \<mapsto> a), b)"
  unfolding number_re_def
proof (intro first_Group first_Seq)
  show "first (Plus Digit) (g, a @ b) (g, b)"
    using assms by (intro first_Plus) (auto simp: number_def)
  show "first (Opt (Seq (Cls (OneOf ''.'')) (Plus Digit))) (g, b) (g, b)"
    using assms(2) by (intro first_Opt) (cases b, auto)
qed

lemma first_arith:
  assumes "number a" and "spaces s" and "c \<in> set ''+-*/''" and "spaces t" and "number b"
  shows "first arithRe (Map.empty, a @ s @ [c] @ t @ b) ([1 \<mapsto> a, 2 \<mapsto> [c], 3 \<mapsto> b], [])"
  unfolding arithRe_def
proof (intro first_Seq)
  have sp: "\<not> is_digit x \<and> x \<noteq> CHR ''.''" if "in_cls Space x" for x
    using that by (auto simp: is_digit_def Let_def)
  have op: "\<not> is_digit c \<and> c \<noteq> CHR ''.'' \<and> \<not> in_cls Space c" using assms(3) by (auto simp: is_digit_def)
  have dg: "\<not> in_cls Space x" if "is_digit x" for x using that by (auto simp: is_digit_def Let_def)
  show "first (number_re 1) (Map.empty, a @ s @ [c] @ t @ b) ([1 \<mapsto> a], s @ [c] @ t @ b)"
    by (rule first_number) (use assms op sp in \<open>cases s; auto simp: spaces_def\<close>)+
  show "first (Star Space) ([1 \<mapsto> a], s @ [c] @ t @ b) ([1 \<mapsto> a], [c] @ t @ b)"
    using assms(2) op by (intro first_Star) (auto simp: spaces_def)
  show "first (Group 2 (Cls (OneOf ''+-*/''))) ([1 \<mapsto> a], [c] @ t @ b) ([1 \<mapsto> a, 2 \<mapsto> [c]], t @ b)"
    using assms(3) by (intro first_Group) (simp add: first_def)
  show "first (Star Space) ([1 \<mapsto> a, 2 \<mapsto> [c]], t @ b) ([1 \<mapsto> a, 2 \<mapsto> [c]], b)"
    using assms(4,5) dg [of "hd b"] by (intro first_Star) (auto simp: spaces_def number_def list_all_iff simp del: in_cls.simps)
  show "first (number_re 3) ([1 \<mapsto> a, 2 \<mapsto> [c]], b) ([1 \<mapsto> a, 2 \<mapsto> [c], 3 \<mapsto> b], [])"
    using first_number [OF assms(5), of "[]"] by simp
qed

lemma digit_not_space: "is_digit c \<Longrightarrow> \<not> is_space c"
  by (auto simp: is_digit_def is_space_def Let_def)

lemma TrimSpace_ends: "s \<noteq> [] \<Longrightarrow> \<not> is_space (hd s) \<Longrightarrow> \<not> is_space (last s) \<Longrightarrow> TrimSpace s = s"
proof -
  assume s: "s \<noteq> []" "\<not> is_space (hd s)" "\<not> is_space (last s)"
  have front: "dropWhile is_space t = t" if "t \<noteq> []" "\<not> is_space (hd t)" for t
    using that by (cases t) auto
  show ?thesis using s front [of s] front [of "rev s"] by (simp add: TrimSpace_def hd_rev)
qed

lemma ToLower_low: "list_all (\<lambda>c. (of_char c :: nat) < 65) s \<Longrightarrow> ToLower s = s"
  by (induction s) (auto simp: ToLower_def ToLower_char_def)

lemma query_chars:
  assumes "number a" and "spaces s" and "c \<in> set ''+-*/''" and "spaces t" and "number b"
  shows "list_all (\<lambda>c. (of_char c :: nat) < 65 \<and> c \<noteq> CHR ''%'') (a @ s @ [c] @ t @ b)"
proof -
  let ?P = "\<lambda>c. (of_char c :: nat) < 65 \<and> c \<noteq> CHR ''%''"
  have dg: "?P x" if "is_digit x" for x using that by (auto simp: is_digit_def Let_def)
  have sp: "?P x" if "in_cls Space x" for x using that by (auto simp: Let_def)
  have "list_all ?P a" "list_all ?P b" using assms(1,5) dg unfolding number_def list_all_iff by blast+
  moreover have "list_all ?P s" "list_all ?P t" using assms(2,4) sp unfolding spaces_def list_all_iff by blast+
  moreover have "?P c" using assms(3) by auto
  ultimately show ?thesis by simp
qed

lemma tryMath_expression:
  assumes "number a" and "spaces s" and "c \<in> set ''+-*/''" and "spaces t" and "number b"
  shows "tryMath (a @ s @ [c] @ t @ b) = arith [c] (ParseFloat a) (ParseFloat b)"
proof -
  let ?q = "a @ s @ [c] @ t @ b"
  note chars = query_chars [OF assms]
  have "is_digit (hd a)" "is_digit (last b)" using assms(1,5) by (auto simp: number_def list_all_iff)
  then have "\<not> is_space (hd ?q)" "\<not> is_space (last ?q)"
    using assms(1,5) digit_not_space by (auto simp: number_def)
  moreover have "ToLower ?q = ?q" using chars by (intro ToLower_low) (simp add: list_all_iff)
  ultimately have norm: "TrimSpace (ToLower ?q) = ?q" by (simp add: TrimSpace_ends)
  have pct: "FindStringSubmatch percentRe 2 ?q = []"
  proof (rule ccontr)
    assume "FindStringSubmatch percentRe 2 ?q \<noteq> []"
    then obtain pre m post where "?q = pre @ m @ post" "lang percentRe m" unfolding FindStringSubmatch_iff by blast
    then have "CHR ''%'' \<in> set ?q" using percent_chars(1) [of m] by simp
    with chars show False unfolding list_all_iff by blast
  qed
  obtain xs where "re_match arithRe (Map.empty, ?q) = ([1 \<mapsto> a, 2 \<mapsto> [c], 3 \<mapsto> b], []) # xs"
    using first_arith [OF assms] unfolding first_def by blast
  then have "FindStringSubmatch arithRe 3 ?q = [?q, a, [c], b]"
    by (subst FindStringSubmatch.simps) (simp add: upt_rec numeral_3_eq_3)
  then show ?thesis unfolding tryMath_def Let_def norm pct by simp
qed

text \<open>The value of an expression over whole numbers, where it is a whole number.\<close>

definition whole_value :: "char \<Rightarrow> nat \<Rightarrow> nat \<Rightarrow> int \<Rightarrow> bool" where
  "whole_value c a b r \<longleftrightarrow>
     c = CHR ''+'' \<and> r = int a + int b \<or> c = CHR ''-'' \<and> r = int a - int b \<or>
     c = CHR ''*'' \<and> r = int a * int b \<or> c = CHR ''/'' \<and> 0 < b \<and> int a = r * int b"

lemma arith_whole:
  assumes "denotes x (int a)" and "denotes y (int b)" and "whole_value c a b r" and "\<bar>r\<bar> < 2 ^ 53"
  shows "arith [c] x y = Some (whole_string r)"
proof -
  from assms(3) consider "c = CHR ''+''" "r = int a + int b" | "c = CHR ''-''" "r = int a - int b"
    | "c = CHR ''*''" "r = int a * int b" | "c = CHR ''/''" "0 < b" "int a = r * int b"
    unfolding whole_value_def by blast
  then show ?thesis
  proof cases
    case 1
    with float_add_whole [OF assms(1,2)] assms(4) show ?thesis by (simp add: arith_def format_2f_whole)
  next
    case 2
    with float_sub_whole [OF assms(1,2)] assms(4) show ?thesis by (simp add: arith_def format_2f_whole)
  next
    case 3
    with float_mul_exact [OF assms(1,2)] assms(4) show ?thesis by (simp add: arith_def format_2f_whole)
  next
    case 4
    then have "0 \<le> r" by (metis of_nat_0_le_iff of_nat_0_less_iff zero_le_mult_iff not_less)
    with 4 float_div_exact [OF assms(1,2)] assms(4) show ?thesis
      using denotes_zero_iff [OF assms(2)] by (simp add: arith_def format_2f_whole)
  qed
qed

lemma tryMath_whole:
  assumes "number a" and "spaces s" and "spaces t" and "number b"
    and "dec_value a < 2 ^ 53" and "dec_value b < 2 ^ 53"
    and "whole_value c (dec_value a) (dec_value b) r" and "\<bar>r\<bar> < 2 ^ 53"
  shows "tryMath (a @ s @ [c] @ t @ b) = Some (whole_string r)"
proof -
  have "c \<in> set ''+-*/''" using assms(7) by (auto simp: whole_value_def)
  then have "tryMath (a @ s @ [c] @ t @ b) = arith [c] (ParseFloat a) (ParseFloat b)"
    using assms by (intro tryMath_expression)
  also have "\<dots> = Some (whole_string r)"
    using ParseFloat_whole [OF _ assms(5)] ParseFloat_whole [OF _ assms(6)] assms(1,4,7,8)
    by (intro arith_whole) (simp_all add: number_def)
  finally show ?thesis .
qed

section \<open>The agents of the cluster\<close>

text \<open>An agent is registered under the name of its kind.\<close>

fun kind_of :: "Agent \<Rightarrow> string" where
  "kind_of (ResearchAgent c) = ''ResearchAgent''"
| "kind_of (SummarizerAgent c) = ''SummarizerAgent''"
| "kind_of (ToolAgent c) = ''ToolAgent''"

definition agents_typed :: "agents \<Rightarrow> bool" where
  "agents_typed ags \<longleftrightarrow> (\<forall>k a. ags k = Some a \<longrightarrow> kind_of a = k)"

lemma agents_typedD: "agents_typed ags \<Longrightarrow> ags k = Some a \<Longrightarrow> kind_of a = k"
  by (simp add: agents_typed_def)

lemma selectAgentKind_cases: "selectAgentKind q \<in> {''ToolAgent'', ''SummarizerAgent'', ''ResearchAgent''}"
  by (simp add: selectAgentKind_def Let_def)

lemma kind_of_newAgent:
  "k \<in> {''ToolAgent'', ''SummarizerAgent'', ''ResearchAgent''} \<Longrightarrow> kind_of (newAgent ext k) = k"
  by (auto simp: newAgent_def Let_def)

lemma getOrSpawnAgent_typed:
  assumes "agents_typed ags"
  shows "agents_typed (snd (getOrSpawnAgent ext a (selectAgentKind q) ags))"
  using assms kind_of_newAgent [OF selectAgentKind_cases, of ext q]
  by (auto simp: getOrSpawnAgent_def agents_typed_def split: option.split)

text \<open>An agent that can be looked up or spawned is found, and has the kind asked for.\<close>

lemma getOrSpawnAgent_found:
  assumes "agents_typed ags" and "spawn_err a = None"
  obtains ags' ag where "getOrSpawnAgent ext a (selectAgentKind q) ags = (Inr (selectAgentKind q), ags')"
    "agents_typed ags'" "ags' (selectAgentKind q) = Some ag" "kind_of ag = selectAgentKind q"
proof -
  let ?k = "selectAgentKind q"
  have "\<exists>ags'. getOrSpawnAgent ext a ?k ags = (Inr ?k, ags') \<and> ?k \<in> dom ags'"
    using assms(2) by (cases "?k \<in> dom ags"; cases "lookup_fails a") (auto simp: getOrSpawnAgent_def)
  then obtain ags' where g: "getOrSpawnAgent ext a ?k ags = (Inr ?k, ags')" "?k \<in> dom ags'" by blast
  have t: "agents_typed ags'" using getOrSpawnAgent_typed [OF assms(1), of ext a q] g(1) by simp
  from g(2) obtain ag where "ags' ?k = Some ag" by blast
  with g t agents_typedD show ?thesis by (intro that [of ags' ag]) auto
qed

lemma handleSubmitQuery_typed:
  assumes "agents_typed ags"
  shows "agents_typed (snd (handleSubmitQuery net ext client a1 a2 msg ags))"
proof -
  let ?k = "selectAgentKind (sqQuery msg)"
  obtain r1 ags1 where g1: "getOrSpawnAgent ext a1 ?k ags = (r1, ags1)" by fastforce
  then have t1: "agents_typed ags1" using getOrSpawnAgent_typed [OF assms, of ext a1] by (metis snd_conv)
  obtain r2 ags2 where g2: "getOrSpawnAgent ext a2 ?k ags1 = (r2, ags2)" by fastforce
  then have "agents_typed ags2" using getOrSpawnAgent_typed [OF t1, of ext a2] by (metis snd_conv)
  with t1 show ?thesis
    by (cases r1; cases r2) (auto simp: handleSubmitQuery_def Let_def g1 g2 split: sum.split)
qed

type_synonym ai_event = "attempt \<times> attempt \<times> SubmitQuery"

definition serve :: "(http_request \<Rightarrow> outcome) \<Rightarrow> llm_Config option option \<Rightarrow> Client option \<Rightarrow> ai_event \<Rightarrow> agents \<Rightarrow> agents" where
  "serve net ext client = (\<lambda>(a1, a2, msg) ags. snd (handleSubmitQuery net ext client a1 a2 msg ags))"

interpretation cluster: total_actor "serve net ext client" agents_typed for net ext client
  by unfold_locales (auto simp: serve_def intro: handleSubmitQuery_typed)

lemma served_typed: "agents_typed (fold (serve net ext client) evs Map.empty)"
  by (rule cluster.fold_ok) (simp add: agents_typed_def)

section \<open>What a query is answered\<close>

text \<open>The reply of an agent that is reached.\<close>

definition agent_result :: "(http_request \<Rightarrow> outcome) \<Rightarrow> Agent \<Rightarrow> ProcessQuery \<Rightarrow> QueryResult" where
  "agent_result net ag msg =
     (case ag of
        ResearchAgent c \<Rightarrow> research_handleProcessQuery net c msg
      | SummarizerAgent c \<Rightarrow> summarizer_handleProcessQuery net c msg
      | ToolAgent c \<Rightarrow> tool_handleProcessQuery net c msg)"

lemma askAgent_delivered:
  "ags pid = Some ag \<Longrightarrow> askAgent net Delivered pid (ProcessMsg msg) ags = Inr (ResultReply (agent_result net ag msg))"
  by (cases ag) (simp_all add: askAgent_def ask_def agent_result_def)

lemma askAgent_lost:
  "ags pid = Some ag \<Longrightarrow> askAgent net n pid (ProcessMsg msg) ags =
     (case n of Delivered \<Rightarrow> Inr (ResultReply (agent_result net ag msg)) | Lost e \<Rightarrow> Inl e | ReplyLost e \<Rightarrow> Inl e)"
  by (cases n; cases ag) (simp_all add: askAgent_def ask_def agent_result_def)

definition task_of :: "SubmitQuery \<Rightarrow> ProcessQuery" where
  "task_of msg = \<lparr> pqTask = sqSession msg @ ''-task'', pqQuery = sqQuery msg, pqContext = [],
                   pqType = selectAgentKind (sqQuery msg) \<rparr>"

lemma handleSubmitQuery_delivered:
  assumes "getOrSpawnAgent ext a1 (selectAgentKind (sqQuery msg)) ags = (Inr pid, ags1)" and "ags1 pid = Some ag"
    and "ask_net a1 = Delivered"
  shows "handleSubmitQuery net ext client a1 a2 msg ags =
    (respond (sqSession msg) (read_reply (Inr (ResultReply (agent_result net ag (task_of msg))))), ags1)"
  using assms by (simp add: handleSubmitQuery_def Let_def task_of_def [symmetric] askAgent_delivered)

lemma handleQuery_delivered:
  assumes "fst (handleSubmitQuery net ext client a1 a2 \<lparr> sqSession = sid, sqQuery = q \<rparr> ags) = respond sid r"
    and "q \<noteq> []" and "r \<noteq> Inl []"
  shows "fst (handleQuery net ext client Delivered a1 a2 sid (Some q) ags) =
    (case r of Inl e \<Rightarrow> JSONBody 400 sid [] e | Inr t \<Rightarrow> JSONBody 200 sid t [])"
proof -
  obtain ags' where "handleSubmitQuery net ext client a1 a2 \<lparr> sqSession = sid, sqQuery = q \<rparr> ags = (respond sid r, ags')"
    using assms(1) by (metis prod.collapse)
  then show ?thesis using assms(2,3) by (cases r) (simp_all add: handleQuery_def respond_def)
qed

lemma getOrSpawnAgent_ask_net [simp]: "getOrSpawnAgent ext (a\<lparr>ask_net := n\<rparr>) = getOrSpawnAgent ext a"
  unfolding getOrSpawnAgent_def fun_eq_iff by simp

lemma tool_query_answered:
  assumes "agents_typed ags" and "spawn_err a1 = None" and "ask_net a1 = Delivered" and "tryMath (sqQuery msg) = Some result"
  shows "fst (handleSubmitQuery net ext client a1 a2 msg ags) = respond (sqSession msg) (Inr result)"
proof -
  have k: "selectAgentKind (sqQuery msg) = ''ToolAgent''"
    using assms(4) tryMath_iff [of "sqQuery msg"] by (intro expression_selects_tool) simp
  obtain ags1 ag where g: "getOrSpawnAgent ext a1 (selectAgentKind (sqQuery msg)) ags = (Inr (selectAgentKind (sqQuery msg)), ags1)"
    and ag: "ags1 (selectAgentKind (sqQuery msg)) = Some ag" and "kind_of ag = selectAgentKind (sqQuery msg)"
    using getOrSpawnAgent_found [OF assms(1,2)] by metis
  then obtain c where "ag = ToolAgent c" using k by (cases ag) auto
  then have "agent_result net ag (task_of msg) = respondResult (pqTask (task_of msg)) result"
    using assms(4) by (simp add: agent_result_def tool_handleProcessQuery_def task_of_def)
  then show ?thesis
    using handleSubmitQuery_delivered [OF g ag assms(3)] by (simp add: read_reply_def respondResult_def)
qed

lemma spawn_loop_spec:
  assumes "1 \<le> k" and "k \<le> 10" and "spawn_loop spawn k slept = (r, n, t)"
  shows "k \<le> n \<and> n \<le> 10 \<and> t = slept + (\<Sum>j = k ..< n. 2 * j) \<and> (\<forall>j. k \<le> j \<and> j < n \<longrightarrow> (\<exists>e. spawn j = Inl e)) \<and>
    (case r of Inr pid \<Rightarrow> spawn n = Inr pid | Inl _ \<Rightarrow> n = 10 \<and> (\<exists>e. spawn n = Inl e))"
  using assms
proof (induction spawn k slept rule: spawn_loop.induct)
  case (1 spawn k slept)
  show ?case
  proof (cases "spawn k")
    case (Inr pid)
    then show ?thesis using "1.prems" by (subst (asm) spawn_loop.simps) (auto split: sum.split)
  next
    case (Inl e)
    show ?thesis
    proof (cases "k < 10")
      case True
      then have "spawn_loop spawn (k + 1) (slept + k * 2) = (r, n, t)"
        using "1.prems"(3) Inl by (subst (asm) spawn_loop.simps) simp
      from "1.IH" [OF Inl True _ _ this] True have IH:
        "k + 1 \<le> n" "n \<le> 10" "t = slept + k * 2 + (\<Sum>j = k + 1 ..< n. 2 * j)"
        "\<forall>j. k + 1 \<le> j \<and> j < n \<longrightarrow> (\<exists>e. spawn j = Inl e)"
        "case r of Inr pid \<Rightarrow> spawn n = Inr pid | Inl _ \<Rightarrow> n = 10 \<and> (\<exists>e. spawn n = Inl e)"
        by simp_all
      have "(\<Sum>j = k ..< n. 2 * j) = 2 * k + (\<Sum>j = k + 1 ..< n. 2 * j)"
        using IH(1) by (simp add: sum.atLeast_Suc_lessThan)
      moreover have "\<forall>j. k \<le> j \<and> j < n \<longrightarrow> (\<exists>e. spawn j = Inl e)"
        using IH(4) Inl by (metis Suc_eq_plus1 le_antisym not_less_eq_eq)
      ultimately show ?thesis using IH by simp
    next
      case False
      then show ?thesis using "1.prems" Inl by (subst (asm) spawn_loop.simps) auto
    qed
  qed
qed

section \<open>Properties\<close>



text \<open>
  C23: The tool agent answers a query without a language model exactly when its trimmed lower-case text contains
  a percentage or an expression of two numbers, and the orchestrator sends every such query to the tool agent.
\<close>

theorem expressions_are_computed:
  "(tryMath q \<noteq> None) = has_expression (TrimSpace (ToLower q)) \<and>
   (tryMath q \<noteq> None \<longrightarrow> selectAgentKind q = ''ToolAgent'')"
  using tryMath_iff [of q] expression_selects_tool [of q] by blast

theorem expressions_are_computed_witness:
  "tryMath ''1/0'' \<noteq> None \<and> selectAgentKind ''1/0'' = ''ToolAgent''"
proof -
  have "tryMath ''1/0'' = arith ''/'' (ParseFloat ''1'') (ParseFloat ''0'')"
    using tryMath_expression [of "''1''" "[]" "CHR ''/''" "[]" "''0''"]
    by (simp add: number_def spaces_def is_digit_def)
  then have "tryMath ''1/0'' \<noteq> None" by (simp add: arith_def)
  then show ?thesis using expressions_are_computed [of "''1/0''"] by blast
qed

text \<open>
  A first ask that is lost, or whose reply is lost, is not noticed by the client: when the agent is found
  again and the second ask arrives, the response is the one the first ask would have brought.
\<close>

theorem retry_masks_failure:
  assumes "spawn_err a1 = None" and "spawn_err a2 = None" and "ask_net a2 = Delivered"
  shows "fst (handleSubmitQuery net ext client a1 a2 msg (fold (serve net ext client) evs Map.empty)) =
         fst (handleSubmitQuery net ext client (a1\<lparr>ask_net := Delivered\<rparr>) a2 msg (fold (serve net ext client) evs Map.empty))"
proof -
  let ?ags = "fold (serve net ext client) evs Map.empty" and ?k = "selectAgentKind (sqQuery msg)"
  obtain ags1 ag where g1: "getOrSpawnAgent ext a1 ?k ?ags = (Inr ?k, ags1)" and ag: "ags1 ?k = Some ag"
    and t1: "agents_typed ags1"
    using getOrSpawnAgent_found [OF served_typed assms(1)] by metis
  have g2: "getOrSpawnAgent ext a2 ?k ags1 = (Inr ?k, ags1)"
    using ag assms(2) by (auto simp: getOrSpawnAgent_def)
  show ?thesis
    unfolding handleSubmitQuery_def Let_def getOrSpawnAgent_ask_net g1 prod.case sum.case
    by (cases "ask_net a1") (simp_all add: askAgent_lost [of ags1, OF ag] g2 assms(3))
qed

theorem retry_masks_failure_witness:
  "fst (handleSubmitQuery (\<lambda>_. DoErr ''e'') None None
     \<lparr> lookup_fails = False, spawn_err = None, ask_net = ReplyLost ''timeout'' \<rparr>
     \<lparr> lookup_fails = False, spawn_err = None, ask_net = Delivered \<rparr>
     \<lparr> sqSession = ''s1'', sqQuery = ''2+2'' \<rparr> (fold (serve (\<lambda>_. DoErr ''e'') None None) [] Map.empty)) =
   fst (handleSubmitQuery (\<lambda>_. DoErr ''e'') None None
     \<lparr> lookup_fails = False, spawn_err = None, ask_net = Delivered \<rparr>
     \<lparr> lookup_fails = False, spawn_err = None, ask_net = Delivered \<rparr>
     \<lparr> sqSession = ''s1'', sqQuery = ''2+2'' \<rparr> (fold (serve (\<lambda>_. DoErr ''e'') None None) [] Map.empty))"
  using retry_masks_failure [of "\<lparr> lookup_fails = False, spawn_err = None, ask_net = ReplyLost ''timeout'' \<rparr>"
      "\<lparr> lookup_fails = False, spawn_err = None, ask_net = Delivered \<rparr>" "\<lambda>_. DoErr ''e''" None None
      "\<lparr> sqSession = ''s1'', sqQuery = ''2+2'' \<rparr>" "[]"] by simp

text \<open>
  C40: With the Google client, a request that fails on the way sends the API key to whoever asked: the error
  text of the response contains it. The query need only be one that goes to a language model.
\<close>

theorem google_key_in_response:
  assumes "Provider cfg = ''google''" and "GoogleKey cfg \<noteq> []" and "plain (GoogleKey cfg)"
    and "\<And>req. net req = DoErr e" and "tryMath q = None" and "q \<noteq> []"
    and "spawn_err a1 = None" and "ask_net a1 = Delivered"
  shows "\<exists>pre post. fst (handleQuery net (Some (Some cfg)) client Delivered a1 a2 sid (Some q) Map.empty) =
           JSONBody 400 sid [] (pre @ GoogleKey cfg @ post)"
proof -
  let ?k = "selectAgentKind q" and ?msg = "\<lparr> sqSession = sid, sqQuery = q \<rparr>" and ?ext = "Some (Some cfg)"
  let ?ags = "[?k \<mapsto> newAgent ?ext ?k]"
  have g: "getOrSpawnAgent ?ext a1 (selectAgentKind (sqQuery ?msg)) Map.empty = (Inr ?k, ?ags)"
    using assms(7) by (simp add: getOrSpawnAgent_def)
  have init: "\<exists>m n. initLLMClient ?ext = Some (GoogleClient (GoogleKey cfg) m n)"
    using assms(1,2) by (simp add: initLLMClient_def NewClient_def NewGoogleClient_def)
  obtain prompt sys where r: "agent_result net (newAgent ?ext ?k) (task_of ?msg) =
      respond_llm (pqTask (task_of ?msg)) (completeWithLLM net (initLLMClient ?ext) prompt sys)"
    using selectAgentKind_cases [of q] assms(5)
    by (auto simp: agent_result_def newAgent_def Let_def research_handleProcessQuery_def
        summarizer_handleProcessQuery_def tool_handleProcessQuery_def task_of_def)
  obtain pre post where "completeWithLLM net (initLLMClient ?ext) prompt sys = Inl (pre @ GoogleKey cfg @ post)"
    using init google_failure_has_key [OF assms(3,4)] by (fastforce simp: completeWithLLM_def)
  then have "fst (handleSubmitQuery net ?ext client a1 a2 ?msg Map.empty) = respond sid (Inl (pre @ GoogleKey cfg @ post))"
    using handleSubmitQuery_delivered [OF g _ assms(8)] assms(2)
    by (simp add: r respond_llm_def respondError_def read_reply_def)
  from handleQuery_delivered [OF this] have "fst (handleQuery net ?ext client Delivered a1 a2 sid (Some q) Map.empty) =
      JSONBody 400 sid [] (pre @ GoogleKey cfg @ post)"
    using assms(2,6) by simp
  then show ?thesis by blast
qed

theorem google_key_in_response_witness:
  "\<exists>pre post. fst (handleQuery (\<lambda>_. DoErr ''connection refused'')
       (Some (Some (ConfigFromEnv (\<lambda>v. if v = ''LLM_PROVIDER'' then ''Google'' else if v = ''GOOGLE_API_KEY'' then ''s3cret'' else []))))
       None Delivered \<lparr> lookup_fails = True, spawn_err = None, ask_net = Delivered \<rparr>
       \<lparr> lookup_fails = False, spawn_err = None, ask_net = Delivered \<rparr> ''s1'' (Some ''hello'') Map.empty) =
     JSONBody 400 ''s1'' [] (pre @ ''s3cret'' @ post)"
proof -
  let ?cfg = "ConfigFromEnv (\<lambda>v. if v = ''LLM_PROVIDER'' then ''Google'' else if v = ''GOOGLE_API_KEY'' then ''s3cret'' else [])"
  have "ToLower ''Google'' = ''google''" by code_simp
  then have cfg: "Provider ?cfg = ''google''" "GoogleKey ?cfg = ''s3cret''" by (simp_all add: ConfigFromEnv_def Let_def)
  have "TrimSpace (ToLower ''hello'') = ''hello''" by code_simp
  then have "tryMath ''hello'' = None" by (intro no_operator_no_math) simp
  then show ?thesis
    using google_key_in_response [of ?cfg "\<lambda>_. DoErr ''connection refused''" "''connection refused''" "''hello''"
        "\<lparr> lookup_fails = True, spawn_err = None, ask_net = Delivered \<rparr>" None
        "\<lparr> lookup_fails = False, spawn_err = None, ask_net = Delivered \<rparr>" "''s1''"] cfg
    by (simp add: plain_def)
qed

end
