(* ===== verification/Stream_Demo.thy ===== *)
theory Stream_Demo
  imports Actor Go_Float
begin

text \<open>
  The program's own code in the stream examples (\<^verbatim>\<open>goakt-stream/main.go\<close>): the source actor that answers pull
  requests, the sink actor that fills a channel, and the functions the pipelines apply to orders, log
  entries and user records. The stream operators that carry the elements between them belong to the library
  and are not modelled.
\<close>

section \<open>The source actor\<close>

record CitySourceActor =
  cs_cities :: "string list"
  cs_pos :: nat

datatype city_msg = CityPostStart | PullRequest int | CityOther

datatype city_reply = PullResponse "string list" | CitySilent | CityUnhandled

text \<open>Slicing with a negative bound panics.\<close>

definition City_Receive :: "city_msg \<Rightarrow> CitySourceActor \<Rightarrow> (city_reply \<times> CitySourceActor) option" where
  "City_Receive msg a =
     (case msg of
        CityPostStart \<Rightarrow> Some (CitySilent, a)
      | PullRequest n \<Rightarrow>
          if length (cs_cities a) < cs_pos a then None
          else
            let remaining = drop (cs_pos a) (cs_cities a);
                k = (if n > int (length remaining) then int (length remaining) else n) in
            if k < 0 then None
            else Some (PullResponse (take (nat k) remaining), a\<lparr>cs_pos := cs_pos a + nat k\<rparr>)
      | CityOther \<Rightarrow> Some (CityUnhandled, a))"

definition city_ok :: "CitySourceActor \<Rightarrow> bool" where
  "city_ok a \<longleftrightarrow> cs_pos a \<le> length (cs_cities a)"

definition city_accepts :: "CitySourceActor \<Rightarrow> city_msg \<Rightarrow> bool" where
  "city_accepts a msg \<longleftrightarrow> (case msg of PullRequest n \<Rightarrow> 0 \<le> n | _ \<Rightarrow> True)"

lemma City_Receive_ok:
  "city_ok a \<Longrightarrow> city_accepts a msg \<Longrightarrow> \<exists>r a'. City_Receive msg a = Some (r, a') \<and> city_ok a'"
  by (cases msg) (auto simp: City_Receive_def city_ok_def city_accepts_def Let_def)

interpretation city: actor "\<lambda>msg a. map_option snd (City_Receive msg a)" city_ok city_accepts
proof unfold_locales
  fix a msg assume "city_ok a" and "city_accepts a msg"
  from City_Receive_ok [OF this] show "\<exists>a'. map_option snd (City_Receive msg a) = Some a' \<and> city_ok a'" by auto
qed

section \<open>The sink actor\<close>

text \<open>The channel has a capacity; a send to a full channel blocks, which is \<open>None\<close>.\<close>

datatype sink_msg = SinkPostStart | SinkString string | SinkOther

definition Sink_Receive :: "nat \<Rightarrow> sink_msg \<Rightarrow> string list \<Rightarrow> string list option" where
  "Sink_Receive capacity msg ch =
     (case msg of
        SinkPostStart \<Rightarrow> Some ch
      | SinkString s \<Rightarrow> if length ch < capacity then Some (ch @ [s]) else None
      | SinkOther \<Rightarrow> Some ch)"

lemma deliver_sink:
  "length ch + length ss \<le> capacity \<Longrightarrow> deliver (Sink_Receive capacity) (map SinkString ss) ch = Some (ch @ ss)"
  by (induction ss arbitrary: ch) (simp_all add: Sink_Receive_def)

section \<open>Pulling\<close>

text \<open>The batches that a list of requests is answered with.\<close>

fun pulls :: "int list \<Rightarrow> CitySourceActor \<Rightarrow> (string list list \<times> CitySourceActor) option" where
  "pulls [] a = Some ([], a)"
| "pulls (n # ns) a =
     (case City_Receive (PullRequest n) a of
        Some (PullResponse b, a') \<Rightarrow> map_option (\<lambda>(bs, a''). (b # bs, a'')) (pulls ns a')
      | _ \<Rightarrow> None)"

lemma pulls_exact:
  assumes "city_ok a" and "list_all (\<lambda>n. 0 \<le> n) ns"
  shows "\<exists>bs a'. pulls ns a = Some (bs, a') \<and> city_ok a' \<and> cs_cities a' = cs_cities a \<and>
    concat bs = take (nat (sum_list ns)) (drop (cs_pos a) (cs_cities a)) \<and>
    cs_pos a' = min (length (cs_cities a)) (cs_pos a + nat (sum_list ns))"
  using assms
proof (induction ns arbitrary: a)
  case Nil
  then show ?case by (simp add: city_ok_def)
next
  case (Cons n ns)
  let ?rest = "drop (cs_pos a) (cs_cities a)"
  define k where "k = min (nat n) (length ?rest)"
  let ?a = "a\<lparr>cs_pos := cs_pos a + k\<rparr>"
  have n: "0 \<le> n" and ns: "list_all (\<lambda>n. 0 \<le> n) ns" and pos: "cs_pos a \<le> length (cs_cities a)"
    using Cons.prems by (simp_all add: city_ok_def)
  have step: "City_Receive (PullRequest n) a = Some (PullResponse (take k ?rest), ?a)"
    using n pos by (auto simp: City_Receive_def Let_def k_def min_def nat_le_iff)
  have "city_ok ?a" using pos by (auto simp: city_ok_def k_def)
  then obtain bs a' where IH: "pulls ns ?a = Some (bs, a')" "city_ok a'" "cs_cities a' = cs_cities a"
    "concat bs = take (nat (sum_list ns)) (drop (cs_pos a + k) (cs_cities a))"
    "cs_pos a' = min (length (cs_cities a)) (cs_pos a + k + nat (sum_list ns))"
    using Cons.IH [of ?a] ns by auto
  have sum: "nat (n + sum_list ns) = nat n + nat (sum_list ns)"
    using n ns by (simp add: nat_add_distrib sum_list_nonneg list_all_iff)
  have "take k ?rest @ take (nat (sum_list ns)) (drop (cs_pos a + k) (cs_cities a)) = take (nat n + nat (sum_list ns)) ?rest"
  proof (cases "nat n \<le> length ?rest")
    case True
    then show ?thesis by (simp add: k_def take_add add.commute)
  next
    case False
    then show ?thesis by (simp add: k_def)
  qed
  moreover have "min (length (cs_cities a)) (cs_pos a + k + nat (sum_list ns)) =
      min (length (cs_cities a)) (cs_pos a + (nat n + nat (sum_list ns)))"
    using pos unfolding k_def length_drop by linarith
  ultimately show ?case using IH by (simp add: step sum)
qed

text \<open>
  The pipeline between the two actors: the source is pulled until it is empty, every city is written in upper
  case, and the sink gets them in order, each once, as long as the channel holds them.
\<close>

lemma cities_arrive:
  assumes "list_all (\<lambda>n. 0 \<le> n) ns" and "int (length cities) \<le> sum_list ns" and "length cities \<le> capacity"
  shows "\<exists>bs a. pulls ns \<lparr>cs_cities = cities, cs_pos = 0\<rparr> = Some (bs, a) \<and> cs_pos a = length cities \<and>
    deliver (Sink_Receive capacity) (map (SinkString \<circ> ToUpper) (concat bs)) [] = Some (map ToUpper cities)"
proof -
  let ?a = "\<lparr>cs_cities = cities, cs_pos = 0\<rparr>"
  have "nat (sum_list ns) \<ge> length cities" using assms(2) by linarith
  then obtain bs a where "pulls ns ?a = Some (bs, a)" "concat bs = cities" "cs_pos a = length cities"
    using pulls_exact [of ?a ns] assms(1) by (auto simp: city_ok_def)
  then show ?thesis using deliver_sink [of "[]" "map ToUpper cities" capacity] assms(3) by auto
qed

section \<open>Orders\<close>

record OrderItem =
  oi_Product :: string
  oi_Quantity :: int
  oi_Price :: float64

record Order =
  or_ID :: string
  or_Customer :: string
  or_Items :: "OrderItem list"
  or_Region :: string

definition float_of_int :: "int \<Rightarrow> float64" where
  "float_of_int n = round64 (n < 0) (nat \<bar>n\<bar>) 1"

text \<open>The subtotal, with a rounding after every product and every sum.\<close>

definition Order_Total :: "Order \<Rightarrow> float64" where
  "Order_Total o1 =
     fold (\<lambda>item sum. float_add sum (float_mul (float_of_int (oi_Quantity item)) (oi_Price item))) (or_Items o1) (Fin False 0 0)"

fun float_positive :: "float64 \<Rightarrow> bool" where
  "float_positive (Fin s m e) = (\<not> s \<and> 0 < m)"
| "float_positive (Inf s) = (\<not> s)"
| "float_positive NaN = False"

definition order_validate :: "Order \<Rightarrow> bool" where
  "order_validate o1 \<longleftrightarrow> 0 < length (or_Items o1) \<and> float_positive (Order_Total o1)"

definition order_tax :: "Order \<Rightarrow> string" where
  "order_tax o1 =
     (let rate = (if or_Region o1 = ''US'' then ParseFloat ''0.08'' else if or_Region o1 = ''EU'' then ParseFloat ''0.20'' else Fin False 0 0);
          subtotal = Order_Total o1 in
      or_ID o1 @ '': subtotal=$'' @ format_2f subtotal @ '' tax=$'' @ format_2f (float_mul subtotal rate) @
      '' total=$'' @ format_2f (float_mul subtotal (float_add (float_of_int 1) rate)) @ '' ('' @ or_Region o1 @ '')'')"

text \<open>An order of whole prices is totalled exactly.\<close>

lemma float_of_int_whole: "\<bar>n\<bar> < 2 ^ 53 \<Longrightarrow> denotes (float_of_int n) n"
  unfolding float_of_int_def by (rule round64_denotes) simp_all

lemma total_whole:
  assumes "list_all (\<lambda>i. 0 \<le> oi_Quantity i \<and> 0 \<le> price i \<and> oi_Price i = float_of_int (price i)) items" and "0 \<le> acc"
    and "denotes x acc" and "acc + (\<Sum>i\<leftarrow>items. oi_Quantity i * price i) < 2 ^ 53"
    and "list_all (\<lambda>i. oi_Quantity i < 2 ^ 53 \<and> price i < 2 ^ 53) items"
  shows "denotes (fold (\<lambda>item sum. float_add sum (float_mul (float_of_int (oi_Quantity item)) (oi_Price item))) items x)
    (acc + (\<Sum>i\<leftarrow>items. oi_Quantity i * price i))"
  using assms
proof (induction items arbitrary: x acc)
  case (Cons i items)
  let ?p = "oi_Quantity i * price i"
  have nonneg: "0 \<le> (\<Sum>i\<leftarrow>items. oi_Quantity i * price i)"
    using Cons.prems(1) by (intro sum_list_nonneg) (auto simp: list_all_iff)
  have i: "0 \<le> oi_Quantity i" "0 \<le> price i" "oi_Price i = float_of_int (price i)" using Cons.prems(1) by simp_all
  have "?p < 2 ^ 53" using Cons.prems(2,4) nonneg by simp
  then have "denotes (float_mul (float_of_int (oi_Quantity i)) (oi_Price i)) ?p"
    using float_mul_exact [OF float_of_int_whole float_of_int_whole, of "oi_Quantity i" "price i"] i Cons.prems(5) by simp
  then have "denotes (float_add x (float_mul (float_of_int (oi_Quantity i)) (oi_Price i))) (acc + ?p)"
    using float_add_whole [OF Cons.prems(3)] i Cons.prems(2,4) nonneg by simp
  from Cons.IH [OF _ _ this] show ?case using Cons.prems i by (simp add: add.assoc)
qed simp

section \<open>Logs\<close>

record LogEntry =
  le_Service :: string
  le_Level :: string
  le_Message :: string

definition severityFilter :: "LogEntry \<Rightarrow> bool" where
  "severityFilter e \<longleftrightarrow> le_Level e = ''WARN'' \<or> le_Level e = ''ERROR''"

text \<open>Go compares strings by their bytes.\<close>

fun str_less :: "string \<Rightarrow> string \<Rightarrow> bool" where
  "str_less s [] = False"
| "str_less [] (d # t) = True"
| "str_less (c # s) (d # t) = ((of_char c :: nat) < of_char d \<or> c = d \<and> str_less s t)"

definition alert_less :: "LogEntry \<Rightarrow> LogEntry \<Rightarrow> bool" where
  "alert_less a b = (if le_Service a \<noteq> le_Service b then str_less (le_Service a) (le_Service b) else str_less (le_Level a) (le_Level b))"

lemma str_less_irrefl: "\<not> str_less s s"
  by (induction s) auto

lemma str_less_trans: "str_less s t \<Longrightarrow> str_less t u \<Longrightarrow> str_less s u"
proof (induction s t arbitrary: u rule: str_less.induct)
  case (2 d t)
  then show ?case by (cases u) auto
next
  case (3 c s d t)
  then show ?case by (cases u) auto
qed simp

lemma str_less_total: "s \<noteq> t \<Longrightarrow> str_less s t \<or> str_less t s"
proof (induction s t rule: str_less.induct)
  case (3 c s d t)
  then show ?case by (cases "c = d") (auto simp: less_le)
qed (auto simp: neq_Nil_conv)

text \<open>The order the alerts are sorted by is one: a sort by it is well defined up to entries of the same service and level.\<close>

lemma alert_less_order:
  "\<not> alert_less a a"
  "alert_less a b \<Longrightarrow> alert_less b c \<Longrightarrow> alert_less a c"
  "\<not> alert_less a b \<Longrightarrow> \<not> alert_less b a \<Longrightarrow> le_Service a = le_Service b \<and> le_Level a = le_Level b"
  using str_less_irrefl str_less_trans str_less_total by (auto simp: alert_less_def split: if_splits) metis+

section \<open>Users\<close>

record UserRecord =
  ur_Name :: string
  ur_Email :: string
  ur_Country :: string
  ur_SignUp :: string

record NormalizedUser =
  nu_Name :: string
  nu_Email :: string
  nu_Country :: string
  nu_SignUp :: int

record EnrichedUser =
  eu_Name :: string
  eu_Email :: string
  eu_Domain :: string
  eu_Country :: string
  eu_DaysSince :: int

text \<open>
  \<open>parse\<close> reads a date as hours, and is the zero time on a date it cannot read; \<open>now\<close> is the current hour.
\<close>

definition user_normalize :: "(string \<Rightarrow> int) \<Rightarrow> UserRecord \<Rightarrow> NormalizedUser" where
  "user_normalize parse r =
     \<lparr>nu_Name = TrimSpace (ur_Name r), nu_Email = ToLower (TrimSpace (ur_Email r)),
      nu_Country = ToUpper (TrimSpace (ur_Country r)), nu_SignUp = parse (ur_SignUp r)\<rparr>"

definition user_enrich :: "(string \<Rightarrow> int) \<Rightarrow> int \<Rightarrow> UserRecord \<Rightarrow> EnrichedUser" where
  "user_enrich parse now r =
     (let parts = SplitN (ur_Email r) CHR ''@'' 2 in
      \<lparr>eu_Name = TrimSpace (ur_Name r), eu_Email = ur_Email r,
       eu_Domain = (if length parts = 2 then parts ! 1 else ''unknown''),
       eu_Country = ToUpper (ur_Country r), eu_DaysSince = (now - parse (ur_SignUp r)) div 24\<rparr>)"

lemma enrich_domain:
  "CHR ''@'' \<notin> set a \<Longrightarrow> eu_Domain (user_enrich parse now (r\<lparr>ur_Email := a @ CHR ''@'' # b\<rparr>)) = b"
  "CHR ''@'' \<notin> set a \<Longrightarrow> eu_Domain (user_enrich parse now (r\<lparr>ur_Email := a\<rparr>)) = ''unknown''"
proof -
  assume a: "CHR ''@'' \<notin> set a"
  then show "eu_Domain (user_enrich parse now (r\<lparr>ur_Email := a @ CHR ''@'' # b\<rparr>)) = b"
    by (simp add: user_enrich_def numeral_2_eq_2)
  from a have "Cut a CHR ''@'' = None" by (induction a) auto
  then show "eu_Domain (user_enrich parse now (r\<lparr>ur_Email := a\<rparr>)) = ''unknown''"
    by (simp add: user_enrich_def numeral_2_eq_2)
qed

end
