(* ===== verification/Pictograph_Room.thy ===== *)
theory Pictograph_Room
  imports Actor Go_Std
begin

text \<open>
  The drawing game (\<^verbatim>\<open>goakt-pictograph\<close>): the words (\<^verbatim>\<open>words.go\<close>) and the room actor with its five
  behaviours (\<^verbatim>\<open>room.go\<close>, messages of \<^verbatim>\<open>types.go\<close>). No handler has a panicking path. The behaviour
  installed by \<^verbatim>\<open>Become\<close> is a field, what the room sends is appended to its outbox, and what it reads
  from its context is the record \<open>Env\<close>. Messages stashed in the choosing phase are a field; \<^verbatim>\<open>UnstashAll\<close>
  puts them back in front of the mailbox, so \<open>room_step\<close> handles them next. The points of a stroke are
  passed on only; their coordinates are kept as integers. The sign the room chats under is not ASCII
  and is spelled out.
\<close>

section \<open>Words\<close>

definition wordBank :: "string list" where
  "wordBank =
     [''cat'', ''dog'', ''elephant'', ''giraffe'', ''octopus'', ''penguin'', ''whale'', ''rabbit'',
      ''butterfly'', ''spider'', ''snake'', ''kangaroo'', ''hedgehog'', ''owl'', ''dolphin'',
      ''pineapple'', ''pizza'', ''hamburger'', ''sushi'', ''donut'', ''watermelon'', ''carrot'',
      ''cupcake'', ''popcorn'', ''sandwich'', ''spaghetti'', ''taco'', ''icecream'',
      ''umbrella'', ''telephone'', ''guitar'', ''camera'', ''bicycle'', ''clock'', ''scissors'',
      ''backpack'', ''lamp'', ''anchor'', ''binoculars'', ''compass'', ''telescope'', ''balloon'',
      ''spaceship'', ''helicopter'', ''submarine'', ''rocket'', ''lighthouse'', ''windmill'',
      ''castle'', ''pyramid'', ''skyscraper'', ''bridge'', ''treehouse'',
      ''dragon'', ''unicorn'', ''robot'', ''mermaid'', ''wizard'', ''ghost'', ''pirate'', ''alien'',
      ''vampire'', ''snowman'', ''skeleton'',
      ''mountain'', ''rainbow'', ''tornado'', ''volcano'', ''waterfall'', ''cactus'', ''mushroom'',
      ''sunflower'', ''iceberg'', ''tree'']"

definition pickWords :: "nat \<Rightarrow> rng \<Rightarrow> string list" where
  "pickWords n g =
     (let n = (if n > length wordBank then length wordBank else n) in take n (fst (rand_Shuffle wordBank g)))"

definition mask_char :: "char \<Rightarrow> char" where
  "mask_char c =
     (let n = of_char c :: nat in
      if 97 \<le> n \<and> n \<le> 122 \<or> 65 \<le> n \<and> n \<le> 90 then CHR ''_'' else c)"

definition maskWord :: "string \<Rightarrow> string" where
  "maskWord w = map mask_char w"

section \<open>Messages and events\<close>

definition MinPlayers :: nat where "MinPlayers = 2"
definition MaxPlayers :: nat where "MaxPlayers = 8"
definition DefaultRounds :: nat where "DefaultRounds = 3"
definition DrawSeconds :: int where "DrawSeconds = 80"
definition ChooseSeconds :: int where "ChooseSeconds = 15"
definition RoundOverSecs :: int where "RoundOverSecs = 5"
definition GameOverSecs :: int where "GameOverSecs = 20"
definition WordChoices :: nat where "WordChoices = 3"
definition BaseScore :: int where "BaseScore = 100"
definition DrawerBonus :: int where "DrawerBonus = 50"
definition MinGuessScore :: int where "MinGuessScore = 10"
definition RoomActorPrefix :: string where "RoomActorPrefix = ''room.''"
definition RoomTopicPrefix :: string where "RoomTopicPrefix = ''room.''"
definition schedRefCountdown :: string where "schedRefCountdown = ''countdown.''"
definition schedRefChoose :: string where "schedRefChoose = ''choose.''"
definition schedRefRoundEnd :: string where "schedRefRoundEnd = ''roundend.''"
definition schedRefShutdown :: string where "schedRefShutdown = ''shutdown.''"
definition schedRefStartGame :: string where "schedRefStartGame = ''startgame.''"
definition strokeBufferMax :: nat where "strokeBufferMax = 2000"
definition joinGatherWindow :: int where "joinGatherWindow = 5"

datatype Phase = PhaseWaiting | PhaseChoosing | PhaseDrawing | PhaseRoundOver | PhaseGameOver

datatype InType = InTypeStroke | InTypeClear | InTypeGuess | InTypePickWord | InTypeRestart | InTypeOther

type_synonym point = "int \<times> int"

record WSIn =
  In_Type :: InType
  In_Points :: "point list"
  In_Color :: int
  In_Width :: int
  In_Word :: string
  In_Text :: string

type_synonym PlayerView = "string \<times> string \<times> int"

record StateEvent =
  St_Phase :: Phase
  St_Round :: nat
  St_MaxRounds :: nat
  St_TimeLeft :: int
  St_Players :: "PlayerView list"
  St_DrawerID :: string
  St_WordMask :: string

record Stroke =
  Sk_Points :: "point list"
  Sk_Color :: int
  Sk_Width :: int

text \<open>
  The first argument of an event is its \<^verbatim>\<open>For\<close> field where the room ever sets it; a joined event carries
  the room code and the player's id and name.
\<close>

datatype room_event =
    JoinedEvent string string string
  | StateEv StateEvent
  | StrokeEvent string Stroke
  | ClearEvent
  | ChatEvent string string
  | GuessedEvent string string
  | ScoreEvent string int int
  | WordChoicesEvent string "string list"
  | SecretWordEvent string string
  | RoundOverEvent string "PlayerView list"
  | GameOverEvent string string "PlayerView list" "(string \<times> string \<times> int) list"
  | ErrorEvent string string

datatype timer = NextRoundT | AutoPickFirstT | TickCountdownT | ShutdownRoomT

datatype room_msg =
    PostStart string
  | PlayerHello string string string
  | GoodbyePlayer string
  | Terminated string
  | PlayerInput string WSIn
  | NextRound
  | AutoPickFirst
  | TickCountdown
  | ShutdownRoom
  | LeaderboardTop "(string \<times> string \<times> int) list"
  | OtherMsg

datatype effect =
    Publish string room_event
  | Tell "string option" room_event
  | ScheduleOnce string timer int
  | ScheduleEvery string timer int
  | CancelSchedule string
  | Watch string
  | RememberName string string
  | RecordGrain string string bool int
  | RecordWinTop string string
  | Shutdown
  | Unhandled

section \<open>State\<close>

record roomPlayer =
  rp_id :: string
  rp_name :: string
  rp_sessionName :: string
  rp_sessionPID :: "string option"
  rp_score :: int
  rp_hasDrawn :: bool

datatype Behavior = Bootstrap | Waiting | Choosing | Drawing | RoundOver | GameOver

record RoomActor =
  r_code :: string
  r_maxRounds :: nat
  r_players :: "roomPlayer list"
  r_round :: nat
  r_drawerID :: string
  r_word :: string
  r_wordChoices :: "string list"
  r_timeLeft :: int
  r_guessed :: "string set"
  r_strokes :: "Stroke list"
  r_schedSuffix :: string
  r_activeRefs :: "string set"
  r_topic :: string
  r_hadPlayer :: bool
  r_behavior :: Behavior
  r_stash :: "room_msg list"
  r_unstashed :: "room_msg list"
  r_outbox :: "effect list"

record Env =
  sender :: "string option"
  schedule_ok :: "string \<Rightarrow> bool"
  topic_actor :: bool
  draws :: rng

section \<open>Helpers\<close>

definition emit :: "effect \<Rightarrow> RoomActor \<Rightarrow> RoomActor" where
  "emit e r = r\<lparr>r_outbox := r_outbox r @ [e]\<rparr>"

definition become :: "Behavior \<Rightarrow> RoomActor \<Rightarrow> RoomActor" where
  "become b r = r\<lparr>r_behavior := b\<rparr>"

definition schedRef :: "string \<Rightarrow> RoomActor \<Rightarrow> string" where
  "schedRef prefix r = prefix @ r_schedSuffix r"

definition schedule :: "Env \<Rightarrow> timer \<Rightarrow> int \<Rightarrow> string \<Rightarrow> RoomActor \<Rightarrow> RoomActor" where
  "schedule env t delay prefix r =
     (let ref = schedRef prefix r in
      if \<not> schedule_ok env ref then r
      else emit (ScheduleOnce ref t delay) (r\<lparr>r_activeRefs := insert ref (r_activeRefs r)\<rparr>))"

definition scheduleRecurring :: "Env \<Rightarrow> timer \<Rightarrow> int \<Rightarrow> string \<Rightarrow> RoomActor \<Rightarrow> RoomActor" where
  "scheduleRecurring env t interval prefix r =
     (let ref = schedRef prefix r in
      if \<not> schedule_ok env ref then r
      else emit (ScheduleEvery ref t interval) (r\<lparr>r_activeRefs := insert ref (r_activeRefs r)\<rparr>))"

definition cancelSchedule :: "string \<Rightarrow> RoomActor \<Rightarrow> RoomActor" where
  "cancelSchedule prefix r =
     (let ref = schedRef prefix r in
      if ref \<notin> r_activeRefs r then r
      else emit (CancelSchedule ref) (r\<lparr>r_activeRefs := r_activeRefs r - {ref}\<rparr>))"

definition publish :: "Env \<Rightarrow> room_event \<Rightarrow> RoomActor \<Rightarrow> RoomActor" where
  "publish env evt r = (if topic_actor env then emit (Publish (r_topic r) evt) r else r)"

definition currentMask :: "RoomActor \<Rightarrow> string" where
  "currentMask r = (if r_word r = [] then [] else maskWord (r_word r))"

definition playerViews :: "RoomActor \<Rightarrow> PlayerView list" where
  "playerViews r = map (\<lambda>p. (rp_id p, rp_name p, rp_score p)) (r_players r)"

definition broadcastState :: "Env \<Rightarrow> Phase \<Rightarrow> RoomActor \<Rightarrow> RoomActor" where
  "broadcastState env phase r =
     publish env (StateEv \<lparr>St_Phase = phase, St_Round = r_round r, St_MaxRounds = r_maxRounds r,
       St_TimeLeft = r_timeLeft r, St_Players = playerViews r, St_DrawerID = r_drawerID r,
       St_WordMask = currentMask r\<rparr>) r"

definition playerByID :: "string \<Rightarrow> RoomActor \<Rightarrow> roomPlayer option" where
  "playerByID i r = find (\<lambda>p. rp_id p = i) (r_players r)"

text \<open>A write through the pointer that \<open>playerByID\<close> returned.\<close>

fun update_player :: "string \<Rightarrow> (roomPlayer \<Rightarrow> roomPlayer) \<Rightarrow> roomPlayer list \<Rightarrow> roomPlayer list" where
  "update_player i f [] = []"
| "update_player i f (p # ps) = (if rp_id p = i then f p # ps else p # update_player i f ps)"

definition watch :: "string option \<Rightarrow> RoomActor \<Rightarrow> RoomActor" where
  "watch s r = (case s of None \<Rightarrow> r | Some p \<Rightarrow> emit (Watch p) r)"

definition addPlayer :: "Env \<Rightarrow> string \<Rightarrow> string \<Rightarrow> string \<Rightarrow> RoomActor \<Rightarrow> bool \<times> RoomActor" where
  "addPlayer env playerID name sessionName r =
     (let r = emit (RememberName playerID name) r in
      case playerByID playerID r of
        Some existing \<Rightarrow>
          (True, watch (sender env)
             (r\<lparr>r_players := update_player playerID
                 (\<lambda>p. p\<lparr>rp_sessionName := sessionName, rp_sessionPID := sender env, rp_name := name\<rparr>) (r_players r)\<rparr>))
      | None \<Rightarrow>
          if length (r_players r) \<ge> MaxPlayers
          then (False, emit (Tell (sender env) (ErrorEvent playerID ''room is full'')) r)
          else (True, watch (sender env)
             (r\<lparr>r_players := r_players r @ [\<lparr>rp_id = playerID, rp_name = name, rp_sessionName = sessionName,
                 rp_sessionPID = sender env, rp_score = 0, rp_hasDrawn = False\<rparr>], r_hadPlayer := True\<rparr>)))"

definition removePlayerByName :: "string \<Rightarrow> RoomActor \<Rightarrow> bool \<times> RoomActor" where
  "removePlayerByName name r =
     (case find_index (\<lambda>p. rp_sessionName p = name) (r_players r) of
        Some i \<Rightarrow> (True, r\<lparr>r_players := remove_at i (r_players r)\<rparr>)
      | None \<Rightarrow> (False, r))"

definition removePlayerByPath :: "string \<Rightarrow> RoomActor \<Rightarrow> bool \<times> RoomActor" where
  "removePlayerByPath path r =
     (case find_index (\<lambda>p. rp_sessionPID p = Some path) (r_players r) of
        Some i \<Rightarrow> (True, r\<lparr>r_players := remove_at i (r_players r)\<rparr>)
      | None \<Rightarrow> (False, r))"

fun mark_drawer :: "roomPlayer list \<Rightarrow> (string \<times> roomPlayer list) option" where
  "mark_drawer [] = None"
| "mark_drawer (p # ps) =
     (if \<not> rp_hasDrawn p then Some (rp_id p, p\<lparr>rp_hasDrawn := True\<rparr> # ps)
      else map_option (\<lambda>(i, qs). (i, p # qs)) (mark_drawer ps))"

definition pickNextDrawer :: "roomPlayer list \<Rightarrow> string \<times> roomPlayer list" where
  "pickNextDrawer ps =
     (case ps of
        [] \<Rightarrow> ([], [])
      | p # _ \<Rightarrow>
          (case mark_drawer ps of
             Some q \<Rightarrow> q
           | None \<Rightarrow>
               (rp_id p, (case map (\<lambda>p. p\<lparr>rp_hasDrawn := False\<rparr>) ps of
                            [] \<Rightarrow> [] | q # qs \<Rightarrow> q\<lparr>rp_hasDrawn := True\<rparr> # qs))))"

definition nameFor :: "string \<Rightarrow> RoomActor \<Rightarrow> string" where
  "nameFor i r = (case playerByID i r of Some p \<Rightarrow> rp_name p | None \<Rightarrow> i)"

definition sendJoined :: "Env \<Rightarrow> string \<Rightarrow> string \<Rightarrow> RoomActor \<Rightarrow> RoomActor" where
  "sendJoined env playerID name r =
     (case sender env of None \<Rightarrow> r | Some s \<Rightarrow> emit (Tell (Some s) (JoinedEvent playerID (r_code r) name)) r)"

definition maybeShutdown :: "RoomActor \<Rightarrow> RoomActor" where
  "maybeShutdown r = (if r_hadPlayer r \<and> r_players r = [] then emit Shutdown r else r)"

definition cancelGatherIfBelowMin :: "RoomActor \<Rightarrow> RoomActor" where
  "cancelGatherIfBelowMin r =
     (if length (r_players r) < MinPlayers then cancelSchedule schedRefStartGame r else r)"

section \<open>The end of rounds and games\<close>

fun winner_loop :: "roomPlayer list \<Rightarrow> int \<Rightarrow> string \<times> string \<Rightarrow> string \<times> string" where
  "winner_loop [] best w = w"
| "winner_loop (p # ps) best w =
     (if rp_score p > best then winner_loop ps (rp_score p) (rp_id p, rp_name p) else winner_loop ps best w)"

definition computeWinner :: "RoomActor \<Rightarrow> string \<times> string" where
  "computeWinner r = winner_loop (r_players r) (-1) ([], [])"

definition recordResults :: "string \<Rightarrow> RoomActor \<Rightarrow> RoomActor" where
  "recordResults winnerID r =
     (let r = fold (\<lambda>p. emit (RecordGrain (rp_id p) (rp_name p) (rp_id p = winnerID) (rp_score p))) (r_players r) r in
      if winnerID = [] then r
      else emit (RecordWinTop winnerID (case playerByID winnerID r of Some p \<Rightarrow> rp_name p | None \<Rightarrow> [])) r)"

definition enterGameOver :: "Env \<Rightarrow> RoomActor \<Rightarrow> RoomActor" where
  "enterGameOver env r =
     (let r = cancelSchedule schedRefCountdown r;
          r = cancelSchedule schedRefRoundEnd r;
          (winnerID, winnerName) = computeWinner r;
          r = publish env (GameOverEvent winnerID winnerName (playerViews r) []) r;
          r = recordResults winnerID r;
          r = broadcastState env PhaseGameOver r;
          r = schedule env ShutdownRoomT GameOverSecs schedRefShutdown r
      in become GameOver r)"

definition enterRoundOver :: "Env \<Rightarrow> RoomActor \<Rightarrow> RoomActor" where
  "enterRoundOver env r =
     (let r = cancelSchedule schedRefCountdown r;
          r = cancelSchedule schedRefChoose r;
          r = publish env (RoundOverEvent (r_word r) (playerViews r)) r;
          r = broadcastState env PhaseRoundOver r;
          r = schedule env NextRoundT RoundOverSecs schedRefRoundEnd r
      in become RoundOver r)"

definition maybeAbortRound :: "Env \<Rightarrow> RoomActor \<Rightarrow> RoomActor" where
  "maybeAbortRound env r =
     (if length (r_players r) < MinPlayers then enterRoundOver env r
      else if playerByID (r_drawerID r) r = None then enterRoundOver env r
      else r)"

definition enterChoosing :: "Env \<Rightarrow> RoomActor \<Rightarrow> RoomActor" where
  "enterChoosing env r =
     (let r = cancelSchedule schedRefStartGame r;
          r = r\<lparr>r_round := r_round r + 1\<rparr> in
      if r_round r > r_maxRounds r then enterGameOver env r
      else
        let (drawer, ps) = pickNextDrawer (r_players r);
            r = r\<lparr>r_players := ps, r_drawerID := drawer, r_wordChoices := pickWords WordChoices (draws env),
                  r_word := [], r_timeLeft := ChooseSeconds, r_guessed := {}, r_strokes := []\<rparr>;
            r = broadcastState env PhaseChoosing r;
            r = publish env (WordChoicesEvent (r_drawerID r) (r_wordChoices r)) r;
            r = schedule env AutoPickFirstT ChooseSeconds schedRefChoose r
        in become Choosing r)"

definition enterDrawing :: "Env \<Rightarrow> RoomActor \<Rightarrow> RoomActor" where
  "enterDrawing env r =
     (let r = r\<lparr>r_timeLeft := DrawSeconds\<rparr>;
          r = publish env (SecretWordEvent (r_drawerID r) (r_word r)) r;
          r = broadcastState env PhaseDrawing r;
          r = scheduleRecurring env TickCountdownT 1 schedRefCountdown r;
          r = become Drawing r
      in r\<lparr>r_unstashed := r_unstashed r @ r_stash r, r_stash := []\<rparr>)"

section \<open>Guesses\<close>

text \<open>
  The score of a correct guess. The Go code computes it in \<^verbatim>\<open>float64\<close> and truncates; for every number of
  seconds from 0 to 80 this is the truncated exact value.
\<close>

definition scoreForCorrectGuess :: "RoomActor \<Rightarrow> int" where
  "scoreForCorrectGuess r =
     max ((BaseScore * r_timeLeft r + MinGuessScore * (DrawSeconds - r_timeLeft r)) div DrawSeconds) MinGuessScore"

definition allNonDrawersGuessed :: "RoomActor \<Rightarrow> bool" where
  "allNonDrawersGuessed r =
     list_all (\<lambda>p. rp_id p = r_drawerID r \<or> rp_id p \<in> r_guessed r) (r_players r)"

definition award :: "Env \<Rightarrow> string \<Rightarrow> int \<Rightarrow> RoomActor \<Rightarrow> RoomActor" where
  "award env i delta r =
     (case playerByID i r of
        None \<Rightarrow> r
      | Some p \<Rightarrow>
          publish env (ScoreEvent (rp_id p) delta (rp_score p + delta))
            (r\<lparr>r_players := update_player i (\<lambda>p. p\<lparr>rp_score := rp_score p + delta\<rparr>) (r_players r)\<rparr>))"

definition handleGuess :: "Env \<Rightarrow> string \<Rightarrow> string \<Rightarrow> RoomActor \<Rightarrow> RoomActor" where
  "handleGuess env playerID text r =
     (case playerByID playerID r of
        None \<Rightarrow> r
      | Some player \<Rightarrow>
          if playerID = r_drawerID r then r
          else if playerID \<in> r_guessed r then r
          else
            let guess = ToLower (TrimSpace text) in
            if guess = [] then r
            else if guess \<noteq> ToLower (r_word r) then publish env (ChatEvent (rp_name player) text) r
            else
              let r = r\<lparr>r_guessed := insert playerID (r_guessed r)\<rparr>;
                  delta = scoreForCorrectGuess r;
                  r = publish env (GuessedEvent (rp_id player) (rp_name player)) r;
                  r = award env playerID delta r;
                  r = award env (r_drawerID r) DrawerBonus r
              in if allNonDrawersGuessed r then enterRoundOver env r else r)"

section \<open>The behaviours\<close>

definition hello :: "Env \<Rightarrow> Phase \<Rightarrow> string \<Rightarrow> string \<Rightarrow> string \<Rightarrow> RoomActor \<Rightarrow> bool \<times> RoomActor" where
  "hello env phase playerID name sessionName r =
     (let (ok, r) = addPlayer env playerID name sessionName r in
      if \<not> ok then (False, r)
      else (True, broadcastState env phase (sendJoined env playerID name r)))"

definition depart :: "Env \<Rightarrow> Phase \<Rightarrow> bool \<times> RoomActor \<Rightarrow> RoomActor" where
  "depart env phase q = (if fst q then broadcastState env phase (snd q) else snd q)"

definition chat :: "Env \<Rightarrow> string \<Rightarrow> WSIn \<Rightarrow> RoomActor \<Rightarrow> RoomActor" where
  "chat env playerID inp r =
     (if In_Type inp = InTypeGuess then publish env (ChatEvent (nameFor playerID r) (In_Text inp)) r else r)"

definition on_waiting :: "Env \<Rightarrow> room_msg \<Rightarrow> RoomActor \<Rightarrow> RoomActor" where
  "on_waiting env msg r =
     (case msg of
        PlayerHello i name s \<Rightarrow>
          (let (ok, r) = hello env PhaseWaiting i name s r in
           if ok \<and> length (r_players r) \<ge> MinPlayers
           then schedule env NextRoundT joinGatherWindow schedRefStartGame (cancelSchedule schedRefStartGame r)
           else r)
      | GoodbyePlayer s \<Rightarrow>
          maybeShutdown (cancelGatherIfBelowMin (depart env PhaseWaiting (removePlayerByName s r)))
      | Terminated path \<Rightarrow>
          maybeShutdown (cancelGatherIfBelowMin (depart env PhaseWaiting (removePlayerByPath path r)))
      | PlayerInput i inp \<Rightarrow> chat env i inp r
      | NextRound \<Rightarrow> enterChoosing env (r\<lparr>r_round := 0\<rparr>)
      | _ \<Rightarrow> emit Unhandled r)"

definition isValidChoice :: "string \<Rightarrow> RoomActor \<Rightarrow> bool" where
  "isValidChoice w r \<longleftrightarrow> w \<in> set (r_wordChoices r)"

definition on_choosing :: "Env \<Rightarrow> room_msg \<Rightarrow> RoomActor \<Rightarrow> RoomActor" where
  "on_choosing env msg r =
     (case msg of
        PlayerHello i name s \<Rightarrow> snd (hello env PhaseChoosing i name s r)
      | GoodbyePlayer s \<Rightarrow> maybeAbortRound env (depart env PhaseChoosing (removePlayerByName s r))
      | Terminated path \<Rightarrow> maybeAbortRound env (depart env PhaseChoosing (removePlayerByPath path r))
      | PlayerInput i inp \<Rightarrow>
          (case In_Type inp of
             InTypePickWord \<Rightarrow>
               if i \<noteq> r_drawerID r \<or> \<not> isValidChoice (In_Word inp) r then r
               else enterDrawing env (cancelSchedule schedRefChoose (r\<lparr>r_word := In_Word inp\<rparr>))
           | InTypeGuess \<Rightarrow> r\<lparr>r_stash := r_stash r @ [msg]\<rparr>
           | _ \<Rightarrow> r)
      | AutoPickFirst \<Rightarrow>
          enterDrawing env (case r_wordChoices r of [] \<Rightarrow> r | w # _ \<Rightarrow> r\<lparr>r_word := w\<rparr>)
      | _ \<Rightarrow> emit Unhandled r)"

definition on_drawing :: "Env \<Rightarrow> room_msg \<Rightarrow> RoomActor \<Rightarrow> RoomActor" where
  "on_drawing env msg r =
     (case msg of
        PlayerHello i name s \<Rightarrow>
          (let (ok, r) = hello env PhaseDrawing i name s r in
           if ok then fold (\<lambda>k. emit (Tell (sender env) (StrokeEvent i k))) (r_strokes r) r else r)
      | GoodbyePlayer s \<Rightarrow> maybeAbortRound env (depart env PhaseDrawing (removePlayerByName s r))
      | Terminated path \<Rightarrow> maybeAbortRound env (depart env PhaseDrawing (removePlayerByPath path r))
      | PlayerInput i inp \<Rightarrow>
          (case In_Type inp of
             InTypeStroke \<Rightarrow>
               if i \<noteq> r_drawerID r then r
               else
                 let k = \<lparr>Sk_Points = In_Points inp, Sk_Color = In_Color inp, Sk_Width = In_Width inp\<rparr>;
                     r = (if length (r_strokes r) < strokeBufferMax then r\<lparr>r_strokes := r_strokes r @ [k]\<rparr> else r)
                 in publish env (StrokeEvent [] k) r
           | InTypeClear \<Rightarrow>
               if i \<noteq> r_drawerID r then r else publish env ClearEvent (r\<lparr>r_strokes := []\<rparr>)
           | InTypeGuess \<Rightarrow> handleGuess env i (In_Text inp) r
           | _ \<Rightarrow> r)
      | TickCountdown \<Rightarrow>
          (let r = r\<lparr>r_timeLeft := r_timeLeft r - 1\<rparr> in
           if r_timeLeft r \<le> 0 then enterRoundOver env r else broadcastState env PhaseDrawing r)
      | _ \<Rightarrow> emit Unhandled r)"

definition on_roundOver :: "Env \<Rightarrow> room_msg \<Rightarrow> RoomActor \<Rightarrow> RoomActor" where
  "on_roundOver env msg r =
     (case msg of
        PlayerHello i name s \<Rightarrow> snd (hello env PhaseRoundOver i name s r)
      | GoodbyePlayer s \<Rightarrow> maybeShutdown (depart env PhaseRoundOver (removePlayerByName s r))
      | Terminated path \<Rightarrow> maybeShutdown (depart env PhaseRoundOver (removePlayerByPath path r))
      | PlayerInput i inp \<Rightarrow> chat env i inp r
      | NextRound \<Rightarrow> if length (r_players r) < MinPlayers then enterGameOver env r else enterChoosing env r
      | _ \<Rightarrow> emit Unhandled r)"

definition announcer :: string where "announcer = ''announcement''"

definition restartGame :: "Env \<Rightarrow> string \<Rightarrow> RoomActor \<Rightarrow> RoomActor" where
  "restartGame env byPlayerID r =
     (let r = fold cancelSchedule
            [schedRefShutdown, schedRefStartGame, schedRefChoose, schedRefCountdown, schedRefRoundEnd] r;
          r = r\<lparr>r_players := map (\<lambda>p. p\<lparr>rp_score := 0, rp_hasDrawn := False\<rparr>) (r_players r),
                r_round := 0, r_drawerID := [], r_word := [], r_wordChoices := [], r_timeLeft := 0,
                r_guessed := {}, r_strokes := []\<rparr>;
          r = publish env (ChatEvent announcer (nameFor byPlayerID r @ '' started a new game'')) r
      in if length (r_players r) < MinPlayers
         then become Waiting (broadcastState env PhaseWaiting r)
         else enterChoosing env r)"

definition on_gameOver :: "Env \<Rightarrow> room_msg \<Rightarrow> RoomActor \<Rightarrow> RoomActor" where
  "on_gameOver env msg r =
     (case msg of
        LeaderboardTop entries \<Rightarrow>
          (let (winnerID, winnerName) = computeWinner r in
           publish env (GameOverEvent winnerID winnerName (playerViews r) entries) r)
      | PlayerHello i name s \<Rightarrow> snd (hello env PhaseGameOver i name s r)
      | GoodbyePlayer s \<Rightarrow> snd (removePlayerByName s r)
      | Terminated path \<Rightarrow> snd (removePlayerByPath path r)
      | PlayerInput i inp \<Rightarrow>
          (case In_Type inp of
             InTypeRestart \<Rightarrow> restartGame env i r
           | _ \<Rightarrow> chat env i inp r)
      | ShutdownRoom \<Rightarrow> emit Shutdown r
      | _ \<Rightarrow> emit Unhandled r)"

definition Room_Receive :: "Env \<Rightarrow> room_msg \<Rightarrow> RoomActor \<Rightarrow> RoomActor" where
  "Room_Receive env msg r =
     (case msg of
        PostStart self \<Rightarrow>
          (let code = ToUpper (TrimPrefix self RoomActorPrefix) in
           become Waiting (r\<lparr>r_code := code, r_maxRounds := DefaultRounds, r_guessed := {}, r_activeRefs := {},
             r_topic := RoomTopicPrefix @ code, r_schedSuffix := ''.'' @ self\<rparr>))
      | _ \<Rightarrow> on_waiting env msg r)"

definition room_handle :: "Env \<Rightarrow> room_msg \<Rightarrow> RoomActor \<Rightarrow> RoomActor" where
  "room_handle env msg r =
     (case r_behavior r of
        Bootstrap \<Rightarrow> Room_Receive env msg r
      | Waiting \<Rightarrow> on_waiting env msg r
      | Choosing \<Rightarrow> on_choosing env msg r
      | Drawing \<Rightarrow> on_drawing env msg r
      | RoundOver \<Rightarrow> on_roundOver env msg r
      | GameOver \<Rightarrow> on_gameOver env msg r)"

definition room_step :: "Env \<times> room_msg \<Rightarrow> RoomActor \<Rightarrow> RoomActor" where
  "room_step q r =
     (let r = room_handle (fst q) (snd q) r in
      fold (room_handle (fst q)) (r_unstashed r) (r\<lparr>r_unstashed := []\<rparr>))"

definition newRoom :: RoomActor where
  "newRoom = \<lparr>r_code = [], r_maxRounds = 0, r_players = [], r_round = 0, r_drawerID = [], r_word = [],
     r_wordChoices = [], r_timeLeft = 0, r_guessed = {}, r_strokes = [], r_schedSuffix = [], r_activeRefs = {},
     r_topic = [], r_hadPlayer = False, r_behavior = Bootstrap, r_stash = [], r_unstashed = [], r_outbox = []\<rparr>"

section \<open>What sending leaves alone\<close>

text \<open>
  The state without the outbox and the references of the timers. Sending, scheduling and cancelling do
  not change it.
\<close>

definition core :: "RoomActor \<Rightarrow> RoomActor" where
  "core r = r\<lparr>r_activeRefs := {}, r_outbox := []\<rparr>"

lemma core_fields [simp]:
  "r_code (core r) = r_code r"
  "r_maxRounds (core r) = r_maxRounds r"
  "r_players (core r) = r_players r"
  "r_round (core r) = r_round r"
  "r_drawerID (core r) = r_drawerID r"
  "r_word (core r) = r_word r"
  "r_wordChoices (core r) = r_wordChoices r"
  "r_timeLeft (core r) = r_timeLeft r"
  "r_guessed (core r) = r_guessed r"
  "r_strokes (core r) = r_strokes r"
  "r_schedSuffix (core r) = r_schedSuffix r"
  "r_topic (core r) = r_topic r"
  "r_hadPlayer (core r) = r_hadPlayer r"
  "r_behavior (core r) = r_behavior r"
  "r_stash (core r) = r_stash r"
  "r_unstashed (core r) = r_unstashed r"
  by (simp_all add: core_def)

lemma core_eq_fields:
  assumes "core r = core r'"
  shows
    "r_code r = r_code r'"
    "r_maxRounds r = r_maxRounds r'"
    "r_players r = r_players r'"
    "r_round r = r_round r'"
    "r_drawerID r = r_drawerID r'"
    "r_word r = r_word r'"
    "r_wordChoices r = r_wordChoices r'"
    "r_timeLeft r = r_timeLeft r'"
    "r_guessed r = r_guessed r'"
    "r_strokes r = r_strokes r'"
    "r_schedSuffix r = r_schedSuffix r'"
    "r_topic r = r_topic r'"
    "r_hadPlayer r = r_hadPlayer r'"
    "r_behavior r = r_behavior r'"
    "r_stash r = r_stash r'"
    "r_unstashed r = r_unstashed r'"
  using assms by (metis core_fields)+

lemma core_send [simp]:
  "core (emit e r) = core r"
  "core (publish env evt r) = core r"
  "core (schedule env t d prefix r) = core r"
  "core (scheduleRecurring env t d prefix r) = core r"
  "core (cancelSchedule prefix r) = core r"
  "core (broadcastState env phase r) = core r"
  "core (watch s r) = core r"
  "core (sendJoined env i name r) = core r"
  "core (maybeShutdown r) = core r"
  "core (cancelGatherIfBelowMin r) = core r"
  by (simp_all add: core_def emit_def publish_def schedule_def scheduleRecurring_def cancelSchedule_def
      broadcastState_def watch_def sendJoined_def maybeShutdown_def cancelGatherIfBelowMin_def Let_def split: option.splits)

lemmas send_fields [simp] =
  core_send [THEN core_eq_fields(1)] core_send [THEN core_eq_fields(2)] core_send [THEN core_eq_fields(3)] core_send [THEN core_eq_fields(4)]
  core_send [THEN core_eq_fields(5)] core_send [THEN core_eq_fields(6)] core_send [THEN core_eq_fields(7)] core_send [THEN core_eq_fields(8)]
  core_send [THEN core_eq_fields(9)] core_send [THEN core_eq_fields(10)] core_send [THEN core_eq_fields(11)] core_send [THEN core_eq_fields(12)]
  core_send [THEN core_eq_fields(13)] core_send [THEN core_eq_fields(14)] core_send [THEN core_eq_fields(15)] core_send [THEN core_eq_fields(16)]

lemma core_become [simp]: "core (become b r) = (core r)\<lparr>r_behavior := b\<rparr>"
  by (simp add: core_def become_def)

lemma core_update:
  "core (r\<lparr>r_players := ps\<rparr>) = (core r)\<lparr>r_players := ps\<rparr>"
  "core (r\<lparr>r_round := n\<rparr>) = (core r)\<lparr>r_round := n\<rparr>"
  "core (r\<lparr>r_drawerID := d\<rparr>) = (core r)\<lparr>r_drawerID := d\<rparr>"
  "core (r\<lparr>r_word := w\<rparr>) = (core r)\<lparr>r_word := w\<rparr>"
  "core (r\<lparr>r_wordChoices := ws\<rparr>) = (core r)\<lparr>r_wordChoices := ws\<rparr>"
  "core (r\<lparr>r_timeLeft := t\<rparr>) = (core r)\<lparr>r_timeLeft := t\<rparr>"
  "core (r\<lparr>r_guessed := g\<rparr>) = (core r)\<lparr>r_guessed := g\<rparr>"
  "core (r\<lparr>r_strokes := ks\<rparr>) = (core r)\<lparr>r_strokes := ks\<rparr>"
  "core (r\<lparr>r_hadPlayer := h\<rparr>) = (core r)\<lparr>r_hadPlayer := h\<rparr>"
  "core (r\<lparr>r_stash := ms\<rparr>) = (core r)\<lparr>r_stash := ms\<rparr>"
  "core (r\<lparr>r_unstashed := us\<rparr>) = (core r)\<lparr>r_unstashed := us\<rparr>"
  by (simp_all add: core_def)

lemma core_fold:
  assumes "\<And>x r. core (f x r) = core r"
  shows "core (fold f xs r) = core r"
  using assms by (induction xs arbitrary: r) simp_all

lemma core_recordResults [simp]: "core (recordResults w r) = core r"
  by (simp add: recordResults_def Let_def core_fold)

lemma core_enterGameOver [simp]: "core (enterGameOver env r) = (core r)\<lparr>r_behavior := GameOver\<rparr>"
  by (simp add: enterGameOver_def Let_def split_def)

lemma core_enterRoundOver [simp]: "core (enterRoundOver env r) = (core r)\<lparr>r_behavior := RoundOver\<rparr>"
  by (simp add: enterRoundOver_def Let_def)

lemma core_enterDrawing [simp]:
  "core (enterDrawing env r) = (core r)\<lparr>r_timeLeft := DrawSeconds, r_behavior := Drawing,
     r_unstashed := r_unstashed r @ r_stash r, r_stash := []\<rparr>"
  by (simp add: enterDrawing_def Let_def core_update become_def core_def)

lemma core_enterChoosing:
  "core (enterChoosing env r) =
     (if r_round r + 1 > r_maxRounds r then (core r)\<lparr>r_round := r_round r + 1, r_behavior := GameOver\<rparr>
      else (core r)\<lparr>r_round := r_round r + 1, r_players := snd (pickNextDrawer (r_players r)),
        r_drawerID := fst (pickNextDrawer (r_players r)), r_wordChoices := pickWords WordChoices (draws env),
        r_word := [], r_timeLeft := ChooseSeconds, r_guessed := {}, r_strokes := [], r_behavior := Choosing\<rparr>)"
  by (simp add: enterChoosing_def Let_def core_update split_def)

end
