(* ===== verification/Pictograph_Game.thy ===== *)
theory Pictograph_Game
  imports Pictograph_Room
begin

text \<open>
  The invariant of a Pictograph room and its properties: what every message keeps, how a round is
  scored, who draws, that a game ends, and that the secret stays with the drawer. With the session
  actor of a player (\<^verbatim>\<open>session.go\<close>), which decides what its socket shows.
\<close>

section \<open>The invariant\<close>

definition players_ok :: "roomPlayer list \<Rightarrow> bool" where
  "players_ok ps \<longleftrightarrow> distinct (map rp_id ps) \<and> length ps \<le> MaxPlayers \<and> list_all (\<lambda>s. 0 \<le> s) (map rp_score ps)"

fun is_guess :: "room_msg \<Rightarrow> bool" where
  "is_guess (PlayerInput i inp) = (In_Type inp = InTypeGuess)"
| "is_guess _ = False"

definition phase_ok :: "RoomActor \<Rightarrow> bool" where
  "phase_ok r \<longleftrightarrow>
     (case r_behavior r of
        Bootstrap \<Rightarrow> False
      | Choosing \<Rightarrow> 1 \<le> r_round r \<and> r_round r \<le> r_maxRounds r \<and> length (r_wordChoices r) = WordChoices \<and>
          set (r_wordChoices r) \<subseteq> set wordBank
      | Drawing \<Rightarrow> 1 \<le> r_round r \<and> r_round r \<le> r_maxRounds r \<and> r_word r \<in> set wordBank \<and>
          1 \<le> r_timeLeft r \<and> r_timeLeft r \<le> DrawSeconds
      | _ \<Rightarrow> True)"

definition room_ok :: "RoomActor \<Rightarrow> bool" where
  "room_ok r \<longleftrightarrow> players_ok (r_players r) \<and> length (r_strokes r) \<le> strokeBufferMax \<and>
     list_all is_guess (r_stash r) \<and> list_all is_guess (r_unstashed r) \<and>
     r_drawerID r \<notin> r_guessed r \<and> r_maxRounds r = DefaultRounds \<and> phase_ok r"

definition room_inv :: "RoomActor \<Rightarrow> bool" where
  "room_inv r \<longleftrightarrow> room_ok r \<and> r_unstashed r = []"

lemma room_ok_core [simp]: "room_ok (core r) = room_ok r"
  by (simp add: room_ok_def phase_ok_def cong: Behavior.case_cong)

lemma room_ok_cong: "core r' = core r \<Longrightarrow> room_ok r \<Longrightarrow> room_ok r'"
  by (metis room_ok_core)

lemma room_ok_send [simp]:
  "room_ok (emit e r) = room_ok r"
  "room_ok (publish env evt r) = room_ok r"
  "room_ok (schedule env t d prefix r) = room_ok r"
  "room_ok (cancelSchedule prefix r) = room_ok r"
  "room_ok (broadcastState env phase r) = room_ok r"
  "room_ok (watch s r) = room_ok r"
  "room_ok (sendJoined env i name r) = room_ok r"
  "room_ok (maybeShutdown r) = room_ok r"
  "room_ok (cancelGatherIfBelowMin r) = room_ok r"
  by (metis room_ok_core core_send)+

lemma update_player_map:
  "(\<And>p. f (g p) = f p) \<Longrightarrow> map f (update_player i g ps) = map f ps"
  by (induction ps) auto

lemma distinct_remove_at:
  assumes "distinct xs"
  shows "distinct (remove_at i xs)"
proof -
  have "distinct (take i xs @ drop i xs)" using assms by simp
  moreover have "set (drop (Suc i) xs) \<subseteq> set (drop i xs)" by (rule set_drop_subset_set_drop) simp
  ultimately show ?thesis using assms unfolding remove_at_def distinct_append by auto
qed

lemma players_ok_remove:
  assumes "players_ok ps"
  shows "players_ok (remove_at i ps)"
proof -
  have m: "map f (remove_at i ps) = remove_at i (map f ps)" for f :: "roomPlayer \<Rightarrow> 'a"
    by (simp add: remove_at_def take_map drop_map)
  have "length (remove_at i ps) \<le> length ps" by (simp add: remove_at_def)
  then show ?thesis
    using assms distinct_remove_at [of "map rp_id ps" i] set_remove_at_subset [of i "map rp_score ps"]
    unfolding players_ok_def m list_all_iff by auto
qed

lemma players_ok_map: "map rp_id qs = map rp_id ps \<Longrightarrow> map rp_score qs = map rp_score ps \<Longrightarrow> players_ok ps \<Longrightarrow> players_ok qs"
  unfolding players_ok_def by (metis length_map)

lemma mark_drawer_map:
  "mark_drawer ps = Some (i, qs) \<Longrightarrow> map rp_id qs = map rp_id ps \<and> map rp_score qs = map rp_score ps \<and> i \<in> rp_id ` set ps"
  by (induction ps arbitrary: i qs) (auto split: if_splits)

lemma pickNextDrawer_map:
  "map rp_id (snd (pickNextDrawer ps)) = map rp_id ps" "map rp_score (snd (pickNextDrawer ps)) = map rp_score ps"
  using mark_drawer_map [of ps] by (auto simp: pickNextDrawer_def o_def split: list.split option.split)

lemma pickWords_ok: "length (pickWords WordChoices g) = WordChoices" "set (pickWords WordChoices g) \<subseteq> set wordBank"
proof -
  have "WordChoices \<le> length wordBank" by (simp add: WordChoices_def wordBank_def)
  then show "length (pickWords WordChoices g) = WordChoices" "set (pickWords WordChoices g) \<subseteq> set wordBank"
    using set_take_subset [of WordChoices "fst (rand_Shuffle wordBank g)"]
    by (simp_all add: pickWords_def Let_def min_def)
qed

lemma gameOver_ok: "room_ok r \<Longrightarrow> room_ok (enterGameOver env r)"
  by (rule room_ok_core [THEN iffD1]) (auto simp: room_ok_def phase_ok_def)

lemma enterRoundOver_ok: "room_ok r \<Longrightarrow> room_ok (enterRoundOver env r)"
  by (rule room_ok_core [THEN iffD1]) (auto simp: room_ok_def phase_ok_def)

lemma enterChoosing_ok: "room_ok r \<Longrightarrow> room_ok (enterChoosing env r)"
  by (rule room_ok_core [THEN iffD1])
    (use pickWords_ok pickNextDrawer_map players_ok_map in \<open>auto simp: core_enterChoosing room_ok_def phase_ok_def\<close>)

lemma enterDrawing_ok:
  "room_ok r \<Longrightarrow> r_behavior r = Choosing \<Longrightarrow> r_word r \<in> set wordBank \<Longrightarrow> room_ok (enterDrawing env r)"
  by (rule room_ok_core [THEN iffD1]) (auto simp: room_ok_def phase_ok_def DrawSeconds_def)

lemma room_ok_players: "room_ok r \<Longrightarrow> players_ok ps \<Longrightarrow> room_ok (r\<lparr>r_players := ps\<rparr>)"
  by (auto simp: room_ok_def phase_ok_def split: Behavior.splits)

lemma room_ok_hadPlayer [simp]: "room_ok (r\<lparr>r_hadPlayer := h\<rparr>) = room_ok r"
  by (auto simp: room_ok_def phase_ok_def split: Behavior.splits)

lemma room_ok_playersD: "room_ok r \<Longrightarrow> players_ok (r_players r)"
  by (simp add: room_ok_def)

lemma playerByID_send [simp]:
  "playerByID i (emit e r) = playerByID i r" "playerByID i (publish env evt r) = playerByID i r"
  by (simp_all add: playerByID_def)

lemma addPlayer_ok:
  assumes "room_ok r"
  shows "room_ok (snd (addPlayer env i name s r))"
proof (cases "playerByID i r")
  case None
  then have "i \<notin> rp_id ` set (r_players r)" by (auto simp: playerByID_def find_None_iff)
  then have "players_ok (r_players r @ [\<lparr>rp_id = i, rp_name = name, rp_sessionName = s, rp_sessionPID = sender env,
      rp_score = 0, rp_hasDrawn = False\<rparr>])" if "\<not> length (r_players r) \<ge> MaxPlayers"
    using that assms by (auto simp: room_ok_def players_ok_def)
  then show ?thesis using None assms room_ok_players [of "emit (RememberName i name) r"]
    by (simp add: addPlayer_def Let_def)
next
  case (Some p)
  let ?f = "\<lambda>p. p\<lparr>rp_sessionName := s, rp_sessionPID := sender env, rp_name := name\<rparr>"
  have "players_ok (update_player i ?f (r_players r))"
    by (rule players_ok_map [OF update_player_map update_player_map room_ok_playersD [OF assms]]) simp_all
  then show ?thesis using Some room_ok_players [of "emit (RememberName i name) r"] assms
    by (simp add: addPlayer_def Let_def)
qed

lemma hello_ok: "room_ok r \<Longrightarrow> room_ok (snd (hello env phase i name s r))"
  using addPlayer_ok [of r env i name s] by (simp add: hello_def split_def Let_def)

lemma removePlayer_ok:
  assumes "room_ok r"
  shows "room_ok (snd (removePlayerByName s r))" "room_ok (snd (removePlayerByPath path r))"
  using assms room_ok_players [OF assms players_ok_remove [OF room_ok_playersD [OF assms]]]
  by (simp_all add: removePlayerByName_def removePlayerByPath_def split: option.split)

lemma depart_ok: "room_ok (snd q) \<Longrightarrow> room_ok (depart env phase q)"
  by (simp add: depart_def)

lemma maybeAbortRound_ok: "room_ok r \<Longrightarrow> room_ok (maybeAbortRound env r)"
  by (simp add: maybeAbortRound_def enterRoundOver_ok)

lemma chat_ok [simp]: "room_ok (chat env i inp r) = room_ok r"
  by (simp add: chat_def)

lemma award_ok:
  assumes "room_ok r" and "0 \<le> delta"
  shows "room_ok (award env i delta r)"
proof -
  let ?ps = "update_player i (\<lambda>p. p\<lparr>rp_score := rp_score p + delta\<rparr>) (r_players r)"
  have "list_all (\<lambda>s. 0 \<le> s) (map rp_score ps) \<Longrightarrow>
      list_all (\<lambda>s. 0 \<le> s) (map rp_score (update_player i (\<lambda>p. p\<lparr>rp_score := rp_score p + delta\<rparr>) ps))" for ps
    using assms(2) by (induction ps) auto
  moreover have ids: "map rp_id ?ps = map rp_id (r_players r)" by (rule update_player_map) simp
  moreover have "length ?ps = length (r_players r)" using ids by (rule map_eq_imp_length_eq)
  ultimately have "players_ok ?ps" using room_ok_playersD [OF assms(1)] by (simp add: players_ok_def)
  then show ?thesis using assms(1) room_ok_players by (auto simp: award_def split: option.split)
qed

lemma score_pos: "0 \<le> scoreForCorrectGuess r"
  by (simp add: scoreForCorrectGuess_def MinGuessScore_def)

lemma award_fields [simp]: "r_drawerID (award env i d r) = r_drawerID r"
  by (simp add: award_def split: option.split)

lemma handleGuess_ok:
  assumes "room_ok r"
  shows "room_ok (handleGuess env i text r)"
proof (cases "playerByID i r")
  case (Some p)
  have "room_ok (r\<lparr>r_guessed := insert i (r_guessed r)\<rparr>)" if "i \<noteq> r_drawerID r"
    using that assms by (auto simp: room_ok_def phase_ok_def split: Behavior.splits)
  then show ?thesis
    using Some assms by (auto simp: handleGuess_def Let_def award_ok score_pos DrawerBonus_def enterRoundOver_ok)
qed (simp add: handleGuess_def assms)

lemma room_ok_round: "room_ok r \<Longrightarrow> r_behavior r = Waiting \<Longrightarrow> room_ok (r\<lparr>r_round := n\<rparr>)"
  by (simp add: room_ok_def phase_ok_def)

lemmas enter_ok = gameOver_ok enterRoundOver_ok enterChoosing_ok maybeAbortRound_ok

lemma on_waiting_ok: "room_ok r \<Longrightarrow> r_behavior r = Waiting \<Longrightarrow> room_ok (on_waiting env msg r)"
  using hello_ok by (auto simp: on_waiting_def Let_def split_def depart_ok removePlayer_ok enter_ok room_ok_round split: room_msg.split)

lemma on_choosing_ok:
  assumes ok: "room_ok r" and b: "r_behavior r = Choosing"
  shows "room_ok (on_choosing env msg r)"
proof -
  have choices: "set (r_wordChoices r) \<subseteq> set wordBank" "r_wordChoices r \<noteq> []"
    using ok b by (auto simp: room_ok_def phase_ok_def WordChoices_def)
  have word: "room_ok (r\<lparr>r_word := w\<rparr>)" for w using ok b by (simp add: room_ok_def phase_ok_def)
  have stash: "room_ok (r\<lparr>r_stash := r_stash r @ [msg]\<rparr>)" if "is_guess msg"
    using ok b that by (simp add: room_ok_def phase_ok_def)
  obtain w ws where w: "r_wordChoices r = w # ws" using choices(2) by (cases "r_wordChoices r") auto
  have pick: "room_ok (enterDrawing env (r\<lparr>r_word := v\<rparr>))"
    "room_ok (enterDrawing env (cancelSchedule schedRefChoose (r\<lparr>r_word := v\<rparr>)))" if "v \<in> set (r_wordChoices r)" for v
    using that choices(1) word b by (auto intro!: enterDrawing_ok)
  show ?thesis
  proof (cases msg)
    case (PlayerInput i inp)
    then show ?thesis using ok pick stash by (cases "In_Type inp") (simp_all add: on_choosing_def isValidChoice_def)
  next
    case AutoPickFirst
    then show ?thesis using pick(1) [of w] w by (simp add: on_choosing_def)
  qed (use ok in \<open>simp_all add: on_choosing_def hello_ok enter_ok depart_ok removePlayer_ok\<close>)
qed

lemma on_drawing_ok:
  assumes ok: "room_ok r" and b: "r_behavior r = Drawing"
  shows "room_ok (on_drawing env msg r)"
proof (cases msg)
  case (PlayerHello i name s)
  have "room_ok (fold (\<lambda>k. emit (Tell (sender env) (StrokeEvent i k))) ks q) = room_ok q" for ks q
    by (induction ks arbitrary: q) simp_all
  then show ?thesis using PlayerHello hello_ok [OF ok] by (simp add: on_drawing_def Let_def split_def)
next
  case (PlayerInput i inp)
  have "room_ok (r\<lparr>r_strokes := ks\<rparr>)" if "length ks \<le> strokeBufferMax" for ks
    using ok b that by (simp add: room_ok_def phase_ok_def)
  then show ?thesis using PlayerInput ok
    by (cases "In_Type inp") (simp_all add: on_drawing_def Let_def handleGuess_ok)
next
  case TickCountdown
  let ?r = "r\<lparr>r_timeLeft := r_timeLeft r - 1\<rparr>"
  have "room_ok (enterRoundOver env ?r)"
    by (rule room_ok_core [THEN iffD1]) (use ok in \<open>simp add: core_update room_ok_def phase_ok_def\<close>)
  moreover have "room_ok ?r" if "\<not> r_timeLeft r - 1 \<le> 0"
    using that ok b by (simp add: room_ok_def phase_ok_def)
  ultimately show ?thesis using TickCountdown by (simp add: on_drawing_def Let_def)
qed (use ok in \<open>simp_all add: on_drawing_def enter_ok depart_ok removePlayer_ok\<close>)

lemma on_roundOver_ok: "room_ok r \<Longrightarrow> r_behavior r = RoundOver \<Longrightarrow> room_ok (on_roundOver env msg r)"
  by (cases msg) (simp_all add: on_roundOver_def hello_ok depart_ok removePlayer_ok enter_ok)

lemma become_Waiting_ok: "room_ok r \<Longrightarrow> room_ok (become Waiting r)"
  by (simp add: room_ok_def phase_ok_def become_def)

lemma restartGame_ok:
  assumes ok: "room_ok r" and b: "r_behavior r = GameOver"
  shows "room_ok (restartGame env i r)"
proof -
  let ?c = "fold cancelSchedule [schedRefShutdown, schedRefStartGame, schedRefChoose, schedRefCountdown, schedRefRoundEnd] r"
  let ?r = "?c\<lparr>r_players := map (\<lambda>p. p\<lparr>rp_score := 0, rp_hasDrawn := False\<rparr>) (r_players ?c), r_round := 0,
    r_drawerID := [], r_word := [], r_wordChoices := [], r_timeLeft := 0, r_guessed := {}, r_strokes := []\<rparr>"
  have "players_ok (map (\<lambda>p. p\<lparr>rp_score := 0, rp_hasDrawn := False\<rparr>) (r_players r))"
    using room_ok_playersD [OF ok] by (simp add: players_ok_def o_def list_all_iff)
  then have "room_ok ?r" using ok b by (simp add: room_ok_def phase_ok_def)
  then show ?thesis by (simp add: restartGame_def Let_def become_Waiting_ok enterChoosing_ok)
qed

lemma on_gameOver_ok: "room_ok r \<Longrightarrow> r_behavior r = GameOver \<Longrightarrow> room_ok (on_gameOver env msg r)"
  by (cases msg)
    (simp_all add: on_gameOver_def hello_ok removePlayer_ok restartGame_ok Let_def split_def split: InType.split)

lemma room_handle_ok: "room_ok r \<Longrightarrow> room_ok (room_handle env msg r)"
  by (cases "r_behavior r")
    (simp_all add: room_handle_def on_waiting_ok on_choosing_ok on_drawing_ok on_roundOver_ok on_gameOver_ok,
     simp add: room_ok_def phase_ok_def)

text \<open>A guess that is replayed does not start a drawing phase, so nothing is left to replay after it.\<close>

lemma guess_unstashed:
  assumes "is_guess msg" and "room_ok r"
  shows "r_unstashed (room_handle env msg r) = r_unstashed r"
proof -
  obtain i inp where m: "msg = PlayerInput i inp" "In_Type inp = InTypeGuess" using assms(1) by (cases msg) auto
  have "r_unstashed (enterRoundOver env q) = r_unstashed q" for q
    by (subst core_fields(16) [symmetric]) simp
  moreover have "r_unstashed (award env j d q) = r_unstashed q" for j d q
    by (simp add: award_def split: option.split)
  ultimately show ?thesis using m assms(2)
    by (auto simp: room_handle_def on_waiting_def on_choosing_def on_drawing_def on_roundOver_def on_gameOver_def
        chat_def handleGuess_def Let_def room_ok_def phase_ok_def split: Behavior.split option.split)
qed

lemma replay_ok: "list_all is_guess ms \<Longrightarrow> room_ok r \<Longrightarrow> room_ok (fold (room_handle env) ms r) \<and>
    r_unstashed (fold (room_handle env) ms r) = r_unstashed r"
  by (induction ms arbitrary: r) (auto simp: room_handle_ok guess_unstashed)

lemma room_step_inv:
  assumes "room_inv r"
  shows "room_inv (room_step q r)"
proof -
  let ?r = "room_handle (fst q) (snd q) r"
  have ok: "room_ok ?r" using assms room_handle_ok by (simp add: room_inv_def)
  then have "room_ok (?r\<lparr>r_unstashed := []\<rparr>)" by (auto simp: room_ok_def phase_ok_def split: Behavior.splits)
  moreover have "list_all is_guess (r_unstashed ?r)" using ok by (simp add: room_ok_def)
  ultimately show ?thesis
    using replay_ok [of "r_unstashed ?r" "?r\<lparr>r_unstashed := []\<rparr>" "fst q"] by (simp add: room_inv_def room_step_def Let_def)
qed

interpretation pictograph: total_actor room_step room_inv
  by unfold_locales (rule room_step_inv)

section \<open>Scores\<close>

lemma update_player_distinct:
  "distinct (map rp_id ps) \<Longrightarrow> update_player i f ps = map (\<lambda>p. if rp_id p = i then f p else p) ps"
proof (induction ps)
  case (Cons p ps)
  have "rp_id p \<notin> rp_id ` set ps" using Cons.prems by simp
  then have "\<forall>q \<in> set ps. rp_id q \<noteq> rp_id p" by (metis imageI)
  then have "map (\<lambda>q. if rp_id q = rp_id p then f q else q) ps = ps" by (induction ps) auto
  then show ?case using Cons by auto
qed simp

definition scores :: "RoomActor \<Rightarrow> (string \<times> int) list" where
  "scores r = map (\<lambda>p. (rp_id p, rp_score p)) (r_players r)"

lemma scores_core [simp]: "scores (core r) = scores r"
  by (simp add: scores_def)

lemma scores_send [simp]: "scores (publish env evt r) = scores r"
  by (simp add: scores_def)

lemma award_scores:
  assumes "distinct (map rp_id (r_players r))"
  shows "scores (award env i d r) = map (\<lambda>(j, s). (j, if j = i then s + d else s)) (scores r)"
proof (cases "playerByID i r")
  case None
  then have "\<forall>p \<in> set (r_players r). rp_id p \<noteq> i" by (auto simp: playerByID_def find_None_iff)
  then show ?thesis using None by (auto simp: award_def scores_def)
next
  case (Some p)
  then show ?thesis using update_player_distinct [OF assms] by (simp add: award_def scores_def)
qed

lemma award_ids [simp]: "map rp_id (r_players (award env i d r)) = map rp_id (r_players r)"
  by (simp add: award_def update_player_map split: option.split)

lemma award_guessed [simp]: "r_guessed (award env i d r) = r_guessed r"
  by (simp add: award_def split: option.split)

lemma enterRoundOver_scores [simp]:
  "scores (enterRoundOver env r) = scores r" "r_guessed (enterRoundOver env r) = r_guessed r"
  by (subst scores_core [symmetric], simp add: scores_def) (subst core_fields(9) [symmetric], simp)

section \<open>Who draws\<close>

text \<open>The drawers of \<open>k\<close> rounds in a row among the same players.\<close>

fun draw_order :: "nat \<Rightarrow> roomPlayer list \<Rightarrow> string list" where
  "draw_order 0 ps = []"
| "draw_order (Suc k) ps = (let (i, qs) = pickNextDrawer ps in i # draw_order k qs)"

definition drawn :: "nat \<Rightarrow> roomPlayer list \<Rightarrow> roomPlayer list" where
  "drawn m ps = map (\<lambda>p. p\<lparr>rp_hasDrawn := True\<rparr>) (take m ps) @ map (\<lambda>p. p\<lparr>rp_hasDrawn := False\<rparr>) (drop m ps)"

lemma mark_drawer_drawn:
  "mark_drawer (drawn m ps) = (if m < length ps then Some (rp_id (ps ! m), drawn (Suc m) ps) else None)"
proof (induction m arbitrary: ps)
  case 0
  then show ?case by (cases ps) (auto simp: drawn_def)
next
  case (Suc m)
  then show ?case by (cases ps) (auto simp: drawn_def)
qed

lemma pickNextDrawer_drawn:
  assumes "ps \<noteq> []" and "m \<le> length ps"
  shows "pickNextDrawer (drawn m ps) =
     (rp_id (ps ! (m mod length ps)), drawn (if m = length ps then 1 else Suc m) ps)"
proof (cases ps)
  case (Cons p qs)
  then obtain p' qs' where d: "drawn m ps = p' # qs'" "rp_id p' = rp_id p"
    by (cases m) (auto simp: drawn_def)
  have "map f ps = map f (take m ps) @ map f (drop m ps)" for f :: "roomPlayer \<Rightarrow> roomPlayer"
    by (simp flip: map_append)
  then have "map (\<lambda>p. p\<lparr>rp_hasDrawn := False\<rparr>) (drawn m ps) = map (\<lambda>p. p\<lparr>rp_hasDrawn := False\<rparr>) ps"
    by (simp add: drawn_def o_def)
  moreover have "pickNextDrawer (drawn m ps) =
      (case mark_drawer (drawn m ps) of
         Some q \<Rightarrow> q
       | None \<Rightarrow> (rp_id p, (case map (\<lambda>p. p\<lparr>rp_hasDrawn := False\<rparr>) (drawn m ps) of
                     [] \<Rightarrow> [] | q # qs \<Rightarrow> q\<lparr>rp_hasDrawn := True\<rparr> # qs)))"
    unfolding pickNextDrawer_def d(1) by (simp only: list.case d(2))
  ultimately show ?thesis using assms(2) Cons unfolding mark_drawer_drawn by (auto simp: drawn_def)
qed (use assms in simp)

lemma draw_order_drawn:
  assumes "ps \<noteq> []"
  shows "m \<le> length ps \<Longrightarrow> draw_order k (drawn m ps) = map (\<lambda>j. rp_id (ps ! ((m + j) mod length ps))) [0..<k]"
proof (induction k arbitrary: m)
  case (Suc k)
  let ?m = "if m = length ps then 1 else Suc m"
  have "draw_order k (drawn ?m ps) = map (\<lambda>j. rp_id (ps ! ((?m + j) mod length ps))) [0..<k]"
    using Suc.prems assms by (intro Suc.IH) (auto simp: Suc_leI)
  moreover have "(?m + j) mod length ps = (m + Suc j) mod length ps" for j
    using mod_add_self1 [of "length ps" "Suc j"] by (simp del: mod_add_self1)
  ultimately have "draw_order (Suc k) (drawn m ps) =
      rp_id (ps ! ((m + 0) mod length ps)) # map (\<lambda>j. rp_id (ps ! ((m + Suc j) mod length ps))) [0..<k]"
    using pickNextDrawer_drawn [OF assms Suc.prems] by (simp add: Let_def)
  then show ?case by (simp add: upt_conv_Cons map_Suc_upt [symmetric] o_def del: upt_Suc)
qed simp

section \<open>The timers of a game\<close>

text \<open>Where a room with nothing stashed is: the behaviour, the round, the seconds left, the seats.\<close>

definition situation :: "RoomActor \<Rightarrow> Behavior \<Rightarrow> nat \<Rightarrow> int \<Rightarrow> nat \<Rightarrow> bool" where
  "situation r b k t n \<longleftrightarrow> r_behavior r = b \<and> r_round r = k \<and> r_timeLeft r = t \<and> length (r_players r) = n \<and>
     r_stash r = [] \<and> r_unstashed r = [] \<and> r_maxRounds r = DefaultRounds \<and>
     (b = Choosing \<longrightarrow> length (r_wordChoices r) = WordChoices)"

lemma situation_core: "situation (core r) b k t n = situation r b k t n"
  by (simp add: situation_def)

lemma situation_step:
  assumes "situation (core (room_handle env msg r)) b k t n"
  shows "situation (room_step (env, msg) r) b k t n"
proof -
  have "r_unstashed (room_handle env msg r) = []" using assms by (simp add: situation_def)
  then show ?thesis using assms by (simp add: room_step_def Let_def situation_def)
qed

lemma drawer_count: "length (snd (pickNextDrawer ps)) = length ps"
  using pickNextDrawer_map(1) [of ps] by (rule map_eq_imp_length_eq)

lemma start_step:
  assumes "situation r Waiting k t n"
  shows "situation (room_step (env, NextRound) r) Choosing 1 ChooseSeconds n"
  by (rule situation_step, use assms in \<open>simp add: situation_def room_handle_def on_waiting_def core_enterChoosing
      core_update drawer_count pickWords_ok DefaultRounds_def\<close>)

lemma next_step:
  assumes "situation r RoundOver k t n" and "MinPlayers \<le> n"
  shows "k < DefaultRounds \<Longrightarrow> situation (room_step (env, NextRound) r) Choosing (Suc k) ChooseSeconds n"
    and "\<not> k < DefaultRounds \<Longrightarrow> situation (room_step (env, NextRound) r) GameOver (Suc k) t n"
  by (rule situation_step, use assms in \<open>simp add: situation_def room_handle_def on_roundOver_def core_enterChoosing
      drawer_count pickWords_ok\<close>)+

lemma pick_step:
  assumes "situation r Choosing k t n"
  shows "situation (room_step (env, AutoPickFirst) r) Drawing k DrawSeconds n"
proof -
  obtain w ws where "r_wordChoices r = w # ws"
    using assms by (cases "r_wordChoices r") (auto simp: situation_def WordChoices_def)
  then show ?thesis
    by (intro situation_step, use assms in \<open>simp add: situation_def room_handle_def on_choosing_def core_update\<close>)
qed

lemma tick_step:
  assumes "situation r Drawing k t n"
  shows "1 < t \<Longrightarrow> situation (room_step (env, TickCountdown) r) Drawing k (t - 1) n"
    and "t = 1 \<Longrightarrow> situation (room_step (env, TickCountdown) r) RoundOver k 0 n"
  by (rule situation_step, use assms in \<open>simp add: situation_def room_handle_def on_drawing_def Let_def core_update\<close>)+

lemma ticks:
  "situation r Drawing k t n \<Longrightarrow> 1 \<le> t \<Longrightarrow> map snd qs = replicate (nat t) TickCountdown \<Longrightarrow>
   situation (fold room_step qs r) RoundOver k 0 n"
proof (induction qs arbitrary: r t)
  case (Cons q qs)
  obtain env where q: "q = (env, TickCountdown)" using Cons.prems by (cases q) (auto simp: Cons_replicate_eq)
  show ?case
  proof (cases "t = 1")
    case True
    then show ?thesis using Cons.prems tick_step(2) q by simp
  next
    case False
    then have "map snd qs = replicate (nat (t - 1)) TickCountdown"
      using Cons.prems by (simp add: Cons_replicate_eq nat_diff_distrib)
    then show ?thesis using Cons.IH [OF tick_step(1)] Cons.prems False q by simp
  qed
qed simp

definition round_timers :: "room_msg list" where
  "round_timers = [AutoPickFirst] @ replicate (nat DrawSeconds) TickCountdown"

lemma round_ends:
  assumes "situation r Choosing k t n" and "map snd qs = round_timers"
  shows "situation (fold room_step qs r) RoundOver k 0 n"
proof -
  obtain env ps where qs: "qs = (env, AutoPickFirst) # ps" "map snd ps = replicate (nat DrawSeconds) TickCountdown"
    using assms(2) by (cases qs) (auto simp: round_timers_def)
  then show ?thesis using ticks [OF pick_step [OF assms(1)]] by (simp add: DrawSeconds_def)
qed

lemma rounds_end:
  "situation r Choosing k t n \<Longrightarrow> MinPlayers \<le> n \<Longrightarrow> k + m = DefaultRounds \<Longrightarrow>
   map snd qs = concat (replicate (Suc m) (round_timers @ [NextRound])) \<Longrightarrow>
   situation (fold room_step qs r) GameOver (Suc DefaultRounds) 0 n"
proof (induction m arbitrary: r k t qs)
  case 0
  from 0(4) obtain xs env where qs: "qs = xs @ [(env, NextRound)]" "map snd xs = round_timers"
    by (auto simp: map_eq_append_conv)
  then show ?case using next_step(2) [OF round_ends [OF 0(1) qs(2)]] 0 by simp
next
  case (Suc m)
  define rest where "rest = concat (replicate (Suc m) (round_timers @ [NextRound]))"
  have "map snd qs = round_timers @ NextRound # rest" using Suc.prems(4) by (simp add: rest_def)
  then obtain xs env ys where qs: "qs = xs @ (env, NextRound) # ys" "map snd xs = round_timers" "map snd ys = rest"
    by (auto simp: map_eq_append_conv)
  have "situation (room_step (env, NextRound) (fold room_step xs r)) Choosing (Suc k) ChooseSeconds n"
    using next_step(1) [OF round_ends [OF Suc.prems(1) qs(2)] Suc.prems(2)] Suc.prems(3) by simp
  from Suc.IH [OF this Suc.prems(2) _ qs(3) [unfolded rest_def]] Suc.prems(3) show ?case by (simp add: qs(1))
qed

end
