(* ===== verification/Pictograph_Session.thy ===== *)
theory Pictograph_Session
  imports Pictograph_Game
begin

text \<open>
  The actor between one web socket and its Pictograph room (\<^verbatim>\<open>session.go\<close>), what it shows its player, and
  the properties of a room with its sessions. A frame is the JSON object the session writes; whether the
  write succeeds is an argument.
\<close>

section \<open>The session\<close>

record PlayerSession =
  sess_self :: string
  sess_room :: string
  sess_playerID :: string
  sess_name :: string
  sess_roomCode :: string
  sess_topicName :: string

datatype frame =
    FrameJoined string string string
  | FrameState StateEvent bool
  | FrameStroke Stroke
  | FrameClear
  | FrameChat string string
  | FrameGuessed string string
  | FrameScore string int int
  | FrameWordChoices "string list"
  | FrameSecretWord string
  | FrameRoundOver string "PlayerView list"
  | FrameGameOver string string "PlayerView list" "(string \<times> string \<times> int) list"
  | FrameError string

datatype session_msg =
    SessPostStart
  | SubscribeAck
  | UnsubscribeAck
  | SessInput string WSIn
  | Closed
  | SessEvent room_event
  | SessOther

datatype session_effect =
    Subscribe string
  | TellRoom string room_msg
  | WriteFrame frame
  | SessShutdown
  | SessUnhandled

fun event_For :: "room_event \<Rightarrow> string" where
  "event_For (JoinedEvent i code name) = i"
| "event_For (StrokeEvent i k) = i"
| "event_For (WordChoicesEvent i ws) = i"
| "event_For (SecretWordEvent i w) = i"
| "event_For (ErrorEvent i text) = i"
| "event_For _ = []"

fun event_frame :: "string \<Rightarrow> room_event \<Rightarrow> frame" where
  "event_frame me (JoinedEvent i code name) = FrameJoined code i name"
| "event_frame me (StateEv s) = FrameState s (St_DrawerID s = me)"
| "event_frame me (StrokeEvent i k) = FrameStroke k"
| "event_frame me ClearEvent = FrameClear"
| "event_frame me (ChatEvent from text) = FrameChat from text"
| "event_frame me (GuessedEvent i name) = FrameGuessed i name"
| "event_frame me (ScoreEvent i d s) = FrameScore i d s"
| "event_frame me (WordChoicesEvent i ws) = FrameWordChoices ws"
| "event_frame me (SecretWordEvent i w) = FrameSecretWord w"
| "event_frame me (RoundOverEvent w ps) = FrameRoundOver w ps"
| "event_frame me (GameOverEvent i name ps entries) = FrameGameOver i name ps entries"
| "event_frame me (ErrorEvent i text) = FrameError text"

definition encodeWS :: "bool \<Rightarrow> PlayerSession \<Rightarrow> room_event \<Rightarrow> session_effect list" where
  "encodeWS write_ok p e =
     (if event_For e \<noteq> [] \<and> event_For e \<noteq> sess_playerID p then []
      else WriteFrame (event_frame (sess_playerID p) e) # (if write_ok then [] else [SessShutdown]))"

definition Session_Receive :: "bool \<Rightarrow> bool \<Rightarrow> PlayerSession \<Rightarrow> session_msg \<Rightarrow> session_effect list" where
  "Session_Receive has_topic write_ok p msg =
     (case msg of
        SessPostStart \<Rightarrow>
          (if has_topic then [Subscribe (sess_topicName p)] else []) @
          [TellRoom (sess_room p) (PlayerHello (sess_playerID p) (sess_name p) (sess_self p))]
      | SubscribeAck \<Rightarrow> []
      | UnsubscribeAck \<Rightarrow> []
      | SessInput i inp \<Rightarrow> [TellRoom (sess_room p) (PlayerInput i inp)]
      | Closed \<Rightarrow> [SessShutdown]
      | SessEvent e \<Rightarrow> encodeWS write_ok p e
      | SessOther \<Rightarrow> [SessUnhandled])"

text \<open>What the session of a player does with everything the room sends.\<close>

fun forwarded :: "PlayerSession \<Rightarrow> effect \<Rightarrow> session_effect list" where
  "forwarded p (Publish t e) = (if t = sess_topicName p then Session_Receive True True p (SessEvent e) else [])"
| "forwarded p (Tell s e) = (if s = Some (sess_self p) then Session_Receive True True p (SessEvent e) else [])"
| "forwarded p _ = []"

definition shown :: "PlayerSession \<Rightarrow> RoomActor \<Rightarrow> session_effect list" where
  "shown p r = concat (map (forwarded p) (r_outbox r))"

section \<open>Rooms that differ in the secret\<close>

definition veiled :: "PlayerSession \<Rightarrow> RoomActor \<Rightarrow> RoomActor \<Rightarrow> bool" where
  "veiled p r r' \<longleftrightarrow> core r' = (core r)\<lparr>r_word := r_word r'\<rparr> \<and> currentMask r' = currentMask r \<and>
     r_activeRefs r' = r_activeRefs r \<and> shown p r' = shown p r"

lemma veiled_fields:
  assumes "veiled p r r'"
  shows "r_code r' = r_code r" "r_maxRounds r' = r_maxRounds r" "r_players r' = r_players r" "r_round r' = r_round r"
    "r_drawerID r' = r_drawerID r" "r_timeLeft r' = r_timeLeft r" "r_guessed r' = r_guessed r"
    "r_strokes r' = r_strokes r" "r_schedSuffix r' = r_schedSuffix r" "r_topic r' = r_topic r"
    "r_hadPlayer r' = r_hadPlayer r" "r_behavior r' = r_behavior r" "r_stash r' = r_stash r" "r_unstashed r' = r_unstashed r"
  using arg_cong [OF assms [unfolded veiled_def, THEN conjunct1],
    of "\<lambda>r. (r_code r, r_maxRounds r, r_players r, r_round r, r_drawerID r, r_timeLeft r, r_guessed r, r_strokes r,
      r_schedSuffix r, r_topic r, r_hadPlayer r, r_behavior r, r_stash r, r_unstashed r)"]
  by simp_all

lemma currentMask_eq: "currentMask r = maskWord (r_word r)"
  by (simp add: currentMask_def maskWord_def)

lemma shown_emit: "shown p (emit e r) = shown p r @ forwarded p e"
  by (simp add: shown_def emit_def)

lemma currentMask_send [simp]: "currentMask (emit e r) = currentMask r"
  by (simp add: currentMask_def)

lemma veiled_emit:
  assumes "veiled p r r'" and "forwarded p e' = forwarded p e"
  shows "veiled p (emit e r) (emit e' r')"
  using assms by (simp add: veiled_def shown_emit) (simp add: emit_def)

lemma veiled_publish:
  assumes "veiled p r r'" and "\<And>t. forwarded p (Publish t e') = forwarded p (Publish t e)"
  shows "veiled p (publish env e r) (publish env e' r')"
  using assms veiled_emit [OF assms(1)] veiled_fields(10) [OF assms(1)] by (simp add: publish_def)

lemma veiled_state:
  assumes v: "veiled p r r'"
  shows "veiled p (broadcastState env phase r) (broadcastState env phase r')"
proof -
  have "currentMask r' = currentMask r" using v by (simp add: veiled_def)
  then show ?thesis unfolding broadcastState_def playerViews_def
    by (intro veiled_publish [OF v]) (simp add: veiled_fields [OF v])
qed

lemma veiled_players: "veiled p r r' \<Longrightarrow> veiled p (r\<lparr>r_players := ps\<rparr>) (r'\<lparr>r_players := ps\<rparr>)"
  by (simp add: veiled_def core_update currentMask_eq shown_def)

lemma veiled_hadPlayer: "veiled p r r' \<Longrightarrow> veiled p (r\<lparr>r_hadPlayer := h\<rparr>) (r'\<lparr>r_hadPlayer := h\<rparr>)"
  by (simp add: veiled_def core_update currentMask_eq shown_def)

lemma veiled_strokes: "veiled p r r' \<Longrightarrow> veiled p (r\<lparr>r_strokes := ks\<rparr>) (r'\<lparr>r_strokes := ks\<rparr>)"
  by (simp add: veiled_def core_update currentMask_eq shown_def)

lemma veiled_timeLeft: "veiled p r r' \<Longrightarrow> veiled p (r\<lparr>r_timeLeft := t\<rparr>) (r'\<lparr>r_timeLeft := t\<rparr>)"
  by (simp add: veiled_def core_update currentMask_eq shown_def)

lemma veiled_unstashed: "veiled p r r' \<Longrightarrow> veiled p (r\<lparr>r_unstashed := us\<rparr>) (r'\<lparr>r_unstashed := us\<rparr>)"
  by (simp add: veiled_def core_update currentMask_eq shown_def)

lemma veiled_stash: "veiled p r r' \<Longrightarrow> veiled p (r\<lparr>r_stash := ms\<rparr>) (r'\<lparr>r_stash := ms\<rparr>)"
  by (simp add: veiled_def core_update currentMask_eq shown_def)

lemmas veiled_intros = veiled_emit veiled_publish veiled_state veiled_players veiled_hadPlayer veiled_strokes
  veiled_timeLeft veiled_unstashed

lemma veiled_fold:
  assumes "\<And>x q q'. veiled p q q' \<Longrightarrow> veiled p (f x q) (f x q')"
  shows "veiled p r r' \<Longrightarrow> veiled p (fold f xs r) (fold f xs r')"
  using assms by (induction xs arbitrary: r r') auto

lemma veiled_addPlayer:
  assumes v: "veiled p r r'"
  shows "fst (addPlayer env i name s r') = fst (addPlayer env i name s r)"
    and "veiled p (snd (addPlayer env i name s r)) (snd (addPlayer env i name s r'))"
proof -
  have e: "veiled p (emit (RememberName i name) r) (emit (RememberName i name) r')" by (intro veiled_emit v refl)
  have pl: "playerByID i r' = playerByID i r" by (simp add: playerByID_def veiled_fields [OF v])
  show "fst (addPlayer env i name s r') = fst (addPlayer env i name s r)"
    using pl by (simp add: addPlayer_def Let_def veiled_fields [OF v] split: option.split)
  show "veiled p (snd (addPlayer env i name s r)) (snd (addPlayer env i name s r'))"
    using pl e by (auto simp: addPlayer_def Let_def watch_def veiled_fields [OF v] split: option.split intro!: veiled_intros)
qed

lemma veiled_hello:
  assumes v: "veiled p r r'"
  shows "fst (hello env phase i name s r') = fst (hello env phase i name s r)"
    and "veiled p (snd (hello env phase i name s r)) (snd (hello env phase i name s r'))"
  using veiled_addPlayer [OF v, of env i name s]
  by (auto simp: hello_def split_def Let_def sendJoined_def dest: veiled_fields split: option.split intro!: veiled_intros)

lemma veiled_remove:
  assumes v: "veiled p r r'"
  shows "veiled p (depart env phase (removePlayerByName s r)) (depart env phase (removePlayerByName s r'))"
    and "veiled p (depart env phase (removePlayerByPath path r)) (depart env phase (removePlayerByPath path r'))"
  using v by (auto simp: depart_def removePlayerByName_def removePlayerByPath_def veiled_fields [OF v]
      split: option.split intro!: veiled_intros)

text \<open>A guess that names the secret.\<close>

fun hit :: "string \<Rightarrow> room_msg \<Rightarrow> bool" where
  "hit w (PlayerInput i inp) = (In_Type inp = InTypeGuess \<and> ToLower (TrimSpace (In_Text inp)) = ToLower w)"
| "hit w _ = False"

lemma enterRoundOver_behavior [simp]: "r_behavior (enterRoundOver env r) = RoundOver"
  by (simp add: enterRoundOver_def Let_def become_def)

lemma veiled_abort:
  assumes v: "veiled p r r'" and still: "r_behavior (maybeAbortRound env r) = Drawing"
  shows "veiled p (maybeAbortRound env r) (maybeAbortRound env r')"
  using assms by (auto simp: maybeAbortRound_def playerByID_def veiled_fields [OF v] split: if_splits)

lemma veiled_drawing:
  assumes v: "veiled p r r'" and hits: "\<not> hit (r_word r) msg" "\<not> hit (r_word r') msg"
    and still: "r_behavior (on_drawing env msg r) = Drawing"
  shows "veiled p (on_drawing env msg r) (on_drawing env msg r')"
proof (cases msg)
  case (PlayerHello i name s)
  then show ?thesis using veiled_hello [OF v, of env PhaseDrawing i name s] veiled_fields(8) [of p "snd (hello env PhaseDrawing i name s r)"]
    by (auto simp: on_drawing_def Let_def split_def intro!: veiled_fold veiled_emit)
next
  case (GoodbyePlayer s)
  then show ?thesis using still veiled_abort [OF veiled_remove(1) [OF v]] by (simp add: on_drawing_def)
next
  case (Terminated path)
  then show ?thesis using still veiled_abort [OF veiled_remove(2) [OF v]] by (simp add: on_drawing_def)
next
  case (PlayerInput i inp)
  then show ?thesis using v hits
    by (cases "In_Type inp")
      (auto simp: on_drawing_def Let_def handleGuess_def playerByID_def veiled_fields [OF v] split: option.split intro!: veiled_intros)
next
  case TickCountdown
  then show ?thesis using v still
    by (auto simp: on_drawing_def Let_def veiled_fields [OF v] split: if_splits intro!: veiled_intros)
qed (use v in \<open>simp_all add: on_drawing_def veiled_emit\<close>)

text \<open>Every message leaves the room drawing.\<close>

fun still_drawing :: "(Env \<times> room_msg) list \<Rightarrow> RoomActor \<Rightarrow> bool" where
  "still_drawing [] r = True"
| "still_drawing (q # qs) r = (r_behavior (room_step q r) = Drawing \<and> still_drawing qs (room_step q r))"

lemma kept_by_drawing:
  "r_word (on_drawing env msg r) = r_word r \<and> r_unstashed (on_drawing env msg r) = r_unstashed r"
proof -
  have hello: "r_word (snd (hello env ph i name s r)) = r_word r" "r_unstashed (snd (hello env ph i name s r)) = r_unstashed r"
    for ph i name s by (simp_all add: hello_def addPlayer_def split_def Let_def split: option.split)
  have strokes: "r_word (fold (\<lambda>k. emit (Tell a (StrokeEvent i k))) ks q) = r_word q"
    "r_unstashed (fold (\<lambda>k. emit (Tell a (StrokeEvent i k))) ks q) = r_unstashed q" for a i ks q
    by (induction ks arbitrary: q) simp_all
  have over: "r_word (enterRoundOver env q) = r_word q" "r_unstashed (enterRoundOver env q) = r_unstashed q" for q
    by (subst core_fields(6) [symmetric], simp) (subst core_fields(16) [symmetric], simp)
  have award: "r_word (award env i d q) = r_word q" "r_unstashed (award env i d q) = r_unstashed q" for i d q
    by (simp_all add: award_def split: option.split)
  show ?thesis
    by (cases msg)
      (auto simp: on_drawing_def Let_def split_def hello strokes over award maybeAbortRound_def depart_def
        removePlayerByName_def removePlayerByPath_def handleGuess_def split: option.split InType.split)
qed

lemma drawing_step:
  assumes "r_behavior r = Drawing" and "r_unstashed r = []"
  shows "room_step q r = (on_drawing (fst q) (snd q) r)\<lparr>r_unstashed := []\<rparr>"
  using assms kept_by_drawing [of "fst q" "snd q" r] by (simp add: room_step_def room_handle_def Let_def)

lemma veiled_run:
  "veiled p r r' \<Longrightarrow> r_behavior r = Drawing \<Longrightarrow> r_unstashed r = [] \<Longrightarrow>
   list_all (\<lambda>q. \<not> hit (r_word r) (snd q) \<and> \<not> hit (r_word r') (snd q)) qs \<Longrightarrow> still_drawing qs r \<Longrightarrow>
   veiled p (fold room_step qs r) (fold room_step qs r')"
proof (induction qs arbitrary: r r')
  case (Cons q qs)
  have s: "room_step q r = (on_drawing (fst q) (snd q) r)\<lparr>r_unstashed := []\<rparr>"
    "room_step q r' = (on_drawing (fst q) (snd q) r')\<lparr>r_unstashed := []\<rparr>"
    using Cons.prems(2,3) veiled_fields [OF Cons.prems(1)] by (simp_all add: drawing_step)
  have "veiled p (room_step q r) (room_step q r')"
    using veiled_drawing [OF Cons.prems(1), of "snd q" "fst q"] Cons.prems(4,5) s by (simp add: veiled_unstashed)
  moreover have "r_word (room_step q r) = r_word r" "r_word (room_step q r') = r_word r'" "r_unstashed (room_step q r) = []"
    using s kept_by_drawing by simp_all
  ultimately show ?case using Cons.IH [of "room_step q r" "room_step q r'"] Cons.prems by simp
qed simp

lemma become_fields [simp]:
  "r_word (become b r) = r_word r" "r_outbox (become b r) = r_outbox r" "r_activeRefs (become b r) = r_activeRefs r"
  "r_unstashed (become b r) = r_unstashed r" "r_stash (become b r) = r_stash r"
  by (simp_all add: become_def)

lemma veiled_become: "veiled p r r' \<Longrightarrow> veiled p (become b r) (become b r')"
  by (simp add: veiled_def currentMask_eq shown_def)

lemma veiled_scheduleRecurring:
  assumes v: "veiled p r r'"
  shows "veiled p (scheduleRecurring env t d prefix r) (scheduleRecurring env t d prefix r')"
proof -
  have "veiled p (r\<lparr>r_activeRefs := A\<rparr>) (r'\<lparr>r_activeRefs := A\<rparr>)" for A
    using v by (simp add: veiled_def core_def currentMask_eq shown_def)
  moreover have "r_activeRefs r' = r_activeRefs r" using v by (simp add: veiled_def)
  ultimately show ?thesis
    using v by (simp add: scheduleRecurring_def schedRef_def Let_def veiled_fields [OF v] veiled_emit)
qed

lemma veiled_enterDrawing:
  assumes "maskWord w' = maskWord w" and "r_stash r = []" "r_unstashed r = []"
    and "r_drawerID r \<noteq> []" "r_drawerID r \<noteq> sess_playerID p"
  shows "veiled p (enterDrawing env (r\<lparr>r_word := w\<rparr>)) (enterDrawing env (r\<lparr>r_word := w'\<rparr>))"
proof -
  let ?r = "\<lambda>w. r\<lparr>r_word := w, r_timeLeft := DrawSeconds\<rparr>"
  have "veiled p (?r w) (?r w')"
    using assms(1) by (simp add: veiled_def core_def currentMask_eq shown_def)
  then have "veiled p (publish env (SecretWordEvent (r_drawerID r) w) (?r w)) (publish env (SecretWordEvent (r_drawerID r) w') (?r w'))"
    using assms(4,5) by (intro veiled_publish) (simp_all add: Session_Receive_def encodeWS_def)
  note drawing = veiled_become [OF veiled_scheduleRecurring [OF veiled_state [OF this, of env PhaseDrawing]],
      of Drawing env TickCountdownT 1 schedRefCountdown]
  show ?thesis using assms(2,3) by (simp add: enterDrawing_def Let_def veiled_stash veiled_unstashed drawing)
qed

lemma enterRoundOver_drawer: "r_drawerID (enterRoundOver env r) = r_drawerID r"
  by (subst core_fields(5) [symmetric]) simp

lemma core_step:
  assumes "r_unstashed (room_handle env msg r) = []"
  shows "core (room_step (env, msg) r) = core (room_handle env msg r)"
proof -
  have "(core q)\<lparr>r_unstashed := []\<rparr> = core q" if "r_unstashed q = []" for q
    using that by (cases q) (simp add: core_def)
  then show ?thesis using assms by (simp add: room_step_def Let_def core_update)
qed

section \<open>Properties\<close>

text \<open>A room of two players to try the properties on.\<close>

definition seat :: "string \<Rightarrow> roomPlayer" where
  "seat i = \<lparr>rp_id = i, rp_name = i, rp_sessionName = ''session.'' @ i, rp_sessionPID = None, rp_score = 0, rp_hasDrawn = False\<rparr>"

definition sample_room :: "Behavior \<Rightarrow> RoomActor" where
  "sample_room b = newRoom\<lparr>r_topic := ''room.ABCD'', r_maxRounds := 3, r_players := [seat ''p1'', seat ''p2''],
     r_round := 1, r_drawerID := ''p1'', r_word := ''cat'', r_wordChoices := [''cat'', ''dog'', ''owl''], r_timeLeft := 80,
     r_behavior := b\<rparr>"

definition sample_env :: Env where
  "sample_env = \<lparr>sender = None, schedule_ok = \<lambda>_. True, topic_actor = True, draws = id\<rparr>"

lemma sample_room_inv: "room_inv (sample_room Drawing)" "room_inv (sample_room Waiting)"
  by (simp_all add: sample_room_def newRoom_def room_inv_def room_ok_def players_ok_def phase_ok_def seat_def MaxPlayers_def
      wordBank_def DrawSeconds_def DefaultRounds_def)

text \<open>
  C16: what bounds a Pictograph room. Whatever messages arrive after its start, it has at most eight
  players, all different, with no negative score, keeps at most 2000 strokes, and never counts the drawer
  among the guessers; while a word is drawn, it is a word of the bank, in one of three rounds, with one
  to eighty seconds left.
\<close>

theorem pictograph_room_bounds:
  "let r = fold room_step qs (room_handle env (PostStart self) newRoom) in
     distinct (map rp_id (r_players r)) \<and> length (r_players r) \<le> 8 \<and> list_all (\<lambda>p. 0 \<le> rp_score p) (r_players r) \<and>
     length (r_strokes r) \<le> 2000 \<and> r_drawerID r \<notin> r_guessed r \<and>
     (case r_behavior r of
        Drawing \<Rightarrow> r_word r \<in> set wordBank \<and> 1 \<le> r_timeLeft r \<and> r_timeLeft r \<le> 80 \<and> 1 \<le> r_round r \<and> r_round r \<le> 3
      | _ \<Rightarrow> True)"
proof -
  have "room_inv (room_handle env (PostStart self) newRoom)"
    by (simp add: room_handle_def newRoom_def Room_Receive_def Let_def become_def room_inv_def room_ok_def phase_ok_def players_ok_def)
  from pictograph.fold_ok [OF this, of qs] show ?thesis
    by (auto simp: Let_def room_inv_def room_ok_def players_ok_def phase_ok_def MaxPlayers_def strokeBufferMax_def
        DrawSeconds_def DefaultRounds_def list_all_iff split: Behavior.splits)
qed

text \<open>
  C13: the secret word stays with the drawer. Take two rooms that enter the drawing phase with different
  words of the same mask and then get the same messages, none of which is a guess of either word, while
  the round goes on: the web socket of every player but the drawer shows exactly the same.
\<close>

theorem secret_stays_hidden:
  assumes "maskWord w' = maskWord w" and "r_stash r = []" "r_unstashed r = []"
    and "r_drawerID r \<noteq> []" "r_drawerID r \<noteq> sess_playerID p"
    and "list_all (\<lambda>q. \<not> hit w (snd q) \<and> \<not> hit w' (snd q)) qs"
    and "still_drawing qs (enterDrawing env (r\<lparr>r_word := w\<rparr>))"
  shows "shown p (fold room_step qs (enterDrawing env (r\<lparr>r_word := w'\<rparr>))) =
     shown p (fold room_step qs (enterDrawing env (r\<lparr>r_word := w\<rparr>)))"
proof -
  have start: "r_behavior (enterDrawing env q) = Drawing" "r_word (enterDrawing env q) = r_word q"
    "r_unstashed (enterDrawing env q) = r_unstashed q @ r_stash q" for q
    by (simp_all add: enterDrawing_def Let_def) (simp add: become_def)
  from veiled_run [OF veiled_enterDrawing [OF assms(1-5), of env], of qs] show ?thesis
    using assms by (simp add: start veiled_def)
qed

theorem secret_stays_hidden_witness:
  "shown \<lparr>sess_self = ''s1'', sess_room = ''room.abcd'', sess_playerID = ''p1'', sess_name = ''Ann'', sess_roomCode = ''ABCD'',
       sess_topicName = ''room.ABCD''\<rparr>
     (fold room_step [(\<lparr>sender = None, schedule_ok = \<lambda>_. True, topic_actor = True, draws = id\<rparr>, TickCountdown)]
       (enterDrawing \<lparr>sender = None, schedule_ok = \<lambda>_. True, topic_actor = True, draws = id\<rparr>
         (newRoom\<lparr>r_topic := ''room.ABCD'', r_drawerID := ''p2'', r_word := ''dog''\<rparr>))) =
   shown \<lparr>sess_self = ''s1'', sess_room = ''room.abcd'', sess_playerID = ''p1'', sess_name = ''Ann'', sess_roomCode = ''ABCD'',
       sess_topicName = ''room.ABCD''\<rparr>
     (fold room_step [(\<lparr>sender = None, schedule_ok = \<lambda>_. True, topic_actor = True, draws = id\<rparr>, TickCountdown)]
       (enterDrawing \<lparr>sender = None, schedule_ok = \<lambda>_. True, topic_actor = True, draws = id\<rparr>
         (newRoom\<lparr>r_topic := ''room.ABCD'', r_drawerID := ''p2'', r_word := ''cat''\<rparr>)))"
proof -
  let ?r = "newRoom\<lparr>r_topic := ''room.ABCD'', r_drawerID := ''p2''\<rparr>"
  let ?env = "\<lparr>sender = None, schedule_ok = \<lambda>_. True, topic_actor = True, draws = id\<rparr> :: Env"
  have still: "still_drawing [(?env, TickCountdown)] (enterDrawing ?env (?r\<lparr>r_word := ''cat''\<rparr>))"
    by (simp add: newRoom_def enterDrawing_def room_step_def room_handle_def on_drawing_def Let_def become_def DrawSeconds_def)
  show ?thesis
    by (rule secret_stays_hidden [OF _ _ _ _ _ _ still])
      (simp_all add: newRoom_def maskWord_def mask_char_def Let_def)
qed



text \<open>
  The pen goes round. Among players who stay and have not drawn yet, the \<open>j\<close>-th drawer is the \<open>j\<close>-th
  player, and after the last one the first draws again.
\<close>

theorem drawers_rotate:
  assumes "ps \<noteq> []" and "list_all (\<lambda>p. \<not> rp_hasDrawn p) ps"
  shows "draw_order k ps = map (\<lambda>j. rp_id (ps ! (j mod length ps))) [0..<k]"
proof -
  have "drawn 0 ps = ps" using assms(2) by (induction ps) (auto simp: drawn_def)
  then show ?thesis using draw_order_drawn [OF assms(1), of 0 k] by simp
qed

theorem drawers_rotate_witness: "draw_order 3 [seat ''p1'', seat ''p2''] = [''p1'', ''p2'', ''p1'']"
  using drawers_rotate [of "[seat ''p1'', seat ''p2'']" 3] by (simp add: seat_def upt_rec)



text \<open>
  Guesses stashed while a drawer chooses outlive the round. If the drawer leaves before choosing, the
  round is aborted, but the stashed guesses are kept: they are still there when the drawer of the next
  round chooses, and will be taken for guesses of that round's word.
\<close>

theorem stale_guesses_kept:
  assumes inv: "room_inv r" "r_behavior r = Choosing" "r_round r < 3"
    and drawer: "find_index (\<lambda>p. rp_sessionName p = s) (r_players r) = Some i" "rp_id (r_players r ! i) = r_drawerID r"
    and others: "3 \<le> length (r_players r)"
  shows "\<exists>r'. r' = fold room_step [(env, GoodbyePlayer s), (env', NextRound)] r \<and> r_behavior r' = Choosing \<and>
     r_round r' = Suc (r_round r) \<and> r_stash r' = r_stash r"
proof -
  have i: "i < length (r_players r)" using find_index_SomeD [OF drawer(1)] by blast
  let ?q = "depart env PhaseChoosing (True, r\<lparr>r_players := remove_at i (r_players r)\<rparr>)"
  have fields: "r_players ?q = remove_at i (r_players r)" "r_drawerID ?q = r_drawerID r" "core ?q = (core r)\<lparr>r_players := remove_at i (r_players r)\<rparr>"
    by (simp_all add: depart_def core_update)
  have gone: "playerByID (r_drawerID r) ?q = None"
  proof -
    have "mset (map rp_id (r_players r)) = add_mset (rp_id (r_players r ! i)) (mset (map rp_id (remove_at i (r_players r))))"
      using remove_at_mset [OF i] by simp
    moreover have "distinct (map rp_id (r_players r))" using inv(1) by (simp add: room_inv_def room_ok_def players_ok_def)
    ultimately have "r_drawerID r \<notin> rp_id ` set (remove_at i (r_players r))"
      using drawer(2) by (metis distinct.simps(2) list.set_map mset.simps(2) mset_eq_imp_distinct_iff)
    then show ?thesis by (simp add: playerByID_def find_None_iff fields) (metis imageI)
  qed
  have h1: "core (room_handle env (GoodbyePlayer s) r) = (core r)\<lparr>r_players := remove_at i (r_players r), r_behavior := RoundOver\<rparr>"
    using inv(2) drawer(1) gone fields
    by (simp add: room_handle_def on_choosing_def removePlayerByName_def maybeAbortRound_def)
  have "r_unstashed (room_handle env (GoodbyePlayer s) r) = []"
    using inv(1) arg_cong [OF h1, of r_unstashed] by (simp add: room_inv_def)
  note s1 = core_step [OF this, unfolded h1]
  let ?q1 = "room_step (env, GoodbyePlayer s) r"
  have q1: "r_behavior ?q1 = RoundOver" "r_round ?q1 = r_round r" "r_stash ?q1 = r_stash r" "r_unstashed ?q1 = []"
    "r_maxRounds ?q1 = 3" "length (r_players ?q1) = length (r_players r) - 1"
    using inv(1) i arg_cong [OF s1, of "\<lambda>r. (r_behavior r, r_round r, r_stash r, r_unstashed r, r_maxRounds r, r_players r)"]
    by (simp_all add: room_inv_def room_ok_def DefaultRounds_def)
  have h2: "core (room_handle env' NextRound ?q1) = core (enterChoosing env' ?q1)"
    using q1 others by (simp add: room_handle_def on_roundOver_def MinPlayers_def)
  have "r_unstashed (room_handle env' NextRound ?q1) = []"
    using arg_cong [OF h2, of r_unstashed] q1 inv(3) by (simp add: core_enterChoosing)
  note s2 = core_step [OF this, unfolded h2 core_enterChoosing]
  show ?thesis
    using arg_cong [OF s2, of "\<lambda>r. (r_behavior r, r_round r, r_stash r)"] q1 inv(3) by simp
qed

theorem stale_guesses_kept_witness:
  "\<exists>r'. r' = fold room_step [(sample_env, GoodbyePlayer ''session.p1''), (sample_env, NextRound)]
       ((sample_room Choosing)\<lparr>r_players := map seat [''p1'', ''p2'', ''p3''],
          r_stash := [PlayerInput ''p2'' \<lparr>In_Type = InTypeGuess, In_Points = [], In_Color = 0, In_Width = 0, In_Word = [], In_Text = ''cat''\<rparr>]\<rparr>) \<and>
     length (r_stash r') = 1"
proof -
  let ?r = "(sample_room Choosing)\<lparr>r_players := map seat [''p1'', ''p2'', ''p3''],
    r_stash := [PlayerInput ''p2'' \<lparr>In_Type = InTypeGuess, In_Points = [], In_Color = 0, In_Width = 0, In_Word = [], In_Text = ''cat''\<rparr>]\<rparr>"
  have "room_inv ?r"
    by (simp add: sample_room_def newRoom_def room_inv_def room_ok_def players_ok_def phase_ok_def seat_def MaxPlayers_def
        WordChoices_def wordBank_def DefaultRounds_def)
  moreover have "r_behavior ?r = Choosing" "r_round ?r < 3" "find_index (\<lambda>p. rp_sessionName p = ''session.p1'') (r_players ?r) = Some 0"
    "rp_id (r_players ?r ! 0) = r_drawerID ?r" "3 \<le> length (r_players ?r)"
    by (simp_all add: sample_room_def newRoom_def seat_def)
  ultimately have "\<exists>r'. r' = fold room_step [(sample_env, GoodbyePlayer ''session.p1''), (sample_env, NextRound)] ?r \<and>
      r_behavior r' = Choosing \<and> r_round r' = Suc (r_round ?r) \<and> r_stash r' = r_stash ?r"
    by (rule stale_guesses_kept)
  then show ?thesis by auto
qed

end
