(* ===== verification/Pictograph_Lobby.thy ===== *)
theory Pictograph_Lobby
  imports Pictograph_Session Room_Codes Passivation
begin

text \<open>
  What surrounds a Pictograph room: the lobby singleton that hands out rooms (\<^verbatim>\<open>lobby.go\<close>), the gateway's request for
  one and the session it starts (\<^verbatim>\<open>gateway.go\<close>), and the profile of a player (\<^verbatim>\<open>profile.go\<close>). Spawning, look-ups and
  the passing of time belong to the actor system and are arguments.
\<close>

section \<open>The lobby\<close>

datatype pic_join_result = PicJoined string string | PicJoinErr string

datatype pic_spawn = PicSpawned | PicAlreadyExists | PicSpawnFailed string

type_synonym pic_rooms = "string \<rightharpoonup> string"

definition Pic_handleJoinOrCreate ::
    "(string \<Rightarrow> pic_spawn) \<Rightarrow> rng \<Rightarrow> string \<Rightarrow> pic_rooms \<Rightarrow> pic_join_result \<times> pic_rooms" where
  "Pic_handleJoinOrCreate spawn g room rooms =
     (let code = ToUpper (TrimSpace room) in
      if code \<noteq> [] \<and> rooms code \<noteq> None then (PicJoined code (the (rooms code)), rooms)
      else
        let code = (if code = [] then generateCode rooms g else code);
            name = RoomActorPrefix @ ToLower code in
        case spawn name of
          PicAlreadyExists \<Rightarrow> (PicJoined code name, rooms(code \<mapsto> name))
        | PicSpawnFailed err \<Rightarrow> (PicJoinErr err, rooms)
        | PicSpawned \<Rightarrow> (PicJoined code name, rooms(code \<mapsto> name)))"

datatype pic_lobby_msg = PicLobbyPostStart | PicJoinOrCreate string | PicLobbyOther

definition PicLobby_Receive ::
    "(string \<Rightarrow> pic_spawn) \<Rightarrow> rng \<Rightarrow> pic_lobby_msg \<Rightarrow> pic_rooms \<Rightarrow> pic_join_result option \<times> pic_rooms" where
  "PicLobby_Receive spawn g msg rooms =
     (case msg of
        PicLobbyPostStart \<Rightarrow> (None, Map.empty)
      | PicJoinOrCreate room \<Rightarrow> (let (res, rooms) = Pic_handleJoinOrCreate spawn g room rooms in (Some res, rooms))
      | PicLobbyOther \<Rightarrow> (None, rooms))"

section \<open>The gateway\<close>

definition pic_roomResolveDeadline :: int where "pic_roomResolveDeadline = 2000"

text \<open>
  The search for the room at its \<open>i\<close>-th look-up and time \<open>t\<close>, in milliseconds; \<open>lag i\<close> is what the look-up takes
  beyond the pause. The result carries the number of look-ups.
\<close>

function pic_resolve_loop :: "(nat \<Rightarrow> string option) \<Rightarrow> (nat \<Rightarrow> nat) \<Rightarrow> int \<Rightarrow> nat \<Rightarrow> int \<Rightarrow> string option \<times> nat" where
  "pic_resolve_loop lookup lag deadline i t =
     (if t < deadline then
        (case lookup i of
           Some pid \<Rightarrow> (Some pid, Suc i)
         | None \<Rightarrow> pic_resolve_loop lookup lag deadline (Suc i) (t + int (lag i) + 50))
      else (None, i))"
  by pat_completeness auto
termination
  by (relation "measure (\<lambda>(lookup, lag, deadline, i, t). nat (deadline - t))") auto

declare pic_resolve_loop.simps [simp del]

definition requestRoom :: "string option \<Rightarrow> string + pic_join_result \<Rightarrow> (string \<Rightarrow> nat \<Rightarrow> string option) \<Rightarrow> (nat \<Rightarrow> nat) \<Rightarrow> int \<Rightarrow>
    (string, string \<times> string) res" where
  "requestRoom lobby_err reply lookup lag t =
     (case lobby_err of
        Some e \<Rightarrow> Err (''locate lobby: '' @ e)
      | None \<Rightarrow>
          (case reply of
             Inl e \<Rightarrow> Err (''lobby.JoinOrCreate: '' @ e)
           | Inr (PicJoinErr e) \<Rightarrow> Err e
           | Inr (PicJoined code name) \<Rightarrow>
               (case fst (pic_resolve_loop (lookup name) lag (t + pic_roomResolveDeadline) 0 t) of
                  Some pid \<Rightarrow> Ok (pid, code)
                | None \<Rightarrow> Err (''resolve room '' @ name))))"

definition ws_session :: "string \<Rightarrow> string \<Rightarrow> string \<Rightarrow> string \<Rightarrow> string \<Rightarrow> PlayerSession" where
  "ws_session sessionName roomPID playerID name code =
     \<lparr>sess_self = sessionName, sess_room = roomPID, sess_playerID = playerID, sess_name = name, sess_roomCode = code,
      sess_topicName = RoomTopicPrefix @ code\<rparr>"

section \<open>Profiles\<close>

record PicProfile =
  pp_Name :: string
  pp_GamesPlayed :: int
  pp_Wins :: int
  pp_TotalScore :: int

type_synonym pic_profileStore = "string \<rightharpoonup> PicProfile"

definition PicGrainPrefix :: string where "PicGrainPrefix = ''pictograph.profile.''"

definition pic_load :: "string \<Rightarrow> pic_profileStore \<Rightarrow> PicProfile option" where
  "pic_load i st = st i"

definition pic_save :: "string \<Rightarrow> PicProfile \<Rightarrow> pic_profileStore \<Rightarrow> pic_profileStore" where
  "pic_save i snap st = st(i \<mapsto> snap)"

record PicProfileGrain =
  pg_id :: string
  pg_state :: PicProfile

datatype pic_grain_msg = PicGetProfile | PicSetName string | PicRecordGame bool int | PicGrainOther

datatype pic_grain_reply = PicProfileView string PicProfile | PicNoErr | PicGrainUnhandled

definition emptyProfile :: PicProfile where
  "emptyProfile = \<lparr>pp_Name = [], pp_GamesPlayed = 0, pp_Wins = 0, pp_TotalScore = 0\<rparr>"

definition PicGrain_OnActivate :: "string \<Rightarrow> pic_profileStore \<Rightarrow> PicProfileGrain" where
  "PicGrain_OnActivate identity st =
     (let i = TrimPrefix identity PicGrainPrefix in
      case pic_load i st of
        Some snap \<Rightarrow> \<lparr>pg_id = i, pg_state = snap\<rparr>
      | None \<Rightarrow> \<lparr>pg_id = i, pg_state = emptyProfile\<rparr>)"

definition PicGrain_OnDeactivate :: "PicProfileGrain \<Rightarrow> pic_profileStore \<Rightarrow> pic_profileStore" where
  "PicGrain_OnDeactivate g st = pic_save (pg_id g) (pg_state g) st"

definition PicGrain_OnReceive :: "pic_grain_msg \<Rightarrow> PicProfileGrain \<Rightarrow> PicProfileGrain \<times> pic_grain_reply" where
  "PicGrain_OnReceive m g =
     (case m of
        PicGetProfile \<Rightarrow> (g, PicProfileView (pg_id g) (pg_state g))
      | PicSetName name \<Rightarrow> (g\<lparr>pg_state := (pg_state g)\<lparr>pp_Name := name\<rparr>\<rparr>, PicNoErr)
      | PicRecordGame won score \<Rightarrow>
          (let s = pg_state g;
               s = s\<lparr>pp_GamesPlayed := pp_GamesPlayed s + 1\<rparr>;
               s = (if won then s\<lparr>pp_Wins := pp_Wins s + 1\<rparr> else s);
               s = s\<lparr>pp_TotalScore := pp_TotalScore s + score\<rparr>
           in (g\<lparr>pg_state := s\<rparr>, PicNoErr))
      | PicGrainOther \<Rightarrow> (g, PicGrainUnhandled))"

section \<open>The directory\<close>

definition pic_lobby_ok :: "pic_rooms \<Rightarrow> bool" where
  "pic_lobby_ok rooms \<longleftrightarrow> (\<forall>c n. rooms c = Some n \<longrightarrow> room_code c \<and> n = RoomActorPrefix @ ToLower c)"

lemma Pic_handleJoinOrCreate_ok:
  assumes ok: "pic_lobby_ok rooms" and run: "Pic_handleJoinOrCreate spawn g room rooms = (res, rooms')"
  shows "pic_lobby_ok rooms' \<and> (\<forall>code name. res = PicJoined code name \<longrightarrow> rooms' code = Some name)"
proof (cases "ToUpper (TrimSpace room) \<noteq> [] \<and> rooms (ToUpper (TrimSpace room)) \<noteq> None")
  case True
  then show ?thesis using ok run by (auto simp: Pic_handleJoinOrCreate_def Let_def)
next
  case False
  define code where "code = (if ToUpper (TrimSpace room) = [] then generateCode rooms g else ToUpper (TrimSpace room))"
  have "room_code code" unfolding code_def using room_code_generated room_code_given by simp
  moreover have "(res, rooms') = (case spawn (RoomActorPrefix @ ToLower code) of
      PicAlreadyExists \<Rightarrow> (PicJoined code (RoomActorPrefix @ ToLower code), rooms(code \<mapsto> RoomActorPrefix @ ToLower code))
    | PicSpawnFailed err \<Rightarrow> (PicJoinErr err, rooms)
    | PicSpawned \<Rightarrow> (PicJoined code (RoomActorPrefix @ ToLower code), rooms(code \<mapsto> RoomActorPrefix @ ToLower code)))"
    using run False unfolding Pic_handleJoinOrCreate_def code_def Let_def by (simp split: if_splits)
  ultimately show ?thesis using ok by (auto simp: pic_lobby_ok_def split: pic_spawn.splits)
qed

definition pic_lobby_step :: "(string \<Rightarrow> pic_spawn) \<times> rng \<times> pic_lobby_msg \<Rightarrow> pic_rooms \<Rightarrow> pic_rooms" where
  "pic_lobby_step q rooms = snd (PicLobby_Receive (fst q) (fst (snd q)) (snd (snd q)) rooms)"

interpretation pic_lobby: total_actor pic_lobby_step pic_lobby_ok
proof
  show "pic_lobby_ok (pic_lobby_step q rooms)" if "pic_lobby_ok rooms" for q rooms
    using that Pic_handleJoinOrCreate_ok [OF that]
    by (auto simp: pic_lobby_step_def PicLobby_Receive_def split: pic_lobby_msg.split prod.split)
      (simp add: pic_lobby_ok_def)
qed

text \<open>
  C31: The lobby, the room and the gateway agree: after any messages to the lobby, the room that is started
  under the name the lobby hands out takes the code handed out with it, and publishes on the topic that the session of
  the player who asked subscribes to; and whoever asks for that code next, in any case and with spaces around
  it, is led to the same room.
\<close>
theorem joined_topic_agrees:
  assumes run: "rooms = fold pic_lobby_step qs Map.empty"
    and joined: "Pic_handleJoinOrCreate spawn g room rooms = (PicJoined code name, rooms')"
  shows "r_code (Room_Receive env (PostStart name) newRoom) = code
    \<and> Subscribe (r_topic (Room_Receive env (PostStart name) newRoom)) \<in> set (Session_Receive True write_ok (ws_session sid pid i nick code) SessPostStart)
    \<and> (\<forall>asked spawn' g'. ToUpper (TrimSpace asked) = code \<longrightarrow>
         Pic_handleJoinOrCreate spawn' g' asked rooms' = (PicJoined code name, rooms'))"
proof -
  have "pic_lobby_ok rooms" unfolding run by (rule pic_lobby.fold_ok) (simp add: pic_lobby_ok_def)
  from Pic_handleJoinOrCreate_ok [OF this joined] have known: "rooms' code = Some name"
    and code: "room_code code" "name = RoomActorPrefix @ ToLower code" by (auto simp: pic_lobby_ok_def)
  have "ToUpper (TrimPrefix name RoomActorPrefix) = code"
    using code room_code_upper by (simp add: ToUpper_ToLower)
  then show ?thesis
    using known code(1)
    by (auto simp: Room_Receive_def become_def Let_def Session_Receive_def ws_session_def Pic_handleJoinOrCreate_def room_code_def)
qed

section \<open>Profiles survive passivation\<close>

fun pic_react :: "int \<Rightarrow> pic_grain_msg \<Rightarrow> PicProfile \<Rightarrow> PicProfile" where
  "pic_react t (PicSetName name) s = s\<lparr>pp_Name := name\<rparr>"
| "pic_react t (PicRecordGame won score) s =
     \<lparr>pp_Name = pp_Name s, pp_GamesPlayed = pp_GamesPlayed s + 1, pp_Wins = pp_Wins s + (if won then 1 else 0),
      pp_TotalScore = pp_TotalScore s + score\<rparr>"
| "pic_react t _ s = s"

interpretation pic_profiles: passivated "\<lambda>t i. PicGrain_OnActivate (PicGrainPrefix @ i)" PicGrain_OnDeactivate
  "\<lambda>t. PicGrain_OnReceive" pg_id pg_state "\<lambda>st i. case pic_load i st of Some snap \<Rightarrow> snap | None \<Rightarrow> emptyProfile" pic_react
proof
  show "pg_state (fst (PicGrain_OnReceive m x)) = pic_react t m (pg_state x)" for t m x
    by (cases m) (simp_all add: PicGrain_OnReceive_def Let_def)
qed (auto simp: PicGrain_OnActivate_def PicGrain_OnDeactivate_def PicGrain_OnReceive_def pic_load_def pic_save_def
    fun_eq_iff Let_def split: option.split pic_grain_msg.split)

text \<open>The games a player finished in a run, and what the profile shows of them afterwards.\<close>

definition finished :: "string \<Rightarrow> pic_grain_msg host_event list \<Rightarrow> (bool \<times> int) list" where
  "finished i es = List.map_filter
     (\<lambda>e. case e of Send t j (PicRecordGame won score) \<Rightarrow> if j = i then Some (won, score) else None | _ \<Rightarrow> None) es"

lemma pic_react_run:
  assumes "s' = fold (\<lambda>(t, m). pic_react t m)
     (List.map_filter (\<lambda>e. case e of Send t j m \<Rightarrow> if j = i then Some (t, m) else None | _ \<Rightarrow> None) es) s"
  shows "pp_GamesPlayed s' = pp_GamesPlayed s + int (length (finished i es))
    \<and> pp_Wins s' = pp_Wins s + int (length (filter fst (finished i es)))
    \<and> pp_TotalScore s' = pp_TotalScore s + sum_list (map snd (finished i es))"
  using assms
proof (induction es arbitrary: s)
  case Nil
  then show ?case by (simp add: finished_def List.map_filter_def)
next
  case (Cons e es)
  show ?case
  proof (cases e)
    case (Send t j m)
    then show ?thesis
      using Cons.IH [of "if j = i then pic_react t m s else s"] Cons.prems
      by (cases m) (auto simp: finished_def List.map_filter_simps)
  next
    case (Passivate j)
    then show ?thesis using Cons by (simp add: finished_def List.map_filter_simps)
  qed
qed

theorem pic_profile_totals:
  defines "step \<equiv> host_step (\<lambda>t i. PicGrain_OnActivate (PicGrainPrefix @ i)) PicGrain_OnDeactivate (\<lambda>t. PicGrain_OnReceive)"
  shows "\<exists>s. snd (PicGrain_OnReceive PicGetProfile (host_get (\<lambda>t i. PicGrain_OnActivate (PicGrainPrefix @ i)) t i
        (fold step es \<lparr>h_live = Map.empty, h_store = Map.empty\<rparr>))) = PicProfileView i s
    \<and> pp_GamesPlayed s = int (length (finished i es))
    \<and> pp_Wins s = int (length (filter fst (finished i es)))
    \<and> pp_TotalScore s = sum_list (map snd (finished i es))"
proof -
  let ?H0 = "\<lparr>h_live = Map.empty, h_store = Map.empty\<rparr> :: (PicProfileGrain, pic_profileStore) hosts"
  have init: "pic_profiles.named ?H0" "pic_profiles.seen ?H0 i = emptyProfile"
    unfolding pic_profiles.named_def pic_profiles.seen_def by (simp_all add: pic_load_def)
  note run = pic_profiles.seen_run [OF init(1), of es i, folded step_def]
  let ?g = "host_get (\<lambda>t i. PicGrain_OnActivate (PicGrainPrefix @ i)) t i (fold step es ?H0)"
  have "pg_id ?g = i" "pg_state ?g = pic_profiles.seen (fold step es ?H0) i"
    using pic_profiles.host_get_facts run by blast+
  moreover note pic_react_run [OF run [THEN conjunct1]]
  ultimately show ?thesis by (simp add: PicGrain_OnReceive_def init(2) emptyProfile_def)
qed

section \<open>The search for a room\<close>

lemma pic_resolve_bounded:
  "snd (pic_resolve_loop lookup lag deadline i t) \<le> i + nat ((deadline - t + 49) div 50)"
proof (induction lookup lag deadline i t rule: pic_resolve_loop.induct)
  case (1 lookup lag deadline i t)
  show ?case
  proof (cases "t < deadline \<and> lookup i = None")
    case True
    have "nat ((deadline - (t + int (lag i) + 50) + 49) div 50) + 1 \<le> nat ((deadline - t + 49) div 50)" using True by linarith
    then show ?thesis using 1 True by (simp add: pic_resolve_loop.simps [of lookup lag deadline i t])
  next
    case False
    then show ?thesis by (auto simp: pic_resolve_loop.simps [of lookup lag deadline i t] split: option.split)
  qed
qed

lemma requestRoom_lookups: "snd (pic_resolve_loop lookup lag (t + pic_roomResolveDeadline) 0 t) \<le> 40"
  using pic_resolve_bounded [of lookup lag "t + pic_roomResolveDeadline" 0 t] by (simp add: pic_roomResolveDeadline_def)

theorem joined_topic_agrees_witness:
  "r_code (Room_Receive sample_env (PostStart ''room.abcd'') newRoom) = ''ABCD''
   \<and> Pic_handleJoinOrCreate (\<lambda>_. PicSpawned) id '' abcd'' [''ABCD'' \<mapsto> ''room.abcd''] =
       (PicJoined ''ABCD'' ''room.abcd'', [''ABCD'' \<mapsto> ''room.abcd''])"
proof -
  have trim: "ToUpper (TrimSpace ''Abcd '') = ''ABCD''" "ToUpper (TrimSpace '' abcd'') = ''ABCD''"
    "RoomActorPrefix @ ToLower ''ABCD'' = ''room.abcd''" by code_simp+
  then have "Pic_handleJoinOrCreate (\<lambda>_. PicSpawned) id ''Abcd '' Map.empty =
    (PicJoined ''ABCD'' ''room.abcd'', [''ABCD'' \<mapsto> ''room.abcd''])" by (simp add: Pic_handleJoinOrCreate_def Let_def)
  from joined_topic_agrees [of Map.empty "[]", OF _ this, of sample_env True "''s''" "''r''" "''p''" "''n''"] trim
  show ?thesis by simp
qed

end
