(* ===== verification/Pictograph_Gateway.thy ===== *)
theory Pictograph_Gateway
  imports Pictograph_Lobby Ws_Gateway
begin

text \<open>
  The handler of a web socket in the Pictograph example (\<^verbatim>\<open>wsHandler\<close> of \<^verbatim>\<open>goakt-pictograph/gateway.go\<close>), from the
  parameters of the request to the end of the connection. The request for a room is modelled with the lobby;
  its outcome, the spawn of the session and the frames that are read are arguments.
\<close>

section \<open>The handler\<close>

definition pic_SessionActorPrefix :: string where "pic_SessionActorPrefix = ''session.''"

text \<open>The name, the player and the room of a request.\<close>

record pic_query =
  pq_name :: string
  pq_id :: string
  pq_room :: string

datatype pic_ws_effect =
    PicClose string
  | PicRemember string string
  | PicSpawn PlayerSession
  | PicTellSession session_msg
  | PicTellRoom string room_msg

definition pic_ws_input :: "string \<Rightarrow> string + WSIn \<Rightarrow> pic_ws_effect list" where
  "pic_ws_input playerID f = (case f of Inl _ \<Rightarrow> [] | Inr inp \<Rightarrow> [PicTellSession (SessInput playerID inp)])"

definition pic_ws_teardown :: "PlayerSession \<Rightarrow> pic_ws_effect list" where
  "pic_ws_teardown s = [PicTellRoom (sess_room s) (GoodbyePlayer (sess_self s)), PicTellSession Closed, PicClose []]"

text \<open>\<open>request\<close> takes the room that is asked for to the process and the code of the room, or to an error.\<close>

definition pic_wsHandler :: "bool \<Rightarrow> (string \<Rightarrow> (string, string \<times> string) res) \<Rightarrow> string option \<Rightarrow> string \<Rightarrow> string \<Rightarrow> string \<Rightarrow>
    pic_query \<Rightarrow> (string + WSIn) list \<Rightarrow> pic_ws_effect list" where
  "pic_wsHandler upgraded request spawn_err uuid1 uuid2 uuid3 q frames =
     (if \<not> upgraded then []
      else
        let name = ws_name uuid1 (pq_name q); playerID = ws_playerID uuid2 (pq_id q) in
        case request (ws_room (pq_room q)) of
          Ok (room, rc) \<Rightarrow>
            PicRemember playerID name #
            (let s = ws_session (pic_SessionActorPrefix @ uuid3) room playerID name rc in
             case spawn_err of
               Some _ \<Rightarrow> [PicClose ''session spawn failed'']
             | None \<Rightarrow> PicSpawn s # concat (map (pic_ws_input playerID) frames) @ pic_ws_teardown s)
        | _ \<Rightarrow> [PicClose ''lobby unavailable''])"

section \<open>A connection speaks for its player\<close>

definition pic_mail :: "pic_ws_effect list \<Rightarrow> session_msg list" where
  "pic_mail es = SessPostStart # List.map_filter (\<lambda>e. case e of PicTellSession m \<Rightarrow> Some m | _ \<Rightarrow> None) es"

definition pic_told_room :: "bool \<Rightarrow> PlayerSession \<Rightarrow> session_msg \<Rightarrow> room_msg list" where
  "pic_told_room ta s m =
     List.map_filter (\<lambda>e. case e of TellRoom _ r \<Rightarrow> Some r | _ \<Rightarrow> None) (Session_Receive ta True s m)"

definition pic_decoded :: "(string + WSIn) list \<Rightarrow> WSIn list" where
  "pic_decoded frames = List.map_filter (\<lambda>f. case f of Inl _ \<Rightarrow> None | Inr inp \<Rightarrow> Some inp) frames"

interpretation pic_bridge: session_bridge SessPostStart Closed "SessInput (sess_playerID s)" "pic_told_room ta s"
  "PlayerHello (sess_playerID s) (sess_name s) (sess_self s)" "PlayerInput (sess_playerID s)" for ta s
  by unfold_locales (simp_all add: pic_told_room_def Session_Receive_def List.map_filter_def)

lemma pic_mail_of_inputs:
  "List.map_filter (\<lambda>e. case e of PicTellSession m \<Rightarrow> Some m | _ \<Rightarrow> None) (concat (map (pic_ws_input i) frames) @ es) =
   map (SessInput i) (pic_decoded frames) @ List.map_filter (\<lambda>e. case e of PicTellSession m \<Rightarrow> Some m | _ \<Rightarrow> None) es"
  by (induction frames) (auto simp: pic_ws_input_def pic_decoded_def List.map_filter_def split: sum.split)

lemma pic_connection_speaks_for_player:
  assumes "request (ws_room (pq_room q)) = Ok (room, rc)"
    and es_def: "es = pic_wsHandler True request None uuid1 uuid2 uuid3 q frames"
    and me_def: "me = ws_playerID uuid2 (pq_id q)" and session_def: "session = pic_SessionActorPrefix @ uuid3"
  shows "\<exists>s. PicSpawn s \<in> set es \<and> sess_topicName s = RoomTopicPrefix @ rc \<and>
    concat (map (pic_told_room ta s) (pic_mail es)) =
      PlayerHello me (ws_name uuid1 (pq_name q)) session # map (PlayerInput me) (pic_decoded frames) \<and>
    filter (\<lambda>e. case e of PicTellRoom _ _ \<Rightarrow> True | _ \<Rightarrow> False) es = [PicTellRoom room (GoodbyePlayer session)]"
proof -
  define s where "s = ws_session session room me (ws_name uuid1 (pq_name q)) rc"
  have es: "es = PicRemember me (ws_name uuid1 (pq_name q)) # PicSpawn s # concat (map (pic_ws_input me) frames) @ pic_ws_teardown s"
    using assms(1) by (simp add: es_def pic_wsHandler_def s_def session_def me_def Let_def)
  have s: "sess_playerID s = me" "sess_name s = ws_name uuid1 (pq_name q)" "sess_self s = session" "sess_room s = room"
      "sess_topicName s = RoomTopicPrefix @ rc"
    by (simp_all add: s_def ws_session_def)
  have "pic_mail es = SessPostStart # map (SessInput me) (pic_decoded frames) @ [Closed]"
    by (simp add: pic_mail_def es pic_mail_of_inputs pic_ws_teardown_def)
  then have told: "concat (map (pic_told_room ta s) (pic_mail es)) =
      PlayerHello me (ws_name uuid1 (pq_name q)) session # map (PlayerInput me) (pic_decoded frames)"
    using pic_bridge.told_connection [of ta s "pic_decoded frames"] s by simp
  have "filter (\<lambda>e. case e of PicTellRoom _ _ \<Rightarrow> True | _ \<Rightarrow> False) (concat (map (pic_ws_input me) frames)) = []"
    by (induction frames) (auto simp: pic_ws_input_def split: sum.split)
  then have "filter (\<lambda>e. case e of PicTellRoom _ _ \<Rightarrow> True | _ \<Rightarrow> False) es = [PicTellRoom room (GoodbyePlayer session)]"
    by (simp add: es pic_ws_teardown_def s)
  moreover have "PicSpawn s \<in> set es" by (simp add: es)
  ultimately show ?thesis using told s(5) by blast
qed

end
