(* ===== verification/Pictograph_Leaderboard.thy ===== *)
theory Pictograph_Leaderboard
  imports Replicated
begin

text \<open>
  The leaderboard of Pictograph (\<^verbatim>\<open>goakt-pictograph/leaderboard.go\<close>): win counters and an index of the players, kept in the
  replicated store of the actor library when there is one and in a map of the process otherwise. Which requests to
  the store fail, and the order in which a map is visited, are arguments; with them a stable sort gives every order
  \<^verbatim>\<open>sort.Slice\<close> may leave among equals. It interprets the locale \<open>win_board\<close>.
\<close>

section \<open>The leaderboard\<close>

record PicEntry =
  pe_PlayerID :: string
  pe_Name :: string
  pe_Wins :: int

record PicLeaderboard =
  pl_fallback :: "string \<rightharpoonup> int"
  pl_names :: "string \<rightharpoonup> string"

definition LeaderboardKeyPrefix :: string where "LeaderboardKeyPrefix = ''pictograph.wins.''"
definition playerSetKey :: string where "playerSetKey = ''pictograph.players''"

definition NewPicLeaderboard :: PicLeaderboard where
  "NewPicLeaderboard = \<lparr>pl_fallback = Map.empty, pl_names = Map.empty\<rparr>"

definition Pic_RememberName :: "string \<Rightarrow> string \<Rightarrow> PicLeaderboard \<Rightarrow> PicLeaderboard" where
  "Pic_RememberName playerID name l = l\<lparr>pl_names := (pl_names l)(playerID \<mapsto> name)\<rparr>"

text \<open>\<open>None\<close> for the replicator: no system is bound, or it replicates nothing.\<close>

definition Pic_RecordWin :: "'r crdt_ops option \<Rightarrow> fate \<Rightarrow> fate \<Rightarrow> string \<Rightarrow> string \<Rightarrow> PicLeaderboard \<Rightarrow> 'r \<Rightarrow>
    string option \<times> PicLeaderboard \<times> 'r" where
  "Pic_RecordWin rep f1 f2 playerID name l r =
     (let l = Pic_RememberName playerID name l in
      case rep of
        None \<Rightarrow>
          (None, l\<lparr>pl_fallback := (pl_fallback l)(playerID \<mapsto> (case pl_fallback l playerID of Some n \<Rightarrow> n | None \<Rightarrow> 0) + 1)\<rparr>, r)
      | Some ops \<Rightarrow>
          (case crdt_update f1 (crdt_increment ops (LeaderboardKeyPrefix @ playerID)) r of
             (Some err, r) \<Rightarrow> (Some (''crdt increment win: '' @ err), l, r)
           | (None, r) \<Rightarrow>
               (case crdt_update f2 (crdt_add ops playerSetKey playerID) r of
                  (Some err, r) \<Rightarrow> (Some (''crdt index player: '' @ err), l, r)
                | (None, r) \<Rightarrow> (None, l, r))))"

definition Pic_nameFor :: "PicLeaderboard \<Rightarrow> string \<Rightarrow> string" where
  "Pic_nameFor l pid = (case pl_names l pid of Some n \<Rightarrow> n | None \<Rightarrow> pid)"

definition Pic_topFromFallback :: "string list \<Rightarrow> int \<Rightarrow> PicLeaderboard \<Rightarrow> PicEntry list" where
  "Pic_topFromFallback keys n l =
     cut_top pe_Wins n (map (\<lambda>pid. \<lparr>pe_PlayerID = pid, pe_Name = (case pl_names l pid of Some x \<Rightarrow> x | None \<Rightarrow> []),
       pe_Wins = (case pl_fallback l pid of Some w \<Rightarrow> w | None \<Rightarrow> 0)\<rparr>) keys)"

definition Pic_Top :: "'r crdt_ops option \<Rightarrow> string option \<Rightarrow> (string \<Rightarrow> bool) \<Rightarrow> string list \<Rightarrow> int \<Rightarrow> PicLeaderboard \<Rightarrow> 'r \<Rightarrow>
    (string, PicEntry list) res" where
  "Pic_Top rep set_err fails keys n l r =
     (case rep of
        None \<Rightarrow> Ok (Pic_topFromFallback keys n l)
      | Some ops \<Rightarrow>
          (case set_err of
             Some err \<Rightarrow> Err (''crdt get player set: '' @ err)
           | None \<Rightarrow>
               (case crdt_elements ops playerSetKey r of
                  None \<Rightarrow> Ok []
                | Some ids \<Rightarrow>
                    Ok (cut_top pe_Wins n
                      (map (\<lambda>pid. \<lparr>pe_PlayerID = pid, pe_Name = Pic_nameFor l pid,
                          pe_Wins = (case crdt_value ops (LeaderboardKeyPrefix @ pid) r of Some w \<Rightarrow> w | None \<Rightarrow> 0)\<rparr>)
                        (filter (\<lambda>pid. \<not> fails pid) ids))))))"

section \<open>Wins are counted\<close>

definition win_step :: "'r crdt_ops \<Rightarrow> string \<times> string \<Rightarrow> PicLeaderboard \<times> 'r \<Rightarrow> PicLeaderboard \<times> 'r" where
  "win_step ops w s = snd (Pic_RecordWin (Some ops) calm calm (fst w) (snd w) (fst s) (snd s))"

definition pic_entry :: "PicLeaderboard \<Rightarrow> string \<Rightarrow> int \<Rightarrow> PicEntry" where
  "pic_entry l pid w = \<lparr>pe_PlayerID = pid, pe_Name = Pic_nameFor l pid, pe_Wins = w\<rparr>"

definition pic_top :: "'r crdt_ops \<Rightarrow> int \<Rightarrow> PicLeaderboard \<Rightarrow> 'r \<Rightarrow> PicEntry list" where
  "pic_top ops n l r =
     cut_top pe_Wins n (map (\<lambda>p. pic_entry l p (count_at ops r (LeaderboardKeyPrefix @ p))) (members ops r playerSetKey))"

lemma Pic_Top_eq: "Pic_Top (Some ops) None (\<lambda>_. False) keys n l r = Ok (pic_top ops n l r)"
  by (auto simp: Pic_Top_def pic_top_def pic_entry_def members_def count_at_def cut_top_def split: option.split)

interpretation pic_board: win_board win_step pic_top "\<lambda>p. LeaderboardKeyPrefix @ p" playerSetKey "\<lambda>w. Some (fst w)" "\<lambda>_. True"
  pic_entry pe_PlayerID pe_Wins
  by unfold_locales (auto simp: win_step_def Pic_RecordWin_def Let_def replicatesD pic_top_def pic_entry_def)

text \<open>
  On a replicated store that keeps its promises, after any wins recorded without a fault, the top list has one
  entry for each of the best players: an entry shows exactly the number of wins recorded for its player, the
  entries come in descending order, there are as many as asked for or as there are winners, and a winner
  who is left out has no more wins than anyone shown.
\<close>
theorem top_shows_wins:
  assumes rep: "replicates ops" and empty: "members ops r playerSetKey = []" "\<And>k. count_at ops r k = 0"
    and run: "fold (win_step ops) ws (NewPicLeaderboard, r) = (l, r')"
  shows "\<exists>es. Pic_Top (Some ops) None (\<lambda>_. False) keys n l r' = Ok es \<and> ranks pe_PlayerID pe_Wins (map fst ws) n es"
proof -
  have "List.map_filter (\<lambda>w. Some (fst w)) ws = map fst ws" by (simp add: List.map_filter_def)
  with pic_board.top_ranks [OF rep _ empty run, of n] show ?thesis by (simp add: Pic_Top_eq)
qed

theorem top_shows_wins_witness:
  "\<exists>l r' es. fold (win_step local_ops) [(''a'', ''Ann''), (''b'', ''Bob''), (''a'', ''Ann'')] (NewPicLeaderboard, (\<lambda>_. 0, \<lambda>_. [])) = (l, r')
     \<and> Pic_Top (Some local_ops) None (\<lambda>_. False) [] 1 l r' = Ok es
     \<and> ranks pe_PlayerID pe_Wins [''a'', ''b'', ''a''] 1 es"
proof -
  let ?ws = "[(''a'', ''Ann''), (''b'', ''Bob''), (''a'', ''Ann'')]"
  obtain l r' where run: "fold (win_step local_ops) ?ws (NewPicLeaderboard, (\<lambda>_. 0, \<lambda>_. [])) = (l, r')" by (rule prod.exhaust)
  from top_shows_wins [OF local_replicates local_empty run, of "[]" 1] run show ?thesis by auto
qed

end
