(* ===== verification/Chat.thy ===== *)
theory Chat
  imports Actor Go_Std
begin

text \<open>
  The chat example (\<^verbatim>\<open>goakt-chat\<close>): the two wire formats (\<^verbatim>\<open>wire/wire.go\<close>), the server that keeps the rooms
  (\<^verbatim>\<open>actors/server.go\<close>), the client that shows what it is sent (\<^verbatim>\<open>actors/client.go\<close>) and the commands typed into it
  (\<^verbatim>\<open>cmd/client.go\<close>). A time is an instant in Unix nanoseconds; a protobuf timestamp is a nil pointer or such an
  instant. The order in which a loop visits a Go map is an argument, a permutation of the entries, and so is
  the rendering of a time of day.
\<close>

section \<open>Messages and formats\<close>

type_synonym time = int

definition zeroTime :: time where "zeroTime = - 62135596800 * 10 ^ 9"

definition IsZero :: "time \<Rightarrow> bool" where "IsZero t \<longleftrightarrow> t = zeroTime"

datatype chat_message =
    Connect string string
  | Disconnect
  | Message string string string time
  | DirectMessage string string string time
  | ListUsersRequest string
  | ListUsersResponse "string list"
  | Broadcast string string string time
  | SystemEvent string time

type_synonym timestamp = "int option"

datatype pb_message =
    PbConnect string string
  | PbDisconnect
  | PbMessage string string string timestamp
  | PbDirectMessage string string string timestamp
  | PbListUsersRequest string
  | PbListUsersResponse "string list"
  | PbBroadcast string string string timestamp
  | PbSystemEvent string timestamp

datatype lifecycle = PostStart | OtherSignal

datatype wire_msg = WireChat chat_message | WireProto pb_message | WireOther lifecycle

datatype Codec = CBORCodec | ProtoCodec

definition CBOR :: string where "CBOR = ''cbor''"
definition Proto :: string where "Proto = ''proto''"

fun Codec_Name :: "Codec \<Rightarrow> string" where
  "Codec_Name CBORCodec = CBOR"
| "Codec_Name ProtoCodec = Proto"

definition ParseCodec :: "string \<Rightarrow> (string, Codec) res" where
  "ParseCodec name =
     (let n = ToLower (TrimSpace name) in
      if n = CBOR then Ok CBORCodec else if n = Proto then Ok ProtoCodec else Err name)"

definition protoTime :: "time \<Rightarrow> timestamp" where
  "protoTime t = (if IsZero t then None else Some t)"

fun goTime :: "timestamp \<Rightarrow> time" where
  "goTime None = zeroTime"
| "goTime (Some t) = t"

fun protoEncode :: "chat_message \<Rightarrow> pb_message" where
  "protoEncode (Connect user room) = PbConnect user room"
| "protoEncode Disconnect = PbDisconnect"
| "protoEncode (Message user content room at) = PbMessage user content room (protoTime at)"
| "protoEncode (DirectMessage from to content at) = PbDirectMessage from to content (protoTime at)"
| "protoEncode (ListUsersRequest room) = PbListUsersRequest room"
| "protoEncode (ListUsersResponse names) = PbListUsersResponse names"
| "protoEncode (Broadcast from content room at) = PbBroadcast from content room (protoTime at)"
| "protoEncode (SystemEvent text at) = PbSystemEvent text (protoTime at)"

fun Encode :: "Codec \<Rightarrow> chat_message \<Rightarrow> wire_msg" where
  "Encode CBORCodec m = WireChat m"
| "Encode ProtoCodec m = WireProto (protoEncode m)"

fun protoDecode :: "pb_message \<Rightarrow> chat_message" where
  "protoDecode (PbConnect user room) = Connect user room"
| "protoDecode PbDisconnect = Disconnect"
| "protoDecode (PbMessage user content room at) = Message user content room (goTime at)"
| "protoDecode (PbDirectMessage from to content at) = DirectMessage from to content (goTime at)"
| "protoDecode (PbListUsersRequest room) = ListUsersRequest room"
| "protoDecode (PbListUsersResponse names) = ListUsersResponse names"
| "protoDecode (PbBroadcast from content room at) = Broadcast from content room (goTime at)"
| "protoDecode (PbSystemEvent text at) = SystemEvent text (goTime at)"

fun Decode :: "wire_msg \<Rightarrow> (lifecycle + chat_message \<times> Codec)" where
  "Decode (WireProto p) = Inr (protoDecode p, ProtoCodec)"
| "Decode (WireChat m) = Inr (m, CBORCodec)"
| "Decode (WireOther l) = Inl l"

section \<open>The server\<close>

definition DefaultRoom :: string where "DefaultRoom = ''general''"
definition maxHistorySize :: nat where "maxHistorySize = 20"

record clientInfo =
  ci_pid :: string
  ci_userName :: string
  ci_room :: string
  ci_codec :: Codec

type_synonym registry = "(string \<times> clientInfo) list"

record Server =
  clients :: registry
  history :: "string \<Rightarrow> chat_message list"

record ServerEnv =
  sender :: string
  now :: int
  map_order :: "registry \<Rightarrow> registry"

datatype chat_effect = TellWire string wire_msg | ChatUnhandled

definition Server_PreStart :: Server where
  "Server_PreStart = \<lparr>clients = [], history = (\<lambda>_. [])\<rparr>"

definition broadcastToRoom :: "ServerEnv \<Rightarrow> string \<Rightarrow> string \<Rightarrow> chat_message \<Rightarrow> Server \<Rightarrow> chat_effect list" where
  "broadcastToRoom env room excludeKey msg s =
     concat (map (\<lambda>(key, info).
       if key = excludeKey \<or> ci_room info \<noteq> room then []
       else [TellWire (ci_pid info) (Encode (ci_codec info) msg)]) (map_order env (clients s)))"

definition appendHistory :: "string \<Rightarrow> chat_message \<Rightarrow> Server \<Rightarrow> Server" where
  "appendHistory room b s =
     (let buf = history s room @ [b];
          buf = (if length buf > maxHistorySize then drop (length buf - maxHistorySize) buf else buf)
      in s\<lparr>history := (history s)(room := buf)\<rparr>)"

definition handleConnect :: "ServerEnv \<Rightarrow> string \<Rightarrow> string \<Rightarrow> Codec \<Rightarrow> Server \<Rightarrow> Server \<times> chat_effect list" where
  "handleConnect env userName msgRoom cdc s =
     (let key = sender env;
          room = (if msgRoom = [] then DefaultRoom else msgRoom) in
      case map_of (clients s) key of
        Some _ \<Rightarrow> (s, [])
      | None \<Rightarrow>
          let s = s\<lparr>clients := clients s @ [(key, \<lparr>ci_pid = key, ci_userName = userName, ci_room = room, ci_codec = cdc\<rparr>)]\<rparr> in
          (s, map (\<lambda>b. TellWire key (Encode cdc b)) (history s room) @
              broadcastToRoom env room key (SystemEvent (userName @ '' joined '' @ room) (now env)) s))"

definition handleDisconnect :: "ServerEnv \<Rightarrow> Server \<Rightarrow> Server \<times> chat_effect list" where
  "handleDisconnect env s =
     (let key = sender env in
      case map_of (clients s) key of
        None \<Rightarrow> (s, [])
      | Some info \<Rightarrow>
          let s = s\<lparr>clients := filter (\<lambda>(k, _). k \<noteq> key) (clients s)\<rparr> in
          (s, broadcastToRoom env (ci_room info) key
                (SystemEvent (ci_userName info @ '' left '' @ ci_room info) (now env)) s))"

definition handleMessage :: "ServerEnv \<Rightarrow> string \<Rightarrow> string \<Rightarrow> Server \<Rightarrow> Server \<times> chat_effect list" where
  "handleMessage env content msgRoom s =
     (let key = sender env in
      case map_of (clients s) key of
        None \<Rightarrow> (s, [])
      | Some info \<Rightarrow>
          let room = (if msgRoom = [] then ci_room info else msgRoom);
              b = Broadcast (ci_userName info) content room (now env);
              s = appendHistory room b s
          in (s, broadcastToRoom env room key b s))"

definition handleDirectMessage :: "ServerEnv \<Rightarrow> string \<Rightarrow> string \<Rightarrow> string \<Rightarrow> Server \<Rightarrow> Server \<times> chat_effect list" where
  "handleDirectMessage env fromUser toUser content s =
     (case find (\<lambda>(_, info). ci_userName info = toUser) (map_order env (clients s)) of
        None \<Rightarrow> (s, [])
      | Some (_, info) \<Rightarrow>
          (s, [TellWire (ci_pid info) (Encode (ci_codec info) (DirectMessage fromUser toUser content (now env)))]))"

definition handleListUsers :: "ServerEnv \<Rightarrow> string \<Rightarrow> Codec \<Rightarrow> Server \<Rightarrow> Server \<times> chat_effect list" where
  "handleListUsers env msgRoom cdc s =
     (let room = (if msgRoom = [] then DefaultRoom else msgRoom);
          names = List.map_filter (\<lambda>(_, info). if ci_room info = room then Some (ci_userName info) else None)
                    (map_order env (clients s))
      in (s, [TellWire (sender env) (Encode cdc (ListUsersResponse names))]))"

definition Server_Receive :: "ServerEnv \<Rightarrow> wire_msg \<Rightarrow> Server \<Rightarrow> Server \<times> chat_effect list" where
  "Server_Receive env w s =
     (case Decode w of
        Inl PostStart \<Rightarrow> (s, [])
      | Inl _ \<Rightarrow> (s, [ChatUnhandled])
      | Inr (m, cdc) \<Rightarrow>
          (case m of
             Connect user room \<Rightarrow> handleConnect env user room cdc s
           | Disconnect \<Rightarrow> handleDisconnect env s
           | Message user content room at \<Rightarrow> handleMessage env content room s
           | DirectMessage from to content at \<Rightarrow> handleDirectMessage env from to content s
           | ListUsersRequest room \<Rightarrow> handleListUsers env room cdc s
           | _ \<Rightarrow> (s, [ChatUnhandled])))"

definition server_step :: "ServerEnv \<times> wire_msg \<Rightarrow> Server \<Rightarrow> Server" where
  "server_step q s = fst (Server_Receive (fst q) (snd q) s)"

section \<open>The client\<close>

record Client =
  cl_userName :: string
  cl_server :: string
  cl_codec :: Codec
  cl_room :: string

datatype client_effect = ClientTell string wire_msg | Print string | Sleep nat | ClientUnhandled

definition NewClient :: "string \<Rightarrow> string \<Rightarrow> string \<Rightarrow> Codec \<Rightarrow> Client" where
  "NewClient userName room server cdc =
     \<lparr>cl_userName = userName, cl_server = server, cl_codec = cdc, cl_room = room\<rparr>"

definition Client_Send :: "Client \<Rightarrow> chat_message \<Rightarrow> client_effect" where
  "Client_Send c m = ClientTell (cl_server c) (Encode (cl_codec c) m)"

definition PrintPrompt :: "string \<Rightarrow> string \<Rightarrow> string" where
  "PrintPrompt user room = ''['' @ user @ '' @ '' @ room @ ''] > ''"

definition formatTime :: "(int \<Rightarrow> string) \<Rightarrow> time \<Rightarrow> string" where
  "formatTime clock t = (if IsZero t then ''?'' else clock t)"

fun join_names :: "string list \<Rightarrow> string" where
  "join_names [] = []"
| "join_names [x] = x"
| "join_names (x # y # ys) = x @ '', '' @ join_names (y # ys)"

definition client_line :: "(int \<Rightarrow> string) \<Rightarrow> Client \<Rightarrow> chat_message \<Rightarrow> string option" where
  "client_line clock c m =
     (case m of
        Broadcast from content room at \<Rightarrow>
          Some ([CHR 0x0D] @ ''['' @ formatTime clock at @ ''] ['' @ room @ ''] '' @ from @ '': '' @ content @ [CHR 0x0A])
      | DirectMessage from to content at \<Rightarrow>
          Some ([CHR 0x0D] @ ''['' @ formatTime clock at @ ''] [DM from '' @ from @ '']: '' @ content @ [CHR 0x0A])
      | SystemEvent text at \<Rightarrow>
          Some ([CHR 0x0D] @ ''['' @ formatTime clock at @ ''] *** '' @ text @ '' ***'' @ [CHR 0x0A])
      | ListUsersResponse names \<Rightarrow>
          Some ([CHR 0x0D] @ ''Online in '' @ cl_room c @ '': '' @ join_names names @ [CHR 0x0A])
      | _ \<Rightarrow> None)"

definition Client_Receive :: "(int \<Rightarrow> string) \<Rightarrow> Client \<Rightarrow> wire_msg \<Rightarrow> client_effect list" where
  "Client_Receive clock c w =
     (case Decode w of
        Inl PostStart \<Rightarrow> [ClientTell (cl_server c) (Encode (cl_codec c) (Connect (cl_userName c) (cl_room c)))]
      | Inl _ \<Rightarrow> [ClientUnhandled]
      | Inr (m, _) \<Rightarrow>
          (case client_line clock c m of
             Some line \<Rightarrow> [Print line, Print (PrintPrompt (cl_userName c) (cl_room c))]
           | None \<Rightarrow> [ClientUnhandled]))"

text \<open>
  One line typed into the client: the effects, the client afterwards, and whether the input loop goes on.
  \<open>t\<close> is the time of day.
\<close>

definition clientHelpText :: string where
  "clientHelpText = ''Commands:'' @ [CHR 0x0A] @
     ''  /help              show this help'' @ [CHR 0x0A] @
     ''  /users             list online users in the current room'' @ [CHR 0x0A] @
     ''  /join <room>       switch to a different room'' @ [CHR 0x0A] @
     ''  /dm <user> <msg>   send a private message to a user'' @ [CHR 0x0A] @
     ''  /quit              disconnect and exit''"

definition client_command :: "time \<Rightarrow> string list \<Rightarrow> Client \<Rightarrow> client_effect list \<times> Client \<times> bool" where
  "client_command t parts c =
     (let command = ToLower (parts ! 0);
          prompt = (\<lambda>effs c. (effs @ [Print (PrintPrompt (cl_userName c) (cl_room c))], c, True)) in
      if command = ''/quit'' then ([Client_Send c Disconnect], c, False)
      else if command = ''/help'' then prompt [Print ([CHR 0x0D] @ clientHelpText @ [CHR 0x0A])] c
      else if command = ''/users'' then prompt [Client_Send c (ListUsersRequest (cl_room c))] c
      else if command = ''/join'' then
        if length parts < 2 \<or> parts ! 1 = [] then prompt [Print ([CHR 0x0D] @ ''Usage: /join <room>'' @ [CHR 0x0A])] c
        else let newRoom = parts ! 1; c' = c\<lparr>cl_room := newRoom\<rparr> in
          prompt [Client_Send c Disconnect, Sleep 200, Client_Send c' (Connect (cl_userName c) newRoom),
                  Print ([CHR 0x0D] @ ''Joined room: '' @ newRoom @ [CHR 0x0A])] c'
      else if command = ''/dm'' then
        if length parts < 3 then prompt [Print ([CHR 0x0D] @ ''Usage: /dm <user> <message>'' @ [CHR 0x0A])] c
        else prompt [Client_Send c (DirectMessage (cl_userName c) (parts ! 1) (parts ! 2) t)] c
      else prompt [Print ([CHR 0x0D] @ ''Unknown command: '' @ command @ ''  (type /help)'' @ [CHR 0x0A])] c)"

definition client_input :: "time \<Rightarrow> string \<Rightarrow> Client \<Rightarrow> client_effect list \<times> Client \<times> bool" where
  "client_input t line c =
     (let input = TrimSpace line;
          prompt = Print (PrintPrompt (cl_userName c) (cl_room c)) in
      if input = [] then ([prompt], c, True)
      else if HasPrefix input ''/'' then client_command t (SplitN input (CHR '' '') 3) c
      else ([Client_Send c (Message (cl_userName c) input (cl_room c) t), prompt], c, True))"

section \<open>The formats\<close>

lemma goTime_protoTime [simp]: "goTime (protoTime t) = t"
  by (simp add: protoTime_def IsZero_def)

lemma protoDecode_protoEncode [simp]: "protoDecode (protoEncode m) = m"
  by (cases m) simp_all

lemma Decode_Encode [simp]: "Decode (Encode c m) = Inr (m, c)"
  by (cases c) simp_all

definition decode_chat :: "wire_msg \<Rightarrow> (unit, chat_message) res" where
  "decode_chat w = (case Decode w of Inr (m, _) \<Rightarrow> Ok m | Inl _ \<Rightarrow> Err ())"

interpretation chat_codec: codec "\<lambda>m. Some (Encode c m)" decode_chat "\<lambda>_. True" for c
  by unfold_locales (simp add: decode_chat_def)

section \<open>The registry\<close>

text \<open>Every client is registered once, under the path of the actor that is told.\<close>

definition server_ok :: "Server \<Rightarrow> bool" where
  "server_ok s \<longleftrightarrow> distinct (map fst (clients s)) \<and> (\<forall>(k, i) \<in> set (clients s). ci_pid i = k)"

definition visits_all :: "ServerEnv \<Rightarrow> Server \<Rightarrow> bool" where
  "visits_all env s \<longleftrightarrow> mset (map_order env (clients s)) = mset (clients s)"

lemmas handler_defs = handleConnect_def handleDisconnect_def handleMessage_def handleDirectMessage_def
  handleListUsers_def

lemma clients_appendHistory [simp]: "clients (appendHistory room b s) = clients s"
  by (simp add: appendHistory_def Let_def)

lemma server_ok_Receive: "server_ok s \<Longrightarrow> server_ok (fst (Server_Receive env w s))"
  by (auto simp: Server_Receive_def handler_defs server_ok_def Let_def map_of_eq_None_iff distinct_map_filter
      split: sum.split lifecycle.split chat_message.split option.split)

lemma server_ok_PreStart [simp]: "server_ok Server_PreStart"
  by (simp add: server_ok_def Server_PreStart_def)

interpretation chat_server: total_actor server_step server_ok
  by unfold_locales (simp add: server_step_def server_ok_Receive)

definition told :: "string \<Rightarrow> chat_effect list \<Rightarrow> wire_msg list" where
  "told k effs = List.map_filter (\<lambda>e. case e of TellWire p w \<Rightarrow> if p = k then Some w else None | _ \<Rightarrow> None) effs"

lemma told_simps [simp]:
  "told k [] = []"
  "told k (TellWire p w # effs) = (if p = k then [w] else []) @ told k effs"
  "told k (effs @ effs') = told k effs @ told k effs'"
  by (auto simp: told_def List.map_filter_def)

lemma told_own [simp]: "told k (map (\<lambda>b. TellWire k (f b)) bs) = map f bs"
  by (induction bs) simp_all

lemma told_concat: "told k (concat xss) = concat (map (told k) xss)"
  by (induction xss) simp_all

text \<open>A visit of the whole registry tells one client at most one message.\<close>

lemma concat_single:
  assumes "distinct (map fst xs)"
  shows "concat (map (\<lambda>(k, i). if k = key then f i else []) xs)
    = (case map_of xs key of None \<Rightarrow> [] | Some i \<Rightarrow> f i)"
  using assms
proof (induction xs)
  case (Cons x xs)
  show ?case
  proof (cases "fst x = key")
    case True
    with Cons.prems have "map_of xs key = None" by (auto simp: map_of_eq_None_iff)
    with Cons True show ?thesis by (auto split: prod.split)
  next
    case False
    with Cons show ?thesis by (auto split: prod.split)
  qed
qed simp

lemma told_broadcastToRoom:
  assumes ok: "server_ok s" and order: "visits_all env s"
  shows "told k (broadcastToRoom env room excl m s) =
    (case map_of (clients s) k of
       Some i \<Rightarrow> if k \<noteq> excl \<and> ci_room i = room then [Encode (ci_codec i) m] else []
     | None \<Rightarrow> [])"
proof -
  let ?xs = "map_order env (clients s)"
  let ?f = "\<lambda>i. if k \<noteq> excl \<and> ci_room i = room then [Encode (ci_codec i) m] else []"
  have set: "set ?xs = set (clients s)" using order unfolding visits_all_def by (rule mset_eq_setD)
  have "mset (map fst ?xs) = mset (map fst (clients s))" using order by (simp add: visits_all_def)
  then have dist: "distinct (map fst ?xs)" using ok mset_eq_imp_distinct_iff unfolding server_ok_def by blast
  then have "map_of ?xs = map_of (clients s)"
    using set ok by (intro map_of_eqI ext) (auto simp: server_ok_def map_of_inject_set)
  moreover have "told k (broadcastToRoom env room excl m s) = concat (map (\<lambda>(j, i). if j = k then ?f i else []) ?xs)"
    using ok set unfolding broadcastToRoom_def told_concat map_map
    by (intro arg_cong [where f = concat] map_cong) (auto simp: server_ok_def)
  ultimately show ?thesis using concat_single [OF dist, of k ?f] by simp
qed

section \<open>Posting\<close>

lemma Receive_Message:
  assumes "map_of (clients s) (sender env) = Some me" and "room \<noteq> []"
  shows "Server_Receive env (Encode cdc (Message user content room at)) s =
    (let b = Broadcast (ci_userName me) content room (now env); s' = appendHistory room b s
     in (s', broadcastToRoom env room (sender env) b s'))"
  using assms by (simp add: Server_Receive_def handleMessage_def Let_def)

lemma server_ok_appendHistory [simp]: "server_ok (appendHistory room b s) = server_ok s"
  by (simp add: server_ok_def)

lemma visits_all_appendHistory [simp]: "visits_all env (appendHistory room b s) = visits_all env s"
  by (simp add: visits_all_def)

lemma Client_Receive_Broadcast:
  "\<not> IsZero at \<Longrightarrow> Client_Receive clock d (Encode cdc (Broadcast user content room at)) =
     [Print ([CHR 0x0D] @ ''['' @ clock at @ ''] ['' @ room @ ''] '' @ user @ '': '' @ content @ [CHR 0x0A]),
      Print (PrintPrompt (cl_userName d) (cl_room d))]"
  by (simp add: Client_Receive_def client_line_def formatTime_def)

text \<open>
  C21: A line typed by a connected client that is no command is shown on the screen of every other client of the
  room exactly once, with the room, the name the author registered under and the time the server
  received it, whichever formats the clients speak; the author and clients of other rooms are shown nothing.
\<close>
theorem chat_line_shown:
  assumes run: "s = fold server_step qs Server_PreStart"
    and order: "visits_all env s"
    and author: "map_of (clients s) (sender env) = Some me"
    and typed: "TrimSpace line \<noteq> []" "\<not> HasPrefix (TrimSpace line) ''/''"
    and room: "cl_room c \<noteq> []"
    and clock: "\<not> IsZero (now env)"
  shows "\<exists>w. client_input t line c =
       ([ClientTell (cl_server c) w, Print (PrintPrompt (cl_userName c) (cl_room c))], c, True) \<and>
     (\<forall>k d. concat (map (Client_Receive clk d) (told k (snd (Server_Receive env w s)))) =
       (case map_of (clients s) k of
          None \<Rightarrow> []
        | Some i \<Rightarrow>
            if k \<noteq> sender env \<and> ci_room i = cl_room c
            then [Print ([CHR 0x0D] @ ''['' @ clk (now env) @ ''] ['' @ cl_room c @ ''] '' @
                    ci_userName me @ '': '' @ TrimSpace line @ [CHR 0x0A]),
                  Print (PrintPrompt (cl_userName d) (cl_room d))]
            else []))"
proof -
  have "server_ok s" unfolding run by (rule chat_server.fold_ok) simp
  then show ?thesis
    using typed order clock
    by (auto simp: client_input_def Let_def Client_Send_def Receive_Message [OF author room] told_broadcastToRoom
        Client_Receive_Broadcast split: option.split)
qed

section \<open>The replay buffer\<close>

definition last_n :: "nat \<Rightarrow> 'a list \<Rightarrow> 'a list" where
  "last_n n xs = drop (length xs - n) xs"

lemma last_n_append: "last_n n (last_n n xs @ ys) = last_n n (xs @ ys)"
  by (cases "n \<le> length xs") (auto simp: last_n_def add.commute)

text \<open>What the clients post to a room over a run of the server.\<close>

fun posted1 :: "ServerEnv \<times> wire_msg \<Rightarrow> Server \<Rightarrow> string \<Rightarrow> chat_message list" where
  "posted1 (env, w) s room =
     (case Decode w of
        Inr (Message user content r at, _) \<Rightarrow>
          (case map_of (clients s) (sender env) of
             Some i \<Rightarrow>
               if (if r = [] then ci_room i else r) = room
               then [Broadcast (ci_userName i) content room (now env)] else []
           | None \<Rightarrow> [])
      | _ \<Rightarrow> [])"

fun posted :: "(ServerEnv \<times> wire_msg) list \<Rightarrow> Server \<Rightarrow> string \<Rightarrow> chat_message list" where
  "posted [] s room = []"
| "posted (q # qs) s room = posted1 q s room @ posted qs (server_step q s) room"

lemma history_appendHistory:
  "history (appendHistory room b s) r =
     (if r = room then last_n maxHistorySize (history s room @ [b]) else history s r)"
  by (auto simp: appendHistory_def last_n_def Let_def)

lemma history_step:
  assumes "length (history s room) \<le> maxHistorySize"
  shows "history (server_step q s) room = last_n maxHistorySize (history s room @ posted1 q s room)"
  using assms
  by (cases q) (auto simp: server_step_def Server_Receive_def handler_defs history_appendHistory Let_def
      last_n_def split: sum.split lifecycle.split chat_message.split option.split)

lemma length_last_n [simp]: "length (last_n n xs) \<le> n"
  by (simp add: last_n_def)

lemma history_run:
  assumes "length (history s room) \<le> maxHistorySize"
  shows "history (fold server_step qs s) room = last_n maxHistorySize (history s room @ posted qs s room)"
  using assms
proof (induction qs arbitrary: s)
  case Nil
  then show ?case by (simp add: last_n_def)
next
  case (Cons q qs)
  note step = history_step [OF Cons.prems, of q]
  have "length (history (server_step q s) room) \<le> maxHistorySize" unfolding step by simp
  from Cons.IH [OF this] show ?case by (simp add: step last_n_append)
qed

text \<open>
  A client that connects is replayed the last twenty posts of its room, in order and in its own
  format, and is then registered; a post older than those is gone.
\<close>
theorem newcomer_replay:
  assumes run: "s = fold server_step qs Server_PreStart"
    and order: "visits_all env (fst (Server_Receive env (Encode cdc (Connect user room)) s))"
    and new: "map_of (clients s) (sender env) = None"
  shows "told (sender env) (snd (Server_Receive env (Encode cdc (Connect user room)) s)) =
      map (Encode cdc)
        (last_n 20 (posted qs Server_PreStart (if room = [] then ''general'' else room)))
    \<and> map_of (clients (fst (Server_Receive env (Encode cdc (Connect user room)) s))) (sender env) =
      Some \<lparr>ci_pid = sender env, ci_userName = user, ci_room = (if room = [] then ''general'' else room),
            ci_codec = cdc\<rparr>"
proof -
  let ?s = "fst (Server_Receive env (Encode cdc (Connect user room)) s)"
  have "server_ok s" unfolding run by (rule chat_server.fold_ok) simp
  then have ok: "server_ok ?s" by (rule server_ok_Receive)
  have "history s r = last_n 20 (posted qs Server_PreStart r)" for r
    using history_run [of Server_PreStart r qs] by (simp add: run Server_PreStart_def maxHistorySize_def)
  then show ?thesis
    using new order ok
    by (simp add: Server_Receive_def handleConnect_def Let_def told_broadcastToRoom DefaultRoom_def map_add_def)
qed

section \<open>Both sides speak the same protocol\<close>

text \<open>What the server tells is addressed to clients, what a client sends to the server.\<close>

fun for_client :: "chat_message \<Rightarrow> bool" where
  "for_client (Broadcast _ _ _ _) = True"
| "for_client (DirectMessage _ _ _ _) = True"
| "for_client (SystemEvent _ _) = True"
| "for_client (ListUsersResponse _) = True"
| "for_client _ = False"

fun for_server :: "chat_message \<Rightarrow> bool" where
  "for_server (Connect _ _) = True"
| "for_server Disconnect = True"
| "for_server (Message _ _ _ _) = True"
| "for_server (DirectMessage _ _ _ _) = True"
| "for_server (ListUsersRequest _) = True"
| "for_server _ = False"

lemma Client_handles: "for_client m \<Longrightarrow> ClientUnhandled \<notin> set (Client_Receive clk d (Encode cdc m))"
  by (cases m) (simp_all add: Client_Receive_def client_line_def)

lemma Server_handles:
  assumes "for_server m"
  shows "ChatUnhandled \<notin> set (snd (Server_Receive env (Encode cdc m) s))"
  using assms
  by (cases m) (auto simp: Server_Receive_def handler_defs broadcastToRoom_def Let_def split: option.split if_splits)

lemma posted_Broadcast: "b \<in> set (posted qs s room) \<Longrightarrow> for_client b"
proof (induction qs arbitrary: s)
  case (Cons q qs)
  obtain env w where "q = (env, w)" by fastforce
  with Cons show ?case
    by (auto split: sum.splits chat_message.splits option.splits if_splits)
qed simp

lemma history_Broadcast:
  assumes "b \<in> set (history (fold server_step qs Server_PreStart) room)"
  shows "for_client b"
  using assms history_run [of Server_PreStart room qs] posted_Broadcast [of b qs Server_PreStart room]
  by (auto simp: Server_PreStart_def last_n_def dest: in_set_dropD)

lemma Server_tells:
  assumes "TellWire k v \<in> set (snd (Server_Receive env w s))"
    and "\<And>room b. b \<in> set (history s room) \<Longrightarrow> for_client b"
  shows "\<exists>cdc m. v = Encode cdc m \<and> for_client m"
  using assms
  by (auto simp: Server_Receive_def handler_defs broadcastToRoom_def Let_def
      split: sum.splits lifecycle.splits chat_message.splits option.splits if_splits) fastforce+

lemma client_sends:
  assumes "ClientTell p v \<in> set (fst (client_input t line c)) \<or> ClientTell p v \<in> set (Client_Receive clk c w)"
  shows "\<exists>m. v = Encode (cl_codec c) m \<and> for_server m"
  using assms
  by (auto simp: client_input_def client_command_def Client_Send_def Client_Receive_def Let_def
      split: if_splits sum.splits lifecycle.splits option.splits)

text \<open>
  C30: The two sides of the chat are typed by one protocol: over any run, a client handles everything the server tells
  anybody, and the server handles everything a client sends, on its start, for any line typed and in
  answer to any message.
\<close>
theorem chat_protocol_typed:
  assumes run: "s = fold server_step qs Server_PreStart"
  shows "(TellWire k v \<in> set (snd (Server_Receive env w s)) \<longrightarrow> ClientUnhandled \<notin> set (Client_Receive clk d v))
    \<and> (ClientTell p u \<in> set (fst (client_input t line c)) \<or> ClientTell p u \<in> set (Client_Receive clk c w) \<longrightarrow>
        ChatUnhandled \<notin> set (snd (Server_Receive env u s)))"
  using Server_tells [of k v env w s] history_Broadcast [of _ qs] Client_handles client_sends [of p u t line c clk w] Server_handles
  unfolding run by metis

section \<open>Changing rooms\<close>

lemma ToLower_join: "ToLower ''/join'' = ''/join''"
  by code_simp

definition sent :: "client_effect list \<Rightarrow> wire_msg list" where
  "sent effs = List.map_filter (\<lambda>e. case e of ClientTell p w \<Rightarrow> Some w | _ \<Rightarrow> None) effs"

lemma map_of_filter_neq: "map_of (filter (\<lambda>(j, _). j \<noteq> k) xs) = (map_of xs)(k := None)"
  by (induction xs) (auto simp: fun_eq_iff)

lemma map_of_clients_join:
  "map_of (clients (server_step (env2, Encode cdc (Connect user room))
       (server_step (env1, Encode cdc' Disconnect) s))) =
     (map_of (clients s))(sender env2 \<mapsto>
        \<lparr>ci_pid = sender env2, ci_userName = user, ci_room = (if room = [] then DefaultRoom else room), ci_codec = cdc\<rparr>)"
  if "sender env1 = sender env2"
  using that
  by (auto simp: server_step_def Server_Receive_def handleConnect_def handleDisconnect_def Let_def map_of_filter_neq
      map_add_def fun_eq_iff split: option.split)

lemma history_join:
  "history (server_step (env2, Encode cdc (Connect user room)) (server_step (env1, Encode cdc' Disconnect) s)) = history s"
  by (auto simp: server_step_def Server_Receive_def handleConnect_def handleDisconnect_def Let_def split: option.split)

text \<open>
  The messages \<^verbatim>\<open>/join\<close> sends, received in that order, move the client to the room it
  named and leave every other client and every replay buffer as they were.
\<close>
theorem join_moves:
  assumes typed: "SplitN (TrimSpace line) (CHR '' '') 3 = ''/join'' # room # rest" and room: "room \<noteq> []"
    and envs: "sender env1 = k" "sender env2 = k"
    and s': "s' = fold server_step (zip [env1, env2] (sent (fst (client_input t line c)))) s"
  shows "cl_room (fst (snd (client_input t line c))) = room
    \<and> map_of (clients s') = (map_of (clients s))(k \<mapsto>
         \<lparr>ci_pid = k, ci_userName = cl_userName c, ci_room = room, ci_codec = cl_codec c\<rparr>)
    \<and> history s' = history s"
proof -
  obtain b where "TrimSpace line = ''/join'' @ CHR '' '' # b" and split: "SplitN (TrimSpace line) (CHR '' '') 3 = ''/join'' # room # rest"
    using typed by (auto simp: numeral_3_eq_3 dest: Cut_Some split: option.splits)
  then have "client_input t line c =
    (let c' = c\<lparr>cl_room := room\<rparr> in
      ([Client_Send c Disconnect, Sleep 200, Client_Send c' (Connect (cl_userName c) room),
        Print ([CHR 0x0D] @ ''Joined room: '' @ room @ [CHR 0x0A]), Print (PrintPrompt (cl_userName c') room)], c', True))"
    using room by (simp add: client_input_def client_command_def HasPrefix_def Let_def ToLower_join)
  with envs room show ?thesis
    unfolding s' by (simp add: sent_def List.map_filter_def Client_Send_def Let_def map_of_clients_join history_join)
qed

section \<open>Runs\<close>

definition chat_env :: "string \<Rightarrow> int \<Rightarrow> ServerEnv" where
  "chat_env k t = \<lparr>sender = k, now = t, map_order = rev\<rparr>"

definition chat_run :: "(ServerEnv \<times> wire_msg) list" where
  "chat_run =
     [(chat_env ''a'' 1, Encode CBORCodec (Connect ''Ann'' ''tea'')),
      (chat_env ''b'' 2, Encode ProtoCodec (Connect ''Bob'' ''tea'')),
      (chat_env ''a'' 3, Encode CBORCodec (Message ''Ann'' ''hello'' [] 0))]"

lemma chat_run_clients:
  "clients (fold server_step chat_run Server_PreStart) =
     [(''a'', \<lparr>ci_pid = ''a'', ci_userName = ''Ann'', ci_room = ''tea'', ci_codec = CBORCodec\<rparr>),
      (''b'', \<lparr>ci_pid = ''b'', ci_userName = ''Bob'', ci_room = ''tea'', ci_codec = ProtoCodec\<rparr>)]"
  by (simp add: chat_run_def chat_env_def Server_PreStart_def server_step_def Server_Receive_def handler_defs
      Let_def appendHistory_def)

lemma visits_all_env [simp]: "visits_all (chat_env k t) s"
  by (simp add: visits_all_def chat_env_def)

theorem chat_line_shown_witness:
  "\<exists>w. client_input 5 '' good day '' (NewClient ''Ann'' ''tea'' ''srv'' CBORCodec) =
     ([ClientTell ''srv'' w, Print ''[Ann @ tea] > ''], NewClient ''Ann'' ''tea'' ''srv'' CBORCodec, True) \<and>
   concat (map (Client_Receive (\<lambda>_. ''noon'') (NewClient ''Bob'' ''tea'' ''srv'' ProtoCodec))
     (told ''b'' (snd (Server_Receive (chat_env ''a'' 4) w (fold server_step chat_run Server_PreStart))))) =
   [Print ([CHR 0x0D] @ ''[noon] [tea] Ann: good day'' @ [CHR 0x0A]), Print ''[Bob @ tea] > '']"
proof -
  let ?s = "fold server_step chat_run Server_PreStart"
  have trim: "TrimSpace '' good day '' = ''good day''" by code_simp
  have author: "map_of (clients ?s) (sender (chat_env ''a'' 4)) =
      Some \<lparr>ci_pid = ''a'', ci_userName = ''Ann'', ci_room = ''tea'', ci_codec = CBORCodec\<rparr>"
    by (simp add: chat_run_clients chat_env_def)
  obtain w where
    "client_input 5 '' good day '' (NewClient ''Ann'' ''tea'' ''srv'' CBORCodec) =
       ([ClientTell ''srv'' w, Print (PrintPrompt ''Ann'' ''tea'')], NewClient ''Ann'' ''tea'' ''srv'' CBORCodec, True)"
    and "\<And>d. concat (map (Client_Receive (\<lambda>_. ''noon'') d) (told ''b'' (snd (Server_Receive (chat_env ''a'' 4) w ?s)))) =
       [Print ([CHR 0x0D] @ ''[noon] [tea] Ann: good day'' @ [CHR 0x0A]), Print (PrintPrompt (cl_userName d) (cl_room d))]"
    using chat_line_shown [OF refl visits_all_env author, of "'' good day ''" "NewClient ''Ann'' ''tea'' ''srv'' CBORCodec"
        5 "\<lambda>_. ''noon''"]
    by (auto simp: trim NewClient_def HasPrefix_def IsZero_def zeroTime_def chat_env_def chat_run_clients)
  then show ?thesis by (intro exI [of _ w]) (simp add: NewClient_def PrintPrompt_def)
qed

theorem newcomer_replay_witness:
  "told ''c'' (snd (Server_Receive (chat_env ''c'' 4) (Encode ProtoCodec (Connect ''Cy'' ''tea''))
     (fold server_step chat_run Server_PreStart))) = [WireProto (PbBroadcast ''Ann'' ''hello'' ''tea'' (Some 3))]"
proof -
  have "map_of (clients (fold server_step chat_run Server_PreStart)) (sender (chat_env ''c'' 4)) = None"
    by (simp add: chat_run_clients chat_env_def)
  moreover have "posted chat_run Server_PreStart ''tea'' = [Broadcast ''Ann'' ''hello'' ''tea'' 3]"
    by (simp add: chat_run_def chat_env_def Server_PreStart_def server_step_def Server_Receive_def handler_defs Let_def)
  ultimately show ?thesis
    using newcomer_replay [OF refl visits_all_env, of chat_run "''c''" 4 ProtoCodec "''Cy''" "''tea''"]
    by (simp add: chat_env_def last_n_def protoTime_def IsZero_def zeroTime_def)
qed

theorem join_moves_witness:
  "cl_room (fst (snd (client_input 0 ''/join den'' (NewClient ''Ann'' ''tea'' ''srv'' CBORCodec)))) = ''den''"
  using join_moves [of "''/join den''" "''den''" "[]" "chat_env ''a'' 1" "''a''" "chat_env ''a'' 2" _ 0
      "NewClient ''Ann'' ''tea'' ''srv'' CBORCodec" Server_PreStart, OF _ _ _ _ refl]
  by (simp add: chat_env_def TrimSpace_def is_space_def numeral_3_eq_3 Let_def)

theorem chat_protocol_typed_witness:
  "ChatUnhandled \<notin> set (snd (Server_Receive (chat_env ''a'' 4) (Encode ProtoCodec (Message ''Ann'' ''hi'' ''tea'' 5))
      (fold server_step chat_run Server_PreStart)))"
proof -
  have "ClientTell ''srv'' (Encode ProtoCodec (Message ''Ann'' ''hi'' ''tea'' 5))
      \<in> set (fst (client_input 5 ''hi'' (NewClient ''Ann'' ''tea'' ''srv'' ProtoCodec)))"
    by (simp add: client_input_def Client_Send_def NewClient_def TrimSpace_def is_space_def HasPrefix_def Let_def)
  then show ?thesis
    using chat_protocol_typed [OF refl, of "''k''" "WireChat Disconnect" "chat_env ''a'' 4" "WireOther PostStart" chat_run
        "\<lambda>_. []" "NewClient ''Bob'' ''tea'' ''srv'' CBORCodec" "''srv''" "Encode ProtoCodec (Message ''Ann'' ''hi'' ''tea'' 5)" 5 "''hi''"
        "NewClient ''Ann'' ''tea'' ''srv'' ProtoCodec"] by blast
qed

end
