(* ===== verification/Spec2Isabelle.thy ===== *)
theory Spec2Isabelle
  imports Scrabble_Service Scrabble_Gateway Transfer_Service Accounts Grains_Cluster Cluster Cluster_Ebpf Cluster_Memory
    Behaviors Device_Twin Tetris_Gateway Blockchain_Service AI_Agents Stream_Demo Pictograph_Gateway
    Pictograph_Leaderboard Chat
begin

text \<open>
  A verification of goakt-examples, a collection of programs built on the GoAkt actor library.

  \<^bold>\<open>The program.\<close> Every example is a set of actors: a private state and a \<^verbatim>\<open>Receive\<close> method that the runtime
  calls with one message at a time. The development models the examples that carry logic of their own.

  \<^item> \<^verbatim>\<open>goakt-scrabble\<close>: a rules engine (package \<^verbatim>\<open>scrabble\<close>), a room actor that runs games over it, a bot actor
    that plays, a lobby singleton that hands out rooms, a session actor per web socket, a profile grain
    and a leaderboard. A session sends the player's input to the room and shows the player what the room
    publishes; the room sends a bot its turn as strings and gets placements back; the room's name, made
    by the lobby, tells the room its code and language.
  \<^item> \<^verbatim>\<open>goakt-2pc\<close> and \<^verbatim>\<open>goakt-saga\<close>: money transfers between account actors, by a two-phase commit and by a
    saga with compensation, with the tables they write to and the HTTP handlers in front.
  \<^item> \<^verbatim>\<open>goakt-blockchain\<close>: a chain with proof of work; a replica per pod that stores it and catches up from
    its peers; a node with a broker of pending transactions and a miner, which announces blocks; a REST
    service in front.
  \<^item> \<^verbatim>\<open>goakt-tetris\<close>: a match actor that runs a game on a tick and sends snapshots to its subscribers; a matchmaker,
    a session per web socket and the gateway that ties them together.
  \<^item> \<^verbatim>\<open>goakt-pictograph\<close>: a drawing game; a room actor with five behaviours and timers, a session actor per web
    socket, which hides the secret word from the guessers, a lobby, profiles, and a leaderboard on a
    replicated store.
  \<^item> \<^verbatim>\<open>goakt-ai\<close>: a query service in front of an orchestrator that hands each query to one of three agents, a
    calculator among them, over clients of four language models.
  \<^item> \<^verbatim>\<open>goakt-chat\<close>: a server with rooms and replay buffers, and clients that speak one of two wire formats.
  \<^item> \<^verbatim>\<open>goakt-persistence\<close>, \<^verbatim>\<open>goakt-grains\<close>: durable accounts, as an actor and as a virtual actor, over one store;
    \<^verbatim>\<open>goakt-iot-twin\<close>: virtual actors that are passivated; \<^verbatim>\<open>goakt-grains-cluster\<close>: virtual accounts over a table;
    \<^verbatim>\<open>goakt-behaviors\<close>: an account that changes its behaviour; \<^verbatim>\<open>goakt-stream\<close>: the actors and functions of its pipelines.
  \<^item> \<^verbatim>\<open>goakt-cluster\<close>: an account service in several deployments. \<^verbatim>\<open>multi-dc\<close> forwards requests to other data centers
    through a gateway actor, \<^verbatim>\<open>k8s\<close> speaks one of two wire formats, \<^verbatim>\<open>dnssd\<close> has two faces on one port,
    \<^verbatim>\<open>k8s-ebpf\<close> is traced, and \<^verbatim>\<open>static\<close> and \<^verbatim>\<open>dynalloc\<close> keep their accounts in memory.

  \<^bold>\<open>Conventions.\<close> A struct is a record, an enumeration or a family of messages a datatype, and a method a
  function on the record that returns it updated. A Go error return and a run-time panic are values:
  \<open>Ok\<close>, \<open>Err\<close> and \<open>Panic\<close> of the type \<open>res\<close> (theory \<open>Prelude\<close>), or \<open>None\<close> for a panic where a function
  has no error return. What an actor sends, schedules, publishes or watches is appended to an outbox in
  its state. Random draws are read from a stream of numbers, the clock, the outcome of scheduling,
  spawning and writing, and the fate of a message on the network are arguments. Go's \<^verbatim>\<open>int\<close> is \<open>int\<close> or
  \<open>nat\<close> where the code keeps it far from its bounds, and a \<open>word\<close> where a width matters (bitsets of
  letters, the 64-bit proof, SHA-256). Amounts, which are \<^verbatim>\<open>float64\<close> in Go, are integers: the sums are exact
  then, which Go's are for amounts in whole units below \<open>2 ^ 53\<close>. Where a program computes with other numbers, the
  calculator of the agents and the taxes of the stream example, \<open>Go_Float\<close> has \<^verbatim>\<open>float64\<close> with its rounding.
  Text is ASCII.

  \<^bold>\<open>Theories.\<close>

  \<^item> \<open>Prelude\<close>, \<open>Go_Std\<close>, \<open>Actor\<close>: results, lists and multisets; \<^verbatim>\<open>sort.Search\<close>, \<^verbatim>\<open>rand.Shuffle\<close>, \<^verbatim>\<open>rand.IntN\<close> and
    strings; and the interfaces. \<open>actor\<close> (a receive function, an invariant and the messages it accepts:
    no reachable state panics), \<open>total_actor\<close> and \<open>codec\<close> (everything that is encoded is decoded again).
  \<^item> \<open>Go_Float\<close>, \<open>Go_Regexp\<close>: the double-precision numbers with rounding to nearest even, their parsing and their
    printing to two decimals, and what they do on whole numbers; and the leftmost-first search of \<^verbatim>\<open>regexp\<close>, with its
    captures, shown to find a match exactly when the language of the expression has one.
  \<^item> \<open>Scrabble_Lang\<close>, \<open>_Bag\<close>, \<open>_Dawg\<close>, \<open>_Board\<close>, \<open>_Move\<close>, \<open>_Endgame\<close>, \<open>_Bot\<close>: the files \<^verbatim>\<open>lang.go\<close>, \<^verbatim>\<open>tile.go\<close>,
    \<^verbatim>\<open>bag.go\<close>, \<^verbatim>\<open>rack.go\<close>, \<^verbatim>\<open>dict.go\<close>, \<^verbatim>\<open>dawg.go\<close>, \<^verbatim>\<open>board.go\<close>, \<^verbatim>\<open>move.go\<close>, \<^verbatim>\<open>endgame.go\<close> and \<^verbatim>\<open>bot.go\<close> of the engine.
    \<open>_Dawg\<close> has the interface \<open>dictionary\<close> the validator relies on, and its interpretation.
  \<^item> \<open>Scrabble_Legal\<close>: what a legal move is, stated from the rules, and the proof that \<open>Validate\<close> decides it.
    \<open>_Search\<close> and \<open>_Complete\<close>: the moves that the generator emits are the legal ones.
  \<^item> \<open>Scrabble_Wire\<close>: \<^verbatim>\<open>wire.go\<close>, \<^verbatim>\<open>registry.go\<close> and the actor of \<^verbatim>\<open>bot.go\<close>; the encodings interpret \<open>codec\<close>.
  \<^item> \<open>Scrabble_Room\<close>: \<^verbatim>\<open>room.go\<close>, all four behaviours. \<open>_Room_Inv\<close>, \<open>_Room_Run\<close> and \<open>_Room_Turns\<close>: its
    invariant, its runs (it interprets \<open>actor\<close>) and its turns.
  \<^item> \<open>Room_Codes\<close>, \<open>Scrabble_Lobby\<close>, \<open>_Session\<close>, \<open>_Records\<close>: the codes of rooms, \<^verbatim>\<open>lobby.go\<close> with \<open>resolveRoom\<close> of \<^verbatim>\<open>gateway.go\<close>, \<^verbatim>\<open>session.go\<close>,
    \<^verbatim>\<open>profile.go\<close> and \<^verbatim>\<open>leaderboard.go\<close>. \<open>Replicated\<close>, \<open>_Leaders\<close>: the replicated store the leaderboards rely on,
    with the interface \<open>win_board\<close>, and the leaderboard over it.
  \<^item> \<open>Scrabble_Example\<close>, \<open>_Engine\<close>, \<open>_Game\<close>, \<open>_Service\<close>: a concrete position, and the properties of the engine,
    of a room with its bots, and of what surrounds it.
  \<^item> \<open>Bank\<close>, \<open>TwoPC\<close>, \<open>Saga\<close>: what the transfer services share, with the interface \<open>atomic_transfers\<close> (a step
    moves an amount or changes nothing, so the total is conserved), and the two services, which
    interpret it. \<open>Transfer_Service\<close>: the handlers for accounts and for the state of a transfer.
  \<^item> \<open>Accounts\<close>: the durable accounts over a heap of records, which the store shares by pointer; the interface
    \<open>durable_account\<close>, which both kinds of account interpret. \<open>Passivation\<close>: the interface \<open>passivated\<close> of virtual
    actors with a store, which the twins of \<open>Device_Twin\<close> and the profiles of Pictograph interpret. \<open>Grains_Cluster\<close>: the clustered
    grain, its table and its service. \<open>Behaviors\<close>: the account with four behaviours, over an abstract stack of them.
  \<^item> \<open>Cluster\<close>: entity, gateway and handlers of the service for several data centers. \<open>Cluster_K8s\<close>: the two wire
    formats (\<open>codec\<close>), the entity and the two modes of the service. \<open>Cluster_Dnssd\<close>, \<open>Cluster_Ebpf\<close>: the other two
    services over the same table, reduced to the first. \<open>Cluster_Memory\<close>: the accounts in memory and their two services.
  \<^item> \<open>Pictograph_Room\<close>, \<open>_Game\<close>, \<open>_Session\<close>: \<^verbatim>\<open>room.go\<close> and \<^verbatim>\<open>words.go\<close>, the invariant of a room with its scores,
    drawers and timers (it interprets \<open>total_actor\<close>), and \<^verbatim>\<open>session.go\<close>. The points for a guess are computed
    in \<^verbatim>\<open>float64\<close> in Go and truncated; the model has the truncated exact value, which agrees for the times
    from 0 to 80 seconds that occur. \<open>_Lobby\<close>: \<^verbatim>\<open>lobby.go\<close>, \<^verbatim>\<open>profile.go\<close> and the room request of \<^verbatim>\<open>gateway.go\<close>;
    \<open>_Leaderboard\<close>: \<^verbatim>\<open>leaderboard.go\<close>.
  \<^item> \<open>Chat\<close>: \<^verbatim>\<open>wire.go\<close>, \<^verbatim>\<open>server.go\<close>, the client actor and the input loop of \<^verbatim>\<open>cmd/client.go\<close>; the formats interpret
    \<open>codec\<close>, the server \<open>total_actor\<close>.
  \<^item> \<open>Tetris\<close>: \<^verbatim>\<open>match.go\<close> and \<^verbatim>\<open>types.go\<close>; it interprets \<open>actor\<close>. \<open>Tetris_Gateway\<close>: \<^verbatim>\<open>matchmaker.go\<close>, \<^verbatim>\<open>session.go\<close> and
    \<^verbatim>\<open>gateway.go\<close>; a connection is a step relation of gateway, session and match.
  \<^item> \<open>Ws_Gateway\<close>, \<open>Scrabble_Gateway\<close>, \<open>Pictograph_Gateway\<close>: the handlers of a web socket in the two \<^verbatim>\<open>gateway.go\<close>, with
    the interface \<open>session_bridge\<close> between a connection and its room, which both sessions interpret.
  \<^item> \<open>AI_Llm\<close>, \<open>AI_Agents\<close>: the packages \<^verbatim>\<open>llm\<close>, \<^verbatim>\<open>actors\<close> and \<^verbatim>\<open>service\<close> of \<^verbatim>\<open>goakt-ai\<close>. \<open>Stream_Demo\<close>: the actors, records and
    functions of \<^verbatim>\<open>goakt-stream/main.go\<close>.
  \<^item> \<open>Sha256\<close>, \<open>Sha256_Example\<close>, \<open>Blockchain\<close>: the digest and the encoders of the Go library, a digest evaluated
    by the simplifier, and \<^verbatim>\<open>chain.go\<close>, \<^verbatim>\<open>replica.go\<close>, \<^verbatim>\<open>pebble.go\<close>, \<^verbatim>\<open>node.go\<close>, \<^verbatim>\<open>broker.go\<close> and \<^verbatim>\<open>miner.go\<close>. The
    replica interprets \<open>actor\<close>; the pod of the node is a step relation. \<open>Blockchain_Service\<close>: the REST handlers.

  \<^bold>\<open>What is shown.\<close> Of the engine: \<open>Validate\<close> accepts exactly the legal moves and scores them by the rules;
  the generator finds exactly the legal moves of a rack and the bot plays a best one; the dictionary
  holds the words it was built from; tiles are conserved by drawing, exchanging and removing. Of a room:
  no panic and no tile lost in any run in which the seats stay the same while a game is on, what each
  kind of turn does, and what a late joiner or a departure breaks. Of the services: a transfer is all or
  nothing and the total is conserved under the stated faults; and the faults under which it is not. Of
  the chain: every replica's chain is valid and only grows, a restart gives it back, a tip determines its
  chain up to a collision of the digest, catching up reaches the longest chain of the peers; and how an
  acknowledged transaction can be lost. Of a match: no message panics, lines are cleared as they should
  be, the landing hint is where a hard drop ends. Of Pictograph: what a player who does not draw is shown does
  not depend on the secret word beyond its mask, a guess pays once and within its bounds, the timers alone
  bring a game to its end, lobby, room and session agree on the topic, and the top list shows the recorded wins. Of the chat: a line is shown once to
  everybody else in the room whichever formats are spoken, a newcomer is replayed the last twenty posts, and
  changing rooms disturbs nobody else; neither side sends what the other does not handle. Of accounts and twins: stopping and starting them again is invisible,
  a credit is applied at most once wherever the account runs; and where the code loses or repeats an amount. Of
  the deployments: the two modes of the Kubernetes service agree on every sequence of requests, and where the two
  faces of the DNS service do not. Of the agents: which queries are computed and what is answered, and that a
  failed request shows a key to the client. Of gateways: a connection speaks for one player, and which matches
  are left running. Of the account with behaviours: its answers follow one protocol.

  \<^bold>\<open>Termination and bounds.\<close> Every function is total but the search for a proof of work, which Go does
  not bound either: it is a partial function, and ends with the least valid proof exactly when there is
  one. The recursion of the move generator is bounded by the board and the rack; the gateway's search
  for a room is bounded by its deadline, at most 12 look-ups (40 in Pictograph and in Tetris); the spawn of
  the orchestrator is tried at most ten times; a hard drop is bounded by the height of the board. No
  fuel is used.

  \<^bold>\<open>Not modelled.\<close> The GoAkt library (its delivery of messages one at a time is the interface \<open>actor\<close>; what it
  finds, loses or refuses is an argument, and so are the operations on behaviours), HTTP, JSON and web-socket
  plumbing, tracing, configuration and process wiring, generated code, the Postgres and replicated stores and the
  language models themselves, the pipelines of the stream examples, which compose third-party operators, and the
  small demonstrations, which have no logic of their own. \<^verbatim>\<open>goakt-cluster/multi-dc-isolated\<close> is
  \<^verbatim>\<open>goakt-cluster/multi-dc\<close> but for its import paths.
\<close>

end
